(* ===== verification/Prelude.thy ===== *)
theory Prelude
  imports Main "HOL-Library.Word"
begin

text \<open>
  The shared ground of the development: the machine integers and byte buffers of the C code,
  the two C idioms every component uses (\<open>memcpy\<close> into a buffer and reading a field of one),
  and the generic facts on byte strings that carry the component proofs.

  A C array is a list and a write into it returns the new list. The two byte orders of the
  repository are specified once, by \<open>le_word\<close> / \<open>le_bytes\<close> (little endian) and
  \<open>be_word\<close> / \<open>be_bytes\<close> (big endian); the components prove that their own loaders
  and stores are instances of these.

  Collections: \<open>buf_simps\<close> rewrites reads of buffers built by \<open>memcpy\<close> and \<open>@\<close>,
  \<open>byte_simps\<close> rewrites the byte-order conversions.
\<close>

unbundle bit_operations_syntax

named_theorems buf_simps \<open>reads of buffers built by memcpy and append\<close>
named_theorems byte_simps \<open>byte-order conversions\<close>

section \<open>Machine integers and buffers\<close>

type_synonym u8 = "8 word"
type_synonym u16 = "16 word"
type_synonym u32 = "32 word"
type_synonym u64 = "64 word"
type_synonym bytes = "8 word list"

text \<open>The bytes of a C string literal, without its terminating NUL.\<close>

definition text_bytes :: "string \<Rightarrow> bytes" where
  "text_bytes s = map of_char s"

lemma length_text_bytes [simp]: "length (text_bytes s) = length s"
  by (simp add: text_bytes_def)

text \<open>\<open>memcpy (dst + off, src, length src)\<close>, for a copy that stays inside \<open>dst\<close>.\<close>

definition memcpy :: "'a list \<Rightarrow> nat \<Rightarrow> 'a list \<Rightarrow> 'a list" where
  "memcpy dst off src = take off dst @ src @ drop (off + length src) dst"

text \<open>The \<open>n\<close> bytes at offset \<open>off\<close> of a buffer: the C expression \<open>p + off\<close>
  passed with a length.\<close>

definition slice :: "'a list \<Rightarrow> nat \<Rightarrow> nat \<Rightarrow> 'a list" where
  "slice xs off n = take n (drop off xs)"

lemma length_memcpy [simp]:
  "off + length src \<le> length dst \<Longrightarrow> length (memcpy dst off src) = length dst"
  by (simp add: memcpy_def)

lemma length_slice [simp]: "off + n \<le> length xs \<Longrightarrow> length (slice xs off n) = n"
  by (simp add: slice_def)

lemma nth_slice [simp]: "off + n \<le> length xs \<Longrightarrow> i < n \<Longrightarrow> slice xs off n ! i = xs ! (off + i)"
  by (simp add: slice_def)

lemma slice_all [simp]: "length xs = n \<Longrightarrow> slice xs 0 n = xs"
  by (simp add: slice_def)

lemma slice_append_left [buf_simps]:
  "off + n \<le> length xs \<Longrightarrow> slice (xs @ ys) off n = slice xs off n"
  by (simp add: slice_def)

lemma slice_append_right [buf_simps]:
  "length xs \<le> off \<Longrightarrow> slice (xs @ ys) off n = slice ys (off - length xs) n"
  by (simp add: slice_def)

lemma memcpy_front [buf_simps]:
  "length src \<le> length dst \<Longrightarrow> memcpy dst 0 src = src @ drop (length src) dst"
  by (simp add: memcpy_def)

lemma memcpy_append [buf_simps]:
  "length xs = off \<Longrightarrow> memcpy (xs @ ys) off src = xs @ memcpy ys 0 src"
  by (simp add: memcpy_def)

lemma memcpy_memcpy:
  "off = length xs \<Longrightarrow> length xs + length ys \<le> length out \<Longrightarrow>
   memcpy (memcpy out 0 xs) off ys = memcpy out 0 (xs @ ys)"
  by (simp add: memcpy_def add.commute)

text \<open>A buffer is its first \<open>n\<close> bytes and the rest; the rest of a slice is a slice.\<close>

lemma slice_take: "a + n \<le> m \<Longrightarrow> slice (take m xs) a n = slice xs a n"
  by (simp add: slice_def drop_take min_def)

lemma slice_drop: "slice (drop k xs) a n = slice xs (k + a) n"
  by (simp add: slice_def add.commute)

lemma take_slice: "take n xs = slice xs 0 n"
  by (simp add: slice_def)

lemma slice_split: "slice xs off (m + n) = slice xs off m @ slice xs (off + m) n"
  by (simp add: slice_def take_add add.commute)

lemma slice_append_slice: "m \<le> n \<Longrightarrow> slice xs off m @ slice xs (off + m) (n - m) = slice xs off n"
  using slice_split [of xs off m "n - m"] by simp

section \<open>Ranges of machine integers\<close>

lemma unat_u8_less: "unat (x :: u8) < 256"
  using unsigned_less [where ?'a = nat and ?'b = 8, of x] by simp

lemma unat_u16_less: "unat (x :: u16) < 65536"
  using unsigned_less [where ?'a = nat and ?'b = 16, of x] by simp

lemma unat_of_nat_u8: "n < 256 \<Longrightarrow> unat (of_nat n :: u8) = n"
  by (simp add: unsigned_of_nat take_bit_nat_eq_self)

lemma unat_of_nat_u16: "n < 65536 \<Longrightarrow> unat (of_nat n :: u16) = n"
  by (simp add: unsigned_of_nat take_bit_nat_eq_self)

lemma ucast_of_nat_u16: "(ucast (of_nat n :: u16) :: u8) = of_nat n"
  by (simp add: unsigned_of_nat word_of_nat_eq_iff)

lemma uint_u16_less: "0 \<le> uint (x :: u16)" "uint (x :: u16) < 65536"
  using unsigned_less [where ?'a = int and ?'b = 16, of x] by simp_all

lemma sint_s16_range: "- 32768 \<le> sint (x :: 16 word)" "sint (x :: 16 word) < 32768"
  using sint_ge [of x] sint_lt [of x] by simp_all

section \<open>Little-endian and big-endian byte strings\<close>

primrec le_word :: "bytes \<Rightarrow> 'a::len word" where
  "le_word [] = 0"
| "le_word (b # bs) = ucast b OR push_bit 8 (le_word bs)"

definition le_bytes :: "nat \<Rightarrow> 'a::len word \<Rightarrow> bytes" where
  "le_bytes n v = map (\<lambda>i. ucast (drop_bit (8 * i) v)) [0..<n]"

definition be_word :: "bytes \<Rightarrow> 'a::len word" where
  "be_word bs = le_word (rev bs)"

definition be_bytes :: "nat \<Rightarrow> 'a::len word \<Rightarrow> bytes" where
  "be_bytes n v = rev (le_bytes n v)"

lemma length_le_bytes [simp]: "length (le_bytes n v) = n"
  by (simp add: le_bytes_def)

lemma length_be_bytes [simp]: "length (be_bytes n v) = n"
  by (simp add: be_bytes_def)

lemma bit_le_word:
  "bit (le_word bs :: 'a::len word) k \<longleftrightarrow>
     k < LENGTH('a) \<and> k div 8 < length bs \<and> bit (bs ! (k div 8)) (k mod 8)"
proof (induction bs arbitrary: k)
  case Nil
  then show ?case by simp
next
  case (Cons b bs)
  show ?case
  proof (cases "k < 8")
    case True
    then show ?thesis by (auto simp: bit_simps)
  next
    case False
    then have "k div 8 = Suc ((k - 8) div 8)" and "k mod 8 = (k - 8) mod 8"
      by (simp_all add: le_div_geq le_mod_geq)
    moreover have "\<not> bit b k" using False by (auto dest: bit_imp_le_length)
    ultimately show ?thesis using False by (auto simp: bit_simps Cons.IH)
  qed
qed

lemma nth_le_bytes [simp]: "i < n \<Longrightarrow> le_bytes n v ! i = ucast (drop_bit (8 * i) v)"
  by (simp add: le_bytes_def)

lemma bit_le_word_le_bytes:
  "bit (le_word (le_bytes n (v :: 'b::len word)) :: 'a::len word) k \<longleftrightarrow>
     k < LENGTH('a) \<and> k < 8 * n \<and> bit v k"
proof (cases "k div 8 < n")
  case True
  then show ?thesis by (auto simp: bit_le_word bit_simps mult.commute div_less_iff_less_mult)
next
  case False
  then show ?thesis by (auto simp: bit_le_word mult.commute div_less_iff_less_mult)
qed

lemma bit_le_word_length:
  "bit (le_word bs :: 'a::len word) k \<Longrightarrow> k < 8 * length bs"
  by (auto simp: bit_le_word mult.commute div_less_iff_less_mult)

lemma le_word_le_bytes:
  "LENGTH('a::len) = 8 * n \<Longrightarrow> le_word (le_bytes n v) = (v :: 'a word)"
  by (rule bit_word_eqI) (auto simp: bit_le_word bit_simps less_mult_imp_div_less mult.commute)

lemma le_bytes_le_word:
  assumes "length bs = n" and "8 * n \<le> LENGTH('a::len)"
  shows "le_bytes n (le_word bs :: 'a word) = bs"
proof (rule nth_equalityI)
  show "length (le_bytes n (le_word bs :: 'a word)) = length bs" using assms by simp
next
  fix i assume "i < length (le_bytes n (le_word bs :: 'a word))"
  then have i: "i < n" by simp
  have "ucast (drop_bit (8 * i) (le_word bs :: 'a word)) = bs ! i"
  proof (rule bit_word_eqI)
    fix k assume "k < LENGTH(8)"
    then have k: "k < 8" by simp
    with i assms(2) have "8 * i + k < LENGTH('a)" by simp
    with i k assms(1) show "bit (ucast (drop_bit (8 * i) (le_word bs :: 'a word)) :: u8) k = bit (bs ! i) k"
      by (simp add: bit_simps bit_le_word)
  qed
  with i show "le_bytes n (le_word bs :: 'a word) ! i = bs ! i" by simp
qed

lemma be_word_be_bytes [byte_simps]:
  "LENGTH('a::len) = 8 * n \<Longrightarrow> be_word (be_bytes n v) = (v :: 'a word)"
  by (simp add: be_word_def be_bytes_def le_word_le_bytes)

lemma be_bytes_be_word [byte_simps]:
  "length bs = n \<Longrightarrow> 8 * n \<le> LENGTH('a::len) \<Longrightarrow> be_bytes n (be_word bs :: 'a word) = bs"
  by (simp add: be_word_def be_bytes_def le_bytes_le_word)

lemma be_bytes_inject:
  "LENGTH('a::len) = 8 * n \<Longrightarrow> be_bytes n (v :: 'a word) = be_bytes n w \<longleftrightarrow> v = w"
  by (metis be_word_be_bytes)

text \<open>The Horner form of the big-endian loaders.\<close>

lemma be_word_Nil [simp]: "be_word [] = 0"
  by (simp add: be_word_def)

lemma be_word_snoc: "be_word (bs @ [b]) = push_bit 8 (be_word bs) OR ucast b"
  by (simp add: be_word_def or.commute)

lemma foldl_be_word:
  "foldl (\<lambda>v b. push_bit 8 v OR ucast b) 0 bs = (be_word bs :: 'a::len word)"
  by (induction bs rule: rev_induct) (simp_all add: be_word_snoc)

lemma le_word_append:
  "le_word (xs @ ys) = le_word xs OR push_bit (8 * length xs) (le_word ys)"
  by (induction xs) (simp_all add: or.assoc push_bit_or)

text \<open>Stores by repeated shifting: writing \<open>(uint8_t)value\<close> and \<open>value >>= 8\<close>.\<close>

lemma le_bytes_Suc: "le_bytes (Suc n) v = ucast v # le_bytes n (drop_bit 8 v)"
  by (simp add: le_bytes_def upt_conv_Cons map_Suc_upt [symmetric] add.commute del: upt_Suc)

section \<open>Rotations\<close>

text \<open>The C idiom \<open>(v >> n) | (v << (w - n))\<close> and its mirror image.\<close>

lemma rotr_shifts:
  assumes "0 < n" and "n < LENGTH('a::len)"
  shows "drop_bit n v OR push_bit (LENGTH('a) - n) v = word_rotr n (v :: 'a word)"
proof (rule bit_word_eqI)
  fix k assume k: "k < LENGTH('a)"
  show "bit (drop_bit n v OR push_bit (LENGTH('a) - n) v) k = bit (word_rotr n v) k"
  proof (cases "k + n < LENGTH('a)")
    case True
    with assms k show ?thesis by (auto simp: bit_simps add.commute)
  next
    case False
    with assms k have "(k + n) mod LENGTH('a) = k + n - LENGTH('a)"
      and "k - (LENGTH('a) - n) = k + n - LENGTH('a)"
      by (simp_all add: le_mod_geq)
    moreover from False have "\<not> bit v (n + k)"
      using bit_imp_le_length [of v "n + k"] by auto
    ultimately show ?thesis using False k by (auto simp: bit_simps)
  qed
qed

lemma rotl_shifts:
  assumes "0 < n" and "n < LENGTH('a::len)"
  shows "push_bit n v OR drop_bit (LENGTH('a) - n) v = word_rotl n (v :: 'a word)"
proof -
  have "word_rotl n v = word_rotr (LENGTH('a) - n) v"
  proof (rule bit_word_eqI)
    fix k assume k: "k < LENGTH('a)"
    have "(k + (LENGTH('a) - n)) mod LENGTH('a) = (if k < n then k + (LENGTH('a) - n) else k - n)"
      using assms k by (simp add: le_mod_geq)
    with assms k show "bit (word_rotl n v) k = bit (word_rotr (LENGTH('a) - n) v) k"
      by (simp add: bit_word_rotl_iff bit_word_rotr_iff)
  qed
  with rotr_shifts [of "LENGTH('a) - n" v] assms show ?thesis by (simp add: or.commute)
qed

section \<open>Loops\<close>

text \<open>A counted C loop is a \<open>fold\<close> over its index range; the two induction principles used
  for its invariants.\<close>

lemma fold_upt_invariant:
  assumes "P m s" and "\<And>i t. m \<le> i \<Longrightarrow> i < n \<Longrightarrow> P i t \<Longrightarrow> P (Suc i) (f i t)" and "m \<le> n"
  shows "P n (fold f [m..<n] s)"
  using assms(3,2)
proof (induction n)
  case 0
  with assms(1) show ?case by simp
next
  case (Suc n)
  show ?case
  proof (cases "m \<le> n")
    case True
    then have "P n (fold f [m..<n] s)" using Suc.IH Suc.prems(2) by simp
    with True Suc.prems(2) show ?thesis by simp
  next
    case False
    with Suc.prems(1) have "m = Suc n" by simp
    with assms(1) show ?thesis by simp
  qed
qed

lemma fold_invariant_set:
  assumes "P s" and "\<And>x t. x \<in> set xs \<Longrightarrow> P t \<Longrightarrow> P (f x t)"
  shows "P (fold f xs s)"
  using assms by (induction xs arbitrary: s) auto

end
