(* ===== verification/Common.thy ===== *)
theory Common
  imports Prelude
begin

text \<open>
  The helpers every component of the library calls: the result codes of \<open>common.h\<close>, the
  constant-time comparison and the memory wipe (defined in \<open>mlkem512_stream.c\<close>), and the
  big-endian loads and stores of \<open>session/crypto.c\<close>.
\<close>

unbundle bit_operations_syntax

section \<open>Result codes\<close>

datatype status =
    C0PQLINK_OK
  | C0PQLINK_ERR_ARGUMENT
  | C0PQLINK_ERR_KEY_ENCODING
  | C0PQLINK_ERR_IO
  | C0PQLINK_ERR_AUTH
  | C0PQLINK_ERR_STATE
  | C0PQLINK_ERR_REPLAY
  | C0PQLINK_ERR_EXPIRED
  | C0PQLINK_ERR_CAPACITY
  | C0PQLINK_ERR_RNG

section \<open>Constant-time comparison and wipe\<close>

text \<open>The wipe zeroes the first \<open>len\<close> bytes it is given; the comparison ORs the XOR of every
  byte pair before it looks at the result.\<close>

fun c0pqlink_secure_zero :: "bytes \<Rightarrow> nat \<Rightarrow> bytes" where
  "c0pqlink_secure_zero bs 0 = bs"
| "c0pqlink_secure_zero [] (Suc len) = []"
| "c0pqlink_secure_zero (b # bs) (Suc len) = 0 # c0pqlink_secure_zero bs len"

definition c0pqlink_ct_equal :: "bytes \<Rightarrow> bytes \<Rightarrow> nat \<Rightarrow> bool" where
  "c0pqlink_ct_equal a b len =
     (fold (\<lambda>i difference. difference OR (a ! i XOR b ! i)) [0..<len] 0 = 0)"

section \<open>Big-endian stores and loads\<close>

definition c0pq_store16_be :: "u16 \<Rightarrow> bytes" where
  "c0pq_store16_be value = [ucast (drop_bit 8 value), ucast value]"

definition c0pq_store32_be :: "u32 \<Rightarrow> bytes" where
  "c0pq_store32_be value =
     [ucast (drop_bit 24 value), ucast (drop_bit 16 value), ucast (drop_bit 8 value), ucast value]"

definition c0pq_store64_be :: "u64 \<Rightarrow> bytes" where
  "c0pq_store64_be value =
     fst (fold (\<lambda>i (output, v). (output[7 - i := ucast v], drop_bit 8 v))
           [0..<8] (replicate 8 0, value))"

definition c0pq_load16_be :: "bytes \<Rightarrow> u16" where
  "c0pq_load16_be input = push_bit 8 (ucast (input ! 0)) OR ucast (input ! 1)"

definition c0pq_load32_be :: "bytes \<Rightarrow> u32" where
  "c0pq_load32_be input =
     push_bit 24 (ucast (input ! 0)) OR push_bit 16 (ucast (input ! 1))
       OR push_bit 8 (ucast (input ! 2)) OR ucast (input ! 3)"

definition c0pq_load64_be :: "bytes \<Rightarrow> u64" where
  "c0pq_load64_be input =
     fold (\<lambda>i value. push_bit 8 value OR ucast (input ! i)) [0..<8] 0"

section \<open>What the helpers compute\<close>

lemma secure_zero_replicate [simp]:
  "len \<le> length bs \<Longrightarrow> c0pqlink_secure_zero bs len = replicate len 0 @ drop len bs"
  by (induction bs len rule: c0pqlink_secure_zero.induct) auto

lemma secure_zero_all: "c0pqlink_secure_zero bs (length bs) = replicate (length bs) 0"
  by simp

lemma word_or_eq_0: "(x OR y = (0 :: 'a::len word)) \<longleftrightarrow> x = 0 \<and> y = 0"
  by (auto simp: bit_eq_iff bit_simps)

lemma word_xor_eq_0: "(x XOR y = (0 :: 'a::len word)) \<longleftrightarrow> x = y"
  by (auto simp: bit_eq_iff bit_simps)

lemma word_xor_left_cancel: "x XOR y = x XOR z \<longleftrightarrow> y = (z :: 'a::len word)"
  by (auto simp: bit_eq_iff bit_simps)

lemma map2_xor_inject:
  "length a = length b \<Longrightarrow> length a = length c \<Longrightarrow> map2 (XOR) a b = map2 (XOR) a c \<Longrightarrow> b = (c :: bytes)"
proof (induction a arbitrary: b c)
  case (Cons x a)
  then obtain y b' z c' where "b = y # b'" "c = z # c'" by (metis length_Suc_conv)
  with Cons show ?case by (auto simp: word_xor_left_cancel)
qed simp

lemma fold_difference:
  "fold (\<lambda>i d. d OR (a ! i XOR b ! i)) xs d0 = (0 :: u8) \<longleftrightarrow> d0 = 0 \<and> (\<forall>i\<in>set xs. a ! i = b ! i)"
  by (induction xs arbitrary: d0) (auto simp: word_or_eq_0 word_xor_eq_0)

lemma ct_equal_iff:
  "len \<le> length a \<Longrightarrow> len \<le> length b \<Longrightarrow> c0pqlink_ct_equal a b len \<longleftrightarrow> take len a = take len b"
  by (auto simp: c0pqlink_ct_equal_def fold_difference list_eq_iff_nth_eq)

lemma ct_equal_eq [simp]:
  "length a = len \<Longrightarrow> length b = len \<Longrightarrow> c0pqlink_ct_equal a b len \<longleftrightarrow> a = b"
  by (simp add: ct_equal_iff)

lemma upt_8: "[0..<8] = [0, 1, 2, 3, 4, 5, 6, 7 :: nat]"
  by (simp add: upt_rec)

lemma replicate_8: "replicate 8 x = [x, x, x, x, x, x, x, x]"
  by (simp add: numeral_eq_Suc)

lemma list_of_length2: "length xs = 2 \<Longrightarrow> xs = [xs ! 0, xs ! 1]"
  by (auto simp: numeral_eq_Suc length_Suc_conv)

lemma list_of_length4: "length xs = 4 \<Longrightarrow> xs = [xs ! 0, xs ! 1, xs ! 2, xs ! 3]"
  by (auto simp: numeral_eq_Suc length_Suc_conv)

lemma list_of_length8:
  "length xs = 8 \<Longrightarrow> xs = [xs ! 0, xs ! 1, xs ! 2, xs ! 3, xs ! 4, xs ! 5, xs ! 6, xs ! 7]"
  by (auto simp: numeral_eq_Suc length_Suc_conv)

lemma store16_be [byte_simps]: "c0pq_store16_be v = be_bytes 2 v"
  by (simp add: c0pq_store16_be_def be_bytes_def le_bytes_def numeral_2_eq_2)

lemma store32_be [byte_simps]: "c0pq_store32_be v = be_bytes 4 v"
  by (simp add: c0pq_store32_be_def be_bytes_def le_bytes_def upt_rec)

lemma store64_be [byte_simps]: "c0pq_store64_be v = be_bytes 8 v"
  by (simp add: c0pq_store64_be_def be_bytes_def le_bytes_def upt_8 replicate_8)

lemma load16_be [byte_simps]: "length bs = 2 \<Longrightarrow> c0pq_load16_be bs = be_word bs"
  by (subst (2) list_of_length2) (simp_all add: c0pq_load16_be_def foldl_be_word [symmetric])

lemma load32_be [byte_simps]: "length bs = 4 \<Longrightarrow> c0pq_load32_be bs = be_word bs"
  by (subst (2) list_of_length4) (simp_all add: c0pq_load32_be_def foldl_be_word [symmetric] push_bit_or or.assoc)

lemma load64_be [byte_simps]: "length bs = 8 \<Longrightarrow> c0pq_load64_be bs = be_word bs"
proof -
  assume len: "length bs = 8"
  have "fold (\<lambda>i value. push_bit 8 value OR ucast (bs ! i)) [0..<8] 0
      = fold (\<lambda>b value. push_bit 8 value OR ucast b) (map ((!) bs) [0..<8]) (0 :: u64)"
    by (simp add: fold_map comp_def)
  also have "map ((!) bs) [0..<8] = bs" using len by (metis map_nth)
  finally show ?thesis
    by (simp add: c0pq_load64_be_def foldl_be_word [symmetric] foldl_conv_fold)
qed

end
