(* ===== verification/Interfaces.thy ===== *)
theory Interfaces
  imports Common
begin

text \<open>
  The contracts between the components, as locales. A provider interprets its locale on its own
  definitions; the clients use the facts proved here.

  \<^item> \<open>streaming_hash\<close>: an incremental hash context and the one-shot function it computes.
    Provider: SHA-256; clients: HMAC, the handshake transcript.
  \<^item> \<open>aead\<close>: authenticated encryption with a detached tag. Provider: Ascon-AEAD128;
    client: the protected records.
  \<^item> \<open>byte_source\<close>: a reader that hands out a byte string front to back. Provider: the UART of the
    NanoPQ firmware and a string in memory; clients: the streaming signature verifiers.
\<close>

section \<open>Incremental hashing\<close>

locale streaming_hash =
  fixes hinit :: 'ctx
    and hupdate :: "'ctx \<Rightarrow> bytes \<Rightarrow> 'ctx"
    and hfinal :: "'ctx \<Rightarrow> bytes \<times> 'ctx"
    and hash :: "bytes \<Rightarrow> bytes"
    and represents :: "'ctx \<Rightarrow> bytes \<Rightarrow> bool"
    and hlen :: nat
  assumes represents_init: "represents hinit []"
    and represents_update: "represents c m \<Longrightarrow> represents (hupdate c xs) (m @ xs)"
    and final_hash: "represents c m \<Longrightarrow> fst (hfinal c) = hash m"
    and length_hash: "length (hash m) = hlen"
begin

lemma represents_updates:
  "represents c m \<Longrightarrow> represents (fold (\<lambda>x d. hupdate d x) chunks c) (m @ concat chunks)"
proof (induction chunks arbitrary: c m)
  case Nil
  then show ?case by simp
next
  case (Cons x chunks)
  from represents_update [OF Cons.prems, of x] have "represents (hupdate c x) (m @ x)" .
  from Cons.IH [OF this] show ?case by simp
qed

lemma final_updates: "fst (hfinal (fold (\<lambda>x d. hupdate d x) chunks hinit)) = hash (concat chunks)"
  using represents_updates [OF represents_init, of chunks] by (simp add: final_hash)

lemma final_update1: "fst (hfinal (hupdate hinit xs)) = hash xs"
  using final_updates [of "[xs]"] by simp

lemma final_update2: "fst (hfinal (hupdate (hupdate hinit xs) ys)) = hash (xs @ ys)"
  using final_updates [of "[xs, ys]"] by simp

lemma length_final: "represents c m \<Longrightarrow> length (fst (hfinal c)) = hlen"
  by (simp add: final_hash length_hash)

end

section \<open>Authenticated encryption\<close>

text \<open>Decryption reports a status and the contents of the plaintext buffer. It accepts a
  ciphertext and tag exactly when encryption produces them from the plaintext it returns, and
  otherwise reports an authentication error over a zeroed buffer.\<close>

locale aead =
  fixes encrypt :: "bytes \<Rightarrow> bytes \<Rightarrow> bytes \<Rightarrow> bytes \<Rightarrow> bytes \<times> bytes"
    and decrypt :: "bytes \<Rightarrow> bytes \<Rightarrow> bytes \<Rightarrow> bytes \<Rightarrow> bytes \<Rightarrow> status \<times> bytes"
    and tag_len :: nat
  assumes length_encrypt:
      "encrypt k n a p = (c, t) \<Longrightarrow> length c = length p \<and> length t = tag_len"
    and decrypt_accepts:
      "length t = tag_len \<Longrightarrow> decrypt k n a c t = (C0PQLINK_OK, p) \<longleftrightarrow> encrypt k n a p = (c, t)"
    and decrypt_rejects:
      "length t = tag_len \<Longrightarrow> fst (decrypt k n a c t) \<noteq> C0PQLINK_OK \<Longrightarrow>
       decrypt k n a c t = (C0PQLINK_ERR_AUTH, replicate (length c) 0)"
begin

lemma decrypt_encrypt: "encrypt k n a p = (c, t) \<Longrightarrow> decrypt k n a c t = (C0PQLINK_OK, p)"
  using length_encrypt [of k n a p c t] by (simp add: decrypt_accepts)

lemma length_fst_encrypt [simp]: "length (fst (encrypt k n a p)) = length p"
  using length_encrypt [of k n a p] by (cases "encrypt k n a p") simp

lemma length_snd_encrypt [simp]: "length (snd (encrypt k n a p)) = tag_len"
  using length_encrypt [of k n a p] by (cases "encrypt k n a p") simp

lemma encrypt_inject:
  "encrypt k n a p = (c, t) \<Longrightarrow> encrypt k n a p' = (c, t) \<Longrightarrow> p = p'"
  by (metis decrypt_encrypt prod.inject)

lemma decrypt_cases:
  assumes "length t = tag_len"
  obtains (accept) p where "decrypt k n a c t = (C0PQLINK_OK, p)" and "encrypt k n a p = (c, t)"
    and "length p = length c"
  | (reject) "decrypt k n a c t = (C0PQLINK_ERR_AUTH, replicate (length c) 0)"
    and "\<And>p. encrypt k n a p \<noteq> (c, t)"
proof (cases "fst (decrypt k n a c t) = C0PQLINK_OK")
  case True
  then obtain p where p: "decrypt k n a c t = (C0PQLINK_OK, p)" by (cases "decrypt k n a c t") auto
  with assms have "encrypt k n a p = (c, t)" by (simp add: decrypt_accepts)
  with p length_encrypt show ?thesis by (metis accept)
next
  case False
  then have "encrypt k n a p \<noteq> (c, t)" for p using decrypt_encrypt by fastforce
  with False assms decrypt_rejects show ?thesis by (metis reject)
qed

lemma length_decrypt:
  "length t = tag_len \<Longrightarrow> length (snd (decrypt k n a c t)) = length c"
  by (erule decrypt_cases [of t k n a c]) simp_all

end

section \<open>Reading a byte string front to back\<close>

text \<open>A read callback returns the bytes asked for, or fails; in either case its context moves on.
  The contract: as long as the source holds what a read asks for, the read returns exactly these
  bytes; when it holds less, the read fails.\<close>

type_synonym 'r read_fn = "'r \<Rightarrow> nat \<Rightarrow> bytes option \<times> 'r"

locale byte_source =
  fixes source_read :: "'r \<Rightarrow> nat \<Rightarrow> bytes option \<times> 'r"
    and pending_bytes :: "'r \<Rightarrow> bytes"
  assumes read_available: "0 < n \<Longrightarrow> n < 65536 \<Longrightarrow> n \<le> length (pending_bytes r) \<Longrightarrow>
      fst (source_read r n) = Some (take n (pending_bytes r)) \<and> pending_bytes (snd (source_read r n)) = drop n (pending_bytes r)"
    and read_exhausted: "length (pending_bytes r) < n \<Longrightarrow> fst (source_read r n) = None"

definition string_read :: "bytes read_fn" where
  "string_read bs n = (if n \<le> length bs then (Some (take n bs), drop n bs) else (None, bs))"

interpretation string_source: byte_source string_read "\<lambda>bs. bs"
  by unfold_locales (simp_all add: string_read_def)

end
