(* ===== verification/Sha256.thy ===== *)
theory Sha256
  imports Common Interfaces
begin

text \<open>
  \<open>core/sha256.c\<close>: the streaming SHA-256 with its 16-word rolling message schedule.
  The theory defines the context and its operations as the code has them and, beside them, the
  standard's description (the full 64-word schedule, padding of the whole message). It shows that
  the rolling schedule computes the full one and that any sequence of updates followed by
  \<open>final\<close> is the standard's hash of the concatenated input.
\<close>

unbundle bit_operations_syntax

section \<open>The compression function of the code\<close>

definition round_constants :: "u32 list" where
  "round_constants = concat [
    [0x428a2f98, 0x71374491], [0xb5c0fbcf, 0xe9b5dba5],
    [0x3956c25b, 0x59f111f1], [0x923f82a4, 0xab1c5ed5],
    [0xd807aa98, 0x12835b01], [0x243185be, 0x550c7dc3],
    [0x72be5d74, 0x80deb1fe], [0x9bdc06a7, 0xc19bf174],
    [0xe49b69c1, 0xefbe4786], [0x0fc19dc6, 0x240ca1cc],
    [0x2de92c6f, 0x4a7484aa], [0x5cb0a9dc, 0x76f988da],
    [0x983e5152, 0xa831c66d], [0xb00327c8, 0xbf597fc7],
    [0xc6e00bf3, 0xd5a79147], [0x06ca6351, 0x14292967],
    [0x27b70a85, 0x2e1b2138], [0x4d2c6dfc, 0x53380d13],
    [0x650a7354, 0x766a0abb], [0x81c2c92e, 0x92722c85],
    [0xa2bfe8a1, 0xa81a664b], [0xc24b8b70, 0xc76c51a3],
    [0xd192e819, 0xd6990624], [0xf40e3585, 0x106aa070],
    [0x19a4c116, 0x1e376c08], [0x2748774c, 0x34b0bcb5],
    [0x391c0cb3, 0x4ed8aa4a], [0x5b9cca4f, 0x682e6ff3],
    [0x748f82ee, 0x78a5636f], [0x84c87814, 0x8cc70208],
    [0x90befffa, 0xa4506ceb], [0xbef9a3f7, 0xc67178f2]]"

definition rotate_right32 :: "u32 \<Rightarrow> nat \<Rightarrow> u32" where
  "rotate_right32 value count = drop_bit count value OR push_bit (32 - count) value"

definition load32_be :: "bytes \<Rightarrow> u32" where
  "load32_be bs =
     push_bit 24 (ucast (bs ! 0)) OR push_bit 16 (ucast (bs ! 1))
       OR push_bit 8 (ucast (bs ! 2)) OR ucast (bs ! 3)"

definition store32_be :: "u32 \<Rightarrow> bytes" where
  "store32_be value =
     [ucast (drop_bit 24 value), ucast (drop_bit 16 value), ucast (drop_bit 8 value), ucast value]"

text \<open>The eight working variables \<open>a \<dots> h\<close>.\<close>

type_synonym sha_vars = "u32 \<times> u32 \<times> u32 \<times> u32 \<times> u32 \<times> u32 \<times> u32 \<times> u32"

text \<open>One pass of the round loop: from round 16 on the slot \<open>round & 15\<close> of the schedule is
  first replaced by the next schedule word; then the working variables move on.\<close>

definition sha256_schedule_step :: "nat \<Rightarrow> u32 list \<Rightarrow> u32 list" where
  "sha256_schedule_step round schedule =
     (if round \<ge> 16 then
        let x = schedule ! ((round - 15) mod 16);
            y = schedule ! ((round - 2) mod 16);
            sigma0 = rotate_right32 x 7 XOR rotate_right32 x 18 XOR drop_bit 3 x;
            sigma1 = rotate_right32 y 17 XOR rotate_right32 y 19 XOR drop_bit 10 y
        in schedule[round mod 16 :=
             schedule ! (round mod 16) + (sigma0 + schedule ! ((round - 7) mod 16) + sigma1)]
      else schedule)"

definition sha256_round :: "nat \<Rightarrow> u32 \<Rightarrow> sha_vars \<Rightarrow> sha_vars" where
  "sha256_round round word = (\<lambda>(a, b, c, d, e, f, g, h).
     let sum1 = rotate_right32 e 6 XOR rotate_right32 e 11 XOR rotate_right32 e 25;
         choice = (e AND f) XOR (NOT e AND g);
         temp1 = h + sum1 + choice + round_constants ! round + word;
         sum0 = rotate_right32 a 2 XOR rotate_right32 a 13 XOR rotate_right32 a 22;
         majority = (a AND b) XOR (a AND c) XOR (b AND c);
         temp2 = sum0 + majority
     in (temp1 + temp2, a, b, c, d + temp1, e, f, g))"

definition sha256_transform :: "u32 list \<Rightarrow> bytes \<Rightarrow> u32 list" where
  "sha256_transform state block =
     (let schedule = map (\<lambda>round. load32_be (slice block (4 * round) 4)) [0..<16];
          (schedule', (a, b, c, d, e, f, g, h)) =
            fold (\<lambda>round (sch, vars).
                    let sch' = sha256_schedule_step round sch
                    in (sch', sha256_round round (sch' ! (round mod 16)) vars))
              [0..<64]
              (schedule, (state ! 0, state ! 1, state ! 2, state ! 3,
                          state ! 4, state ! 5, state ! 6, state ! 7))
      in [state ! 0 + a, state ! 1 + b, state ! 2 + c, state ! 3 + d,
          state ! 4 + e, state ! 5 + f, state ! 6 + g, state ! 7 + h])"

section \<open>The streaming context\<close>

record c0_sha256_ctx =
  state :: "u32 list"
  total_bytes :: u64
  buffer :: bytes
  buffered :: u8

definition sha256_initial_state :: "u32 list" where
  "sha256_initial_state =
     [0x6a09e667, 0xbb67ae85, 0x3c6ef372, 0xa54ff53a,
      0x510e527f, 0x9b05688c, 0x1f83d9ab, 0x5be0cd19]"

definition c0_sha256_init :: c0_sha256_ctx where
  "c0_sha256_init =
     \<lparr>state = sha256_initial_state, total_bytes = 0, buffer = replicate 64 0, buffered = 0\<rparr>"

text \<open>The middle loop of \<open>c0_sha256_update\<close>: whole blocks straight from the input.\<close>

function sha256_update_blocks :: "u32 list \<Rightarrow> bytes \<Rightarrow> nat \<Rightarrow> u32 list \<times> nat" where
  "sha256_update_blocks st input used =
     (if length input - used \<ge> 64
      then sha256_update_blocks (sha256_transform st (slice input used 64)) input (used + 64)
      else (st, used))"
  by pat_completeness auto
termination
  by (relation "measure (\<lambda>(st, input, used). length input - used)") auto

declare sha256_update_blocks.simps [simp del]

text \<open>The first part of \<open>c0_sha256_update\<close>: completing a partly filled buffer.\<close>

definition sha256_fill_buffer :: "c0_sha256_ctx \<Rightarrow> bytes \<Rightarrow> c0_sha256_ctx \<times> nat" where
  "sha256_fill_buffer ctx input =
     (if buffered ctx \<noteq> 0 then
        let available = 64 - unat (buffered ctx);
            take_n = min (length input) available;
            ctx1 = ctx\<lparr>buffer := memcpy (buffer ctx) (unat (buffered ctx)) (take take_n input),
                       buffered := of_nat (unat (buffered ctx) + take_n)\<rparr>
        in if buffered ctx1 = 64
           then (ctx1\<lparr>state := sha256_transform (state ctx1) (buffer ctx1), buffered := 0\<rparr>, take_n)
           else (ctx1, take_n)
      else (ctx, 0))"

definition c0_sha256_update :: "c0_sha256_ctx \<Rightarrow> bytes \<Rightarrow> c0_sha256_ctx" where
  "c0_sha256_update ctx input =
     (if length input = 0 then ctx
      else
        let (ctx1, used) =
              sha256_fill_buffer (ctx\<lparr>total_bytes := total_bytes ctx + of_nat (length input)\<rparr>) input;
            (st, used') = sha256_update_blocks (state ctx1) input used;
            ctx2 = ctx1\<lparr>state := st\<rparr>
        in if used' < length input
           then ctx2\<lparr>buffer := memcpy (buffer ctx2) 0 (drop used' input),
                     buffered := of_nat (length input - used')\<rparr>
           else ctx2)"

text \<open>The wiped context and the digest \<open>c0_sha256_final\<close> leaves behind.\<close>

definition sha256_zero_ctx :: c0_sha256_ctx where
  "sha256_zero_ctx =
     \<lparr>state = replicate 8 0, total_bytes = 0, buffer = replicate 64 0, buffered = 0\<rparr>"

text \<open>Appending the marker byte; when the bit count no longer fits, a first padded block is
  compressed. The result is the state, the buffer and the fill level.\<close>

definition sha256_final_marker :: "c0_sha256_ctx \<Rightarrow> u32 list \<times> bytes \<times> nat" where
  "sha256_final_marker ctx =
     (let buf = (buffer ctx)[unat (buffered ctx) := 0x80];
          n = unat (buffered ctx + 1)
      in if n > 56
         then let b = memcpy buf n (replicate (64 - n) 0)
              in (sha256_transform (state ctx) b, b, 0)
         else (state ctx, buf, n))"

text \<open>Zeroing up to byte 56 and writing the bit count behind, from its last byte down.\<close>

definition sha256_final_count :: "bytes \<Rightarrow> nat \<Rightarrow> u64 \<Rightarrow> bytes" where
  "sha256_final_count buf n total_bits =
     fst (fold (\<lambda>i (b, bits). (b[63 - i := ucast bits], drop_bit 8 bits))
            [0..<8] (memcpy buf n (replicate (56 - n) 0), total_bits))"

definition c0_sha256_final :: "c0_sha256_ctx \<Rightarrow> bytes \<times> c0_sha256_ctx" where
  "c0_sha256_final ctx =
     (let total_bits = total_bytes ctx * 8;
          (st, buf, n) = sha256_final_marker ctx;
          st' = sha256_transform st (sha256_final_count buf n total_bits);
          output = concat (map (\<lambda>i. store32_be (st' ! i)) [0..<8])
      in (output, sha256_zero_ctx))"

definition c0_sha256 :: "bytes \<Rightarrow> bytes" where
  "c0_sha256 input = fst (c0_sha256_final (c0_sha256_update c0_sha256_init input))"

section \<open>The standard's description\<close>

text \<open>FIPS 180-4: the logical functions, the 64-word message schedule, the compression of one
  block, and the hash of a padded message.\<close>

definition spec_Ch :: "u32 \<Rightarrow> u32 \<Rightarrow> u32 \<Rightarrow> u32" where
  "spec_Ch x y z = (x AND y) XOR (NOT x AND z)"

definition spec_Maj :: "u32 \<Rightarrow> u32 \<Rightarrow> u32 \<Rightarrow> u32" where
  "spec_Maj x y z = (x AND y) XOR (x AND z) XOR (y AND z)"

definition spec_Sigma0 :: "u32 \<Rightarrow> u32" where
  "spec_Sigma0 x = word_rotr 2 x XOR word_rotr 13 x XOR word_rotr 22 x"

definition spec_Sigma1 :: "u32 \<Rightarrow> u32" where
  "spec_Sigma1 x = word_rotr 6 x XOR word_rotr 11 x XOR word_rotr 25 x"

definition spec_sigma0 :: "u32 \<Rightarrow> u32" where
  "spec_sigma0 x = word_rotr 7 x XOR word_rotr 18 x XOR drop_bit 3 x"

definition spec_sigma1 :: "u32 \<Rightarrow> u32" where
  "spec_sigma1 x = word_rotr 17 x XOR word_rotr 19 x XOR drop_bit 10 x"

fun spec_W :: "bytes \<Rightarrow> nat \<Rightarrow> u32" where
  "spec_W block t =
     (if t < 16 then be_word (slice block (4 * t) 4)
      else spec_sigma1 (spec_W block (t - 2)) + spec_W block (t - 7)
         + spec_sigma0 (spec_W block (t - 15)) + spec_W block (t - 16))"

declare spec_W.simps [simp del]

definition spec_round :: "bytes \<Rightarrow> nat \<Rightarrow> sha_vars \<Rightarrow> sha_vars" where
  "spec_round block t = (\<lambda>(a, b, c, d, e, f, g, h).
     let T1 = h + spec_Sigma1 e + spec_Ch e f g + round_constants ! t + spec_W block t;
         T2 = spec_Sigma0 a + spec_Maj a b c
     in (T1 + T2, a, b, c, d + T1, e, f, g))"

definition spec_compress :: "u32 list \<Rightarrow> bytes \<Rightarrow> u32 list" where
  "spec_compress H block =
     (let (a, b, c, d, e, f, g, h) =
            fold (spec_round block) [0..<64] (H ! 0, H ! 1, H ! 2, H ! 3, H ! 4, H ! 5, H ! 6, H ! 7)
      in [H ! 0 + a, H ! 1 + b, H ! 2 + c, H ! 3 + d, H ! 4 + e, H ! 5 + f, H ! 6 + g, H ! 7 + h])"

text \<open>Compression of every whole block of a byte string.\<close>

fun spec_absorb :: "u32 list \<Rightarrow> bytes \<Rightarrow> u32 list" where
  "spec_absorb H bs =
     (if length bs < 64 then H else spec_absorb (spec_compress H (take 64 bs)) (drop 64 bs))"

declare spec_absorb.simps [simp del]

definition spec_pad :: "bytes \<Rightarrow> bytes" where
  "spec_pad m = m @ [0x80] @ replicate ((119 - length m mod 64) mod 64) 0
                  @ be_bytes 8 (of_nat (8 * length m) :: u64)"

definition spec_sha256 :: "bytes \<Rightarrow> bytes" where
  "spec_sha256 m = concat (map (be_bytes 4) (spec_absorb sha256_initial_state (spec_pad m)))"

section \<open>The rolling schedule computes the full schedule\<close>

lemma rotate_right32_rotr: "0 < n \<Longrightarrow> n < 32 \<Longrightarrow> rotate_right32 v n = word_rotr n v"
  using rotr_shifts [of n v] by (simp add: rotate_right32_def)

lemmas rotr_simps = rotate_right32_rotr [of 2] rotate_right32_rotr [of 6] rotate_right32_rotr [of 7]
  rotate_right32_rotr [of 11] rotate_right32_rotr [of 13] rotate_right32_rotr [of 17]
  rotate_right32_rotr [of 18] rotate_right32_rotr [of 19] rotate_right32_rotr [of 22]
  rotate_right32_rotr [of 25]

lemma load32_be_eq: "length bs = 4 \<Longrightarrow> load32_be bs = be_word bs"
  using Common.load32_be [of bs] by (simp add: load32_be_def c0pq_load32_be_def)

lemma store32_be_eq: "store32_be v = be_bytes 4 v"
  using Common.store32_be [of v] by (simp add: store32_be_def c0pq_store32_be_def)

definition schedule_window :: "bytes \<Rightarrow> nat \<Rightarrow> u32 list \<Rightarrow> bool" where
  "schedule_window block t sch \<longleftrightarrow> length sch = 16 \<and>
     (\<forall>i. max t 16 - 16 \<le> i \<and> i < max t 16 \<longrightarrow> sch ! (i mod 16) = spec_W block i)"

lemma mod_window:
  assumes "i < t" and "t < i + (k :: nat)"
  shows "i mod k \<noteq> t mod k"
proof
  assume "i mod k = t mod k"
  with assms(1) have "k dvd t - i" using mod_eq_dvd_iff_nat [of i t k] by simp
  moreover have "0 < t - i" and "t - i < k" using assms by simp_all
  ultimately show False by (simp add: nat_dvd_not_less)
qed

lemma schedule_window_step:
  assumes "schedule_window block t sch"
  shows "schedule_window block (Suc t) (sha256_schedule_step t sch)"
    and "sha256_schedule_step t sch ! (t mod 16) = spec_W block t"
proof -
  have len: "length sch = 16"
    and win: "\<And>i. max t 16 - 16 \<le> i \<Longrightarrow> i < max t 16 \<Longrightarrow> sch ! (i mod 16) = spec_W block i"
    using assms by (auto simp: schedule_window_def)
  have both: "schedule_window block (Suc t) (sha256_schedule_step t sch)
      \<and> sha256_schedule_step t sch ! (t mod 16) = spec_W block t"
  proof (cases "t \<ge> 16")
    case False
    then show ?thesis using assms win [of t]
      by (auto simp: sha256_schedule_step_def schedule_window_def max_def split: if_splits)
  next
    case True
    have W: "sch ! ((t - 15) mod 16) = spec_W block (t - 15)"
        "sch ! ((t - 2) mod 16) = spec_W block (t - 2)"
        "sch ! ((t - 7) mod 16) = spec_W block (t - 7)"
      using True by (auto intro: win)
    have "(t - 16) mod 16 = t mod 16" using True by (simp add: le_mod_geq)
    with win [of "t - 16"] True have W16: "sch ! (t mod 16) = spec_W block (t - 16)" by simp
    have eq: "sha256_schedule_step t sch = sch[t mod 16 := spec_W block t]"
      using True by (simp add: sha256_schedule_step_def Let_def W W16 rotr_simps
        spec_sigma0_def spec_sigma1_def spec_W.simps [of block t] ac_simps)
    have "sch[t mod 16 := spec_W block t] ! (i mod 16) = spec_W block i"
      if i: "Suc t - 16 \<le> i" "i < Suc t" for i
    proof (cases "i = t")
      case True
      with len show ?thesis by simp
    next
      case False
      with i \<open>t \<ge> 16\<close> have "i mod 16 \<noteq> t mod 16"
        using mod_window [of i t 16] by simp
      with i False \<open>t \<ge> 16\<close> show ?thesis by (simp add: win)
    qed
    with True len show ?thesis by (simp add: eq schedule_window_def max_def)
  qed
  from both show "schedule_window block (Suc t) (sha256_schedule_step t sch)"
    and "sha256_schedule_step t sch ! (t mod 16) = spec_W block t" by simp_all
qed

lemma sha256_round_spec: "sha256_round t (spec_W block t) vars = spec_round block t vars"
  by (simp add: sha256_round_def spec_round_def Let_def rotr_simps spec_Sigma0_def spec_Sigma1_def
      spec_Ch_def spec_Maj_def split: prod.split)

lemma transform_rounds:
  assumes "length block = 64"
  shows "snd (fold (\<lambda>round (sch, vars).
                 let sch' = sha256_schedule_step round sch
                 in (sch', sha256_round round (sch' ! (round mod 16)) vars))
               [0..<64]
               (map (\<lambda>round. load32_be (slice block (4 * round) 4)) [0..<16], vars0))
       = fold (spec_round block) [0..<64] vars0" (is "snd (fold ?f _ ?s) = _")
proof -
  let ?P = "\<lambda>t (sch, vars). schedule_window block t sch \<and> vars = fold (spec_round block) [0..<t] vars0"
  have "?P 64 (fold ?f [0..<64] ?s)"
  proof (rule fold_upt_invariant [where P = ?P])
    have "load32_be (slice block (4 * i) 4) = spec_W block i" if "i < 16" for i
      using that assms by (simp add: load32_be_eq spec_W.simps [of block i])
    then show "?P 0 ?s" by (auto simp: schedule_window_def)
  next
    fix i and t :: "u32 list \<times> sha_vars"
    assume P: "?P i t"
    obtain sch vars where t: "t = (sch, vars)" by (metis surj_pair)
    with P have w: "schedule_window block i sch" by simp
    show "?P (Suc i) (?f i t)"
      using P schedule_window_step [OF w] by (simp add: t Let_def sha256_round_spec)
  qed simp
  then show ?thesis by (simp add: case_prod_unfold)
qed

lemma transform_compress: "length block = 64 \<Longrightarrow> sha256_transform H block = spec_compress H block"
  using transform_rounds [of block]
  by (simp add: sha256_transform_def spec_compress_def Let_def case_prod_unfold)

lemma length_compress [simp]: "length (spec_compress H block) = 8"
  by (simp add: spec_compress_def Let_def case_prod_unfold)

section \<open>Streaming\<close>

lemma absorb_short [simp]: "length bs < 64 \<Longrightarrow> spec_absorb H bs = H"
  by (simp add: spec_absorb.simps)

lemma absorb_block [simp]:
  "length b = 64 \<Longrightarrow> spec_absorb H (b @ bs) = spec_absorb (spec_compress H b) bs"
  by (subst spec_absorb.simps) simp

lemma length_absorb: "length H = 8 \<Longrightarrow> length (spec_absorb H bs) = 8"
  by (induction H bs rule: spec_absorb.induct) (subst spec_absorb.simps, simp)

text \<open>The bytes of a message that no whole block covers.\<close>

definition sha_tail :: "bytes \<Rightarrow> bytes" where
  "sha_tail m = drop (64 * (length m div 64)) m"

lemma length_sha_tail [simp]: "length (sha_tail m) = length m mod 64"
  by (simp add: sha_tail_def minus_mult_div_eq_mod)

lemma sha_tail_short [simp]: "length m < 64 \<Longrightarrow> sha_tail m = m"
  by (simp add: sha_tail_def)

lemma sha_tail_block [simp]: "length b = 64 \<Longrightarrow> sha_tail (b @ m) = sha_tail m"
  by (simp add: sha_tail_def div_add_self1 [of 64 "length m"])

lemma absorb_append: "spec_absorb H (m @ xs) = spec_absorb (spec_absorb H m) (sha_tail m @ xs)"
  and tail_append: "sha_tail (m @ xs) = sha_tail (sha_tail m @ xs)"
proof (induction H m rule: spec_absorb.induct)
  case (1 H m)
  {
    case 1
    show ?case
    proof (cases "length m < 64")
      case False
      then have m: "m = take 64 m @ drop 64 m" and l: "length (take 64 m) = 64" by simp_all
      have "spec_absorb H (m @ xs) = spec_absorb (spec_compress H (take 64 m)) (drop 64 m @ xs)"
        using absorb_block [OF l, of H "drop 64 m @ xs"] by (simp add: append_assoc [symmetric])
      also have "\<dots> = spec_absorb (spec_absorb H m) (sha_tail m @ xs)"
        using "1.IH"(1) [OF False] False absorb_block [OF l, of H "drop 64 m"] sha_tail_block [OF l, of "drop 64 m"]
        by simp
      finally show ?thesis .
    qed simp
  next
    case 2
    show ?case
    proof (cases "length m < 64")
      case False
      then have l: "length (take 64 m) = 64" by simp
      show ?thesis
        using "1.IH"(2) [OF False] sha_tail_block [OF l, of "drop 64 m @ xs"] sha_tail_block [OF l, of "drop 64 m"]
        by (simp add: append_assoc [symmetric])
    qed simp
  }
qed

text \<open>A context stands for the message fed to it so far.\<close>

definition sha_represents :: "c0_sha256_ctx \<Rightarrow> bytes \<Rightarrow> bool" where
  "sha_represents ctx m \<longleftrightarrow>
     state ctx = spec_absorb sha256_initial_state m \<and>
     total_bytes ctx = of_nat (length m) \<and>
     length (buffer ctx) = 64 \<and>
     unat (buffered ctx) = length m mod 64 \<and>
     take (length m mod 64) (buffer ctx) = sha_tail m"

lemma represents_init: "sha_represents c0_sha256_init []"
  by (simp add: sha_represents_def c0_sha256_init_def)

lemma update_blocks:
  "used \<le> length input \<Longrightarrow>
   sha256_update_blocks st input used =
     (spec_absorb st (drop used input), length input - (length input - used) mod 64)"
proof (induction st input used rule: sha256_update_blocks.induct)
  case (1 st input used)
  show ?case
  proof (cases "length input - used \<ge> 64")
    case True
    have blk: "drop used input = slice input used 64 @ drop (used + 64) input"
      by (simp add: slice_def) (metis add.commute append_take_drop_id drop_drop)
    have "sha256_update_blocks st input used =
        sha256_update_blocks (sha256_transform st (slice input used 64)) input (used + 64)"
      using True by (subst sha256_update_blocks.simps) simp
    also have "\<dots> = (spec_absorb (spec_compress st (slice input used 64)) (drop (used + 64) input),
        length input - (length input - (used + 64)) mod 64)"
      using "1.IH" [OF True] True "1.prems" by (simp add: transform_compress)
    also have "\<dots> = (spec_absorb st (drop used input), length input - (length input - used) mod 64)"
      using True by (simp add: blk le_mod_geq)
    finally show ?thesis .
  next
    case False
    with "1.prems" show ?thesis by (subst sha256_update_blocks.simps) simp
  qed
qed

text \<open>Completing the buffer absorbs the first block of the pending bytes and the input, or just
  stores the input behind them.\<close>

lemma unat_add_u8: "r + k \<le> 64 \<Longrightarrow> unat (of_nat (r + k) :: u8) = r + k"
  by (simp add: unat_of_nat del: of_nat_add)

lemma fill_buffer:
  assumes l: "length (buffer ctx) = 64" and b: "unat (buffered ctx) = length pend"
    and t: "take (length pend) (buffer ctx) = pend" and r: "length pend < 64"
  defines "k \<equiv> 64 - length pend"
  shows "sha256_fill_buffer ctx input =
     (if pend = [] then (ctx, 0)
      else if length input < k
      then (ctx\<lparr>buffer := memcpy (buffer ctx) (length pend) input,
                buffered := of_nat (length pend + length input)\<rparr>, length input)
      else (ctx\<lparr>state := spec_compress (state ctx) (pend @ take k input),
                buffer := pend @ take k input, buffered := 0\<rparr>, k))"
proof -
  have b0: "buffered ctx = 0 \<longleftrightarrow> pend = []"
    using b by (metis length_0_conv unat_eq_zero)
  have full: "(of_nat (length pend + j) :: u8) = 64 \<longleftrightarrow> length pend + j = 64"
    if "length pend + j \<le> 64" for j
    using unat_add_u8 [OF that] by (simp add: word_unat_eq_iff del: of_nat_add)
  show ?thesis
  proof (cases "length input < k")
    case True
    with r have "length pend + length input < 64" by (simp add: k_def)
    with True full [of "length input"] show ?thesis
      by (simp add: sha256_fill_buffer_def b b0 Let_def k_def del: of_nat_add)
  next
    case False
    have "memcpy (buffer ctx) (length pend) (take k input) = pend @ take k input"
      using False l r t by (simp add: memcpy_def k_def)
    moreover have "sha256_transform (state ctx) (pend @ take k input)
        = spec_compress (state ctx) (pend @ take k input)"
      using False r by (intro transform_compress) (simp add: k_def)
    moreover have "min (length input) (64 - length pend) = k" using False by (simp add: k_def)
    moreover have "(of_nat (length pend + k) :: u8) = 64" using full [of k] r by (simp add: k_def)
    ultimately show ?thesis using False
      by (simp add: sha256_fill_buffer_def b b0 Let_def k_def [symmetric] del: of_nat_add)
  qed
qed

text \<open>From an empty buffer the rest of the input is absorbed block by block and its tail kept.\<close>

definition update_rest :: "c0_sha256_ctx \<Rightarrow> bytes \<Rightarrow> nat \<Rightarrow> c0_sha256_ctx" where
  "update_rest ctx input used =
     (let (st, used') = sha256_update_blocks (state ctx) input used;
          ctx2 = ctx\<lparr>state := st\<rparr>
      in if used' < length input
         then ctx2\<lparr>buffer := memcpy (buffer ctx2) 0 (drop used' input),
                   buffered := of_nat (length input - used')\<rparr>
         else ctx2)"

lemma update_eq_rest:
  "xs \<noteq> [] \<Longrightarrow> c0_sha256_update ctx xs =
     (let (ctx1, used) = sha256_fill_buffer (ctx\<lparr>total_bytes := total_bytes ctx + of_nat (length xs)\<rparr>) xs
      in update_rest ctx1 xs used)"
  by (simp add: c0_sha256_update_def update_rest_def)

lemma update_rest_empty:
  assumes "used \<le> length xs" and l: "length (buffer c) = 64" and b: "buffered c = 0"
  defines "ys \<equiv> drop used xs" and "c' \<equiv> update_rest c xs used"
  shows "state c' = spec_absorb (state c) ys" and "total_bytes c' = total_bytes c"
    and "length (buffer c') = 64" and "unat (buffered c') = length ys mod 64"
    and "take (length ys mod 64) (buffer c') = sha_tail ys"
proof -
  let ?r = "(length xs - used) mod 64"
  have r: "?r < 64" "?r \<le> length xs" "?r \<le> length ys" using assms(1) by (simp_all add: ys_def)
  have ys: "length ys mod 64 = ?r" by (simp add: ys_def)
  have dr: "drop (length xs - ?r) xs = sha_tail ys"
  proof -
    have "drop (length xs - ?r) xs = drop (length ys - ?r) ys"
      using assms(1) r(3) by (simp add: ys_def)
    then show ?thesis by (simp add: sha_tail_def ys [symmetric] minus_mod_eq_mult_div)
  qed
  have u: "unat (of_nat ?r :: u8) = ?r" using unat_add_u8 [of 0 ?r] r(1) by simp
  have c': "c' = (let ctx2 = c\<lparr>state := spec_absorb (state c) ys\<rparr> in
      if ?r > 0 then ctx2\<lparr>buffer := memcpy (buffer c) 0 (sha_tail ys), buffered := of_nat ?r\<rparr> else ctx2)"
    using assms(1) r(2) dr by (auto simp: c'_def update_rest_def update_blocks Let_def ys_def [symmetric])
  show "state c' = spec_absorb (state c) ys" and "total_bytes c' = total_bytes c"
    by (simp_all add: c' Let_def)
  show "length (buffer c') = 64" using l r by (simp add: c' Let_def ys)
  show "unat (buffered c') = length ys mod 64" using u b by (simp add: c' Let_def ys)
  have tl: "length (sha_tail ys) = ?r" by (simp add: ys)
  show "take (length ys mod 64) (buffer c') = sha_tail ys"
  proof (cases "?r = 0")
    case True
    with tl have "sha_tail ys = []" by (metis length_0_conv)
    with True show ?thesis by (simp add: ys)
  next
    case False
    with l r tl show ?thesis by (simp add: c' Let_def ys memcpy_def)
  qed
qed

lemma represents_update:
  assumes rep: "sha_represents ctx m"
  shows "sha_represents (c0_sha256_update ctx xs) (m @ xs)"
proof (cases "xs = []")
  case True
  with rep show ?thesis by (simp add: c0_sha256_update_def)
next
  case False
  define c0 where "c0 = ctx\<lparr>total_bytes := total_bytes ctx + of_nat (length xs)\<rparr>"
  define k where "k = 64 - length (sha_tail m)"
  have l: "length (buffer c0) = 64" and b: "unat (buffered c0) = length (sha_tail m)"
    and t: "take (length (sha_tail m)) (buffer c0) = sha_tail m" and r: "length (sha_tail m) < 64"
    and st: "state c0 = spec_absorb sha256_initial_state m"
    and tot: "total_bytes c0 = of_nat (length (m @ xs))"
    using rep by (simp_all add: sha_represents_def c0_def)
  have rl: "length (m @ xs) mod 64 = length (sha_tail m @ xs) mod 64"
    by (simp add: mod_add_left_eq)
  note fill = fill_buffer [OF l b t r, of xs, folded k_def]
  have upd: "c0_sha256_update ctx xs = (let (c1, used) = sha256_fill_buffer c0 xs in update_rest c1 xs used)"
    using update_eq_rest [OF False, of ctx] by (simp add: c0_def)
  have goal: "sha_represents c (m @ xs) \<longleftrightarrow> state c = spec_absorb (state c0) (sha_tail m @ xs) \<and>
      total_bytes c = total_bytes c0 \<and> length (buffer c) = 64 \<and>
      unat (buffered c) = length (sha_tail m @ xs) mod 64 \<and>
      take (length (sha_tail m @ xs) mod 64) (buffer c) = sha_tail (sha_tail m @ xs)" for c
    unfolding sha_represents_def rl absorb_append [of _ m xs] tail_append [of m xs] st tot by simp
  consider (empty) "sha_tail m = []" | (short) "sha_tail m \<noteq> []" "length xs < k"
    | (long) "sha_tail m \<noteq> []" "k \<le> length xs"
    by linarith
  then show ?thesis
  proof cases
    case empty
    then have "buffered c0 = 0" using b by (simp add: unat_eq_zero)
    with empty l update_rest_empty [of 0 xs c0] show ?thesis
      unfolding goal by (simp add: upd fill)
  next
    case short
    let ?n = "length (sha_tail m) + length xs"
    have n: "?n < 64" using short r by (simp add: k_def)
    have "memcpy (buffer c0) (length (sha_tail m)) xs = sha_tail m @ xs @ drop ?n (buffer c0)"
      using t by (simp add: memcpy_def)
    with short n l unat_add_u8 [of "length (sha_tail m)" "length xs"] show ?thesis
      unfolding goal by (simp add: upd fill update_rest_def update_blocks del: of_nat_add length_sha_tail)
  next
    case long
    let ?blk = "sha_tail m @ take k xs"
    let ?c1 = "c0\<lparr>state := spec_compress (state c0) ?blk, buffer := ?blk, buffered := 0\<rparr>"
    have blk: "length ?blk = 64" using long r by (simp add: k_def del: length_sha_tail)
    have split: "sha_tail m @ xs = ?blk @ drop k xs" by simp
    have "length (sha_tail m @ xs) = 64 + length (drop k xs)"
      using blk by (metis length_append split)
    then have lm: "length (sha_tail m @ xs) mod 64 = length (drop k xs) mod 64"
      by (metis mod_add_self1)
    have "c0_sha256_update ctx xs = update_rest ?c1 xs k" using long by (simp add: upd fill)
    with update_rest_empty [of k xs ?c1] long(2) blk show ?thesis
      unfolding goal lm unfolding split absorb_block [OF blk] sha_tail_block [OF blk]
      by simp
  qed
qed

section \<open>Finalisation\<close>

lemma final_count:
  assumes "length buf = 64" and "n \<le> 56"
  shows "sha256_final_count buf n bits = take n buf @ replicate (56 - n) 0 @ be_bytes 8 bits"
proof -
  define b where "b = memcpy buf n (replicate (56 - n) 0)"
  have l: "length b = 64" using assms by (simp add: b_def)
  have tk: "take 56 b = take n buf @ replicate (56 - n) 0" using assms by (simp add: b_def memcpy_def)
  have "drop 56 b = [drop 56 b ! 0, drop 56 b ! 1, drop 56 b ! 2, drop 56 b ! 3,
      drop 56 b ! 4, drop 56 b ! 5, drop 56 b ! 6, drop 56 b ! 7]"
    using l by (intro list_of_length8) simp
  then obtain e0 e1 e2 e3 e4 e5 e6 e7 where b: "b = take 56 b @ [e0, e1, e2, e3, e4, e5, e6, e7]"
    by (metis append_take_drop_id)
  have l56: "length (take 56 b) = 56" using l by simp
  have "fst (fold (\<lambda>i (b, bits). (b[63 - i := ucast bits], drop_bit 8 bits)) [0..<8] (b, bits :: u64))
      = take 56 b @ be_bytes 8 bits"
    by (subst b) (simp add: upt_8 list_update_append l l56 be_bytes_def le_bytes_def)
  then show ?thesis by (simp add: sha256_final_count_def b_def [symmetric] tk)
qed

lemma final_marker:
  assumes rep: "sha_represents ctx m"
  defines "p \<equiv> sha_tail m"
  shows "length p > 55 \<Longrightarrow> \<exists>b. length b = 64 \<and>
           sha256_final_marker ctx = (spec_compress (state ctx) (p @ [0x80] @ replicate (63 - length p) 0), b, 0)"
    and "length p \<le> 55 \<Longrightarrow> \<exists>b. length b = 64 \<and> take (Suc (length p)) b = p @ [0x80] \<and>
           sha256_final_marker ctx = (state ctx, b, Suc (length p))"
proof -
  have r: "length p < 64" "unat (buffered ctx) = length p" "length (buffer ctx) = 64"
      "take (length p) (buffer ctx) = p"
    using rep by (simp_all add: sha_represents_def p_def)
  have n: "unat (buffered ctx + 1) = Suc (length p)"
    using r(1,2) by (simp add: unat_word_ariths)
  have buf: "(buffer ctx)[length p := 0x80] = p @ [0x80] @ drop (Suc (length p)) (buffer ctx)"
    using r upd_conv_take_nth_drop [of "length p" "buffer ctx" "0x80"] by simp
  {
    assume "length p > 55"
    moreover have "memcpy ((buffer ctx)[length p := 0x80]) (Suc (length p)) (replicate (63 - length p) 0)
        = p @ [0x80] @ replicate (63 - length p) 0"
      using r(1,3) by (simp add: buf memcpy_def)
    moreover have "length (p @ [0x80] @ replicate (63 - length p) 0) = 64" using r(1) by simp
    ultimately show "\<exists>b. length b = 64 \<and>
        sha256_final_marker ctx = (spec_compress (state ctx) (p @ [0x80] @ replicate (63 - length p) 0), b, 0)"
      by (simp add: sha256_final_marker_def n r(2) Let_def transform_compress)
  next
    assume "length p \<le> 55"
    then have "sha256_final_marker ctx
        = (state ctx, p @ [0x80] @ drop (Suc (length p)) (buffer ctx), Suc (length p))"
      by (simp add: sha256_final_marker_def n r(2) buf)
    moreover have "length (p @ [0x80] @ drop (Suc (length p)) (buffer ctx)) = 64" using r(1,3) by simp
    ultimately show "\<exists>b. length b = 64 \<and> take (Suc (length p)) b = p @ [0x80] \<and>
        sha256_final_marker ctx = (state ctx, b, Suc (length p))" by simp
  }
qed

lemma digest_words: "concat (map (\<lambda>i. store32_be (spec_compress H b ! i)) [0..<8])
    = concat (map (be_bytes 4) (spec_compress H b))"
proof -
  have "map (\<lambda>i. store32_be (spec_compress H b ! i)) [0..<8]
      = map (be_bytes 4) (map ((!) (spec_compress H b)) [0..<8])"
    by (simp add: store32_be_eq)
  also have "map ((!) (spec_compress H b)) [0..<8] = spec_compress H b"
    by (metis length_compress map_nth)
  finally show ?thesis by simp
qed

text \<open>The last one or two blocks, for pending bytes \<open>p\<close>.\<close>

lemma final_blocks:
  assumes rep: "sha_represents ctx m"
  defines "p \<equiv> sha_tail m" and "bits \<equiv> be_bytes 8 (total_bytes ctx * 8)"
  shows "fst (c0_sha256_final ctx) = concat (map (be_bytes 4)
     (if length p > 55
      then spec_compress (spec_compress (state ctx) (p @ [0x80] @ replicate (63 - length p) 0))
             (replicate 56 0 @ bits)
      else spec_compress (state ctx) (p @ [0x80] @ replicate (55 - length p) 0 @ bits)))"
proof (cases "length p > 55")
  case True
  with final_marker(1) [OF rep] obtain b where "length b = 64" and
    "sha256_final_marker ctx = (spec_compress (state ctx) (p @ [0x80] @ replicate (63 - length p) 0), b, 0)"
    by (auto simp: p_def)
  with True show ?thesis
    by (simp add: c0_sha256_final_def final_count transform_compress digest_words bits_def)
next
  case False
  with final_marker(2) [OF rep] obtain b where "length b = 64" "take (Suc (length p)) b = p @ [0x80]"
    "sha256_final_marker ctx = (state ctx, b, Suc (length p))"
    by (auto simp: p_def)
  moreover have "56 - Suc (length p) = 55 - length p" by simp
  ultimately show ?thesis using False
    by (simp add: c0_sha256_final_def final_count transform_compress digest_words bits_def del: diff_Suc_Suc)
qed

text \<open>The padded end of a message: one block, or two when the count no longer fits.\<close>

lemma absorb_padded:
  assumes r: "length p < 64" and b: "length bits = 8"
  shows "spec_absorb H (p @ [0x80] @ replicate ((119 - length p) mod 64) 0 @ bits) = (if length p > 55
      then spec_compress (spec_compress H (p @ [0x80] @ replicate (63 - length p) 0)) (replicate 56 0 @ bits)
      else spec_compress H (p @ [0x80] @ replicate (55 - length p) 0 @ bits))"
proof (cases "length p > 55")
  case True
  with r have k: "(119 - length p) mod 64 = (63 - length p) + 56" by simp
  have "p @ [0x80] @ replicate ((119 - length p) mod 64) 0 @ bits
      = (p @ [0x80] @ replicate (63 - length p) 0) @ (replicate 56 0 @ bits) @ []"
    unfolding k replicate_add by simp
  moreover have "length (p @ [0x80] @ replicate (63 - length p) 0) = 64"
    and "length (replicate 56 (0 :: u8) @ bits) = 64" using r b by simp_all
  ultimately show ?thesis using True absorb_block absorb_short [of "[]"] by (simp only: if_True) auto
next
  case False
  then have k: "(119 - length p) mod 64 = 55 - length p" by (simp add: le_mod_geq)
  have "length (p @ [0x80] @ replicate (55 - length p) 0 @ bits) = 64" using False b by simp
  from absorb_block [OF this, of H "[]"] False show ?thesis unfolding k by simp
qed

lemma final_spec:
  assumes rep: "sha_represents ctx m"
  shows "fst (c0_sha256_final ctx) = spec_sha256 m"
proof -
  let ?p = "sha_tail m" and ?bits = "be_bytes 8 (total_bytes ctx * 8)"
  have st: "state ctx = spec_absorb sha256_initial_state m" using rep by (simp add: sha_represents_def)
  have bits: "be_bytes 8 (of_nat (8 * length m) :: u64) = ?bits"
    using rep by (simp add: sha_represents_def mult.commute)
  have "spec_absorb sha256_initial_state (spec_pad m)
      = spec_absorb (state ctx) (?p @ [0x80] @ replicate ((119 - length ?p) mod 64) 0 @ ?bits)"
    unfolding spec_pad_def absorb_append [of _ m] st bits length_sha_tail ..
  then show ?thesis
    using final_blocks [OF rep] absorb_padded [of ?p ?bits "state ctx"] by (simp add: spec_sha256_def)
qed

lemma length_spec_sha256: "length (spec_sha256 m) = 32"
proof -
  have "length (spec_absorb sha256_initial_state (spec_pad m)) = 8"
    by (rule length_absorb) (simp add: sha256_initial_state_def)
  then show ?thesis
    by (simp add: spec_sha256_def length_concat comp_def sum_list_triv)
qed

interpretation sha: streaming_hash c0_sha256_init c0_sha256_update c0_sha256_final spec_sha256
  sha_represents 32
  by unfold_locales (simp_all add: represents_init represents_update final_spec length_spec_sha256)

text \<open>The one-shot call and the wiped context.\<close>

lemma c0_sha256_spec: "c0_sha256 m = spec_sha256 m"
  by (simp add: c0_sha256_def sha.final_update1)

lemma length_c0_sha256 [simp]: "length (c0_sha256 m) = 32"
  by (simp add: c0_sha256_spec length_spec_sha256)

lemma final_wipes: "snd (c0_sha256_final ctx) = sha256_zero_ctx"
  by (simp add: c0_sha256_final_def Let_def case_prod_unfold)

section \<open>Properties\<close>

text \<open>C30: however a message is cut into calls of \<open>c0_sha256_update\<close>, \<open>c0_sha256_final\<close>
  returns the 32-byte SHA-256 digest of FIPS 180-4 of the whole message, and leaves the context
  wiped.\<close>

theorem sha256_streaming_correct:
  "fst (c0_sha256_final (fold (\<lambda>x c. c0_sha256_update c x) chunks c0_sha256_init))
     = spec_sha256 (concat chunks) \<and>
   length (spec_sha256 (concat chunks)) = 32 \<and>
   snd (c0_sha256_final (fold (\<lambda>x c. c0_sha256_update c x) chunks c0_sha256_init)) = sha256_zero_ctx"
  by (simp add: sha.final_updates length_spec_sha256 final_wipes)

end
