(* ===== verification/Hmac.thy ===== *)
theory Hmac
  imports Sha256
begin

text \<open>
  The second half of \<open>core/sha256.c\<close>: HMAC-SHA-256 over the streaming hash and HKDF-SHA-256
  over HMAC. The theory shows that the streaming HMAC is the keyed hash of RFC 2104 for every
  split of the message into updates, that the zero-length salt and the salt of 32 zero bytes of
  HKDF-Extract give the same key (the claim of the comment in \<open>c0_hkdf_sha256_extract\<close>), and
  that HKDF-Expand writes the first \<open>output_length\<close> bytes of RFC 5869's \<open>T(1) || T(2) || \<dots>\<close>,
  its one-byte counter never wrapping.
\<close>

unbundle bit_operations_syntax

section \<open>HMAC\<close>

record c0_hmac_sha256_ctx =
  inner :: c0_sha256_ctx
  outer_pad :: bytes

definition hmac_key_block :: "bytes \<Rightarrow> bytes" where
  "hmac_key_block key =
     (let key_block = replicate 64 0
      in if length key > 64 then memcpy key_block 0 (c0_sha256 key)
         else if length key \<noteq> 0 then memcpy key_block 0 key
         else key_block)"

definition c0_hmac_sha256_init :: "bytes \<Rightarrow> c0_hmac_sha256_ctx" where
  "c0_hmac_sha256_init key =
     (let key_block = hmac_key_block key
      in \<lparr>inner = c0_sha256_update c0_sha256_init (map (\<lambda>b. b XOR 0x36) key_block),
          outer_pad = map (\<lambda>b. b XOR 0x5c) key_block\<rparr>)"

definition c0_hmac_sha256_update :: "c0_hmac_sha256_ctx \<Rightarrow> bytes \<Rightarrow> c0_hmac_sha256_ctx" where
  "c0_hmac_sha256_update ctx input = ctx\<lparr>inner := c0_sha256_update (inner ctx) input\<rparr>"

definition hmac_zero_ctx :: c0_hmac_sha256_ctx where
  "hmac_zero_ctx = \<lparr>inner = sha256_zero_ctx, outer_pad = replicate 64 0\<rparr>"

definition c0_hmac_sha256_final :: "c0_hmac_sha256_ctx \<Rightarrow> bytes \<times> c0_hmac_sha256_ctx" where
  "c0_hmac_sha256_final ctx =
     (let inner_digest = fst (c0_sha256_final (inner ctx));
          outer0 = c0_sha256_update c0_sha256_init (outer_pad ctx);
          outer1 = c0_sha256_update outer0 inner_digest
      in (fst (c0_sha256_final outer1), hmac_zero_ctx))"

definition c0_hmac_sha256 :: "bytes \<Rightarrow> bytes \<Rightarrow> bytes" where
  "c0_hmac_sha256 key input =
     fst (c0_hmac_sha256_final (c0_hmac_sha256_update (c0_hmac_sha256_init key) input))"

section \<open>HKDF\<close>

text \<open>A \<open>NULL\<close> salt is \<open>None\<close>.\<close>

definition c0_hkdf_sha256_extract :: "bytes option \<Rightarrow> bytes \<Rightarrow> bytes" where
  "c0_hkdf_sha256_extract salt input_key_material =
     (let salt' = (case salt of None \<Rightarrow> [] | Some s \<Rightarrow> if length s = 0 then [] else s)
      in c0_hmac_sha256 salt' input_key_material)"

text \<open>The loop of \<open>c0_hkdf_sha256_expand\<close>: output buffer, bytes produced, the previous block
  with its length, and the counter byte.\<close>

function hkdf_expand_loop ::
  "bytes \<Rightarrow> bytes \<Rightarrow> nat \<Rightarrow> bytes \<Rightarrow> nat \<Rightarrow> bytes \<Rightarrow> nat \<Rightarrow> u8 \<Rightarrow> bytes" where
  "hkdf_expand_loop prk info output_length output produced previous previous_length counter =
     (if produced < output_length then
        let take_n = (if output_length - produced < 32 then output_length - produced else 32);
            hmac0 = c0_hmac_sha256_init (take 32 prk);
            hmac1 = c0_hmac_sha256_update hmac0 (take previous_length previous);
            hmac2 = c0_hmac_sha256_update hmac1 info;
            hmac3 = c0_hmac_sha256_update hmac2 [counter];
            previous' = fst (c0_hmac_sha256_final hmac3)
        in hkdf_expand_loop prk info output_length (memcpy output produced (take take_n previous'))
             (produced + take_n) previous' 32 (counter + 1)
      else output)"
  by pat_completeness auto
termination
  by (relation "measure (\<lambda>(prk, info, output_length, output, produced, _). output_length - produced)") auto

declare hkdf_expand_loop.simps [simp del]

definition c0_hkdf_sha256_expand :: "bytes \<Rightarrow> nat \<Rightarrow> bytes \<Rightarrow> bytes \<Rightarrow> status \<times> bytes" where
  "c0_hkdf_sha256_expand output output_length prk info =
     (if output_length > 255 * 32 then (C0PQLINK_ERR_CAPACITY, output)
      else (C0PQLINK_OK, hkdf_expand_loop prk info output_length output 0 (replicate 32 0) 0 1))"

section \<open>The standards' descriptions\<close>

text \<open>RFC 2104 over the hash of FIPS 180-4, and the blocks \<open>T(i)\<close> of RFC 5869.\<close>

definition spec_hmac_key :: "bytes \<Rightarrow> bytes" where
  "spec_hmac_key K = (let K0 = (if length K > 64 then spec_sha256 K else K)
                      in K0 @ replicate (64 - length K0) 0)"

definition spec_hmac :: "bytes \<Rightarrow> bytes \<Rightarrow> bytes" where
  "spec_hmac K m =
     spec_sha256 (map (\<lambda>b. b XOR 0x5c) (spec_hmac_key K)
       @ spec_sha256 (map (\<lambda>b. b XOR 0x36) (spec_hmac_key K) @ m))"

fun spec_hkdf_T :: "bytes \<Rightarrow> bytes \<Rightarrow> nat \<Rightarrow> bytes" where
  "spec_hkdf_T prk info 0 = []"
| "spec_hkdf_T prk info (Suc i) = spec_hmac prk (spec_hkdf_T prk info i @ info @ [of_nat (Suc i)])"

definition spec_hkdf_expand :: "bytes \<Rightarrow> bytes \<Rightarrow> nat \<Rightarrow> bytes" where
  "spec_hkdf_expand prk info L = take L (concat (map (spec_hkdf_T prk info) [1..<256]))"

section \<open>HMAC is RFC 2104 for every split of the message\<close>

lemma hmac_key_block_spec: "hmac_key_block key = spec_hmac_key key"
  by (auto simp: hmac_key_block_def spec_hmac_key_def Let_def memcpy_def c0_sha256_spec length_spec_sha256)

lemma length_spec_hmac [simp]: "length (spec_hmac K m) = 32"
  by (simp add: spec_hmac_def length_spec_sha256)

definition hmac_represents :: "bytes \<Rightarrow> c0_hmac_sha256_ctx \<Rightarrow> bytes \<Rightarrow> bool" where
  "hmac_represents key ctx m \<longleftrightarrow>
     sha_represents (inner ctx) (map (\<lambda>b. b XOR 0x36) (spec_hmac_key key) @ m) \<and>
     outer_pad ctx = map (\<lambda>b. b XOR 0x5c) (spec_hmac_key key)"

lemma hmac_final_spec: "hmac_represents key ctx m \<Longrightarrow> fst (c0_hmac_sha256_final ctx) = spec_hmac key m"
  using sha.final_hash [of "inner ctx" "map (\<lambda>b. b XOR 0x36) (spec_hmac_key key) @ m"]
  by (simp add: hmac_represents_def c0_hmac_sha256_final_def spec_hmac_def Let_def sha.final_update2)

lemma hmac_update_represents:
  "hmac_represents key ctx m \<Longrightarrow> hmac_represents key (c0_hmac_sha256_update ctx xs) (m @ xs)"
  using sha.represents_update [of "inner ctx" "map (\<lambda>b. b XOR 0x36) (spec_hmac_key key) @ m" xs]
  by (simp add: hmac_represents_def c0_hmac_sha256_update_def)

interpretation hmac: streaming_hash "c0_hmac_sha256_init key" c0_hmac_sha256_update
  c0_hmac_sha256_final "spec_hmac key" "hmac_represents key" 32 for key
proof
  show "hmac_represents key (c0_hmac_sha256_init key) []"
    using sha.represents_update [OF sha.represents_init, of "map (\<lambda>b. b XOR 0x36) (spec_hmac_key key)"]
    by (simp add: hmac_represents_def c0_hmac_sha256_init_def Let_def hmac_key_block_spec)
qed (simp_all add: hmac_update_represents hmac_final_spec)

lemma c0_hmac_sha256_spec: "c0_hmac_sha256 key m = spec_hmac key m"
  by (simp add: c0_hmac_sha256_def hmac.final_update1)

lemma length_c0_hmac_sha256 [simp]: "length (c0_hmac_sha256 key m) = 32"
  by (simp add: c0_hmac_sha256_spec)

section \<open>HKDF\<close>

lemma hkdf_extract_spec:
  "c0_hkdf_sha256_extract salt ikm = spec_hmac (case salt of None \<Rightarrow> [] | Some s \<Rightarrow> s) ikm"
  by (auto simp: c0_hkdf_sha256_extract_def c0_hmac_sha256_spec split: option.split)

text \<open>The comment in \<open>c0_hkdf_sha256_extract\<close>: the empty key and 32 zero bytes pad alike.\<close>

lemma hmac_empty_zero_key: "n \<le> 64 \<Longrightarrow> spec_hmac [] m = spec_hmac (replicate n 0) m"
  by (simp add: spec_hmac_def spec_hmac_key_def replicate_add [symmetric])

lemma length_spec_hkdf_T [simp]: "0 < i \<Longrightarrow> length (spec_hkdf_T prk info i) = 32"
  by (cases i) simp_all

lemma length_concat_T [simp]:
  "0 < i \<Longrightarrow> length (concat (map (spec_hkdf_T prk info) [i..<j])) = 32 * (j - i)"
proof -
  assume "0 < i"
  then have "map length (map (spec_hkdf_T prk info) [i..<j]) = replicate (j - i) 32"
    by (intro nth_equalityI) auto
  then show ?thesis by (simp add: length_concat sum_list_replicate del: map_map)
qed

lemma expand_block:
  "fst (c0_hmac_sha256_final (c0_hmac_sha256_update (c0_hmac_sha256_update
     (c0_hmac_sha256_update (c0_hmac_sha256_init prk) x) y) z)) = spec_hmac prk (x @ y @ z)"
  using hmac.final_updates [of "[x, y, z]" prk] by simp

lemma expand_loop:
  assumes "length prk = 32" and "produced = 32 * i" and "L \<le> 255 * 32" and "length out = L"
    and "take previous_length previous = spec_hkdf_T prk info i" and "counter = of_nat (Suc i)"
  shows "hkdf_expand_loop prk info L out produced previous previous_length counter =
     take produced out @ take (L - produced) (concat (map (spec_hkdf_T prk info) [Suc i..<256]))"
  using assms
proof (induction prk info L out produced previous previous_length counter arbitrary: i
    rule: hkdf_expand_loop.induct)
  case (1 prk info L out produced previous previous_length counter)
  note prems = "1.prems"
  show ?case
  proof (cases "produced < L")
    case False
    with prems show ?thesis by (subst hkdf_expand_loop.simps) simp
  next
    case True
    define n where "n = (if L - produced < 32 then L - produced else 32)"
    define T where "T = spec_hkdf_T prk info (Suc i)"
    have i: "i < 255" using True prems(2,3) by simp
    have blocks: "[Suc i..<256] = Suc i # [Suc (Suc i)..<256]" using i by (simp add: upt_conv_Cons)
    have prev: "fst (c0_hmac_sha256_final (c0_hmac_sha256_update (c0_hmac_sha256_update
        (c0_hmac_sha256_update (c0_hmac_sha256_init (take 32 prk)) (take previous_length previous)) info)
        [counter])) = T"
      using prems by (simp add: expand_block T_def)
    have step: "hkdf_expand_loop prk info L out produced previous previous_length counter =
        hkdf_expand_loop prk info L (memcpy out produced (take n T)) (produced + n) T 32 (counter + 1)"
      using True by (subst hkdf_expand_loop.simps) (simp add: prev n_def Let_def)
    have lT: "length T = 32" by (simp add: T_def)
    have tout: "take (produced + n) (memcpy out produced (take n T)) = take produced out @ take n T"
      and lout: "length (memcpy out produced (take n T)) = L"
      using prems(4) True lT by (simp_all add: memcpy_def n_def)
    show ?thesis
    proof (cases "L - produced < 32")
      case True
      then have n: "n = L - produced" by (simp add: n_def)
      have fin: "\<not> produced + n < L" by (simp add: n)
      have "take n T = take n (concat (map (spec_hkdf_T prk info) [Suc i..<256]))"
        using True lT by (simp add: n blocks T_def [symmetric] del: spec_hkdf_T.simps)
      moreover have "hkdf_expand_loop prk info L (memcpy out produced (take n T)) (produced + n) T 32 (counter + 1)
          = memcpy out produced (take n T)"
        using fin by (subst hkdf_expand_loop.simps) simp
      moreover have "take (produced + n) (memcpy out produced (take n T)) = memcpy out produced (take n T)"
        using lout fin by simp
      ultimately show ?thesis using step tout n by simp
    next
      case False
      then have n: "n = 32" by (simp add: n_def)
      have "hkdf_expand_loop prk info L (memcpy out produced (take n T)) (produced + n) T 32 (counter + 1)
          = take (produced + n) (memcpy out produced (take n T))
            @ take (L - (produced + n)) (concat (map (spec_hkdf_T prk info) [Suc (Suc i)..<256]))"
        using "1.IH" [OF \<open>produced < L\<close> refl refl refl refl refl refl, of "Suc i"] prems lout lT n False
        by (simp add: expand_block n_def T_def)
      also have "\<dots> = take produced out
            @ take (L - produced) (concat (map (spec_hkdf_T prk info) [Suc i..<256]))"
        using False lT n tout by (simp add: blocks T_def [symmetric] del: spec_hkdf_T.simps)
      finally show ?thesis by (simp add: step)
    qed
  qed
qed

lemma hkdf_expand_spec:
  "length prk = 32 \<Longrightarrow> L \<le> 255 * 32 \<Longrightarrow> length out = L \<Longrightarrow>
   c0_hkdf_sha256_expand out L prk info = (C0PQLINK_OK, spec_hkdf_expand prk info L)"
  by (simp add: c0_hkdf_sha256_expand_def expand_loop [where i = 0] spec_hkdf_expand_def)

lemma length_hkdf_expand [simp]: "L \<le> 255 * 32 \<Longrightarrow> length (spec_hkdf_expand prk info L) = L"
  by (simp add: spec_hkdf_expand_def)

section \<open>Properties\<close>

text \<open>for every key and every split of the message into updates, the streaming HMAC of the
  code is HMAC-SHA-256 of RFC 2104 over the whole message; keys longer than a block are hashed
  first.\<close>

theorem hmac_streaming_correct:
  "fst (c0_hmac_sha256_final
     (fold (\<lambda>x c. c0_hmac_sha256_update c x) chunks (c0_hmac_sha256_init key)))
   = spec_hmac key (concat chunks)"
  by (rule hmac.final_updates)

text \<open>HKDF-Expand either refuses a request above 255 blocks without touching the output, or
  fills the output with the first \<open>L\<close> bytes of RFC 5869's \<open>T(1) || T(2) || \<dots>\<close>: the
  counter byte of the loop never wraps, and the loop ends.\<close>

theorem hkdf_expand_correct:
  assumes "length prk = 32" and "length out = L"
  shows "c0_hkdf_sha256_expand out L prk info =
    (if L > 255 * 32 then (C0PQLINK_ERR_CAPACITY, out)
     else (C0PQLINK_OK, spec_hkdf_expand prk info L))"
  using assms hkdf_expand_spec by (simp add: c0_hkdf_sha256_expand_def)

theorem hkdf_expand_correct_witness:
  "c0_hkdf_sha256_expand (replicate 40 0) 40 (replicate 32 1) [7]
     = (C0PQLINK_OK, spec_hkdf_expand (replicate 32 1) [7] 40) \<and>
   c0_hkdf_sha256_expand (replicate 9000 0) 9000 (replicate 32 1) [7]
     = (C0PQLINK_ERR_CAPACITY, replicate 9000 0)"
  using hkdf_expand_correct [of "replicate 32 1" "replicate 40 0" 40 "[7]"]
    hkdf_expand_correct [of "replicate 32 1" "replicate 9000 0" 9000 "[7]"] by simp

text \<open>HKDF-Extract is HMAC keyed with the salt, and a missing salt, an empty salt and the
  salt of 32 zero bytes that RFC 5869 prescribes give the same pseudorandom key, as the comment in
  \<open>c0_hkdf_sha256_extract\<close> says.\<close>

theorem hkdf_extract_correct:
  "c0_hkdf_sha256_extract (Some salt) ikm = spec_hmac salt ikm \<and>
   c0_hkdf_sha256_extract None ikm = c0_hkdf_sha256_extract (Some (replicate 32 0)) ikm \<and>
   c0_hkdf_sha256_extract (Some []) ikm = c0_hkdf_sha256_extract (Some (replicate 32 0)) ikm"
  using hmac_empty_zero_key [of 32 ikm] by (simp add: hkdf_extract_spec)

end
