(* ===== verification/Frame.thy ===== *)
theory Frame
  imports Common
begin

text \<open>
  The ten-byte frame header of \<open>session/preflight.c\<close> and the frame types of
  \<open>protocol.h\<close>. A pointer that may be \<open>NULL\<close> is an option; an output buffer is passed in
  and returned updated. The theory shows that the decoder accepts exactly what the encoder writes.
\<close>

unbundle bit_operations_syntax

abbreviation C0PQ_FRAME_HELLO :: u8 where "C0PQ_FRAME_HELLO \<equiv> 1"
abbreviation C0PQ_FRAME_CHALLENGE :: u8 where "C0PQ_FRAME_CHALLENGE \<equiv> 2"
abbreviation C0PQ_FRAME_CIPHERTEXT_FRAGMENT :: u8 where "C0PQ_FRAME_CIPHERTEXT_FRAGMENT \<equiv> 3"
abbreviation C0PQ_FRAME_CIPHERTEXT_ACK :: u8 where "C0PQ_FRAME_CIPHERTEXT_ACK \<equiv> 4"
abbreviation C0PQ_FRAME_DEVICE_FINISHED :: u8 where "C0PQ_FRAME_DEVICE_FINISHED \<equiv> 5"
abbreviation C0PQ_FRAME_SERVER_FINISHED :: u8 where "C0PQ_FRAME_SERVER_FINISHED \<equiv> 6"
abbreviation C0PQ_FRAME_DATA :: u8 where "C0PQ_FRAME_DATA \<equiv> 7"

record c0pq_frame_header =
  htype :: u8
  hflags :: u8
  payload_length :: u16
  hsession_id :: u32

definition header_zero :: c0pq_frame_header where
  "header_zero = \<lparr>htype = 0, hflags = 0, payload_length = 0, hsession_id = 0\<rparr>"

definition c0pq_encode_header ::
  "bytes option \<Rightarrow> u8 \<Rightarrow> u8 \<Rightarrow> u16 \<Rightarrow> u32 \<Rightarrow> status \<times> bytes option" where
  "c0pq_encode_header output ty fl len sid =
     (case output of
        None \<Rightarrow> (C0PQLINK_ERR_ARGUMENT, None)
      | Some out \<Rightarrow>
          if len > 255 then (C0PQLINK_ERR_ARGUMENT, Some out)
          else
            let out1 = memcpy out 0 [of_char CHR ''C'', of_char CHR ''0'', 1, ty, fl, ucast len]
            in (C0PQLINK_OK, Some (memcpy out1 6 (c0pq_store32_be sid))))"

definition c0pq_decode_header ::
  "c0pq_frame_header option \<Rightarrow> bytes option \<Rightarrow> nat \<Rightarrow> status \<times> c0pq_frame_header option" where
  "c0pq_decode_header header frame frame_length =
     (case (header, frame) of
        (Some h, Some f) \<Rightarrow>
          if frame_length < 10 then (C0PQLINK_ERR_ARGUMENT, header)
          else if f ! 0 \<noteq> of_char CHR ''C'' \<or> f ! 1 \<noteq> of_char CHR ''0'' \<or> f ! 2 \<noteq> 1
          then (C0PQLINK_ERR_STATE, header)
          else
            let h' = \<lparr>htype = f ! 3, hflags = f ! 4, payload_length = ucast (f ! 5),
                      hsession_id = c0pq_load32_be (slice f 6 4)\<rparr>
            in if unat (payload_length h') + 10 \<noteq> frame_length
               then (C0PQLINK_ERR_STATE, Some h') else (C0PQLINK_OK, Some h')
      | _ \<Rightarrow> (C0PQLINK_ERR_ARGUMENT, header))"

section \<open>The bytes of a header\<close>

definition header_bytes :: "u8 \<Rightarrow> u8 \<Rightarrow> u8 \<Rightarrow> u32 \<Rightarrow> bytes" where
  "header_bytes ty fl len sid =
     [of_char CHR ''C'', of_char CHR ''0'', 1, ty, fl, len] @ be_bytes 4 sid"

lemma length_header_bytes [simp]: "length (header_bytes ty fl len sid) = 10"
  by (simp add: header_bytes_def)

lemma encode_header_ok:
  "len \<le> 255 \<Longrightarrow> 10 \<le> length out \<Longrightarrow>
   c0pq_encode_header (Some out) ty fl len sid = (C0PQLINK_OK, Some (memcpy out 0 (header_bytes ty fl (ucast len) sid)))"
  by (simp add: c0pq_encode_header_def Let_def memcpy_memcpy store32_be header_bytes_def not_less)

lemma unat_ucast_u8_u16: "unat (ucast (x :: u8) :: u16) = unat x"
  using unat_u8_less [of x] by (simp add: unsigned_ucast_eq take_bit_nat_eq_self)

lemma be_bytes_slice:
  assumes "off + 4 \<le> length f"
  shows "be_bytes 4 (c0pq_load32_be (slice f off 4)) = slice f off 4"
  using assms by (simp add: load32_be be_bytes_be_word)

text \<open>Acceptance: the first ten bytes are the encoding of the header that is returned.\<close>

lemma decode_header_ok_iff:
  assumes "frame_length \<le> length f"
  shows "c0pq_decode_header (Some h0) (Some f) frame_length = (C0PQLINK_OK, Some h) \<longleftrightarrow>
     (\<exists>n. 10 \<le> frame_length \<and> frame_length = unat n + 10 \<and> payload_length h = ucast n \<and>
        take 10 f = header_bytes (htype h) (hflags h) n (hsession_id h))"
    (is "?L \<longleftrightarrow> ?R")
proof (cases "10 \<le> frame_length")
  case True
  with assms have len: "10 \<le> length f" by simp
  have split: "take 10 f = [f ! 0, f ! 1, f ! 2, f ! 3, f ! 4, f ! 5] @ slice f 6 4"
  proof -
    have "take 10 f = take 6 f @ slice f 6 4" by (simp add: slice_def take_add [symmetric])
    moreover have "take 6 f = [f ! 0, f ! 1, f ! 2, f ! 3, f ! 4, f ! 5]"
      using len by (intro nth_equalityI) (auto simp: less_Suc_eq numeral_eq_Suc)
    ultimately show ?thesis by simp
  qed
  show ?thesis
  proof
    assume ?L
    then have "f ! 0 = of_char CHR ''C''" "f ! 1 = of_char CHR ''0''" "f ! 2 = 1"
      and "h = \<lparr>htype = f ! 3, hflags = f ! 4, payload_length = ucast (f ! 5),
                hsession_id = c0pq_load32_be (slice f 6 4)\<rparr>"
      and "unat (f ! 5) + 10 = frame_length"
      by (auto simp: c0pq_decode_header_def Let_def unat_ucast_u8_u16 split: if_splits)
    then show ?R
      using True len split by (intro exI [of _ "f ! 5"]) (simp add: header_bytes_def be_bytes_slice)
  next
    assume ?R
    then obtain n where n: "frame_length = unat n + 10" "payload_length h = ucast n"
      and eq: "take 10 f = header_bytes (htype h) (hflags h) n (hsession_id h)" by blast
    have "slice f 6 4 = be_bytes 4 (hsession_id h)" and
      "f ! 0 = of_char CHR ''C''" "f ! 1 = of_char CHR ''0''" "f ! 2 = 1" "f ! 3 = htype h"
      "f ! 4 = hflags h" "f ! 5 = n"
      using eq unfolding split header_bytes_def by simp_all
    with True n show ?L
      by (simp add: c0pq_decode_header_def Let_def unat_ucast_u8_u16 load32_be be_word_be_bytes)
  qed
next
  case False
  then show ?thesis by (auto simp: c0pq_decode_header_def)
qed

end
