(* ===== verification/KeySchedule.thy ===== *)
theory KeySchedule
  imports Hmac Frame
begin

text \<open>
  \<open>session/crypto.c\<close>: the authentication tags, the key schedule from the pre-shared key and
  the KEM secret, the transcript and the public-key identifier. The theory shows each derived
  value as a closed expression over RFC 2104 and RFC 5869, that the derivation of the session keys
  cannot fail, and that the eight keys are expanded under distinct labels.

  A string label is the text without its NUL; \<open>strlen\<close> is its length. Local buffers start as
  zeros.
\<close>

unbundle bit_operations_syntax

section \<open>Authentication tags\<close>

definition c0pq_auth_tag :: "bytes \<Rightarrow> string \<Rightarrow> bytes \<Rightarrow> bytes" where
  "c0pq_auth_tag key label data =
     (let hmac0 = c0_hmac_sha256_init (take 32 key);
          hmac1 = c0_hmac_sha256_update hmac0 (text_bytes label);
          hmac2 = c0_hmac_sha256_update hmac1 data;
          digest = fst (c0_hmac_sha256_final hmac2)
      in take 16 digest)"

definition c0pq_verify_auth_tag :: "bytes \<Rightarrow> bytes \<Rightarrow> string \<Rightarrow> bytes \<Rightarrow> status" where
  "c0pq_verify_auth_tag tag key label data =
     (let expected = c0pq_auth_tag key label data
      in if c0pqlink_ct_equal expected tag 16 then C0PQLINK_OK else C0PQLINK_ERR_AUTH)"

section \<open>Early secrets\<close>

definition extract_psk :: "bytes \<Rightarrow> bytes" where
  "extract_psk psk = c0_hkdf_sha256_extract None (take 32 psk)"

definition expand_text_label :: "bytes \<Rightarrow> nat \<Rightarrow> bytes \<Rightarrow> string \<Rightarrow> bytes \<Rightarrow> status \<times> bytes" where
  "expand_text_label output output_length secret label transcript_hash =
     (let info0 = replicate 64 0; label_length = length label
      in if label_length + 1 + 32 > 64 then (C0PQLINK_ERR_CAPACITY, output)
         else
           let info1 = memcpy info0 0 (text_bytes label);
               info2 = info1[label_length := 0];
               info3 = memcpy info2 (label_length + 1) (take 32 transcript_hash)
           in c0_hkdf_sha256_expand output output_length secret (take (label_length + 1 + 32) info3))"

definition c0pq_derive_hello_key :: "bytes \<Rightarrow> bytes" where
  "c0pq_derive_hello_key psk =
     (let early_secret = extract_psk psk
      in snd (c0_hkdf_sha256_expand (replicate 32 0) 32 early_secret (text_bytes ''C0PQ/1 hello key'')))"

definition c0pq_derive_session_auth_key ::
  "bytes \<Rightarrow> u16 \<Rightarrow> u64 \<Rightarrow> bytes \<Rightarrow> bytes \<Rightarrow> bytes \<Rightarrow> bytes" where
  "c0pq_derive_session_auth_key psk suite epoch key_id device_nonce server_nonce =
     (let early_secret = extract_psk psk;
          encoded = c0pq_store16_be suite @ c0pq_store64_be epoch;
          hmac0 = c0_hmac_sha256_init early_secret;
          hmac1 = c0_hmac_sha256_update hmac0 (text_bytes ''C0PQ/1 session auth'');
          hmac2 = c0_hmac_sha256_update hmac1 encoded;
          hmac3 = c0_hmac_sha256_update hmac2 (take 16 key_id);
          hmac4 = c0_hmac_sha256_update hmac3 (take 16 device_nonce);
          hmac5 = c0_hmac_sha256_update hmac4 (take 16 server_nonce)
      in fst (c0_hmac_sha256_final hmac5))"

section \<open>The transcript\<close>

definition c0pq_transcript_init :: c0_sha256_ctx where
  "c0pq_transcript_init = c0_sha256_update c0_sha256_init (text_bytes ''C0PQ/1 transcript'')"

definition c0pq_transcript_add_hello :: "c0_sha256_ctx \<Rightarrow> bytes \<Rightarrow> c0_sha256_ctx" where
  "c0pq_transcript_add_hello transcript hello_frame = c0_sha256_update transcript (take 44 hello_frame)"

definition c0pq_transcript_add_challenge :: "c0_sha256_ctx \<Rightarrow> bytes \<Rightarrow> c0_sha256_ctx" where
  "c0pq_transcript_add_challenge transcript challenge_frame =
     c0_sha256_update transcript (take 68 challenge_frame)"

section \<open>Session keys\<close>

record c0pq_session_keys =
  device_finished_key :: bytes
  server_finished_key :: bytes
  client_traffic_key :: bytes
  server_traffic_key :: bytes
  client_nonce_base :: bytes
  server_nonce_base :: bytes
  client_chain_key :: bytes
  server_chain_key :: bytes

definition session_keys_zero :: c0pq_session_keys where
  "session_keys_zero =
     \<lparr>device_finished_key = replicate 32 0, server_finished_key = replicate 32 0,
      client_traffic_key = replicate 16 0, server_traffic_key = replicate 16 0,
      client_nonce_base = replicate 16 0, server_nonce_base = replicate 16 0,
      client_chain_key = replicate 32 0, server_chain_key = replicate 32 0\<rparr>"

text \<open>The chain of guarded expansions: each runs only while the result is still
  \<open>C0PQLINK_OK\<close> and stores into its own field.\<close>

definition guarded ::
  "(c0pq_session_keys \<Rightarrow> status \<times> c0pq_session_keys) \<Rightarrow> status \<times> c0pq_session_keys
     \<Rightarrow> status \<times> c0pq_session_keys" where
  "guarded step rk = (case rk of (result, keys) \<Rightarrow> if result = C0PQLINK_OK then step keys else (result, keys))"

definition expand_session_keys :: "bytes \<Rightarrow> bytes \<Rightarrow> c0pq_session_keys \<Rightarrow> status \<times> c0pq_session_keys" where
  "expand_session_keys secret th keys =
     (let step = (\<lambda>get put n label k.
            let (r, out) = expand_text_label (get k) n secret label th in (r, put out k))
      in (guarded (step server_chain_key (\<lambda>v. server_chain_key_update (\<lambda>_. v)) 32 ''C0PQ/1 server chain'')
       \<circ> guarded (step client_chain_key (\<lambda>v. client_chain_key_update (\<lambda>_. v)) 32 ''C0PQ/1 client chain'')
       \<circ> guarded (step server_nonce_base (\<lambda>v. server_nonce_base_update (\<lambda>_. v)) 16 ''C0PQ/1 server nonce'')
       \<circ> guarded (step client_nonce_base (\<lambda>v. client_nonce_base_update (\<lambda>_. v)) 16 ''C0PQ/1 client nonce'')
       \<circ> guarded (step server_traffic_key (\<lambda>v. server_traffic_key_update (\<lambda>_. v)) 16 ''C0PQ/1 server traffic'')
       \<circ> guarded (step client_traffic_key (\<lambda>v. client_traffic_key_update (\<lambda>_. v)) 16 ''C0PQ/1 client traffic'')
       \<circ> guarded (step server_finished_key (\<lambda>v. server_finished_key_update (\<lambda>_. v)) 32 ''C0PQ/1 server finished'')
       \<circ> guarded (step device_finished_key (\<lambda>v. device_finished_key_update (\<lambda>_. v)) 32 ''C0PQ/1 device finished''))
       (C0PQLINK_OK, keys))"

definition c0pq_derive_session_keys ::
  "c0pq_session_keys option \<Rightarrow> bytes option \<Rightarrow> bytes option \<Rightarrow> bytes option
     \<Rightarrow> status \<times> c0pq_session_keys option" where
  "c0pq_derive_session_keys keys psk kem_shared_secret transcript_hash =
     (case (keys, psk, kem_shared_secret, transcript_hash) of
        (Some ks, Some k, Some ss, Some th) \<Rightarrow>
          let early_secret = extract_psk k;
              (result, derived_secret) =
                c0_hkdf_sha256_expand (replicate 32 0) 32 early_secret (text_bytes ''C0PQ/1 derived'');
              (result', ks') =
                (if result = C0PQLINK_OK then
                   let handshake_secret = c0_hkdf_sha256_extract (Some derived_secret) (take 32 ss)
                   in expand_session_keys handshake_secret th ks
                 else (result, ks))
          in if result' \<noteq> C0PQLINK_OK then (result', Some session_keys_zero) else (C0PQLINK_OK, Some ks')
      | _ \<Rightarrow> (C0PQLINK_ERR_ARGUMENT, keys))"

section \<open>Finished tags and key identifiers\<close>

definition c0pq_finished_tag :: "bytes \<Rightarrow> u8 \<Rightarrow> u32 \<Rightarrow> bytes \<Rightarrow> bytes" where
  "c0pq_finished_tag finished_key frame_type sid transcript_hash =
     (let input0 = the (snd (c0pq_encode_header (Some (replicate 42 0)) frame_type 0 16 sid));
          input = memcpy input0 10 (take 32 transcript_hash)
      in c0pq_auth_tag finished_key ''C0PQ/1 finished tag'' input)"

definition c0pq_compute_public_key_id :: "bytes \<Rightarrow> bytes" where
  "c0pq_compute_public_key_id public_key =
     (let digest = c0_sha256 (take 800 public_key) in take 16 digest)"

section \<open>What they compute\<close>

lemma auth_tag_spec: "length key = 32 \<Longrightarrow> c0pq_auth_tag key label data = take 16 (spec_hmac key (text_bytes label @ data))"
  by (simp add: c0pq_auth_tag_def Let_def hmac.final_update2)

lemma length_auth_tag [simp]: "length (c0pq_auth_tag key label data) = 16"
  by (simp add: c0pq_auth_tag_def Let_def hmac.final_update2)

lemma verify_auth_tag_iff:
  "length tag = 16 \<Longrightarrow> c0pq_verify_auth_tag tag key label data = C0PQLINK_OK \<longleftrightarrow> tag = c0pq_auth_tag key label data"
  by (auto simp: c0pq_verify_auth_tag_def Let_def)

lemma verify_auth_tag_cases:
  "c0pq_verify_auth_tag tag key label data = C0PQLINK_OK \<or> c0pq_verify_auth_tag tag key label data = C0PQLINK_ERR_AUTH"
  by (simp add: c0pq_verify_auth_tag_def Let_def)

lemma length_extract [simp]: "length (c0_hkdf_sha256_extract salt ikm) = 32"
  by (simp add: hkdf_extract_spec)

lemma length_extract_psk [simp]: "length (extract_psk psk) = 32"
  by (simp add: extract_psk_def)

lemma derive_hello_key_spec:
  "c0pq_derive_hello_key psk = spec_hkdf_expand (extract_psk psk) (text_bytes ''C0PQ/1 hello key'') 32"
  by (simp add: c0pq_derive_hello_key_def Let_def hkdf_expand_spec)

lemma length_hello_key [simp]: "length (c0pq_derive_hello_key psk) = 32"
  by (simp add: derive_hello_key_spec)

lemma session_auth_key_spec:
  "c0pq_derive_session_auth_key psk su ep kid dn sn =
     spec_hmac (extract_psk psk) (text_bytes ''C0PQ/1 session auth'' @ be_bytes 2 su @ be_bytes 8 ep
       @ take 16 kid @ take 16 dn @ take 16 sn)"
  using hmac.final_updates [of "[text_bytes ''C0PQ/1 session auth'', be_bytes 2 su @ be_bytes 8 ep,
      take 16 kid, take 16 dn, take 16 sn]" "extract_psk psk"]
  by (simp add: c0pq_derive_session_auth_key_def Let_def store16_be store64_be)

lemma length_session_auth_key [simp]: "length (c0pq_derive_session_auth_key psk su ep kid dn sn) = 32"
  by (simp add: session_auth_key_spec)

text \<open>The info string of a labelled expansion: the label, a NUL, the transcript hash.\<close>

definition label_info :: "string \<Rightarrow> bytes \<Rightarrow> bytes" where
  "label_info label th = text_bytes label @ [0] @ th"

lemma expand_text_label_spec:
  assumes "length label \<le> 31" and "length th = 32" and "length secret = 32"
    and "length out = n" and "n \<le> 255 * 32"
  shows "expand_text_label out n secret label th
     = (C0PQLINK_OK, spec_hkdf_expand secret (label_info label th) n)"
proof -
  let ?l = "length label"
  let ?info = "memcpy ((memcpy (replicate 64 0) 0 (text_bytes label))[?l := 0]) (?l + 1) (take 32 th)"
  have "?info = text_bytes label @ [0] @ th @ replicate (31 - ?l) 0"
    using assms(1,2) by (simp add: memcpy_def list_update_append)
      (simp add: drop_Cons' numeral_eq_Suc Suc_diff_le)
  then have "take (?l + 1 + 32) ?info = label_info label th"
    using assms(2) by (simp add: label_info_def)
  with assms show ?thesis by (simp add: expand_text_label_def Let_def hkdf_expand_spec)
qed

section \<open>The session keys\<close>

definition session_keys_wf :: "c0pq_session_keys \<Rightarrow> bool" where
  "session_keys_wf ks \<longleftrightarrow>
     length (device_finished_key ks) = 32 \<and> length (server_finished_key ks) = 32 \<and>
     length (client_traffic_key ks) = 16 \<and> length (server_traffic_key ks) = 16 \<and>
     length (client_nonce_base ks) = 16 \<and> length (server_nonce_base ks) = 16 \<and>
     length (client_chain_key ks) = 32 \<and> length (server_chain_key ks) = 32"

definition spec_handshake_secret :: "bytes \<Rightarrow> bytes \<Rightarrow> bytes" where
  "spec_handshake_secret psk ss =
     spec_hmac (spec_hkdf_expand (spec_hmac [] psk) (text_bytes ''C0PQ/1 derived'') 32) ss"

definition spec_session_keys :: "bytes \<Rightarrow> bytes \<Rightarrow> bytes \<Rightarrow> c0pq_session_keys" where
  "spec_session_keys psk ss th =
     (let expand = (\<lambda>label n. spec_hkdf_expand (spec_handshake_secret psk ss) (label_info label th) n)
      in \<lparr>device_finished_key = expand ''C0PQ/1 device finished'' 32,
          server_finished_key = expand ''C0PQ/1 server finished'' 32,
          client_traffic_key = expand ''C0PQ/1 client traffic'' 16,
          server_traffic_key = expand ''C0PQ/1 server traffic'' 16,
          client_nonce_base = expand ''C0PQ/1 client nonce'' 16,
          server_nonce_base = expand ''C0PQ/1 server nonce'' 16,
          client_chain_key = expand ''C0PQ/1 client chain'' 32,
          server_chain_key = expand ''C0PQ/1 server chain'' 32\<rparr>)"

lemma session_keys_wf_zero [simp]: "session_keys_wf session_keys_zero"
  by (simp add: session_keys_wf_def session_keys_zero_def)

lemma session_keys_wf_spec [simp]: "session_keys_wf (spec_session_keys psk ss th)"
  by (simp add: session_keys_wf_def spec_session_keys_def Let_def)

lemma extract_psk_spec: "length psk = 32 \<Longrightarrow> extract_psk psk = spec_hmac [] psk"
  by (simp add: extract_psk_def hkdf_extract_spec)

lemma derive_session_keys_ok:
  assumes "session_keys_wf ks" and "length psk = 32" and "length ss = 32" and "length th = 32"
  shows "c0pq_derive_session_keys (Some ks) (Some psk) (Some ss) (Some th)
     = (C0PQLINK_OK, Some (spec_session_keys psk ss th))"
proof -
  let ?hs = "spec_handshake_secret psk ss"
  have hs: "length ?hs = 32" by (simp add: spec_handshake_secret_def)
  have "expand_session_keys ?hs th ks = (C0PQLINK_OK, spec_session_keys psk ss th)"
    using assms hs
    by (simp add: expand_session_keys_def guarded_def Let_def expand_text_label_spec session_keys_wf_def
        spec_session_keys_def)
  then show ?thesis
    using assms
    by (simp add: c0pq_derive_session_keys_def Let_def hkdf_expand_spec hkdf_extract_spec extract_psk_spec
        spec_handshake_secret_def [symmetric])
qed

lemma derive_session_keys_null:
  "keys = None \<or> psk = None \<or> ss = None \<or> th = None \<Longrightarrow>
   c0pq_derive_session_keys keys psk ss th = (C0PQLINK_ERR_ARGUMENT, keys)"
  by (auto simp: c0pq_derive_session_keys_def split: option.splits)

text \<open>Domain separation: labels without a NUL give distinct info strings, whatever the transcript.\<close>

definition session_labels :: "string list" where
  "session_labels =
     [''C0PQ/1 device finished'', ''C0PQ/1 server finished'', ''C0PQ/1 client traffic'',
      ''C0PQ/1 server traffic'', ''C0PQ/1 client nonce'', ''C0PQ/1 server nonce'',
      ''C0PQ/1 client chain'', ''C0PQ/1 server chain'']"

lemma of_char_u8_inject: "(of_char c :: u8) = of_char d \<longleftrightarrow> c = d"
proof -
  have "unat (of_char c :: u8) = of_char c" for c
    unfolding of_nat_of_char [symmetric, where ?'a = u8] by (simp add: unsigned_of_nat take_bit_eq_mod)
  then show ?thesis by (metis of_char_eq_iff)
qed

lemma text_bytes_inject: "text_bytes l = text_bytes l' \<longleftrightarrow> l = l'"
  unfolding text_bytes_def by (rule inj_map_eq_map) (simp add: inj_def of_char_u8_inject)

lemma label_info_inject:
  "length th = length th' \<Longrightarrow> label_info l th = label_info l' th' \<Longrightarrow> l = l' \<and> th = th'"
proof -
  assume len: "length th = length th'" and eq: "label_info l th = label_info l' th'"
  from eq have "length (label_info l th) = length (label_info l' th')" by simp
  with len have "length l = length l'" by (simp add: label_info_def)
  with eq show "l = l' \<and> th = th'" by (simp add: label_info_def text_bytes_inject)
qed

lemma session_labels_distinct: "distinct (map (\<lambda>l. label_info l th) session_labels)"
proof -
  have "distinct session_labels" by (simp add: session_labels_def)
  moreover have "inj_on (\<lambda>l. label_info l th) (set session_labels)"
    using label_info_inject [of th th] by (auto simp: inj_on_def)
  ultimately show ?thesis by (simp add: distinct_map)
qed

lemma finished_tag_spec:
  "length key = 32 \<Longrightarrow> length th = 32 \<Longrightarrow>
   c0pq_finished_tag key ty sid th
     = take 16 (spec_hmac key (text_bytes ''C0PQ/1 finished tag'' @ header_bytes ty 0 16 sid @ th))"
  by (simp add: c0pq_finished_tag_def Let_def encode_header_ok auth_tag_spec memcpy_def)

lemma length_finished_tag [simp]: "length (c0pq_finished_tag key ty sid th) = 16"
  by (simp add: c0pq_finished_tag_def Let_def)

section \<open>Properties\<close>

text \<open>C36: the key schedule. For inputs of the declared sizes the derivation succeeds and every
  session key is HKDF-Expand under its own label and the transcript hash, from the secret that
  HKDF-Extract makes of the KEM secret under the key derived from the pre-shared key; the eight
  info strings are distinct for any transcript; and a \<open>NULL\<close> argument leaves the keys alone.\<close>

theorem session_key_schedule:
  assumes "session_keys_wf ks" and "length psk = 32" and "length ss = 32" and "length th = 32"
  shows "c0pq_derive_session_keys (Some ks) (Some psk) (Some ss) (Some th)
           = (C0PQLINK_OK, Some (spec_session_keys psk ss th)) \<and>
         distinct (map (\<lambda>l. label_info l th) session_labels) \<and>
         c0pq_derive_session_keys (Some ks) None (Some ss) (Some th) = (C0PQLINK_ERR_ARGUMENT, Some ks)"
  using derive_session_keys_ok [OF assms] by (simp add: session_labels_distinct derive_session_keys_null)

theorem session_key_schedule_witness:
  "c0pq_derive_session_keys (Some session_keys_zero) (Some (replicate 32 1)) (Some (replicate 32 2))
     (Some (replicate 32 3))
   = (C0PQLINK_OK, Some (spec_session_keys (replicate 32 1) (replicate 32 2) (replicate 32 3)))"
  using session_key_schedule [of session_keys_zero "replicate 32 1" "replicate 32 2" "replicate 32 3"] by simp

end
