(* ===== verification/Wire.thy ===== *)
theory Wire
  imports KeySchedule
begin

text \<open>
  The authenticated preflight frames of \<open>session/preflight.c\<close>: hello and challenge, encoded
  into a caller's buffer and decoded with verification of their tag. The theory shows that a frame
  is accepted exactly when it is the encoding, under the same pre-shared key, of the message and
  session identifier returned.
\<close>

unbundle bit_operations_syntax

abbreviation C0PQ_SUITE :: u16 where "C0PQ_SUITE \<equiv> 0x0001"

record c0pq_hello =
  hello_suite :: u16
  hello_device_id :: bytes
  hello_epoch :: u64
  hello_nonce :: bytes

record c0pq_challenge =
  ch_suite :: u16
  ch_epoch :: u64
  ch_key_id :: bytes
  ch_device_nonce :: bytes
  ch_server_nonce :: bytes

definition hello_zero :: c0pq_hello where
  "hello_zero = \<lparr>hello_suite = 0, hello_device_id = replicate 8 0, hello_epoch = 0, hello_nonce = replicate 16 0\<rparr>"

definition challenge_zero :: c0pq_challenge where
  "challenge_zero = \<lparr>ch_suite = 0, ch_epoch = 0, ch_key_id = replicate 16 0,
     ch_device_nonce = replicate 16 0, ch_server_nonce = replicate 16 0\<rparr>"

section \<open>Hello\<close>

definition c0pq_encode_hello ::
  "bytes option \<Rightarrow> u32 \<Rightarrow> c0pq_hello option \<Rightarrow> bytes option \<Rightarrow> status \<times> bytes option" where
  "c0pq_encode_hello output sid hello psk =
     (case (output, hello, psk) of
        (Some out, Some h, Some k) \<Rightarrow>
          if hello_suite h \<noteq> C0PQ_SUITE then (C0PQLINK_ERR_ARGUMENT, output)
          else
            let out0 = the (snd (c0pq_encode_header (Some out) C0PQ_FRAME_HELLO 0 (60 - 10) sid));
                out1 = memcpy out0 10 (c0pq_store16_be (hello_suite h));
                out2 = memcpy out1 12 (take 8 (hello_device_id h));
                out3 = memcpy out2 20 (c0pq_store64_be (hello_epoch h));
                out4 = memcpy out3 28 (take 16 (hello_nonce h));
                hello_key = c0pq_derive_hello_key k;
                out5 = memcpy out4 44 (c0pq_auth_tag hello_key ''C0PQ/1 hello frame'' (take 44 out4))
            in (C0PQLINK_OK, Some out5)
      | _ \<Rightarrow> (C0PQLINK_ERR_ARGUMENT, output))"

text \<open>The decoder returns the status with the two output arguments.\<close>

definition c0pq_decode_verify_hello ::
  "c0pq_hello option \<Rightarrow> u32 option \<Rightarrow> bytes option \<Rightarrow> nat \<Rightarrow> bytes option
     \<Rightarrow> status \<times> c0pq_hello option \<times> u32 option" where
  "c0pq_decode_verify_hello hello session_id frame frame_length psk =
     (case (hello, session_id, frame, psk) of
        (Some h, Some sid, Some f, Some k) \<Rightarrow>
          if frame_length \<noteq> 60 then (C0PQLINK_ERR_ARGUMENT, hello, session_id)
          else
            let (result, hd) = c0pq_decode_header (Some header_zero) (Some f) frame_length;
                header = the hd
            in if result \<noteq> C0PQLINK_OK \<or> htype header \<noteq> C0PQ_FRAME_HELLO \<or> hflags header \<noteq> 0
                  \<or> payload_length header \<noteq> 60 - 10
               then (C0PQLINK_ERR_STATE, hello, session_id)
               else
                 let hello_key = c0pq_derive_hello_key k;
                     result = c0pq_verify_auth_tag (slice f 44 16) hello_key ''C0PQ/1 hello frame'' (take 44 f)
                 in if result \<noteq> C0PQLINK_OK then (result, hello, session_id)
                    else
                      let h1 = h\<lparr>hello_suite := c0pq_load16_be (slice f 10 2)\<rparr>
                      in if hello_suite h1 \<noteq> C0PQ_SUITE
                         then (C0PQLINK_ERR_STATE, Some hello_zero, session_id)
                         else (C0PQLINK_OK,
                               Some (h1\<lparr>hello_device_id := slice f 12 8,
                                        hello_epoch := c0pq_load64_be (slice f 20 8),
                                        hello_nonce := slice f 28 16\<rparr>),
                               Some (hsession_id header))
      | _ \<Rightarrow> (C0PQLINK_ERR_ARGUMENT, hello, session_id))"

section \<open>Challenge\<close>

definition c0pq_encode_challenge ::
  "bytes option \<Rightarrow> u32 \<Rightarrow> c0pq_challenge option \<Rightarrow> bytes option \<Rightarrow> status \<times> bytes option" where
  "c0pq_encode_challenge output sid challenge psk =
     (case (output, challenge, psk) of
        (Some out, Some c, Some k) \<Rightarrow>
          if ch_suite c \<noteq> C0PQ_SUITE then (C0PQLINK_ERR_ARGUMENT, output)
          else
            let out0 = the (snd (c0pq_encode_header (Some out) C0PQ_FRAME_CHALLENGE 0 (84 - 10) sid));
                out1 = memcpy out0 10 (c0pq_store16_be (ch_suite c));
                out2 = memcpy out1 12 (c0pq_store64_be (ch_epoch c));
                out3 = memcpy out2 20 (take 16 (ch_key_id c));
                out4 = memcpy out3 36 (take 16 (ch_device_nonce c));
                out5 = memcpy out4 52 (take 16 (ch_server_nonce c));
                key = c0pq_derive_session_auth_key k (ch_suite c) (ch_epoch c) (ch_key_id c)
                        (ch_device_nonce c) (ch_server_nonce c);
                out6 = memcpy out5 68 (c0pq_auth_tag key ''C0PQ/1 challenge frame'' (take 68 out5))
            in (C0PQLINK_OK, Some out6)
      | _ \<Rightarrow> (C0PQLINK_ERR_ARGUMENT, output))"

definition c0pq_decode_verify_challenge ::
  "c0pq_challenge option \<Rightarrow> u32 \<Rightarrow> bytes option \<Rightarrow> nat \<Rightarrow> bytes option
     \<Rightarrow> status \<times> c0pq_challenge option" where
  "c0pq_decode_verify_challenge challenge expected_session_id frame frame_length psk =
     (case (challenge, frame, psk) of
        (Some c, Some f, Some k) \<Rightarrow>
          if frame_length \<noteq> 84 then (C0PQLINK_ERR_ARGUMENT, challenge)
          else
            let (result, hd) = c0pq_decode_header (Some header_zero) (Some f) frame_length;
                header = the hd
            in if result \<noteq> C0PQLINK_OK \<or> htype header \<noteq> C0PQ_FRAME_CHALLENGE \<or> hflags header \<noteq> 0
                  \<or> hsession_id header \<noteq> expected_session_id \<or> payload_length header \<noteq> 84 - 10
               then (C0PQLINK_ERR_STATE, challenge)
               else
                 let c1 = \<lparr>ch_suite = c0pq_load16_be (slice f 10 2),
                           ch_epoch = c0pq_load64_be (slice f 12 8),
                           ch_key_id = slice f 20 16,
                           ch_device_nonce = slice f 36 16,
                           ch_server_nonce = slice f 52 16\<rparr>
                 in if ch_suite c1 \<noteq> C0PQ_SUITE then (C0PQLINK_ERR_STATE, Some challenge_zero)
                    else
                      let key = c0pq_derive_session_auth_key k (ch_suite c1) (ch_epoch c1) (ch_key_id c1)
                                  (ch_device_nonce c1) (ch_server_nonce c1);
                          result = c0pq_verify_auth_tag (slice f 68 16) key ''C0PQ/1 challenge frame'' (take 68 f)
                      in if result \<noteq> C0PQLINK_OK then (result, Some challenge_zero)
                         else (result, Some c1)
      | _ \<Rightarrow> (C0PQLINK_ERR_ARGUMENT, challenge))"

section \<open>The frames as byte strings\<close>

definition hello_wf :: "c0pq_hello \<Rightarrow> bool" where
  "hello_wf h \<longleftrightarrow> hello_suite h = C0PQ_SUITE \<and> length (hello_device_id h) = 8 \<and> length (hello_nonce h) = 16"

definition challenge_wf :: "c0pq_challenge \<Rightarrow> bool" where
  "challenge_wf c \<longleftrightarrow> ch_suite c = C0PQ_SUITE \<and> length (ch_key_id c) = 16 \<and>
     length (ch_device_nonce c) = 16 \<and> length (ch_server_nonce c) = 16"

definition hello_core :: "u32 \<Rightarrow> c0pq_hello \<Rightarrow> bytes" where
  "hello_core sid h = header_bytes C0PQ_FRAME_HELLO 0 50 sid @ be_bytes 2 (hello_suite h)
     @ hello_device_id h @ be_bytes 8 (hello_epoch h) @ hello_nonce h"

definition hello_frame :: "bytes \<Rightarrow> u32 \<Rightarrow> c0pq_hello \<Rightarrow> bytes" where
  "hello_frame psk sid h =
     hello_core sid h @ c0pq_auth_tag (c0pq_derive_hello_key psk) ''C0PQ/1 hello frame'' (hello_core sid h)"

definition challenge_core :: "u32 \<Rightarrow> c0pq_challenge \<Rightarrow> bytes" where
  "challenge_core sid c = header_bytes C0PQ_FRAME_CHALLENGE 0 74 sid @ be_bytes 2 (ch_suite c)
     @ be_bytes 8 (ch_epoch c) @ ch_key_id c @ ch_device_nonce c @ ch_server_nonce c"

definition challenge_key :: "bytes \<Rightarrow> c0pq_challenge \<Rightarrow> bytes" where
  "challenge_key psk c = c0pq_derive_session_auth_key psk (ch_suite c) (ch_epoch c) (ch_key_id c)
     (ch_device_nonce c) (ch_server_nonce c)"

definition challenge_frame :: "bytes \<Rightarrow> u32 \<Rightarrow> c0pq_challenge \<Rightarrow> bytes" where
  "challenge_frame psk sid c =
     challenge_core sid c @ c0pq_auth_tag (challenge_key psk c) ''C0PQ/1 challenge frame'' (challenge_core sid c)"

lemma length_hello_core [simp]: "hello_wf h \<Longrightarrow> length (hello_core sid h) = 44"
  by (simp add: hello_core_def hello_wf_def)

lemma length_challenge_core [simp]: "challenge_wf c \<Longrightarrow> length (challenge_core sid c) = 68"
  by (simp add: challenge_core_def challenge_wf_def)

lemma length_hello_frame [simp]: "hello_wf h \<Longrightarrow> length (hello_frame psk sid h) = 60"
  by (simp add: hello_frame_def)

lemma length_challenge_frame [simp]: "challenge_wf c \<Longrightarrow> length (challenge_frame psk sid c) = 84"
  by (simp add: challenge_frame_def)

text \<open>Encoding writes the frame at the front of the buffer.\<close>

lemma encode_hello_ok:
  assumes "hello_wf h" and "60 \<le> length out"
  shows "c0pq_encode_hello (Some out) sid (Some h) (Some psk)
     = (C0PQLINK_OK, Some (hello_frame psk sid h @ drop 60 out))"
proof -
  let ?pre = "header_bytes C0PQ_FRAME_HELLO 0 50 sid"
  have core: "memcpy (memcpy (memcpy (memcpy (memcpy out 0 ?pre) 10 (be_bytes 2 (hello_suite h))) 12 (hello_device_id h))
      20 (be_bytes 8 (hello_epoch h))) 28 (hello_nonce h) = memcpy out 0 (hello_core sid h)"
    using assms by (simp add: memcpy_memcpy hello_core_def hello_wf_def)
  have tag: "memcpy (memcpy out 0 (hello_core sid h)) 44 t = memcpy out 0 (hello_core sid h @ t)" if "length t = 16" for t
    using that assms by (simp add: memcpy_memcpy)
  have front: "take 44 (memcpy out 0 (hello_core sid h)) = hello_core sid h"
    using assms by (simp add: memcpy_def)
  have "hello_suite h = C0PQ_SUITE" "take 8 (hello_device_id h) = hello_device_id h"
    "take 16 (hello_nonce h) = hello_nonce h" using assms(1) by (simp_all add: hello_wf_def)
  with assms core tag front show ?thesis
    by (simp add: c0pq_encode_hello_def Let_def encode_header_ok store16_be store64_be hello_frame_def memcpy_front)
qed

lemma encode_challenge_ok:
  assumes "challenge_wf c" and "84 \<le> length out"
  shows "c0pq_encode_challenge (Some out) sid (Some c) (Some psk)
     = (C0PQLINK_OK, Some (challenge_frame psk sid c @ drop 84 out))"
proof -
  let ?pre = "header_bytes C0PQ_FRAME_CHALLENGE 0 74 sid"
  have core: "memcpy (memcpy (memcpy (memcpy (memcpy (memcpy out 0 ?pre) 10 (be_bytes 2 (ch_suite c)))
      12 (be_bytes 8 (ch_epoch c))) 20 (ch_key_id c)) 36 (ch_device_nonce c)) 52 (ch_server_nonce c)
      = memcpy out 0 (challenge_core sid c)"
    using assms by (simp add: memcpy_memcpy challenge_core_def challenge_wf_def)
  have tag: "memcpy (memcpy out 0 (challenge_core sid c)) 68 t = memcpy out 0 (challenge_core sid c @ t)"
    if "length t = 16" for t
    using that assms by (simp add: memcpy_memcpy)
  have front: "take 68 (memcpy out 0 (challenge_core sid c)) = challenge_core sid c"
    using assms by (simp add: memcpy_def)
  have "ch_suite c = C0PQ_SUITE" "take 16 (ch_key_id c) = ch_key_id c"
    "take 16 (ch_device_nonce c) = ch_device_nonce c" "take 16 (ch_server_nonce c) = ch_server_nonce c"
    using assms(1) by (simp_all add: challenge_wf_def)
  with assms core tag front show ?thesis
    by (simp add: c0pq_encode_challenge_def Let_def encode_header_ok store16_be store64_be challenge_frame_def
        challenge_key_def memcpy_front)
qed

section \<open>Acceptance\<close>

text \<open>A decoded header of a frame of fixed length is the encoding of its fields.\<close>

lemma decode_header_fixed:
  assumes "frame_length \<le> length f" and "frame_length = unat n + 10"
  shows "fst (c0pq_decode_header (Some h0) (Some f) frame_length) = C0PQLINK_OK \<and>
     htype (the (snd (c0pq_decode_header (Some h0) (Some f) frame_length))) = ty \<and>
     hflags (the (snd (c0pq_decode_header (Some h0) (Some f) frame_length))) = fl \<and>
     hsession_id (the (snd (c0pq_decode_header (Some h0) (Some f) frame_length))) = sid \<and>
     payload_length (the (snd (c0pq_decode_header (Some h0) (Some f) frame_length))) = ucast n
     \<longleftrightarrow> take 10 f = header_bytes ty fl n sid" (is "?L \<longleftrightarrow> ?R")
proof
  assume L: ?L
  then obtain h where h: "c0pq_decode_header (Some h0) (Some f) frame_length = (C0PQLINK_OK, Some h)"
    by (cases "c0pq_decode_header (Some h0) (Some f) frame_length")
      (auto simp: c0pq_decode_header_def Let_def split: if_splits)
  then obtain n' where n': "frame_length = unat n' + 10"
    and eq: "take 10 f = header_bytes (htype h) (hflags h) n' (hsession_id h)"
    using decode_header_ok_iff [OF assms(1)] by blast
  then have "n' = n" using assms(2) by (simp add: word_unat_eq_iff)
  with L h eq show ?R by simp
next
  assume R: ?R
  have "c0pq_decode_header (Some h0) (Some f) frame_length =
      (C0PQLINK_OK, Some \<lparr>htype = ty, hflags = fl, payload_length = ucast n, hsession_id = sid\<rparr>)"
    unfolding decode_header_ok_iff [OF assms(1)] using R assms(2) by auto
  then show ?L by simp
qed

lemma split_hello:
  assumes "length f = 60"
  shows "f = take 10 f @ slice f 10 2 @ slice f 12 8 @ slice f 20 8 @ slice f 28 16 @ slice f 44 16"
    and "take 44 f = take 10 f @ slice f 10 2 @ slice f 12 8 @ slice f 20 8 @ slice f 28 16"
proof -
  have parts: "take (10 + 2 + 8 + 8 + 16) f = take 10 f @ slice f 10 2 @ slice f 12 8 @ slice f 20 8 @ slice f 28 16"
    unfolding take_add by (simp add: slice_def)
  then show "take 44 f = take 10 f @ slice f 10 2 @ slice f 12 8 @ slice f 20 8 @ slice f 28 16" by simp
  moreover have "f = take 44 f @ slice f 44 16" using assms by (simp add: slice_def)
  ultimately show "f = take 10 f @ slice f 10 2 @ slice f 12 8 @ slice f 20 8 @ slice f 28 16 @ slice f 44 16"
    by (metis append_assoc)
qed

lemma be_bytes_load:
  "length bs = 2 \<Longrightarrow> be_bytes 2 (c0pq_load16_be bs) = bs"
  "length bs = 8 \<Longrightarrow> be_bytes 8 (c0pq_load64_be bs) = bs"
  by (simp_all add: load16_be load64_be be_bytes_be_word)

lemma load_be_bytes [simp]:
  "c0pq_load16_be (be_bytes 2 v) = v" "c0pq_load32_be (be_bytes 4 w) = w" "c0pq_load64_be (be_bytes 8 x) = x"
  by (simp_all add: load16_be load32_be load64_be be_word_be_bytes)

lemma decode_hello_ok_iff:
  assumes len: "length f = 60"
  shows "c0pq_decode_verify_hello (Some h0) (Some s0) (Some f) 60 (Some psk) = (C0PQLINK_OK, Some h, Some sid)
     \<longleftrightarrow> hello_wf h \<and> f = hello_frame psk sid h" (is "?L \<longleftrightarrow> ?R")
proof
  let ?d = "c0pq_decode_header (Some header_zero) (Some f) 60"
  assume L: ?L
  let ?v = "c0pq_verify_auth_tag (slice f 44 16) (c0pq_derive_hello_key psk) ''C0PQ/1 hello frame'' (take 44 f)"
  note L' = L [unfolded c0pq_decode_verify_hello_def Let_def case_prod_unfold option.case prod.case]
  have hd: "fst ?d = C0PQLINK_OK \<and> htype (the (snd ?d)) = C0PQ_FRAME_HELLO \<and> hflags (the (snd ?d)) = 0
      \<and> payload_length (the (snd ?d)) = 60 - 10"
    by (rule ccontr) (use L' in \<open>simp split: if_split_asm\<close>)
  have v: "?v = C0PQLINK_OK" by (rule ccontr) (use L' hd in simp)
  have su: "c0pq_load16_be (slice f 10 2) = C0PQ_SUITE" by (rule ccontr) (use L' hd v in simp)
  have h: "h = h0\<lparr>hello_suite := C0PQ_SUITE, hello_device_id := slice f 12 8,
        hello_epoch := c0pq_load64_be (slice f 20 8), hello_nonce := slice f 28 16\<rparr>"
    and sid: "hsession_id (the (snd ?d)) = sid"
    using L' hd v su by simp_all
  have hdr: "take 10 f = header_bytes C0PQ_FRAME_HELLO 0 50 sid"
    using hd sid len by (intro iffD1 [OF decode_header_fixed [of 60 f 50 header_zero C0PQ_FRAME_HELLO 0 sid]]) simp_all
  have b2: "slice f 10 2 = be_bytes 2 C0PQ_SUITE"
    using be_bytes_load(1) [of "slice f 10 2"] len by (simp add: su)
  have b8: "be_bytes 8 (c0pq_load64_be (slice f 20 8)) = slice f 20 8" using len by (simp add: be_bytes_load(2))
  have core: "take 44 f = hello_core sid h"
    unfolding split_hello(2) [OF len] hdr b2 by (simp add: hello_core_def h b8)
  have "slice f 44 16 = c0pq_auth_tag (c0pq_derive_hello_key psk) ''C0PQ/1 hello frame'' (hello_core sid h)"
    using v len by (simp add: verify_auth_tag_iff core)
  moreover have "f = take 44 f @ slice f 44 16" using len by (simp add: slice_def)
  moreover have "hello_wf h" using len by (simp add: h hello_wf_def)
  ultimately show ?R by (simp add: core hello_frame_def)
next
  assume R: ?R
  then have wf: "hello_wf h" and f: "f = hello_frame psk sid h" by simp_all
  let ?t = "c0pq_auth_tag (c0pq_derive_hello_key psk) ''C0PQ/1 hello frame'' (hello_core sid h)"
  have parts: "f = header_bytes C0PQ_FRAME_HELLO 0 50 sid @ be_bytes 2 (hello_suite h) @ hello_device_id h
      @ be_bytes 8 (hello_epoch h) @ hello_nonce h @ ?t"
    by (simp add: f hello_frame_def hello_core_def)
  have sl: "take 10 f = header_bytes C0PQ_FRAME_HELLO 0 50 sid" "slice f 10 2 = be_bytes 2 (hello_suite h)"
    "slice f 12 8 = hello_device_id h" "slice f 20 8 = be_bytes 8 (hello_epoch h)" "slice f 28 16 = hello_nonce h"
    "slice f 44 16 = ?t" "take 44 f = hello_core sid h"
    using wf unfolding parts by (simp_all add: slice_def hello_wf_def hello_core_def)
  have "c0pq_decode_header (Some header_zero) (Some f) 60 = (C0PQLINK_OK,
      Some \<lparr>htype = C0PQ_FRAME_HELLO, hflags = 0, payload_length = 50, hsession_id = sid\<rparr>)"
    using len sl(1) by (subst decode_header_ok_iff) (auto intro!: exI [of _ 50])
  moreover have "hello_suite h = C0PQ_SUITE" using wf by (simp add: hello_wf_def)
  ultimately show ?L
    by (simp add: c0pq_decode_verify_hello_def Let_def sl verify_auth_tag_iff)
qed

lemma decode_challenge_ok_iff:
  assumes len: "84 \<le> length f"
  shows "c0pq_decode_verify_challenge (Some c0) sid (Some f) 84 (Some psk) = (C0PQLINK_OK, Some c)
     \<longleftrightarrow> challenge_wf c \<and> take 84 f = challenge_frame psk sid c" (is "?L \<longleftrightarrow> ?R")
proof
  let ?d = "c0pq_decode_header (Some header_zero) (Some f) 84"
  let ?c = "\<lparr>ch_suite = c0pq_load16_be (slice f 10 2), ch_epoch = c0pq_load64_be (slice f 12 8),
      ch_key_id = slice f 20 16, ch_device_nonce = slice f 36 16, ch_server_nonce = slice f 52 16\<rparr>"
  let ?v = "c0pq_verify_auth_tag (slice f 68 16) (challenge_key psk ?c) ''C0PQ/1 challenge frame'' (take 68 f)"
  assume L: ?L
  note L' = L [unfolded c0pq_decode_verify_challenge_def Let_def case_prod_unfold option.case prod.case]
  have hd: "fst ?d = C0PQLINK_OK \<and> htype (the (snd ?d)) = C0PQ_FRAME_CHALLENGE \<and> hflags (the (snd ?d)) = 0
      \<and> hsession_id (the (snd ?d)) = sid \<and> payload_length (the (snd ?d)) = 84 - 10"
    by (rule ccontr) (use L' in \<open>simp split: if_split_asm\<close>)
  have su: "c0pq_load16_be (slice f 10 2) = C0PQ_SUITE" by (rule ccontr) (use L' hd in simp)
  have v: "?v = C0PQLINK_OK" by (rule ccontr) (use L' hd su in \<open>simp add: challenge_key_def\<close>)
  have c: "c = ?c" using L' hd su v by (simp add: challenge_key_def)
  have hdr: "take 10 f = header_bytes C0PQ_FRAME_CHALLENGE 0 74 sid"
    using hd len by (intro iffD1 [OF decode_header_fixed [of 84 f 74 header_zero C0PQ_FRAME_CHALLENGE 0 sid]]) simp_all
  have b: "be_bytes 2 (c0pq_load16_be (slice f 10 2)) = slice f 10 2"
    "be_bytes 8 (c0pq_load64_be (slice f 12 8)) = slice f 12 8"
    using len by (simp_all add: be_bytes_load)
  have "take (10 + 2 + 8 + 16 + 16 + 16) f = take 10 f @ slice f 10 2 @ slice f 12 8 @ slice f 20 16 @ slice f 36 16 @ slice f 52 16"
    unfolding take_add by (simp add: slice_def)
  then have core: "take 68 f = challenge_core sid c"
    by (simp only: challenge_core_def c hdr b c0pq_challenge.simps) simp
  have "slice f 68 16 = c0pq_auth_tag (challenge_key psk c) ''C0PQ/1 challenge frame'' (challenge_core sid c)"
    using v len core by (simp add: verify_auth_tag_iff c)
  moreover have "take 84 f = take 68 f @ slice f 68 16"
    using take_add [of 68 16 f] by (simp add: slice_def)
  moreover have "challenge_wf c" using len su by (simp add: c challenge_wf_def)
  ultimately show ?R by (simp add: core challenge_frame_def)
next
  assume R: ?R
  then have wf: "challenge_wf c" and f: "take 84 f = challenge_frame psk sid c" by simp_all
  let ?t = "c0pq_auth_tag (challenge_key psk c) ''C0PQ/1 challenge frame'' (challenge_core sid c)"
  have parts: "f = header_bytes C0PQ_FRAME_CHALLENGE 0 74 sid @ be_bytes 2 (ch_suite c) @ be_bytes 8 (ch_epoch c)
      @ ch_key_id c @ ch_device_nonce c @ ch_server_nonce c @ ?t @ drop 84 f"
    using f append_take_drop_id [of 84 f] by (simp add: challenge_frame_def challenge_core_def)
  obtain r where parts': "f = header_bytes C0PQ_FRAME_CHALLENGE 0 74 sid @ be_bytes 2 (ch_suite c) @ be_bytes 8 (ch_epoch c)
      @ ch_key_id c @ ch_device_nonce c @ ch_server_nonce c @ ?t @ r" using parts by metis
  have sl: "take 10 f = header_bytes C0PQ_FRAME_CHALLENGE 0 74 sid" "slice f 10 2 = be_bytes 2 (ch_suite c)"
    "slice f 12 8 = be_bytes 8 (ch_epoch c)" "slice f 20 16 = ch_key_id c" "slice f 36 16 = ch_device_nonce c"
    "slice f 52 16 = ch_server_nonce c" "slice f 68 16 = ?t" "take 68 f = challenge_core sid c"
    using wf unfolding parts' by (simp_all add: slice_def challenge_wf_def challenge_core_def)
  have "c0pq_decode_header (Some header_zero) (Some f) 84 = (C0PQLINK_OK,
      Some \<lparr>htype = C0PQ_FRAME_CHALLENGE, hflags = 0, payload_length = 74, hsession_id = sid\<rparr>)"
    using len sl(1) by (subst decode_header_ok_iff) (auto intro!: exI [of _ 74])
  moreover have "ch_suite c = C0PQ_SUITE" using wf by (simp add: challenge_wf_def)
  ultimately show ?L
    by (simp add: c0pq_decode_verify_challenge_def Let_def sl verify_auth_tag_iff challenge_key_def)
qed

section \<open>Properties\<close>

text \<open>C37: hello frames. Encoding writes the authenticated frame into the first 60 bytes of the
  buffer and nothing else; decoding a 60-byte frame succeeds with hello \<open>h\<close> and session
  identifier \<open>sid\<close> exactly when the frame is the encoding of \<open>h\<close> and \<open>sid\<close> under the
  same pre-shared key, so the two are inverse and no altered frame decodes to the original.\<close>

theorem hello_exact:
  assumes "hello_wf h" and "60 \<le> length out" and "length f = 60"
  shows "c0pq_encode_hello (Some out) sid (Some h) (Some psk)
           = (C0PQLINK_OK, Some (hello_frame psk sid h @ drop 60 out)) \<and>
         (c0pq_decode_verify_hello (Some h0) (Some s0) (Some f) 60 (Some psk) = (C0PQLINK_OK, Some h, Some sid)
           \<longleftrightarrow> f = hello_frame psk sid h)"
  using assms by (simp add: encode_hello_ok decode_hello_ok_iff)

theorem hello_exact_witness:
  "c0pq_decode_verify_hello (Some hello_zero) (Some 0)
     (Some (hello_frame (replicate 32 9) 5 (hello_zero\<lparr>hello_suite := 1\<rparr>))) 60 (Some (replicate 32 9))
   = (C0PQLINK_OK, Some (hello_zero\<lparr>hello_suite := 1\<rparr>), Some 5)"
proof -
  have wf: "hello_wf (hello_zero\<lparr>hello_suite := 1\<rparr>)" by (simp add: hello_wf_def hello_zero_def)
  show ?thesis
    using hello_exact [OF wf, of "replicate 60 0" "hello_frame (replicate 32 9) 5 (hello_zero\<lparr>hello_suite := 1\<rparr>)" 5
        "replicate 32 9" hello_zero 0] wf by simp
qed

text \<open>challenge frames. The same for the challenge, whose tag key is itself derived from the
  fields it authenticates: the decoder accepts a frame for the expected session exactly when it is
  the encoding of the challenge returned, and any rejection past the header leaves the challenge
  zeroed or unchanged.\<close>

theorem challenge_exact:
  assumes "challenge_wf c" and "84 \<le> length out" and "84 \<le> length f"
  shows "c0pq_encode_challenge (Some out) sid (Some c) (Some psk)
           = (C0PQLINK_OK, Some (challenge_frame psk sid c @ drop 84 out)) \<and>
         (c0pq_decode_verify_challenge (Some c0) sid (Some f) 84 (Some psk) = (C0PQLINK_OK, Some c)
           \<longleftrightarrow> take 84 f = challenge_frame psk sid c) \<and>
         (fst (c0pq_decode_verify_challenge (Some c0) sid (Some f) 84 (Some psk)) \<noteq> C0PQLINK_OK \<longrightarrow>
          snd (c0pq_decode_verify_challenge (Some c0) sid (Some f) 84 (Some psk)) \<in> {Some c0, Some challenge_zero})"
  using assms by (simp add: encode_challenge_ok decode_challenge_ok_iff)
    (simp add: c0pq_decode_verify_challenge_def Let_def case_prod_unfold)

theorem challenge_exact_witness:
  "c0pq_decode_verify_challenge (Some challenge_zero) 7
     (Some (challenge_frame (replicate 32 9) 7 (challenge_zero\<lparr>ch_suite := 1\<rparr>))) 84 (Some (replicate 32 9))
   = (C0PQLINK_OK, Some (challenge_zero\<lparr>ch_suite := 1\<rparr>))"
proof -
  have wf: "challenge_wf (challenge_zero\<lparr>ch_suite := 1\<rparr>)" by (simp add: challenge_wf_def challenge_zero_def)
  show ?thesis
    using challenge_exact [OF wf, of "replicate 84 0"
        "challenge_frame (replicate 32 9) 7 (challenge_zero\<lparr>ch_suite := 1\<rparr>)" 7 "replicate 32 9" challenge_zero] wf
    by simp
qed

end
