(* ===== verification/MlkemArith.thy ===== *)
theory MlkemArith
  imports Common
begin

text \<open>
  The arithmetic of \<open>core/mlkem512_stream.c\<close>: the branch-free signed product built from
  8-bit unsigned products, Montgomery and Barrett reduction modulo \<open>q = 3329\<close>, the
  canonical representative and the two compressions. A signed C integer is a word of its width
  read with \<open>sint\<close>; C's arithmetic shift is \<open>signed_drop_bit\<close>. The theory shows that
  the product is exact, that the reductions give small representatives of the right residue
  class, and that the compressions are the rounding of FIPS 203.
\<close>

unbundle bit_operations_syntax

type_synonym s16 = "16 word"
type_synonym s32 = "32 word"

abbreviation MLKEM_Q :: int where
  "MLKEM_Q \<equiv> 3329"

section \<open>The code\<close>

definition multiply_u8_fixed :: "u8 \<Rightarrow> u8 \<Rightarrow> u16" where
  "multiply_u8_fixed a b = ucast a * ucast b"

definition multiply_u16_fixed :: "u16 \<Rightarrow> u16 \<Rightarrow> u32" where
  "multiply_u16_fixed a b =
     (let p00 = multiply_u8_fixed (ucast a) (ucast b);
          p01 = multiply_u8_fixed (ucast a) (ucast (drop_bit 8 b));
          p10 = multiply_u8_fixed (ucast (drop_bit 8 a)) (ucast b);
          p11 = multiply_u8_fixed (ucast (drop_bit 8 a)) (ucast (drop_bit 8 b))
      in ucast p00 + push_bit 8 (ucast p01) + push_bit 8 (ucast p10) + push_bit 16 (ucast p11))"

definition multiply_s16_constant_schedule :: "s16 \<Rightarrow> s16 \<Rightarrow> s32" where
  "multiply_s16_constant_schedule a b =
     (let a_negative = (ucast (drop_bit 15 a) :: u32);
          b_negative = (ucast (drop_bit 15 b) :: u32);
          product = multiply_u16_fixed a b;
          a_correction = (0 - a_negative) AND push_bit 16 (ucast b);
          b_correction = (0 - b_negative) AND push_bit 16 (ucast a)
      in product - a_correction - b_correction)"

definition montgomery_reduce :: "s32 \<Rightarrow> s16" where
  "montgomery_reduce value =
     (let low = (ucast value :: s16);
          factor = low * 62209;
          product = multiply_s16_constant_schedule factor 3329
      in ucast (signed_drop_bit 16 (value - product)))"

definition barrett_reduce :: "s16 \<Rightarrow> s16" where
  "barrett_reduce value =
     (let v = word_of_int ((2 ^ 26 + MLKEM_Q div 2) div MLKEM_Q);
          quotient = (ucast (signed_drop_bit 26 (multiply_s16_constant_schedule v value + push_bit 25 1)) :: s16)
      in value - ucast (multiply_s16_constant_schedule quotient 3329))"

definition fqmul :: "s16 \<Rightarrow> s16 \<Rightarrow> s16" where
  "fqmul a b = montgomery_reduce (multiply_s16_constant_schedule a b)"

definition freeze_coefficient :: "s16 \<Rightarrow> s16" where
  "freeze_coefficient value =
     (let reduced = barrett_reduce value;
          mask = signed_drop_bit 15 reduced
      in reduced + (mask AND 3329))"

definition compress10 :: "s16 \<Rightarrow> u16" where
  "compress10 coefficient =
     (let v = (ucast (freeze_coefficient coefficient) :: u32);
          scaled = (push_bit 10 (ucast v :: u64) + 1665) * 1290167
      in ucast (drop_bit 32 scaled AND 0x03ff))"

definition compress4 :: "s16 \<Rightarrow> u8" where
  "compress4 coefficient =
     (let v = (ucast (freeze_coefficient coefficient) :: u32);
          scaled = (push_bit 4 v + 1665) * 80635
      in ucast (drop_bit 28 scaled AND 0x0f))"

section \<open>The product is exact\<close>

lemma unat_split_byte: "unat (a :: u16) = unat (ucast a :: u8) + 256 * unat (ucast (drop_bit 8 a) :: u8)"
proof -
  have "unat (ucast a :: u8) = unat a mod 256"
    by (simp add: unsigned_ucast_eq take_bit_eq_mod)
  moreover have "unat (ucast (drop_bit 8 a) :: u8) = unat a div 256"
  proof -
    have "unat a div 256 < 256" using unat_u16_less [of a] by simp
    then show ?thesis
      by (simp add: unsigned_ucast_eq drop_bit_eq_div unat_div_distrib take_bit_eq_mod)
  qed
  ultimately show ?thesis by simp
qed

lemma unat_multiply_u8: "unat (multiply_u8_fixed a b) = unat a * unat b"
proof -
  have "unat a * unat b \<le> 255 * 255"
    using unat_u8_less [of a] unat_u8_less [of b] by (intro mult_mono) simp_all
  moreover have "unat (ucast x :: u16) = unat x" for x :: u8
    using unat_u8_less [of x] by (simp add: unsigned_ucast_eq take_bit_nat_eq_self)
  ultimately show ?thesis
    by (simp add: multiply_u8_fixed_def unat_word_ariths)
qed

lemma multiply_u16_exact: "multiply_u16_fixed a b = of_nat (unat a * unat b)"
proof -
  let ?a0 = "unat (ucast a :: u8)" and ?a1 = "unat (ucast (drop_bit 8 a) :: u8)"
  let ?b0 = "unat (ucast b :: u8)" and ?b1 = "unat (ucast (drop_bit 8 b) :: u8)"
  have ucast_nat: "(ucast x :: u32) = of_nat (unat x)" for x :: u16 by simp
  have "multiply_u16_fixed a b =
      of_nat (?a0 * ?b0 + 2 ^ 8 * (?a0 * ?b1) + 2 ^ 8 * (?a1 * ?b0) + 2 ^ 16 * (?a1 * ?b1))"
    unfolding multiply_u16_fixed_def Let_def push_bit_eq_mult ucast_nat unat_multiply_u8
    by (simp add: mult.commute)
  also have "?a0 * ?b0 + 2 ^ 8 * (?a0 * ?b1) + 2 ^ 8 * (?a1 * ?b0) + 2 ^ 16 * (?a1 * ?b1) = unat a * unat b"
    by (simp add: unat_split_byte [of a] unat_split_byte [of b] algebra_simps)
  finally show ?thesis .
qed

text \<open>A 16-bit word read as a signed number, from its unsigned value and its sign bit.\<close>

lemma sint_uint16: "sint (a :: s16) = uint a - 65536 * of_bool (bit a 15)"
proof -
  have "sint a = signed_take_bit 15 (uint a)" by (simp add: sint_uint)
  also have "\<dots> = uint a - 65536 * of_bool (bit a 15)"
    using uint_u16_less [of a]
    by (simp add: signed_take_bit_eq_take_bit_minus bit_uint_iff take_bit_int_eq_self)
  finally show ?thesis .
qed

lemma sign_word: "(ucast (drop_bit 15 (a :: u16)) :: u32) = of_bool (bit a 15)"
proof (rule bit_word_eqI)
  fix n assume "n < LENGTH(32)"
  show "bit (ucast (drop_bit 15 a) :: u32) n = bit (of_bool (bit a 15) :: u32) n"
    using bit_imp_le_length [of a "15 + n"] \<open>n < LENGTH(32)\<close> by (cases n) (auto simp: bit_simps)
qed

lemma correction: "(0 - of_bool p) AND x = of_bool p * (x :: u32)"
  by (cases p) simp_all

lemma multiply_s16_exact_word:
  "multiply_s16_constant_schedule a b = word_of_int (sint a * sint b)"
proof -
  let ?A = "of_bool (bit a 15) :: int" and ?B = "of_bool (bit b 15) :: int"
  have cast: "(ucast x :: u32) = word_of_int (uint x)" for x :: u16 by simp
  have "multiply_s16_constant_schedule a b = word_of_int (uint a * uint b)
      - of_bool (bit a 15) * (2 ^ 16 * word_of_int (uint b)) - of_bool (bit b 15) * (2 ^ 16 * word_of_int (uint a))"
    unfolding multiply_s16_constant_schedule_def Let_def sign_word correction push_bit_eq_mult
      multiply_u16_exact unfolding cast by (simp add: mult.commute)
  also have "\<dots> = word_of_int (uint a * uint b - 65536 * ?A * uint b - 65536 * ?B * uint a)"
    by simp
  also have "\<dots> = word_of_int (uint a * uint b - 65536 * ?A * uint b - 65536 * ?B * uint a
      + 2 ^ 32 * (?A * ?B))"
    by (simp add: word_of_int_eq_iff take_bit_eq_mod)
  also have "uint a * uint b - 65536 * ?A * uint b - 65536 * ?B * uint a + 2 ^ 32 * (?A * ?B) = sint a * sint b"
    by (simp add: sint_uint16 algebra_simps)
  finally show ?thesis .
qed

lemma sint_s32_of_int: "- 2147483648 \<le> z \<Longrightarrow> z < 2147483648 \<Longrightarrow> sint (word_of_int z :: s32) = z"
  by (simp add: signed_of_int signed_take_bit_int_eq_self)

lemma sint_s16_of_int: "- 32768 \<le> z \<Longrightarrow> z < 32768 \<Longrightarrow> sint (word_of_int z :: s16) = z"
  by (simp add: signed_of_int signed_take_bit_int_eq_self)

lemma s16_product_range:
  "- 2147483648 \<le> sint (a :: s16) * sint (b :: s16)" "sint a * sint b < 2147483648"
proof -
  have "\<bar>sint a\<bar> \<le> 32768" "\<bar>sint b\<bar> \<le> 32768"
    using sint_s16_range [of a] sint_s16_range [of b] by simp_all
  then have "\<bar>sint a * sint b\<bar> \<le> 32768 * 32768" unfolding abs_mult by (intro mult_mono) simp_all
  then show "- 2147483648 \<le> sint a * sint b" "sint a * sint b < 2147483648" by simp_all
qed

lemma multiply_s16_exact: "sint (multiply_s16_constant_schedule a b) = sint a * sint b"
  unfolding multiply_s16_exact_word by (rule sint_s32_of_int) (fact s16_product_range)+

section \<open>Montgomery reduction\<close>

lemma word_of_int_sint16: "word_of_int (sint (x :: s16)) = x"
  by simp

lemma sint_mod16: "sint (x :: s16) mod 65536 = uint x"
  using uint_u16_less [of x] by (cases "bit x 15") (simp_all add: sint_uint16 mod_diff_right_eq [symmetric])

text \<open>The factor is the residue of \<open>value * q\<^sup>-\<^sup>1\<close> modulo \<open>2\<^sup>1\<^sup>6\<close>, so the difference is divisible.\<close>

lemma montgomery_divides:
  fixes v :: s32
  defines "f \<equiv> sint ((ucast v :: s16) * 62209)"
  shows "(sint v - f * 3329) mod 65536 = 0"
proof -
  have "f mod 65536 = (uint (ucast v :: s16) * 62209) mod 65536"
    unfolding f_def sint_mod16 by (simp add: uint_word_ariths)
  also have "uint (ucast v :: s16) = uint v mod 65536"
    by (simp add: unsigned_ucast_eq take_bit_eq_mod)
  finally have f: "f mod 65536 = (uint v * 62209) mod 65536" by (simp add: mod_mult_left_eq)
  have "sint v = uint v - 4294967296 * of_bool (bit v 31)"
  proof -
    have "0 \<le> uint v" "uint v < 4294967296"
      using unsigned_less [where ?'a = int and ?'b = 32, of v] by simp_all
    then show ?thesis
      by (simp add: sint_uint signed_take_bit_eq_take_bit_minus bit_uint_iff take_bit_int_eq_self)
  qed
  then have v: "sint v mod 65536 = uint v mod 65536" by (cases "bit v 31") (simp_all add: mod_diff_right_eq [symmetric])
  have "(sint v - f * 3329) mod 65536 = (uint v - uint v * 62209 * 3329) mod 65536"
    using f v by (intro mod_diff_cong mod_mult_cong) simp_all
  also have "uint v - uint v * 62209 * 3329 = 65536 * (uint v * (- 3160))" by simp
  finally show ?thesis by simp
qed

lemma sint_signed_drop_bit: "sint (signed_drop_bit n (w :: 'a::len word)) = sint w div 2 ^ n"
  by (simp add: sint_signed_drop_bit_eq drop_bit_eq_div)

lemma ucast_sint: "(ucast (w :: s32) :: s16) = word_of_int (sint w)"
  by (rule bit_word_eqI) (simp add: bit_simps min_def)

lemma montgomery_reduce_exact:
  assumes "- 109084672 \<le> sint v" and "sint v < 109084672"
  obtains f where "65536 * sint (montgomery_reduce v) = sint v - 3329 * f"
    and "- 3329 < sint (montgomery_reduce v)" and "sint (montgomery_reduce v) < 3329"
proof -
  define f where "f = sint ((ucast v :: s16) * 62209)"
  have fr: "- 32768 \<le> f" "f < 32768" unfolding f_def by (rule sint_s16_range)+
  have q: "sint (3329 :: s16) = 3329" by simp
  have "v - multiply_s16_constant_schedule ((ucast v :: s16) * 62209) 3329 = word_of_int (sint v - f * 3329)"
    by (simp add: multiply_s16_exact_word f_def)
  moreover have "sint (word_of_int (sint v - f * 3329) :: s32) = sint v - f * 3329"
    using assms fr by (intro sint_s32_of_int) linarith+
  ultimately have "sint (signed_drop_bit 16 (v - multiply_s16_constant_schedule ((ucast v :: s16) * 62209) 3329))
      = (sint v - f * 3329) div 65536"
    by (simp add: sint_signed_drop_bit)
  moreover define r where "r = (sint v - f * 3329) div 65536"
  ultimately have red: "montgomery_reduce v = word_of_int r"
    unfolding montgomery_reduce_def Let_def
    by (simp only: ucast_sint)
  have r: "65536 * r = sint v - f * 3329"
    using montgomery_divides [of v] by (auto simp: r_def f_def)
  then have bounds: "- 3329 < r" "r < 3329" using assms fr by linarith+
  then have "sint (montgomery_reduce v) = r" unfolding red by (intro sint_s16_of_int) linarith+
  with r bounds that [of f] show ?thesis by simp
qed

text \<open>Residues: \<open>169\<close> is the inverse of \<open>2\<^sup>1\<^sup>6\<close> modulo \<open>q\<close>.\<close>

lemma montgomery_residue:
  assumes "65536 * r = v - 3329 * f"
  shows "r mod 3329 = (v * 169) mod (3329 :: int)"
proof -
  have v: "v = 65536 * r + 3329 * f" using assms by simp
  have "v * 169 = r + 3329 * (r * 3327 + f * 169)" unfolding v by (simp add: algebra_simps)
  then show ?thesis by (simp only: mod_mult_self2)
qed

lemma montgomery_reduce_correct:
  assumes "- 109084672 \<le> sint v" and "sint v < 109084672"
  shows "sint (montgomery_reduce v) mod 3329 = (sint v * 169) mod 3329"
    and "\<bar>sint (montgomery_reduce v)\<bar> < 3329"
  using assms by (rule montgomery_reduce_exact; simp add: montgomery_residue)+

lemma product_range:
  assumes "\<bar>x\<bar> < 3329" and "- 32768 \<le> y" and "y < 32768"
  shows "- 109084672 \<le> x * y" and "x * y < (109084672 :: int)"
proof -
  have "\<bar>x * y\<bar> \<le> 3328 * 32768" unfolding abs_mult using assms by (intro mult_mono) simp_all
  then show "- 109084672 \<le> x * y" and "x * y < 109084672" by linarith+
qed

lemma fqmul_correct:
  assumes "\<bar>sint a\<bar> < 3329 \<or> \<bar>sint b\<bar> < 3329"
  shows "sint (fqmul a b) mod 3329 = (sint a * sint b * 169) mod 3329"
    and "\<bar>sint (fqmul a b)\<bar> < 3329"
proof -
  have "- 109084672 \<le> sint a * sint b \<and> sint a * sint b < 109084672"
    using assms product_range [of "sint a" "sint b"] product_range [of "sint b" "sint a"]
      sint_s16_range [of a] sint_s16_range [of b] by (auto simp: mult.commute)
  then show "sint (fqmul a b) mod 3329 = (sint a * sint b * 169) mod 3329"
    and "\<bar>sint (fqmul a b)\<bar> < 3329"
    using montgomery_reduce_correct [of "multiply_s16_constant_schedule a b"]
    by (simp_all add: fqmul_def multiply_s16_exact)
qed

section \<open>Barrett reduction and the canonical representative\<close>

text \<open>The quotient of the code is the nearest integer up to \<open>447 a / 2\<^sup>2\<^sup>6\<close>, which the range of
  16-bit inputs keeps below one half.\<close>

lemma barrett_quotient:
  fixes a :: int
  assumes "- 32768 \<le> a" and "a < 32768"
  defines "t \<equiv> (20159 * a + 33554432) div 67108864"
  shows "- 1664 \<le> a - 3329 * t" and "a - 3329 * t \<le> 1664" and "- 10 \<le> t" and "t \<le> 10"
proof -
  have "67108864 * t \<le> 20159 * a + 33554432" and "20159 * a + 33554432 < 67108864 * t + 67108864"
    unfolding t_def by linarith+
  with assms(1,2) show "- 1664 \<le> a - 3329 * t" and "a - 3329 * t \<le> 1664" and "- 10 \<le> t" and "t \<le> 10"
    by linarith+
qed

lemma sint_add_s32:
  "- 2147483648 \<le> sint (a :: s32) + sint b \<Longrightarrow> sint a + sint b < 2147483648 \<Longrightarrow> sint (a + b) = sint a + sint b"
  using sint_s32_of_int [of "sint a + sint b"] by simp

lemma sint_add_s16:
  "- 32768 \<le> sint (a :: s16) + sint b \<Longrightarrow> sint a + sint b < 32768 \<Longrightarrow> sint (a + b) = sint a + sint b"
  using sint_s16_of_int [of "sint a + sint b"] by simp

lemma sint_diff_s16:
  "- 32768 \<le> sint (a :: s16) - sint b \<Longrightarrow> sint a - sint b < 32768 \<Longrightarrow> sint (a - b) = sint a - sint b"
  using sint_s16_of_int [of "sint a - sint b"] by simp

lemma barrett_reduce_exact:
  "sint (barrett_reduce a) = sint a - 3329 * ((20159 * sint a + 33554432) div 67108864)"
proof -
  let ?t = "(20159 * sint a + 33554432) div 67108864"
  let ?m = "multiply_s16_constant_schedule 20159 a"
  note r = sint_s16_range [of a]
  note t = barrett_quotient [OF r]
  have m: "sint ?m = 20159 * sint a" by (simp add: multiply_s16_exact)
  have "sint (?m + push_bit 25 1) = 20159 * sint a + 33554432"
    using r m by (subst sint_add_s32) simp_all
  then have q: "sint (signed_drop_bit 26 (?m + push_bit 25 1)) = ?t"
    by (simp add: sint_signed_drop_bit)
  have quot: "sint (ucast (signed_drop_bit 26 (?m + push_bit 25 1)) :: s16) = ?t"
    unfolding ucast_sint q by (rule sint_s16_of_int) (use t in linarith)+
  have prod: "sint (ucast (multiply_s16_constant_schedule (ucast (signed_drop_bit 26 (?m + push_bit 25 1))) 3329) :: s16)
      = sint (word_of_int (?t * 3329) :: s16)"
    unfolding ucast_sint multiply_s16_exact quot [unfolded ucast_sint] by simp
  have "barrett_reduce a = a - word_of_int (?t * 3329)"
    unfolding barrett_reduce_def Let_def using prod signed_word_eqI by simp
  also have "\<dots> = word_of_int (sint a - 3329 * ?t)" by (simp add: mult.commute)
  finally show ?thesis
    using t by (simp only:) (rule sint_s16_of_int; linarith)
qed

lemma barrett_reduce_correct:
  "sint (barrett_reduce a) mod 3329 = sint a mod 3329" "\<bar>sint (barrett_reduce a)\<bar> \<le> 1664"
  using barrett_quotient [OF sint_s16_range, of a]
  by (simp_all add: barrett_reduce_exact minus_mod_eq_mult_div mod_diff_right_eq [symmetric] abs_le_iff)

lemma freeze_correct: "sint (freeze_coefficient a) = sint a mod 3329"
proof -
  let ?r = "barrett_reduce a"
  note b = barrett_reduce_correct [of a]
  have mask: "signed_drop_bit 15 ?r = (if sint ?r < 0 then - 1 else 0)"
  proof -
    have "sint (signed_drop_bit 15 ?r) = sint ?r div 32768" by (simp add: sint_signed_drop_bit)
    also have "\<dots> = (if sint ?r < 0 then - 1 else 0)"
      using sint_s16_range [of ?r] by (auto simp: div_pos_neg_trivial)
    also have "\<dots> = sint (if sint ?r < 0 then - 1 else 0 :: s16)" by simp
    finally show ?thesis by (rule signed_word_eqI)
  qed
  have "sint (freeze_coefficient a) = (if sint ?r < 0 then sint ?r + 3329 else sint ?r)"
    unfolding freeze_coefficient_def Let_def mask using b(2) by (auto simp: sint_add_s16)
  also have "\<dots> = sint ?r mod 3329"
  proof (cases "sint ?r < 0")
    case True
    then have "(sint ?r + 3329) mod 3329 = sint ?r + 3329" using b(2) by (intro mod_pos_pos_trivial) simp_all
    with True show ?thesis by simp
  next
    case False
    with b(2) show ?thesis by simp
  qed
  finally show ?thesis using b(1) by simp
qed

lemma uint_freeze: "uint (freeze_coefficient a) = sint a mod 3329"
proof -
  have "0 \<le> sint (freeze_coefficient a)" by (simp add: freeze_correct)
  then have "\<not> bit (freeze_coefficient a) 15"
    using uint_u16_less [of "freeze_coefficient a"] by (auto simp: sint_uint16)
  then show ?thesis using freeze_correct [of a] by (simp add: sint_uint16)
qed

section \<open>Compression\<close>

text \<open>FIPS 203, equation 4.7: the nearest integer to \<open>(2^d / q) x\<close>, reduced modulo \<open>2^d\<close>.\<close>

definition spec_compress :: "nat \<Rightarrow> int \<Rightarrow> int" where
  "spec_compress d x = ((2 * 2 ^ d * x + 3329) div (2 * 3329)) mod 2 ^ d"

lemma round_half: "(2 * n + 3329) div 6658 = (n + 1664) div (3329 :: int)"
  by linarith

text \<open>Division by multiplication with \<open>80635\<close>, about \<open>2\<^sup>2\<^sup>8 / q\<close>, and with
  \<open>1290167\<close>, about \<open>2\<^sup>3\<^sup>2 / q\<close>.\<close>

lemma divide_80635:
  assumes "0 \<le> n" and "n < 54912 + 1"
  shows "((n + 1) * 80635) div 268435456 = n div (3329 :: int)"
proof -
  define d r where "d = n div 3329" and "r = n mod 3329"
  have n: "n = 3329 * d + r" and r: "0 \<le> r" "r < 3329" and d: "0 \<le> d" "d \<le> 16"
    using assms by (simp_all add: d_def r_def)
  have "(n + 1) * 80635 = 268433915 * d + 80635 * r + 80635" by (simp add: n algebra_simps)
  then have "268435456 * d \<le> (n + 1) * 80635" and "(n + 1) * 80635 < 268435456 * d + 268435456"
    using r d by linarith+
  then have "((n + 1) * 80635) div 268435456 = d" by linarith
  then show ?thesis by (simp add: d_def)
qed

lemma divide_1290167:
  assumes v: "0 \<le> v" "v < 3329"
  shows "((1024 * v + 1665) * 1290167) div 4294967296 = (1024 * v + 1664) div (3329 :: int)"
proof -
  let ?n = "1024 * v + 1664"
  define d r where "d = ?n div 3329" and "r = ?n mod 3329"
  have n: "?n = 3329 * d + r" and r: "0 \<le> r" "r < 3329" and d: "0 \<le> d" "d \<le> 1024"
    using v by (simp_all add: d_def r_def)
  have small: "1353 * d < 1290167 * r + 1290167"
  proof (cases "r = 0")
    case True
    have "d \<le> 953"
    proof (rule ccontr)
      assume "\<not> d \<le> 953"
      moreover define k where "k = 1249 + 769 * v - 2500 * d"
      ultimately have "314 \<le> 1024 * k" and "1024 * k \<le> 384" using n True d by linarith+
      then have "0 < k" and "k < 1" by linarith+
      then show False by simp
    qed
    with True show ?thesis by simp
  next
    case False
    with r have "1 \<le> r" by simp
    with d show ?thesis by linarith
  qed
  define S where "S = (1024 * v + 1665) * 1290167"
  have "S = 1290167 * (?n + 1)" by (simp add: S_def)
  also have "\<dots> = 4294965943 * d + 1290167 * r + 1290167" unfolding n by (simp add: algebra_simps)
  finally have "4294967296 * d \<le> S" and "S < 4294967296 * d + 4294967296"
    using r d small by linarith+
  then have "S div 4294967296 = d" by linarith
  then have "((1024 * v + 1665) * 1290167) div 4294967296 = d" by (simp only: S_def)
  then show ?thesis by (simp add: d_def)
qed

lemma uint_u64_of_int: "0 \<le> z \<Longrightarrow> z < 18446744073709551616 \<Longrightarrow> uint (word_of_int z :: u64) = z"
  by (simp add: unsigned_of_int take_bit_int_eq_self)

lemma top_bits_of_int:
  "take_bit 4 (drop_bit 28 (word_of_int z :: u32)) = word_of_int (take_bit 4 (drop_bit 28 z))"
  by (rule bit_word_eqI) (auto simp: bit_simps)

lemma uint_low10: "uint ((w :: u64) AND 0x3ff) = uint w mod 1024"
proof -
  have "w AND 0x3ff = take_bit 10 w" by (simp add: take_bit_eq_mask mask_eq_exp_minus_1)
  then show ?thesis by (simp only: unsigned_take_bit_eq) (simp add: take_bit_eq_mod)
qed

lemma compress10_correct: "uint (compress10 a) = spec_compress 10 (sint a mod 3329)"
proof -
  define v where "v = sint a mod 3329"
  have v: "0 \<le> v" "v < 3329" by (simp_all add: v_def)
  have w: "(ucast (ucast (freeze_coefficient a) :: u32) :: u64) = word_of_int v"
  proof -
    have "(ucast (ucast x :: u32) :: u64) = word_of_int (uint x)" for x :: u16
      by (rule bit_word_eqI) (auto simp: bit_simps dest: bit_imp_le_length)
    then show ?thesis by (simp only: uint_freeze v_def)
  qed
  let ?s = "(1024 * v + 1665) * 1290167"
  have s: "(push_bit 10 (ucast (ucast (freeze_coefficient a) :: u32) :: u64) + 1665) * 1290167 = word_of_int ?s"
    by (simp add: w push_bit_eq_mult mult.commute)
  have rng: "0 \<le> ?s" "?s < 18446744073709551616" using v by simp_all
  have "uint (word_of_int ?s :: u64) = ?s" using rng by (rule uint_u64_of_int)
  then have "uint (drop_bit 32 (word_of_int ?s :: u64)) = ?s div 4294967296"
    by (simp add: uint_div drop_bit_eq_div)
  also have "\<dots> = (1024 * v + 1664) div 3329" using v by (rule divide_1290167)
  finally have q: "uint (drop_bit 32 (word_of_int ?s :: u64)) = (1024 * v + 1664) div 3329" .
  have "uint (drop_bit 32 (word_of_int ?s :: u64) AND 0x3ff) = ((1024 * v + 1664) div 3329) mod 1024"
    by (simp only: uint_low10 q)
  moreover have "((1024 * v + 1664) div 3329) mod 1024 < 65536"
    by (rule less_trans [of _ 1024]) simp_all
  ultimately have "uint (compress10 a) = ((1024 * v + 1664) div 3329) mod 1024"
    unfolding compress10_def Let_def s
    by (simp only: unsigned_ucast_eq) (simp add: take_bit_int_eq_self)
  then show ?thesis using round_half [of "1024 * v"] by (simp add: spec_compress_def v_def)
qed

lemma compress4_correct: "uint (compress4 a) = spec_compress 4 (sint a mod 3329)"
proof -
  define v where "v = sint a mod 3329"
  have v: "0 \<le> v" "v < 3329" by (simp_all add: v_def)
  have w: "(ucast (freeze_coefficient a) :: u32) = word_of_int v"
  proof -
    have "(ucast x :: u32) = word_of_int (uint x)" for x :: u16 by simp
    then show ?thesis by (simp only: uint_freeze v_def)
  qed
  let ?s = "(16 * v + 1665) * 80635"
  have s: "(push_bit 4 (ucast (freeze_coefficient a) :: u32) + 1665) * 80635 = word_of_int ?s"
    by (simp add: w push_bit_eq_mult mult.commute)
  text \<open>The 32-bit product may wrap; the four bits read from it do not change.\<close>
  have "drop_bit 28 (word_of_int ?s :: u32) AND 0x0f = take_bit 4 (drop_bit 28 (word_of_int ?s))"
    by (simp add: take_bit_eq_mask mask_eq_exp_minus_1)
  also have "\<dots> = word_of_int (take_bit 4 (drop_bit 28 ?s))" by (rule top_bits_of_int)
  finally have bits: "drop_bit 28 (word_of_int ?s :: u32) AND 0x0f = word_of_int (take_bit 4 (drop_bit 28 ?s))" .
  have "?s div 268435456 = (16 * v + 1664) div 3329"
    using divide_80635 [of "16 * v + 1664"] v by simp
  then have "take_bit 4 (drop_bit 28 ?s) = ((16 * v + 1664) div 3329) mod 16"
    by (simp add: take_bit_eq_mod drop_bit_eq_div)
  moreover have "uint (ucast (word_of_int (take_bit 4 z) :: u32) :: u8) = take_bit 4 z" for z :: int
    by (simp add: unsigned_ucast_eq unsigned_of_int)
  then have "uint (compress4 a) = take_bit 4 (drop_bit 28 ?s)"
    unfolding compress4_def Let_def s bits by blast
  ultimately have "uint (compress4 a) = ((16 * v + 1664) div 3329) mod 16" by (simp only:)
  then show ?thesis using round_half [of "16 * v"] by (simp add: spec_compress_def v_def)
qed

section \<open>Properties\<close>

text \<open>The branch-free signed multiplication, four unsigned 8-bit products and two masked
  corrections, is the exact product of the two signed 16-bit integers; nothing is lost to
  wrap-around.\<close>

theorem multiply_s16_is_product:
  "sint (multiply_s16_constant_schedule a b) = sint a * sint b"
  by (rule multiply_s16_exact)

text \<open>C35: Montgomery reduction of a value below \<open>q 2\<^sup>1\<^sup>5\<close> in size returns a representative of
  \<open>value * 2\<^sup>-\<^sup>1\<^sup>6\<close> modulo \<open>q\<close> strictly between \<open>-q\<close> and \<open>q\<close>
  (\<open>169\<close> is the inverse of \<open>2\<^sup>1\<^sup>6\<close>); Barrett reduction returns, for every 16-bit
  input, the centred representative of the same class; the frozen coefficient is the canonical
  one.\<close>

theorem reductions_correct:
  assumes "\<bar>sint v\<bar> < 2 ^ 15 * 3329"
  shows "sint (montgomery_reduce v) mod 3329 = (sint v * 169) mod 3329 \<and>
         \<bar>sint (montgomery_reduce v)\<bar> < 3329 \<and>
         sint (barrett_reduce a) mod 3329 = sint a mod 3329 \<and> \<bar>sint (barrett_reduce a)\<bar> \<le> 1664 \<and>
         sint (freeze_coefficient a) = sint a mod 3329"
proof -
  have "- 109084672 \<le> sint v" and "sint v < 109084672" using assms by simp_all
  then show ?thesis
    using barrett_reduce_correct [of a] by (simp add: montgomery_reduce_correct freeze_correct)
qed

theorem reductions_correct_witness:
  "sint (montgomery_reduce 65537) mod 3329 = (65537 * 169) mod 3329 \<and>
   \<bar>sint (montgomery_reduce 65537)\<bar> < 3329 \<and> sint (freeze_coefficient (- 1)) = 3328"
  using reductions_correct [of 65537 "- 1"] by simp

text \<open>The two compressions, a multiplication by a fixed constant and a shift, are the
  rounding of FIPS 203 for \<open>d = 10\<close> and \<open>d = 4\<close> on every 16-bit coefficient, also where
  the 32-bit product of \<open>compress4\<close> wraps.\<close>

theorem compress_is_rounding:
  "uint (compress10 a) = spec_compress 10 (sint a mod 3329) \<and>
   uint (compress4 a) = spec_compress 4 (sint a mod 3329)"
  by (simp add: compress10_correct compress4_correct)

end
