(* ===== verification/Keccak.thy ===== *)
theory Keccak
  imports Common Interfaces
begin

text \<open>
  \<open>core/keccak.c\<close>: Keccak-f[1600] on 25 lanes with the in-place rotation-and-permutation
  chain, and the byte-wise sponge behind SHA3-256, SHA3-512, SHAKE128 and SHAKE256. The theory
  shows that a round is theta, rho, pi, chi and iota of FIPS 202, that the three tables are the
  standard's (generated by its own recurrences), that any split of the input into absorb calls
  gives the sponge of the padded message, and that any split of the output into squeeze calls
  reads the same stream.
\<close>

unbundle bit_operations_syntax

section \<open>The permutation\<close>

definition rotate_left64 :: "u64 \<Rightarrow> nat \<Rightarrow> u64" where
  "rotate_left64 value count = push_bit count value OR drop_bit (64 - count) value"

definition keccak_round_constants :: "u64 list" where
  "keccak_round_constants = [
    0x0000000000000001, 0x0000000000008082,
    0x800000000000808a, 0x8000000080008000,
    0x000000000000808b, 0x0000000080000001,
    0x8000000080008081, 0x8000000000008009,
    0x000000000000008a, 0x0000000000000088,
    0x0000000080008009, 0x000000008000000a,
    0x000000008000808b, 0x800000000000008b,
    0x8000000000008089, 0x8000000000008003,
    0x8000000000008002, 0x8000000000000080,
    0x000000000000800a, 0x800000008000000a,
    0x8000000080008081, 0x8000000000008080,
    0x0000000080000001, 0x8000000080008008]"

definition keccak_rotation :: "nat list" where
  "keccak_rotation = [
    1, 3, 6, 10, 15, 21, 28, 36,
    45, 55, 2, 14, 27, 41, 56, 8,
    25, 43, 62, 18, 39, 61, 20, 44]"

definition keccak_pi_lane :: "nat list" where
  "keccak_pi_lane = [
    10, 7, 11, 17, 18, 3, 5, 16,
    8, 21, 24, 4, 15, 23, 19, 13,
    12, 2, 20, 14, 22, 9, 6, 1]"

text \<open>The four parts of the round loop, in the order of the code.\<close>

definition keccak_theta :: "u64 list \<Rightarrow> u64 list" where
  "keccak_theta state =
     (let bc = map (\<lambda>i. state ! i XOR state ! (i + 5) XOR state ! (i + 10)
                          XOR state ! (i + 15) XOR state ! (i + 20)) [0..<5]
      in fold (\<lambda>i st.
            let theta = bc ! ((i + 4) mod 5) XOR rotate_left64 (bc ! ((i + 1) mod 5)) 1
            in fold (\<lambda>j st'. st'[j + i := st' ! (j + i) XOR theta]) [0, 5, 10, 15, 20] st)
          [0..<5] state)"

definition keccak_rho_pi :: "u64 list \<Rightarrow> u64 list" where
  "keccak_rho_pi state =
     fst (fold (\<lambda>i (st, current).
            let lane = keccak_pi_lane ! i;
                next_lane = st ! lane
            in (st[lane := rotate_left64 current (keccak_rotation ! i)], next_lane))
          [0..<24] (state, state ! 1))"

definition keccak_chi :: "u64 list \<Rightarrow> u64 list" where
  "keccak_chi state =
     fold (\<lambda>j st.
        let bc = map (\<lambda>i. st ! (j + i)) [0..<5]
        in fold (\<lambda>i st'. st'[j + i := bc ! i XOR (NOT (bc ! ((i + 1) mod 5)) AND bc ! ((i + 2) mod 5))])
             [0..<5] st)
      [0, 5, 10, 15, 20] state"

definition keccak_f1600 :: "u64 list \<Rightarrow> u64 list" where
  "keccak_f1600 state =
     fold (\<lambda>round st.
        let st3 = keccak_chi (keccak_rho_pi (keccak_theta st))
        in st3[0 := st3 ! 0 XOR keccak_round_constants ! round])
      [0..<24] state"

section \<open>The sponge\<close>

record c0_keccak_ctx =
  kstate :: "u64 list"
  rate :: u16
  position :: u16
  domain :: u8
  squeezing :: u8

definition keccak_init :: "u16 \<Rightarrow> u8 \<Rightarrow> c0_keccak_ctx" where
  "keccak_init r d =
     \<lparr>kstate = replicate 25 0, rate = r, position = 0, domain = d, squeezing = 0\<rparr>"

definition c0_sha3_256_init :: c0_keccak_ctx where
  "c0_sha3_256_init = keccak_init 136 0x06"

definition c0_sha3_512_init :: c0_keccak_ctx where
  "c0_sha3_512_init = keccak_init 72 0x06"

definition c0_shake128_init :: c0_keccak_ctx where
  "c0_shake128_init = keccak_init 168 0x1f"

definition c0_shake256_init :: c0_keccak_ctx where
  "c0_shake256_init = keccak_init 136 0x1f"

text \<open>Advancing \<open>position\<close>, with the permutation when the rate is full, as both loops do.\<close>

definition keccak_advance :: "c0_keccak_ctx \<Rightarrow> c0_keccak_ctx" where
  "keccak_advance ctx =
     (let ctx1 = ctx\<lparr>position := position ctx + 1\<rparr>
      in if position ctx1 = rate ctx1
         then ctx1\<lparr>kstate := keccak_f1600 (kstate ctx1), position := 0\<rparr>
         else ctx1)"

definition keccak_absorb_byte :: "u8 \<Rightarrow> c0_keccak_ctx \<Rightarrow> c0_keccak_ctx" where
  "keccak_absorb_byte b ctx =
     (let lane = unat (drop_bit 3 (position ctx));
          shift = 8 * unat (position ctx AND 7)
      in keccak_advance
           (ctx\<lparr>kstate := (kstate ctx)[lane := kstate ctx ! lane XOR push_bit shift (ucast b)]\<rparr>))"

definition c0_keccak_absorb :: "c0_keccak_ctx \<Rightarrow> bytes \<Rightarrow> c0_keccak_ctx" where
  "c0_keccak_absorb ctx input =
     (if squeezing ctx \<noteq> 0 then ctx else fold keccak_absorb_byte input ctx)"

definition c0_keccak_finalize :: "c0_keccak_ctx \<Rightarrow> c0_keccak_ctx" where
  "c0_keccak_finalize ctx =
     (if squeezing ctx \<noteq> 0 then ctx
      else
        let lane = unat (drop_bit 3 (position ctx));
            shift = 8 * unat (position ctx AND 7);
            st1 = (kstate ctx)[lane := kstate ctx ! lane XOR push_bit shift (ucast (domain ctx))];
            lane' = unat (drop_bit 3 (rate ctx - 1));
            shift' = 8 * unat ((rate ctx - 1) AND 7);
            st2 = st1[lane' := st1 ! lane' XOR push_bit shift' 0x80]
        in ctx\<lparr>kstate := keccak_f1600 st2, position := 0, squeezing := 1\<rparr>)"

fun keccak_squeeze_loop :: "c0_keccak_ctx \<Rightarrow> nat \<Rightarrow> bytes \<times> c0_keccak_ctx" where
  "keccak_squeeze_loop ctx 0 = ([], ctx)"
| "keccak_squeeze_loop ctx (Suc n) =
     (let lane = unat (drop_bit 3 (position ctx));
          shift = 8 * unat (position ctx AND 7);
          b = ucast (drop_bit shift (kstate ctx ! lane));
          (bs, ctx') = keccak_squeeze_loop (keccak_advance ctx) n
      in (b # bs, ctx'))"

definition c0_keccak_squeeze :: "c0_keccak_ctx \<Rightarrow> nat \<Rightarrow> bytes \<times> c0_keccak_ctx" where
  "c0_keccak_squeeze ctx len =
     (let ctx1 = (if squeezing ctx = 0 then c0_keccak_finalize ctx else ctx)
      in keccak_squeeze_loop ctx1 len)"

definition c0_sha3_256 :: "bytes \<Rightarrow> bytes" where
  "c0_sha3_256 input = fst (c0_keccak_squeeze (c0_keccak_absorb c0_sha3_256_init input) 32)"

definition c0_sha3_512 :: "bytes \<Rightarrow> bytes" where
  "c0_sha3_512 input = fst (c0_keccak_squeeze (c0_keccak_absorb c0_sha3_512_init input) 64)"

section \<open>The description of FIPS 202\<close>

text \<open>The step mappings on the lane array \<open>A x y\<close>.\<close>

type_synonym lanes = "nat \<Rightarrow> nat \<Rightarrow> u64"

definition lanes_of :: "u64 list \<Rightarrow> lanes" where
  "lanes_of st x y = st ! (5 * y + x)"

definition list_of_lanes :: "lanes \<Rightarrow> u64 list" where
  "list_of_lanes A = map (\<lambda>i. A (i mod 5) (i div 5)) [0..<25]"

definition spec_theta :: "lanes \<Rightarrow> lanes" where
  "spec_theta A x y =
     (let C = (\<lambda>x. A x 0 XOR A x 1 XOR A x 2 XOR A x 3 XOR A x 4)
      in A x y XOR C ((x + 4) mod 5) XOR word_rotl 1 (C ((x + 1) mod 5)))"

text \<open>The offsets of rho: the walk of Algorithm 2 from \<open>(1, 0)\<close>, lane \<open>t\<close> rotated by
  \<open>(t + 1) (t + 2) / 2\<close>.\<close>

fun spec_rho_walk :: "nat \<Rightarrow> nat \<times> nat" where
  "spec_rho_walk 0 = (1, 0)"
| "spec_rho_walk (Suc t) = (let (x, y) = spec_rho_walk t in (y, (2 * x + 3 * y) mod 5))"

definition spec_rho_offset :: "nat \<Rightarrow> nat \<Rightarrow> nat" where
  "spec_rho_offset x y =
     (case find (\<lambda>t. spec_rho_walk t = (x, y)) [0..<24] of
        None \<Rightarrow> 0
      | Some t \<Rightarrow> ((t + 1) * (t + 2) div 2) mod 64)"

definition spec_rho :: "lanes \<Rightarrow> lanes" where
  "spec_rho A x y = word_rotl (spec_rho_offset x y) (A x y)"

definition spec_pi :: "lanes \<Rightarrow> lanes" where
  "spec_pi A x y = A ((x + 3 * y) mod 5) x"

definition spec_chi :: "lanes \<Rightarrow> lanes" where
  "spec_chi A x y = A x y XOR (NOT (A ((x + 1) mod 5) y) AND A ((x + 2) mod 5) y)"

text \<open>The round constants: the LFSR of Algorithm 5 and the bit positions \<open>2^j - 1\<close>.\<close>

definition spec_lfsr :: "u8 \<Rightarrow> u8" where
  "spec_lfsr r = (if bit r 7 then push_bit 1 r XOR 0x71 else push_bit 1 r)"

definition spec_rc :: "nat \<Rightarrow> bool" where
  "spec_rc t = bit ((spec_lfsr ^^ t) 1) 0"

definition spec_RC :: "nat \<Rightarrow> u64" where
  "spec_RC i = fold (\<lambda>j w. w OR of_bool (spec_rc (j + 7 * i)) * 2 ^ (2 ^ j - 1)) [0..<7] 0"

definition spec_iota :: "nat \<Rightarrow> lanes \<Rightarrow> lanes" where
  "spec_iota i A x y = (if x = 0 \<and> y = 0 then A x y XOR spec_RC i else A x y)"

definition spec_rnd :: "nat \<Rightarrow> lanes \<Rightarrow> lanes" where
  "spec_rnd i A = spec_iota i (spec_chi (spec_pi (spec_rho (spec_theta A))))"

definition spec_keccak_f :: "u64 list \<Rightarrow> u64 list" where
  "spec_keccak_f st = fold (\<lambda>i s. list_of_lanes (spec_rnd i (lanes_of s))) [0..<24] st"

text \<open>The sponge: the state with a (possibly short) block of bytes added, the absorption of the
  full rate-sized blocks of a message, the padding with the domain byte, and the output stream.\<close>

definition xor_block :: "u64 list \<Rightarrow> bytes \<Rightarrow> u64 list" where
  "xor_block S bs = map (\<lambda>i. S ! i XOR le_word (slice bs (8 * i) 8)) [0..<25]"

definition spec_sponge_absorb :: "nat \<Rightarrow> bytes \<Rightarrow> u64 list" where
  "spec_sponge_absorb r m =
     fold (\<lambda>i S. spec_keccak_f (xor_block S (slice m (r * i) r))) [0..<length m div r] (replicate 25 0)"

definition spec_sponge_pad :: "nat \<Rightarrow> u8 \<Rightarrow> bytes \<Rightarrow> bytes" where
  "spec_sponge_pad r d m =
     (let q = r - length m mod r
      in m @ (if q = 1 then [d OR 0x80] else d # replicate (q - 2) 0 @ [0x80]))"

definition spec_stream :: "nat \<Rightarrow> u64 list \<Rightarrow> nat \<Rightarrow> u8" where
  "spec_stream r S i =
     ucast (drop_bit (8 * (i mod r mod 8)) ((spec_keccak_f ^^ (i div r)) S ! (i mod r div 8)))"

definition spec_keccak :: "nat \<Rightarrow> u8 \<Rightarrow> bytes \<Rightarrow> nat \<Rightarrow> bytes" where
  "spec_keccak r d m n = map (spec_stream r (spec_sponge_absorb r (spec_sponge_pad r d m))) [0..<n]"

section \<open>The permutation is the standard's\<close>

lemma upt_5: "[0..<5] = [0, 1, 2, 3, 4 :: nat]"
  by (simp add: upt_rec)

lemma upt_7: "[0..<7] = [0, 1, 2, 3, 4, 5, 6 :: nat]"
  by (simp add: upt_rec)

lemma upt_24: "[0..<24] = [0, 1, 2, 3, 4, 5, 6, 7, 8, 9, 10, 11, 12, 13, 14, 15, 16, 17, 18, 19, 20, 21, 22, 23 :: nat]"
  by (simp add: upt_rec)

lemma upt_25: "[0..<25] = [0, 1, 2, 3, 4, 5, 6, 7, 8, 9, 10, 11, 12, 13, 14, 15, 16, 17, 18, 19, 20, 21, 22, 23, 24 :: nat]"
  by (simp add: upt_rec)

text \<open>Seven bits per round: the value of one constant and the LFSR state for the next.\<close>
definition rc_round :: "u8 \<Rightarrow> u64 \<times> u8" where
  "rc_round r = fold (\<lambda>j (w, q). (w OR of_bool (bit q 0) * 2 ^ (2 ^ j - 1), spec_lfsr q)) [0..<7] (0, r)"

fun rc_rounds :: "nat list \<Rightarrow> u8 \<Rightarrow> u64 list" where
  "rc_rounds [] r = []"
| "rc_rounds (i # is) r = (let (w, q) = rc_round r in w # rc_rounds is q)"

lemma rc_fold: "fold (\<lambda>j (w, q). (w OR of_bool (bit q 0) * 2 ^ (2 ^ j - 1), spec_lfsr q)) [0..<n] (w0 :: u64, (spec_lfsr ^^ t) 1)
   = (fold (\<lambda>j w. w OR of_bool (spec_rc (j + t)) * 2 ^ (2 ^ j - 1)) [0..<n] w0, (spec_lfsr ^^ (n + t)) 1)"
  by (induction n) (simp_all add: spec_rc_def)

lemma rc_rounds_spec: "rc_rounds [i..<i + n] ((spec_lfsr ^^ (7 * i)) 1) = map spec_RC [i..<i + n]"
proof (induction n arbitrary: i)
  case 0
  then show ?case by simp
next
  case (Suc n)
  have "rc_round ((spec_lfsr ^^ (7 * i)) 1) = (spec_RC i, (spec_lfsr ^^ (7 * Suc i)) 1)"
    unfolding rc_round_def rc_fold by (simp only: spec_RC_def mult_Suc_right)
  with Suc [of "Suc i"] show ?case by (simp add: upt_conv_Cons del: funpow.simps upt_Suc)
qed


lemma rc_round_values:
  shows "rc_round 1 = (0x1, 128)" and "rc_round 128 = (0x8082, 216)"
    and "rc_round 216 = (0x800000000000808a, 26)" and "rc_round 26 = (0x8000000080008000, 223)"
    and "rc_round 223 = (0x808b, 9)" and "rc_round 9 = (0x80000001, 53)"
    and "rc_round 53 = (0x8000000080008081, 79)" and "rc_round 79 = (0x8000000000008009, 202)"
    and "rc_round 202 = (0x8a, 112)" and "rc_round 112 = (0x88, 65)"
    and "rc_round 65 = (0x80008009, 236)" and "rc_round 236 = (0x8000000a, 213)"
    and "rc_round 213 = (0x8000808b, 205)" and "rc_round 205 = (0x800000000000008b, 99)"
    and "rc_round 99 = (0x8000000000008089, 171)" and "rc_round 171 = (0x8000000000008003, 170)"
    and "rc_round 170 = (0x8000000000008002, 42)" and "rc_round 42 = (0x8000000000000080, 242)"
    and "rc_round 242 = (0x800a, 232)" and "rc_round 232 = (0x800000008000000a, 55)"
    and "rc_round 55 = (0x8000000080008081, 62)" and "rc_round 62 = (0x8000000000008080, 11)"
    and "rc_round 11 = (0x80000001, 68)" and "rc_round 68 = (0x8000000080008008, 142)"
  by (simp_all add: rc_round_def upt_7 spec_lfsr_def)

lemma round_constants_spec: "keccak_round_constants = map spec_RC [0..<24]"
proof -
  have "rc_rounds [0..<24] 1 = keccak_round_constants"
    unfolding upt_24 keccak_round_constants_def by (simp add: rc_round_values)
  with rc_rounds_spec [of 0 24] show ?thesis by simp
qed

lemma list25:
  assumes "length st = 25"
  obtains a b c d e f g h i j k l m n p q r s t u v w x y z
  where "st = [a, b, c, d, e, f, g, h, i, j, k, l, m, n, p, q, r, s, t, u, v, w, x, y, z]"
  using assms by (auto simp: numeral_eq_Suc length_Suc_conv)

lemma rotate_left64_rotl: "0 < n \<Longrightarrow> n < 64 \<Longrightarrow> rotate_left64 v n = word_rotl n v"
  using rotl_shifts [of n v] by (simp add: rotate_left64_def)

lemma rotl_zero: "word_rotl 0 v = v"
  by (rule bit_word_eqI) (simp add: bit_word_rotl_iff)

lemma rho_offsets: "map (\<lambda>i. spec_rho_offset (i mod 5) (i div 5)) [0..<25] =
  [0, 1, 62, 28, 27, 36, 44, 6, 55, 20, 3, 10, 43, 25, 39, 41, 45, 15, 21, 8, 18, 2, 61, 56, 14]"
  by code_simp

lemmas rho_offset_values = rho_offsets [unfolded upt_25, simplified]

lemma theta_spec: "length st = 25 \<Longrightarrow> keccak_theta st = list_of_lanes (spec_theta (lanes_of st))"
  by (erule list25) (simp add: keccak_theta_def list_of_lanes_def spec_theta_def lanes_of_def
      upt_5 upt_25 rotate_left64_rotl Let_def)

lemma chi_spec: "length st = 25 \<Longrightarrow> keccak_chi st = list_of_lanes (spec_chi (lanes_of st))"
  by (erule list25) (simp add: keccak_chi_def list_of_lanes_def spec_chi_def lanes_of_def
      upt_5 upt_25 Let_def)

lemma rho_pi_spec:
  "length st = 25 \<Longrightarrow> keccak_rho_pi st = list_of_lanes (spec_pi (spec_rho (lanes_of st)))"
  by (erule list25) (simp add: keccak_rho_pi_def list_of_lanes_def spec_pi_def spec_rho_def lanes_of_def
      keccak_pi_lane_def keccak_rotation_def rho_offset_values upt_24 upt_25 rotate_left64_rotl Let_def rotl_zero)

lemma length_list_of_lanes [simp]: "length (list_of_lanes A) = 25"
  by (simp add: list_of_lanes_def)

lemma lanes_of_list: "x < 5 \<Longrightarrow> y < 5 \<Longrightarrow> lanes_of (list_of_lanes A) x y = A x y"
  by (simp add: lanes_of_def list_of_lanes_def)

text \<open>The step mappings only look at the 25 lanes.\<close>

lemma lanes_cong:
  assumes "\<And>x y. x < 5 \<Longrightarrow> y < 5 \<Longrightarrow> A x y = B x y"
  shows "list_of_lanes A = list_of_lanes B"
  unfolding list_of_lanes_def using assms by (auto intro!: map_cong)

lemma rho_pi_lanes:
  "list_of_lanes (spec_pi (spec_rho (lanes_of (list_of_lanes A)))) = list_of_lanes (spec_pi (spec_rho A))"
  by (rule lanes_cong) (simp add: spec_pi_def spec_rho_def lanes_of_list)

lemma chi_lanes:
  "list_of_lanes (spec_chi (lanes_of (list_of_lanes A))) = list_of_lanes (spec_chi A)"
  by (rule lanes_cong) (simp add: spec_chi_def lanes_of_list)

lemma iota_lanes:
  "(list_of_lanes A)[0 := list_of_lanes A ! 0 XOR spec_RC i] = list_of_lanes (spec_iota i A)"
  by (simp add: list_of_lanes_def spec_iota_def upt_25)

lemma keccak_round_spec:
  assumes "length st = 25" and "i < 24"
  shows "(let st3 = keccak_chi (keccak_rho_pi (keccak_theta st))
          in st3[0 := st3 ! 0 XOR keccak_round_constants ! i]) = list_of_lanes (spec_rnd i (lanes_of st))"
  using assms
  by (simp add: theta_spec rho_pi_spec chi_spec rho_pi_lanes chi_lanes iota_lanes round_constants_spec
      spec_rnd_def Let_def)

lemma keccak_f1600_spec:
  assumes "length st = 25"
  shows "keccak_f1600 st = spec_keccak_f st"
  unfolding keccak_f1600_def spec_keccak_f_def
  using fold_upt_invariant [where m = 0 and n = 24 and s = st
      and P = "\<lambda>n s. length s = 25 \<and> s = fold (\<lambda>i s. list_of_lanes (spec_rnd i (lanes_of s))) [0..<n] st"
      and f = "\<lambda>round st. let st3 = keccak_chi (keccak_rho_pi (keccak_theta st))
        in st3[0 := st3 ! 0 XOR keccak_round_constants ! round]"]
    assms by (simp add: keccak_round_spec)

lemma length_spec_keccak_f [simp]: "length (spec_keccak_f st) = 25"
  by (simp add: spec_keccak_f_def upt_24)

section \<open>Absorbing\<close>

text \<open>Adding one byte to the state, as both the absorb loop and the finalisation do.\<close>

definition xor_at :: "u64 list \<Rightarrow> nat \<Rightarrow> u8 \<Rightarrow> u64 list" where
  "xor_at S k b = S[k div 8 := S ! (k div 8) XOR push_bit (8 * (k mod 8)) (ucast b)]"

lemma lane_index: "unat (drop_bit 3 (p :: u16)) = unat p div 8" "unat (p AND 7) = unat p mod 8"
proof -
  show "unat (drop_bit 3 p) = unat p div 8" by (simp add: drop_bit_eq_div unat_div_distrib)
  have "p AND 7 = take_bit 3 p" by (simp add: take_bit_eq_mask mask_eq_exp_minus_1)
  then show "unat (p AND 7) = unat p mod 8" by (simp add: take_bit_eq_mod unat_mod_distrib)
qed

lemma length_xor_block [simp]: "length (xor_block S bs) = 25"
  by (simp add: xor_block_def)

lemma length_xor_at [simp]: "length (xor_at S k b) = length S"
  by (simp add: xor_at_def)

lemma xor_block_Nil: "length S = 25 \<Longrightarrow> xor_block S [] = S"
  by (rule nth_equalityI) (simp_all add: xor_block_def slice_def)

lemma le_word_slice_snoc:
  "le_word (slice (bs @ [b]) (8 * i) 8) =
     (if i = length bs div 8
      then le_word (slice bs (8 * i) 8) XOR push_bit (8 * (length bs mod 8)) (ucast b)
      else le_word (slice bs (8 * i) 8) :: u64)"
proof -
  have lt: "8 * (n div 8) \<le> n" "n - 8 * (n div 8) = n mod 8" for n :: nat
    by (simp_all add: minus_mult_div_eq_mod)
  consider "i = length bs div 8" | "i < length bs div 8" | "length bs div 8 < i" by linarith
  then show ?thesis
  proof cases
    case 1
    have "slice (bs @ [b]) (8 * i) 8 = slice bs (8 * i) 8 @ [b]"
      and len: "length (slice bs (8 * i) 8) = length bs mod 8"
      using lt [of "length bs"] 1 by (auto simp: slice_def)
    moreover have "le_word (slice bs (8 * i) 8) OR push_bit (8 * (length bs mod 8)) (ucast b)
        = (le_word (slice bs (8 * i) 8) XOR push_bit (8 * (length bs mod 8)) (ucast b) :: u64)"
      using len by (intro bit_word_eqI) (auto simp: bit_simps dest: bit_le_word_length)
    ultimately show ?thesis using 1 by (simp add: le_word_append)
  next
    case 2
    then have "8 * i + 8 \<le> length bs" by linarith
    with 2 show ?thesis by (simp add: slice_append_left)
  next
    case 3
    then have "length bs + 1 \<le> 8 * i" by linarith
    with 3 show ?thesis by (simp add: slice_def)
  qed
qed

lemma xor_block_snoc:
  assumes "length bs < 200"
  shows "xor_block S (bs @ [b]) = xor_at (xor_block S bs) (length bs) b"
  using assms by (intro nth_equalityI)
    (auto simp: xor_block_def xor_at_def le_word_slice_snoc nth_list_update xor.assoc less_mult_imp_div_less)

lemma xor_at_0: "xor_at S k 0 = S"
  by (simp add: xor_at_def)

lemma xor_block_zeros:
  "length bs + n \<le> 200 \<Longrightarrow> xor_block S (bs @ replicate n 0) = xor_block S bs"
proof (induction n)
  case (Suc n)
  have "xor_block S (bs @ replicate (Suc n) 0) = xor_block S ((bs @ replicate n 0) @ [0])"
    by (simp flip: replicate_append_same)
  also have "\<dots> = xor_block S bs" using Suc by (simp add: xor_block_snoc xor_at_0 del: append_assoc)
  finally show ?case .
qed simp

lemma xor_at_twice: "k div 8 < length S \<Longrightarrow> xor_at (xor_at S k a) k b = xor_at S k (a XOR b)"
proof -
  have "push_bit n (ucast a :: u64) XOR push_bit n (ucast b) = push_bit n (ucast (a XOR b))" for n
    by (rule bit_word_eqI) (auto simp: bit_simps)
  then show "k div 8 < length S \<Longrightarrow> ?thesis" by (simp add: xor_at_def xor.assoc)
qed

text \<open>What a context in the absorbing phase stands for.\<close>

definition sponge_tail :: "nat \<Rightarrow> bytes \<Rightarrow> bytes" where
  "sponge_tail r m = drop (r * (length m div r)) m"

definition sponge_represents :: "nat \<Rightarrow> u8 \<Rightarrow> c0_keccak_ctx \<Rightarrow> bytes \<Rightarrow> bool" where
  "sponge_represents r d ctx m \<longleftrightarrow>
     squeezing ctx = 0 \<and> rate ctx = of_nat r \<and> domain ctx = d \<and>
     position ctx = of_nat (length m mod r) \<and>
     kstate ctx = xor_block (spec_sponge_absorb r m) (sponge_tail r m)"

lemma length_sponge_tail [simp]: "length (sponge_tail r m) = length m mod r"
  by (simp add: sponge_tail_def minus_mult_div_eq_mod)

lemma length_sponge_absorb [simp]: "length (spec_sponge_absorb r m) = 25"
  unfolding spec_sponge_absorb_def by (rule fold_invariant_set) simp_all

lemma absorb_fold_append:
  "fold (\<lambda>i S. spec_keccak_f (xor_block S (slice (m @ xs) (r * i) r))) [0..<length m div r] S0
   = fold (\<lambda>i S. spec_keccak_f (xor_block S (slice m (r * i) r))) [0..<length m div r] S0"
proof (rule fold_cong [OF refl refl])
  fix i assume "i \<in> set [0..<length m div r]"
  then have "Suc i \<le> length m div r" by simp
  then have "r * Suc i \<le> r * (length m div r)" by (rule mult_le_mono2)
  also have "\<dots> \<le> length m" by simp
  finally show "(\<lambda>S. spec_keccak_f (xor_block S (slice (m @ xs) (r * i) r))) = (\<lambda>S. spec_keccak_f (xor_block S (slice m (r * i) r)))"
    by (simp add: slice_append_left)
qed

text \<open>Appending less than a block leaves the absorbed state; completing a block permutes.\<close>

lemma sponge_append_short:
  assumes "length m mod r + length xs < r"
  shows "spec_sponge_absorb r (m @ xs) = spec_sponge_absorb r m"
    and "sponge_tail r (m @ xs) = sponge_tail r m @ xs"
proof -
  have "length (m @ xs) = r * (length m div r) + (length m mod r + length xs)" by simp
  also have "\<dots> div r = length m div r" using assms by (subst div_mult_self4) simp_all
  finally have "length (m @ xs) div r = length m div r" .
  then show "spec_sponge_absorb r (m @ xs) = spec_sponge_absorb r m"
    and "sponge_tail r (m @ xs) = sponge_tail r m @ xs"
    by (simp_all add: spec_sponge_absorb_def absorb_fold_append sponge_tail_def)
qed

lemma sponge_append_full:
  assumes "length m mod r + length xs = r" and "0 < r"
  shows "spec_sponge_absorb r (m @ xs)
      = spec_keccak_f (xor_block (spec_sponge_absorb r m) (sponge_tail r m @ xs))"
    and "sponge_tail r (m @ xs) = []"
proof -
  have l: "length m + length xs = r * Suc (length m div r)"
    using assms(1) by (metis add.assoc add.commute mult_Suc_right mult_div_mod_eq)
  then have d: "length (m @ xs) div r = Suc (length m div r)" using assms(2) by simp
  have "slice (m @ xs) (r * (length m div r)) r = sponge_tail r m @ xs"
    using assms(1) by (simp add: slice_def sponge_tail_def minus_mult_div_eq_mod)
  with d show "spec_sponge_absorb r (m @ xs)
      = spec_keccak_f (xor_block (spec_sponge_absorb r m) (sponge_tail r m @ xs))"
    by (simp add: spec_sponge_absorb_def absorb_fold_append)
  show "sponge_tail r (m @ xs) = []" unfolding sponge_tail_def d using l by simp
qed

text \<open>One absorbed byte; then any input.\<close>

abbreviation rate_ok :: "nat \<Rightarrow> bool" where
  "rate_ok r \<equiv> 0 < r \<and> r \<le> 200"

lemma of_nat_u16_eq: "m < 65536 \<Longrightarrow> n < 65536 \<Longrightarrow> of_nat m = (of_nat n :: u16) \<longleftrightarrow> m = n"
  by (metis unat_of_nat_u16)

lemma rate_position:
  assumes "rate_ok r"
  shows "unat (of_nat (k mod r) :: u16) = k mod r"
    and "of_nat (k mod r) + 1 = (of_nat r :: u16) \<longleftrightarrow> Suc (k mod r) = r"
proof -
  have lt: "k mod r < r" using assms by simp
  with assms show "unat (of_nat (k mod r) :: u16) = k mod r" by (intro unat_of_nat_u16) linarith
  have "of_nat (k mod r) + 1 = (of_nat r :: u16) \<longleftrightarrow> of_nat (Suc (k mod r)) = (of_nat r :: u16)"
    by (simp add: add.commute)
  also have "\<dots> \<longleftrightarrow> Suc (k mod r) = r"
    using lt assms by (intro of_nat_u16_eq) linarith+
  finally show "of_nat (k mod r) + 1 = (of_nat r :: u16) \<longleftrightarrow> Suc (k mod r) = r" .
qed

lemma absorb_byte_represents:
  assumes "rate_ok r" and "sponge_represents r d ctx m"
  shows "sponge_represents r d (keccak_absorb_byte b ctx) (m @ [b])"
proof -
  note rep = assms(2) [unfolded sponge_represents_def]
  let ?k = "length m mod r"
  have lt: "?k < r" using assms(1) by simp
  have added: "keccak_absorb_byte b ctx = keccak_advance
      (ctx\<lparr>kstate := xor_block (spec_sponge_absorb r m) (sponge_tail r m @ [b])\<rparr>)"
    using rep assms(1) lt
    by (simp add: keccak_absorb_byte_def lane_index rate_position xor_block_snoc xor_at_def Let_def)
  show ?thesis
  proof (cases "Suc ?k = r")
    case True
    then have "Suc (length m) mod r = 0" by (simp add: mod_Suc)
    with True rep assms(1) sponge_append_full [of m r "[b]"] show ?thesis
      by (simp add: sponge_represents_def added keccak_advance_def Let_def rate_position
          keccak_f1600_spec xor_block_Nil)
  next
    case False
    then have "Suc (length m) mod r = Suc ?k" and "Suc ?k < r" using lt by (simp_all add: mod_Suc)
    with False rep assms(1) sponge_append_short [of m r "[b]"] show ?thesis
      by (simp add: sponge_represents_def added keccak_advance_def Let_def rate_position)
  qed
qed

lemma absorb_represents:
  assumes "rate_ok r" and "sponge_represents r d ctx m"
  shows "sponge_represents r d (c0_keccak_absorb ctx xs) (m @ xs)"
proof -
  have "squeezing ctx = 0" using assms(2) by (simp add: sponge_represents_def)
  moreover have "sponge_represents r d (fold keccak_absorb_byte xs ctx) (m @ xs)"
    using assms(2)
  proof (induction xs arbitrary: ctx m)
    case (Cons b xs)
    from Cons.IH [OF absorb_byte_represents [OF assms(1) Cons.prems]] show ?case by simp
  qed simp
  ultimately show ?thesis by (simp add: c0_keccak_absorb_def)
qed

lemma init_represents: "sponge_represents r d (keccak_init (of_nat r) d) []"
  by (simp add: sponge_represents_def keccak_init_def spec_sponge_absorb_def sponge_tail_def xor_block_Nil)

section \<open>Finalising and squeezing\<close>

text \<open>The two bytes the finalisation adds are the padding of the standard.\<close>

lemma pad_block:
  assumes "rate_ok r" and "\<not> bit d 7"
  shows "xor_at (xor_block S (sponge_tail r m @ [d])) (r - 1) 0x80
       = xor_block S (sponge_tail r m @ drop (length m) (spec_sponge_pad r d m))"
proof (cases "r - length m mod r = 1")
  case True
  have lt: "length m mod r < r" using assms by simp
  have "d XOR 0x80 = d OR 0x80"
  proof (rule bit_word_eqI)
    fix n assume "n < LENGTH(8)"
    have "bit (2 ^ 7 :: u8) n \<longleftrightarrow> n = 7" by (simp only: bit_exp_iff possible_bit_word) auto
    then have "bit (0x80 :: u8) n \<longleftrightarrow> n = 7" by simp
    with assms(2) show "bit (d XOR 0x80) n = bit (d OR 0x80) n" by (auto simp: bit_simps)
  qed
  moreover have "r - 1 = length m mod r" using True by simp
  moreover have "(length m mod r) div 8 < 25" using lt assms(1) by linarith
  ultimately show ?thesis using True lt assms(1)
    by (simp add: spec_sponge_pad_def Let_def xor_block_snoc xor_at_twice)
next
  case False
  let ?t = "sponge_tail r m" and ?z = "replicate (r - length m mod r - 2) (0 :: u8)"
  have lt: "length m mod r < r" using assms by simp
  have len: "length (?t @ [d] @ ?z) = r - 1" using False lt by simp
  have "drop (length m) (spec_sponge_pad r d m) = [d] @ ?z @ [0x80]"
    using False by (simp add: spec_sponge_pad_def Let_def)
  then have "xor_block S (?t @ drop (length m) (spec_sponge_pad r d m)) = xor_block S ((?t @ [d] @ ?z) @ [0x80])"
    by simp
  also have "\<dots> = xor_at (xor_block S ((?t @ [d]) @ ?z)) (r - 1) 0x80"
  proof -
    have "length (?t @ [d] @ ?z) < 200" unfolding len using assms(1) by linarith
    from xor_block_snoc [OF this, of S "0x80"] show ?thesis by (simp only: len append_assoc)
  qed
  also have "xor_block S ((?t @ [d]) @ ?z) = xor_block S (?t @ [d])"
  proof (rule xor_block_zeros)
    have "length (?t @ [d]) + (r - length m mod r - 2) = r - 1" using len by simp
    then show "length (?t @ [d]) + (r - length m mod r - 2) \<le> 200" using assms(1) by linarith
  qed
  finally show ?thesis by simp
qed

lemma finalize_represents:
  assumes "rate_ok r" and "\<not> bit d 7" and "sponge_represents r d ctx m"
  shows "c0_keccak_finalize ctx =
    ctx\<lparr>kstate := spec_sponge_absorb r (spec_sponge_pad r d m), position := 0, squeezing := 1\<rparr>"
proof -
  note rep = assms(3) [unfolded sponge_represents_def]
  have lt: "length m mod r < r" using assms(1) by simp
  have "unat (of_nat r - 1 :: u16) = r - 1"
  proof -
    have "r - 1 < 65536" using assms(1) by linarith
    from unat_of_nat_u16 [OF this] assms(1) show ?thesis by simp
  qed
  then have st: "c0_keccak_finalize ctx = ctx\<lparr>kstate := keccak_f1600
      (xor_at (xor_block (spec_sponge_absorb r m) (sponge_tail r m @ [d])) (r - 1) 0x80),
      position := 0, squeezing := 1\<rparr>"
    using rep assms(1) lt
    by (simp add: c0_keccak_finalize_def lane_index rate_position xor_block_snoc xor_at_def Let_def)
  obtain q where pad: "spec_sponge_pad r d m = m @ q" and q: "length m mod r + length q = r"
    using lt by (cases "r - length m mod r = 1") (auto simp: spec_sponge_pad_def Let_def)
  show ?thesis
    unfolding st pad_block [OF assms(1,2)] using assms(1) q
    by (simp add: keccak_f1600_spec pad sponge_append_full)
qed

text \<open>A squeezing context that has delivered \<open>k\<close> bytes of the stream from \<open>S\<close>.\<close>

definition squeezes :: "nat \<Rightarrow> u64 list \<Rightarrow> nat \<Rightarrow> c0_keccak_ctx \<Rightarrow> bool" where
  "squeezes r S k ctx \<longleftrightarrow>
     squeezing ctx \<noteq> 0 \<and> rate ctx = of_nat r \<and> position ctx = of_nat (k mod r) \<and>
     kstate ctx = (spec_keccak_f ^^ (k div r)) S"

lemma length_funpow_f: "length S = 25 \<Longrightarrow> length ((spec_keccak_f ^^ n) S) = 25"
  by (cases n) simp_all

lemma advance_squeezes:
  assumes "rate_ok r" and "length S = 25" and "squeezes r S k ctx"
  shows "squeezes r S (Suc k) (keccak_advance ctx)"
proof -
  note at = assms(3) [unfolded squeezes_def]
  show ?thesis
  proof (cases "Suc (k mod r) = r")
    case True
    then have "Suc k mod r = 0" and "Suc k div r = Suc (k div r)" by (simp_all add: mod_Suc div_Suc)
    with True at assms(1,2) show ?thesis
      by (simp add: squeezes_def keccak_advance_def Let_def rate_position keccak_f1600_spec length_funpow_f)
  next
    case False
    then have "Suc k mod r = Suc (k mod r)" and "Suc k div r = k div r" by (simp_all add: mod_Suc div_Suc)
    with False at assms(1) show ?thesis
      by (simp add: squeezes_def keccak_advance_def Let_def rate_position)
  qed
qed

lemma squeeze_loop_stream:
  assumes "rate_ok r" and "length S = 25" and "squeezes r S k ctx"
  shows "fst (keccak_squeeze_loop ctx n) = map (spec_stream r S) [k..<k + n] \<and>
         squeezes r S (k + n) (snd (keccak_squeeze_loop ctx n))"
  using assms(3)
proof (induction n arbitrary: k ctx)
  case (Suc n)
  have byte: "ucast (drop_bit (8 * unat (position ctx AND 7)) (kstate ctx ! unat (drop_bit 3 (position ctx))))
      = spec_stream r S k"
    using Suc.prems assms(1) by (simp add: squeezes_def spec_stream_def lane_index rate_position)
  from Suc.IH [OF advance_squeezes [OF assms(1,2) Suc.prems]] byte show ?case
    by (simp add: Let_def case_prod_unfold upt_conv_Cons del: upt_Suc)
qed simp

lemma squeeze_represents:
  assumes "rate_ok r" and "\<not> bit d 7" and "sponge_represents r d ctx m"
  shows "fst (c0_keccak_squeeze ctx n) = spec_keccak r d m n"
proof -
  let ?S = "spec_sponge_absorb r (spec_sponge_pad r d m)"
  have "squeezes r ?S 0 (c0_keccak_finalize ctx)"
    using assms(3) by (simp add: finalize_represents [OF assms] squeezes_def sponge_represents_def)
  from squeeze_loop_stream [OF assms(1) _ this] assms(3) show ?thesis
    by (simp add: c0_keccak_squeeze_def sponge_represents_def spec_keccak_def)
qed

lemma squeeze_loop_add:
  "keccak_squeeze_loop ctx (a + b) =
     (let (xs, ctx1) = keccak_squeeze_loop ctx a; (ys, ctx2) = keccak_squeeze_loop ctx1 b
      in (xs @ ys, ctx2))"
  by (induction a arbitrary: ctx) (simp_all add: Let_def case_prod_unfold)

lemma advance_squeezing [simp]: "squeezing (keccak_advance ctx) = squeezing ctx"
  by (simp add: keccak_advance_def Let_def)

lemma squeeze_loop_squeezing [simp]: "squeezing (snd (keccak_squeeze_loop ctx n)) = squeezing ctx"
  by (induction n arbitrary: ctx) (simp_all add: Let_def case_prod_unfold)

lemma finalize_squeezing [simp]: "squeezing (c0_keccak_finalize ctx) \<noteq> 0"
  by (simp add: c0_keccak_finalize_def Let_def)

lemma squeeze_split:
  "fst (c0_keccak_squeeze ctx (a + b)) =
     fst (c0_keccak_squeeze ctx a) @ fst (c0_keccak_squeeze (snd (c0_keccak_squeeze ctx a)) b)"
  by (simp add: c0_keccak_squeeze_def squeeze_loop_add Let_def case_prod_unfold)

section \<open>The contract of an incremental hash\<close>

lemma sponge_streaming:
  assumes "rate_ok r" and "\<not> bit d 7"
  shows "streaming_hash (keccak_init (of_nat r) d) c0_keccak_absorb (\<lambda>c. c0_keccak_squeeze c n)
     (\<lambda>m. spec_keccak r d m n) (sponge_represents r d) n"
  using assms by unfold_locales
    (simp_all add: init_represents absorb_represents squeeze_represents, simp add: spec_keccak_def)

interpretation sha3_256: streaming_hash c0_sha3_256_init c0_keccak_absorb "\<lambda>c. c0_keccak_squeeze c 32"
  "\<lambda>m. spec_keccak 136 0x06 m 32" "sponge_represents 136 0x06" 32
  using sponge_streaming [of 136 "0x06" 32] by (simp add: c0_sha3_256_init_def)

interpretation sha3_512: streaming_hash c0_sha3_512_init c0_keccak_absorb "\<lambda>c. c0_keccak_squeeze c 64"
  "\<lambda>m. spec_keccak 72 0x06 m 64" "sponge_represents 72 0x06" 64
  using sponge_streaming [of 72 "0x06" 64] by (simp add: c0_sha3_512_init_def)

interpretation shake128: streaming_hash c0_shake128_init c0_keccak_absorb "\<lambda>c. c0_keccak_squeeze c n"
  "\<lambda>m. spec_keccak 168 0x1f m n" "sponge_represents 168 0x1f" n for n
  using sponge_streaming [of 168 "0x1f" n] by (simp add: c0_shake128_init_def)

interpretation shake256: streaming_hash c0_shake256_init c0_keccak_absorb "\<lambda>c. c0_keccak_squeeze c n"
  "\<lambda>m. spec_keccak 136 0x1f m n" "sponge_represents 136 0x1f" n for n
  using sponge_streaming [of 136 "0x1f" n] by (simp add: c0_shake256_init_def)

lemma c0_sha3_256_spec: "c0_sha3_256 m = spec_keccak 136 0x06 m 32"
  by (simp add: c0_sha3_256_def sha3_256.final_update1)

lemma c0_sha3_512_spec: "c0_sha3_512 m = spec_keccak 72 0x06 m 64"
  by (simp add: c0_sha3_512_def sha3_512.final_update1)

lemma length_spec_keccak [simp]: "length (spec_keccak r d m n) = n"
  by (simp add: spec_keccak_def)

section \<open>Properties\<close>

text \<open>C32: the in-place \<open>keccak_f1600\<close>, with its single pass over the pi-lane chain and its
  three tables, is Keccak-f[1600] of FIPS 202: 24 rounds of theta, rho, pi, chi and iota, with the
  rotation offsets and round constants the standard generates.\<close>

theorem keccak_f1600_standard:
  assumes "length st = 25"
  shows "keccak_f1600 st = spec_keccak_f st"
  using assms by (rule keccak_f1600_spec)

theorem keccak_f1600_standard_witness:
  "keccak_f1600 (replicate 25 1) = spec_keccak_f (replicate 25 1)"
  by (rule keccak_f1600_standard) simp

text \<open>C31: the byte-wise sponge gives, for every split of the message into absorb calls, the
  FIPS 202 output for the rate and domain byte of each of the four functions; and squeezing in two
  calls continues the same stream.\<close>

theorem keccak_sponge_streaming:
  "fst (c0_keccak_squeeze (fold (\<lambda>x c. c0_keccak_absorb c x) chunks c0_sha3_256_init) 32)
     = spec_keccak 136 0x06 (concat chunks) 32 \<and>
   fst (c0_keccak_squeeze (fold (\<lambda>x c. c0_keccak_absorb c x) chunks c0_sha3_512_init) 64)
     = spec_keccak 72 0x06 (concat chunks) 64 \<and>
   fst (c0_keccak_squeeze (fold (\<lambda>x c. c0_keccak_absorb c x) chunks c0_shake128_init) n)
     = spec_keccak 168 0x1f (concat chunks) n \<and>
   fst (c0_keccak_squeeze (fold (\<lambda>x c. c0_keccak_absorb c x) chunks c0_shake256_init) n)
     = spec_keccak 136 0x1f (concat chunks) n \<and>
   fst (c0_keccak_squeeze ctx (a + b))
     = fst (c0_keccak_squeeze ctx a) @ fst (c0_keccak_squeeze (snd (c0_keccak_squeeze ctx a)) b)"
  by (simp only: sha3_256.final_updates sha3_512.final_updates shake128.final_updates
      shake256.final_updates squeeze_split simp_thms)

end
