(* ===== verification/MlkemPoly.thy ===== *)
theory MlkemPoly
  imports MlkemArith Keccak "HOL-Library.Monad_Syntax"
begin

text \<open>
  The polynomial layer of \<open>core/mlkem512_stream.c\<close>: the number-theoretic transform and its
  inverse, the product in the transform domain, the centred binomial sampler and the rejection
  sampler behind the matrix product. A polynomial is the list of its 256 signed coefficients.

  The rejection sampler reads SHAKE128 until a candidate below \<open>q\<close> appears; nothing bounds that
  loop, so it is a \<open>partial_function (option)\<close> and everything above it is option-valued:
  \<open>None\<close> stands for a loop that does not end.
\<close>

unbundle bit_operations_syntax

section \<open>Tables\<close>

definition zetas :: "int list" where
  "zetas = [
    -1044, -758, -359, -1517, 1493, 1422, 287, 202,
    -171, 622, 1577, 182, 962, -1202, -1474, 1468,
    573, -1325, 264, 383, -829, 1458, -1602, -130,
    -681, 1017, 732, 608, -1542, 411, -205, -1571,
    1223, 652, -552, 1015, -1293, 1491, -282, -1544,
    516, -8, -320, -666, -1618, -1162, 126, 1469,
    -853, -90, -271, 830, 107, -1421, -247, -951,
    -398, 961, -1508, -725, 448, -1065, 677, -1275,
    -1103, 430, 555, 843, -1251, 871, 1550, 105,
    422, 587, 177, -235, -291, -460, 1574, 1653,
    -246, 778, 1159, -147, -777, 1483, -602, 1119,
    -1590, 644, -872, 349, 418, 329, -156, -75,
    817, 1097, 603, 610, 1322, -1285, -1465, 384,
    -1215, -136, 1218, -1335, -874, 220, -1187, -1659,
    -1185, -1530, -1278, 794, -1510, -854, -870, 478,
    -108, -308, 996, 991, 958, -1460, 1522, 1628]"

definition load_zeta :: "nat \<Rightarrow> s16" where
  "load_zeta index = word_of_int (zetas ! index)"

section \<open>The transform\<close>

definition ntt_butterfly :: "s16 \<Rightarrow> nat \<Rightarrow> nat \<Rightarrow> s16 list \<Rightarrow> s16 list" where
  "ntt_butterfly zeta len j polynomial =
     (let product = fqmul zeta (polynomial ! (j + len));
          p1 = polynomial[j + len := polynomial ! j - product]
      in p1[j := p1 ! j + product])"

text \<open>\<open>start\<close> runs over the multiples of \<open>2 * length\<close> below 256 and \<open>k\<close> moves on with
  every block.\<close>

definition block_starts :: "nat \<Rightarrow> nat list" where
  "block_starts len = map (\<lambda>b. b * (2 * len)) [0..<128 div len]"

definition ntt_layer :: "nat \<Rightarrow> s16 list \<times> nat \<Rightarrow> s16 list \<times> nat" where
  "ntt_layer len pk =
     fold (\<lambda>start (p, k). (fold (ntt_butterfly (load_zeta k) len) [start..<start + len] p, k + 1))
       (block_starts len) pk"

definition ntt :: "s16 list \<Rightarrow> s16 list" where
  "ntt polynomial = fst (fold ntt_layer [128, 64, 32, 16, 8, 4, 2] (polynomial, 1))"

definition inverse_butterfly :: "s16 \<Rightarrow> nat \<Rightarrow> nat \<Rightarrow> s16 list \<Rightarrow> s16 list" where
  "inverse_butterfly zeta len j polynomial =
     (let first = polynomial ! j;
          p1 = polynomial[j := barrett_reduce (first + polynomial ! (j + len))];
          p2 = p1[j + len := p1 ! (j + len) - first]
      in p2[j + len := fqmul zeta (p2 ! (j + len))])"

definition inverse_layer :: "nat \<Rightarrow> s16 list \<times> nat \<Rightarrow> s16 list \<times> nat" where
  "inverse_layer len pk =
     fold (\<lambda>start (p, k). (fold (inverse_butterfly (load_zeta k) len) [start..<start + len] p, k - 1))
       (block_starts len) pk"

definition inverse_ntt :: "s16 list \<Rightarrow> s16 list" where
  "inverse_ntt polynomial =
     (let p = fst (fold inverse_layer [2, 4, 8, 16, 32, 64, 128] (polynomial, 127))
      in map (\<lambda>c. fqmul c 1441) p)"

text \<open>\<open>base_multiply_add\<close> updates the two coefficients from \<open>at\<close> on.\<close>

definition base_multiply_add ::
  "s16 list \<Rightarrow> nat \<Rightarrow> s16 \<Rightarrow> s16 \<Rightarrow> s16 \<Rightarrow> s16 \<Rightarrow> s16 \<Rightarrow> s16 list" where
  "base_multiply_add accumulator at a0 a1 b0 b1 zeta =
     (let c0 = fqmul a1 b1;
          c0' = fqmul c0 zeta;
          c0'' = c0' + fqmul a0 b0;
          acc1 = accumulator[at := accumulator ! at + c0'']
      in acc1[at + 1 := acc1 ! (at + 1) + fqmul a0 b1 + fqmul a1 b0])"

section \<open>The centred binomial sampler\<close>

definition popcount2 :: "u8 \<Rightarrow> u8" where
  "popcount2 value = (value AND 1) + (drop_bit 1 value AND 1)"

definition cbd2_byte :: "u8 \<Rightarrow> s16 list" where
  "cbd2_byte byte =
     map (\<lambda>half. let nibble = drop_bit (4 * half) byte
                 in (ucast (popcount2 nibble) :: s16) - ucast (popcount2 (drop_bit 2 nibble)))
       [0..<2]"

definition cbd3_bytes :: "bytes \<Rightarrow> s16 list" where
  "cbd3_bytes bs =
     (let word = (ucast (bs ! 0) :: u32) OR push_bit 8 (ucast (bs ! 1)) OR push_bit 16 (ucast (bs ! 2));
          sums = (word AND 0x00249249) + (drop_bit 1 word AND 0x00249249) + (drop_bit 2 word AND 0x00249249)
      in map (\<lambda>i. let a = (ucast (drop_bit (6 * i) sums AND 7) :: s16);
                      b = ucast (drop_bit (6 * i + 3) sums AND 7)
                  in a - b) [0..<4])"

text \<open>The two sampling loops, as recursion on the number of reads left; they fill the polynomial
  from the front.\<close>

fun cbd2_loop :: "nat \<Rightarrow> c0_keccak_ctx \<Rightarrow> s16 list \<times> c0_keccak_ctx" where
  "cbd2_loop 0 ctx = ([], ctx)"
| "cbd2_loop (Suc n) ctx =
     (let (bs, ctx1) = c0_keccak_squeeze ctx 1;
          (rest, ctx2) = cbd2_loop n ctx1
      in (cbd2_byte (bs ! 0) @ rest, ctx2))"

fun cbd3_loop :: "nat \<Rightarrow> c0_keccak_ctx \<Rightarrow> s16 list \<times> c0_keccak_ctx" where
  "cbd3_loop 0 ctx = ([], ctx)"
| "cbd3_loop (Suc n) ctx =
     (let (bs, ctx1) = c0_keccak_squeeze ctx 3;
          (rest, ctx2) = cbd3_loop n ctx1
      in (cbd3_bytes bs @ rest, ctx2))"

definition sample_cbd :: "bytes \<Rightarrow> u8 \<Rightarrow> nat \<Rightarrow> s16 list \<times> c0_keccak_ctx" where
  "sample_cbd seed nonce eta =
     (let input = take 32 seed @ [nonce];
          ctx = c0_keccak_finalize (c0_keccak_absorb c0_shake256_init input)
      in if eta = 2 then cbd2_loop 128 ctx else cbd3_loop 64 ctx)"

section \<open>The rejection sampler and the matrix product\<close>

record sample_ntt_reader =
  reader_ctx :: c0_keccak_ctx
  reader_bytes :: bytes
  available :: nat
  next_index :: nat

definition sample_ntt_reader_init :: "bytes \<Rightarrow> u8 \<Rightarrow> u8 \<Rightarrow> sample_ntt_reader" where
  "sample_ntt_reader_init rho x y =
     (let ctx0 = c0_keccak_absorb c0_shake128_init (take 32 rho);
          ctx1 = c0_keccak_absorb ctx0 [x, y]
      in \<lparr>reader_ctx = c0_keccak_finalize ctx1, reader_bytes = [0, 0, 0], available = 0, next_index = 0\<rparr>)"

text \<open>The 12-bit values packed in three bytes, as the reader and the key decoding unpack them.\<close>

definition unpack12_first :: "u8 \<Rightarrow> u8 \<Rightarrow> u16" where
  "unpack12_first b0 b1 = ucast b0 OR push_bit 8 (ucast (b1 AND 0x0f))"

definition unpack12_second :: "u8 \<Rightarrow> u8 \<Rightarrow> u16" where
  "unpack12_second b1 b2 = drop_bit 4 (ucast b1) OR push_bit 4 (ucast b2)"

text \<open>One turn of the loop: the candidate and the reader after it.\<close>

definition sample_ntt_candidate :: "sample_ntt_reader \<Rightarrow> u16 \<times> sample_ntt_reader" where
  "sample_ntt_candidate reader =
     (let r = (if available reader = 0
               then let (bs, ctx) = c0_keccak_squeeze (reader_ctx reader) 3
                    in reader\<lparr>reader_ctx := ctx, reader_bytes := bs, available := 2, next_index := 0\<rparr>
               else reader);
          bs = reader_bytes r
      in if next_index r = 0
         then (unpack12_first (bs ! 0) (bs ! 1), r\<lparr>next_index := 1\<rparr>)
         else (unpack12_second (bs ! 1) (bs ! 2), r\<lparr>available := 0\<rparr>))"

partial_function (option) sample_ntt_next :: "sample_ntt_reader \<Rightarrow> (u16 \<times> sample_ntt_reader) option" where
  [code]: "sample_ntt_next reader =
     (let (v, r) = sample_ntt_candidate reader
      in if v < 3329 then Some (v, r) else sample_ntt_next r)"

text \<open>One block of the product: four samples against four coefficients of the vector.\<close>

definition matrix_block ::
  "s16 list \<Rightarrow> nat \<Rightarrow> s16 list \<times> sample_ntt_reader \<Rightarrow> (s16 list \<times> sample_ntt_reader) option" where
  "matrix_block vector_polynomial block = (\<lambda>(accumulator, reader). do {
     let zeta = load_zeta (64 + block);
     (a0, r0) \<leftarrow> sample_ntt_next reader;
     (a1, r1) \<leftarrow> sample_ntt_next r0;
     (a2, r2) \<leftarrow> sample_ntt_next r1;
     (a3, r3) \<leftarrow> sample_ntt_next r2;
     let acc1 = base_multiply_add accumulator (4 * block) a0 a1
                  (vector_polynomial ! (4 * block)) (vector_polynomial ! (4 * block + 1)) zeta;
     let acc2 = base_multiply_add acc1 (4 * block + 2) a2 a3
                  (vector_polynomial ! (4 * block + 2)) (vector_polynomial ! (4 * block + 3)) (- zeta);
     Some (acc2, r3)
   })"

fun matrix_blocks ::
  "s16 list \<Rightarrow> nat list \<Rightarrow> s16 list \<times> sample_ntt_reader \<Rightarrow> (s16 list \<times> sample_ntt_reader) option" where
  "matrix_blocks v [] s = Some s"
| "matrix_blocks v (b # blocks) s = do { s' \<leftarrow> matrix_block v b s; matrix_blocks v blocks s' }"

definition matrix_product_add ::
  "s16 list \<Rightarrow> s16 list \<Rightarrow> bytes \<Rightarrow> u8 \<Rightarrow> u8 \<Rightarrow> (s16 list \<times> c0_keccak_ctx) option" where
  "matrix_product_add accumulator vector_polynomial rho x y = do {
     let reader = sample_ntt_reader_init rho x y;
     (acc, r) \<leftarrow> matrix_blocks vector_polynomial [0..<64] (accumulator, reader);
     Some (acc, reader_ctx r)
   }"

end
