(* ===== verification/Mlkem.thy ===== *)
theory Mlkem
  imports MlkemPoly
begin

text \<open>
  Encapsulation in \<open>core/mlkem512_stream.c\<close>: validation and hashing of the callback-backed
  public key, the packed ciphertext written through a callback, and the two entry points.

  The public-key reader, the ciphertext writer and the random source are functions of the joint
  state of their contexts, returning their result (a byte, or the C result code) and the new state;
  the state is threaded through their calls in the order in which the code makes them.
  A \<open>NULL\<close> argument is \<open>None\<close>. The outer \<open>option\<close> is the one of the rejection sampler.
\<close>

unbundle bit_operations_syntax

type_synonym 's pk_read = "'s \<Rightarrow> u16 \<Rightarrow> u8 \<times> 's"
type_synonym 's ct_write = "'s \<Rightarrow> bytes \<Rightarrow> int \<times> 's"
type_synonym 's rng = "'s \<Rightarrow> nat \<Rightarrow> int \<times> bytes \<times> 's"

section \<open>The workspace\<close>

record mlkem_workspace_internal =
  accumulator :: "s16 list"
  temporary :: "s16 list"
  keccak :: c0_keccak_ctx
  rho :: bytes
  coins :: bytes
  pack :: bytes
  generated :: u16
  public_key_offset :: u16

definition keccak_zero :: c0_keccak_ctx where
  "keccak_zero = keccak_init 0 0"

definition workspace_zero :: mlkem_workspace_internal where
  "workspace_zero =
     \<lparr>accumulator = replicate 256 0, temporary = replicate 256 0, keccak = keccak_zero,
      rho = replicate 32 0, coins = replicate 32 0, pack = replicate 8 0,
      generated = 0, public_key_offset = 0\<rparr>"

section \<open>The public key\<close>

text \<open>Bytes read one after the other: the reader is called once for each offset, in order.\<close>

fun read_bytes :: "'s pk_read \<Rightarrow> nat list \<Rightarrow> 's \<Rightarrow> bytes \<times> 's" where
  "read_bytes read_public_key [] s = ([], s)"
| "read_bytes read_public_key (offset # offsets) s =
     (let (byte, s1) = read_public_key s (of_nat offset);
          (bytes, s2) = read_bytes read_public_key offsets s1
      in (byte # bytes, s2))"

text \<open>The hash loop absorbs the key byte by byte; the decoding loop walks the offsets
  \<open>0, 3, \<dots>, 765\<close> and stops at the first bad pair.\<close>

fun hash_public_key :: "'s pk_read \<Rightarrow> nat list \<Rightarrow> c0_keccak_ctx \<Rightarrow> 's \<Rightarrow> c0_keccak_ctx \<times> 's" where
  "hash_public_key read_public_key [] ctx s = (ctx, s)"
| "hash_public_key read_public_key (offset # offsets) ctx s =
     (let (byte, s1) = read_public_key s (of_nat offset)
      in hash_public_key read_public_key offsets (c0_keccak_absorb ctx [byte]) s1)"

fun validate_triples :: "'s pk_read \<Rightarrow> nat list \<Rightarrow> 's \<Rightarrow> status \<times> 's" where
  "validate_triples read_public_key [] s = (C0PQLINK_OK, s)"
| "validate_triples read_public_key (offset # offsets) s =
     (let (t0, s1) = read_public_key s (of_nat offset);
          (t1, s2) = read_public_key s1 (of_nat (offset + 1));
          (t2, s3) = read_public_key s2 (of_nat (offset + 2));
          first = unpack12_first t0 t1;
          second = unpack12_second t1 t2
      in if first \<ge> 3329 \<or> second \<ge> 3329 then (C0PQLINK_ERR_KEY_ENCODING, s3)
         else validate_triples read_public_key offsets s3)"

text \<open>The result carries the status, the hash, the seed \<open>rho\<close> (written only on success) and the
  hash context.\<close>

definition validate_and_hash_public_key ::
  "'s pk_read \<Rightarrow> bytes \<Rightarrow> 's \<Rightarrow> status \<times> bytes \<times> bytes \<times> c0_keccak_ctx \<times> 's" where
  "validate_and_hash_public_key read_public_key rho0 s =
     (let (ctx0, s1) = hash_public_key read_public_key [0..<800] c0_sha3_256_init s;
          (hash, ctx) = c0_keccak_squeeze ctx0 32;
          (result, s2) = validate_triples read_public_key (map (\<lambda>i. 3 * i) [0..<256]) s1
      in if result \<noteq> C0PQLINK_OK then (result, hash, rho0, ctx, s2)
         else
           let (seed, s3) = read_bytes read_public_key [768..<800] s2
           in (C0PQLINK_OK, hash, seed, ctx, s3))"

section \<open>Writing the ciphertext\<close>

definition pack_u :: "s16 list \<Rightarrow> nat \<Rightarrow> bytes" where
  "pack_u polynomial i =
     (let t0 = compress10 (polynomial ! i);
          t1 = compress10 (polynomial ! (i + 1));
          t2 = compress10 (polynomial ! (i + 2));
          t3 = compress10 (polynomial ! (i + 3))
      in [ucast t0,
          ucast (drop_bit 8 t0 OR push_bit 2 t1),
          ucast (drop_bit 6 t1 OR push_bit 4 t2),
          ucast (drop_bit 4 t2 OR push_bit 6 t3),
          ucast (drop_bit 2 t3)])"

fun write_all :: "'s ct_write \<Rightarrow> 's \<Rightarrow> bytes list \<Rightarrow> status \<times> 's" where
  "write_all write_ciphertext s [] = (C0PQLINK_OK, s)"
| "write_all write_ciphertext s (b # bs) =
     (let (r, s') = write_ciphertext s b
      in if r \<noteq> 0 then (C0PQLINK_ERR_IO, s') else write_all write_ciphertext s' bs)"

definition write_compressed_u :: "s16 list \<Rightarrow> 's ct_write \<Rightarrow> 's \<Rightarrow> status \<times> 's" where
  "write_compressed_u polynomial write_ciphertext s =
     write_all write_ciphertext s (map (\<lambda>i. pack_u polynomial (4 * i)) [0..<64])"

definition message_coefficient :: "bytes \<Rightarrow> nat \<Rightarrow> s16" where
  "message_coefficient message i =
     (let message_bit = drop_bit (i mod 8) (ucast (message ! (i div 8)) :: u16) AND 1
      in (0 - message_bit) AND 1665)"

definition pack_v :: "s16 list \<Rightarrow> bytes \<Rightarrow> nat \<Rightarrow> bytes" where
  "pack_v polynomial message i =
     (let low = compress4 (polynomial ! i + message_coefficient message i);
          high = compress4 (polynomial ! (i + 1) + message_coefficient message (i + 1))
      in [low OR push_bit 4 high])"

definition write_compressed_v :: "s16 list \<Rightarrow> bytes \<Rightarrow> 's ct_write \<Rightarrow> 's \<Rightarrow> status \<times> 's" where
  "write_compressed_v polynomial message write_ciphertext s =
     write_all write_ciphertext s (map (\<lambda>i. pack_v polynomial message (2 * i)) [0..<128])"

section \<open>Encapsulation\<close>

definition derive_k_and_coins :: "bytes \<Rightarrow> bytes \<Rightarrow> bytes \<times> bytes \<times> c0_keccak_ctx" where
  "derive_k_and_coins randomness public_key_hash =
     (let ctx0 = c0_keccak_absorb c0_sha3_512_init (take 32 randomness);
          ctx1 = c0_keccak_absorb ctx0 (take 32 public_key_hash);
          (shared_secret, ctx2) = c0_keccak_squeeze ctx1 32;
          (coins', ctx3) = c0_keccak_squeeze ctx2 32
      in (shared_secret, coins', ctx3))"

text \<open>One column of the row product: sample, transform, multiply into the accumulator.\<close>

definition encap_row_column ::
  "nat \<Rightarrow> nat \<Rightarrow> mlkem_workspace_internal \<Rightarrow> mlkem_workspace_internal option" where
  "encap_row_column row column state = do {
     let (t, _) = sample_cbd (coins state) (of_nat column) 3;
     let t' = ntt t;
     (acc, ctx) \<leftarrow> matrix_product_add (accumulator state) t' (rho state) (of_nat row) (of_nat column);
     Some (state\<lparr>temporary := t', accumulator := acc, keccak := ctx\<rparr>)
   }"

text \<open>The steps shared by the rows and by \<open>v\<close>: Barrett reduction, inverse transform, added noise.\<close>

definition encap_noise :: "u8 \<Rightarrow> mlkem_workspace_internal \<Rightarrow> mlkem_workspace_internal" where
  "encap_noise nonce state =
     (let acc = inverse_ntt (map barrett_reduce (accumulator state));
          (noise, ctx) = sample_cbd (coins state) nonce 2
      in state\<lparr>accumulator := map2 (+) acc noise, temporary := noise, keccak := ctx\<rparr>)"

definition encap_row :: "nat \<Rightarrow> mlkem_workspace_internal \<Rightarrow> mlkem_workspace_internal option" where
  "encap_row row state = do {
     s1 \<leftarrow> encap_row_column row 0 (state\<lparr>accumulator := replicate 256 0\<rparr>);
     s2 \<leftarrow> encap_row_column row 1 s1;
     Some (encap_noise (of_nat (2 + row)) s2)
   }"

text \<open>The row loop writes each row as soon as it is computed and stops at the first failed write.\<close>

fun encap_rows ::
  "'s ct_write \<Rightarrow> nat list \<Rightarrow> mlkem_workspace_internal \<times> 's
     \<Rightarrow> (status \<times> mlkem_workspace_internal \<times> 's) option" where
  "encap_rows write_ciphertext [] (state, s) = Some (C0PQLINK_OK, state, s)"
| "encap_rows write_ciphertext (row # rows) (state, s) = do {
     st \<leftarrow> encap_row row state;
     let (result, s') = write_compressed_u (accumulator st) write_ciphertext s;
     if result \<noteq> C0PQLINK_OK then Some (result, st, s')
     else encap_rows write_ciphertext rows (st, s')
   }"

text \<open>One block of the dot product with the public key, decoded from six of its bytes.\<close>

definition dot_block :: "nat \<Rightarrow> bytes \<Rightarrow> s16 list \<Rightarrow> s16 list \<Rightarrow> s16 list" where
  "dot_block block b t acc =
     (let a0 = unpack12_first (b ! 0) (b ! 1);
          a1 = unpack12_second (b ! 1) (b ! 2);
          a2 = unpack12_first (b ! 3) (b ! 4);
          a3 = unpack12_second (b ! 4) (b ! 5);
          zeta = load_zeta (64 + block);
          acc1 = base_multiply_add acc (4 * block) a0 a1 (t ! (4 * block)) (t ! (4 * block + 1)) zeta
      in base_multiply_add acc1 (4 * block + 2) a2 a3 (t ! (4 * block + 2)) (t ! (4 * block + 3)) (- zeta))"

fun encap_v_blocks :: "'s pk_read \<Rightarrow> nat \<Rightarrow> nat list \<Rightarrow> s16 list \<Rightarrow> s16 list \<times> 's \<Rightarrow> s16 list \<times> 's" where
  "encap_v_blocks read_public_key column [] t (acc, s) = (acc, s)"
| "encap_v_blocks read_public_key column (block # blocks) t (acc, s) =
     (let base = column * 384 + block * 6;
          (b, s1) = read_bytes read_public_key [base..<base + 6] s
      in encap_v_blocks read_public_key column blocks t (dot_block block b t acc, s1))"

definition encap_v_column ::
  "'s pk_read \<Rightarrow> nat \<Rightarrow> mlkem_workspace_internal \<times> 's \<Rightarrow> mlkem_workspace_internal \<times> 's" where
  "encap_v_column read_public_key column = (\<lambda>(state, s).
     (let (t, ctx) = sample_cbd (coins state) (of_nat column) 3;
          t' = ntt t;
          (acc, s1) = encap_v_blocks read_public_key column [0..<64] t' (accumulator state, s)
      in (state\<lparr>temporary := t', keccak := ctx, accumulator := acc\<rparr>, s1)))"

definition encap_v ::
  "'s pk_read \<Rightarrow> mlkem_workspace_internal \<Rightarrow> 's \<Rightarrow> mlkem_workspace_internal \<times> 's" where
  "encap_v read_public_key state s =
     (let (state', s') = encap_v_column read_public_key 1
                           (encap_v_column read_public_key 0 (state\<lparr>accumulator := replicate 256 0\<rparr>, s))
      in (encap_noise 4 state', s'))"

text \<open>The end of every path past the key: the status, the shared secret (wiped after a failed
  write) and the wiped workspace.\<close>

definition encap_finish :: "status \<Rightarrow> bytes \<Rightarrow> 's \<Rightarrow> status \<times> bytes \<times> mlkem_workspace_internal \<times> 's" where
  "encap_finish result shared_secret s =
     (result, if result \<noteq> C0PQLINK_OK then c0pqlink_secure_zero shared_secret 32 else shared_secret,
      workspace_zero, s)"

definition encap_run ::
  "'s pk_read \<Rightarrow> bytes \<Rightarrow> 's ct_write \<Rightarrow> 's \<Rightarrow> bytes
     \<Rightarrow> (status \<times> bytes \<times> mlkem_workspace_internal \<times> 's) option" where
  "encap_run read_public_key randomness write_ciphertext s shared_secret0 =
     (let (result, hash, rho', ctx, s0) = validate_and_hash_public_key read_public_key (rho workspace_zero) s
      in if result \<noteq> C0PQLINK_OK then Some (result, shared_secret0, workspace_zero, s0)
         else
           let (shared_secret, coins', ctx') = derive_k_and_coins randomness hash;
               state0 = workspace_zero\<lparr>rho := rho', coins := coins', keccak := ctx'\<rparr>
           in do {
             (result, state1, s1) \<leftarrow> encap_rows write_ciphertext [0, 1] (state0, s0);
             if result \<noteq> C0PQLINK_OK then Some (encap_finish result shared_secret s1)
             else
               let (state2, s2) = encap_v read_public_key state1 s1;
                   (result', s3) = write_compressed_v (accumulator state2) randomness write_ciphertext s2
               in Some (encap_finish result' shared_secret s3)
           })"

definition c0_mlkem512_encapsulate_derand ::
  "'s pk_read option \<Rightarrow> bytes option \<Rightarrow> 's ct_write option \<Rightarrow> 's \<Rightarrow> bytes option
     \<Rightarrow> mlkem_workspace_internal option
     \<Rightarrow> (status \<times> bytes option \<times> mlkem_workspace_internal option \<times> 's) option" where
  "c0_mlkem512_encapsulate_derand read_public_key randomness write_ciphertext s shared_secret workspace =
     (case (read_public_key, randomness, write_ciphertext, shared_secret, workspace) of
        (Some rd, Some m, Some wr, Some ss, Some ws) \<Rightarrow>
          map_option (\<lambda>(st, ss', ws', s'). (st, Some ss', Some ws', s')) (encap_run rd m wr s ss)
      | _ \<Rightarrow> Some (C0PQLINK_ERR_ARGUMENT, shared_secret, workspace, s))"

definition c0_mlkem512_encapsulate ::
  "'s pk_read option \<Rightarrow> 's rng option \<Rightarrow> 's ct_write option \<Rightarrow> 's \<Rightarrow> bytes option
     \<Rightarrow> mlkem_workspace_internal option
     \<Rightarrow> (status \<times> bytes option \<times> mlkem_workspace_internal option \<times> 's) option" where
  "c0_mlkem512_encapsulate read_public_key random_bytes write_ciphertext s shared_secret workspace =
     (case random_bytes of
        None \<Rightarrow> Some (C0PQLINK_ERR_ARGUMENT, shared_secret, workspace, s)
      | Some rng \<Rightarrow>
          let (r, randomness, s1) = rng s 32
          in if r \<noteq> 0 then Some (C0PQLINK_ERR_RNG, shared_secret, workspace, s1)
             else c0_mlkem512_encapsulate_derand read_public_key (Some randomness) write_ciphertext s1
                    shared_secret workspace)"

end
