(* ===== verification/ClientState.thy ===== *)
theory ClientState
  imports Wire Mlkem
begin

text \<open>
  The client of \<open>client.h\<close>: its configuration with the caller's callbacks and its session
  state. All callbacks act on one world \<open>'w\<close>, the state behind their context pointers, and
  return the C result code with the new world: \<open>receive_frame\<close> gets the capacity and the
  timeout and returns the bytes it wrote at the front of the buffer and the length it reported.
  The session mode is the C enumeration's integer, so that an out-of-range mode exists.
\<close>

type_synonym 'w send_fn = "'w \<Rightarrow> bytes \<Rightarrow> int \<times> 'w"
type_synonym 'w receive_fn = "'w \<Rightarrow> nat \<Rightarrow> u32 \<Rightarrow> int \<times> bytes \<times> nat \<times> 'w"

abbreviation C0PQ_FULL_PQ_EACH_SESSION :: int where "C0PQ_FULL_PQ_EACH_SESSION \<equiv> 0"
abbreviation C0PQ_PQ_BOOTSTRAP_RATCHET :: int where "C0PQ_PQ_BOOTSTRAP_RATCHET \<equiv> 1"

datatype c0pq_client_state =
    C0PQ_CLIENT_UNINITIALIZED
  | C0PQ_CLIENT_READY
  | C0PQ_CLIENT_CONNECTING
  | C0PQ_CLIENT_ESTABLISHED
  | C0PQ_CLIENT_FAILED

record 'w c0pq_client_config =
  device_id :: bytes
  psk :: bytes
  cfg_epoch :: u64
  public_key_id :: bytes
  read_public_key :: "'w pk_read option"
  random_bytes :: "'w rng option"
  send_frame :: "'w send_fn option"
  receive_frame :: "'w receive_fn option"
  mode :: int
  timeout_ms :: u32
  maximum_retries :: u8

record 'w c0pq_client =
  config :: "'w c0pq_client_config"
  client_state :: c0pq_client_state
  session_id :: u32
  send_secret :: bytes
  receive_secret :: bytes
  send_nonce_base :: bytes
  receive_nonce_base :: bytes
  send_sequence :: u64
  receive_sequence :: u64

text \<open>The array sizes of the structure.\<close>

definition client_wf :: "'w c0pq_client \<Rightarrow> bool" where
  "client_wf c \<longleftrightarrow>
     length (device_id (config c)) = 8 \<and> length (psk (config c)) = 32 \<and>
     length (public_key_id (config c)) = 16 \<and>
     length (send_secret c) = 32 \<and> length (receive_secret c) = 32 \<and>
     length (send_nonce_base c) = 16 \<and> length (receive_nonce_base c) = 16"

text \<open>A concrete established client, for the instances of the properties.\<close>

definition sample_config :: "unit c0pq_client_config" where
  "sample_config =
     \<lparr>device_id = replicate 8 1, psk = replicate 32 2, cfg_epoch = 3, public_key_id = replicate 16 4,
      read_public_key = Some (\<lambda>w _. (0, w)), random_bytes = Some (\<lambda>w n. (0, replicate n 5, w)),
      send_frame = Some (\<lambda>w f. (0, w)), receive_frame = Some (\<lambda>w cap t. (1, [], 0, w)),
      mode = C0PQ_FULL_PQ_EACH_SESSION, timeout_ms = 10, maximum_retries = 2\<rparr>"

definition sample_client :: "unit c0pq_client" where
  "sample_client =
     \<lparr>config = sample_config, client_state = C0PQ_CLIENT_ESTABLISHED, session_id = 6,
      send_secret = replicate 32 7, receive_secret = replicate 32 8,
      send_nonce_base = replicate 16 9, receive_nonce_base = replicate 16 10,
      send_sequence = 0, receive_sequence = 0\<rparr>"

lemma sample_client_simps [simp]:
  "client_state sample_client = C0PQ_CLIENT_ESTABLISHED" "send_sequence sample_client = 0"
  "receive_sequence sample_client = 0" "length (send_nonce_base sample_client) = 16"
  "client_wf sample_client"
  by (simp_all add: sample_client_def sample_config_def client_wf_def)

end
