(* ===== verification/Ascon.thy ===== *)
theory Ascon
  imports Common Interfaces
begin

text \<open>
  \<open>core/ascon_aead128.c\<close>: Ascon-AEAD128. The theory defines the five-word state, the round,
  the two permutations and the two entry points as the code has them and, beside them, the
  description of NIST SP 800-232 (the 5-bit S-box applied to every column, the rate blocks of the
  padded input). It shows that the round is the standard's, that encryption is the standard's
  duplex over the padded associated data and plaintext, and that decryption accepts exactly the
  pairs of ciphertext and tag that encryption produces, wiping the plaintext otherwise.
\<close>

unbundle bit_operations_syntax

section \<open>The state and the permutation\<close>

record ascon_state =
  x0 :: u64
  x1 :: u64
  x2 :: u64
  x3 :: u64
  x4 :: u64

definition rotate_right64 :: "u64 \<Rightarrow> nat \<Rightarrow> u64" where
  "rotate_right64 value count = drop_bit count value OR push_bit (64 - count) value"

definition load_little_endian :: "bytes \<Rightarrow> nat \<Rightarrow> u64" where
  "load_little_endian bs len =
     fold (\<lambda>i value. value OR push_bit (8 * i) (ucast (bs ! i))) [0..<len] 0"

definition store_little_endian :: "u64 \<Rightarrow> nat \<Rightarrow> bytes" where
  "store_little_endian value len = map (\<lambda>i. ucast (drop_bit (8 * i) value)) [0..<len]"

definition clear_low_bytes :: "u64 \<Rightarrow> nat \<Rightarrow> u64" where
  "clear_low_bytes value len =
     fold (\<lambda>i v. v AND NOT (push_bit (8 * i) 0xff)) [0..<len] value"

definition ascon_round :: "u8 \<Rightarrow> ascon_state \<Rightarrow> ascon_state" where
  "ascon_round constant s =
     (let a2 = x2 s XOR ucast constant;
          a0 = x0 s XOR x4 s;
          a4 = x4 s XOR x3 s;
          b2 = a2 XOR x1 s;
          t0 = a0 XOR (NOT (x1 s) AND b2);
          t1 = x1 s XOR (NOT b2 AND x3 s);
          t2 = b2 XOR (NOT (x3 s) AND a4);
          t3 = x3 s XOR (NOT a4 AND a0);
          t4 = a4 XOR (NOT a0 AND x1 s);
          u1 = t1 XOR t0;
          u0 = t0 XOR t4;
          u3 = t3 XOR t2;
          u2 = NOT t2
      in \<lparr>x0 = u0 XOR rotate_right64 u0 19 XOR rotate_right64 u0 28,
          x1 = u1 XOR rotate_right64 u1 61 XOR rotate_right64 u1 39,
          x2 = u2 XOR rotate_right64 u2 1 XOR rotate_right64 u2 6,
          x3 = u3 XOR rotate_right64 u3 10 XOR rotate_right64 u3 17,
          x4 = t4 XOR rotate_right64 t4 7 XOR rotate_right64 t4 41\<rparr>)"

definition ascon_permute12 :: "ascon_state \<Rightarrow> ascon_state" where
  "ascon_permute12 s =
     fold (\<lambda>i. ascon_round (of_nat (push_bit 4 (15 - i) OR i))) [0..<12] s"

definition ascon_permute8 :: "ascon_state \<Rightarrow> ascon_state" where
  "ascon_permute8 s =
     fold (\<lambda>i. let round = i + 4 in ascon_round (of_nat (push_bit 4 (15 - round) OR round))) [0..<8] s"

section \<open>Initialisation, associated data, tag\<close>

definition initialize :: "bytes \<Rightarrow> bytes \<Rightarrow> ascon_state" where
  "initialize key nonce =
     (let key0 = load_little_endian key 8;
          key1 = load_little_endian (drop 8 key) 8;
          s = ascon_permute12
                \<lparr>x0 = 0x00001000808c0001, x1 = key0, x2 = key1,
                 x3 = load_little_endian nonce 8, x4 = load_little_endian (drop 8 nonce) 8\<rparr>
      in s\<lparr>x3 := x3 s XOR key0, x4 := x4 s XOR key1\<rparr>)"

function absorb_full_blocks :: "ascon_state \<Rightarrow> bytes \<Rightarrow> ascon_state \<times> bytes" where
  "absorb_full_blocks s data =
     (if length data \<ge> 16
      then absorb_full_blocks
             (ascon_permute8 (s\<lparr>x0 := x0 s XOR load_little_endian data 8,
                                x1 := x1 s XOR load_little_endian (drop 8 data) 8\<rparr>))
             (drop 16 data)
      else (s, data))"
  by pat_completeness auto
termination
  by (relation "measure (\<lambda>(s, data). length data)") auto

declare absorb_full_blocks.simps [simp del]

definition absorb_associated_data :: "ascon_state \<Rightarrow> bytes \<Rightarrow> ascon_state" where
  "absorb_associated_data s data =
     (let s' = (if length data \<noteq> 0 then
                  let (s1, rest) = absorb_full_blocks s data; n = length rest
                  in ascon_permute8
                       (if n \<ge> 8
                        then s1\<lparr>x0 := x0 s1 XOR load_little_endian rest 8,
                                x1 := x1 s1 XOR load_little_endian (drop 8 rest) (n - 8)
                                        XOR push_bit (8 * (n - 8)) 1\<rparr>
                        else s1\<lparr>x0 := x0 s1 XOR load_little_endian rest n XOR push_bit (8 * n) 1\<rparr>)
                else s)
      in s'\<lparr>x4 := x4 s' XOR 0x8000000000000000\<rparr>)"

definition finalize_tag :: "ascon_state \<Rightarrow> bytes \<Rightarrow> bytes" where
  "finalize_tag s key =
     (let key0 = load_little_endian key 8;
          key1 = load_little_endian (drop 8 key) 8;
          s' = ascon_permute12 (s\<lparr>x2 := x2 s XOR key0, x3 := x3 s XOR key1\<rparr>)
      in store_little_endian (x3 s' XOR key0) 8 @ store_little_endian (x4 s' XOR key1) 8)"

section \<open>Encryption and decryption\<close>

text \<open>The full-block loops return the state, the bytes written and the input left over; the tails
  handle what is left (fewer than 16 bytes).\<close>

function encrypt_blocks :: "ascon_state \<Rightarrow> bytes \<Rightarrow> ascon_state \<times> bytes \<times> bytes" where
  "encrypt_blocks s plaintext =
     (if length plaintext \<ge> 16 then
        let s1 = s\<lparr>x0 := x0 s XOR load_little_endian plaintext 8,
                   x1 := x1 s XOR load_little_endian (drop 8 plaintext) 8\<rparr>;
            ciphertext = store_little_endian (x0 s1) 8 @ store_little_endian (x1 s1) 8;
            (s2, more, rest) = encrypt_blocks (ascon_permute8 s1) (drop 16 plaintext)
        in (s2, ciphertext @ more, rest)
      else (s, [], plaintext))"
  by pat_completeness auto
termination
  by (relation "measure (\<lambda>(s, p). length p)") auto

definition encrypt_tail :: "ascon_state \<Rightarrow> bytes \<Rightarrow> ascon_state \<times> bytes" where
  "encrypt_tail s plaintext =
     (let n = length plaintext in
      if n \<ge> 8 then
        let s1 = s\<lparr>x0 := x0 s XOR load_little_endian plaintext 8,
                   x1 := x1 s XOR load_little_endian (drop 8 plaintext) (n - 8)\<rparr>;
            ciphertext = store_little_endian (x0 s1) 8 @ store_little_endian (x1 s1) (n - 8)
        in (s1\<lparr>x1 := x1 s1 XOR push_bit (8 * (n - 8)) 1\<rparr>, ciphertext)
      else
        let s1 = s\<lparr>x0 := x0 s XOR load_little_endian plaintext n\<rparr>;
            ciphertext = store_little_endian (x0 s1) n
        in (s1\<lparr>x0 := x0 s1 XOR push_bit (8 * n) 1\<rparr>, ciphertext))"

definition c0_ascon_aead128_encrypt :: "bytes \<Rightarrow> bytes \<Rightarrow> bytes \<Rightarrow> bytes \<Rightarrow> bytes \<times> bytes" where
  "c0_ascon_aead128_encrypt key nonce associated_data plaintext =
     (let s0 = absorb_associated_data (initialize key nonce) associated_data;
          (s1, c1, rest) = encrypt_blocks s0 plaintext;
          (s2, c2) = encrypt_tail s1 rest
      in (c1 @ c2, finalize_tag s2 key))"

function decrypt_blocks :: "ascon_state \<Rightarrow> bytes \<Rightarrow> ascon_state \<times> bytes \<times> bytes" where
  "decrypt_blocks s ciphertext =
     (if length ciphertext \<ge> 16 then
        let c0 = load_little_endian ciphertext 8;
            c1 = load_little_endian (drop 8 ciphertext) 8;
            plaintext = store_little_endian (x0 s XOR c0) 8 @ store_little_endian (x1 s XOR c1) 8;
            (s2, more, rest) = decrypt_blocks (ascon_permute8 (s\<lparr>x0 := c0, x1 := c1\<rparr>)) (drop 16 ciphertext)
        in (s2, plaintext @ more, rest)
      else (s, [], ciphertext))"
  by pat_completeness auto
termination
  by (relation "measure (\<lambda>(s, p). length p)") auto

declare encrypt_blocks.simps [simp del] decrypt_blocks.simps [simp del]

definition decrypt_tail :: "ascon_state \<Rightarrow> bytes \<Rightarrow> ascon_state \<times> bytes" where
  "decrypt_tail s ciphertext =
     (let n = length ciphertext in
      if n \<ge> 8 then
        let c0 = load_little_endian ciphertext 8;
            c1 = load_little_endian (drop 8 ciphertext) (n - 8);
            plaintext = store_little_endian (x0 s XOR c0) 8 @ store_little_endian (x1 s XOR c1) (n - 8)
        in (s\<lparr>x0 := c0,
              x1 := (clear_low_bytes (x1 s) (n - 8) OR c1) XOR push_bit (8 * (n - 8)) 1\<rparr>, plaintext)
      else
        let c0 = load_little_endian ciphertext n;
            plaintext = store_little_endian (x0 s XOR c0) n
        in (s\<lparr>x0 := (clear_low_bytes (x0 s) n OR c0) XOR push_bit (8 * n) 1\<rparr>, plaintext))"

text \<open>The result of decryption: the status and the contents of the plaintext buffer.\<close>

definition c0_ascon_aead128_decrypt ::
  "bytes \<Rightarrow> bytes \<Rightarrow> bytes \<Rightarrow> bytes \<Rightarrow> bytes \<Rightarrow> status \<times> bytes" where
  "c0_ascon_aead128_decrypt key nonce associated_data ciphertext tag =
     (let s0 = absorb_associated_data (initialize key nonce) associated_data;
          (s1, p1, rest) = decrypt_blocks s0 ciphertext;
          (s2, p2) = decrypt_tail s1 rest;
          expected_tag = finalize_tag s2 key;
          plaintext = p1 @ p2
      in if \<not> c0pqlink_ct_equal expected_tag tag 16
         then (C0PQLINK_ERR_AUTH, c0pqlink_secure_zero plaintext (length ciphertext))
         else (C0PQLINK_OK, plaintext))"

section \<open>Words of the rate\<close>

lemma load_le_word: "n \<le> length bs \<Longrightarrow> load_little_endian bs n = le_word (take n bs)"
proof (induction n)
  case 0
  then show ?case by (simp add: load_little_endian_def)
next
  case (Suc n)
  then have "take (Suc n) bs = take n bs @ [bs ! n]" by (simp add: take_Suc_conv_app_nth)
  with Suc show ?case by (simp add: load_little_endian_def le_word_append)
qed

lemma store_le_bytes: "store_little_endian v n = le_bytes n v"
  by (simp add: store_little_endian_def le_bytes_def)

lemma bit_clear_low_bytes:
  "n \<le> 8 \<Longrightarrow> bit (clear_low_bytes v n) k \<longleftrightarrow> bit v k \<and> 8 * n \<le> k"
proof (induction n)
  case 0
  then show ?case by (simp add: clear_low_bytes_def)
next
  case (Suc n)
  have ff: "(0xff :: u64) = mask 8" by (simp add: mask_eq_exp_minus_1)
  have "clear_low_bytes v (Suc n) = clear_low_bytes v n AND NOT (push_bit (8 * n) (mask 8))"
    by (simp add: clear_low_bytes_def ff)
  with Suc show ?case by (auto simp: bit_simps dest: bit_imp_le_length)
qed

lemmas rate_words = load_le_word store_le_bytes

lemma length_store [simp]: "length (store_little_endian v n) = n"
  by (simp add: store_le_bytes)

text \<open>What a full word and a partial word of the rate carry back.\<close>

lemma le_word_store8 [simp]: "le_word (le_bytes 8 (v :: u64)) = v"
  by (rule le_word_le_bytes) simp

lemma le_bytes_xor_cancel:
  assumes "length p = n" and "n \<le> 8"
  shows "le_bytes n ((v :: u64) XOR le_word (le_bytes n (v XOR le_word p))) = p"
proof -
  have "le_bytes n (v XOR le_word (le_bytes n (v XOR le_word p))) = le_bytes n (le_word p :: u64)"
    using assms by (intro nth_equalityI bit_word_eqI)
      (auto simp: bit_simps bit_le_word div_add1_eq less_diff_conv)
  then show ?thesis using assms by (simp add: le_bytes_le_word)
qed

lemma clear_or_partial:
  assumes "length p = n" and "n \<le> 8"
  shows "clear_low_bytes v n OR le_word (le_bytes n (v XOR le_word p)) = (v XOR le_word p :: u64)"
  using assms by (intro bit_word_eqI)
    (auto simp: bit_simps bit_clear_low_bytes bit_le_word_le_bytes dest: bit_le_word_length)

lemma clear_or_partial':
  assumes "length c = n" and "n \<le> 8"
  shows "v XOR le_word (le_bytes n (v XOR le_word c)) = (clear_low_bytes v n OR le_word c :: u64)"
  using assms by (intro bit_word_eqI)
    (auto simp: bit_simps bit_clear_low_bytes bit_le_word_le_bytes dest: bit_le_word_length)

section \<open>Decryption inverts encryption\<close>

definition encrypt_body :: "ascon_state \<Rightarrow> bytes \<Rightarrow> ascon_state \<times> bytes" where
  "encrypt_body s p =
     (let (s1, c1, rest) = encrypt_blocks s p; (s2, c2) = encrypt_tail s1 rest in (s2, c1 @ c2))"

definition decrypt_body :: "ascon_state \<Rightarrow> bytes \<Rightarrow> ascon_state \<times> bytes" where
  "decrypt_body s c =
     (let (s1, p1, rest) = decrypt_blocks s c; (s2, p2) = decrypt_tail s1 rest in (s2, p1 @ p2))"

text \<open>A first block and the rest, for inputs of at least 16 bytes.\<close>

lemma encrypt_body_block:
  assumes "length a = 8" and "length b = 8"
  shows "encrypt_body s (a @ b @ p) =
    (let y0 = x0 s XOR le_word a; y1 = x1 s XOR le_word b;
         (s', c) = encrypt_body (ascon_permute8 (s\<lparr>x0 := y0, x1 := y1\<rparr>)) p
     in (s', le_bytes 8 y0 @ le_bytes 8 y1 @ c))"
  using assms unfolding encrypt_body_def
  by (subst encrypt_blocks.simps) (simp add: rate_words Let_def case_prod_unfold)

lemma decrypt_body_block:
  assumes "length a = 8" and "length b = 8"
  shows "decrypt_body s (a @ b @ c) =
    (let (s', p) = decrypt_body (ascon_permute8 (s\<lparr>x0 := le_word a, x1 := le_word b\<rparr>)) c
     in (s', le_bytes 8 (x0 s XOR le_word a) @ le_bytes 8 (x1 s XOR le_word b) @ p))"
  using assms unfolding decrypt_body_def
  by (subst decrypt_blocks.simps) (simp add: rate_words Let_def case_prod_unfold)

lemma encrypt_body_tail: "length p < 16 \<Longrightarrow> encrypt_body s p = encrypt_tail s p"
  unfolding encrypt_body_def by (subst encrypt_blocks.simps) (simp add: case_prod_unfold)

lemma decrypt_body_tail: "length c < 16 \<Longrightarrow> decrypt_body s c = decrypt_tail s c"
  unfolding decrypt_body_def by (subst decrypt_blocks.simps) (simp add: case_prod_unfold)

text \<open>The two directions of a word: the ciphertext word is \<open>x XOR p\<close> exactly when the
  plaintext word is \<open>x XOR c\<close>.\<close>

lemma le_bytes_xor_swap:
  assumes "length p = n" and "length c = n" and "n \<le> 8"
  shows "le_bytes n ((v :: u64) XOR le_word p) = c \<longleftrightarrow> le_bytes n (v XOR le_word c) = p"
  using le_bytes_xor_cancel [OF assms(1,3), of v] le_bytes_xor_cancel [OF assms(2,3), of v] by metis

lemma le_word_full_swap: "le_bytes 8 (v :: u64) = c \<Longrightarrow> le_word c = v"
  by (metis le_word_store8)

lemma encrypt_tail_decrypt_tail:
  assumes "length p = length c" and "length p < 16"
  shows "encrypt_tail s p = (s', c) \<longleftrightarrow> decrypt_tail s c = (s', p)"
proof (cases "length p < 8")
  case True
  let ?n = "length p"
  have E: "encrypt_tail s p = (s\<lparr>x0 := (x0 s XOR le_word p) XOR push_bit (8 * ?n) 1\<rparr>,
      le_bytes ?n (x0 s XOR le_word p))"
    using True by (simp add: encrypt_tail_def rate_words Let_def)
  have D: "decrypt_tail s c = (s\<lparr>x0 := (clear_low_bytes (x0 s) ?n OR le_word c) XOR push_bit (8 * ?n) 1\<rparr>,
      le_bytes ?n (x0 s XOR le_word c))"
    using True assms by (simp add: decrypt_tail_def rate_words Let_def)
  have swap: "le_bytes ?n (x0 s XOR le_word p) = c \<longleftrightarrow> le_bytes ?n (x0 s XOR le_word c) = p"
    by (rule le_bytes_xor_swap) (use True assms in simp_all)
  show ?thesis
    unfolding E D prod.inject swap using clear_or_partial [of p ?n "x0 s"] swap True by (metis less_imp_le)
next
  case False
  define a b where "a = take 8 p" and "b = drop 8 p"
  define c0 c1 where "c0 = take 8 c" and "c1 = drop 8 c"
  let ?n = "length p - 8"
  have len: "length a = 8" "length b = ?n" "length c0 = 8" "length c1 = ?n" "?n \<le> 8"
    using False assms by (simp_all add: a_def b_def c0_def c1_def)
  have p: "p = a @ b" and c: "c = c0 @ c1" by (simp_all add: a_def b_def c0_def c1_def)
  have E: "encrypt_tail s p = (s\<lparr>x0 := x0 s XOR le_word a, x1 := (x1 s XOR le_word b) XOR push_bit (8 * ?n) 1\<rparr>,
      le_bytes 8 (x0 s XOR le_word a) @ le_bytes ?n (x1 s XOR le_word b))"
    using False len by (simp add: encrypt_tail_def rate_words Let_def a_def b_def)
  have D: "decrypt_tail s c = (s\<lparr>x0 := le_word c0, x1 := (clear_low_bytes (x1 s) ?n OR le_word c1) XOR push_bit (8 * ?n) 1\<rparr>,
      le_bytes 8 (x0 s XOR le_word c0) @ le_bytes ?n (x1 s XOR le_word c1))"
    using False len assms(1) by (simp add: decrypt_tail_def rate_words Let_def c0_def c1_def)
  have s0: "le_bytes 8 (x0 s XOR le_word a) = c0 \<longleftrightarrow> le_bytes 8 (x0 s XOR le_word c0) = a"
    and s1: "le_bytes ?n (x1 s XOR le_word b) = c1 \<longleftrightarrow> le_bytes ?n (x1 s XOR le_word c1) = b"
    by (rule le_bytes_xor_swap; use len in simp)+
  have w0: "le_bytes 8 (x0 s XOR le_word a) = c0 \<Longrightarrow> le_word c0 = x0 s XOR le_word a"
    by (rule le_word_full_swap)
  have c1: "le_bytes ?n (x1 s XOR le_word b) = c1 \<Longrightarrow> clear_low_bytes (x1 s) ?n OR le_word c1 = x1 s XOR le_word b"
    using clear_or_partial [of b ?n "x1 s"] len by auto
  have "encrypt_tail s p = (s', c) \<longleftrightarrow>
      (s\<lparr>x0 := x0 s XOR le_word a, x1 := (x1 s XOR le_word b) XOR push_bit (8 * ?n) 1\<rparr> = s' \<and>
       le_bytes 8 (x0 s XOR le_word a) = c0 \<and> le_bytes ?n (x1 s XOR le_word b) = c1)"
    unfolding E c using len by (simp add: append_eq_append_conv)
  also have "\<dots> \<longleftrightarrow>
      (s\<lparr>x0 := le_word c0, x1 := (clear_low_bytes (x1 s) ?n OR le_word c1) XOR push_bit (8 * ?n) 1\<rparr> = s' \<and>
       le_bytes 8 (x0 s XOR le_word c0) = a \<and> le_bytes ?n (x1 s XOR le_word c1) = b)"
    unfolding s0 [symmetric] s1 [symmetric] using w0 c1 by (intro iffI; elim conjE; simp)
  also have "\<dots> \<longleftrightarrow> decrypt_tail s c = (s', p)"
    unfolding D using len by (simp add: p append_eq_append_conv)
  finally show ?thesis .
qed

lemma encrypt_decrypt_body:
  "length p = length c \<Longrightarrow> encrypt_body s p = (s', c) \<longleftrightarrow> decrypt_body s c = (s', p)"
proof (induction "length p" arbitrary: p c s rule: less_induct)
  case less
  show ?case
  proof (cases "length p < 16")
    case True
    with less.prems show ?thesis
      by (simp add: encrypt_body_tail decrypt_body_tail encrypt_tail_decrypt_tail)
  next
    case False
    obtain a b p' where p: "p = a @ b @ p'" and ab: "length a = 8" "length b = 8"
      using False by (intro that [of "take 8 p" "take 8 (drop 8 p)" "drop 16 p"]) (simp_all add: take_add [symmetric] flip: append_assoc)
    obtain a' b' c' where c: "c = a' @ b' @ c'" and ab': "length a' = 8" "length b' = 8"
      using False less.prems
      by (intro that [of "take 8 c" "take 8 (drop 8 c)" "drop 16 c"]) (simp_all add: take_add [symmetric] flip: append_assoc)
    have len: "length p' = length c'" "length p' < length p" using less.prems ab ab' by (simp_all add: p c)
    let ?y0 = "x0 s XOR le_word a" and ?y1 = "x1 s XOR le_word b"
    have "encrypt_body s p = (s', c) \<longleftrightarrow> le_bytes 8 ?y0 = a' \<and> le_bytes 8 ?y1 = b' \<and>
        encrypt_body (ascon_permute8 (s\<lparr>x0 := ?y0, x1 := ?y1\<rparr>)) p' = (s', c')"
      using ab ab' by (auto simp: p c encrypt_body_block Let_def case_prod_unfold prod_eq_iff)
    also have "\<dots> \<longleftrightarrow> le_bytes 8 ?y0 = a' \<and> le_bytes 8 ?y1 = b' \<and>
        decrypt_body (ascon_permute8 (s\<lparr>x0 := le_word a', x1 := le_word b'\<rparr>)) c' = (s', p')"
      using le_word_full_swap [of ?y0 a'] le_word_full_swap [of ?y1 b'] less.hyps [OF len(2,1)]
      by (intro conj_cong refl) simp
    also have "\<dots> \<longleftrightarrow> le_bytes 8 (x0 s XOR le_word a') = a \<and> le_bytes 8 (x1 s XOR le_word b') = b \<and>
        decrypt_body (ascon_permute8 (s\<lparr>x0 := le_word a', x1 := le_word b'\<rparr>)) c' = (s', p')"
      using le_bytes_xor_swap [of a 8 a' "x0 s"] le_bytes_xor_swap [of b 8 b' "x1 s"] ab ab' by simp
    also have "\<dots> \<longleftrightarrow> decrypt_body s c = (s', p)"
      using ab ab' by (auto simp: p c decrypt_body_block Let_def case_prod_unfold prod_eq_iff)
    finally show ?thesis .
  qed
qed

section \<open>The contract of authenticated encryption\<close>

lemma encrypt_unfold:
  "c0_ascon_aead128_encrypt k n a p =
     (let (s, c) = encrypt_body (absorb_associated_data (initialize k n) a) p in (c, finalize_tag s k))"
  by (simp add: c0_ascon_aead128_encrypt_def encrypt_body_def Let_def case_prod_unfold)

lemma decrypt_unfold:
  "c0_ascon_aead128_decrypt k n a c t =
     (let (s, p) = decrypt_body (absorb_associated_data (initialize k n) a) c
      in if \<not> c0pqlink_ct_equal (finalize_tag s k) t 16
         then (C0PQLINK_ERR_AUTH, c0pqlink_secure_zero p (length c))
         else (C0PQLINK_OK, p))"
  by (simp add: c0_ascon_aead128_decrypt_def decrypt_body_def Let_def case_prod_unfold)

lemma length_finalize_tag [simp]: "length (finalize_tag s k) = 16"
  by (simp add: finalize_tag_def Let_def)

lemma length_decrypt_body [simp]: "length (snd (decrypt_body s c)) = length c"
proof (induction "length c" arbitrary: c s rule: less_induct)
  case less
  show ?case
  proof (cases "length c < 16")
    case True
    then show ?thesis by (simp add: decrypt_body_tail decrypt_tail_def Let_def)
  next
    case False
    obtain a b c' where c: "c = a @ b @ c'" and ab: "length a = 8" "length b = 8"
      using False by (intro that [of "take 8 c" "take 8 (drop 8 c)" "drop 16 c"])
        (simp_all add: take_add [symmetric] flip: append_assoc)
    then show ?thesis
      using less.hyps [of c'] by (simp add: c decrypt_body_block Let_def case_prod_unfold)
  qed
qed

lemma length_encrypt_body [simp]: "length (snd (encrypt_body s p)) = length p"
proof (induction "length p" arbitrary: p s rule: less_induct)
  case less
  show ?case
  proof (cases "length p < 16")
    case True
    then show ?thesis by (simp add: encrypt_body_tail encrypt_tail_def Let_def)
  next
    case False
    obtain a b p' where p: "p = a @ b @ p'" and ab: "length a = 8" "length b = 8"
      using False by (intro that [of "take 8 p" "take 8 (drop 8 p)" "drop 16 p"])
        (simp_all add: take_add [symmetric] flip: append_assoc)
    then show ?thesis
      using less.hyps [of p'] by (simp add: p encrypt_body_block Let_def case_prod_unfold)
  qed
qed

lemma decrypt_ok_iff:
  assumes "length t = 16"
  shows "c0_ascon_aead128_decrypt k n a c t = (C0PQLINK_OK, p)
     \<longleftrightarrow> c0_ascon_aead128_encrypt k n a p = (c, t)"
proof -
  let ?s = "absorb_associated_data (initialize k n) a"
  obtain s q where D: "decrypt_body ?s c = (s, q)" by fastforce
  have q: "length q = length c" using length_decrypt_body [of ?s c] by (simp add: D)
  then have E: "encrypt_body ?s q = (s, c)" using D by (simp add: encrypt_decrypt_body)
  have "c0_ascon_aead128_decrypt k n a c t = (C0PQLINK_OK, p) \<longleftrightarrow> p = q \<and> finalize_tag s k = t"
    using assms by (auto simp: decrypt_unfold D)
  also have "\<dots> \<longleftrightarrow> c0_ascon_aead128_encrypt k n a p = (c, t)"
  proof
    assume "p = q \<and> finalize_tag s k = t"
    then show "c0_ascon_aead128_encrypt k n a p = (c, t)" by (simp add: encrypt_unfold E)
  next
    assume enc: "c0_ascon_aead128_encrypt k n a p = (c, t)"
    obtain s' where E': "encrypt_body ?s p = (s', c)" and t: "finalize_tag s' k = t"
      using enc by (auto simp: encrypt_unfold Let_def split: prod.splits)
    have "length p = length c" using length_encrypt_body [of ?s p] by (simp add: E')
    then have "decrypt_body ?s c = (s', p)" using E' by (simp add: encrypt_decrypt_body)
    with D t show "p = q \<and> finalize_tag s k = t" by simp
  qed
  finally show ?thesis .
qed

lemma length_encrypt:
  "c0_ascon_aead128_encrypt k n a p = (c, t) \<Longrightarrow> length c = length p \<and> length t = 16"
  using length_encrypt_body [of "absorb_associated_data (initialize k n) a" p]
  by (auto simp: encrypt_unfold Let_def case_prod_unfold)

lemma decrypt_reject:
  assumes "length t = 16" and "fst (c0_ascon_aead128_decrypt k n a c t) \<noteq> C0PQLINK_OK"
  shows "c0_ascon_aead128_decrypt k n a c t = (C0PQLINK_ERR_AUTH, replicate (length c) 0)"
proof -
  obtain s q where D: "decrypt_body (absorb_associated_data (initialize k n) a) c = (s, q)" by fastforce
  then have "length q = length c" using length_decrypt_body by (metis snd_conv)
  with assms D show ?thesis by (auto simp: decrypt_unfold split: if_splits)
qed

interpretation ascon: aead c0_ascon_aead128_encrypt c0_ascon_aead128_decrypt 16
  by unfold_locales (fact length_encrypt decrypt_ok_iff decrypt_reject)+

section \<open>The description of SP 800-232\<close>

text \<open>The 5-bit S-box as its table; the word \<open>x0\<close> holds the most significant bit of a column.\<close>

definition spec_ascon_sbox :: "nat list" where
  "spec_ascon_sbox = [4, 11, 31, 20, 26, 21, 9, 2, 27, 5, 8, 18, 29, 3, 6, 28,
                30, 19, 7, 14, 0, 13, 17, 24, 16, 12, 1, 25, 22, 10, 15, 23]"

definition column :: "ascon_state \<Rightarrow> nat \<Rightarrow> nat" where
  "column s k = 16 * of_bool (bit (x0 s) k) + 8 * of_bool (bit (x1 s) k)
     + 4 * of_bool (bit (x2 s) k) + 2 * of_bool (bit (x3 s) k) + of_bool (bit (x4 s) k)"

definition spec_plane :: "ascon_state \<Rightarrow> nat \<Rightarrow> u64" where
  "spec_plane s b = horner_sum of_bool 2 (map (\<lambda>k. odd (spec_ascon_sbox ! column s k div 2 ^ b)) [0..<64])"

definition spec_ascon_round :: "u8 \<Rightarrow> ascon_state \<Rightarrow> ascon_state" where
  "spec_ascon_round c s =
     (let s1 = s\<lparr>x2 := x2 s XOR ucast c\<rparr>;
          y0 = spec_plane s1 4; y1 = spec_plane s1 3; y2 = spec_plane s1 2;
          y3 = spec_plane s1 1; y4 = spec_plane s1 0
      in \<lparr>x0 = y0 XOR word_rotr 19 y0 XOR word_rotr 28 y0,
          x1 = y1 XOR word_rotr 61 y1 XOR word_rotr 39 y1,
          x2 = y2 XOR word_rotr 1 y2 XOR word_rotr 6 y2,
          x3 = y3 XOR word_rotr 10 y3 XOR word_rotr 17 y3,
          x4 = y4 XOR word_rotr 7 y4 XOR word_rotr 41 y4\<rparr>)"

lemma rotate_right64_rotr: "0 < n \<Longrightarrow> n < 64 \<Longrightarrow> rotate_right64 v n = word_rotr n v"
  using rotr_shifts [of n v] by (simp add: rotate_right64_def)

lemma bit_spec_plane: "k < 64 \<Longrightarrow> bit (spec_plane s b) k \<longleftrightarrow> odd (spec_ascon_sbox ! column s k div 2 ^ b)"
  by (simp add: spec_plane_def bit_horner_sum_bit_word_iff)

text \<open>Each bit position of the code's boolean formulas is one entry of the table.\<close>

lemma sbox_entry:
  defines "v a b c d e \<equiv> spec_ascon_sbox ! (16 * of_bool a + 8 * of_bool b + 4 * of_bool c + 2 * of_bool d + of_bool e)"
  shows "odd (v a b c d e div 2 ^ 4) \<longleftrightarrow> (((a \<noteq> e) \<noteq> (\<not> b \<and> (c \<noteq> b))) \<noteq> ((e \<noteq> d) \<noteq> (\<not> (a \<noteq> e) \<and> b)))"
    and "odd (v a b c d e div 2 ^ 3) \<longleftrightarrow> ((b \<noteq> (\<not> (c \<noteq> b) \<and> d)) \<noteq> ((a \<noteq> e) \<noteq> (\<not> b \<and> (c \<noteq> b))))"
    and "odd (v a b c d e div 2 ^ 2) \<longleftrightarrow> \<not> ((c \<noteq> b) \<noteq> (\<not> d \<and> (e \<noteq> d)))"
    and "odd (v a b c d e div 2 ^ 1) \<longleftrightarrow> ((d \<noteq> (\<not> (e \<noteq> d) \<and> (a \<noteq> e))) \<noteq> ((c \<noteq> b) \<noteq> (\<not> d \<and> (e \<noteq> d))))"
    and "odd (v a b c d e div 2 ^ 0) \<longleftrightarrow> ((e \<noteq> d) \<noteq> (\<not> (a \<noteq> e) \<and> b))"
  unfolding v_def spec_ascon_sbox_def by (cases a; cases b; cases c; cases d; cases e; simp)+

lemma substitution_planes:
  fixes s :: ascon_state
  defines "a0 \<equiv> x0 s XOR x4 s" and "a4 \<equiv> x4 s XOR x3 s" and "b2 \<equiv> x2 s XOR x1 s"
  defines "t0 \<equiv> a0 XOR (NOT (x1 s) AND b2)" and "t1 \<equiv> x1 s XOR (NOT b2 AND x3 s)"
    and "t2 \<equiv> b2 XOR (NOT (x3 s) AND a4)" and "t3 \<equiv> x3 s XOR (NOT a4 AND a0)"
    and "t4 \<equiv> a4 XOR (NOT a0 AND x1 s)"
  shows "spec_plane s 4 = t0 XOR t4" and "spec_plane s 3 = t1 XOR t0" and "spec_plane s 2 = NOT t2"
    and "spec_plane s 1 = t3 XOR t2" and "spec_plane s 0 = t4"
  unfolding t0_def t1_def t2_def t3_def t4_def a0_def a4_def b2_def
  by (rule bit_word_eqI, simp only: len_bit0 len_num1 bit_spec_plane column_def sbox_entry bit_simps,
      simp)+

lemma ascon_round_spec: "ascon_round c s = spec_ascon_round c s"
  using substitution_planes [of "s\<lparr>x2 := x2 s XOR ucast c\<rparr>"]
  by (simp add: ascon_round_def spec_ascon_round_def Let_def rotate_right64_rotr)

definition spec_ascon_constants :: "u8 list" where
  "spec_ascon_constants =
     [0xf0, 0xe1, 0xd2, 0xc3, 0xb4, 0xa5, 0x96, 0x87, 0x78, 0x69, 0x5a, 0x4b]"

definition spec_ascon_p :: "nat \<Rightarrow> ascon_state \<Rightarrow> ascon_state" where
  "spec_ascon_p rnd s = fold spec_ascon_round (drop (12 - rnd) spec_ascon_constants) s"

lemma upt_12: "[0..<12] = [0, 1, 2, 3, 4, 5, 6, 7, 8, 9, 10, 11 :: nat]"
  by (simp add: upt_rec)

lemma ascon_permute12_spec: "ascon_permute12 s = spec_ascon_p 12 s"
  by (simp add: ascon_permute12_def spec_ascon_p_def spec_ascon_constants_def upt_12
      push_bit_eq_mult ascon_round_spec)

lemma ascon_permute8_spec: "ascon_permute8 s = spec_ascon_p 8 s"
  by (simp add: ascon_permute8_def spec_ascon_p_def spec_ascon_constants_def upt_8
      push_bit_eq_mult ascon_round_spec Let_def)

text \<open>The padded input, the absorption of its 16-byte blocks, and the duplex that also outputs
  the rate after each block; the last block is not followed by a permutation.\<close>

definition spec_pad16 :: "bytes \<Rightarrow> bytes" where
  "spec_pad16 m = m @ [1] @ replicate (15 - length m mod 16) 0"

definition spec_xor_rate :: "ascon_state \<Rightarrow> bytes \<Rightarrow> ascon_state" where
  "spec_xor_rate s blk =
     s\<lparr>x0 := x0 s XOR le_word (slice blk 0 8), x1 := x1 s XOR le_word (slice blk 8 8)\<rparr>"

definition spec_rate :: "ascon_state \<Rightarrow> bytes" where
  "spec_rate s = le_bytes 8 (x0 s) @ le_bytes 8 (x1 s)"

function spec_duplex :: "ascon_state \<Rightarrow> bytes \<Rightarrow> ascon_state \<times> bytes" where
  "spec_duplex s m =
     (let s1 = spec_xor_rate s (take 16 m) in
      if length m > 16
      then let (s2, out) = spec_duplex (spec_ascon_p 8 s1) (drop 16 m) in (s2, spec_rate s1 @ out)
      else (s1, spec_rate s1))"
  by pat_completeness auto
termination
  by (relation "measure (\<lambda>(s, m). length m)") auto

declare spec_duplex.simps [simp del]

definition spec_ascon_init :: "bytes \<Rightarrow> bytes \<Rightarrow> ascon_state" where
  "spec_ascon_init key nonce =
     (let k0 = le_word (slice key 0 8); k1 = le_word (slice key 8 8);
          s = spec_ascon_p 12 \<lparr>x0 = 0x00001000808c0001, x1 = k0, x2 = k1,
                x3 = le_word (slice nonce 0 8), x4 = le_word (slice nonce 8 8)\<rparr>
      in s\<lparr>x3 := x3 s XOR k0, x4 := x4 s XOR k1\<rparr>)"

definition spec_ascon_ad :: "ascon_state \<Rightarrow> bytes \<Rightarrow> ascon_state" where
  "spec_ascon_ad s ad =
     (let s' = (if ad = [] then s else spec_ascon_p 8 (fst (spec_duplex s (spec_pad16 ad))))
      in s'\<lparr>x4 := x4 s' XOR push_bit 63 1\<rparr>)"

definition spec_ascon_tag :: "ascon_state \<Rightarrow> bytes \<Rightarrow> bytes" where
  "spec_ascon_tag s key =
     (let k0 = le_word (slice key 0 8); k1 = le_word (slice key 8 8);
          s' = spec_ascon_p 12 (s\<lparr>x2 := x2 s XOR k0, x3 := x3 s XOR k1\<rparr>)
      in le_bytes 8 (x3 s' XOR k0) @ le_bytes 8 (x4 s' XOR k1))"

definition spec_ascon_encrypt :: "bytes \<Rightarrow> bytes \<Rightarrow> bytes \<Rightarrow> bytes \<Rightarrow> bytes \<times> bytes" where
  "spec_ascon_encrypt key nonce ad p =
     (let (s, out) = spec_duplex (spec_ascon_ad (spec_ascon_init key nonce) ad) (spec_pad16 p)
      in (take (length p) out, spec_ascon_tag s key))"

section \<open>Encryption is the standard's\<close>

lemma le_word_replicate0 [simp]: "le_word (replicate n 0) = 0"
  by (induction n) simp_all

lemma le_word_marker:
  assumes "n = length p" and "n < 8"
  shows "le_word (p @ 1 # replicate m 0) = (le_word p XOR push_bit (8 * n) 1 :: u64)"
  using assms unfolding le_word_append
  by (intro bit_word_eqI) (auto simp: bit_simps dest: bit_le_word_length)

lemma pad16_block: "length b = 16 \<Longrightarrow> spec_pad16 (b @ m) = b @ spec_pad16 m"
  by (simp add: spec_pad16_def)

lemma length_pad16_pos: "0 < length (spec_pad16 m)"
  by (simp add: spec_pad16_def)

lemma duplex_block:
  "length b = 16 \<Longrightarrow> m \<noteq> [] \<Longrightarrow> spec_duplex s (b @ m) =
     (let (s', out) = spec_duplex (spec_ascon_p 8 (spec_xor_rate s b)) m
      in (s', spec_rate (spec_xor_rate s b) @ out))"
  by (subst spec_duplex.simps) (simp add: Let_def)

lemma duplex_last:
  "length m = 16 \<Longrightarrow> spec_duplex s m = (spec_xor_rate s m, spec_rate (spec_xor_rate s m))"
  by (subst spec_duplex.simps) (simp add: Let_def)

text \<open>The tail of the code's loops: the rate with the partial input and the marker byte.\<close>

definition tail_state :: "ascon_state \<Rightarrow> bytes \<Rightarrow> ascon_state" where
  "tail_state s p =
     (let n = length p in
      if n \<ge> 8
      then s\<lparr>x0 := x0 s XOR le_word (take 8 p), x1 := x1 s XOR le_word (drop 8 p) XOR push_bit (8 * (n - 8)) 1\<rparr>
      else s\<lparr>x0 := x0 s XOR le_word p XOR push_bit (8 * n) 1\<rparr>)"

lemma tail_state_rate: "length p < 16 \<Longrightarrow> tail_state s p = spec_xor_rate s (spec_pad16 p)"
proof (cases "length p < 8")
  case True
  assume "length p < 16"
  have "slice (spec_pad16 p) 0 8 = p @ 1 # replicate (7 - length p) 0"
    and "slice (spec_pad16 p) 8 8 = replicate 8 0"
    using True by (simp_all add: spec_pad16_def slice_def take_Cons' drop_Cons')
  with True show ?thesis
    by (simp add: tail_state_def spec_xor_rate_def Let_def le_word_marker xor.assoc)
next
  case False
  assume "length p < 16"
  with False have "slice (spec_pad16 p) 0 8 = take 8 p"
    and "slice (spec_pad16 p) 8 8 = drop 8 p @ 1 # replicate (15 - length p) 0"
    by (simp_all add: spec_pad16_def slice_def)
  with False \<open>length p < 16\<close> show ?thesis
    by (simp add: tail_state_def spec_xor_rate_def Let_def le_word_marker [of "length p - 8"] xor.assoc)
qed

lemma take_le_bytes_marker:
  assumes "n < 8"
  shows "take n (le_bytes 8 ((v :: u64) XOR w XOR 2 ^ (8 * n))) = le_bytes n (v XOR w)"
  using assms by (intro nth_equalityI bit_word_eqI) (auto simp: bit_simps)

lemma encrypt_tail_rate:
  "length p < 16 \<Longrightarrow>
   encrypt_tail s p = (tail_state s p, take (length p) (spec_rate (tail_state s p)))"
proof (cases "length p < 8")
  case True
  then show ?thesis
    by (simp add: encrypt_tail_def tail_state_def spec_rate_def rate_words Let_def take_le_bytes_marker xor.assoc)
next
  case False
  assume "length p < 16"
  then have "length p - 8 < 8" by simp
  with False show ?thesis
    by (simp add: encrypt_tail_def tail_state_def spec_rate_def rate_words Let_def take_le_bytes_marker xor.assoc)
qed

lemma length_pad16_short: "length p < 16 \<Longrightarrow> length (spec_pad16 p) = 16"
  by (simp add: spec_pad16_def)

lemma xor_rate_words:
  "length a = 8 \<Longrightarrow> length b = 8 \<Longrightarrow>
   spec_xor_rate s (a @ b) = s\<lparr>x0 := x0 s XOR le_word a, x1 := x1 s XOR le_word b\<rparr>"
  by (simp add: spec_xor_rate_def slice_def)

lemma split_block:
  assumes "\<not> length p < 16"
  obtains a b p' where "p = a @ b @ p'" and "length a = 8" and "length b = (8 :: nat)"
  using assms by (intro that [of "take 8 p" "take 8 (drop 8 p)" "drop 16 p"])
    (simp_all add: take_add [symmetric] flip: append_assoc)

lemma encrypt_body_duplex:
  "encrypt_body s p = (let (s', out) = spec_duplex s (spec_pad16 p) in (s', take (length p) out))"
proof (induction "length p" arbitrary: p s rule: less_induct)
  case less
  show ?case
  proof (cases "length p < 16")
    case True
    then show ?thesis
      by (simp add: encrypt_body_tail encrypt_tail_rate duplex_last length_pad16_short tail_state_rate)
  next
    case False
    then obtain a b p' where p: "p = a @ b @ p'" and ab: "length a = 8" "length b = 8"
      by (rule split_block)
    have "spec_pad16 p = (a @ b) @ spec_pad16 p'" using ab pad16_block [of "a @ b" p'] by (simp add: p)
    moreover have "spec_pad16 p' \<noteq> []" by (simp add: spec_pad16_def)
    ultimately have "spec_duplex s (spec_pad16 p) =
        (let (s', out) = spec_duplex (spec_ascon_p 8 (spec_xor_rate s (a @ b))) (spec_pad16 p')
         in (s', spec_rate (spec_xor_rate s (a @ b)) @ out))"
      using ab duplex_block [of "a @ b"] by simp
    with less.hyps [of p'] show ?thesis using ab
      by (simp add: p encrypt_body_block Let_def case_prod_unfold xor_rate_words ascon_permute8_spec spec_rate_def)
  qed
qed

definition absorb_tail :: "ascon_state \<times> bytes \<Rightarrow> ascon_state" where
  "absorb_tail = (\<lambda>(s1, rest). tail_state s1 rest)"

lemma absorb_blocks_duplex:
  "absorb_tail (absorb_full_blocks s p) = fst (spec_duplex s (spec_pad16 p))"
proof (induction "length p" arbitrary: p s rule: less_induct)
  case less
  show ?case
  proof (cases "length p < 16")
    case True
    then show ?thesis
      by (subst absorb_full_blocks.simps) (simp add: absorb_tail_def duplex_last length_pad16_short tail_state_rate)
  next
    case False
    then obtain a b p' where p: "p = a @ b @ p'" and ab: "length a = 8" "length b = 8"
      by (rule split_block)
    have "spec_pad16 p = (a @ b) @ spec_pad16 p'" using ab pad16_block [of "a @ b" p'] by (simp add: p)
    moreover have "spec_pad16 p' \<noteq> []" by (simp add: spec_pad16_def)
    ultimately have "fst (spec_duplex s (spec_pad16 p)) =
        fst (spec_duplex (spec_ascon_p 8 (spec_xor_rate s (a @ b))) (spec_pad16 p'))"
      using ab duplex_block [of "a @ b"] by (simp add: Let_def case_prod_unfold)
    with less.hyps [of p'] show ?thesis using ab
      by (subst absorb_full_blocks.simps) (simp add: p rate_words xor_rate_words ascon_permute8_spec)
  qed
qed

lemma length_absorb_rest: "length (snd (absorb_full_blocks s p)) < 16"
  by (induction s p rule: absorb_full_blocks.induct)
    (subst absorb_full_blocks.simps, simp)

lemma absorb_associated_data_spec: "absorb_associated_data s ad = spec_ascon_ad s ad"
proof -
  obtain s1 rest where a: "absorb_full_blocks s ad = (s1, rest)" by fastforce
  have "absorb_tail (s1, rest) = fst (spec_duplex s (spec_pad16 ad))"
    using absorb_blocks_duplex [of s ad] by (simp add: a)
  moreover have "(if length rest \<ge> 8
      then s1\<lparr>x0 := x0 s1 XOR load_little_endian rest 8,
              x1 := x1 s1 XOR load_little_endian (drop 8 rest) (length rest - 8)
                      XOR push_bit (8 * (length rest - 8)) 1\<rparr>
      else s1\<lparr>x0 := x0 s1 XOR load_little_endian rest (length rest) XOR push_bit (8 * length rest) 1\<rparr>)
      = absorb_tail (s1, rest)"
    by (simp add: absorb_tail_def tail_state_def rate_words Let_def)
  ultimately show ?thesis
    unfolding absorb_associated_data_def spec_ascon_ad_def a Let_def
    by (simp add: ascon_permute8_spec)
qed

lemma initialize_spec:
  "length key = 16 \<Longrightarrow> length nonce = 16 \<Longrightarrow> initialize key nonce = spec_ascon_init key nonce"
  by (simp add: initialize_def spec_ascon_init_def rate_words slice_def Let_def ascon_permute12_spec)

lemma finalize_tag_spec: "length key = 16 \<Longrightarrow> finalize_tag s key = spec_ascon_tag s key"
  by (simp add: finalize_tag_def spec_ascon_tag_def rate_words slice_def Let_def ascon_permute12_spec)

lemma encrypt_spec:
  "length key = 16 \<Longrightarrow> length nonce = 16 \<Longrightarrow>
   c0_ascon_aead128_encrypt key nonce ad p = spec_ascon_encrypt key nonce ad p"
  by (simp add: encrypt_unfold spec_ascon_encrypt_def encrypt_body_duplex Let_def case_prod_unfold
      absorb_associated_data_spec initialize_spec finalize_tag_spec)

section \<open>Properties\<close>

text \<open>C33: encryption is Ascon-AEAD128 of NIST SP 800-232: the bitsliced round is the constant
  addition, the 5-bit S-box on all 64 columns and the linear layer, the constants of both
  permutations are the standard's, and the three-case handling of the last partial block is
  padding with a one byte and zeros.\<close>

theorem ascon_encrypt_standard:
  assumes "length key = 16" and "length nonce = 16"
  shows "c0_ascon_aead128_encrypt key nonce ad p = spec_ascon_encrypt key nonce ad p"
  using assms by (rule encrypt_spec)

theorem ascon_encrypt_standard_witness:
  "c0_ascon_aead128_encrypt (replicate 16 1) (replicate 16 2) [3] (replicate 20 4)
     = spec_ascon_encrypt (replicate 16 1) (replicate 16 2) [3] (replicate 20 4)"
  by (rule ascon_encrypt_standard) simp_all

text \<open>C34: decryption accepts a ciphertext and tag, with plaintext \<open>p\<close>, exactly when encrypting
  \<open>p\<close> under the same key, nonce and associated data gives that ciphertext and tag; in every
  other case it returns \<open>C0PQLINK_ERR_AUTH\<close> and the plaintext buffer holds only zeros, so no
  unauthenticated plaintext is released.\<close>

theorem ascon_decrypt_exact:
  assumes "length t = 16"
  shows "(c0_ascon_aead128_decrypt k n a c t = (C0PQLINK_OK, p)
            \<longleftrightarrow> c0_ascon_aead128_encrypt k n a p = (c, t)) \<and>
         (c0_ascon_aead128_decrypt k n a c t = (C0PQLINK_ERR_AUTH, replicate (length c) 0) \<or>
          (\<exists>q. length q = length c \<and> c0_ascon_aead128_decrypt k n a c t = (C0PQLINK_OK, q)))"
  using ascon.decrypt_accepts [OF assms]
  by (cases rule: ascon.decrypt_cases [OF assms, of k n a c]) auto

theorem ascon_decrypt_exact_witness:
  "c0_ascon_aead128_decrypt [] [] [] (fst (c0_ascon_aead128_encrypt [] [] [] [1, 2]))
     (snd (c0_ascon_aead128_encrypt [] [] [] [1, 2])) = (C0PQLINK_OK, [1, 2])"
  using ascon_decrypt_exact [of "snd (c0_ascon_aead128_encrypt [] [] [] [1, 2])" "[]" "[]" "[]"
      "fst (c0_ascon_aead128_encrypt [] [] [] [1, 2])" "[1, 2]"] by simp

end
