(* ===== verification/Records.thy ===== *)
theory Records
  imports ClientState Ascon
begin

text \<open>
  \<open>session/ratchet.c\<close>: the symmetric ratchet, the record nonce, and sealing and opening of
  protected records. The theory shows exactly which frames \<open>open\<close> accepts and how each
  operation moves the state, and derives from it the security-relevant behaviour: a rejected frame
  leaves the client unchanged, an accepted frame is never accepted again, sealed frames are not
  accepted by the client that sealed them, and no nonce is used twice.
\<close>

unbundle bit_operations_syntax

section \<open>The ratchet and the nonce\<close>

definition c0pq_ratchet_step :: "bytes \<Rightarrow> bytes \<times> bytes" where
  "c0pq_ratchet_step chain_key =
     (let digest = c0_hmac_sha256 (take 32 chain_key) (text_bytes ''C0PQ/1 ratchet message'');
          message_key = take 16 digest;
          next_chain_key = c0_hmac_sha256 (take 32 chain_key) (text_bytes ''C0PQ/1 ratchet next'')
      in (message_key, next_chain_key))"

definition c0pq_make_record_nonce :: "bytes \<Rightarrow> u64 \<Rightarrow> bytes" where
  "c0pq_make_record_nonce base sequence =
     (let encoded = c0pq_store64_be sequence
      in fold (\<lambda>i nonce. nonce[8 + i := nonce ! (8 + i) XOR encoded ! i]) [0..<8] (take 16 base))"

definition select_send_key :: "'w c0pq_client \<Rightarrow> bytes \<times> bytes" where
  "select_send_key client =
     (if mode (config client) = C0PQ_PQ_BOOTSTRAP_RATCHET then c0pq_ratchet_step (send_secret client)
      else (take 16 (send_secret client), replicate 32 0))"

definition select_receive_key :: "'w c0pq_client \<Rightarrow> bytes \<times> bytes" where
  "select_receive_key client =
     (if mode (config client) = C0PQ_PQ_BOOTSTRAP_RATCHET then c0pq_ratchet_step (receive_secret client)
      else (take 16 (receive_secret client), replicate 32 0))"

section \<open>Sealing\<close>

text \<open>The result is the status with the client, the frame buffer and the reported length.\<close>

definition c0pq_client_seal_record ::
  "'w c0pq_client option \<Rightarrow> bytes option \<Rightarrow> nat \<Rightarrow> bytes option \<Rightarrow> nat \<Rightarrow> nat option
     \<Rightarrow> status \<times> 'w c0pq_client option \<times> bytes option \<times> nat option" where
  "c0pq_client_seal_record client plaintext plaintext_length frame frame_capacity frame_length =
     (let needed = 10 + 8 + plaintext_length + 16 in
      case (client, frame, frame_length) of
        (Some c, Some f, Some fl) \<Rightarrow>
          if plaintext = None \<and> plaintext_length \<noteq> 0 then (C0PQLINK_ERR_ARGUMENT, client, frame, frame_length)
          else if client_state c \<noteq> C0PQ_CLIENT_ESTABLISHED then (C0PQLINK_ERR_STATE, client, frame, frame_length)
          else if plaintext_length > 48 \<or> needed > frame_capacity
          then (C0PQLINK_ERR_CAPACITY, client, frame, frame_length)
          else if send_sequence c = - 1 then (C0PQLINK_ERR_EXPIRED, client, frame, frame_length)
          else
            let f1 = the (snd (c0pq_encode_header (Some f) C0PQ_FRAME_DATA 0
                                 (of_nat (8 + plaintext_length + 16)) (session_id c)));
                f2 = memcpy f1 10 (c0pq_store64_be (send_sequence c));
                (message_key, next_chain_key) = select_send_key c;
                nonce = c0pq_make_record_nonce (send_nonce_base c) (send_sequence c);
                (ct, tag) = c0_ascon_aead128_encrypt message_key nonce (take 18 f2)
                              (case plaintext of None \<Rightarrow> [] | Some p \<Rightarrow> take plaintext_length p);
                f3 = memcpy f2 18 ct;
                f4 = memcpy f3 (18 + plaintext_length) tag;
                c1 = (if mode (config c) = C0PQ_PQ_BOOTSTRAP_RATCHET
                      then c\<lparr>send_secret := next_chain_key\<rparr> else c);
                c2 = c1\<lparr>send_sequence := send_sequence c1 + 1\<rparr>
            in (C0PQLINK_OK, Some c2, Some f4, Some needed)
      | _ \<Rightarrow> (C0PQLINK_ERR_ARGUMENT, client, frame, frame_length))"

section \<open>Opening\<close>

text \<open>The result is the status with the client, the plaintext buffer and the reported length.\<close>

definition c0pq_client_open_record ::
  "'w c0pq_client option \<Rightarrow> bytes option \<Rightarrow> nat \<Rightarrow> bytes option \<Rightarrow> nat \<Rightarrow> nat option
     \<Rightarrow> status \<times> 'w c0pq_client option \<times> bytes option \<times> nat option" where
  "c0pq_client_open_record client frame frame_length plaintext plaintext_capacity plaintext_length =
     (case (client, frame, plaintext, plaintext_length) of
        (Some c, Some f, Some p, Some pl) \<Rightarrow>
          if client_state c \<noteq> C0PQ_CLIENT_ESTABLISHED
          then (C0PQLINK_ERR_STATE, client, plaintext, plaintext_length)
          else
            let (result, hd) = c0pq_decode_header (Some header_zero) (Some f) frame_length;
                header = the hd
            in if result \<noteq> C0PQLINK_OK \<or> htype header \<noteq> C0PQ_FRAME_DATA \<or> hflags header \<noteq> 1
                  \<or> hsession_id header \<noteq> session_id c \<or> payload_length header < 8 + 16
               then (C0PQLINK_ERR_STATE, client, plaintext, plaintext_length)
               else
                 let ciphertext_length = unat (payload_length header) - 8 - 16
                 in if ciphertext_length > 48 \<or> ciphertext_length > plaintext_capacity
                    then (C0PQLINK_ERR_CAPACITY, client, plaintext, plaintext_length)
                    else
                      let sequence = c0pq_load64_be (slice f 10 8)
                      in if sequence \<noteq> receive_sequence c
                         then (C0PQLINK_ERR_REPLAY, client, plaintext, plaintext_length)
                         else
                           let (message_key, next_chain_key) = select_receive_key c;
                               nonce = c0pq_make_record_nonce (receive_nonce_base c) sequence;
                               (result, pt) = c0_ascon_aead128_decrypt message_key nonce (take 18 f)
                                 (slice f 18 ciphertext_length) (slice f (18 + ciphertext_length) 16);
                               p1 = memcpy p 0 pt
                           in if result = C0PQLINK_OK
                              then
                                let c1 = (if mode (config c) = C0PQ_PQ_BOOTSTRAP_RATCHET
                                          then c\<lparr>receive_secret := next_chain_key\<rparr> else c);
                                    c2 = c1\<lparr>receive_sequence := receive_sequence c1 + 1\<rparr>
                                in (result, Some c2, Some p1, Some ciphertext_length)
                              else (result, client, Some p1, Some 0)
      | _ \<Rightarrow> (C0PQLINK_ERR_ARGUMENT, client, plaintext, plaintext_length))"

section \<open>Record frames\<close>

definition record_header :: "u8 \<Rightarrow> u32 \<Rightarrow> u64 \<Rightarrow> nat \<Rightarrow> bytes" where
  "record_header fl sid sequence n = header_bytes C0PQ_FRAME_DATA fl (of_nat (n + 24)) sid @ be_bytes 8 sequence"

definition record_frame :: "u8 \<Rightarrow> u32 \<Rightarrow> u64 \<Rightarrow> bytes \<Rightarrow> bytes \<Rightarrow> bytes \<Rightarrow> bytes" where
  "record_frame fl sid sequence key nonce_base p =
     (let (ct, tag) = c0_ascon_aead128_encrypt key (c0pq_make_record_nonce nonce_base sequence)
                        (record_header fl sid sequence (length p)) p
      in record_header fl sid sequence (length p) @ ct @ tag)"

lemma length_record_header [simp]: "length (record_header fl sid s n) = 18"
  by (simp add: record_header_def)

lemma length_record_frame [simp]: "length (record_frame fl sid s key nb p) = 34 + length p"
  by (simp add: record_frame_def Let_def case_prod_unfold)

text \<open>The client after a record has been sent or received.\<close>

definition advance_send :: "'w c0pq_client \<Rightarrow> 'w c0pq_client" where
  "advance_send c =
     (if mode (config c) = C0PQ_PQ_BOOTSTRAP_RATCHET
      then c\<lparr>send_secret := snd (c0pq_ratchet_step (send_secret c)), send_sequence := send_sequence c + 1\<rparr>
      else c\<lparr>send_sequence := send_sequence c + 1\<rparr>)"

definition advance_receive :: "'w c0pq_client \<Rightarrow> 'w c0pq_client" where
  "advance_receive c =
     (if mode (config c) = C0PQ_PQ_BOOTSTRAP_RATCHET
      then c\<lparr>receive_secret := snd (c0pq_ratchet_step (receive_secret c)), receive_sequence := receive_sequence c + 1\<rparr>
      else c\<lparr>receive_sequence := receive_sequence c + 1\<rparr>)"

definition sent_frame :: "'w c0pq_client \<Rightarrow> bytes \<Rightarrow> bytes" where
  "sent_frame c p = record_frame 0 (session_id c) (send_sequence c) (fst (select_send_key c)) (send_nonce_base c) p"

definition expected_frame :: "'w c0pq_client \<Rightarrow> bytes \<Rightarrow> bytes" where
  "expected_frame c p =
     record_frame 1 (session_id c) (receive_sequence c) (fst (select_receive_key c)) (receive_nonce_base c) p"

lemma length_sent_frame [simp]: "length (sent_frame c p) = 34 + length p"
  by (simp add: sent_frame_def)

lemma length_expected_frame [simp]: "length (expected_frame c p) = 34 + length p"
  by (simp add: expected_frame_def)

section \<open>Sealing writes the record frame\<close>

lemma seal_record_ok:
  assumes "client_state c = C0PQ_CLIENT_ESTABLISHED" and "length p \<le> 48"
    and "34 + length p \<le> cap" and "cap \<le> length f" and "send_sequence c \<noteq> - 1"
  shows "c0pq_client_seal_record (Some c) (Some p) (length p) (Some f) cap (Some fl)
     = (C0PQLINK_OK, Some (advance_send c), Some (sent_frame c p @ drop (34 + length p) f), Some (34 + length p))"
proof -
  let ?n = "length p"
  let ?rh = "record_header 0 (session_id c) (send_sequence c) ?n"
  let ?key = "fst (select_send_key c)" and ?nonce = "c0pq_make_record_nonce (send_nonce_base c) (send_sequence c)"
  obtain ct tag where enc: "c0_ascon_aead128_encrypt ?key ?nonce ?rh p = (ct, tag)" by fastforce
  then have len: "length ct = ?n" "length tag = 16" using ascon.length_encrypt by auto
  define w where "w = (of_nat (8 + ?n + 16) :: u16)"
  have "unat w = 8 + ?n + 16" unfolding w_def using assms(2) by (intro unat_of_nat_u16) simp
  then have n16: "w \<le> 255" using assms(2) by (simp add: word_le_nat_alt)
  have n8: "ucast w = (of_nat (?n + 24) :: u8)"
    unfolding w_def ucast_of_nat_u16 by (simp add: add.commute)
  have hdr: "memcpy (the (snd (c0pq_encode_header (Some f) C0PQ_FRAME_DATA 0 w (session_id c)))) 10
      (c0pq_store64_be (send_sequence c)) = memcpy f 0 ?rh"
    using assms n16 by (simp add: encode_header_ok n8 store64_be memcpy_memcpy record_header_def del: of_nat_add)
  have ad: "take 18 (memcpy f 0 ?rh) = ?rh" using assms by (simp add: memcpy_def)
  have body: "memcpy (memcpy (memcpy f 0 ?rh) 18 ct) (18 + ?n) tag = memcpy f 0 (?rh @ ct @ tag)"
    using assms len by (simp add: memcpy_memcpy)
  have frame: "sent_frame c p = ?rh @ ct @ tag" by (simp add: sent_frame_def record_frame_def enc)
  show ?thesis
    using assms hdr [unfolded w_def] ad enc body frame len
    by (auto simp: c0pq_client_seal_record_def Let_def case_prod_unfold advance_send_def memcpy_front select_send_key_def)
qed

section \<open>Opening accepts exactly the expected frame\<close>

lemma open_rejects_unchanged:
  assumes "fst (c0pq_client_open_record (Some c) frame n pt cap pl) \<noteq> C0PQLINK_OK"
  shows "fst (snd (c0pq_client_open_record (Some c) frame n pt cap pl)) = Some c"
  using assms by (auto simp: c0pq_client_open_record_def Let_def case_prod_unfold split: option.split)

lemma open_header:
  fixes c :: "'w c0pq_client"
  assumes "client_state c = C0PQ_CLIENT_ESTABLISHED"
    and "fst (c0pq_client_open_record (Some c) (Some f) (length f) (Some p) cap (Some pl)) = C0PQLINK_OK"
  obtains n8 where "take 10 f = header_bytes C0PQ_FRAME_DATA 1 n8 (session_id c)"
    and "length f = unat n8 + 10" and "24 \<le> unat n8"
    and "payload_length (the (snd (c0pq_decode_header (Some header_zero) (Some f) (length f)))) = ucast n8"
proof -
  let ?d = "c0pq_decode_header (Some header_zero) (Some f) (length f)"
  have ok: "fst ?d = C0PQLINK_OK \<and> htype (the (snd ?d)) = C0PQ_FRAME_DATA \<and> hflags (the (snd ?d)) = 1 \<and>
      hsession_id (the (snd ?d)) = session_id c \<and> \<not> payload_length (the (snd ?d)) < 8 + 16"
    by (rule ccontr) (use assms in \<open>simp add: c0pq_client_open_record_def Let_def case_prod_unfold split: if_split_asm\<close>)
  then obtain h where h: "?d = (C0PQLINK_OK, Some h)"
    by (cases ?d) (auto simp: c0pq_decode_header_def Let_def split: if_splits)
  then obtain n8 where n8: "length f = unat n8 + 10" "payload_length h = ucast n8"
    and eq: "take 10 f = header_bytes (htype h) (hflags h) n8 (hsession_id h)"
    using decode_header_ok_iff [of "length f" f header_zero h] by auto
  have "24 \<le> unat n8"
    using ok h n8(2) by (simp add: word_less_nat_alt unat_ucast_u8_u16)
  with n8 eq ok h show ?thesis by (intro that [of n8]) simp_all
qed

lemma open_accepts_imp:
  fixes c :: "'w c0pq_client"
  assumes est: "client_state c = C0PQ_CLIENT_ESTABLISHED"
    and ok: "c0pq_client_open_record (Some c) (Some f) (length f) (Some p) cap (Some pl) = (C0PQLINK_OK, c', p', n')"
  obtains pt where "length pt \<le> 48" and "length pt \<le> cap" and "f = expected_frame c pt"
    and "c' = Some (advance_receive c)" and "p' = Some (memcpy p 0 pt)" and "n' = Some (length pt)"
proof -
  let ?d = "c0pq_decode_header (Some header_zero) (Some f) (length f)"
  obtain n8 where hdr: "take 10 f = header_bytes C0PQ_FRAME_DATA 1 n8 (session_id c)"
    and len: "length f = unat n8 + 10" "24 \<le> unat n8" and pay: "payload_length (the (snd ?d)) = ucast n8"
    by (rule open_header [OF est, of f p cap pl]) (use ok in auto)
  define k where "k = unat n8 - 24"
  have k: "unat (payload_length (the (snd ?d))) - 24 = k"
    unfolding pay by (simp add: unat_ucast_u8_u16 k_def)
  have n8: "unat n8 = k + 24" and flen: "length f = k + 34" using len by (simp_all add: k_def)
  let ?seq = "c0pq_load64_be (slice f 10 8)"
  let ?key = "fst (select_receive_key c)" and ?nonce = "c0pq_make_record_nonce (receive_nonce_base c) (receive_sequence c)"
  let ?D = "c0_ascon_aead128_decrypt ?key ?nonce (take 18 f) (slice f 18 k) (slice f (18 + k) 16)"
  note ok' = ok [unfolded c0pq_client_open_record_def Let_def case_prod_unfold option.case prod.case]
  have cap: "\<not> (k > 48 \<or> k > cap)"
    by (rule notI) (use ok' est k in \<open>simp split: if_split_asm\<close>)
  have seq: "?seq = receive_sequence c" by (rule ccontr) (use ok' est k cap in \<open>simp split: if_split_asm\<close>)
  have dec: "fst ?D = C0PQLINK_OK" by (rule ccontr) (use ok' est k cap seq in \<open>simp split: if_split_asm\<close>)
  then obtain pt where D: "?D = (C0PQLINK_OK, pt)" by (cases ?D) simp
  have tl: "length (slice f (18 + k) 16) = 16" using flen by simp
  have enc: "c0_ascon_aead128_encrypt ?key ?nonce (take 18 f) pt = (slice f 18 k, slice f (18 + k) 16)"
    using D ascon.decrypt_accepts [OF tl] by simp
  then have lpt: "length pt = k" using ascon.length_encrypt [of ?key ?nonce "take 18 f" pt] flen by auto
  have "(of_nat (unat n8) :: u8) = n8" by simp
  then have "of_nat (k + 24) = n8" unfolding n8 .
  moreover have "slice f 10 8 = be_bytes 8 (receive_sequence c)"
    using seq be_bytes_load(2) [of "slice f 10 8"] flen by simp
  moreover have "take (10 + 8) f = take 10 f @ slice f 10 8" unfolding take_add by (simp add: slice_def)
  ultimately have ad: "take 18 f = record_header 1 (session_id c) (receive_sequence c) (length pt)"
    using hdr lpt by (simp add: record_header_def)
  have "f = take 18 f @ slice f 18 k @ slice f (18 + k) 16"
    using flen by (simp add: slice_def) (metis append_take_drop_id drop_drop add.commute)
  then have "f = expected_frame c pt" using enc by (simp add: expected_frame_def record_frame_def ad)
  moreover have "c' = Some (advance_receive c)" "p' = Some (memcpy p 0 pt)" "n' = Some (length pt)"
    using ok' est k cap seq D lpt by (auto simp: advance_receive_def select_receive_key_def split: if_split_asm)
  ultimately show ?thesis using cap lpt by (intro that [of pt]) simp_all
qed

lemma open_expected:
  assumes est: "client_state c = C0PQ_CLIENT_ESTABLISHED" and "length pt \<le> 48" and "length pt \<le> cap"
  shows "c0pq_client_open_record (Some c) (Some (expected_frame c pt)) (34 + length pt) (Some p) cap (Some pl)
     = (C0PQLINK_OK, Some (advance_receive c), Some (memcpy p 0 pt), Some (length pt))"
proof -
  let ?f = "expected_frame c pt" and ?k = "length pt"
  let ?key = "fst (select_receive_key c)" and ?nonce = "c0pq_make_record_nonce (receive_nonce_base c) (receive_sequence c)"
  let ?rh = "record_header 1 (session_id c) (receive_sequence c) ?k"
  obtain ct tag where enc: "c0_ascon_aead128_encrypt ?key ?nonce ?rh pt = (ct, tag)" by fastforce
  then have len: "length ct = ?k" "length tag = 16" using ascon.length_encrypt by auto
  have f: "?f = ?rh @ ct @ tag" by (simp add: expected_frame_def record_frame_def enc)
  have sl: "take 18 ?f = ?rh" "slice ?f 18 ?k = ct" "slice ?f (18 + ?k) 16 = tag"
    "slice ?f 10 8 = be_bytes 8 (receive_sequence c)"
    "take 10 ?f = header_bytes C0PQ_FRAME_DATA 1 (of_nat (?k + 24)) (session_id c)"
    using len unfolding f by (simp_all add: slice_def record_header_def)
  have n8: "unat (of_nat (?k + 24) :: u8) = ?k + 24"
    using assms(2) by (simp add: unsigned_of_nat take_bit_nat_eq_self del: of_nat_add)
  have d: "c0pq_decode_header (Some header_zero) (Some ?f) (34 + ?k) = (C0PQLINK_OK,
      Some \<lparr>htype = C0PQ_FRAME_DATA, hflags = 1, payload_length = ucast (of_nat (?k + 24) :: u8), hsession_id = session_id c\<rparr>)"
    using sl(5) n8 by (subst decode_header_ok_iff) (auto intro!: exI [of _ "of_nat (?k + 24)"] simp del: of_nat_add)
  have u: "unat (ucast (of_nat (?k + 24) :: u8) :: u16) = ?k + 24" by (simp only: unat_ucast_u8_u16 n8)
  then have "\<not> (ucast (of_nat (?k + 24) :: u8) :: u16) < 24" by (simp add: word_less_nat_alt del: of_nat_add)
  moreover have "c0_ascon_aead128_decrypt ?key ?nonce ?rh ct tag = (C0PQLINK_OK, pt)"
    using enc by (rule ascon.decrypt_encrypt)
  ultimately show ?thesis
    using assms d sl u
    by (simp add: c0pq_client_open_record_def Let_def case_prod_unfold advance_receive_def select_receive_key_def del: of_nat_add)
qed

section \<open>Nonces\<close>

lemma record_nonce_spec:
  assumes "length base = 16"
  shows "c0pq_make_record_nonce base s = take 8 base @ map2 (XOR) (drop 8 base) (be_bytes 8 s)"
proof -
  obtain b0 b1 b2 b3 b4 b5 b6 b7 b8 b9 ba bb bc bd be bf
    where base: "base = [b0, b1, b2, b3, b4, b5, b6, b7, b8, b9, ba, bb, bc, bd, be, bf]"
    using assms by (auto simp: numeral_eq_Suc length_Suc_conv)
  obtain e0 e1 e2 e3 e4 e5 e6 e7 where e: "be_bytes 8 s = [e0, e1, e2, e3, e4, e5, e6, e7]"
    using length_be_bytes [of 8 s] by (auto simp: numeral_eq_Suc length_Suc_conv simp del: length_be_bytes)
  show ?thesis by (simp add: c0pq_make_record_nonce_def Let_def store64_be base e upt_8)
qed

lemma record_nonce_inject:
  assumes "length base = 16" and "c0pq_make_record_nonce base s = c0pq_make_record_nonce base t"
  shows "s = t"
proof -
  have len: "length (drop 8 base) = length (be_bytes 8 s)" "length (drop 8 base) = length (be_bytes 8 t)"
    using assms(1) by simp_all
  have eq: "map2 (XOR) (drop 8 base) (be_bytes 8 s) = map2 (XOR) (drop 8 base) (be_bytes 8 t)"
    using assms(2) by (simp only: record_nonce_spec [OF assms(1)] same_append_eq)
  from map2_xor_inject [OF len eq] show ?thesis using be_bytes_inject [of 8 s t] by simp
qed

section \<open>The record layer as a transition system\<close>

text \<open>One call of \<open>seal\<close> or \<open>open\<close> with any arguments. A sealed record is labelled with the
  plaintext that was given and the frame that was put out, an opened one with the frame. A call that
  reports success for buffers shorter than their stated lengths has an event of its own: what it
  leaves in memory is not defined, but it moves the client on.\<close>

datatype record_event = Sealed bytes bytes | Overrun | Opened bytes | Refused

definition sealed_plaintext :: "bytes option \<Rightarrow> nat \<Rightarrow> bytes" where
  "sealed_plaintext plaintext plaintext_length =
     (case plaintext of None \<Rightarrow> [] | Some p \<Rightarrow> take plaintext_length p)"

definition buffers_fit :: "bytes option \<Rightarrow> nat \<Rightarrow> bytes option \<Rightarrow> nat \<Rightarrow> bool" where
  "buffers_fit plaintext plaintext_length frame frame_capacity \<longleftrightarrow>
     (\<forall>p. plaintext = Some p \<longrightarrow> plaintext_length \<le> length p) \<and> (\<forall>f. frame = Some f \<longrightarrow> frame_capacity \<le> length f)"

inductive record_step :: "'w c0pq_client \<Rightarrow> record_event \<Rightarrow> 'w c0pq_client \<Rightarrow> bool" where
  step_sealed: "c0pq_client_seal_record (Some c) p n f cap l = (C0PQLINK_OK, Some c', Some f', Some l') \<Longrightarrow>
     buffers_fit p n f cap \<Longrightarrow> record_step c (Sealed (sealed_plaintext p n) (take l' f')) c'"
| step_overrun: "c0pq_client_seal_record (Some c) p n f cap l = (C0PQLINK_OK, Some c', f', l') \<Longrightarrow>
     \<not> buffers_fit p n f cap \<Longrightarrow> record_step c Overrun c'"
| step_seal_refused: "c0pq_client_seal_record (Some c) p n f cap l = (st, Some c', f', l') \<Longrightarrow> st \<noteq> C0PQLINK_OK \<Longrightarrow>
     record_step c Refused c'"
| step_opened: "c0pq_client_open_record (Some c) (Some f) (length f) p cap l = (C0PQLINK_OK, Some c', p', l') \<Longrightarrow>
     record_step c (Opened f) c'"
| step_open_refused: "c0pq_client_open_record (Some c) f n p cap l = (st, Some c', p', l') \<Longrightarrow> st \<noteq> C0PQLINK_OK \<Longrightarrow>
     record_step c Refused c'"

inductive record_trace :: "'w c0pq_client \<Rightarrow> record_event list \<Rightarrow> 'w c0pq_client \<Rightarrow> bool" where
  trace_nil: "record_trace c [] c"
| trace_step: "record_step c e c1 \<Longrightarrow> record_trace c1 es c2 \<Longrightarrow> record_trace c (e # es) c2"

inductive_cases record_step_cases [elim!]: "record_step c e c'"

text \<open>The plaintexts and frames of the sealed records.\<close>

fun sealed_records :: "record_event list \<Rightarrow> (bytes \<times> bytes) list" where
  "sealed_records [] = []"
| "sealed_records (Sealed p f # es) = (p, f) # sealed_records es"
| "sealed_records (_ # es) = sealed_records es"

fun opened_frames :: "record_event list \<Rightarrow> bytes list" where
  "opened_frames [] = []"
| "opened_frames (Opened f # es) = f # opened_frames es"
| "opened_frames (_ # es) = opened_frames es"

lemma seal_ok_imp:
  assumes "c0pq_client_seal_record (Some c) p n f cap l = (C0PQLINK_OK, Some c', f', l')"
  shows "c' = advance_send c" and "send_sequence c \<noteq> - 1"
  using assms
  by (auto simp: c0pq_client_seal_record_def Let_def case_prod_unfold advance_send_def select_send_key_def
      split: option.splits if_splits)

text \<open>A call that fits its buffers puts out the record frame of what it was given.\<close>

lemma seal_given:
  "p \<noteq> None \<or> n = 0 \<Longrightarrow>
   c0pq_client_seal_record (Some c) p n f cap l = c0pq_client_seal_record (Some c) (Some (sealed_plaintext p n)) n f cap l"
  by (cases p) (auto simp: c0pq_client_seal_record_def Let_def sealed_plaintext_def split: option.split)

lemma seal_ok_frame:
  assumes seal: "c0pq_client_seal_record (Some c) p n f cap l = (C0PQLINK_OK, Some c', Some f', Some l')"
    and fit: "buffers_fit p n f cap"
  shows "take l' f' = sent_frame c (sealed_plaintext p n)"
proof -
  let ?q = "sealed_plaintext p n"
  have given: "p \<noteq> None \<or> n = 0"
    by (rule ccontr) (use seal in \<open>auto simp: c0pq_client_seal_record_def Let_def split: option.split_asm if_split_asm\<close>)
  obtain f0 l0 where f0: "f = Some f0" and l0: "l = Some l0"
    using seal by (cases f; cases l) (auto simp: c0pq_client_seal_record_def)
  have q: "length ?q = n"
    using given fit by (auto simp: sealed_plaintext_def buffers_fit_def split: option.split)
  have cap: "cap \<le> length f0" using fit by (simp add: buffers_fit_def f0)
  have bounds: "client_state c = C0PQ_CLIENT_ESTABLISHED" "n \<le> 48" "34 + n \<le> cap" "send_sequence c \<noteq> - 1"
    using seal by (auto simp: c0pq_client_seal_record_def Let_def f0 l0 case_prod_unfold split: if_split_asm)
  have "c0pq_client_seal_record (Some c) p n f cap l
      = (C0PQLINK_OK, Some (advance_send c), Some (sent_frame c ?q @ drop (34 + n) f0), Some (34 + n))"
    using seal_record_ok [OF bounds(1) _ _ cap bounds(4), of ?q l0] bounds q seal_given [OF given, of c f cap l]
    by (simp add: f0 l0)
  then have "f' = sent_frame c ?q @ drop (34 + n) f0" "l' = length (sent_frame c ?q)" using seal q by auto
  then show ?thesis by simp
qed

lemma seal_refused_unchanged:
  "c0pq_client_seal_record (Some c) p n f cap l = (st, Some c', f', l') \<Longrightarrow> st \<noteq> C0PQLINK_OK \<Longrightarrow> c' = c"
  by (auto simp: c0pq_client_seal_record_def Let_def case_prod_unfold split: option.splits if_splits)

lemma open_refused_unchanged:
  "c0pq_client_open_record (Some c) f n p cap l = (st, Some c', p', l') \<Longrightarrow> st \<noteq> C0PQLINK_OK \<Longrightarrow> c' = c"
  using open_rejects_unchanged [of c f n p cap l] by simp

lemma open_ok_imp:
  assumes "c0pq_client_open_record (Some c) (Some f) (length f) p cap l = (C0PQLINK_OK, Some c', p', l')"
  shows "c' = advance_receive c" and "slice f 10 8 = be_bytes 8 (receive_sequence c)"
proof -
  have est: "client_state c = C0PQ_CLIENT_ESTABLISHED"
    using assms by (auto simp: c0pq_client_open_record_def split: option.splits if_splits)
  obtain p0 l0 where "p = Some p0" "l = Some l0"
    using assms by (cases p; cases l) (auto simp: c0pq_client_open_record_def)
  with assms obtain pt where pt: "f = expected_frame c pt" "c' = advance_receive c"
    using open_accepts_imp [OF est, of f p0 cap l0 "Some c'" p' l'] by auto
  then show "c' = advance_receive c" and "slice f 10 8 = be_bytes 8 (receive_sequence c)"
    by (simp_all add: expected_frame_def record_frame_def record_header_def slice_def Let_def case_prod_unfold)
qed

lemma open_ok_both:
  "c0pq_client_open_record (Some c) (Some f) (length f) p cap l = (C0PQLINK_OK, Some c', p', l') \<Longrightarrow>
   c' = advance_receive c \<and> slice f 10 8 = be_bytes 8 (receive_sequence c)"
  by (blast dest: open_ok_imp)

lemmas advance_defs = advance_send_def advance_receive_def

text \<open>What every step keeps, and how the two counters move.\<close>

lemma step_keeps:
  "record_step c e c' \<Longrightarrow> send_nonce_base c' = send_nonce_base c \<and> receive_nonce_base c' = receive_nonce_base c
     \<and> session_id c' = session_id c \<and> client_state c' = client_state c \<and> config c' = config c"
  by (auto dest: seal_ok_imp(1) open_ok_imp(1) seal_refused_unchanged open_refused_unchanged simp: advance_defs)

lemma seal_ok_both:
  "c0pq_client_seal_record (Some c) p n f cap l = (C0PQLINK_OK, Some c', f', l') \<Longrightarrow>
   c' = advance_send c \<and> send_sequence c \<noteq> - 1"
  by (blast dest: seal_ok_imp)

text \<open>The sending side after a step: moved on by a successful seal, untouched by everything else.\<close>

lemma step_sends:
  "record_step c e c' \<Longrightarrow>
     (case e of Sealed p f \<Rightarrow> f = sent_frame c p \<and> c' = advance_send c \<and> send_sequence c \<noteq> - 1
      | Overrun \<Rightarrow> c' = advance_send c \<and> send_sequence c \<noteq> - 1
      | Opened f \<Rightarrow> c' = advance_receive c
      | Refused \<Rightarrow> c' = c)"
  by (auto dest: seal_ok_both seal_ok_frame open_ok_imp(1) seal_refused_unchanged open_refused_unchanged)

text \<open>The key under which an established client will seal its record number \<open>s\<close>, and the sequence
  number and nonce of a frame.\<close>

definition message_key_at :: "'w c0pq_client \<Rightarrow> u64 \<Rightarrow> bytes" where
  "message_key_at c s = fst (select_send_key ((advance_send ^^ (unat s - unat (send_sequence c))) c))"

definition frame_sequence :: "bytes \<Rightarrow> u64" where
  "frame_sequence f = c0pq_load64_be (slice f 10 8)"

definition frame_nonce :: "bytes \<Rightarrow> bytes \<Rightarrow> bytes" where
  "frame_nonce base f = c0pq_make_record_nonce base (frame_sequence f)"

definition encrypted_as :: "bytes \<Rightarrow> bytes \<Rightarrow> bytes \<Rightarrow> bytes \<Rightarrow> bool" where
  "encrypted_as key nonce p f \<longleftrightarrow>
     f = take 18 f @ fst (c0_ascon_aead128_encrypt key nonce (take 18 f) p)
                   @ snd (c0_ascon_aead128_encrypt key nonce (take 18 f) p)"

lemma record_frame_shape:
  "frame_sequence (record_frame fl sid s key base p) = s"
  "encrypted_as key (c0pq_make_record_nonce base s) p (record_frame fl sid s key base p)"
proof -
  let ?h = "record_header fl sid s (length p)"
  have t: "take 18 (record_frame fl sid s key base p) = ?h"
    by (simp add: record_frame_def Let_def case_prod_unfold)
  then show "encrypted_as key (c0pq_make_record_nonce base s) p (record_frame fl sid s key base p)"
    unfolding encrypted_as_def t by (simp add: record_frame_def Let_def case_prod_unfold)
  have "slice (record_frame fl sid s key base p) 10 8 = be_bytes 8 s"
    by (simp add: record_frame_def record_header_def slice_def Let_def case_prod_unfold)
  then show "frame_sequence (record_frame fl sid s key base p) = s"
    by (simp add: frame_sequence_def be_bytes_load)
qed

lemma advance_send_receive: "(advance_send ^^ k) (advance_receive c) = advance_receive ((advance_send ^^ k) c)"
  by (induction k) (simp_all add: advance_defs)

lemma select_send_key_receive [simp]: "select_send_key (advance_receive c) = select_send_key c"
  by (simp add: select_send_key_def advance_receive_def)

lemma send_sequence_receive [simp]: "send_sequence (advance_receive c) = send_sequence c"
  by (simp add: advance_receive_def)

lemma message_key_at_receive: "message_key_at (advance_receive c) s = message_key_at c s"
  by (simp add: message_key_at_def advance_send_receive)

lemma advance_send_sequence: "send_sequence c \<noteq> - 1 \<Longrightarrow> unat (send_sequence (advance_send c)) = Suc (unat (send_sequence c))"
  by (simp add: advance_send_def) (metis add.commute unatSuc add_eq_0_iff)

lemma message_key_at_send:
  assumes "send_sequence c \<noteq> - 1" and "unat (send_sequence (advance_send c)) \<le> unat s"
  shows "message_key_at (advance_send c) s = message_key_at c s"
proof -
  have "unat s - unat (send_sequence c) = Suc (unat s - unat (send_sequence (advance_send c)))"
    using assms(2) unfolding advance_send_sequence [OF assms(1)] by simp
  then show ?thesis by (simp add: message_key_at_def funpow_swap1)
qed

lemma step_receive_sequence:
  "record_step c e c' \<Longrightarrow>
     (case e of Opened f \<Rightarrow> slice f 10 8 = be_bytes 8 (receive_sequence c) \<and> receive_sequence c' = receive_sequence c + 1
      | _ \<Rightarrow> receive_sequence c' = receive_sequence c)"
  by (auto dest!: seal_ok_both open_ok_both seal_refused_unchanged open_refused_unchanged simp: advance_defs)

text \<open>A sealed record of a run of \<open>c\<close>: its sequence number is not below the client's, and it is the
  encryption of the plaintext under the key and the nonce of that number.\<close>

definition sealed_by :: "'w c0pq_client \<Rightarrow> bytes \<times> bytes \<Rightarrow> bool" where
  "sealed_by c r \<longleftrightarrow> unat (send_sequence c) \<le> unat (frame_sequence (snd r)) \<and>
     encrypted_as (message_key_at c (frame_sequence (snd r))) (frame_nonce (send_nonce_base c) (snd r)) (fst r) (snd r)"

lemma sealed_by_first: "sealed_by c (p, sent_frame c p)" "frame_sequence (sent_frame c p) = send_sequence c"
  using record_frame_shape [where fl = 0 and sid = "session_id c" and s = "send_sequence c"
      and key = "fst (select_send_key c)" and base = "send_nonce_base c" and p = p]
  by (simp_all add: sealed_by_def sent_frame_def frame_nonce_def message_key_at_def)

lemma sealed_by_back:
  assumes "record_step c e c1" and "sealed_by c1 r"
  shows "sealed_by c r" and "(\<exists>p f. e = Sealed p f) \<Longrightarrow> unat (send_sequence c) < unat (frame_sequence (snd r))"
proof -
  have moved: "sealed_by c r \<and> unat (send_sequence c) < unat (frame_sequence (snd r))"
    if "c1 = advance_send c" and ne: "send_sequence c \<noteq> - 1"
  proof -
    have le: "Suc (unat (send_sequence c)) \<le> unat (frame_sequence (snd r))"
      using assms(2) advance_send_sequence [OF ne] that(1) by (simp add: sealed_by_def)
    have "message_key_at (advance_send c) (frame_sequence (snd r)) = message_key_at c (frame_sequence (snd r))"
      using message_key_at_send [OF ne] advance_send_sequence [OF ne] le by simp
    then show ?thesis using assms(2) le that(1) by (simp add: sealed_by_def) (simp add: advance_send_def split: if_split_asm)
  qed
  have still: "sealed_by c r" if "c1 = advance_receive c"
    using assms(2) that message_key_at_receive [of c "frame_sequence (snd r)"]
    by (simp add: sealed_by_def) (simp add: advance_receive_def split: if_split_asm)
  show "sealed_by c r" using step_sends [OF assms(1)] moved still assms(2) by (cases e) auto
  show "unat (send_sequence c) < unat (frame_sequence (snd r))" if "\<exists>p f. e = Sealed p f"
    using step_sends [OF assms(1)] moved that by auto
qed

lemma trace_sealed:
  "record_trace c es c' \<Longrightarrow>
     (\<forall>r\<in>set (sealed_records es). sealed_by c r) \<and> distinct (map (\<lambda>r. frame_sequence (snd r)) (sealed_records es))"
proof (induction rule: record_trace.induct)
  case (trace_step c e c1 es c2)
  note older = sealed_by_back [OF trace_step.hyps(1)] and sends = step_sends [OF trace_step.hyps(1)]
  show ?case
  proof (cases e)
    case (Sealed p f)
    with sends have f: "f = sent_frame c p" by simp
    have "unat (frame_sequence f) < unat (frame_sequence (snd r))" if "r \<in> set (sealed_records es)" for r
      using older(2) [of r] trace_step.IH that Sealed sealed_by_first(2) [of c p] f by auto
    then have "frame_sequence f \<notin> (\<lambda>r. frame_sequence (snd r)) ` set (sealed_records es)" by fastforce
    then show ?thesis using Sealed f sealed_by_first(1) [of c p] older(1) trace_step.IH by auto
  qed (use older(1) trace_step.IH in auto)
qed simp

lemma trace_opened:
  "record_trace c es c' \<Longrightarrow> unat (receive_sequence c) + length es < 2 ^ 64 \<Longrightarrow>
     (\<forall>f\<in>set (opened_frames es). \<exists>k :: u64. unat (receive_sequence c) \<le> unat k \<and> slice f 10 8 = be_bytes 8 k) \<and>
     distinct (opened_frames es)"
proof (induction rule: record_trace.induct)
  case (trace_step c e c1 es c2)
  note seq = step_receive_sequence [OF trace_step.hyps(1)]
  show ?case
  proof (cases e)
    case (Opened f)
    with seq have f: "slice f 10 8 = be_bytes 8 (receive_sequence c)" "receive_sequence c1 = receive_sequence c + 1" by auto
    have suc: "unat (receive_sequence c1) = Suc (unat (receive_sequence c))"
    proof -
      have "receive_sequence c \<noteq> - 1"
      proof
        assume "receive_sequence c = - 1"
        then have "unat (receive_sequence c) = 2 ^ 64 - 1" by (simp add: unsigned_minus_1_eq_mask mask_eq_exp_minus_1)
        with trace_step.prems show False by simp
      qed
      then show ?thesis unfolding f(2) by (metis add.commute unatSuc add_eq_0_iff)
    qed
    have IH: "(\<forall>f\<in>set (opened_frames es). \<exists>k :: u64. unat (receive_sequence c1) \<le> unat k \<and> slice f 10 8 = be_bytes 8 k) \<and>
        distinct (opened_frames es)"
      using trace_step.IH trace_step.prems suc by simp
    have "f \<notin> set (opened_frames es)"
    proof
      assume "f \<in> set (opened_frames es)"
      with IH obtain k :: u64 where "unat (receive_sequence c1) \<le> unat k" "slice f 10 8 = be_bytes 8 k" by blast
      with f(1) suc show False by (simp add: be_bytes_inject)
    qed
    moreover have "\<exists>k :: u64. unat (receive_sequence c) \<le> unat k \<and> slice g 10 8 = be_bytes 8 k" if "g \<in> set (opened_frames es)" for g
      using IH that suc by (metis Suc_leD)
    ultimately show ?thesis using Opened IH f(1) by auto
  qed (use seq trace_step in auto)
qed simp

section \<open>A client does not accept its own records\<close>

lemma open_sent_refused:
  assumes "length p \<le> 48"
  shows "c0pq_client_open_record (Some c2) (Some (sent_frame c p)) (34 + length p) (Some q) cap (Some l)
     = (C0PQLINK_ERR_STATE, Some c2, Some q, Some l)"
proof (cases "client_state c2 = C0PQ_CLIENT_ESTABLISHED")
  case True
  let ?f = "sent_frame c p"
  let ?d = "c0pq_decode_header (Some header_zero) (Some ?f) (34 + length p)"
  have "take 10 ?f = header_bytes C0PQ_FRAME_DATA 0 (of_nat (length p + 24)) (session_id c)"
    by (simp add: sent_frame_def record_frame_def record_header_def Let_def case_prod_unfold)
  moreover have "unat (of_nat (length p + 24) :: u8) = length p + 24"
    using assms by (simp add: unsigned_of_nat take_bit_nat_eq_self del: of_nat_add)
  ultimately have "?d = (C0PQLINK_OK, Some \<lparr>htype = C0PQ_FRAME_DATA, hflags = 0,
      payload_length = ucast (of_nat (length p + 24) :: u8), hsession_id = session_id c\<rparr>)"
    by (subst decode_header_ok_iff) (auto intro!: exI [of _ "of_nat (length p + 24)"] simp del: of_nat_add)
  with True show ?thesis by (simp add: c0pq_client_open_record_def Let_def)
next
  case False
  then show ?thesis by (simp add: c0pq_client_open_record_def)
qed

section \<open>Properties\<close>

text \<open>C28: sealing. An established client with room in the buffer and sequence numbers left
  writes exactly the record frame for its current sequence number and key, moves its sequence (and
  in ratchet mode its chain key) on by one step and reports the frame's length; at the last
  sequence number it refuses with \<open>C0PQLINK_ERR_EXPIRED\<close> and changes nothing.\<close>

theorem seal_record_exact:
  assumes "client_state c = C0PQ_CLIENT_ESTABLISHED" and "length p \<le> 48"
    and "34 + length p \<le> cap" and "cap \<le> length f"
  shows "c0pq_client_seal_record (Some c) (Some p) (length p) (Some f) cap (Some fl) =
    (if send_sequence c = - 1 then (C0PQLINK_ERR_EXPIRED, Some c, Some f, Some fl)
     else (C0PQLINK_OK, Some (advance_send c), Some (sent_frame c p @ drop (34 + length p) f), Some (34 + length p)))"
  using assms seal_record_ok [OF assms] by (auto simp: c0pq_client_seal_record_def)

theorem seal_record_exact_witness:
  "c0pq_client_seal_record (Some sample_client) (Some (replicate 2 1)) 2 (Some (replicate 96 0)) 96 (Some 0) =
     (C0PQLINK_OK, Some (advance_send sample_client),
      Some (sent_frame sample_client (replicate 2 1) @ drop 36 (replicate 96 0)), Some 36)"
  using seal_record_exact [of sample_client "replicate 2 1" 96 "replicate 96 0" 0] by simp

text \<open>C1: opening. An established client accepts a frame exactly when it is the peer's record
  frame for the expected sequence number, session and key, with at most 48 bytes that fit the
  buffer: then it releases that plaintext and moves on by one step. In every other case it returns
  an error and the client is unchanged. The step of the counter is not guarded: after a record with
  the last sequence number the client expects the number 0 again, which the protocol document rules
  out.\<close>

theorem open_record_exact:
  assumes "client_state c = C0PQ_CLIENT_ESTABLISHED"
  shows "(fst (c0pq_client_open_record (Some c) (Some f) (length f) (Some p) cap (Some l)) = C0PQLINK_OK
            \<longleftrightarrow> (\<exists>pt. length pt \<le> 48 \<and> length pt \<le> cap \<and> f = expected_frame c pt)) \<and>
         (\<forall>pt. length pt \<le> 48 \<and> length pt \<le> cap \<and> f = expected_frame c pt \<longrightarrow>
            c0pq_client_open_record (Some c) (Some f) (length f) (Some p) cap (Some l)
              = (C0PQLINK_OK, Some (advance_receive c), Some (memcpy p 0 pt), Some (length pt))) \<and>
         (fst (c0pq_client_open_record (Some c) (Some f) (length f) (Some p) cap (Some l)) \<noteq> C0PQLINK_OK \<longrightarrow>
            fst (snd (c0pq_client_open_record (Some c) (Some f) (length f) (Some p) cap (Some l))) = Some c) \<and>
         (fst (c0pq_client_open_record (Some c) (Some f) (length f) (Some p) cap (Some l)) = C0PQLINK_OK \<and>
            receive_sequence c = - 1 \<longrightarrow>
            (\<exists>d. fst (snd (c0pq_client_open_record (Some c) (Some f) (length f) (Some p) cap (Some l))) = Some d \<and>
               receive_sequence d = 0))"
proof -
  let ?o = "c0pq_client_open_record (Some c) (Some f) (length f) (Some p) cap (Some l)"
  have acc: "?o = (C0PQLINK_OK, Some (advance_receive c), Some (memcpy p 0 pt), Some (length pt))"
    if "length pt \<le> 48" "length pt \<le> cap" "f = expected_frame c pt" for pt
    using open_expected [OF assms that(1,2), of p l] that(3) by simp
  moreover have "\<exists>pt. length pt \<le> 48 \<and> length pt \<le> cap \<and> f = expected_frame c pt" if "fst ?o = C0PQLINK_OK"
    using that open_accepts_imp [OF assms, of f p cap l] by (cases ?o) (metis fst_conv)
  moreover have "fst (snd ?o) = Some (advance_receive c)" if "fst ?o = C0PQLINK_OK"
    using calculation(2) [OF that] acc by auto
  moreover have "receive_sequence (advance_receive c) = 0" if "receive_sequence c = - 1"
    using that by (simp add: advance_receive_def)
  ultimately show ?thesis using open_rejects_unchanged [of c "Some f" "length f" "Some p" cap "Some l"]
    by (metis fst_conv)
qed

theorem open_record_exact_witness:
  "c0pq_client_open_record (Some sample_client) (Some (expected_frame sample_client (replicate 2 1))) 36
     (Some (replicate 48 0)) 48 (Some 0)
   = (C0PQLINK_OK, Some (advance_receive sample_client), Some (memcpy (replicate 48 0) 0 (replicate 2 1)), Some 2)"
  using open_record_exact [of sample_client "expected_frame sample_client (replicate 2 1)" "replicate 48 0" 48 0,
      THEN conjunct2, THEN conjunct1, rule_format, of "replicate 2 1"] by simp

text \<open>C2: nonces. In any run of record operations, with any arguments and in any order, every frame
  that \<open>seal\<close> puts out is the Ascon encryption of the plaintext it was given, under the message key of
  the frame's sequence number and under the nonce made of the send base and that number, with the
  frame's first 18 bytes as associated data; and these nonces are pairwise distinct. Only calls whose
  buffers are shorter than their stated lengths put out no frame of their own in the sense of this
  statement; they may occur in the run.\<close>

theorem record_nonces_distinct:
  assumes "record_trace c es c'" and "length (send_nonce_base c) = 16"
  shows "distinct (map (\<lambda>(p, f). frame_nonce (send_nonce_base c) f) (sealed_records es)) \<and>
    (\<forall>(p, f)\<in>set (sealed_records es).
       encrypted_as (message_key_at c (frame_sequence f)) (frame_nonce (send_nonce_base c) f) p f)"
proof -
  have "inj_on (c0pq_make_record_nonce (send_nonce_base c)) A" for A
    using record_nonce_inject [OF assms(2)] by (auto simp: inj_on_def)
  moreover have "map (\<lambda>(p, f). frame_nonce (send_nonce_base c) f) (sealed_records es)
      = map (c0pq_make_record_nonce (send_nonce_base c)) (map (\<lambda>r. frame_sequence (snd r)) (sealed_records es))"
    by (simp add: frame_nonce_def case_prod_unfold)
  ultimately have "distinct (map (\<lambda>(p, f). frame_nonce (send_nonce_base c) f) (sealed_records es))"
    using trace_sealed [OF assms(1)] by (simp only: distinct_map [of "c0pq_make_record_nonce (send_nonce_base c)"] simp_thms)
  then show ?thesis using trace_sealed [OF assms(1)] by (auto simp: sealed_by_def)
qed

theorem record_nonces_distinct_witness:
  "\<exists>f c'. record_trace sample_client [Sealed [1] f] c' \<and> length f = 35 \<and>
     encrypted_as (message_key_at sample_client 0) (frame_nonce (replicate 16 9) f) [1] f"
proof -
  let ?f = "sent_frame sample_client [1]"
  have "record_step sample_client (Sealed (sealed_plaintext (Some [1]) 1) (take 35 (?f @ drop 35 (replicate 96 0))))
      (advance_send sample_client)"
    using seal_record_ok [of sample_client "[1]" 96 "replicate 96 0" 0]
    by (intro record_step.step_sealed [where f = "Some (replicate 96 0)" and cap = 96 and l = "Some 0"])
      (simp_all add: buffers_fit_def)
  then have tr: "record_trace sample_client [Sealed [1] ?f] (advance_send sample_client)"
    using record_trace.trace_step [OF _ record_trace.trace_nil] by (simp add: sealed_plaintext_def)
  have "send_nonce_base sample_client = replicate 16 9" by (simp add: sample_client_def)
  with record_nonces_distinct [OF tr] sealed_by_first(2) [of sample_client "[1]"]
  have "encrypted_as (message_key_at sample_client 0) (frame_nonce (replicate 16 9) ?f) [1] ?f" by simp
  moreover have "length ?f = 35" by simp
  ultimately show ?thesis using tr by blast
qed

text \<open>C3: replay. In any run of fewer operations than sequence numbers are left, no frame is
  accepted twice.\<close>

theorem record_no_replay:
  assumes "record_trace c es c'" and "unat (receive_sequence c) + length es < 2 ^ 64"
  shows "distinct (opened_frames es)"
  using trace_opened [OF assms] by simp

theorem record_no_replay_witness:
  "\<exists>c'. record_trace sample_client [Opened (expected_frame sample_client [1])] c' \<and>
        distinct (opened_frames [Opened (expected_frame sample_client [1])])"
proof -
  have "record_step sample_client (Opened (expected_frame sample_client [1])) (advance_receive sample_client)"
    using open_expected [of sample_client "[1]" 48 "replicate 48 0" 0]
    by (intro record_step.step_opened [where p = "Some (replicate 48 0)" and cap = 48 and l = "Some 0"]) simp
  then have tr: "record_trace sample_client [Opened (expected_frame sample_client [1])] (advance_receive sample_client)"
    by (rule record_trace.trace_step) (rule record_trace.trace_nil)
  with record_no_replay [OF tr] show ?thesis by auto
qed

text \<open>C29: reflection. A frame sealed by any client is refused by every client's \<open>open\<close>,
  whatever its keys and counters: the direction flag differs, and the state is kept.\<close>

theorem record_no_reflection:
  assumes "length p \<le> 48"
  shows "c0pq_client_open_record (Some c2) (Some (sent_frame c p)) (34 + length p) (Some q) cap (Some l)
     = (C0PQLINK_ERR_STATE, Some c2, Some q, Some l)"
  using assms by (rule open_sent_refused)

theorem record_no_reflection_witness:
  "c0pq_client_open_record (Some sample_client) (Some (sent_frame sample_client [1])) 35 (Some []) 48 (Some 0)
     = (C0PQLINK_ERR_STATE, Some sample_client, Some [], Some 0)"
  using record_no_reflection [of "[1]" sample_client sample_client "[]" 48 0] by simp

end
