(* ===== verification/Client.thy ===== *)
theory Client
  imports Records
begin

text \<open>
  \<open>session/fragment.c\<close>: the connecting client. A frame exchange with bounded retries, the
  writer that cuts the streamed ML-KEM ciphertext into acknowledged fragments, the finished
  exchange, and the life cycle \<open>init\<close>, \<open>connect\<close>, \<open>close\<close>.

  The outgoing and the incoming frame of an exchange are the same array at every call site, so the
  exchange is modelled over one buffer. A local array that the C code leaves uninitialised starts as
  zeros. \<open>connect\<close> is defined for a client whose callbacks are present. Its outer option is the
  one of the rejection sampler inside the encapsulation.
\<close>

unbundle bit_operations_syntax

section \<open>Frame exchange\<close>

text \<open>The result codes of \<open>common.h\<close>, where a callback returns one.\<close>

primrec status_code :: "status \<Rightarrow> int" where
  "status_code C0PQLINK_OK = 0"
| "status_code C0PQLINK_ERR_ARGUMENT = - 1"
| "status_code C0PQLINK_ERR_KEY_ENCODING = - 2"
| "status_code C0PQLINK_ERR_IO = - 3"
| "status_code C0PQLINK_ERR_AUTH = - 4"
| "status_code C0PQLINK_ERR_STATE = - 5"
| "status_code C0PQLINK_ERR_REPLAY = - 6"
| "status_code C0PQLINK_ERR_EXPIRED = - 7"
| "status_code C0PQLINK_ERR_CAPACITY = - 8"
| "status_code C0PQLINK_ERR_RNG = - 9"

text \<open>The attempts left to make; each sends the buffer's front and receives into the buffer.\<close>

fun send_attempts ::
  "'w c0pq_client \<Rightarrow> nat \<Rightarrow> u8 \<Rightarrow> nat \<Rightarrow> nat \<Rightarrow> bytes \<Rightarrow> 'w \<Rightarrow> status \<times> bytes \<times> 'w" where
  "send_attempts client outgoing_length expected_type expected_length 0 frame w = (C0PQLINK_ERR_IO, frame, w)"
| "send_attempts client outgoing_length expected_type expected_length (Suc n) frame w =
     (let (r, w1) = the (send_frame (config client)) w (take outgoing_length frame)
      in if r \<noteq> 0 then send_attempts client outgoing_length expected_type expected_length n frame w1
         else
           let (r', written, incoming_length, w2) =
                 the (receive_frame (config client)) w1 96 (timeout_ms (config client));
               frame' = memcpy frame 0 (take 96 written)
           in if r' \<noteq> 0 then send_attempts client outgoing_length expected_type expected_length n frame' w2
              else
                let (result, hd) = c0pq_decode_header (Some header_zero) (Some frame') incoming_length
                in if incoming_length = expected_length \<and> result = C0PQLINK_OK \<and> htype (the hd) = expected_type
                      \<and> hsession_id (the hd) = session_id client
                   then (C0PQLINK_OK, frame', w2)
                   else send_attempts client outgoing_length expected_type expected_length n frame' w2)"

definition send_and_receive ::
  "'w c0pq_client \<Rightarrow> bytes \<Rightarrow> nat \<Rightarrow> u8 \<Rightarrow> nat \<Rightarrow> 'w \<Rightarrow> status \<times> bytes \<times> 'w" where
  "send_and_receive client frame outgoing_length expected_type expected_length w =
     send_attempts client outgoing_length expected_type expected_length
       (unat (maximum_retries (config client)) + 1) frame w"

section \<open>Ciphertext fragments\<close>

record 'w ciphertext_writer =
  wr_client :: "'w c0pq_client"
  transcript :: c0_sha256_ctx
  session_auth_key :: bytes
  pending :: bytes
  pending_length :: u8
  fragment_index :: u8
  failure :: status

definition flush_ciphertext_fragment ::
  "'w ciphertext_writer \<Rightarrow> 'w \<Rightarrow> status \<times> 'w ciphertext_writer \<times> 'w" where
  "flush_ciphertext_fragment writer w =
     (let n = unat (pending_length writer); core_length = 10 + 3 + n; frame_length = core_length + 16
      in if pending_length writer = 0 \<or> fragment_index writer \<ge> 16 then (C0PQLINK_ERR_STATE, writer, w)
         else
           let f0 = the (snd (c0pq_encode_header (Some (replicate 96 0)) C0PQ_FRAME_CIPHERTEXT_FRAGMENT 0
                                (of_nat (3 + n + 16)) (session_id (wr_client writer))));
               f1 = memcpy f0 10 [fragment_index writer, 16, pending_length writer];
               f2 = memcpy f1 13 (take n (pending writer));
               f3 = memcpy f2 core_length
                      (c0pq_auth_tag (session_auth_key writer) ''C0PQ/1 ciphertext fragment'' (take core_length f2));
               (result, frame, w') = send_and_receive (wr_client writer) f3 frame_length C0PQ_FRAME_CIPHERTEXT_ACK 28 w
           in if result \<noteq> C0PQLINK_OK then (result, writer, w')
              else
                let (result, hd) = c0pq_decode_header (Some header_zero) (Some frame) 28
                in if result \<noteq> C0PQLINK_OK \<or> hflags (the hd) \<noteq> 0 \<or> payload_length (the hd) \<noteq> 28 - 10
                      \<or> frame ! 10 \<noteq> fragment_index writer \<or> frame ! 11 \<noteq> 0
                   then (C0PQLINK_ERR_STATE, writer, w')
                   else
                     let result = c0pq_verify_auth_tag (slice frame 12 16) (session_auth_key writer)
                                    ''C0PQ/1 ciphertext ack'' (take 12 frame)
                     in if result \<noteq> C0PQLINK_OK then (result, writer, w')
                        else (C0PQLINK_OK,
                              writer\<lparr>fragment_index := fragment_index writer + 1, pending_length := 0\<rparr>, w'))"

lemma flush_ok_pending:
  "flush_ciphertext_fragment writer w = (C0PQLINK_OK, writer', w') \<Longrightarrow> pending_length writer' = 0"
  by (auto simp: flush_ciphertext_fragment_def Let_def split: if_split_asm prod.split_asm)

text \<open>The copying loop. \<open>space\<close> is an unsigned difference, as in the C code.\<close>

definition fill_pending :: "'w ciphertext_writer \<Rightarrow> bytes \<Rightarrow> nat \<times> 'w ciphertext_writer" where
  "fill_pending writer data =
     (let space = unat (48 - ucast (pending_length writer) :: u32);
          n = (if length data < space then length data else space)
      in (n, writer\<lparr>pending := memcpy (pending writer) (unat (pending_length writer)) (take n data),
                    pending_length := of_nat (unat (pending_length writer) + n)\<rparr>))"

lemma ucast_u8_eq_48: "ucast (x :: u8) = (48 :: u32) \<longleftrightarrow> x = 48"
proof
  assume "ucast x = (48 :: u32)"
  then have "unat (ucast x :: u32) = 48" by simp
  then have "unat x = 48" using unat_u8_less [of x] by (simp add: unsigned_ucast_eq take_bit_nat_eq_self)
  then show "x = 48" by (simp add: word_unat_eq_iff)
qed simp

lemma fill_pending_progress:
  "data \<noteq> [] \<Longrightarrow> pending_length writer \<noteq> 48 \<Longrightarrow> 0 < fst (fill_pending writer data)"
  by (auto simp: fill_pending_def Let_def unat_gt_0 ucast_u8_eq_48)

lemma fill_pending_full:
  "pending_length writer = 48 \<Longrightarrow> fst (fill_pending writer data) = 0"
  by (simp add: fill_pending_def Let_def)

function write_pending ::
  "'w ciphertext_writer \<Rightarrow> bytes \<Rightarrow> 'w \<Rightarrow> status \<times> 'w ciphertext_writer \<times> 'w" where
  "write_pending writer data w =
     (if data = [] then (C0PQLINK_OK, writer, w)
      else
        let (n, writer1) = fill_pending writer data
        in if pending_length writer1 = 48
           then
             let (result, writer2, w') = flush_ciphertext_fragment writer1 w
             in if result \<noteq> C0PQLINK_OK then (result, writer2\<lparr>failure := result\<rparr>, w')
                else write_pending (writer2\<lparr>failure := result\<rparr>) (drop n data) w'
           else write_pending writer1 (drop n data) w)"
  by pat_completeness auto

termination
proof (relation "measure (\<lambda>(writer, data, w). 2 * length data + (if pending_length writer = 48 then 1 else 0))",
    goal_cases)
  case 1
  then show ?case by simp
next
  case (2 writer data w x n writer1 y result z writer2 w')
  then have "pending_length writer2 = 0" using flush_ok_pending by metis
  moreover have "0 < n \<or> pending_length writer = 48" using 2(1,2,3) fill_pending_progress [of data writer] by (metis fst_conv)
  ultimately show ?case using 2(1) by (cases data) (auto simp: diff_less_mono2)
next
  case (3 writer data w x n writer1)
  then have "0 < n"
    using fill_pending_progress [of data writer] fill_pending_full [of writer data]
    by (cases "pending_length writer = 48") (auto simp: fill_pending_def Let_def)
  then show ?case using 3 by (cases data) auto
qed


declare write_pending.simps [simp del]

text \<open>The callback of the encapsulation, on the joint state of the writer and the world.\<close>

definition write_ciphertext :: "('w ciphertext_writer \<times> 'w) ct_write" where
  "write_ciphertext s data =
     (case s of (writer, w) \<Rightarrow>
        if failure writer \<noteq> C0PQLINK_OK then (status_code (failure writer), (writer, w))
        else
          let writer1 = writer\<lparr>transcript := c0_sha256_update (transcript writer) data\<rparr>;
              (result, writer2, w') = write_pending writer1 data w
          in (status_code result, (writer2, w')))"

section \<open>Initialisation\<close>

definition config_zero :: "'w c0pq_client_config" where
  "config_zero =
     \<lparr>device_id = replicate 8 0, psk = replicate 32 0, cfg_epoch = 0, public_key_id = replicate 16 0,
      read_public_key = None, random_bytes = None, send_frame = None, receive_frame = None,
      mode = 0, timeout_ms = 0, maximum_retries = 0\<rparr>"

definition client_zero :: "'w c0pq_client" where
  "client_zero =
     \<lparr>config = config_zero, client_state = C0PQ_CLIENT_UNINITIALIZED, session_id = 0,
      send_secret = replicate 32 0, receive_secret = replicate 32 0,
      send_nonce_base = replicate 16 0, receive_nonce_base = replicate 16 0,
      send_sequence = 0, receive_sequence = 0\<rparr>"

definition c0pq_client_init ::
  "'w c0pq_client option \<Rightarrow> 'w c0pq_client_config option \<Rightarrow> status \<times> 'w c0pq_client option" where
  "c0pq_client_init client conf =
     (let psk_or = (case conf of Some cf \<Rightarrow> fold (\<lambda>i x. x OR psk cf ! i) [0..<32] 0 | None \<Rightarrow> 0);
          key_id_or = (case conf of Some cf \<Rightarrow> fold (\<lambda>i x. x OR public_key_id cf ! i) [0..<16] 0 | None \<Rightarrow> 0)
      in case (client, conf) of
           (Some c, Some cf) \<Rightarrow>
             if read_public_key cf = None \<or> random_bytes cf = None \<or> send_frame cf = None \<or> receive_frame cf = None
                \<or> psk_or = 0 \<or> key_id_or = 0
                \<or> (mode cf \<noteq> C0PQ_FULL_PQ_EACH_SESSION \<and> mode cf \<noteq> C0PQ_PQ_BOOTSTRAP_RATCHET)
             then (C0PQLINK_ERR_ARGUMENT, client)
             else
               let c1 = client_zero\<lparr>config := cf\<rparr>;
                   c2 = (if timeout_ms (config c1) = 0 then c1\<lparr>config := (config c1)\<lparr>timeout_ms := 3000\<rparr>\<rparr> else c1)
               in (C0PQLINK_OK, Some (c2\<lparr>client_state := C0PQ_CLIENT_READY\<rparr>))
         | _ \<Rightarrow> (C0PQLINK_ERR_ARGUMENT, client))"

section \<open>Connecting\<close>

definition verify_challenge_matches :: "'w c0pq_client \<Rightarrow> c0pq_challenge \<Rightarrow> bytes \<Rightarrow> status" where
  "verify_challenge_matches client challenge device_nonce =
     (if ch_suite challenge \<noteq> C0PQ_SUITE \<or> ch_epoch challenge \<noteq> cfg_epoch (config client)
         \<or> \<not> c0pqlink_ct_equal (ch_key_id challenge) (public_key_id (config client)) 16
         \<or> \<not> c0pqlink_ct_equal (ch_device_nonce challenge) device_nonce 16
      then C0PQLINK_ERR_AUTH else C0PQLINK_OK)"

definition exchange_finished ::
  "'w c0pq_client \<Rightarrow> c0pq_session_keys \<Rightarrow> bytes \<Rightarrow> 'w \<Rightarrow> status \<times> 'w" where
  "exchange_finished client keys transcript_hash w =
     (let f0 = the (snd (c0pq_encode_header (Some (replicate 96 0)) C0PQ_FRAME_DEVICE_FINISHED 0 16 (session_id client)));
          f1 = memcpy f0 10 (c0pq_finished_tag (device_finished_key keys) C0PQ_FRAME_DEVICE_FINISHED
                 (session_id client) transcript_hash);
          (result, frame, w') = send_and_receive client f1 26 C0PQ_FRAME_SERVER_FINISHED 26 w
      in if result \<noteq> C0PQLINK_OK then (result, w')
         else
           let (result, hd) = c0pq_decode_header (Some header_zero) (Some frame) 26
           in if result \<noteq> C0PQLINK_OK \<or> hflags (the hd) \<noteq> 0 \<or> payload_length (the hd) \<noteq> 16
              then (C0PQLINK_ERR_STATE, w')
              else
                let expected = c0pq_finished_tag (server_finished_key keys) C0PQ_FRAME_SERVER_FINISHED
                                 (session_id client) transcript_hash
                in (if c0pqlink_ct_equal expected (slice frame 10 16) 16 then C0PQLINK_OK else C0PQLINK_ERR_AUTH, w'))"

text \<open>The failure exit: wiped workspace and secrets, terminal state.\<close>

definition wipe_secrets :: "'w c0pq_client \<Rightarrow> 'w c0pq_client" where
  "wipe_secrets client =
     client\<lparr>send_secret := c0pqlink_secure_zero (send_secret client) 32,
            receive_secret := c0pqlink_secure_zero (receive_secret client) 32,
            send_nonce_base := c0pqlink_secure_zero (send_nonce_base client) 16,
            receive_nonce_base := c0pqlink_secure_zero (receive_nonce_base client) 16\<rparr>"

definition connect_fail ::
  "status \<Rightarrow> 'w c0pq_client \<Rightarrow> 'w \<Rightarrow> status \<times> 'w c0pq_client \<times> mlkem_workspace_internal \<times> 'w" where
  "connect_fail result client w =
     (result, (wipe_secrets client)\<lparr>client_state := C0PQ_CLIENT_FAILED\<rparr>, workspace_zero, w)"

text \<open>The preflight: nonce, hello, and the exchange for the challenge. The result carries the client,
  the received frame, the nonce and the transcript.\<close>

definition connect_hello ::
  "'w c0pq_client \<Rightarrow> 'w \<Rightarrow> status \<times> 'w c0pq_client \<times> bytes \<times> bytes \<times> c0_sha256_ctx \<times> 'w" where
  "connect_hello client w =
     (let (r, random, w1) = the (random_bytes (config client)) w 16;
          device_nonce = memcpy (replicate 16 0) 0 (take 16 random)
      in if r \<noteq> 0 then (C0PQLINK_ERR_RNG, client, replicate 96 0, device_nonce, c0_sha256_init, w1)
         else
           let client1 = client\<lparr>session_id := c0pq_load32_be (take 4 device_nonce) XOR 0xc0505101\<rparr>;
               hello = hello_zero\<lparr>hello_suite := C0PQ_SUITE, hello_device_id := take 8 (device_id (config client)),
                                 hello_epoch := cfg_epoch (config client), hello_nonce := device_nonce\<rparr>;
               (result, f) = c0pq_encode_hello (Some (replicate 96 0)) (session_id client1) (Some hello)
                               (Some (psk (config client)));
               frame = the f
           in if result \<noteq> C0PQLINK_OK then (result, client1, frame, device_nonce, c0_sha256_init, w1)
              else
                let tr = c0pq_transcript_add_hello c0pq_transcript_init frame;
                    (result, frame', w2) = send_and_receive client1 frame 60 C0PQ_FRAME_CHALLENGE 84 w1
                in (result, client1, frame', device_nonce, tr, w2))"

text \<open>Verification of the challenge and the writer it starts.\<close>

definition connect_challenge ::
  "'w c0pq_client \<Rightarrow> bytes \<Rightarrow> bytes \<Rightarrow> c0_sha256_ctx \<Rightarrow> status \<times> 'w ciphertext_writer" where
  "connect_challenge client frame device_nonce tr =
     (let writer0 = \<lparr>wr_client = client, transcript = tr, session_auth_key = replicate 32 0,
                     pending = replicate 48 0, pending_length = 0, fragment_index = 0, failure = C0PQLINK_OK\<rparr>;
          (result, ch) = c0pq_decode_verify_challenge (Some challenge_zero) (session_id client) (Some frame) 84
                           (Some (psk (config client)));
          challenge = the ch
      in if result \<noteq> C0PQLINK_OK then (result, writer0)
         else
           let result = verify_challenge_matches client challenge device_nonce
           in if result \<noteq> C0PQLINK_OK then (result, writer0)
              else (C0PQLINK_OK,
                    writer0\<lparr>transcript := c0pq_transcript_add_challenge tr frame,
                            session_auth_key :=
                              c0pq_derive_session_auth_key (psk (config client)) (ch_suite challenge)
                                (ch_epoch challenge) (ch_key_id challenge) (ch_device_nonce challenge)
                                (ch_server_nonce challenge)\<rparr>))"

text \<open>Encapsulation streamed through the writer, the last flush and the fragment count. The random
  source and the key reader act on the world part of the joint state.\<close>

definition lift_rng :: "'w rng \<Rightarrow> ('w ciphertext_writer \<times> 'w) rng" where
  "lift_rng rng = (\<lambda>(writer, w) n. let (r, b, w') = rng w n in (r, b, (writer, w')))"

definition lift_read :: "'w pk_read \<Rightarrow> ('w ciphertext_writer \<times> 'w) pk_read" where
  "lift_read rd = (\<lambda>(writer, w) offset. let (b, w') = rd w offset in (b, (writer, w')))"

definition connect_ciphertext ::
  "'w c0pq_client \<Rightarrow> 'w ciphertext_writer \<Rightarrow> mlkem_workspace_internal \<Rightarrow> 'w
     \<Rightarrow> (status \<times> bytes \<times> 'w ciphertext_writer \<times> 'w) option" where
  "connect_ciphertext client writer workspace w = do {
     (result, ss, ws, (writer1, w1)) \<leftarrow>
        c0_mlkem512_encapsulate (map_option lift_read (read_public_key (config client)))
          (map_option lift_rng (random_bytes (config client)))
          (Some write_ciphertext) (writer, w) (Some (replicate 32 0)) (Some workspace);
     let (result, writer2, w2) =
        (if result = C0PQLINK_OK \<and> pending_length writer1 \<noteq> 0 then flush_ciphertext_fragment writer1 w1
         else (result, writer1, w1));
     let result = (if result = C0PQLINK_OK \<and> (fragment_index writer2 \<noteq> 16 \<or> failure writer2 \<noteq> C0PQLINK_OK)
                   then C0PQLINK_ERR_IO else result);
     let writer3 = writer2\<lparr>session_auth_key := c0pqlink_secure_zero (session_auth_key writer2) 32\<rparr>;
     Some (result, if result \<noteq> C0PQLINK_OK then c0pqlink_secure_zero (the ss) 32 else the ss, writer3, w2)
   }"

text \<open>Key derivation, the finished exchange and the installation of the keys. The session keys lie
  over the wiped workspace, so they start as zeros.\<close>

definition install_keys :: "c0pq_session_keys \<Rightarrow> 'w c0pq_client \<Rightarrow> 'w c0pq_client" where
  "install_keys keys client =
     (let c1 = client\<lparr>send_secret := replicate 32 0, receive_secret := replicate 32 0\<rparr>;
          c2 = (if mode (config c1) = C0PQ_PQ_BOOTSTRAP_RATCHET
                then c1\<lparr>send_secret := take 32 (client_chain_key keys), receive_secret := take 32 (server_chain_key keys)\<rparr>
                else c1\<lparr>send_secret := memcpy (send_secret c1) 0 (take 16 (client_traffic_key keys)),
                        receive_secret := memcpy (receive_secret c1) 0 (take 16 (server_traffic_key keys))\<rparr>)
      in c2\<lparr>send_nonce_base := take 16 (client_nonce_base keys),
            receive_nonce_base := take 16 (server_nonce_base keys),
            send_sequence := 0, receive_sequence := 0, client_state := C0PQ_CLIENT_ESTABLISHED\<rparr>)"

definition connect_finish ::
  "'w c0pq_client \<Rightarrow> bytes \<Rightarrow> c0_sha256_ctx \<Rightarrow> 'w
     \<Rightarrow> status \<times> 'w c0pq_client \<times> mlkem_workspace_internal \<times> 'w" where
  "connect_finish client shared_secret tr w =
     (let transcript_hash = fst (c0_sha256_final tr);
          (result, ks) = c0pq_derive_session_keys (Some session_keys_zero) (Some (psk (config client)))
                           (Some shared_secret) (Some transcript_hash);
          session_keys = the ks
      in if result \<noteq> C0PQLINK_OK then connect_fail result client w
         else
           let (result, w') = exchange_finished client session_keys transcript_hash w
           in if result \<noteq> C0PQLINK_OK then connect_fail result client w'
              else (C0PQLINK_OK, install_keys session_keys client, workspace_zero, w'))"

definition connect_run ::
  "'w c0pq_client \<Rightarrow> mlkem_workspace_internal \<Rightarrow> 'w
     \<Rightarrow> (status \<times> 'w c0pq_client \<times> mlkem_workspace_internal \<times> 'w) option" where
  "connect_run c ws w =
     (let (result, c1, frame, device_nonce, tr, w1) = connect_hello (c\<lparr>client_state := C0PQ_CLIENT_CONNECTING\<rparr>) w
      in if result \<noteq> C0PQLINK_OK then Some (connect_fail result c1 w1)
         else
           let (result, writer) = connect_challenge c1 frame device_nonce tr
           in if result \<noteq> C0PQLINK_OK then Some (connect_fail result c1 w1)
              else do {
                (result, shared_secret, writer', w2) \<leftarrow> connect_ciphertext c1 writer ws w1;
                if result \<noteq> C0PQLINK_OK then Some (connect_fail result c1 w2)
                else Some (connect_finish c1 shared_secret (transcript writer') w2)
              })"

definition c0pq_client_connect ::
  "'w c0pq_client option \<Rightarrow> mlkem_workspace_internal option \<Rightarrow> 'w
     \<Rightarrow> (status \<times> 'w c0pq_client option \<times> mlkem_workspace_internal option \<times> 'w) option" where
  "c0pq_client_connect client workspace w =
     (case (client, workspace) of
        (Some c, Some ws) \<Rightarrow>
          if client_state c \<noteq> C0PQ_CLIENT_READY then Some (C0PQLINK_ERR_STATE, client, workspace, w)
          else map_option (\<lambda>(r, c', ws', w'). (r, Some c', Some ws', w')) (connect_run c ws w)
      | _ \<Rightarrow> Some (C0PQLINK_ERR_STATE, client, workspace, w))"

definition c0pq_client_close :: "'w c0pq_client option \<Rightarrow> 'w c0pq_client option" where
  "c0pq_client_close client =
     (case client of
        None \<Rightarrow> None
      | Some c \<Rightarrow> Some ((wipe_secrets c)\<lparr>send_sequence := 0, receive_sequence := 0, session_id := 0,
                                         client_state := C0PQ_CLIENT_READY\<rparr>))"

end
