(* ===== verification/Fragments.thy ===== *)
theory Fragments
  imports Client
begin

text \<open>
  What the client of \<open>session/fragment.c\<close> puts on the wire: the bounded frame exchange and the
  writer that cuts the ciphertext into fragments. The statements about sent frames are made
  through \<open>logs_frames\<close>: \<open>sent\<close> reads off the world the frames the transport was given.
\<close>

unbundle bit_operations_syntax

section \<open>The frame exchange\<close>

definition logs_frames :: "'w c0pq_client \<Rightarrow> ('w \<Rightarrow> bytes list) \<Rightarrow> bool" where
  "logs_frames client sent \<longleftrightarrow>
     (\<forall>w f. sent (snd (the (send_frame (config client)) w f)) = sent w @ [f]) \<and>
     (\<forall>w cap t. sent (snd (snd (snd (the (receive_frame (config client)) w cap t)))) = sent w)"

text \<open>One attempt: the send fails, or an answer is not the expected one, or it is.\<close>

lemma send_attempts_SucE:
  assumes "send_attempts client ol ty el (Suc n) frame w = res"
  obtains
    (unsent) r w1 where "the (send_frame (config client)) w (take ol frame) = (r, w1)"
      and "send_attempts client ol ty el n frame w1 = res"
  | (retry) r w1 r' b l w2 where "the (send_frame (config client)) w (take ol frame) = (r, w1)"
      and "the (receive_frame (config client)) w1 96 (timeout_ms (config client)) = (r', b, l, w2)"
      and "send_attempts client ol ty el n (memcpy frame 0 (take 96 b)) w2 = res"
  | (accept) r w1 b w2 h where "the (send_frame (config client)) w (take ol frame) = (r, w1)"
      and "the (receive_frame (config client)) w1 96 (timeout_ms (config client)) = (0, b, el, w2)"
      and "c0pq_decode_header (Some header_zero) (Some (memcpy frame 0 (take 96 b))) el = (C0PQLINK_OK, Some h)"
      and "htype h = ty" and "hsession_id h = session_id client"
      and "res = (C0PQLINK_OK, memcpy frame 0 (take 96 b), w2)"
proof -
  obtain r w1 where s: "the (send_frame (config client)) w (take ol frame) = (r, w1)" by fastforce
  obtain r' b l w2 where v: "the (receive_frame (config client)) w1 96 (timeout_ms (config client)) = (r', b, l, w2)"
    by (metis prod_cases4)
  obtain st d where d: "c0pq_decode_header (Some header_zero) (Some (memcpy frame 0 (take 96 b))) l = (st, d)" by fastforce
  then have "d \<noteq> None" by (auto simp: c0pq_decode_header_def Let_def split: if_split_asm)
  then obtain h where h: "d = Some h" by blast
  let ?f = "memcpy frame 0 (take 96 b)"
  have eq: "res = (if r \<noteq> 0 then send_attempts client ol ty el n frame w1
      else if r' \<noteq> 0 then send_attempts client ol ty el n ?f w2
      else if l = el \<and> st = C0PQLINK_OK \<and> htype h = ty \<and> hsession_id h = session_id client
      then (C0PQLINK_OK, ?f, w2) else send_attempts client ol ty el n ?f w2)"
    using assms [symmetric] by (simp add: s v d h Let_def)
  show ?thesis
  proof (cases "r = 0 \<and> r' = 0 \<and> l = el \<and> st = C0PQLINK_OK \<and> htype h = ty \<and> hsession_id h = session_id client")
    case True
    with eq s v d h accept [of r w1 b w2 h] show ?thesis by simp
  next
    case False
    with eq s v unsent [of r w1] retry [of r w1 r' b l w2] show ?thesis by (auto split: if_split_asm)
  qed
qed

lemma send_attempts_status:
  "send_attempts client ol ty el n frame w = (st, frame', w') \<Longrightarrow> st = C0PQLINK_OK \<or> st = C0PQLINK_ERR_IO"
proof (induction n arbitrary: frame w)
  case (Suc n)
  from Suc.prems show ?case by (rule send_attempts_SucE) (use Suc.IH in auto)
qed simp

lemma send_attempts_length:
  "send_attempts client ol ty el n frame w = (st, frame', w') \<Longrightarrow> length frame = 96 \<Longrightarrow> length frame' = 96"
proof (induction n arbitrary: frame w)
  case (Suc n)
  from Suc.prems(1) show ?case by (rule send_attempts_SucE) (use Suc in auto)
qed simp

lemma send_attempts_accepts:
  "send_attempts client ol ty el n frame w = (C0PQLINK_OK, frame', w') \<Longrightarrow>
   \<exists>h. c0pq_decode_header (Some header_zero) (Some frame') el = (C0PQLINK_OK, Some h) \<and>
     htype h = ty \<and> hsession_id h = session_id client"
proof (induction n arbitrary: frame w)
  case (Suc n)
  from Suc.prems show ?case by (rule send_attempts_SucE) (use Suc.IH in auto)
qed simp

lemma send_attempts_log:
  assumes log: "logs_frames client sent"
  shows "send_attempts client ol ty el n frame w = (st, frame', w') \<Longrightarrow>
   \<exists>js. sent w' = sent w @ js \<and> length js \<le> n \<and> (0 < n \<longrightarrow> js \<noteq> [] \<and> hd js = take ol frame)"
proof (induction n arbitrary: frame w)
  case (Suc n)
  have snd1: "sent w1 = sent u @ [f]" if "the (send_frame (config client)) u f = (r, w1)" for u f r w1
    using log that by (simp add: logs_frames_def) (metis snd_conv)
  have rcv: "sent w2 = sent w1" if "the (receive_frame (config client)) w1 cap t = (r, b, l, w2)" for w1 cap t r b l w2
    using log that by (simp add: logs_frames_def) (metis snd_conv)
  have more: ?case if "\<exists>js. sent w' = (sent w @ [take ol frame]) @ js \<and> length js \<le> n"
    using that by (metis append_assoc append_Cons append_Nil list.sel(1) list.size(4) Suc_le_mono list.distinct(1) add.right_neutral add_Suc_right)
  from Suc.prems show ?case
  proof (rule send_attempts_SucE)
    fix r w1 assume a: "the (send_frame (config client)) w (take ol frame) = (r, w1)"
      and "send_attempts client ol ty el n frame w1 = (st, frame', w')"
    from Suc.IH [OF this(2)] snd1 [OF a] show ?case by (intro more) auto
  next
    fix r w1 r' b l w2 assume a: "the (send_frame (config client)) w (take ol frame) = (r, w1)"
      and b: "the (receive_frame (config client)) w1 96 (timeout_ms (config client)) = (r', b, l, w2)"
      and "send_attempts client ol ty el n (memcpy frame 0 (take 96 b)) w2 = (st, frame', w')"
    from Suc.IH [OF this(3)] snd1 [OF a] rcv [OF b] show ?case by (intro more) auto
  next
    fix r w1 b w2 h assume a: "the (send_frame (config client)) w (take ol frame) = (r, w1)"
      and b: "the (receive_frame (config client)) w1 96 (timeout_ms (config client)) = (0, b, el, w2)"
      and "(st, frame', w') = (C0PQLINK_OK, memcpy frame 0 (take 96 b), w2)"
    with snd1 [OF a] rcv [OF b] show ?case by (intro more) auto
  qed
qed simp

text \<open>The whole exchange: the first frame sent is the intended one and at most
  \<open>maximum_retries\<close> follow.\<close>

lemma exchange_log:
  assumes "logs_frames client sent" and "send_and_receive client frame ol ty el w = (st, frame', w')"
  obtains js where "sent w' = sent w @ take ol frame # js" and "length js \<le> unat (maximum_retries (config client))"
proof -
  obtain js where js: "sent w' = sent w @ js" "length js \<le> unat (maximum_retries (config client)) + 1"
    "js \<noteq> []" "hd js = take ol frame"
    using send_attempts_log [OF assms(1) assms(2) [unfolded send_and_receive_def]] by auto
  then have "js = take ol frame # tl js" by (cases js) auto
  with js show ?thesis using that [of "tl js"] by (metis Suc_eq_plus1 Suc_le_mono length_Cons)
qed

lemma exchange_accepts:
  assumes "send_and_receive client frame ol ty el w = (C0PQLINK_OK, frame', w')" and "length frame = 96" and "el \<le> 96"
  shows "length frame' = 96"
    and "\<exists>n fl. el = unat n + 10 \<and> take 10 frame' = header_bytes ty fl n (session_id client)"
proof -
  note run = assms(1) [unfolded send_and_receive_def]
  show len: "length frame' = 96" using send_attempts_length [OF run assms(2)] .
  obtain h where "c0pq_decode_header (Some header_zero) (Some frame') el = (C0PQLINK_OK, Some h)"
    "htype h = ty" "hsession_id h = session_id client"
    using send_attempts_accepts [OF run] by blast
  then show "\<exists>n fl. el = unat n + 10 \<and> take 10 frame' = header_bytes ty fl n (session_id client)"
    using decode_header_ok_iff [of el frame' header_zero h] len assms(3) by auto
qed

text \<open>The last call of the transport delivered \<open>n\<close> bytes and left \<open>f\<close> at the front of the
  receive buffer.\<close>

definition delivered :: "'w c0pq_client \<Rightarrow> bytes \<Rightarrow> nat \<Rightarrow> 'w \<Rightarrow> bool" where
  "delivered client f n w' \<longleftrightarrow>
     (\<exists>w t b buf. the (receive_frame (config client)) w 96 t = (0, b, n, w') \<and> take n (memcpy buf 0 (take 96 b)) = f)"

lemma send_attempts_delivered:
  "send_attempts client ol ty el n frame w = (C0PQLINK_OK, frame', w') \<Longrightarrow> delivered client (take el frame') el w'"
proof (induction n arbitrary: frame w)
  case (Suc n)
  from Suc.prems show ?case by (rule send_attempts_SucE) (use Suc.IH in \<open>auto simp: delivered_def\<close>)
qed simp

lemma exchange_delivered:
  "send_and_receive client frame ol ty el w = (C0PQLINK_OK, frame', w') \<Longrightarrow> delivered client (take el frame') el w'"
  unfolding send_and_receive_def by (rule send_attempts_delivered)

lemma delivered_config: "config c' = config c \<Longrightarrow> delivered c' f n w = delivered c f n w"
  by (simp add: delivered_def)

section \<open>Fragments and acknowledgements\<close>

definition fragment_core :: "u32 \<Rightarrow> u8 \<Rightarrow> bytes \<Rightarrow> bytes" where
  "fragment_core sid idx data =
     header_bytes C0PQ_FRAME_CIPHERTEXT_FRAGMENT 0 (of_nat (length data + 19)) sid @ [idx, 16, of_nat (length data)] @ data"

definition fragment_frame :: "bytes \<Rightarrow> u32 \<Rightarrow> u8 \<Rightarrow> bytes \<Rightarrow> bytes" where
  "fragment_frame key sid idx data =
     fragment_core sid idx data @ c0pq_auth_tag key ''C0PQ/1 ciphertext fragment'' (fragment_core sid idx data)"

definition ack_core :: "u32 \<Rightarrow> u8 \<Rightarrow> bytes" where
  "ack_core sid idx = header_bytes C0PQ_FRAME_CIPHERTEXT_ACK 0 18 sid @ [idx, 0]"

definition ack_frame :: "bytes \<Rightarrow> u32 \<Rightarrow> u8 \<Rightarrow> bytes" where
  "ack_frame key sid idx = ack_core sid idx @ c0pq_auth_tag key ''C0PQ/1 ciphertext ack'' (ack_core sid idx)"

lemma length_fragment_core [simp]: "length (fragment_core sid idx data) = 13 + length data"
  by (simp add: fragment_core_def)

lemma length_fragment_frame [simp]: "length (fragment_frame key sid idx data) = 29 + length data"
  by (simp add: fragment_frame_def)

lemma length_ack_core [simp]: "length (ack_core sid idx) = 12"
  by (simp add: ack_core_def)

text \<open>The buffer \<open>flush\<close> prepares is the fragment frame.\<close>

lemma fragment_buffer:
  fixes sid :: u32 and idx pl :: u8 and data key :: bytes and n :: nat
  assumes "length data = n" and "n \<le> 48" and "unat pl = n"
  defines "f0 \<equiv> the (snd (c0pq_encode_header (Some (replicate 96 0)) C0PQ_FRAME_CIPHERTEXT_FRAGMENT 0
                            (of_nat (3 + n + 16)) sid))"
  defines "f2 \<equiv> memcpy (memcpy f0 10 [idx, 16, pl]) 13 data"
  shows "memcpy f2 (10 + 3 + n) (c0pq_auth_tag key ''C0PQ/1 ciphertext fragment'' (take (10 + 3 + n) f2))
     = fragment_frame key sid idx data @ replicate (67 - n) 0"
proof -
  define v where "v = (of_nat (3 + n + 16) :: u16)"
  have "unat v = 3 + n + 16" unfolding v_def using assms(2) by (intro unat_of_nat_u16) simp
  then have le: "v \<le> 255" using assms(2) by (simp add: word_le_nat_alt)
  have uc: "ucast v = (of_nat (n + 19) :: u8)"
    unfolding v_def ucast_of_nat_u16 by (simp add: add.commute)
  have "of_nat (unat pl) = pl" by simp
  then have pl: "of_nat (length data) = pl" unfolding assms(1,3) .
  have f0: "f0 = memcpy (replicate 96 0) 0 (header_bytes C0PQ_FRAME_CIPHERTEXT_FRAGMENT 0 (of_nat (n + 19)) sid)"
    unfolding f0_def v_def [symmetric] using le by (simp add: encode_header_ok uc)
  have f2: "f2 = memcpy (replicate 96 0) 0 (fragment_core sid idx data)"
    unfolding f2_def f0 using assms(1,2) pl by (simp add: memcpy_memcpy fragment_core_def)
  have core: "take (10 + 3 + n) f2 = fragment_core sid idx data"
    unfolding f2 using assms(1,2) by (simp add: memcpy_def)
  show ?thesis
    unfolding core unfolding f2 using assms(1,2)
    by (subst memcpy_memcpy) (simp_all add: fragment_frame_def [symmetric] memcpy_front)
qed

definition writer_fragment :: "'w ciphertext_writer \<Rightarrow> bytes" where
  "writer_fragment wr = fragment_frame (session_auth_key wr) (session_id (wr_client wr)) (fragment_index wr)
     (take (unat (pending_length wr)) (pending wr))"

text \<open>The acknowledgement that \<open>flush\<close> accepts is the one of this fragment, exactly.\<close>

lemma ack_accepted:
  assumes len: "length frame = 96"
    and hdr: "take 10 frame = header_bytes C0PQ_FRAME_CIPHERTEXT_ACK fl n sid" and n: "28 = unat n + 10"
  shows "(fst (c0pq_decode_header (Some header_zero) (Some frame) 28) = C0PQLINK_OK \<and>
      hflags (the (snd (c0pq_decode_header (Some header_zero) (Some frame) 28))) = 0 \<and>
      payload_length (the (snd (c0pq_decode_header (Some header_zero) (Some frame) 28))) = 28 - 10 \<and>
      frame ! 10 = idx \<and> frame ! 11 = 0 \<and>
      c0pq_verify_auth_tag (slice frame 12 16) key ''C0PQ/1 ciphertext ack'' (take 12 frame) = C0PQLINK_OK)
    \<longleftrightarrow> take 28 frame = ack_frame key sid idx"
proof -
  have n18: "n = 18" using n by (simp add: word_unat_eq_iff)
  have dec: "c0pq_decode_header (Some header_zero) (Some frame) 28 =
      (C0PQLINK_OK, Some \<lparr>htype = C0PQ_FRAME_CIPHERTEXT_ACK, hflags = fl, payload_length = ucast n, hsession_id = sid\<rparr>)"
    using len hdr n by (subst decode_header_ok_iff) (auto intro!: exI [of _ n])
  have "take (10 + 2) frame = take 10 frame @ slice frame 10 2" unfolding take_add by (simp add: slice_def)
  moreover have "slice frame 10 2 = [frame ! 10, frame ! 11]"
    using list_of_length2 [of "slice frame 10 2"] len by simp
  ultimately have t12: "take 12 frame = header_bytes C0PQ_FRAME_CIPHERTEXT_ACK fl 18 sid @ [frame ! 10, frame ! 11]"
    using hdr n18 by simp
  have t28: "take 28 frame = take 12 frame @ slice frame 12 16"
    using take_add [of 12 16 frame] by (simp add: slice_def)
  have core: "take 12 frame = ack_core sid idx \<longleftrightarrow> fl = 0 \<and> frame ! 10 = idx \<and> frame ! 11 = 0"
    unfolding t12 by (simp add: ack_core_def header_bytes_def)
  have sl: "length (slice frame 12 16) = 16" using len by simp
  have "take 28 frame = ack_frame key sid idx \<longleftrightarrow> take 12 frame = ack_core sid idx \<and>
      slice frame 12 16 = c0pq_auth_tag key ''C0PQ/1 ciphertext ack'' (ack_core sid idx)"
    unfolding t28 ack_frame_def using len by (subst append_eq_append_conv) simp_all
  then show ?thesis using core sl by (auto simp: dec n18 verify_auth_tag_iff)
qed

text \<open>The flush, given the outcome of its exchange.\<close>

lemma flush_exchange:
  assumes pend: "length (pending wr) = 48" and pl: "unat (pending_length wr) \<le> 48"
    and x: "send_and_receive (wr_client wr) (writer_fragment wr @ replicate (67 - unat (pending_length wr)) 0)
      (29 + unat (pending_length wr)) C0PQ_FRAME_CIPHERTEXT_ACK 28 w = (st, frame, w1)"
    and d: "c0pq_decode_header (Some header_zero) (Some frame) 28 = (st1, dh)"
  defines "v \<equiv> c0pq_verify_auth_tag (slice frame 12 16) (session_auth_key wr) ''C0PQ/1 ciphertext ack'' (take 12 frame)"
  shows "flush_ciphertext_fragment wr w =
     (if pending_length wr = 0 \<or> fragment_index wr \<ge> 16 then (C0PQLINK_ERR_STATE, wr, w)
      else if st \<noteq> C0PQLINK_OK then (st, wr, w1)
      else if st1 \<noteq> C0PQLINK_OK \<or> hflags (the dh) \<noteq> 0 \<or> payload_length (the dh) \<noteq> 28 - 10
              \<or> frame ! 10 \<noteq> fragment_index wr \<or> frame ! 11 \<noteq> 0 then (C0PQLINK_ERR_STATE, wr, w1)
      else if v \<noteq> C0PQLINK_OK then (v, wr, w1)
      else (C0PQLINK_OK, wr\<lparr>fragment_index := fragment_index wr + 1, pending_length := 0\<rparr>, w1))"
proof -
  let ?n = "unat (pending_length wr)"
  have buf: "length (take ?n (pending wr)) = ?n" using pend pl by simp
  show ?thesis
    unfolding flush_ciphertext_fragment_def Let_def v_def
      fragment_buffer [OF buf pl refl, of "session_id (wr_client wr)" "fragment_index wr" "session_auth_key wr"]
    using x d by (simp add: writer_fragment_def [symmetric] add.commute [of ?n])
qed

lemma length_writer_fragment:
  "length (pending wr) = 48 \<Longrightarrow> unat (pending_length wr) \<le> 48 \<Longrightarrow> length (writer_fragment wr) = 29 + unat (pending_length wr)"
  by (simp add: writer_fragment_def)

lemma flush_ok:
  assumes run: "flush_ciphertext_fragment wr w = (C0PQLINK_OK, wr', w')"
    and pend: "length (pending wr) = 48" and pl: "unat (pending_length wr) \<le> 48"
  obtains frame rest where "wr' = wr\<lparr>fragment_index := fragment_index wr + 1, pending_length := 0\<rparr>"
    and "pending_length wr \<noteq> 0" and "fragment_index wr < 16"
    and "send_and_receive (wr_client wr) (writer_fragment wr @ rest) (29 + unat (pending_length wr))
           C0PQ_FRAME_CIPHERTEXT_ACK 28 w = (C0PQLINK_OK, frame, w')"
    and "take 28 frame = ack_frame (session_auth_key wr) (session_id (wr_client wr)) (fragment_index wr)"
proof -
  let ?n = "unat (pending_length wr)" and ?sid = "session_id (wr_client wr)"
  let ?b = "writer_fragment wr @ replicate (67 - ?n) 0"
  obtain st frame w1 where x: "send_and_receive (wr_client wr) ?b (29 + ?n) C0PQ_FRAME_CIPHERTEXT_ACK 28 w
      = (st, frame, w1)" by (metis prod_cases3)
  obtain st1 hd where d: "c0pq_decode_header (Some header_zero) (Some frame) 28 = (st1, hd)" by fastforce
  note eq = flush_exchange [OF pend pl x d]
  have g: "pending_length wr \<noteq> 0 \<and> \<not> fragment_index wr \<ge> 16" by (rule ccontr) (use run eq in simp)
  have s: "st = C0PQLINK_OK" by (rule ccontr) (use run eq g in simp)
  have h: "st1 = C0PQLINK_OK \<and> hflags (the hd) = 0 \<and> payload_length (the hd) = 28 - 10
              \<and> frame ! 10 = fragment_index wr \<and> frame ! 11 = 0"
    by (rule ccontr) (use run eq g s in simp)
  have v: "c0pq_verify_auth_tag (slice frame 12 16) (session_auth_key wr) ''C0PQ/1 ciphertext ack'' (take 12 frame) = C0PQLINK_OK"
    by (rule ccontr) (use run eq g s h in simp)
  have r: "w1 = w'" "wr' = wr\<lparr>fragment_index := fragment_index wr + 1, pending_length := 0\<rparr>"
    using run eq g s h v by simp_all
  have lenb: "length ?b = 96" using length_writer_fragment [OF pend pl] pl by simp
  obtain n fl where hdr: "28 = unat n + 10" "take 10 frame = header_bytes C0PQ_FRAME_CIPHERTEXT_ACK fl n ?sid"
    and lf: "length frame = 96"
    using exchange_accepts [OF x [unfolded s] lenb] by auto
  have "take 28 frame = ack_frame (session_auth_key wr) ?sid (fragment_index wr)"
    using ack_accepted [OF lf hdr(2,1), of "fragment_index wr" "session_auth_key wr"] d h v by simp
  with that [of "replicate (67 - ?n) 0" frame] x s g r show ?thesis by (simp add: not_le)
qed

section \<open>The writer\<close>

text \<open>The fragments \<open>i, \<dots>, j - 1\<close> of the data, 48 bytes each, and the writer that has been
  given the data \<open>D\<close> and has not failed: full fragments are gone and acknowledged, the rest waits.\<close>

definition fragment_range :: "bytes \<Rightarrow> u32 \<Rightarrow> bytes \<Rightarrow> nat \<Rightarrow> nat \<Rightarrow> bytes list" where
  "fragment_range key sid D i j = map (\<lambda>k. fragment_frame key sid (of_nat k) (slice D (48 * k) 48)) [i..<j]"

definition writer_at :: "'w c0pq_client \<Rightarrow> bytes \<Rightarrow> bytes \<Rightarrow> 'w ciphertext_writer \<Rightarrow> bool" where
  "writer_at client key D wr \<longleftrightarrow>
     wr_client wr = client \<and> session_auth_key wr = key \<and> failure wr = C0PQLINK_OK \<and> length (pending wr) = 48 \<and>
     unat (pending_length wr) = length D mod 48 \<and> unat (fragment_index wr) = length D div 48 \<and>
     take (length D mod 48) (pending wr) = drop (48 * (length D div 48)) D"

text \<open>The frames sent on the way from \<open>D\<close> to \<open>D'\<close>: each fragment, in order, followed by at most
  \<open>r\<close> retransmissions.\<close>

definition frames_sent :: "nat \<Rightarrow> bytes list \<Rightarrow> bytes list \<Rightarrow> bool" where
  "frames_sent r frs js \<longleftrightarrow>
     (\<exists>xss. js = concat xss \<and> map hd xss = frs \<and> (\<forall>xs\<in>set xss. xs \<noteq> [] \<and> length xs \<le> r + 1))"

lemma frames_sent_Nil [simp]: "frames_sent r [] []"
  by (auto simp: frames_sent_def)

lemma frames_sent_append:
  assumes "frames_sent r a x" and "frames_sent r b y"
  shows "frames_sent r (a @ b) (x @ y)"
proof -
  obtain xs ys where "x = concat xs" "map hd xs = a" "\<forall>z\<in>set xs. z \<noteq> [] \<and> length z \<le> r + 1"
    "y = concat ys" "map hd ys = b" "\<forall>z\<in>set ys. z \<noteq> [] \<and> length z \<le> r + 1"
    using assms unfolding frames_sent_def by blast
  then show ?thesis unfolding frames_sent_def by (intro exI [of _ "xs @ ys"]) auto
qed

lemma frames_sent_one: "length js \<le> r \<Longrightarrow> frames_sent r [f] (f # js)"
  unfolding frames_sent_def by (intro exI [of _ "[f # js]"]) simp

lemma frames_sent_length:
  assumes "frames_sent r frs js"
  shows "length js \<le> (r + 1) * length frs"
proof -
  obtain xss where x: "js = concat xss" "map hd xss = frs" "\<forall>xs\<in>set xss. xs \<noteq> [] \<and> length xs \<le> r + 1"
    using assms by (auto simp: frames_sent_def)
  have "length (concat xss) \<le> (r + 1) * length xss" using x(3) by (induction xss) auto
  with x(1,2) show ?thesis by (metis length_map)
qed

lemma fragment_range_append:
  "i \<le> j \<Longrightarrow> j \<le> k \<Longrightarrow> fragment_range key sid D i j @ fragment_range key sid D j k = fragment_range key sid D i k"
  using upt_add_eq_append [of i j "k - j"] by (simp add: fragment_range_def)

lemma fragment_range_extend:
  assumes "j \<le> length D div 48"
  shows "fragment_range key sid (D @ E) i j = fragment_range key sid D i j"
proof -
  have "slice (D @ E) (48 * k) 48 = slice D (48 * k) 48" if "k < j" for k
    using that assms by (intro slice_append_left) (simp add: less_eq_div_iff_mult_less_eq)
  then show ?thesis by (simp add: fragment_range_def)
qed

text \<open>The exchanges on the way from fragment \<open>i\<close> in the world \<open>w\<close> to fragment \<open>j\<close> in the world \<open>w'\<close>: each
  one begins where the last one ended, sends its fragment and ends with a frame that is the
  acknowledgement of that fragment.\<close>

inductive acknowledged :: "'w c0pq_client \<Rightarrow> bytes \<Rightarrow> bytes \<Rightarrow> nat \<Rightarrow> 'w \<Rightarrow> nat \<Rightarrow> 'w \<Rightarrow> bool"
  for client key D i w where
  acknowledged_none: "acknowledged client key D i w i w"
| acknowledged_more: "acknowledged client key D i w j w1 \<Longrightarrow>
     send_and_receive client (fragment_frame key (session_id client) (of_nat j) (slice D (48 * j) 48) @ rest) 77
       C0PQ_FRAME_CIPHERTEXT_ACK 28 w1 = (C0PQLINK_OK, frame, w2) \<Longrightarrow>
     take 28 frame = ack_frame key (session_id client) (of_nat j) \<Longrightarrow> acknowledged client key D i w (Suc j) w2"

lemma acknowledged_trans:
  assumes "acknowledged client key D i w j w1"
  shows "acknowledged client key D j w1 k w2 \<Longrightarrow> acknowledged client key D i w k w2"
  by (induction rule: acknowledged.induct) (use assms in \<open>auto intro: acknowledged.intros\<close>)

lemma slice_extend: "j < length D div 48 \<Longrightarrow> slice (D @ E) (48 * j) 48 = slice D (48 * j) 48"
  by (intro slice_append_left) (simp add: less_eq_div_iff_mult_less_eq flip: Suc_le_eq)

lemma acknowledged_extend:
  "acknowledged client key D i w j w1 \<Longrightarrow> j \<le> length D div 48 \<Longrightarrow> acknowledged client key (D @ E) i w j w1"
proof (induction rule: acknowledged.induct)
  case (acknowledged_more j w1 rest frame w2)
  have "slice (D @ E) (48 * j) 48 = slice D (48 * j) 48"
    using acknowledged_more.prems by (intro slice_extend) simp
  with acknowledged_more show ?case by (auto intro: acknowledged.acknowledged_more)
qed (rule acknowledged.acknowledged_none)

lemma flush_step:
  assumes at: "writer_at client key D wr" and data: "length D mod 48 + length x = 48"
    and wr1: "wr1 = wr\<lparr>pending := memcpy (pending wr) (length D mod 48) x, pending_length := 48\<rparr>"
    and run: "flush_ciphertext_fragment wr1 w = (C0PQLINK_OK, wr2, w')"
  shows "writer_at client key (D @ x) wr2" and "transcript wr2 = transcript wr"
    and "length (D @ x) div 48 = Suc (length D div 48)"
    and "logs_frames client sent \<Longrightarrow> \<exists>js. sent w' = sent w @ js \<and> frames_sent (unat (maximum_retries (config client)))
           (fragment_range key (session_id client) (D @ x) (length D div 48) (Suc (length D div 48))) js"
    and "acknowledged client key (D @ x) (length D div 48) w (Suc (length D div 48)) w'"
proof -
  let ?q = "length D div 48" and ?m = "length D mod 48"
  have lenD: "length D = 48 * ?q + ?m" by simp
  have len: "length (D @ x) = 48 * Suc ?q" using data lenD unfolding length_append mult_Suc_right by linarith
  then show div: "length (D @ x) div 48 = Suc ?q" by simp
  have at': "wr_client wr = client" "session_auth_key wr = key" "failure wr = C0PQLINK_OK" "length (pending wr) = 48"
    "unat (fragment_index wr) = ?q" "take ?m (pending wr) = drop (48 * ?q) D"
    using at by (auto simp: writer_at_def)
  have pend: "pending wr1 = drop (48 * ?q) D @ x" using at'(4,6) data by (simp add: wr1 memcpy_def)
  have dl: "length (drop (48 * ?q) D) = ?m" by (simp add: minus_mult_div_eq_mod)
  then have plen: "length (pending wr1) = 48" unfolding pend using data by simp
  obtain frame rest where wr2: "wr2 = wr1\<lparr>fragment_index := fragment_index wr1 + 1, pending_length := 0\<rparr>"
    and idx: "fragment_index wr1 < 16"
    and x: "send_and_receive (wr_client wr1) (writer_fragment wr1 @ rest) (29 + unat (pending_length wr1))
           C0PQ_FRAME_CIPHERTEXT_ACK 28 w = (C0PQLINK_OK, frame, w')"
    and ack: "take 28 frame = ack_frame (session_auth_key wr1) (session_id (wr_client wr1)) (fragment_index wr1)"
    by (rule flush_ok [OF run plen]) (auto simp: wr1)
  have wrc: "wr_client wr1 = client" using at'(1) by (simp add: wr1)
  have "of_nat (unat (fragment_index wr1)) = fragment_index wr1" by simp
  then have fi: "fragment_index wr1 = of_nat ?q" using at'(5) by (simp add: wr1)
  have "unat (fragment_index wr1) < 16" using idx by (simp add: word_less_nat_alt)
  then have q: "?q < 16" using at'(5) by (simp add: wr1)
  have suc: "unat (fragment_index wr1 + 1) = Suc ?q"
    using q at'(5) by (simp add: wr1 unat_word_ariths(1))
  show "writer_at client key (D @ x) wr2"
    using at' plen suc len div by (simp add: writer_at_def wr2 wr1 pend)
  show "transcript wr2 = transcript wr" by (simp add: wr2 wr1)
  have "slice (D @ x) (48 * ?q) 48 = drop (48 * ?q) D @ x"
    using dl data by (simp add: slice_def)
  then have frag: "writer_fragment wr1 = fragment_frame key (session_id client) (of_nat ?q) (slice (D @ x) (48 * ?q) 48)"
    using at'(1,2) pend plen by (simp add: writer_fragment_def fi [symmetric]) (simp add: wr1)
  have p48: "29 + unat (pending_length wr1) = 77" and key: "session_auth_key wr1 = key"
    using at'(2) by (simp_all add: wr1)
  have "acknowledged client key (D @ x) ?q w ?q w" by (rule acknowledged_none)
  then show "acknowledged client key (D @ x) ?q w (Suc ?q) w'"
    using x ack unfolding wrc p48 frag key fi by (rule acknowledged_more)
  assume log: "logs_frames client sent"
  have "length (writer_fragment wr1) = 29 + unat (pending_length wr1)"
    using plen by (simp add: writer_fragment_def) (simp add: wr1)
  moreover obtain js where js: "sent w' = sent w @ take (29 + unat (pending_length wr1)) (writer_fragment wr1 @ rest) # js"
    "length js \<le> unat (maximum_retries (config client))"
    using exchange_log [OF log x [unfolded wrc]] by blast
  ultimately have "sent w' = sent w @ writer_fragment wr1 # js" by simp
  with js(2) show "\<exists>js. sent w' = sent w @ js \<and> frames_sent (unat (maximum_retries (config client)))
           (fragment_range key (session_id client) (D @ x) ?q (Suc ?q)) js"
    by (intro exI [of _ "writer_fragment wr1 # js"]) (simp add: fragment_range_def frag [symmetric] frames_sent_one)
qed

lemma unat_space: "unat (x :: u8) \<le> 48 \<Longrightarrow> unat (48 - ucast x :: u32) = 48 - unat x"
proof -
  assume le: "unat x \<le> 48"
  have "unat (ucast x :: u32) = unat x"
    using unat_u8_less [of x] by (simp add: unsigned_ucast_eq take_bit_nat_eq_self)
  then have "(ucast x :: u32) \<le> 48" and "unat (ucast x :: u32) = unat x" using le by (simp_all add: word_le_nat_alt)
  then show ?thesis by (simp add: unat_sub)
qed

lemma fill_pending_at:
  assumes "writer_at client key D wr"
  defines "m \<equiv> length D mod 48"
  shows "fill_pending wr data = (min (length data) (48 - m),
     wr\<lparr>pending := memcpy (pending wr) m (take (min (length data) (48 - m)) data),
        pending_length := of_nat (m + min (length data) (48 - m))\<rparr>)"
proof -
  have "unat (pending_length wr) = m" and "m \<le> 48" using assms by (simp_all add: writer_at_def m_def)
  then show ?thesis
    using unat_space [of "pending_length wr"] by (auto simp: fill_pending_def Let_def min_def)
qed

lemma block_div_mod: "r < 48 \<Longrightarrow> (48 * q + r) div 48 = (q :: nat)" "r < 48 \<Longrightarrow> (48 * q + r) mod 48 = (r :: nat)"
  by simp_all

text \<open>A call that fits into the pending buffer only appends to it.\<close>

lemma fill_step:
  assumes at: "writer_at client key D wr" and room: "length D mod 48 + length x < 48"
    and wr1: "wr1 = wr\<lparr>pending := memcpy (pending wr) (length D mod 48) x,
                     pending_length := of_nat (length D mod 48 + length x)\<rparr>"
  shows "writer_at client key (D @ x) wr1" and "transcript wr1 = transcript wr"
    and "length (D @ x) div 48 = length D div 48"
proof -
  let ?q = "length D div 48" and ?m = "length D mod 48"
  have len: "length (D @ x) = 48 * ?q + (?m + length x)" by simp
  show div: "length (D @ x) div 48 = ?q" unfolding len by (rule block_div_mod(1) [OF room])
  have mod: "length (D @ x) mod 48 = ?m + length x" unfolding len by (rule block_div_mod(2) [OF room])
  have "unat (of_nat (?m + length x) :: u8) = ?m + length x"
    using room by (intro unat_of_nat_u8) simp
  with at room show "writer_at client key (D @ x) wr1"
    unfolding writer_at_def wr1 div mod by (simp add: memcpy_def minus_mult_div_eq_mod)
  show "transcript wr1 = transcript wr" by (simp add: wr1)
qed

lemma write_pending_Nil: "write_pending wr [] w = (C0PQLINK_OK, wr, w)"
  by (simp add: write_pending.simps [of wr])

lemma write_pending_at:
  "writer_at client key D wr \<Longrightarrow> write_pending wr data w = (st, wr', w') \<Longrightarrow>
    (st \<noteq> C0PQLINK_OK \<longrightarrow> failure wr' = st) \<and>
    (st = C0PQLINK_OK \<longrightarrow> writer_at client key (D @ data) wr' \<and> transcript wr' = transcript wr \<and>
       acknowledged client key (D @ data) (length D div 48) w (length (D @ data) div 48) w' \<and>
       (logs_frames client sent \<longrightarrow> (\<exists>js. sent w' = sent w @ js \<and> frames_sent (unat (maximum_retries (config client)))
          (fragment_range key (session_id client) (D @ data) (length D div 48) (length (D @ data) div 48)) js)))"
proof (induction "length data" arbitrary: D wr data w rule: less_induct)
  case less
  note at = less.prems(1)
  let ?m = "length D mod 48" and ?R = "unat (maximum_retries (config client))"
  let ?n = "min (length data) (48 - ?m)"
  let ?wr1 = "wr\<lparr>pending := memcpy (pending wr) ?m (take ?n data), pending_length := of_nat (?m + ?n)\<rparr>"
  show ?case
  proof (cases "data = []")
    case True
    then show ?thesis using less.prems
      by (auto simp: write_pending.simps [of wr] fragment_range_def intro: exI [of _ "[]"] acknowledged_none)
  next
    case ne: False
    have fp: "fill_pending wr data = (?n, ?wr1)" using fill_pending_at [OF at] .
    show ?thesis
    proof (cases "?m + ?n = 48")
      case full: True
      have w48: "?wr1 = wr\<lparr>pending := memcpy (pending wr) ?m (take ?n data), pending_length := 48\<rparr>"
        unfolding full by simp
      obtain r wr2 w1 where fl: "flush_ciphertext_fragment ?wr1 w = (r, wr2, w1)" by (metis prod_cases3)
      have eq: "write_pending wr data w = (if r \<noteq> C0PQLINK_OK then (r, wr2\<lparr>failure := r\<rparr>, w1)
          else write_pending (wr2\<lparr>failure := r\<rparr>) (drop ?n data) w1)"
        using ne fl by (subst write_pending.simps) (simp add: fp full)
      show ?thesis
      proof (cases "r = C0PQLINK_OK")
        case False
        with eq less.prems(2) show ?thesis by auto
      next
        case True
        have room: "?m + length (take ?n data) = 48" using full by simp
        note step = flush_step(1-3) [OF at room w48 fl [unfolded True]] flush_step(4,5) [OF at room w48 fl [unfolded True]]
        have f2: "wr2\<lparr>failure := r\<rparr> = wr2" using step(1) True by (simp add: writer_at_def)
        have n0: "0 < ?n" using ne by (simp add: min_def)
        then have "length (drop ?n data) < length data" using ne by simp
        from less.hyps [OF this step(1), of w1] eq True f2 less.prems(2)
        have ih: "(st \<noteq> C0PQLINK_OK \<longrightarrow> failure wr' = st) \<and>
          (st = C0PQLINK_OK \<longrightarrow> writer_at client key ((D @ take ?n data) @ drop ?n data) wr' \<and> transcript wr' = transcript wr2 \<and>
            acknowledged client key ((D @ take ?n data) @ drop ?n data) (length (D @ take ?n data) div 48) w1
              (length ((D @ take ?n data) @ drop ?n data) div 48) w' \<and>
            (logs_frames client sent \<longrightarrow> (\<exists>js. sent w' = sent w1 @ js \<and> frames_sent ?R
              (fragment_range key (session_id client) ((D @ take ?n data) @ drop ?n data)
                 (length (D @ take ?n data) div 48) (length ((D @ take ?n data) @ drop ?n data) div 48)) js)))"
          by simp
        have all: "(D @ take ?n data) @ drop ?n data = D @ data" by simp
        have first: "\<exists>js1. sent w1 = sent w @ js1 \<and> frames_sent ?R
            (fragment_range key (session_id client) (D @ data) (length D div 48) (Suc (length D div 48))) js1"
          if "logs_frames client sent"
          using step(4) [OF that] fragment_range_extend [of "Suc (length D div 48)" "D @ take ?n data" key "session_id client" "drop ?n data"]
            step(3) unfolding all by auto
        have "Suc (length D div 48) \<le> length (D @ data) div 48"
          using step(3) div_le_mono [of "length (D @ take ?n data)" "length (D @ data)" 48] by simp
        then have cat: "fragment_range key (session_id client) (D @ data) (length D div 48) (Suc (length D div 48))
            @ fragment_range key (session_id client) (D @ data) (Suc (length D div 48)) (length (D @ data) div 48)
            = fragment_range key (session_id client) (D @ data) (length D div 48) (length (D @ data) div 48)"
          by (intro fragment_range_append) simp_all
        have "acknowledged client key (D @ data) (length D div 48) w (Suc (length D div 48)) w1"
          using acknowledged_extend [OF step(5), of "drop ?n data"] step(3) unfolding all by simp
        then have acked: "st = C0PQLINK_OK \<Longrightarrow>
            acknowledged client key (D @ data) (length D div 48) w (length (D @ data) div 48) w'"
          using ih unfolding all step(3) by (blast intro: acknowledged_trans)
        have sends: "\<exists>js. sent w' = sent w @ js \<and> frames_sent ?R
            (fragment_range key (session_id client) (D @ data) (length D div 48) (length (D @ data) div 48)) js"
          if good: "st = C0PQLINK_OK" and log: "logs_frames client sent"
        proof -
          obtain js1 where js1: "sent w1 = sent w @ js1" "frames_sent ?R
              (fragment_range key (session_id client) (D @ data) (length D div 48) (Suc (length D div 48))) js1"
            using first [OF log] by blast
          obtain js2 where js2: "sent w' = sent w1 @ js2" "frames_sent ?R
              (fragment_range key (session_id client) (D @ data) (Suc (length D div 48)) (length (D @ data) div 48)) js2"
            using ih good log unfolding all step(3) by blast
          show ?thesis using js1(1) js2(1) frames_sent_append [OF js1(2) js2(2)] unfolding cat by simp
        qed
        show ?thesis using ih step(2) acked sends unfolding all by simp
      qed
    next
      case False
      then have n: "?n = length data" and room: "?m + length data < 48" by (auto simp: min_def split: if_split_asm)
      have "unat (of_nat (?m + ?n) :: u8) = ?m + ?n" using room n by (intro unat_of_nat_u8) simp
      then have nf: "pending_length ?wr1 \<noteq> 48" using False by auto
      have wr1: "?wr1 = wr\<lparr>pending := memcpy (pending wr) ?m data, pending_length := of_nat (?m + length data)\<rparr>"
        unfolding n by simp
      have "write_pending wr data w = write_pending ?wr1 [] w"
        using ne nf n by (subst write_pending.simps) (simp add: fp)
      then have "write_pending wr data w = (C0PQLINK_OK, ?wr1, w)" by (simp only: write_pending_Nil)
      with fill_step [OF at room wr1] less.prems(2) show ?thesis
        by (auto simp: fragment_range_def intro: exI [of _ "[]"] acknowledged_none)
    qed
  qed
qed

section \<open>The callback\<close>

lemma status_code_0: "status_code st = 0 \<longleftrightarrow> st = C0PQLINK_OK"
  by (cases st) simp_all

lemma write_ciphertext_at:
  assumes at: "writer_at client key D wr" and tr: "sha_represents (transcript wr) T"
    and run: "write_ciphertext (wr, w) data = (0, (wr', w'))"
  shows "writer_at client key (D @ data) wr'" and "sha_represents (transcript wr') (T @ data)"
    and "logs_frames client sent \<Longrightarrow> \<exists>js. sent w' = sent w @ js \<and> frames_sent (unat (maximum_retries (config client)))
          (fragment_range key (session_id client) (D @ data) (length D div 48) (length (D @ data) div 48)) js"
    and "acknowledged client key (D @ data) (length D div 48) w (length (D @ data) div 48) w'"
proof -
  let ?wr1 = "wr\<lparr>transcript := c0_sha256_update (transcript wr) data\<rparr>"
  obtain st where wp: "write_pending ?wr1 data w = (st, wr', w')" and ok: "st = C0PQLINK_OK"
    using run at by (auto simp: write_ciphertext_def writer_at_def Let_def status_code_0 split: prod.split_asm)
  have at1: "writer_at client key D ?wr1" using at by (simp add: writer_at_def)
  note res = write_pending_at [OF at1 wp, THEN conjunct2, rule_format, OF ok, of sent]
  show "writer_at client key (D @ data) wr'"
    and "acknowledged client key (D @ data) (length D div 48) w (length (D @ data) div 48) w'" using res by blast+
  show "sha_represents (transcript wr') (T @ data)" using res sha.represents_update [OF tr, of data] by simp
  show "\<exists>js. sent w' = sent w @ js \<and> frames_sent (unat (maximum_retries (config client)))
          (fragment_range key (session_id client) (D @ data) (length D div 48) (length (D @ data) div 48)) js"
    if "logs_frames client sent" using res that by blast
qed

lemma write_all_at:
  "writer_at client key D wr \<Longrightarrow> sha_represents (transcript wr) T \<Longrightarrow>
    write_all write_ciphertext (wr, w) chunks = (C0PQLINK_OK, (wr', w')) \<Longrightarrow>
    writer_at client key (D @ concat chunks) wr' \<and> sha_represents (transcript wr') (T @ concat chunks) \<and>
    acknowledged client key (D @ concat chunks) (length D div 48) w (length (D @ concat chunks) div 48) w' \<and>
    (logs_frames client sent \<longrightarrow> (\<exists>js. sent w' = sent w @ js \<and> frames_sent (unat (maximum_retries (config client)))
       (fragment_range key (session_id client) (D @ concat chunks) (length D div 48) (length (D @ concat chunks) div 48)) js))"
proof (induction chunks arbitrary: D T wr w)
  case Nil
  then show ?case by (auto simp: fragment_range_def intro: exI [of _ "[]"] acknowledged_none)
next
  case (Cons x chunks)
  obtain wr1 w1 where step: "write_ciphertext (wr, w) x = (0, (wr1, w1))"
    and rest: "write_all write_ciphertext (wr1, w1) chunks = (C0PQLINK_OK, (wr', w'))"
    using Cons.prems(3) by (auto simp: Let_def split: prod.split_asm if_split_asm)
  note one = write_ciphertext_at [OF Cons.prems(1,2) step]
  let ?E = "D @ x @ concat chunks"
  have all: "(D @ x) @ concat chunks = ?E" by simp
  have "\<exists>js. sent w' = sent w @ js \<and> frames_sent (unat (maximum_retries (config client)))
      (fragment_range key (session_id client) ?E (length D div 48) (length ?E div 48)) js" if log: "logs_frames client sent"
  proof -
    obtain js1 where js1: "sent w1 = sent w @ js1" "frames_sent (unat (maximum_retries (config client)))
        (fragment_range key (session_id client) ?E (length D div 48) (length (D @ x) div 48)) js1"
      using one(3) [OF log] fragment_range_extend [of "length (D @ x) div 48" "D @ x" key "session_id client" "concat chunks"]
      unfolding all by auto
    obtain js2 where js2: "sent w' = sent w1 @ js2" "frames_sent (unat (maximum_retries (config client)))
        (fragment_range key (session_id client) ?E (length (D @ x) div 48) (length ?E div 48)) js2"
      using Cons.IH [OF one(1,2) rest] log unfolding all by auto
    have "length D div 48 \<le> length (D @ x) div 48" "length (D @ x) div 48 \<le> length ?E div 48"
      by (simp_all add: div_le_mono)
    from fragment_range_append [OF this, of key "session_id client" ?E] frames_sent_append [OF js1(2) js2(2)] js1(1) js2(1)
    show ?thesis by auto
  qed
  moreover have a1: "acknowledged client key ?E (length D div 48) w (length (D @ x) div 48) w1"
    using acknowledged_extend [OF one(4) order_refl, of "concat chunks"] unfolding all .
  moreover have a2: "acknowledged client key ?E (length (D @ x) div 48) w1 (length ?E div 48) w'"
    using Cons.IH [OF one(1,2) rest] unfolding all by (elim conjE)
  moreover note acknowledged_trans [OF a1 a2]
  ultimately show ?case using Cons.IH [OF one(1,2) rest] by simp
qed

section \<open>Progress with an acknowledging peer\<close>

lemma length_ack_frame [simp]: "length (ack_frame key sid idx) = 28"
  by (simp add: ack_frame_def)

lemma take_ack_header: "take 10 (ack_frame key sid idx) = header_bytes C0PQ_FRAME_CIPHERTEXT_ACK 0 18 sid"
  by (simp add: ack_frame_def ack_core_def)

text \<open>The fragments that the writer has handed over once it was given the data \<open>D\<close>.\<close>

definition full_blocks :: "bytes \<Rightarrow> bytes" where
  "full_blocks D = take (48 * (length D div 48)) D"

lemma full_blocks_exact: "length D = 48 * i \<Longrightarrow> full_blocks D = D"
  by (simp add: full_blocks_def)

lemma full_blocks_append: "length (D @ x) div 48 = length D div 48 \<Longrightarrow> full_blocks (D @ x) = full_blocks D"
  by (simp add: full_blocks_def)

text \<open>What the writer needs of the other side: in a state of the world in which the peer holds the
  first \<open>i\<close> fragments, the exchange of the next one ends with its acknowledgement, in a state in
  which the peer holds that fragment too. How often frames are lost on the way is the peer's and
  the line's affair.\<close>

locale acknowledging_peer =
  fixes client :: "'w c0pq_client" and key :: bytes and holds :: "bytes \<Rightarrow> 'w \<Rightarrow> bool"
  assumes serves: "holds E w \<Longrightarrow> length E = 48 * i \<Longrightarrow> i < 16 \<Longrightarrow> length data = 48 \<Longrightarrow>
    \<exists>frame w'. send_and_receive client (fragment_frame key (session_id client) (of_nat i) data @ replicate 19 0) 77
        C0PQ_FRAME_CIPHERTEXT_ACK 28 w = (C0PQLINK_OK, frame, w') \<and>
      take 28 frame = ack_frame key (session_id client) (of_nat i) \<and> holds (E @ data) w'"
begin

lemma flush_served:
  assumes wr: "wr_client wr = client" "session_auth_key wr = key" "length (pending wr) = 48" "pending_length wr = 48"
      "fragment_index wr = of_nat i"
    and E: "holds E w" "length E = 48 * i" "i < 16"
  shows "\<exists>w'. flush_ciphertext_fragment wr w =
     (C0PQLINK_OK, wr\<lparr>fragment_index := fragment_index wr + 1, pending_length := 0\<rparr>, w') \<and> holds (E @ pending wr) w'"
proof -
  let ?sid = "session_id client" and ?b = "writer_fragment wr @ replicate 19 0"
  have n: "unat (pending_length wr) = 48" and all: "take 48 (pending wr) = pending wr" using wr by simp_all
  have frag: "writer_fragment wr = fragment_frame key ?sid (of_nat i) (pending wr)"
    by (simp add: writer_fragment_def wr n all)
  obtain f w2 where x: "send_and_receive client ?b 77 C0PQ_FRAME_CIPHERTEXT_ACK 28 w = (C0PQLINK_OK, f, w2)"
    and t28: "take 28 f = ack_frame key ?sid (of_nat i)" and h: "holds (E @ pending wr) w2"
    using serves [OF E wr(3)] unfolding frag by blast
  have lf: "length f = 96" using exchange_accepts(1) [OF x] by (simp add: frag wr(3))
  have "take 10 f = take 10 (take 28 f)" by simp
  then have t10: "take 10 f = header_bytes C0PQ_FRAME_CIPHERTEXT_ACK 0 18 ?sid" unfolding t28 take_ack_header .
  have dec: "c0pq_decode_header (Some header_zero) (Some f) 28 =
      (C0PQLINK_OK, Some \<lparr>htype = C0PQ_FRAME_CIPHERTEXT_ACK, hflags = 0, payload_length = 18, hsession_id = ?sid\<rparr>)"
    using lf t10 by (subst decode_header_ok_iff) (auto intro!: exI [of _ 18])
  have "28 = unat (18 :: u8) + 10" by simp
  from iffD2 [OF ack_accepted [OF lf t10 this, of "of_nat i" key] t28]
  have acc: "f ! 10 = of_nat i" "f ! 11 = 0"
    "c0pq_verify_auth_tag (slice f 12 16) key ''C0PQ/1 ciphertext ack'' (take 12 f) = C0PQLINK_OK" by simp_all
  have "unat (of_nat i :: u8) < 16" using E(3) by (simp add: unat_of_nat_u8)
  then have ready: "\<not> fragment_index wr \<ge> 16" using wr(5) by (simp add: word_le_nat_alt)
  have x': "send_and_receive (wr_client wr) (writer_fragment wr @ replicate (67 - unat (pending_length wr)) 0)
      (29 + unat (pending_length wr)) C0PQ_FRAME_CIPHERTEXT_ACK 28 w = (C0PQLINK_OK, f, w2)"
    using x by (simp add: n wr(1))
  have "flush_ciphertext_fragment wr w = (C0PQLINK_OK, wr\<lparr>fragment_index := fragment_index wr + 1, pending_length := 0\<rparr>, w2)"
    using flush_exchange [OF wr(3) _ x' dec] ready acc wr by simp
  with h show ?thesis by blast
qed

lemma flush_at_served:
  assumes at: "writer_at client key D wr" and room: "length D mod 48 + length x = 48" and fit: "length D + length x \<le> 768"
    and h: "holds (full_blocks D) w"
  shows "\<exists>wr' w'. flush_ciphertext_fragment
     (wr\<lparr>pending := memcpy (pending wr) (length D mod 48) x, pending_length := 48\<rparr>) w = (C0PQLINK_OK, wr', w') \<and>
     holds (full_blocks (D @ x)) w'"
proof -
  let ?q = "length D div 48" and ?m = "length D mod 48"
  let ?wr1 = "wr\<lparr>pending := memcpy (pending wr) ?m x, pending_length := 48\<rparr>"
  have len: "length (D @ x) = 48 * (?q + 1)"
    using room unfolding length_append by presburger
  have q: "?q < 16" using len fit by simp
  have lE: "length (full_blocks D) = 48 * ?q" by (simp add: full_blocks_def)
  have idx: "fragment_index ?wr1 = of_nat ?q" using at by (simp add: writer_at_def) (metis of_nat_unat ucast_id)
  have "memcpy (pending wr) ?m x = take ?m (pending wr) @ x"
    using at room by (simp add: memcpy_def writer_at_def)
  also have "\<dots> = drop (48 * ?q) D @ x" using at by (simp add: writer_at_def)
  finally have p: "full_blocks D @ pending ?wr1 = D @ x" by (simp add: full_blocks_def)
  have lp: "length (pending ?wr1) = 48" using at room by (simp add: writer_at_def)
  have "\<exists>w'. flush_ciphertext_fragment ?wr1 w =
      (C0PQLINK_OK, ?wr1\<lparr>fragment_index := fragment_index ?wr1 + 1, pending_length := 0\<rparr>, w') \<and> holds (full_blocks D @ pending ?wr1) w'"
    using at by (intro flush_served [OF _ _ lp _ idx h lE q]) (simp_all add: writer_at_def)
  then show ?thesis using full_blocks_exact [OF len] unfolding p by auto
qed

lemma write_pending_served:
  "writer_at client key D wr \<Longrightarrow> length D + length data \<le> 768 \<Longrightarrow> holds (full_blocks D) w \<Longrightarrow>
    \<exists>wr' w'. write_pending wr data w = (C0PQLINK_OK, wr', w') \<and> writer_at client key (D @ data) wr' \<and>
      holds (full_blocks (D @ data)) w'"
proof (induction "length data" arbitrary: D wr data w rule: less_induct)
  case less
  note at = less.prems(1)
  let ?m = "length D mod 48"
  let ?n = "min (length data) (48 - ?m)"
  let ?wr1 = "wr\<lparr>pending := memcpy (pending wr) ?m (take ?n data), pending_length := of_nat (?m + ?n)\<rparr>"
  show ?case
  proof (cases "data = []")
    case True
    with at less.prems(3) show ?thesis by (simp add: write_pending_Nil)
  next
    case ne: False
    have fp: "fill_pending wr data = (?n, ?wr1)" using fill_pending_at [OF at] .
    show ?thesis
    proof (cases "?m + ?n = 48")
      case full: True
      have w48: "?wr1 = wr\<lparr>pending := memcpy (pending wr) ?m (take ?n data), pending_length := 48\<rparr>"
        unfolding full by simp
      have room: "?m + length (take ?n data) = 48" and fit: "length D + length (take ?n data) \<le> 768"
        using full less.prems(2) by simp_all
      obtain wr2 w1 where fl: "flush_ciphertext_fragment ?wr1 w = (C0PQLINK_OK, wr2, w1)"
        and h: "holds (full_blocks (D @ take ?n data)) w1"
        unfolding w48 using flush_at_served [OF at room fit less.prems(3)] by blast
      have at2: "writer_at client key (D @ take ?n data) wr2"
        using flush_step(1) [OF at room w48 fl] .
      have f2: "wr2\<lparr>failure := C0PQLINK_OK\<rparr> = wr2" using at2 by (simp add: writer_at_def)
      have "0 < ?n" using ne by (simp add: min_def)
      then have "length (drop ?n data) < length data" using ne by simp
      moreover have "length (D @ take ?n data) + length (drop ?n data) \<le> 768" using less.prems(2) by simp
      ultimately obtain wr' w' where rest: "write_pending wr2 (drop ?n data) w1 = (C0PQLINK_OK, wr', w')"
        and at': "writer_at client key ((D @ take ?n data) @ drop ?n data) wr'"
        and h': "holds (full_blocks ((D @ take ?n data) @ drop ?n data)) w'"
        using less.hyps [OF _ at2 _ h, of "drop ?n data"] by blast
      have "write_pending wr data w = (C0PQLINK_OK, wr', w')"
        using ne fl f2 rest by (subst write_pending.simps) (simp add: fp full)
      with at' h' show ?thesis by auto
    next
      case False
      then have n: "?n = length data" and room: "?m + length data < 48" by (auto simp: min_def split: if_split_asm)
      have "unat (of_nat (?m + ?n) :: u8) = ?m + ?n" using room n by (intro unat_of_nat_u8) simp
      then have nf: "pending_length ?wr1 \<noteq> 48" using False by auto
      have wr1: "?wr1 = wr\<lparr>pending := memcpy (pending wr) ?m data, pending_length := of_nat (?m + length data)\<rparr>"
        unfolding n by simp
      have "write_pending wr data w = write_pending ?wr1 [] w"
        using ne nf n by (subst write_pending.simps) (simp add: fp)
      moreover note fill_step(1) [OF at room wr1] full_blocks_append [OF fill_step(3) [OF at room wr1]]
      ultimately show ?thesis using less.prems(3) by (simp only: write_pending_Nil) simp
    qed
  qed
qed

lemma write_ciphertext_served:
  assumes at: "writer_at client key D wr" and fit: "length D + length data \<le> 768" and h: "holds (full_blocks D) w"
  shows "\<exists>wr' w'. write_ciphertext (wr, w) data = (0, (wr', w')) \<and> writer_at client key (D @ data) wr' \<and>
    holds (full_blocks (D @ data)) w'"
proof -
  let ?wr1 = "wr\<lparr>transcript := c0_sha256_update (transcript wr) data\<rparr>"
  have at1: "writer_at client key D ?wr1" using at by (simp add: writer_at_def)
  obtain wr' w' where wp: "write_pending ?wr1 data w = (C0PQLINK_OK, wr', w')"
    and "writer_at client key (D @ data) wr'" and "holds (full_blocks (D @ data)) w'"
    using write_pending_served [OF at1 fit h] by blast
  with at show ?thesis by (simp add: write_ciphertext_def writer_at_def Let_def)
qed

lemma write_all_served:
  "writer_at client key D wr \<Longrightarrow> length D + length (concat chunks) \<le> 768 \<Longrightarrow> holds (full_blocks D) w \<Longrightarrow>
    \<exists>wr' w'. write_all write_ciphertext (wr, w) chunks = (C0PQLINK_OK, (wr', w')) \<and>
      holds (full_blocks (D @ concat chunks)) w'"
proof (induction chunks arbitrary: D wr w)
  case (Cons x chunks)
  obtain wr1 w1 where "write_ciphertext (wr, w) x = (0, (wr1, w1))" "writer_at client key (D @ x) wr1"
      "holds (full_blocks (D @ x)) w1"
    using write_ciphertext_served [OF Cons.prems(1) _ Cons.prems(3), of x] Cons.prems(2) by auto
  moreover then obtain wr' w' where "write_all write_ciphertext (wr1, w1) chunks = (C0PQLINK_OK, (wr', w'))"
      "holds (full_blocks ((D @ x) @ concat chunks)) w'"
    using Cons.IH [of "D @ x" wr1 w1] Cons.prems(2) by auto
  ultimately show ?case by simp
qed simp

end

text \<open>The simplest such peer: a transport that delivers, and an answer to every fragment at once.\<close>

definition acknowledges :: "'w c0pq_client \<Rightarrow> bytes \<Rightarrow> bool" where
  "acknowledges client key \<longleftrightarrow>
     (\<forall>w idx data cap t. \<exists>w1 w2.
        the (send_frame (config client)) w (fragment_frame key (session_id client) idx data) = (0, w1) \<and>
        the (receive_frame (config client)) w1 cap t = (0, ack_frame key (session_id client) idx, 28, w2))"

lemma acknowledges_peer:
  assumes ack: "acknowledges client key"
  shows "acknowledging_peer client key (\<lambda>E w. True)"
proof
  fix E :: bytes and w :: 'a and i :: nat and data :: bytes
  assume data: "length data = 48"
  let ?sid = "session_id client" and ?i = "of_nat i :: u8"
  let ?frag = "fragment_frame key ?sid ?i data" and ?ack = "ack_frame key ?sid ?i"
  let ?f = "memcpy (?frag @ replicate 19 0) 0 ?ack"
  obtain w1 w2 where s: "the (send_frame (config client)) w ?frag = (0, w1)"
    and r: "the (receive_frame (config client)) w1 96 (timeout_ms (config client)) = (0, ?ack, 28, w2)"
    using ack unfolding acknowledges_def by blast
  have lf: "length ?f = 96" using data by simp
  have t28: "take 28 ?f = ?ack" by (simp add: memcpy_def)
  have "take 10 ?f = take 10 (take 28 ?f)" by simp
  then have "take 10 ?f = header_bytes C0PQ_FRAME_CIPHERTEXT_ACK 0 18 ?sid" unfolding t28 take_ack_header .
  then have dec: "c0pq_decode_header (Some header_zero) (Some ?f) 28 =
      (C0PQLINK_OK, Some \<lparr>htype = C0PQ_FRAME_CIPHERTEXT_ACK, hflags = 0, payload_length = 18, hsession_id = ?sid\<rparr>)"
    using lf by (subst decode_header_ok_iff) (auto intro!: exI [of _ 18])
  have "take 77 (?frag @ replicate 19 0) = ?frag" using data by simp
  then have "send_and_receive client (?frag @ replicate 19 0) 77 C0PQ_FRAME_CIPHERTEXT_ACK 28 w = (C0PQLINK_OK, ?f, w2)"
    unfolding send_and_receive_def using s r dec by (simp add: Let_def)
  with t28 show "\<exists>frame w'. send_and_receive client (?frag @ replicate 19 0) 77 C0PQ_FRAME_CIPHERTEXT_ACK 28 w
      = (C0PQLINK_OK, frame, w') \<and> take 28 frame = ?ack \<and> True" by blast
qed

section \<open>A transport in memory\<close>

text \<open>The world is the list of frames sent; the peer acknowledges the last one, whose index is its
  eleventh byte.\<close>

definition memory_send :: "bytes list send_fn" where
  "memory_send w f = (0, w @ [f])"

definition memory_ack :: "bytes \<Rightarrow> u32 \<Rightarrow> bytes list receive_fn" where
  "memory_ack key sid w cap t = (0, ack_frame key sid (last w ! 10), 28, w)"

definition memory_client :: "bytes \<Rightarrow> bytes list c0pq_client" where
  "memory_client key = client_zero\<lparr>session_id := 9, config := config_zero\<lparr>send_frame := Some memory_send,
     receive_frame := Some (memory_ack key 9), maximum_retries := 1\<rparr>\<rparr>"

definition fresh_writer :: "'w c0pq_client \<Rightarrow> bytes \<Rightarrow> c0_sha256_ctx \<Rightarrow> 'w ciphertext_writer" where
  "fresh_writer client key tr = \<lparr>wr_client = client, transcript = tr, session_auth_key = key,
     pending = replicate 48 0, pending_length = 0, fragment_index = 0, failure = C0PQLINK_OK\<rparr>"

lemma fresh_writer_at [simp]: "writer_at client key [] (fresh_writer client key tr)" "transcript (fresh_writer client key tr) = tr"
  by (simp_all add: writer_at_def fresh_writer_def)

lemma nth_fragment_frame: "fragment_frame key sid idx data ! 10 = idx"
  by (simp add: fragment_frame_def fragment_core_def nth_append header_bytes_def)

lemma memory_client_transport: "logs_frames (memory_client key) (\<lambda>w. w)" "acknowledges (memory_client key) key"
  by (simp_all add: logs_frames_def acknowledges_def memory_client_def memory_send_def memory_ack_def nth_fragment_frame)

interpretation memory_peer: acknowledging_peer "memory_client key" key "\<lambda>E w. True" for key
  by (rule acknowledges_peer [OF memory_client_transport(2)])

text \<open>After an unexpected answer the retry sends the received bytes, not the frame: the exchange
  uses one buffer for both.\<close>

definition junk_client :: "bytes list c0pq_client" where
  "junk_client = client_zero\<lparr>config := config_zero\<lparr>send_frame := Some memory_send,
     receive_frame := Some (\<lambda>w cap t. (0, [9, 9, 9], 3, w)), maximum_retries := 1\<rparr>\<rparr>"

lemma retry_sends_received_bytes:
  assumes "length frame = 96"
  shows "send_and_receive junk_client frame 4 ty 28 [] =
    (C0PQLINK_ERR_IO, [9, 9, 9] @ drop 3 frame, [take 4 frame, [9, 9, 9, frame ! 3]])"
proof -
  have "take (Suc 0) (drop 3 frame) = [frame ! 3]" using assms by (simp add: take_Suc_conv_app_nth)
  then show ?thesis
    using assms
    by (simp add: send_and_receive_def junk_client_def memory_send_def config_zero_def client_zero_def numeral_2_eq_2
        c0pq_decode_header_def memcpy_def flip: numeral_3_eq_3)
qed

section \<open>Properties\<close>

text \<open>C15: the frame exchange. It ends with success or \<open>C0PQLINK_ERR_IO\<close>; it sends the intended
  frame first and at most \<open>maximum_retries\<close> frames after it; and on success the buffer holds a
  frame of the expected length whose header is well formed and carries the expected type and the
  client's session identifier.\<close>

theorem exchange_bounded:
  assumes "logs_frames client sent" and "length frame = 96" and "el \<le> 96"
    and "send_and_receive client frame ol ty el w = (st, frame', w')"
  shows "(st = C0PQLINK_OK \<or> st = C0PQLINK_ERR_IO) \<and>
    (\<exists>js. sent w' = sent w @ take ol frame # js \<and> length js \<le> unat (maximum_retries (config client))) \<and>
    (st = C0PQLINK_OK \<longrightarrow> length frame' = 96 \<and>
       (\<exists>n fl. el = unat n + 10 \<and> take 10 frame' = header_bytes ty fl n (session_id client)))"
proof -
  have "st = C0PQLINK_OK \<or> st = C0PQLINK_ERR_IO"
    by (rule send_attempts_status [OF assms(4) [unfolded send_and_receive_def]])
  moreover obtain js where "sent w' = sent w @ take ol frame # js" "length js \<le> unat (maximum_retries (config client))"
    using exchange_log [OF assms(1,4)] .
  moreover have "length frame' = 96 \<and> (\<exists>n fl. el = unat n + 10 \<and> take 10 frame' = header_bytes ty fl n (session_id client))"
    if "st = C0PQLINK_OK" using exchange_accepts [OF assms(4) [unfolded that] assms(2,3)] by simp
  ultimately show ?thesis by blast
qed

theorem exchange_bounded_witness:
  "\<exists>st frame' w'. send_and_receive junk_client (replicate 96 1) 4 2 28 [] = (st, frame', w') \<and>
     (\<exists>js. w' = take 4 (replicate 96 1) # js \<and> length js \<le> 1)"
proof -
  obtain st frame' w' where run: "send_and_receive junk_client (replicate 96 1) 4 2 28 [] = (st, frame', w')"
    by (metis prod_cases3)
  have "logs_frames junk_client (\<lambda>w. w)" by (simp add: logs_frames_def junk_client_def memory_send_def)
  moreover have "unat (maximum_retries (config junk_client)) = 1" by (simp add: junk_client_def)
  ultimately show ?thesis
    using exchange_bounded [of junk_client "\<lambda>w. w" "replicate 96 1" 28 4 2 "[]" st frame' w'] run by auto
qed

text \<open>C8: the fragment writer. However the data is cut into calls of the callback, if none fails the
  writer has put on the wire, in order and each followed by at most \<open>maximum_retries\<close> further
  frames, the authenticated fragments of 48 bytes of the whole data, and the exchange of each one
  has ended with the authenticated acknowledgement of exactly this fragment before the next one
  began; the rest waits in the buffer and the transcript has absorbed the data.\<close>

theorem fragment_stream:
  assumes "logs_frames client sent" and "sha_represents tr T"
    and "write_all write_ciphertext (fresh_writer client key tr, w) chunks = (C0PQLINK_OK, (wr', w'))"
  shows "writer_at client key (concat chunks) wr' \<and> sha_represents (transcript wr') (T @ concat chunks) \<and>
    acknowledged client key (concat chunks) 0 w (length (concat chunks) div 48) w' \<and>
    (\<exists>js. sent w' = sent w @ js \<and> frames_sent (unat (maximum_retries (config client)))
       (fragment_range key (session_id client) (concat chunks) 0 (length (concat chunks) div 48)) js)"
  using write_all_at [OF fresh_writer_at(1), of client key tr T w chunks wr' w' sent] assms by simp

theorem fragment_stream_witness:
  "\<exists>wr' w'. write_all write_ciphertext (fresh_writer (memory_client [7]) [7] c0_sha256_init, []) [replicate 50 1, replicate 46 2]
       = (C0PQLINK_OK, (wr', w')) \<and> writer_at (memory_client [7]) [7] (replicate 50 1 @ replicate 46 2) wr' \<and>
     acknowledged (memory_client [7]) [7] (replicate 50 1 @ replicate 46 2) 0 [] 2 w'"
proof -
  obtain wr' w' where run: "write_all write_ciphertext (fresh_writer (memory_client [7]) [7] c0_sha256_init, [])
      [replicate 50 1, replicate 46 2] = (C0PQLINK_OK, (wr', w'))"
    using memory_peer.write_all_served [OF fresh_writer_at(1), of "[replicate 50 1, replicate 46 2]" "[7]" c0_sha256_init "[]"]
    by (auto simp del: write_all.simps)
  from fragment_stream [OF memory_client_transport(1) sha.represents_init run] run show ?thesis by auto
qed

text \<open>C9: progress. With a transport that delivers and a peer that acknowledges every fragment, every
  way of writing at most 768 bytes succeeds.\<close>

theorem fragment_progress:
  assumes "acknowledges client key" and "length (concat chunks) \<le> 768"
  shows "\<exists>wr' w'. write_all write_ciphertext (fresh_writer client key tr, w) chunks = (C0PQLINK_OK, (wr', w'))"
  using acknowledging_peer.write_all_served [OF acknowledges_peer [OF assms(1)] fresh_writer_at(1)] assms(2) by auto

theorem fragment_progress_witness:
  "\<exists>wr' w'. write_all write_ciphertext (fresh_writer (memory_client [7]) [7] c0_sha256_init, []) [replicate 768 1]
     = (C0PQLINK_OK, (wr', w'))"
  using fragment_progress [OF memory_client_transport(2), of "[replicate 768 1]" "[7]" c0_sha256_init "[]"]
  by (simp del: write_all.simps)

end
