(* ===== verification/Encapsulation.thy ===== *)
theory Encapsulation
  imports Mlkem
begin

text \<open>
  What encapsulation does at its interface, whatever the key and the callbacks: which keys it
  refuses, how many bytes it writes, what it returns on every path and what it leaves behind.
  The first lemmas hold for every reader, also one that changes its state or answers two reads of an
  offset differently; what depends on the key is stated for a reader that stands for a key, which
  answers by the offset and leaves the state alone.
\<close>

unbundle bit_operations_syntax

section \<open>Readers\<close>

text \<open>A state that only reads separate from another.\<close>

definition reads :: "'s pk_read \<Rightarrow> 's \<Rightarrow> 's \<Rightarrow> bool" where
  "reads rd = (\<lambda>a b. \<exists>i. b = snd (rd a i))\<^sup>*\<^sup>*"

lemma reads_refl [simp, intro]: "reads rd s s"
  by (simp add: reads_def)

lemma reads_one: "rd s i = (b, s1) \<Longrightarrow> reads rd s1 s' \<Longrightarrow> reads rd s s'"
  unfolding reads_def by (rule converse_rtranclp_into_rtranclp [where b = s1]) (auto intro: exI [of _ i])

lemma reads_trans: "reads rd s s1 \<Longrightarrow> reads rd s1 s2 \<Longrightarrow> reads rd s s2"
  by (simp add: reads_def)

text \<open>What a single read keeps, any number of reads keeps.\<close>

lemma reads_keep:
  assumes "reads rd s s'" and "\<And>s i. f (snd (rd s i)) = f s"
  shows "f s' = f s"
  using assms(1) unfolding reads_def
proof (induction rule: rtranclp_induct)
  case (step y z)
  then show ?case using assms(2) by auto
qed simp

lemma reads_read_bytes: "reads rd s (snd (read_bytes rd offsets s))"
  by (induction offsets arbitrary: s) (auto simp: Let_def case_prod_unfold intro: reads_one [OF prod.collapse [symmetric]])

lemma reads_hash: "reads rd s (snd (hash_public_key rd offsets ctx s))"
  by (induction offsets arbitrary: ctx s)
    (auto simp: Let_def case_prod_unfold intro: reads_one [OF prod.collapse [symmetric]])

lemma reads_triples: "reads rd s (snd (validate_triples rd offsets s))"
proof (induction offsets arbitrary: s)
  case (Cons offset offsets)
  obtain t0 s1 where r0: "rd s (of_nat offset) = (t0, s1)" by fastforce
  obtain t1 s2 where r1: "rd s1 (of_nat (offset + 1)) = (t1, s2)" by fastforce
  obtain t2 s3 where r2: "rd s2 (of_nat (offset + 2)) = (t2, s3)" by fastforce
  have "reads rd s3 (snd (validate_triples rd (offset # offsets) s))"
    using r0 r1 r2 Cons.IH [of s3] by (simp add: Let_def)
  then show ?case using r0 r1 r2 by (meson reads_one)
qed simp

lemma reads_validate: "validate_and_hash_public_key rd rho0 s = (st, h, r, ctx, s') \<Longrightarrow> reads rd s s'"
  using reads_hash [of rd s "[0..<800]" c0_sha3_256_init]
    reads_triples [of rd "snd (hash_public_key rd [0..<800] c0_sha3_256_init s)" "map (\<lambda>i. 3 * i) [0..<256]"]
    reads_read_bytes [of rd _ "[768..<800]"]
  by (auto simp: validate_and_hash_public_key_def Let_def case_prod_unfold simp del: upt_rec_numeral split: if_split_asm
      intro: reads_trans)

lemma reads_v_blocks: "reads rd (snd p) (snd (encap_v_blocks rd column blocks t p))"
proof (induction blocks arbitrary: p)
  case Nil
  show ?case by (cases p) simp
next
  case (Cons block blocks)
  obtain acc s where p: "p = (acc, s)" by fastforce
  let ?r = "read_bytes rd [column * 384 + block * 6..<column * 384 + block * 6 + 6] s"
  have "snd (encap_v_blocks rd column (block # blocks) t p) =
      snd (encap_v_blocks rd column blocks t (dot_block block (fst ?r) t acc, snd ?r))"
    by (simp add: p Let_def case_prod_unfold)
  then show ?case
    using reads_trans [OF reads_read_bytes Cons.IH [of "(dot_block block (fst ?r) t acc, snd ?r)", simplified snd_conv]]
    by (simp add: p)
qed

lemma reads_v_column: "reads rd (snd p) (snd (encap_v_column rd column p))"
  using reads_v_blocks [of rd "(accumulator (fst p), snd p)" column "[0..<64]" "ntt (fst (sample_cbd (coins (fst p)) (of_nat column) 3))"]
  by (simp add: encap_v_column_def Let_def case_prod_unfold)

lemma reads_v: "encap_v rd state s = (state', s') \<Longrightarrow> reads rd s s'"
  using reads_trans [OF reads_v_column [of rd "(state\<lparr>accumulator := replicate 256 0\<rparr>, s)" 0] reads_v_column [of rd _ 1]]
  by (auto simp: encap_v_def Let_def case_prod_unfold)

text \<open>A reader that stands for a key.\<close>

type_synonym key_source = "u16 \<Rightarrow> u8"

definition pure_reader :: "key_source \<Rightarrow> 's pk_read" where
  "pure_reader key = (\<lambda>s offset. (key offset, s))"

lemma pure_reader_apply [simp]: "pure_reader key s offset = (key offset, s)"
  by (simp add: pure_reader_def)

section \<open>The encoded public key\<close>

text \<open>\<open>ByteDecode\<close> of FIPS 203 for twelve-bit coefficients: coefficient \<open>j\<close> has the bits
  \<open>12 j, \<dots>, 12 j + 11\<close> of the key's bit string.\<close>

definition spec_decode12 :: "(nat \<Rightarrow> u8) \<Rightarrow> nat \<Rightarrow> nat" where
  "spec_decode12 key j =
     horner_sum of_bool 2 (map (\<lambda>i. bit (key ((12 * j + i) div 8)) ((12 * j + i) mod 8)) [0..<12])"

lemma bits12_unat:
  fixes w :: u16
  assumes "\<And>i. i < 12 \<Longrightarrow> bit w i = f i" and "\<And>i. 12 \<le> i \<Longrightarrow> \<not> bit w i"
  shows "horner_sum of_bool 2 (map f [0..<12]) = unat w"
proof -
  have "map f [0..<12] = map (bit (unat w)) [0..<12]"
    using assms(1) by (simp add: bit_unsigned_iff)
  moreover have "take_bit 12 (unat w) = unat w"
    using assms(2) by (auto simp: bit_eq_iff bit_take_bit_iff bit_unsigned_iff) (meson not_le)
  ultimately show ?thesis by (simp only: horner_sum_bit_eq_take_bit)
qed

lemma bit_15: "bit (15 :: int) k \<longleftrightarrow> k < 4"
proof -
  have "(15 :: int) = mask 4" by (simp add: mask_eq_exp_minus_1)
  moreover have "bit (mask 4 :: int) k \<longleftrightarrow> k < 4" by (simp only: bit_mask_iff possible_bit_def) auto
  ultimately show ?thesis by simp
qed

lemma bit_position:
  "x = r + 8 * q \<Longrightarrow> x div 8 = q + r div 8" "x = r + 8 * q \<Longrightarrow> x mod 8 = r mod (8 :: nat)"
  by (simp_all add: add.commute)

lemma unpack12_first_spec:
  "unat (unpack12_first (key (3 * m)) (key (3 * m + 1))) = spec_decode12 key (2 * m)"
  unfolding spec_decode12_def
proof (rule bits12_unat [symmetric])
  fix i :: nat assume i: "i < 12"
  have e: "(12 * (2 * m) + i) div 8 = 3 * m + i div 8" "(12 * (2 * m) + i) mod 8 = i mod 8"
    by (rule bit_position, simp)+
  show "bit (unpack12_first (key (3 * m)) (key (3 * m + 1))) i = bit (key ((12 * (2 * m) + i) div 8)) ((12 * (2 * m) + i) mod 8)"
  proof (cases "i < 8")
    case True
    then show ?thesis unfolding e by (simp add: unpack12_first_def bit_simps)
  next
    case False
    then have "i div 8 = 1" "i mod 8 = i - 8" using i by (simp_all add: le_div_geq le_mod_geq)
    then show ?thesis unfolding e using False i
      by (auto simp: unpack12_first_def bit_simps bit_15 dest: bit_imp_le_length)
  qed
next
  fix i :: nat assume "12 \<le> i"
  then show "\<not> bit (unpack12_first (key (3 * m)) (key (3 * m + 1))) i"
    by (auto simp: unpack12_first_def bit_simps bit_15 dest: bit_imp_le_length)
qed

lemma unpack12_second_spec:
  "unat (unpack12_second (key (3 * m + 1)) (key (3 * m + 2))) = spec_decode12 key (2 * m + 1)"
  unfolding spec_decode12_def
proof (rule bits12_unat [symmetric])
  fix i :: nat assume i: "i < 12"
  have e: "(12 * (2 * m + 1) + i) div 8 = 3 * m + 1 + (i + 4) div 8" "(12 * (2 * m + 1) + i) mod 8 = (i + 4) mod 8"
    by (rule bit_position [where q = "3 * m + 1"], simp)+
  show "bit (unpack12_second (key (3 * m + 1)) (key (3 * m + 2))) i = bit (key ((12 * (2 * m + 1) + i) div 8)) ((12 * (2 * m + 1) + i) mod 8)"
  proof (cases "i < 4")
    case True
    then show ?thesis unfolding e by (simp add: unpack12_second_def bit_simps add.commute)
  next
    case False
    then have "(i + 4) div 8 = 1" "(i + 4) mod 8 = i - 4" using i by (simp_all add: le_div_geq le_mod_geq)
    then show ?thesis unfolding e using False i
      by (auto simp: unpack12_second_def bit_simps dest: bit_imp_le_length)
  qed
next
  fix i :: nat assume "12 \<le> i"
  then show "\<not> bit (unpack12_second (key (3 * m + 1)) (key (3 * m + 2))) i"
    by (auto simp: unpack12_second_def bit_simps dest: bit_imp_le_length)
qed

text \<open>The key is in canonical form: every coefficient is below the modulus.\<close>

definition key_bytes :: "key_source \<Rightarrow> nat \<Rightarrow> u8" where
  "key_bytes key k = key (of_nat k)"

definition canonical_key :: "key_source \<Rightarrow> bool" where
  "canonical_key key \<longleftrightarrow> (\<forall>j<512. spec_decode12 (key_bytes key) j < 3329)"

lemma read_bytes_pure [simp]: "read_bytes (pure_reader key) offsets s = (map (key_bytes key) offsets, s)"
  by (induction offsets) (simp_all add: key_bytes_def)

lemma hash_pure: "hash_public_key (pure_reader key) offsets ctx s =
    (fold (\<lambda>x c. c0_keccak_absorb c x) (map (\<lambda>k. [key_bytes key k]) offsets) ctx, s)"
  by (induction offsets arbitrary: ctx) (simp_all add: key_bytes_def)

lemma triples_pure: "snd (validate_triples (pure_reader key) offsets s) = s"
  by (induction offsets) (simp_all add: Let_def)

lemma validate_triples_iff:
  "fst (validate_triples (pure_reader key) (map (\<lambda>i. 3 * i) ms) s) = C0PQLINK_OK \<longleftrightarrow>
     (\<forall>m\<in>set ms. spec_decode12 (key_bytes key) (2 * m) < 3329 \<and> spec_decode12 (key_bytes key) (2 * m + 1) < 3329)"
proof (induction ms)
  case (Cons m ms)
  have "unpack12_first (key (of_nat (3 * m))) (key (of_nat (3 * m + 1))) \<ge> 3329 \<longleftrightarrow> \<not> spec_decode12 (key_bytes key) (2 * m) < 3329"
    "unpack12_second (key (of_nat (3 * m + 1))) (key (of_nat (3 * m + 2))) \<ge> 3329 \<longleftrightarrow> \<not> spec_decode12 (key_bytes key) (2 * m + 1) < 3329"
    using unpack12_first_spec [of "key_bytes key" m] unpack12_second_spec [of "key_bytes key" m]
    by (simp_all add: key_bytes_def word_le_nat_alt not_less)
  with Cons show ?case by (auto simp: Let_def simp del: of_nat_add of_nat_mult)
qed simp

lemma validate_triples_status:
  "fst (validate_triples rd ms s) = C0PQLINK_OK \<or> fst (validate_triples rd ms s) = C0PQLINK_ERR_KEY_ENCODING"
  by (induction ms arbitrary: s) (auto simp: Let_def split: prod.split)

lemma validate_key:
  "validate_triples (pure_reader key) (map (\<lambda>i. 3 * i) [0..<256]) s
     = (if canonical_key key then C0PQLINK_OK else C0PQLINK_ERR_KEY_ENCODING, s)"
proof -
  have "(\<forall>m<256. P (2 * m) \<and> P (2 * m + 1)) \<longleftrightarrow> (\<forall>j<512. P j)" for P :: "nat \<Rightarrow> bool"
  proof
    assume L: "\<forall>m<256. P (2 * m) \<and> P (2 * m + 1)"
    show "\<forall>j<512. P j"
    proof (intro allI impI)
      fix j :: nat assume "j < 512"
      then have "j div 2 < 256" and "j = 2 * (j div 2) \<or> j = 2 * (j div 2) + 1" by presburger+
      with L show "P j" by metis
    qed
  qed auto
  from this [of "\<lambda>j. spec_decode12 (key_bytes key) j < 3329"]
  have "fst (validate_triples (pure_reader key) (map (\<lambda>i. 3 * i) [0..<256]) s)
      = (if canonical_key key then C0PQLINK_OK else C0PQLINK_ERR_KEY_ENCODING)"
    using validate_triples_iff [of key "[0..<256]" s]
      validate_triples_status [of "pure_reader key" "map (\<lambda>i. 3 * i) [0..<256]" s]
    by (auto simp: canonical_key_def)
  then show ?thesis using triples_pure [of key "map (\<lambda>i. 3 * i) [0..<256]" s] by (simp add: prod_eq_iff)
qed

section \<open>Writing\<close>

lemma write_all_append:
  "write_all wr s (xs @ ys) =
     (case write_all wr s xs of (r, s') \<Rightarrow> if r \<noteq> C0PQLINK_OK then (r, s') else write_all wr s' ys)"
  by (induction xs arbitrary: s) (auto simp: Let_def split: prod.split)

lemma write_all_status: "fst (write_all wr s xs) = C0PQLINK_OK \<or> fst (write_all wr s xs) = C0PQLINK_ERR_IO"
  by (induction xs arbitrary: s) (auto simp: Let_def split: prod.split)

lemma length_pack_u [simp]: "length (pack_u p i) = 5"
  by (simp add: pack_u_def Let_def)

lemma length_pack_v [simp]: "length (pack_v p m i) = 1"
  by (simp add: pack_v_def Let_def)

lemma length_concat_const: "(\<And>x. x \<in> set xs \<Longrightarrow> length (f x) = n) \<Longrightarrow> length (concat (map f xs)) = n * length xs"
  by (induction xs) auto

definition chunks_u :: "s16 list \<Rightarrow> bytes list" where
  "chunks_u p = map (\<lambda>i. pack_u p (4 * i)) [0..<64]"

definition chunks_v :: "s16 list \<Rightarrow> bytes \<Rightarrow> bytes list" where
  "chunks_v p m = map (\<lambda>i. pack_v p m (2 * i)) [0..<128]"

lemma length_chunks [simp]: "length (concat (chunks_u p)) = 320" "length (concat (chunks_v p m)) = 128"
  by (simp_all add: chunks_u_def chunks_v_def length_concat_const)

section \<open>The polynomials of the ciphertext\<close>

text \<open>What the row loop and the \<open>v\<close> part leave in the accumulator. They do not depend on the
  callbacks; a row exists exactly when the rejection sampler ends.\<close>

definition row_poly :: "nat \<Rightarrow> bytes \<Rightarrow> bytes \<Rightarrow> s16 list option" where
  "row_poly row rho' coins' = do {
     (a1, _) \<leftarrow> matrix_product_add (replicate 256 0) (ntt (fst (sample_cbd coins' 0 3))) rho' (of_nat row) 0;
     (a2, _) \<leftarrow> matrix_product_add a1 (ntt (fst (sample_cbd coins' 1 3))) rho' (of_nat row) 1;
     Some (map2 (+) (inverse_ntt (map barrett_reduce a2)) (fst (sample_cbd coins' (of_nat (2 + row)) 2)))
   }"

definition v_column :: "key_source \<Rightarrow> nat \<Rightarrow> bytes \<Rightarrow> s16 list \<Rightarrow> s16 list" where
  "v_column key column coins' acc =
     fold (\<lambda>block. dot_block block (map (key_bytes key) [column * 384 + block * 6..<column * 384 + block * 6 + 6])
             (ntt (fst (sample_cbd coins' (of_nat column) 3)))) [0..<64] acc"

definition v_poly :: "key_source \<Rightarrow> bytes \<Rightarrow> s16 list" where
  "v_poly key coins' =
     map2 (+) (inverse_ntt (map barrett_reduce (v_column key 1 coins' (v_column key 0 coins' (replicate 256 0)))))
       (fst (sample_cbd coins' 4 2))"

lemma encap_row_poly:
  "encap_row row state = Some st \<Longrightarrow>
     row_poly row (rho state) (coins state) = Some (accumulator st) \<and> rho st = rho state \<and> coins st = coins state"
  by (auto simp: encap_row_def encap_row_column_def encap_noise_def row_poly_def Let_def case_prod_unfold
      split: Option.bind_splits)

lemma row_poly_encap:
  "row_poly row (rho state) (coins state) = Some u \<Longrightarrow> \<exists>st. encap_row row state = Some st \<and> accumulator st = u"
  by (auto simp: encap_row_def encap_row_column_def encap_noise_def row_poly_def Let_def case_prod_unfold
      split: Option.bind_splits)

lemma v_blocks_pure:
  "encap_v_blocks (pure_reader key) column blocks t (acc, s) =
     (fold (\<lambda>block. dot_block block (map (key_bytes key) [column * 384 + block * 6..<column * 384 + block * 6 + 6]) t)
        blocks acc, s)"
  by (induction blocks arbitrary: acc) (simp_all add: Let_def)

lemma encap_v_poly:
  "accumulator (fst (encap_v (pure_reader key) state s)) = v_poly key (coins state)"
  "snd (encap_v (pure_reader key) state s) = s"
  by (simp_all add: encap_v_def encap_v_column_def encap_noise_def v_poly_def v_column_def Let_def case_prod_unfold
      v_blocks_pure)

section \<open>The shared secret\<close>

lemma length_squeeze_loop: "length (fst (keccak_squeeze_loop ctx n)) = n"
  by (induction n arbitrary: ctx) (simp_all add: Let_def case_prod_unfold)

lemma length_squeeze [simp]: "length (fst (c0_keccak_squeeze ctx n)) = n"
  by (simp add: c0_keccak_squeeze_def Let_def case_prod_unfold length_squeeze_loop)

definition key_string :: "key_source \<Rightarrow> bytes" where
  "key_string key = map (key_bytes key) [0..<800]"

definition public_seed :: "key_source \<Rightarrow> bytes" where
  "public_seed key = map (key_bytes key) [768..<800]"

text \<open>\<open>(K, r) = G(m || H(ek))\<close> of FIPS 203.\<close>

definition spec_G :: "key_source \<Rightarrow> bytes \<Rightarrow> bytes" where
  "spec_G key m = spec_keccak 72 0x06 (take 32 m @ spec_keccak 136 0x06 (key_string key) 32) 64"

lemma hash_public_key_spec:
  "\<exists>ctx ctx'. hash_public_key (pure_reader key) [0..<800] c0_sha3_256_init s = (ctx, s) \<and>
     c0_keccak_squeeze ctx 32 = (spec_keccak 136 0x06 (key_string key) 32, ctx')"
proof -
  have "concat (map (\<lambda>k. [key_bytes key k]) [0..<800]) = key_string key"
    by (simp add: key_string_def concat_map_singleton)
  then show ?thesis
    using sha3_256.final_updates [of "map (\<lambda>k. [key_bytes key k]) [0..<800]"]
    by (simp add: hash_pure prod_eq_iff del: upt_rec_numeral)
qed

lemma validate_and_hash_spec:
  "\<exists>ctx. validate_and_hash_public_key (pure_reader key) rho0 s =
     (if canonical_key key then C0PQLINK_OK else C0PQLINK_ERR_KEY_ENCODING,
      spec_keccak 136 0x06 (key_string key) 32,
      if canonical_key key then public_seed key else rho0, ctx, s)"
proof -
  obtain ctx ctx' where "hash_public_key (pure_reader key) [0..<800] c0_sha3_256_init s = (ctx, s)"
    and "c0_keccak_squeeze ctx 32 = (spec_keccak 136 0x06 (key_string key) 32, ctx')"
    using hash_public_key_spec [of key s] by blast
  moreover have "read_bytes (pure_reader key) [768..<800] s = (public_seed key, s)"
    by (simp only: read_bytes_pure public_seed_def)
  ultimately show ?thesis
    by (simp add: validate_and_hash_public_key_def validate_key Let_def del: upt_rec_numeral)
qed

lemma derive_k_and_coins_spec:
  assumes "length h = 32"
  shows "\<exists>ctx. derive_k_and_coins m h =
    (take 32 (spec_keccak 72 0x06 (take 32 m @ h) 64), drop 32 (spec_keccak 72 0x06 (take 32 m @ h) 64), ctx)"
proof -
  let ?c = "c0_keccak_absorb (c0_keccak_absorb c0_sha3_512_init (take 32 m)) (take 32 h)"
  have "fst (c0_keccak_squeeze ?c 64) = spec_keccak 72 0x06 (take 32 m @ h) 64"
    using assms by (simp add: sha3_512.final_update2)
  moreover have "fst (c0_keccak_squeeze ?c (32 + 32)) =
      fst (c0_keccak_squeeze ?c 32) @ fst (c0_keccak_squeeze (snd (c0_keccak_squeeze ?c 32)) 32)"
    by (rule squeeze_split)
  ultimately show ?thesis using assms by (simp add: derive_k_and_coins_def Let_def case_prod_unfold prod_eq_iff)
qed

section \<open>The run\<close>

lemma write_u_status: "write_compressed_u p wr s = (r, s') \<Longrightarrow> r = C0PQLINK_OK \<or> r = C0PQLINK_ERR_IO"
  using write_all_status [of wr s] by (metis write_compressed_u_def fst_conv)

lemma write_v_status: "write_compressed_v p m wr s = (r, s') \<Longrightarrow> r = C0PQLINK_OK \<or> r = C0PQLINK_ERR_IO"
  using write_all_status [of wr s] by (metis write_compressed_v_def fst_conv)

text \<open>The rows: the status, and 320 bytes for each row of a run that went well.\<close>

lemma encap_rows_status:
  "encap_rows wr rows (state, s) = Some (st, state', s') \<Longrightarrow> st = C0PQLINK_OK \<or> st = C0PQLINK_ERR_IO"
  by (induction rows arbitrary: state s)
    (auto simp: Let_def dest: write_u_status split: Option.bind_splits prod.split_asm if_split_asm)

lemma encap_rows_written:
  "encap_rows wr rows (state, s) = Some (C0PQLINK_OK, state', s') \<Longrightarrow>
     \<exists>u. write_all wr s u = (C0PQLINK_OK, s') \<and> length (concat u) = 320 * length rows"
proof (induction rows arbitrary: state s)
  case Nil
  then show ?case by (auto intro: exI [of _ "[]"])
next
  case (Cons row rows)
  obtain st where row: "encap_row row state = Some st"
    using Cons.prems by (auto split: Option.bind_splits)
  obtain r s1 where w: "write_compressed_u (accumulator st) wr s = (r, s1)" by fastforce
  have r: "r = C0PQLINK_OK" by (rule ccontr) (use Cons.prems row w in simp)
  then obtain u where u: "write_all wr s1 u = (C0PQLINK_OK, s')" "length (concat u) = 320 * length rows"
    using Cons.prems Cons.IH [of st s1] row w by auto
  have "write_all wr s (chunks_u (accumulator st) @ u) = (C0PQLINK_OK, s')"
    using w r u(1) by (simp add: write_all_append write_compressed_u_def chunks_u_def)
  moreover have "length (concat (chunks_u (accumulator st) @ u)) = 320 * length (row # rows)" using u(2) by simp
  ultimately show ?case by blast
qed

text \<open>Every path, for every reader and writer: the status, the secret, the workspace, and what was
  read and written.\<close>

lemma encap_run_cases:
  assumes run: "encap_run rd m wr s ss = Some (st, ss', ws', s')"
  obtains (refused) "st = C0PQLINK_ERR_KEY_ENCODING" "ss' = ss" "ws' = workspace_zero" "reads rd s s'"
  | (failed) "st = C0PQLINK_ERR_IO" "ss' = replicate 32 0" "ws' = workspace_zero"
  | (success) s0 u s1 s2 v where "st = C0PQLINK_OK" "length ss' = 32" "ws' = workspace_zero"
      "reads rd s s0" "write_all wr s0 u = (C0PQLINK_OK, s1)" "length (concat u) = 640"
      "reads rd s1 s2" "write_all wr s2 v = (C0PQLINK_OK, s')" "length (concat v) = 128"
proof -
  obtain st0 h r ctx s0 where va: "validate_and_hash_public_key rd (rho workspace_zero) s = (st0, h, r, ctx, s0)"
    by (metis prod_cases5)
  have st0: "st0 = C0PQLINK_OK \<or> st0 = C0PQLINK_ERR_KEY_ENCODING"
    using va validate_triples_status [of rd "map (\<lambda>i. 3 * i) [0..<256]" "snd (hash_public_key rd [0..<800] c0_sha3_256_init s)"]
    by (auto simp: validate_and_hash_public_key_def Let_def case_prod_unfold simp del: upt_rec_numeral split: if_split_asm)
  obtain K coins' ctx' where kc: "derive_k_and_coins m h = (K, coins', ctx')" by (metis prod_cases3)
  have K: "length K = 32" using kc by (auto simp: derive_k_and_coins_def Let_def case_prod_unfold)
  have z: "c0pqlink_secure_zero K 32 = replicate 32 0" using K by simp
  let ?s0 = "workspace_zero\<lparr>rho := r, coins := coins', keccak := ctx'\<rparr>"
  show thesis
  proof (cases "st0 = C0PQLINK_OK")
    case False
    then show thesis using run va st0 refused reads_validate [OF va] by (simp add: encap_run_def)
  next
    case ok: True
    obtain st1 state1 s1 where rows: "encap_rows wr [0, 1] (?s0, s0) = Some (st1, state1, s1)"
      using run va ok kc by (auto simp: encap_run_def simp del: encap_rows.simps split: Option.bind_splits)
    show thesis
    proof (cases "st1 = C0PQLINK_OK")
      case False
      then show thesis using run va ok kc rows z encap_rows_status [OF rows] failed
        by (auto simp: encap_run_def encap_finish_def simp del: encap_rows.simps)
    next
      case ok1: True
      obtain state2 s2 where v: "encap_v rd state1 s1 = (state2, s2)" by fastforce
      obtain st2 s3 where w: "write_compressed_v (accumulator state2) m wr s2 = (st2, s3)" by fastforce
      have out: "st = st2" "s' = s3" "ws' = workspace_zero" "ss' = (if st2 \<noteq> C0PQLINK_OK then replicate 32 0 else K)"
        using run va ok kc rows ok1 v w z by (auto simp: encap_run_def encap_finish_def simp del: encap_rows.simps)
      obtain u where u: "write_all wr s0 u = (C0PQLINK_OK, s1)" "length (concat u) = 640"
        using encap_rows_written [OF rows [unfolded ok1]] by auto
      show thesis
      proof (cases "st2 = C0PQLINK_OK")
        case True
        have "write_all wr s2 (chunks_v (accumulator state2) m) = (C0PQLINK_OK, s')"
          using w True out by (simp add: write_compressed_v_def chunks_v_def)
        with success [OF _ _ _ reads_validate [OF va] u reads_v [OF v]] True out K show thesis by simp
      next
        case False
        then show thesis using failed out write_v_status [OF w] by simp
      qed
    qed
  qed
qed

text \<open>The bytes of a run whose reader stands for a key.\<close>

definition ciphertext_chunks :: "key_source \<Rightarrow> bytes \<Rightarrow> s16 list \<Rightarrow> s16 list \<Rightarrow> bytes list" where
  "ciphertext_chunks key m u0 u1 = chunks_u u0 @ chunks_u u1 @ chunks_v (v_poly key (drop 32 (spec_G key m))) m"

lemma length_ciphertext [simp]: "length (concat (ciphertext_chunks key m u0 u1)) = 768"
  by (simp add: ciphertext_chunks_def)

lemma length_spec_G [simp]: "length (spec_G key m) = 64"
  by (simp add: spec_G_def)

lemma encap_run_refused:
  "\<not> canonical_key key \<Longrightarrow>
     encap_run (pure_reader key) m wr s ss = Some (C0PQLINK_ERR_KEY_ENCODING, ss, workspace_zero, s)"
  using validate_and_hash_spec [of key "rho workspace_zero" s] by (auto simp: encap_run_def)

text \<open>The start of an accepted run: the state in which the row loop begins.\<close>

definition keyed_workspace :: "key_source \<Rightarrow> bytes \<Rightarrow> c0_keccak_ctx \<Rightarrow> mlkem_workspace_internal" where
  "keyed_workspace key m ctx = workspace_zero\<lparr>rho := public_seed key, coins := drop 32 (spec_G key m), keccak := ctx\<rparr>"

lemma keyed_workspace_fields [simp]:
  "rho (keyed_workspace key m ctx) = public_seed key" "coins (keyed_workspace key m ctx) = drop 32 (spec_G key m)"
  by (simp_all add: keyed_workspace_def)

definition keyed_run :: "key_source \<Rightarrow> bytes \<Rightarrow> c0_keccak_ctx \<Rightarrow> 's ct_write \<Rightarrow> 's
    \<Rightarrow> (status \<times> bytes \<times> mlkem_workspace_internal \<times> 's) option" where
  "keyed_run key m ctx wr s = do {
     (result, state1, s1) \<leftarrow> encap_rows wr [0, 1] (keyed_workspace key m ctx, s);
     if result \<noteq> C0PQLINK_OK then Some (encap_finish result (take 32 (spec_G key m)) s1)
     else case write_all wr s1 (chunks_v (v_poly key (coins state1)) m) of
       (result', s3) \<Rightarrow> Some (encap_finish result' (take 32 (spec_G key m)) s3)}"

lemma keyed_run_status:
  assumes "keyed_run key m ctx wr s = Some (st, ss', ws', s')"
  shows "st \<noteq> C0PQLINK_ERR_KEY_ENCODING"
proof -
  obtain r state1 s1 where rows: "encap_rows wr [0, 1] (keyed_workspace key m ctx, s) = Some (r, state1, s1)"
    using assms by (auto simp: keyed_run_def simp del: encap_rows.simps split: Option.bind_splits)
  obtain r' s3 where w: "write_all wr s1 (chunks_v (v_poly key (coins state1)) m) = (r', s3)" by fastforce
  have "st = r \<or> st = r'"
    using assms rows w by (simp add: keyed_run_def encap_finish_def del: encap_rows.simps split: if_split_asm)
  moreover have "r = C0PQLINK_OK \<or> r = C0PQLINK_ERR_IO" by (rule encap_rows_status [OF rows])
  moreover have "r' = C0PQLINK_OK \<or> r' = C0PQLINK_ERR_IO"
    using write_all_status [of wr s1 "chunks_v (v_poly key (coins state1)) m"] w by simp
  ultimately show ?thesis by auto
qed

lemma encap_run_keyed:
  assumes key: "canonical_key key"
  shows "\<exists>ctx. \<forall>wr s ss. encap_run (pure_reader key) m wr s ss = keyed_run key m ctx wr s"
proof -
  let ?h = "spec_keccak 136 0x06 (key_string key) 32"
  obtain ctx where kc: "derive_k_and_coins m ?h = (take 32 (spec_G key m), drop 32 (spec_G key m), ctx)"
    using derive_k_and_coins_spec [of ?h m] by (auto simp: spec_G_def)
  have "encap_run (pure_reader key) m wr s ss = keyed_run key m ctx wr s" for wr :: "'a ct_write" and s ss
  proof -
    obtain c where va: "validate_and_hash_public_key (pure_reader key) (rho workspace_zero) s =
        (C0PQLINK_OK, ?h, public_seed key, c, s)"
      using validate_and_hash_spec [of key "rho workspace_zero" s] key by auto
    show ?thesis
      by (simp add: encap_run_def va kc keyed_run_def keyed_workspace_def write_compressed_v_def
          chunks_v_def [symmetric] case_prod_unfold encap_v_poly Let_def del: encap_rows.simps cong: if_cong)
  qed
  then show ?thesis by blast
qed

text \<open>With both rows computed, the outcome is the outcome of writing the 768 bytes.\<close>

lemma encap_run_accepted:
  assumes key: "canonical_key key"
    and u0: "row_poly 0 (public_seed key) (drop 32 (spec_G key m)) = Some u0"
    and u1: "row_poly 1 (public_seed key) (drop 32 (spec_G key m)) = Some u1"
  shows "encap_run (pure_reader key) m wr s ss =
    Some (case write_all wr s (ciphertext_chunks key m u0 u1) of (r, s') \<Rightarrow>
      (r, if r \<noteq> C0PQLINK_OK then replicate 32 0 else take 32 (spec_G key m), workspace_zero, s'))"
proof -
  obtain ctx where run: "\<And>wr s ss. encap_run (pure_reader key) m (wr :: 'a ct_write) s ss = keyed_run key m ctx wr s"
    using encap_run_keyed [OF key] by blast
  let ?s0 = "keyed_workspace key m ctx"
  obtain st0 where st0: "encap_row 0 ?s0 = Some st0" "accumulator st0 = u0"
    using row_poly_encap [of 0 ?s0 u0] u0 by auto
  have f0: "rho st0 = public_seed key" "coins st0 = drop 32 (spec_G key m)"
    using encap_row_poly [OF st0(1)] by simp_all
  obtain st1 where st1: "encap_row 1 st0 = Some st1" "accumulator st1 = u1"
    using row_poly_encap [of 1 st0 u1] u1 f0 by auto
  have c1: "coins st1 = drop 32 (spec_G key m)" using encap_row_poly [OF st1(1)] f0 by simp
  have z: "c0pqlink_secure_zero (take 32 (spec_G key m)) 32 = replicate 32 0" by simp
  show ?thesis
    using st0 st1 c1
    by (simp add: run keyed_run_def Let_def write_compressed_u_def
        chunks_u_def [symmetric] ciphertext_chunks_def write_all_append
        encap_finish_def z split: prod.split)
qed

text \<open>Without one of the rows the run does not return, unless a write has failed before.\<close>

lemma encap_row_None: "row_poly row (rho state) (coins state) = None \<Longrightarrow> encap_row row state = None"
  using encap_row_poly [of row state] by (cases "encap_row row state") auto

lemma encap_run_unsampled:
  assumes key: "canonical_key key"
    and rows: "row_poly 0 (public_seed key) (drop 32 (spec_G key m)) = None \<or>
      (\<exists>u0. row_poly 0 (public_seed key) (drop 32 (spec_G key m)) = Some u0 \<and>
        row_poly 1 (public_seed key) (drop 32 (spec_G key m)) = None \<and> fst (write_all wr s (chunks_u u0)) = C0PQLINK_OK)"
  shows "encap_run (pure_reader key) m wr s ss = None"
proof -
  obtain ctx where run: "\<And>wr s ss. encap_run (pure_reader key) m (wr :: 'a ct_write) s ss = keyed_run key m ctx wr s"
    using encap_run_keyed [OF key] by blast
  let ?s0 = "keyed_workspace key m ctx"
  have "encap_rows wr [0, 1] (?s0, s) = None"
    using rows
  proof
    assume "row_poly 0 (public_seed key) (drop 32 (spec_G key m)) = None"
    then have "encap_row 0 ?s0 = None" by (intro encap_row_None) simp
    then show ?thesis by simp
  next
    assume "\<exists>u0. row_poly 0 (public_seed key) (drop 32 (spec_G key m)) = Some u0 \<and>
        row_poly 1 (public_seed key) (drop 32 (spec_G key m)) = None \<and> fst (write_all wr s (chunks_u u0)) = C0PQLINK_OK"
    then obtain u0 where u0: "row_poly 0 (public_seed key) (drop 32 (spec_G key m)) = Some u0"
      and u1: "row_poly 1 (public_seed key) (drop 32 (spec_G key m)) = None"
      and w: "fst (write_all wr s (chunks_u u0)) = C0PQLINK_OK" by blast
    obtain st0 where st0: "encap_row 0 ?s0 = Some st0" "accumulator st0 = u0"
      using row_poly_encap [of 0 ?s0 u0] u0 by auto
    have "encap_row 1 st0 = None" using encap_row_poly [OF st0(1)] u1 by (intro encap_row_None) simp
    then show ?thesis using st0 w by (simp add: write_compressed_u_def chunks_u_def [symmetric] case_prod_unfold Let_def)
  qed
  then show ?thesis by (simp add: run keyed_run_def del: encap_rows.simps)
qed

text \<open>A run that returns success has computed both rows.\<close>

lemma encap_run_ok_rows:
  assumes "encap_run (pure_reader key) m wr s ss = Some (C0PQLINK_OK, ss', ws', s')"
  obtains u0 u1 where "canonical_key key" and "row_poly 0 (public_seed key) (drop 32 (spec_G key m)) = Some u0"
    and "row_poly 1 (public_seed key) (drop 32 (spec_G key m)) = Some u1"
proof -
  have key: "canonical_key key"
    using assms encap_run_refused [of key m wr s ss] by (cases "canonical_key key") auto
  obtain ctx where run: "\<And>wr s ss. encap_run (pure_reader key) m (wr :: 'a ct_write) s ss = keyed_run key m ctx wr s"
    using encap_run_keyed [OF key] by blast
  let ?s0 = "keyed_workspace key m ctx"
  obtain st state1 s1 where rows: "encap_rows wr [0, 1] (?s0, s) = Some (st, state1, s1)" and ok: "st = C0PQLINK_OK"
    using assms
    by (auto simp: run keyed_run_def encap_finish_def simp del: encap_rows.simps split: Option.bind_splits if_split_asm)
  then obtain st0 st1 where st0: "encap_row 0 ?s0 = Some st0" and st1: "encap_row 1 st0 = Some st1"
    by (auto split: Option.bind_splits prod.split_asm if_split_asm)
  have "row_poly 0 (public_seed key) (drop 32 (spec_G key m)) = Some (accumulator st0)"
    and "rho st0 = public_seed key" "coins st0 = drop 32 (spec_G key m)"
    using encap_row_poly [OF st0] by simp_all
  with encap_row_poly [OF st1] key that show ?thesis by auto
qed

section \<open>Properties\<close>

lemma saturated_key_refused: "\<not> canonical_key (\<lambda>_. 255)"
proof -
  have "spec_decode12 (key_bytes (\<lambda>_. 255)) 0 = 4095"
    by (simp add: spec_decode12_def key_bytes_def upt_rec bit_numeral_rec)
  then show ?thesis unfolding canonical_key_def by (auto intro!: exI [of _ 0])
qed

text \<open>C16: encapsulation at its interface. Whatever the callbacks do, a run that returns leaves the
  workspace wiped and reports success, \<open>C0PQLINK_ERR_KEY_ENCODING\<close> or \<open>C0PQLINK_ERR_IO\<close>: a refused key
  has only been read, with nothing written and the secret untouched; after a failed write the secret
  is wiped; a successful run has written 640 bytes, read on and written 128 more, with a secret of
  32 bytes. With a reader that stands for a key, the key is refused exactly when one of its
  coefficients is not below the modulus, and success returns \<open>K\<close> of \<open>G(m || H(ek))\<close>.\<close>

theorem encapsulate_outcome:
  assumes "c0_mlkem512_encapsulate_derand (Some rd) (Some m) (Some wr) s (Some ss) (Some ws) = Some (st, ss', ws', s')"
  shows "ws' = Some workspace_zero \<and>
    st \<in> {C0PQLINK_OK, C0PQLINK_ERR_KEY_ENCODING, C0PQLINK_ERR_IO} \<and>
    (st = C0PQLINK_ERR_KEY_ENCODING \<longrightarrow> ss' = Some ss \<and> reads rd s s') \<and>
    (st = C0PQLINK_ERR_IO \<longrightarrow> ss' = Some (replicate 32 0)) \<and>
    (st = C0PQLINK_OK \<longrightarrow> (\<exists>secret s0 u s1 s2 v. ss' = Some secret \<and> length secret = 32 \<and>
       reads rd s s0 \<and> write_all wr s0 u = (C0PQLINK_OK, s1) \<and> length (concat u) = 640 \<and>
       reads rd s1 s2 \<and> write_all wr s2 v = (C0PQLINK_OK, s') \<and> length (concat v) = 128)) \<and>
    (\<forall>key. rd = pure_reader key \<longrightarrow>
       (st = C0PQLINK_ERR_KEY_ENCODING \<longleftrightarrow> \<not> canonical_key key) \<and>
       (st = C0PQLINK_ERR_KEY_ENCODING \<longrightarrow> ss' = Some ss \<and> s' = s) \<and>
       (st = C0PQLINK_OK \<longrightarrow> ss' = Some (take 32 (spec_G key m)) \<and>
          (\<exists>chunks. length (concat chunks) = 768 \<and> write_all wr s chunks = (C0PQLINK_OK, s'))) \<and>
       (st \<noteq> C0PQLINK_OK \<and> canonical_key key \<longrightarrow> st = C0PQLINK_ERR_IO \<and> ss' = Some (replicate 32 0)))"
proof -
  obtain ss1 ws1 where run: "encap_run rd m wr s ss = Some (st, ss1, ws1, s')"
    and out: "ss' = Some ss1" "ws' = Some ws1"
    using assms by (auto simp: c0_mlkem512_encapsulate_derand_def)
  have keyed: "(st = C0PQLINK_ERR_KEY_ENCODING \<longleftrightarrow> \<not> canonical_key key) \<and>
      (st = C0PQLINK_ERR_KEY_ENCODING \<longrightarrow> ss1 = ss \<and> s' = s) \<and>
      (st = C0PQLINK_OK \<longrightarrow> ss1 = take 32 (spec_G key m) \<and>
          (\<exists>chunks. length (concat chunks) = 768 \<and> write_all wr s chunks = (C0PQLINK_OK, s')))"
    if rd: "rd = pure_reader key" for key
  proof (cases "canonical_key key")
    case False
    with run encap_run_refused [OF False, of m wr s ss] rd show ?thesis by simp
  next
    case key: True
    obtain ctx where eq: "\<And>wr s ss. encap_run (pure_reader key) m (wr :: 'a ct_write) s ss = keyed_run key m ctx wr s"
      using encap_run_keyed [OF key] by blast
    have "keyed_run key m ctx wr s = Some (st, ss1, ws1, s')" using run by (simp only: rd eq)
    then have "st \<noteq> C0PQLINK_ERR_KEY_ENCODING" by (rule keyed_run_status)
    moreover have "ss1 = take 32 (spec_G key m) \<and> (\<exists>chunks. length (concat chunks) = 768 \<and> write_all wr s chunks = (C0PQLINK_OK, s'))"
      if good: "st = C0PQLINK_OK"
    proof -
      obtain u0 u1 where u: "row_poly 0 (public_seed key) (drop 32 (spec_G key m)) = Some u0"
        "row_poly 1 (public_seed key) (drop 32 (spec_G key m)) = Some u1"
        using encap_run_ok_rows [OF run [unfolded good rd]] by metis
      from encap_run_accepted [OF key u, of wr s ss] run good rd show ?thesis
        by (auto split: prod.split_asm if_split_asm intro!: exI [of _ "ciphertext_chunks key m u0 u1"])
    qed
    ultimately show ?thesis using key by simp
  qed
  from run show ?thesis
  proof (cases rule: encap_run_cases)
    case refused
    with keyed out show ?thesis by simp
  next
    case failed
    with keyed out show ?thesis by simp
  next
    case success
    then have "\<exists>secret s0 u s1 s2 v. ss' = Some secret \<and> length secret = 32 \<and>
       reads rd s s0 \<and> write_all wr s0 u = (C0PQLINK_OK, s1) \<and> length (concat u) = 640 \<and>
       reads rd s1 s2 \<and> write_all wr s2 v = (C0PQLINK_OK, s') \<and> length (concat v) = 128"
      using out(1) by blast
    with keyed out success(1,3) show ?thesis by simp
  qed
qed

theorem encapsulate_outcome_witness:
  "c0_mlkem512_encapsulate_derand (Some (pure_reader (\<lambda>_. 255))) (Some (replicate 32 1)) (Some (\<lambda>s _. (0, s))) ()
     (Some (replicate 32 2)) (Some workspace_zero)
   = Some (C0PQLINK_ERR_KEY_ENCODING, Some (replicate 32 2), Some workspace_zero, ())"
proof -
  have "\<exists>st ss' ws' s'. c0_mlkem512_encapsulate_derand (Some (pure_reader (\<lambda>_. 255))) (Some (replicate 32 1))
      (Some (\<lambda>s _. (0, s))) () (Some (replicate 32 2)) (Some workspace_zero) = Some (st, ss', ws', s' :: unit)"
    by (simp add: c0_mlkem512_encapsulate_derand_def encap_run_refused [OF saturated_key_refused])
  then obtain st ss' ws' s' where run: "c0_mlkem512_encapsulate_derand (Some (pure_reader (\<lambda>_. 255))) (Some (replicate 32 1))
      (Some (\<lambda>s _. (0, s))) () (Some (replicate 32 2)) (Some workspace_zero) = Some (st, ss', ws', s' :: unit)"
    by blast
  from encapsulate_outcome [OF run] run saturated_key_refused show ?thesis by auto
qed

end
