(* ===== verification/Handshake.thy ===== *)
theory Handshake
  imports Fragments Encapsulation
begin

text \<open>
  The handshake as a whole: what \<open>connect\<close> leaves behind on every path, and what a successful
  run means for the wire, the peer's messages and the keys installed.
\<close>

unbundle bit_operations_syntax

section \<open>Failure\<close>

text \<open>The client after a failed handshake, and after \<open>close\<close>: no secret is left.\<close>

definition secrets_wiped :: "'w c0pq_client \<Rightarrow> bool" where
  "secrets_wiped c \<longleftrightarrow> send_secret c = replicate 32 0 \<and> receive_secret c = replicate 32 0 \<and>
     send_nonce_base c = replicate 16 0 \<and> receive_nonce_base c = replicate 16 0"

lemma wipe_secrets_wiped: "client_wf c \<Longrightarrow> secrets_wiped (wipe_secrets c)"
  by (simp add: secrets_wiped_def wipe_secrets_def client_wf_def)

lemma wipe_secrets_wf [simp]: "client_wf c \<Longrightarrow> client_wf (wipe_secrets c)" "config (wipe_secrets c) = config c"
  by (simp_all add: wipe_secrets_def client_wf_def)

definition failed_client :: "'w c0pq_client \<Rightarrow> 'w c0pq_client \<Rightarrow> bool" where
  "failed_client c c' \<longleftrightarrow> client_state c' = C0PQ_CLIENT_FAILED \<and> secrets_wiped c' \<and> config c' = config c \<and> client_wf c'"

lemma connect_fail_outcome:
  "client_wf c1 \<Longrightarrow> config c1 = config c \<Longrightarrow> connect_fail r c1 w = (st, c', ws', w') \<Longrightarrow>
     st = r \<and> failed_client c c' \<and> ws' = workspace_zero"
  using wipe_secrets_wiped [of c1]
  by (auto simp: connect_fail_def failed_client_def secrets_wiped_def client_wf_def wipe_secrets_def)

section \<open>Preflight\<close>

definition session_of :: "bytes \<Rightarrow> u32" where
  "session_of nonce = c0pq_load32_be (take 4 nonce) XOR 0xc0505101"

definition hello_of :: "'w c0pq_client \<Rightarrow> bytes \<Rightarrow> c0pq_hello" where
  "hello_of c nonce = \<lparr>hello_suite = C0PQ_SUITE, hello_device_id = device_id (config c),
     hello_epoch = cfg_epoch (config c), hello_nonce = nonce\<rparr>"

definition transcript_hello :: "'w c0pq_client \<Rightarrow> bytes \<Rightarrow> bytes" where
  "transcript_hello c nonce = text_bytes ''C0PQ/1 transcript'' @ hello_core (session_of nonce) (hello_of c nonce)"

lemma hello_of_wf: "client_wf c \<Longrightarrow> length nonce = 16 \<Longrightarrow> hello_wf (hello_of c nonce)"
  by (simp add: hello_of_def hello_wf_def client_wf_def)

lemma connect_hello_client:
  assumes "connect_hello c w = (st, c1, frame, nonce, tr, w1)"
  shows "c1 = c \<or> c1 = c\<lparr>session_id := session_of nonce\<rparr>"
  using assms by (auto simp: connect_hello_def session_of_def Let_def split: prod.split_asm if_split_asm)

text \<open>The hello step, given the random bytes and the outcome of its exchange.\<close>

lemma connect_hello_run:
  assumes wf: "client_wf c" and rng: "the (random_bytes (config c)) w 16 = (0, b, w0)"
    and n: "n = memcpy (replicate 16 0) 0 (take 16 b)"
    and x: "send_and_receive (c\<lparr>session_id := session_of n\<rparr>) (hello_frame (psk (config c)) (session_of n) (hello_of c n) @ replicate 36 0)
      60 C0PQ_FRAME_CHALLENGE 84 w0 = (st, f', w2)"
  obtains tr where "connect_hello c w = (st, c\<lparr>session_id := session_of n\<rparr>, f', n, tr, w2)"
    and "sha_represents tr (transcript_hello c n)"
proof -
  have len: "length n = 16" by (simp add: n)
  have dev: "take 8 (device_id (config c)) = device_id (config c)" using wf by (simp add: client_wf_def)
  have h: "hello_zero\<lparr>hello_suite := C0PQ_SUITE, hello_device_id := take 8 (device_id (config c)),
      hello_epoch := cfg_epoch (config c), hello_nonce := n\<rparr> = hello_of c n"
    by (simp add: hello_of_def hello_zero_def dev)
  let ?f = "hello_frame (psk (config c)) (session_of n) (hello_of c n)"
  have enc: "c0pq_encode_hello (Some (replicate 96 0)) (session_of n) (Some (hello_of c n)) (Some (psk (config c)))
      = (C0PQLINK_OK, Some (?f @ replicate 36 0))"
    using encode_hello_ok [OF hello_of_wf [OF wf len]] by simp
  have hw: "hello_wf (hello_of c n)" by (rule hello_of_wf [OF wf len])
  have t44: "take 44 ?f = hello_core (session_of n) (hello_of c n)" "length ?f = 60"
    using hw by (simp_all add: hello_frame_def)
  let ?tr = "c0_sha256_update (c0_sha256_update c0_sha256_init (text_bytes ''C0PQ/1 transcript''))
      (hello_core (session_of n) (hello_of c n))"
  have eq: "connect_hello c w = (st, c\<lparr>session_id := session_of n\<rparr>, f', n, ?tr, w2)"
    using rng enc x h
    by (simp add: connect_hello_def Let_def n [symmetric] session_of_def [symmetric]
        c0pq_transcript_init_def c0pq_transcript_add_hello_def t44)
  have "sha_represents ?tr (transcript_hello c n)"
    using sha.represents_updates [OF sha.represents_init, of "[text_bytes ''C0PQ/1 transcript'', hello_core (session_of n) (hello_of c n)]"]
    by (simp add: transcript_hello_def)
  with that eq show ?thesis by blast
qed

lemma connect_hello_ok:
  assumes wf: "client_wf c" and run: "connect_hello c w = (C0PQLINK_OK, c1, frame, nonce, tr, w1)"
  obtains b w0 where "the (random_bytes (config c)) w 16 = (0, b, w0)" and "nonce = memcpy (replicate 16 0) 0 (take 16 b)"
    and "length nonce = 16" and "c1 = c\<lparr>session_id := session_of nonce\<rparr>"
    and "sha_represents tr (transcript_hello c nonce)"
    and "send_and_receive c1 (hello_frame (psk (config c)) (session_of nonce) (hello_of c nonce) @ replicate 36 0) 60
           C0PQ_FRAME_CHALLENGE 84 w0 = (C0PQLINK_OK, frame, w1)"
proof -
  obtain r b w0 where rng: "the (random_bytes (config c)) w 16 = (r, b, w0)" by (metis prod_cases3)
  define n where "n = memcpy (replicate 16 0) 0 (take 16 b)"
  have r: "r = 0" by (rule ccontr) (use run rng in \<open>simp add: connect_hello_def\<close>)
  obtain st f' w2 where x: "send_and_receive (c\<lparr>session_id := session_of n\<rparr>)
      (hello_frame (psk (config c)) (session_of n) (hello_of c n) @ replicate 36 0) 60 C0PQ_FRAME_CHALLENGE 84 w0 = (st, f', w2)"
    by (metis prod_cases3)
  obtain tr' where eq: "connect_hello c w = (st, c\<lparr>session_id := session_of n\<rparr>, f', n, tr', w2)"
    and tr: "sha_represents tr' (transcript_hello c n)"
    by (rule connect_hello_run [OF wf rng [unfolded r] n_def x])
  have e: "st = C0PQLINK_OK" "c1 = c\<lparr>session_id := session_of n\<rparr>" "frame = f'" "nonce = n" "tr = tr'" "w1 = w2"
    using run unfolding eq prod.inject by blast+
  have len: "length n = 16" by (simp add: n_def)
  show ?thesis by (rule that [of b w0]) (use rng r n_def len tr x e in simp_all)
qed

lemma connect_challenge_ok:
  assumes wf: "client_wf c" and len: "length frame = 96" and nl: "length nonce = 16"
    and tr: "sha_represents tr T"
    and run: "connect_challenge c frame nonce tr = (C0PQLINK_OK, wr)"
  obtains ch tr' where "challenge_wf ch" and "ch_epoch ch = cfg_epoch (config c)"
    and "ch_key_id ch = public_key_id (config c)" and "ch_device_nonce ch = nonce"
    and "take 84 frame = challenge_frame (psk (config c)) (session_id c) ch"
    and "wr = fresh_writer c (challenge_key (psk (config c)) ch) tr'"
    and "sha_represents tr' (T @ challenge_core (session_id c) ch)"
proof -
  let ?d = "c0pq_decode_verify_challenge (Some challenge_zero) (session_id c) (Some frame) 84 (Some (psk (config c)))"
  let ?ch = "the (snd ?d)"
  note run' = run [unfolded connect_challenge_def Let_def case_prod_unfold]
  have ok: "fst ?d = C0PQLINK_OK" by (rule ccontr) (use run' in simp)
  have m: "verify_challenge_matches c ?ch nonce = C0PQLINK_OK" by (rule ccontr) (use run' ok in simp)
  have "snd ?d = Some ?ch"
    by (simp add: c0pq_decode_verify_challenge_def Let_def case_prod_unfold)
  then have d: "?d = (C0PQLINK_OK, Some ?ch)" using ok by (metis prod.collapse)
  then have cw: "challenge_wf ?ch" and fr: "take 84 frame = challenge_frame (psk (config c)) (session_id c) ?ch"
    using decode_challenge_ok_iff [of frame challenge_zero "session_id c" "psk (config c)" ?ch] len by simp_all
  have kid: "length (public_key_id (config c)) = 16" using wf by (simp add: client_wf_def)
  have match: "ch_epoch ?ch = cfg_epoch (config c)" "ch_key_id ?ch = public_key_id (config c)" "ch_device_nonce ?ch = nonce"
    using m cw kid nl by (auto simp: verify_challenge_matches_def challenge_wf_def split: if_split_asm)
  have "take 68 frame = take 68 (take 84 frame)" by simp
  then have t68: "take 68 frame = challenge_core (session_id c) ?ch"
    unfolding fr using cw by (simp add: challenge_frame_def)
  let ?tr = "c0_sha256_update tr (challenge_core (session_id c) ?ch)"
  have "wr = fresh_writer c (challenge_key (psk (config c)) ?ch) ?tr"
    using run' ok m by (simp add: fresh_writer_def challenge_key_def c0pq_transcript_add_challenge_def t68)
  with that [of ?ch ?tr] cw match fr sha.represents_update [OF tr] show ?thesis by blast
qed

text \<open>The way back: a challenge that matches is accepted.\<close>

lemma connect_challenge_run:
  assumes wf: "client_wf c" and len: "length frame = 96" and nl: "length nonce = 16" and tr: "sha_represents tr T"
    and cw: "challenge_wf ch" and fr: "take 84 frame = challenge_frame (psk (config c)) (session_id c) ch"
    and match: "ch_epoch ch = cfg_epoch (config c)" "ch_key_id ch = public_key_id (config c)" "ch_device_nonce ch = nonce"
  obtains tr' where "connect_challenge c frame nonce tr
      = (C0PQLINK_OK, fresh_writer c (challenge_key (psk (config c)) ch) tr')"
    and "sha_represents tr' (T @ challenge_core (session_id c) ch)"
proof -
  have d: "c0pq_decode_verify_challenge (Some challenge_zero) (session_id c) (Some frame) 84 (Some (psk (config c)))
      = (C0PQLINK_OK, Some ch)" using decode_challenge_ok_iff [of frame challenge_zero "session_id c" "psk (config c)" ch] len cw fr by simp
  have kid: "length (public_key_id (config c)) = 16" using wf by (simp add: client_wf_def)
  have m: "verify_challenge_matches c ch nonce = C0PQLINK_OK"
    using cw match kid nl by (simp add: verify_challenge_matches_def challenge_wf_def)
  have "take 68 frame = take 68 (take 84 frame)" by simp
  then have t68: "take 68 frame = challenge_core (session_id c) ch"
    unfolding fr using cw by (simp add: challenge_frame_def)
  have "connect_challenge c frame nonce tr = (C0PQLINK_OK, fresh_writer c (challenge_key (psk (config c)) ch)
      (c0_sha256_update tr (challenge_core (session_id c) ch)))"
    by (simp add: connect_challenge_def Let_def d m fresh_writer_def challenge_key_def c0pq_transcript_add_challenge_def t68)
  with that sha.represents_update [OF tr] show ?thesis by blast
qed

section \<open>Ciphertext\<close>

lemma writer_complete:
  assumes "writer_at client key ct wr" and "length ct = 768"
  shows "pending_length wr = 0" and "fragment_index wr = 16" and "failure wr = C0PQLINK_OK"
  using assms by (simp_all add: writer_at_def word_unat_eq_iff)

text \<open>Reading the key leaves the writer alone, and the log of sent frames where a single read does.\<close>

lemma lift_read_apply: "lift_read rd (wr, w) i = (fst (rd w i), (wr, snd (rd w i)))"
  by (simp add: lift_read_def Let_def case_prod_unfold)

lemma lift_read_pure [simp]: "lift_read (pure_reader key) = pure_reader key"
  by (rule ext)+ (auto simp: lift_read_apply)

lemma reads_lift:
  assumes "reads (lift_read rd) (wr, w) s'"
  obtains w' where "s' = (wr, w')" and "\<And>sent. (\<And>w i. sent (snd (rd w i)) = sent w) \<Longrightarrow> sent w' = sent w"
proof -
  obtain wr' w' where s': "s' = (wr', w')" by fastforce
  have "wr' = wr" using reads_keep [OF assms, of fst] by (auto simp: s' lift_read_apply)
  moreover have "sent w' = sent w" if "\<And>w i. sent (snd (rd w i)) = sent w" for sent :: "'a \<Rightarrow> 'z"
    using reads_keep [OF assms, of "\<lambda>s. sent (snd s)"] that by (auto simp: s' lift_read_apply)
  ultimately show ?thesis using that s' by blast
qed

lemma connect_ciphertext_encap:
  assumes run: "connect_ciphertext c wr ws w = Some (C0PQLINK_OK, ss, wr', w')"
  obtains rd rng m w0 ws2 wr1 w1 where "read_public_key (config c) = Some rd" and "random_bytes (config c) = Some rng"
    and "rng w 32 = (0, m, w0)"
    and "encap_run (lift_read rd) m write_ciphertext (wr, w0) (replicate 32 0) = Some (C0PQLINK_OK, ss, ws2, (wr1, w1))"
    and "pending_length wr1 = 0 \<longrightarrow> wr' = wr1\<lparr>session_auth_key := c0pqlink_secure_zero (session_auth_key wr1) 32\<rparr> \<and> w' = w1"
proof -
  let ?rng = "map_option lift_rng (random_bytes (config c))" and ?rd = "map_option lift_read (read_public_key (config c))"
  obtain st ss1 ws1 wr1 w1 where enc: "c0_mlkem512_encapsulate ?rd ?rng (Some write_ciphertext)
      (wr, w) (Some (replicate 32 0)) (Some ws) = Some (st, ss1, ws1, (wr1, w1))"
    using run by (auto simp: connect_ciphertext_def split: Option.bind_splits)
  note run' = run [unfolded connect_ciphertext_def enc, simplified]
  have st: "st = C0PQLINK_OK"
    by (rule ccontr) (use run' in \<open>simp add: Let_def\<close>)
  obtain rng where rng: "random_bytes (config c) = Some rng"
    using enc st by (cases "random_bytes (config c)") (auto simp: c0_mlkem512_encapsulate_def)
  obtain r m w0 where m: "rng w 32 = (r, m, w0)" by (metis prod_cases3)
  have r: "r = 0"
    by (rule ccontr) (use enc st rng m in \<open>simp add: c0_mlkem512_encapsulate_def lift_rng_def\<close>)
  obtain rd where rd: "read_public_key (config c) = Some rd"
    using enc st rng m r by (cases "read_public_key (config c)")
      (auto simp: c0_mlkem512_encapsulate_def c0_mlkem512_encapsulate_derand_def lift_rng_def)
  obtain ss2 ws2 where er: "encap_run (lift_read rd) m write_ciphertext (wr, w0) (replicate 32 0)
      = Some (C0PQLINK_OK, ss2, ws2, (wr1, w1))" and ss1: "ss1 = Some ss2"
    using enc st rng m r rd by (auto simp: c0_mlkem512_encapsulate_def c0_mlkem512_encapsulate_derand_def lift_rng_def)
  have ss: "ss = ss2" using run' st ss1 by (auto simp: Let_def split: prod.split_asm if_split_asm)
  have "wr' = wr1\<lparr>session_auth_key := c0pqlink_secure_zero (session_auth_key wr1) 32\<rparr> \<and> w' = w1" if "pending_length wr1 = 0"
    using run' st that by (auto simp: Let_def split: if_split_asm)
  with that [OF rd rng] m r ss er show ?thesis by simp
qed

text \<open>What a reader that stands for a key adds to a successful encapsulation.\<close>

lemma encap_ok_keyed:
  assumes "encap_run (pure_reader key) m wr s ss = Some (C0PQLINK_OK, ss', ws', s')"
  shows "canonical_key key \<and> ss' = take 32 (spec_G key m)"
proof -
  obtain u0 u1 where key: "canonical_key key" and u: "row_poly 0 (public_seed key) (drop 32 (spec_G key m)) = Some u0"
    "row_poly 1 (public_seed key) (drop 32 (spec_G key m)) = Some u1"
    using encap_run_ok_rows [OF assms] .
  from encap_run_accepted [OF key u, of wr s ss] assms key show ?thesis
    by (auto split: prod.split_asm if_split_asm)
qed

text \<open>The random bytes that a run draws from its source.\<close>

definition drew :: "'w c0pq_client \<Rightarrow> 'w \<Rightarrow> nat \<Rightarrow> bytes \<Rightarrow> 'w \<Rightarrow> bool" where
  "drew c w n b w' \<longleftrightarrow> (\<exists>rng. random_bytes (config c) = Some rng \<and> rng w n = (0, b, w'))"

text \<open>The reader leaves the log of sent frames alone.\<close>

definition quiet_reader :: "'w c0pq_client \<Rightarrow> ('w \<Rightarrow> bytes list) \<Rightarrow> bool" where
  "quiet_reader c sent \<longleftrightarrow> (\<forall>w i. sent (snd (the (read_public_key (config c)) w i)) = sent w)"

text \<open>The check of the fragment count after the encapsulation never fails: a successful
  encapsulation has filled exactly sixteen fragments, whatever its reader does.\<close>

lemma connect_ciphertext_ok:
  assumes tr: "sha_represents tr T"
    and run: "connect_ciphertext c (fresh_writer c key tr) ws w = Some (C0PQLINK_OK, ss, wr', w')"
  obtains m w0 ct where "drew c w 32 m w0" and "length ss = 32" and "length ct = 768"
    and "\<forall>ek. read_public_key (config c) = Some (pure_reader ek) \<longrightarrow> canonical_key ek \<and> ss = take 32 (spec_G ek m)"
    and "sha_represents (transcript wr') (T @ ct)"
    and "\<forall>sent. logs_frames c sent \<and> quiet_reader c sent \<longrightarrow> (\<exists>js. sent w' = sent w0 @ js \<and>
           frames_sent (unat (maximum_retries (config c))) (fragment_range key (session_id c) ct 0 16) js)"
proof -
  let ?R = "unat (maximum_retries (config c))" and ?frags = "fragment_range key (session_id c)"
  obtain rd rng m w0 ws2 wr1 w1 where rd: "read_public_key (config c) = Some rd" and rng: "random_bytes (config c) = Some rng"
    and m: "rng w 32 = (0, m, w0)"
    and er: "encap_run (lift_read rd) m write_ciphertext (fresh_writer c key tr, w0) (replicate 32 0)
      = Some (C0PQLINK_OK, ss, ws2, (wr1, w1))"
    and fin: "pending_length wr1 = 0 \<longrightarrow> wr' = wr1\<lparr>session_auth_key := c0pqlink_secure_zero (session_auth_key wr1) 32\<rparr> \<and> w' = w1"
    by (rule connect_ciphertext_encap [OF run])
  obtain s0 u s1 s2 v where len: "length ss = 32"
    and r0: "reads (lift_read rd) (fresh_writer c key tr, w0) s0" and w_u: "write_all write_ciphertext s0 u = (C0PQLINK_OK, s1)"
    and lu: "length (concat u) = 640"
    and r1: "reads (lift_read rd) s1 s2" and w_v: "write_all write_ciphertext s2 v = (C0PQLINK_OK, (wr1, w1))"
    and lv: "length (concat v) = 128"
    using er by (cases rule: encap_run_cases) auto
  obtain v0 where s0: "s0 = (fresh_writer c key tr, v0)"
    and q0: "\<And>sent :: 'a \<Rightarrow> bytes list. (\<And>w i. sent (snd (rd w i)) = sent w) \<Longrightarrow> sent v0 = sent w0"
    by (rule reads_lift [OF r0]) blast
  obtain wr2 v1 where s1: "s1 = (wr2, v1)" by fastforce
  obtain v2 where s2: "s2 = (wr2, v2)"
    and q2: "\<And>sent :: 'a \<Rightarrow> bytes list. (\<And>w i. sent (snd (rd w i)) = sent w) \<Longrightarrow> sent v2 = sent v1"
    by (rule reads_lift [OF r1 [unfolded s1]]) blast
  let ?u = "concat u" and ?ct = "concat u @ concat v"
  have at_u: "writer_at c key ?u wr2" "sha_represents (transcript wr2) (T @ ?u)"
    and js_u: "\<forall>sent. logs_frames c sent \<longrightarrow> (\<exists>js. sent v1 = sent v0 @ js \<and> frames_sent ?R (?frags ?u 0 13) js)"
    using write_all_at [OF fresh_writer_at(1) _ w_u [unfolded s0 s1]] tr lu by auto
  have at_v: "writer_at c key ?ct wr1" "sha_represents (transcript wr1) ((T @ ?u) @ concat v)"
    and js_v: "\<forall>sent. logs_frames c sent \<longrightarrow> (\<exists>js. sent w1 = sent v2 @ js \<and> frames_sent ?R (?frags ?ct 13 16) js)"
    using write_all_at [OF at_u w_v [unfolded s2]] lu lv by auto
  have lct: "length ?ct = 768" using lu lv by simp
  have fin': "wr' = wr1\<lparr>session_auth_key := c0pqlink_secure_zero (session_auth_key wr1) 32\<rparr>" "w' = w1"
    using fin writer_complete(1) [OF at_v(1) lct] by simp_all
  have frames: "\<exists>js. sent w' = sent w0 @ js \<and> frames_sent ?R (?frags ?ct 0 16) js"
    if log: "logs_frames c sent" and quiet: "quiet_reader c sent" for sent
  proof -
    have q: "sent (snd (rd w i)) = sent w" for w i using quiet rd by (simp add: quiet_reader_def)
    obtain j1 where j1: "sent v1 = sent v0 @ j1" "frames_sent ?R (?frags ?u 0 13) j1" using js_u log by blast
    obtain j2 where j2: "sent w1 = sent v2 @ j2" "frames_sent ?R (?frags ?ct 13 16) j2" using js_v log by blast
    have "?frags ?u 0 13 = ?frags ?ct 0 13"
      using fragment_range_extend [of 13 ?u key "session_id c" "concat v" 0] lu by simp
    then have "frames_sent ?R (?frags ?ct 0 16) (j1 @ j2)"
      using frames_sent_append [OF j1(2) j2(2)] fragment_range_append [of 0 13 16 key "session_id c" ?ct] by simp
    moreover have "sent w' = sent w0 @ j1 @ j2"
      using j1(1) j2(1) q0 [of sent, OF q] q2 [of sent, OF q] fin'(2) by simp
    ultimately show ?thesis by blast
  qed
  have keyed: "\<forall>ek. read_public_key (config c) = Some (pure_reader ek) \<longrightarrow> canonical_key ek \<and> ss = take 32 (spec_G ek m)"
  proof (intro allI impI)
    fix ek assume "read_public_key (config c) = Some (pure_reader ek)"
    then have "lift_read rd = pure_reader ek" using rd by simp
    with er have "encap_run (pure_reader ek) m write_ciphertext (fresh_writer c key tr, w0) (replicate 32 0)
        = Some (C0PQLINK_OK, ss, ws2, (wr1, w1))" by simp
    then show "canonical_key ek \<and> ss = take 32 (spec_G ek m)" by (rule encap_ok_keyed)
  qed
  have "drew c w 32 m w0" using rng m by (simp add: drew_def)
  then show ?thesis
    by (rule that [OF _ len lct keyed]) (use at_v(2) fin'(1) frames in simp_all)
qed

text \<open>The way back: with the rows sampled and every chunk written, the step succeeds; without a row
  it does not return.\<close>

lemma connect_ciphertext_run:
  assumes rd: "read_public_key (config c) = Some (pure_reader rd)" "random_bytes (config c) = Some rng" "rng w 32 = (0, m, w0)"
    and key: "canonical_key rd"
    and rows: "row_poly 0 (public_seed rd) (drop 32 (spec_G rd m)) = Some u0" "row_poly 1 (public_seed rd) (drop 32 (spec_G rd m)) = Some u1"
    and tr: "sha_represents tr T"
    and wa: "write_all write_ciphertext (fresh_writer c k tr, w0) (ciphertext_chunks rd m u0 u1) = (C0PQLINK_OK, (wr1, w1))"
  obtains wr' where "connect_ciphertext c (fresh_writer c k tr) ws w = Some (C0PQLINK_OK, take 32 (spec_G rd m), wr', w1)"
    and "sha_represents (transcript wr') (T @ concat (ciphertext_chunks rd m u0 u1))"
proof -
  have at: "writer_at c k (concat (ciphertext_chunks rd m u0 u1)) wr1"
    and t: "sha_represents (transcript wr1) (T @ concat (ciphertext_chunks rd m u0 u1))"
    using write_all_at [OF fresh_writer_at(1) _ wa] tr by auto
  note full = writer_complete [OF at length_ciphertext]
  have "connect_ciphertext c (fresh_writer c k tr) ws w = Some (C0PQLINK_OK, take 32 (spec_G rd m),
      wr1\<lparr>session_auth_key := c0pqlink_secure_zero (session_auth_key wr1) 32\<rparr>, w1)"
    using encap_run_accepted [OF key rows, of write_ciphertext "(fresh_writer c k tr, w0)" "replicate 32 0"] wa rd full
    by (simp add: connect_ciphertext_def c0_mlkem512_encapsulate_def c0_mlkem512_encapsulate_derand_def lift_rng_def)
  with that [of "wr1\<lparr>session_auth_key := c0pqlink_secure_zero (session_auth_key wr1) 32\<rparr>"] t show ?thesis by simp
qed

lemma connect_ciphertext_unsampled:
  assumes rd: "read_public_key (config c) = Some (pure_reader rd)" "random_bytes (config c) = Some rng" "rng w 32 = (0, m, w0)"
    and "encap_run (pure_reader rd) m write_ciphertext (wr, w0) (replicate 32 0) = None"
  shows "connect_ciphertext c wr ws w = None"
  using assms
  by (simp add: connect_ciphertext_def c0_mlkem512_encapsulate_def c0_mlkem512_encapsulate_derand_def lift_rng_def)

section \<open>Finished\<close>

definition finished_frame :: "bytes \<Rightarrow> u8 \<Rightarrow> u32 \<Rightarrow> bytes \<Rightarrow> bytes" where
  "finished_frame key ty sid th = header_bytes ty 0 16 sid @ c0pq_finished_tag key ty sid th"

lemma length_finished_frame [simp]: "length (finished_frame key ty sid th) = 26"
  by (simp add: finished_frame_def)

lemma finished_accepted:
  assumes len: "length frame = 96" and hdr: "take 10 frame = header_bytes ty fl n sid" and n: "26 = unat n + 10"
    and ok: "hflags (the (snd (c0pq_decode_header (Some header_zero) (Some frame) 26))) = 0"
      "c0pq_finished_tag key ty sid th = slice frame 10 16"
  shows "take 26 frame = finished_frame key ty sid th"
proof -
  have n16: "n = 16" using n by (simp add: word_unat_eq_iff)
  have "c0pq_decode_header (Some header_zero) (Some frame) 26 =
      (C0PQLINK_OK, Some \<lparr>htype = ty, hflags = fl, payload_length = ucast n, hsession_id = sid\<rparr>)"
    using len hdr n by (subst decode_header_ok_iff) (auto intro!: exI [of _ n])
  then have "fl = 0" using ok(1) by simp
  moreover have "take 26 frame = take 10 frame @ slice frame 10 16" using take_add [of 10 16 frame] by (simp add: slice_def)
  ultimately show ?thesis using hdr n16 ok(2) by (simp add: finished_frame_def)
qed

lemma finished_buffer:
  "length k = 32 \<Longrightarrow> length th = 32 \<Longrightarrow>
   memcpy (the (snd (c0pq_encode_header (Some (replicate 96 0)) C0PQ_FRAME_DEVICE_FINISHED 0 16 sid))) 10
     (c0pq_finished_tag k C0PQ_FRAME_DEVICE_FINISHED sid th) = finished_frame k C0PQ_FRAME_DEVICE_FINISHED sid th @ replicate 70 0"
  by (simp add: encode_header_ok finished_frame_def memcpy_def)

lemma exchange_finished_run:
  assumes x: "send_and_receive c (finished_frame (device_finished_key keys) C0PQ_FRAME_DEVICE_FINISHED (session_id c) th
      @ replicate 70 0) 26 C0PQ_FRAME_SERVER_FINISHED 26 w = (C0PQLINK_OK, frame, w')"
    and fr: "take 26 frame = finished_frame (server_finished_key keys) C0PQ_FRAME_SERVER_FINISHED (session_id c) th"
    and len: "length frame = 96" and wf: "length (device_finished_key keys) = 32" "length th = 32"
  shows "exchange_finished c keys th w = (C0PQLINK_OK, w')"
proof -
  have "take 10 frame = take 10 (take 26 frame)" by simp
  then have hdr: "take 10 frame = header_bytes C0PQ_FRAME_SERVER_FINISHED 0 16 (session_id c)"
    unfolding fr by (simp add: finished_frame_def)
  have "slice frame 10 16 = drop 10 (take 26 frame)" by (simp add: slice_def drop_take)
  then have sl: "slice frame 10 16 = c0pq_finished_tag (server_finished_key keys) C0PQ_FRAME_SERVER_FINISHED (session_id c) th"
    unfolding fr by (simp add: finished_frame_def)
  have d: "c0pq_decode_header (Some header_zero) (Some frame) 26 =
      (C0PQLINK_OK, Some \<lparr>htype = C0PQ_FRAME_SERVER_FINISHED, hflags = 0, payload_length = 16, hsession_id = session_id c\<rparr>)"
    using len hdr by (subst decode_header_ok_iff) (auto intro!: exI [of _ 16])
  show ?thesis
    unfolding exchange_finished_def finished_buffer [OF wf] Let_def using x d sl by simp
qed

lemma exchange_finished_ok:
  assumes run: "exchange_finished c keys th w = (C0PQLINK_OK, w')"
  obtains frame where "send_and_receive c (finished_frame (device_finished_key keys) C0PQ_FRAME_DEVICE_FINISHED (session_id c) th
      @ replicate 70 0) 26 C0PQ_FRAME_SERVER_FINISHED 26 w = (C0PQLINK_OK, frame, w')"
    and "take 26 frame = finished_frame (server_finished_key keys) C0PQ_FRAME_SERVER_FINISHED (session_id c) th"
proof -
  let ?ff = "finished_frame (device_finished_key keys) C0PQ_FRAME_DEVICE_FINISHED (session_id c) th"
  obtain st frame w1 where x: "send_and_receive c (?ff @ replicate 70 0) 26 C0PQ_FRAME_SERVER_FINISHED 26 w = (st, frame, w1)"
    by (metis prod_cases3)
  let ?d = "c0pq_decode_header (Some header_zero) (Some frame) 26"
  let ?e = "c0pq_finished_tag (server_finished_key keys) C0PQ_FRAME_SERVER_FINISHED (session_id c) th"
  have buf: "memcpy (the (snd (c0pq_encode_header (Some (replicate 96 0)) C0PQ_FRAME_DEVICE_FINISHED 0 16 (session_id c)))) 10
      (c0pq_finished_tag (device_finished_key keys) C0PQ_FRAME_DEVICE_FINISHED (session_id c) th) = ?ff @ replicate 70 0"
    by (simp add: encode_header_ok finished_frame_def memcpy_def)
  have eq: "exchange_finished c keys th w = (if st \<noteq> C0PQLINK_OK then (st, w1)
      else if fst ?d \<noteq> C0PQLINK_OK \<or> hflags (the (snd ?d)) \<noteq> 0 \<or> payload_length (the (snd ?d)) \<noteq> 16 then (C0PQLINK_ERR_STATE, w1)
      else (if c0pqlink_ct_equal ?e (slice frame 10 16) 16 then C0PQLINK_OK else C0PQLINK_ERR_AUTH, w1))"
    unfolding exchange_finished_def buf Let_def by (simp add: x case_prod_unfold)
  have s: "st = C0PQLINK_OK" by (rule ccontr) (use run eq in simp)
  have h: "fst ?d = C0PQLINK_OK \<and> hflags (the (snd ?d)) = 0 \<and> payload_length (the (snd ?d)) = 16"
    by (rule ccontr) (use run eq s in simp)
  have e: "c0pqlink_ct_equal ?e (slice frame 10 16) 16" and w1: "w1 = w'" using run eq s h by (auto split: if_split_asm)
  have lenb: "length (?ff @ replicate 70 0) = 96" by simp
  have lf: "length frame = 96" and "\<exists>n fl. 26 = unat n + 10 \<and> take 10 frame = header_bytes C0PQ_FRAME_SERVER_FINISHED fl n (session_id c)"
    using exchange_accepts [OF x [unfolded s] lenb] by auto
  then obtain n fl where hdr: "26 = unat n + 10" "take 10 frame = header_bytes C0PQ_FRAME_SERVER_FINISHED fl n (session_id c)"
    by blast
  have "?e = slice frame 10 16" using e lf by simp
  from finished_accepted [OF lf hdr(2,1) _ this] h
  have "take 26 frame = finished_frame (server_finished_key keys) C0PQ_FRAME_SERVER_FINISHED (session_id c) th" by simp
  with that x s w1 show ?thesis by blast
qed

section \<open>The run\<close>

lemma logs_frames_config: "config c' = config c \<Longrightarrow> logs_frames c' sent = logs_frames c sent"
  by (simp add: logs_frames_def)

text \<open>The random source and the key reader leave the log of sent frames alone.\<close>

definition logs_world :: "'w c0pq_client \<Rightarrow> ('w \<Rightarrow> bytes list) \<Rightarrow> bool" where
  "logs_world c sent \<longleftrightarrow> logs_frames c sent \<and> quiet_reader c sent \<and>
     (\<forall>w n. sent (snd (snd (the (random_bytes (config c)) w n))) = sent w)"

lemma client_wf_session [simp]: "client_wf (c\<lparr>session_id := s\<rparr>) = client_wf c" "client_wf (c\<lparr>client_state := st\<rparr>) = client_wf c"
  by (simp_all add: client_wf_def)

lemma connect_finish_cases:
  assumes wf: "client_wf c" and tr: "sha_represents tr T" and ss: "length ss = 32"
    and run: "connect_finish c ss tr w = (st, c', ws', w')"
  defines "keys \<equiv> spec_session_keys (psk (config c)) ss (spec_sha256 T)"
  shows "ws' = workspace_zero"
    and "st \<noteq> C0PQLINK_OK \<Longrightarrow> failed_client c c'"
    and "st = C0PQLINK_OK \<Longrightarrow> c' = install_keys keys c \<and> exchange_finished c keys (spec_sha256 T) w = (C0PQLINK_OK, w')"
proof -
  let ?th = "spec_sha256 T"
  have th: "fst (c0_sha256_final tr) = ?th" using sha.final_hash [OF tr] .
  have "c0pq_derive_session_keys (Some session_keys_zero) (Some (psk (config c))) (Some ss) (Some ?th)
      = (C0PQLINK_OK, Some keys)"
    unfolding keys_def using wf ss by (intro derive_session_keys_ok) (simp_all add: client_wf_def sha.length_hash)
  then have eq: "connect_finish c ss tr w = (let (result, w1) = exchange_finished c keys ?th w in
      if result \<noteq> C0PQLINK_OK then connect_fail result c w1 else (C0PQLINK_OK, install_keys keys c, workspace_zero, w1))"
    by (simp add: connect_finish_def Let_def th split: prod.split)
  obtain r w1 where x: "exchange_finished c keys ?th w = (r, w1)" by fastforce
  show "ws' = workspace_zero"
    using run eq x by (auto simp: connect_fail_def split: if_split_asm)
  show "failed_client c c'" if "st \<noteq> C0PQLINK_OK"
    using run eq x that connect_fail_outcome [OF wf refl] by (auto split: if_split_asm)
  show "c' = install_keys keys c \<and> exchange_finished c keys ?th w = (C0PQLINK_OK, w')" if "st = C0PQLINK_OK"
    using run eq x that by (auto simp: connect_fail_def split: if_split_asm)
qed

text \<open>The hash of the transcript, and the session keys that follow from it.\<close>

definition transcript_hash :: "'w c0pq_client \<Rightarrow> bytes \<Rightarrow> c0pq_challenge \<Rightarrow> bytes \<Rightarrow> bytes" where
  "transcript_hash c nonce ch ct = spec_sha256 (transcript_hello c nonce @ challenge_core (session_of nonce) ch @ ct)"

text \<open>What a run that reports success has done.\<close>

definition established_by ::
  "'w c0pq_client \<Rightarrow> bytes \<Rightarrow> c0pq_challenge \<Rightarrow> bytes \<Rightarrow> bytes \<Rightarrow> 'w c0pq_client \<Rightarrow> bool" where
  "established_by c nonce ch ss ct c' \<longleftrightarrow>
     length nonce = 16 \<and> challenge_wf ch \<and> ch_epoch ch = cfg_epoch (config c) \<and>
     ch_key_id ch = public_key_id (config c) \<and> ch_device_nonce ch = nonce \<and> length ss = 32 \<and> length ct = 768 \<and>
     c' = install_keys (spec_session_keys (psk (config c)) ss (transcript_hash c nonce ch ct))
          (c\<lparr>client_state := C0PQ_CLIENT_CONNECTING, session_id := session_of nonce\<rparr>)"

text \<open>The peer's two proofs: its challenge, authenticated under the pre-shared key, and its
  finished message, authenticated under the keys of this very transcript; the latter came last.\<close>

definition peer_proved :: "'w c0pq_client \<Rightarrow> bytes \<Rightarrow> c0pq_challenge \<Rightarrow> bytes \<Rightarrow> bytes \<Rightarrow> 'w \<Rightarrow> 'w \<Rightarrow> bool" where
  "peer_proved c nonce ch ss ct w1 w' \<longleftrightarrow>
     delivered c (challenge_frame (psk (config c)) (session_of nonce) ch) 84 w1 \<and>
     (let th = transcript_hash c nonce ch ct
      in delivered c (finished_frame (server_finished_key (spec_session_keys (psk (config c)) ss th))
           C0PQ_FRAME_SERVER_FINISHED (session_of nonce) th) 26 w')"

definition handshake_frames :: "'w c0pq_client \<Rightarrow> bytes \<Rightarrow> c0pq_challenge \<Rightarrow> bytes \<Rightarrow> bytes \<Rightarrow> bytes list" where
  "handshake_frames c nonce ch ss ct =
     (let sid = session_of nonce; th = transcript_hash c nonce ch ct
      in [hello_frame (psk (config c)) sid (hello_of c nonce)] @
         fragment_range (challenge_key (psk (config c)) ch) sid ct 0 16 @
         [finished_frame (device_finished_key (spec_session_keys (psk (config c)) ss th)) C0PQ_FRAME_DEVICE_FINISHED sid th])"

lemma frames_sent_of_log: "sent w' = sent w @ f # js \<Longrightarrow> length js \<le> r \<Longrightarrow> \<exists>ks. sent w' = sent w @ ks \<and> frames_sent r [f] ks"
  by (intro exI [of _ "f # js"]) (simp add: frames_sent_one)

lemma logs_world_frames: "logs_world c sent \<Longrightarrow> config c' = config c \<Longrightarrow> logs_frames c' sent"
  by (simp add: logs_world_def logs_frames_def)

text \<open>What a successful run drew, received, sent and installed: the nonce is what the source gave
  first, the message of the encapsulation what it gave when the challenge was there.\<close>

definition connected :: "'w c0pq_client \<Rightarrow> 'w \<Rightarrow> 'w c0pq_client \<Rightarrow> 'w \<Rightarrow> bool" where
  "connected c w c' w' \<longleftrightarrow> (\<exists>b w0 nonce ch w1 m w2 ss ct.
     drew c w 16 b w0 \<and> nonce = memcpy (replicate 16 0) 0 (take 16 b) \<and> drew c w1 32 m w2 \<and>
     established_by c nonce ch ss ct c' \<and> peer_proved c nonce ch ss ct w1 w' \<and>
     (\<forall>key. read_public_key (config c) = Some (pure_reader key) \<longrightarrow> canonical_key key \<and> ss = take 32 (spec_G key m)) \<and>
     (\<forall>sent. logs_world c sent \<longrightarrow> (\<exists>js. sent w' = sent w @ js \<and>
        frames_sent (unat (maximum_retries (config c))) (handshake_frames c nonce ch ss ct) js)))"

lemma connect_run_ok:
  assumes wf: "client_wf c" and run: "connect_run c ws w = Some (C0PQLINK_OK, c', ws', w')"
  shows "connected c w c' w'"
proof -
  let ?c = "c\<lparr>client_state := C0PQ_CLIENT_CONNECTING\<rparr>" and ?R = "unat (maximum_retries (config c))"
  obtain st1 c1 frame nonce tr w1 where h: "connect_hello ?c w = (st1, c1, frame, nonce, tr, w1)" by (metis prod_cases6)
  have st1: "st1 = C0PQLINK_OK"
    by (rule ccontr) (use run h in \<open>simp add: connect_run_def connect_fail_def\<close>)
  have wf1: "client_wf ?c" using wf by simp
  obtain b w0 where rng: "the (random_bytes (config ?c)) w 16 = (0, b, w0)"
    and nb: "nonce = memcpy (replicate 16 0) 0 (take 16 b)" and nl: "length nonce = 16"
    and c1: "c1 = ?c\<lparr>session_id := session_of nonce\<rparr>" and tr: "sha_represents tr (transcript_hello ?c nonce)"
    and x: "send_and_receive c1 (hello_frame (psk (config ?c)) (session_of nonce) (hello_of ?c nonce) @ replicate 36 0) 60
           C0PQ_FRAME_CHALLENGE 84 w0 = (C0PQLINK_OK, frame, w1)"
    by (rule connect_hello_ok [OF wf1 h [unfolded st1]])
  have cfg: "config c1 = config c" "session_id c1 = session_of nonce" and wfc1: "client_wf c1" using wf by (simp_all add: c1)
  have th: "transcript_hello ?c nonce = transcript_hello c nonce" "hello_of ?c nonce = hello_of c nonce"
    by (simp_all add: transcript_hello_def hello_of_def)
  have hw: "hello_wf (hello_of c nonce)" using hello_of_wf [OF wf nl] .
  have lenf: "length frame = 96" using exchange_accepts(1) [OF x] hw th by simp
  obtain st2 wr where ch: "connect_challenge c1 frame nonce tr = (st2, wr)" by fastforce
  have st2: "st2 = C0PQLINK_OK"
    by (rule ccontr) (use run h st1 ch in \<open>simp add: connect_run_def connect_fail_def\<close>)
  obtain chal tr' where cw: "challenge_wf chal" and match: "ch_epoch chal = cfg_epoch (config c1)"
    "ch_key_id chal = public_key_id (config c1)" "ch_device_nonce chal = nonce"
    and chf: "take 84 frame = challenge_frame (psk (config c1)) (session_id c1) chal"
    and wr: "wr = fresh_writer c1 (challenge_key (psk (config c1)) chal) tr'"
    and tr': "sha_represents tr' (transcript_hello ?c nonce @ challenge_core (session_id c1) chal)"
    by (rule connect_challenge_ok [OF wfc1 lenf nl tr ch [unfolded st2]])
  obtain st3 ss wr3 w3 where ct: "connect_ciphertext c1 wr ws w1 = Some (st3, ss, wr3, w3)"
    using run h st1 ch st2 by (auto simp: connect_run_def split: Option.bind_splits)
  have st3: "st3 = C0PQLINK_OK"
    by (rule ccontr) (use run h st1 ch st2 ct in \<open>simp add: connect_run_def connect_fail_def\<close>)
  obtain m w2 ctx where dm: "drew c1 w1 32 m w2" and lss: "length ss = 32" and lct: "length ctx = 768"
    and keyed: "\<forall>ek. read_public_key (config c1) = Some (pure_reader ek) \<longrightarrow> canonical_key ek \<and> ss = take 32 (spec_G ek m)"
    and tr3: "sha_represents (transcript wr3) ((transcript_hello ?c nonce @ challenge_core (session_id c1) chal) @ ctx)"
    and js: "\<forall>sent. logs_frames c1 sent \<and> quiet_reader c1 sent \<longrightarrow> (\<exists>js. sent w3 = sent w2 @ js \<and>
       frames_sent (unat (maximum_retries (config c1)))
       (fragment_range (challenge_key (psk (config c1)) chal) (session_id c1) ctx 0 16) js)"
    by (rule connect_ciphertext_ok [OF tr' ct [unfolded wr st3]])
  have fin: "connect_finish c1 ss (transcript wr3) w3 = (C0PQLINK_OK, c', ws', w')"
    using run h st1 ch st2 ct st3 by (simp add: connect_run_def)
  let ?T = "transcript_hello c nonce @ challenge_core (session_of nonce) chal @ ctx"
  let ?keys = "spec_session_keys (psk (config c)) ss (spec_sha256 ?T)"
  have inst: "c' = install_keys ?keys c1" and ex: "exchange_finished c1 ?keys (spec_sha256 ?T) w3 = (C0PQLINK_OK, w')"
    using connect_finish_cases(3) [OF wfc1 tr3 lss fin refl] cfg th by simp_all
  obtain fr where y: "send_and_receive c1 (finished_frame (device_finished_key ?keys) C0PQ_FRAME_DEVICE_FINISHED (session_id c1)
      (spec_sha256 ?T) @ replicate 70 0) 26 C0PQ_FRAME_SERVER_FINISHED 26 w3 = (C0PQLINK_OK, fr, w')"
    and yf: "take 26 fr = finished_frame (server_finished_key ?keys) C0PQ_FRAME_SERVER_FINISHED (session_id c1) (spec_sha256 ?T)"
    by (rule exchange_finished_ok [OF ex])
  let ?hf = "hello_frame (psk (config c)) (session_of nonce) (hello_of c nonce)"
  let ?ff = "finished_frame (device_finished_key ?keys) C0PQ_FRAME_DEVICE_FINISHED (session_of nonce) (spec_sha256 ?T)"
  have "\<exists>js. sent w' = sent w @ js \<and> frames_sent ?R (handshake_frames c nonce chal ss ctx) js" if log: "logs_world c sent" for sent
  proof -
    have log1: "logs_frames c1 sent" using logs_world_frames [OF log cfg(1)] .
    have w0: "sent w0 = sent w" using log rng by (simp add: logs_world_def) (metis snd_conv)
    have quiet: "quiet_reader c1 sent" using log cfg(1) by (simp add: logs_world_def quiet_reader_def)
    have w2: "sent w2 = sent w1" using log dm cfg by (auto simp: logs_world_def drew_def) (metis snd_conv)
    obtain js1 where "sent w1 = sent w0 @ take 60 (?hf @ replicate 36 0) # js1" "length js1 \<le> ?R"
      using exchange_log [OF log1 x] th cfg by auto
    then obtain ks1 where ks1: "sent w1 = sent w0 @ ks1" "frames_sent ?R [?hf] ks1"
      using frames_sent_of_log [of sent w1 w0 ?hf js1 ?R] hw by auto
    obtain js2 where js2: "sent w3 = sent w2 @ js2" "frames_sent ?R (fragment_range (challenge_key (psk (config c)) chal) (session_of nonce) ctx 0 16) js2"
      using js log1 quiet cfg by metis
    obtain js3 where "sent w' = sent w3 @ take 26 (?ff @ replicate 70 0) # js3" "length js3 \<le> ?R"
      using exchange_log [OF log1 y] cfg by auto
    then obtain ks3 where ks3: "sent w' = sent w3 @ ks3" "frames_sent ?R [?ff] ks3"
      using frames_sent_of_log [of sent w' w3 ?ff js3 ?R] by auto
    have "frames_sent ?R (handshake_frames c nonce chal ss ctx) (ks1 @ js2 @ ks3)"
      using frames_sent_append [OF ks1(2) frames_sent_append [OF js2(2) ks3(2)]]
      by (simp add: handshake_frames_def transcript_hash_def Let_def)
    moreover have "sent w' = sent w @ (ks1 @ js2 @ ks3)" using ks3(1) js2(1) w2 ks1(1) w0 by simp
    ultimately show ?thesis by metis
  qed
  moreover have "established_by c nonce chal ss ctx c'"
    using nl cw match lss lct inst c1 cfg by (simp add: established_by_def transcript_hash_def)
  moreover have "peer_proved c nonce chal ss ctx w1 w'"
  proof -
    have "delivered c (challenge_frame (psk (config c)) (session_of nonce) chal) 84 w1"
      using exchange_delivered [OF x] chf cfg delivered_config [OF cfg(1)] by simp
    moreover have "delivered c (finished_frame (server_finished_key ?keys) C0PQ_FRAME_SERVER_FINISHED (session_of nonce)
        (spec_sha256 ?T)) 26 w'"
      using exchange_delivered [OF y] yf cfg delivered_config [OF cfg(1)] by simp
    ultimately show ?thesis unfolding peer_proved_def transcript_hash_def Let_def by blast
  qed
  moreover have "drew c w1 32 m w2" using dm cfg(1) by (simp add: drew_def)
  moreover have "drew c w 16 b w0" using rng dm cfg(1) by (auto simp: drew_def)
  moreover have "canonical_key ek \<and> ss = take 32 (spec_G ek m)" if "read_public_key (config c) = Some (pure_reader ek)" for ek
    using keyed that cfg(1) by simp
  ultimately show ?thesis using nb unfolding connected_def by blast
qed

lemma connect_run_fail:
  assumes wf: "client_wf c" and run: "connect_run c ws w = Some (st, c', ws', w')"
  shows "ws' = workspace_zero" and "st \<noteq> C0PQLINK_OK \<Longrightarrow> failed_client c c'"
proof -
  let ?c = "c\<lparr>client_state := C0PQ_CLIENT_CONNECTING\<rparr>"
  obtain st1 c1 frame nonce tr w1 where h: "connect_hello ?c w = (st1, c1, frame, nonce, tr, w1)" by (metis prod_cases6)
  have c1: "client_wf c1" "config c1 = config c" using connect_hello_client [OF h] wf by auto
  note cf = connect_fail_outcome [OF c1]
  obtain st2 wr where ch: "connect_challenge c1 frame nonce tr = (st2, wr)" by fastforce
  have "ws' = workspace_zero \<and> (st \<noteq> C0PQLINK_OK \<longrightarrow> failed_client c c')"
  proof (cases "st1 = C0PQLINK_OK \<and> st2 = C0PQLINK_OK")
    case False
    then show ?thesis using run h ch cf by (auto simp: connect_run_def split: if_split_asm)
  next
    case True
    obtain st3 ss wr3 w3 where ct: "connect_ciphertext c1 wr ws w1 = Some (st3, ss, wr3, w3)"
      using run h ch True by (auto simp: connect_run_def split: Option.bind_splits)
    show ?thesis
    proof (cases "st3 = C0PQLINK_OK")
      case False
      then show ?thesis using run h ch True ct cf by (auto simp: connect_run_def)
    next
      case st3: True
      then have "connect_finish c1 ss (transcript wr3) w3 = (st, c', ws', w')"
        using run h ch True ct by (simp add: connect_run_def)
      then show ?thesis using cf
        by (auto simp: connect_finish_def connect_fail_def Let_def split: prod.split_asm if_split_asm)
    qed
  qed
  then show "ws' = workspace_zero" and "st \<noteq> C0PQLINK_OK \<Longrightarrow> failed_client c c'" by simp_all
qed

section \<open>The life cycle of a client\<close>

definition config_wf :: "'w c0pq_client_config \<Rightarrow> bool" where
  "config_wf cf \<longleftrightarrow> length (device_id cf) = 8 \<and> length (psk cf) = 32 \<and> length (public_key_id cf) = 16"

text \<open>The calls an application makes on one client, with any arguments.\<close>

inductive client_step :: "'w c0pq_client \<Rightarrow> 'w c0pq_client \<Rightarrow> bool" where
  step_init: "config_wf cf \<Longrightarrow> c0pq_client_init (Some c) (Some cf) = (st, Some c') \<Longrightarrow> client_step c c'"
| step_connect: "c0pq_client_connect (Some c) ws w = Some (st, Some c', ws', w') \<Longrightarrow> client_step c c'"
| step_seal: "c0pq_client_seal_record (Some c) p n f cap fl = (st, Some c', f', fl') \<Longrightarrow> client_step c c'"
| step_open: "c0pq_client_open_record (Some c) f n p cap pl = (st, Some c', p', pl') \<Longrightarrow> client_step c c'"
| step_close: "c0pq_client_close (Some c) = Some c' \<Longrightarrow> client_step c c'"

inductive_cases client_stepE: "client_step c c'"

text \<open>The invariant: sizes, an observable state that is never \<open>CONNECTING\<close>, present callbacks,
  and no secret outside an established session.\<close>

definition client_ok :: "'w c0pq_client \<Rightarrow> bool" where
  "client_ok c \<longleftrightarrow> client_wf c \<and>
     client_state c \<in> {C0PQ_CLIENT_READY, C0PQ_CLIENT_ESTABLISHED, C0PQ_CLIENT_FAILED} \<and>
     (client_state c \<noteq> C0PQ_CLIENT_ESTABLISHED \<longrightarrow> secrets_wiped c) \<and>
     read_public_key (config c) \<noteq> None \<and> random_bytes (config c) \<noteq> None \<and>
     send_frame (config c) \<noteq> None \<and> receive_frame (config c) \<noteq> None \<and>
     mode (config c) \<in> {C0PQ_FULL_PQ_EACH_SESSION, C0PQ_PQ_BOOTSTRAP_RATCHET} \<and>
     (\<exists>i<32. psk (config c) ! i \<noteq> 0)"

lemma fold_or_0: "fold (\<lambda>i x. x OR f i) is a = (0 :: u8) \<longleftrightarrow> a = 0 \<and> (\<forall>i\<in>set is. f i = 0)"
  by (induction "is" arbitrary: a) (auto simp: word_or_eq_0)

lemma init_ok:
  assumes "config_wf cf" and "c0pq_client_init (Some c) (Some cf) = (C0PQLINK_OK, Some c')"
  shows "client_ok c'" and "client_state c' = C0PQ_CLIENT_READY"
  using assms
  by (auto simp: c0pq_client_init_def Let_def fold_or_0 client_ok_def client_wf_def config_wf_def secrets_wiped_def
      client_zero_def split: if_split_asm)

lemma init_refused:
  "c0pq_client_init (Some c) (Some cf) = (st, Some c') \<Longrightarrow> st \<noteq> C0PQLINK_OK \<Longrightarrow> c' = c"
  by (auto simp: c0pq_client_init_def Let_def split: if_split_asm)

text \<open>What a complete configuration needs to be accepted.\<close>

definition provisioning_ok :: "bytes \<Rightarrow> bytes \<Rightarrow> int \<Rightarrow> bool" where
  "provisioning_ok key kid md \<longleftrightarrow> (\<exists>i<32. key ! i \<noteq> 0) \<and> (\<exists>i<16. kid ! i \<noteq> 0) \<and>
     md \<in> {C0PQ_FULL_PQ_EACH_SESSION, C0PQ_PQ_BOOTSTRAP_RATCHET}"

lemma init_present:
  assumes "read_public_key cf \<noteq> None" and "random_bytes cf \<noteq> None" and "send_frame cf \<noteq> None" and "receive_frame cf \<noteq> None"
  shows "c0pq_client_init (Some c) (Some cf) =
    (if provisioning_ok (psk cf) (public_key_id cf) (mode cf)
     then (C0PQLINK_OK, Some (client_zero\<lparr>config := cf\<lparr>timeout_ms := if timeout_ms cf = 0 then 3000 else timeout_ms cf\<rparr>,
             client_state := C0PQ_CLIENT_READY\<rparr>))
     else (C0PQLINK_ERR_ARGUMENT, Some c))"
  using assms by (auto simp: c0pq_client_init_def Let_def fold_or_0 provisioning_ok_def)

lemma install_keys_ok:
  assumes "client_wf c" and "session_keys_wf keys"
  shows "client_wf (install_keys keys c)" and "client_state (install_keys keys c) = C0PQ_CLIENT_ESTABLISHED"
    and "config (install_keys keys c) = config c"
  using assms by (auto simp: install_keys_def client_wf_def session_keys_wf_def Let_def)

lemma connect_established:
  assumes wf: "client_wf c" and run: "connect_run c ws w = Some (C0PQLINK_OK, c', ws', w')"
  shows "client_wf c' \<and> client_state c' = C0PQ_CLIENT_ESTABLISHED \<and> config c' = config c"
proof -
  obtain nonce ch ss ct where "established_by c nonce ch ss ct c'"
    using connect_run_ok [OF wf run] by (auto simp: connected_def)
  then show ?thesis
    using install_keys_ok [OF _ session_keys_wf_spec, of "c\<lparr>client_state := C0PQ_CLIENT_CONNECTING, session_id := session_of nonce\<rparr>"] wf
    by (simp add: established_by_def)
qed

lemma connect_ok:
  assumes ok: "client_ok c" and run: "c0pq_client_connect (Some c) ws w = Some (st, Some c', ws', w')"
  shows "client_ok c'"
proof (cases "client_state c = C0PQ_CLIENT_READY \<and> ws \<noteq> None")
  case False
  then show ?thesis using ok run by (auto simp: c0pq_client_connect_def split: option.split_asm if_split_asm)
next
  case True
  then obtain v v' where cr: "connect_run c v w = Some (st, c', v', w')"
    using run by (auto simp: c0pq_client_connect_def)
  have wf: "client_wf c" using ok by (simp add: client_ok_def)
  show ?thesis
  proof (cases "st = C0PQLINK_OK")
    case True
    with connect_established [OF wf cr [unfolded True]] ok show ?thesis by (simp add: client_ok_def)
  next
    case False
    with connect_run_fail(2) [OF wf cr] ok show ?thesis by (simp add: client_ok_def failed_client_def)
  qed
qed

lemma guard_passed: "e \<noteq> e' \<Longrightarrow> (if P then (e, x) else y) = (e', z) \<longleftrightarrow> \<not> P \<and> y = (e', z)"
  by simp

lemma open_ok_advances:
  assumes "c0pq_client_open_record (Some c) f n p cap l = (C0PQLINK_OK, Some c', p', l')"
  shows "c' = advance_receive c" and "client_state c = C0PQ_CLIENT_ESTABLISHED"
proof -
  obtain f0 p0 l0 where "f = Some f0" "p = Some p0" "l = Some l0"
    using assms by (cases f; cases p; cases l) (simp_all add: c0pq_client_open_record_def)
  note open' = assms [unfolded this, simplified c0pq_client_open_record_def Let_def case_prod_unfold, simplified,
    simplified guard_passed status.distinct simp_thms]
  show "client_state c = C0PQ_CLIENT_ESTABLISHED" using open' by (simp only: guard_passed)
  show "c' = advance_receive c"
    using open' by (simp add: guard_passed advance_receive_def select_receive_key_def split: if_split_asm)
qed

lemma records_ok:
  assumes "client_ok c"
  shows "c0pq_client_seal_record (Some c) p n f cap fl = (st, Some c1, f', fl') \<Longrightarrow> client_ok c1"
    and "c0pq_client_open_record (Some c) f n p cap pl = (st, Some c1, p', pl') \<Longrightarrow> client_ok c1"
proof -
  have adv: "client_ok (advance_send c)" "client_ok (advance_receive c)" if "client_state c = C0PQ_CLIENT_ESTABLISHED"
    using assms that by (auto simp: client_ok_def client_wf_def advance_defs c0pq_ratchet_step_def Let_def)
  show "client_ok c1" if r: "c0pq_client_seal_record (Some c) p n f cap fl = (st, Some c1, f', fl')"
  proof (cases "st = C0PQLINK_OK")
    case True
    have "client_state c = C0PQ_CLIENT_ESTABLISHED"
      by (rule ccontr) (use r True in \<open>simp add: c0pq_client_seal_record_def Let_def split: option.split_asm if_split_asm\<close>)
    with seal_ok_imp(1) [OF r [unfolded True]] adv show ?thesis by simp
  next
    case False
    with seal_refused_unchanged [OF r] assms show ?thesis by simp
  qed
  show "client_ok c1" if r: "c0pq_client_open_record (Some c) f n p cap pl = (st, Some c1, p', pl')"
  proof (cases "st = C0PQLINK_OK")
    case True
    with open_ok_advances [OF r [unfolded True]] adv show ?thesis by simp
  next
    case False
    with open_refused_unchanged [OF r] assms show ?thesis by simp
  qed
qed

lemma close_ok:
  assumes ok: "client_ok c" and "c0pq_client_close (Some c) = Some c'"
  shows "client_ok c'" and "client_state c' = C0PQ_CLIENT_READY"
proof -
  have wf: "client_wf c" using ok by (simp add: client_ok_def)
  note wiped = wipe_secrets_wiped [OF wf] wipe_secrets_wf(1) [OF wf]
  have c': "config c' = config c" "client_wf c'" "secrets_wiped c'" "client_state c' = C0PQ_CLIENT_READY"
    using assms(2) wiped by (auto simp: c0pq_client_close_def secrets_wiped_def client_wf_def)
  then show "client_state c' = C0PQ_CLIENT_READY" by simp
  show "client_ok c'" using ok c' unfolding client_ok_def by simp
qed

lemma client_step_ok: "client_step c c' \<Longrightarrow> client_ok c \<Longrightarrow> client_ok c'"
proof (erule client_stepE)
  fix cf st assume "client_ok c" "config_wf cf" and r: "c0pq_client_init (Some c) (Some cf) = (st, Some c')"
  then show "client_ok c'" using init_ok(1) [of cf c c'] init_refused [OF r] by (cases "st = C0PQLINK_OK") auto
qed (auto dest: connect_ok records_ok close_ok)

text \<open>What an application can observe of one client.\<close>

lemma clients_ok:
  assumes "config_wf cf" and "c0pq_client_init (Some c0) (Some cf) = (C0PQLINK_OK, Some c)" and "client_step\<^sup>*\<^sup>* c c'"
  shows "client_ok c'"
  using assms(3)
proof (induction rule: rtranclp_induct)
  case base
  show ?case using init_ok(1) [OF assms(1,2)] .
qed (rule client_step_ok)

section \<open>Properties\<close>

text \<open>C6: what \<open>connect\<close> leaves behind, with any behaviour of the callbacks. A run on a ready client
  that returns has wiped the workspace. If it failed, the client is \<open>FAILED\<close> and holds no secret. If
  it reports success, the nonce is the 16 bytes that the random source gave at the start, and the
  peer's challenge echoed it, the epoch and the key identifier and was authenticated under the
  pre-shared key; the 32 bytes of the encapsulation were drawn from the source once the challenge had
  been delivered; the session keys are derived from the encapsulated secret and the hash of the
  transcript; the last frame delivered was the peer's finished message for that transcript; and the
  frames on the wire are the hello, the sixteen fragments and the finished message in order, each
  followed by at most \<open>maximum_retries\<close> others. With a reader that stands for a key, the key is
  canonical and the secret is the one of ML-KEM for these 32 bytes.\<close>

theorem connect_outcome:
  assumes "client_wf c" and "client_state c = C0PQ_CLIENT_READY"
    and "c0pq_client_connect (Some c) (Some ws) w = Some (st, c', ws', w')"
  shows "ws' = Some workspace_zero \<and> (\<exists>d. c' = Some d \<and>
    (st \<noteq> C0PQLINK_OK \<longrightarrow> failed_client c d) \<and>
    (st = C0PQLINK_OK \<longrightarrow> (\<exists>b w0 nonce ch w1 m w2 ss ct.
       drew c w 16 b w0 \<and> nonce = memcpy (replicate 16 0) 0 (take 16 b) \<and> drew c w1 32 m w2 \<and>
       established_by c nonce ch ss ct d \<and> peer_proved c nonce ch ss ct w1 w' \<and>
       (\<forall>key. read_public_key (config c) = Some (pure_reader key) \<longrightarrow>
          canonical_key key \<and> ss = take 32 (spec_G key m)) \<and>
       (\<forall>sent. logs_world c sent \<longrightarrow> (\<exists>js. sent w' = sent w @ js \<and>
          frames_sent (unat (maximum_retries (config c))) (handshake_frames c nonce ch ss ct) js)))))"
proof -
  obtain d v where run: "connect_run c ws w = Some (st, d, v, w')" and out: "c' = Some d" "ws' = Some v"
    using assms(2,3) by (auto simp: c0pq_client_connect_def)
  note fail = connect_run_fail [OF assms(1) run]
  show ?thesis
  proof (cases "st = C0PQLINK_OK")
    case True
    from connect_run_ok [OF assms(1) run [unfolded True]] fail(1) out True show ?thesis
      unfolding connected_def by simp
  next
    case False
    with fail out show ?thesis by simp
  qed
qed

definition mute_config :: "bytes list c0pq_client_config" where
  "mute_config = config_zero\<lparr>psk := replicate 32 5, public_key_id := replicate 16 6, mode := 1, timeout_ms := 100, read_public_key := Some (pure_reader (\<lambda>_. 0)), random_bytes := Some (\<lambda>w n. (1, [], w)),
     send_frame := Some memory_send, receive_frame := Some (memory_ack [] 0)\<rparr>"

definition mute_client :: "bytes list c0pq_client" where
  "mute_client = client_zero\<lparr>config := mute_config, client_state := C0PQ_CLIENT_READY\<rparr>"

lemma mute_client_facts:
  "client_wf mute_client" "client_state mute_client = C0PQ_CLIENT_READY" "config_wf mute_config"
  "c0pq_client_init (Some client_zero) (Some mute_config) = (C0PQLINK_OK, Some mute_client)"
  by (auto simp: mute_client_def mute_config_def client_wf_def config_wf_def client_zero_def config_zero_def
      c0pq_client_init_def Let_def fold_or_0 intro: exI [of _ 0])

lemma mute_connect:
  "\<exists>d. c0pq_client_connect (Some mute_client) (Some workspace_zero) [] = Some (C0PQLINK_ERR_RNG, Some d, Some workspace_zero, [])"
  by (simp add: c0pq_client_connect_def connect_run_def connect_hello_def connect_fail_def mute_client_facts(2))
    (simp add: mute_client_def mute_config_def connect_fail_def)

lemma mute_connect_failed:
  obtains d where "c0pq_client_connect (Some mute_client) (Some workspace_zero) [] = Some (C0PQLINK_ERR_RNG, Some d, Some workspace_zero, [])"
    and "failed_client mute_client d"
proof -
  obtain d where run: "c0pq_client_connect (Some mute_client) (Some workspace_zero) []
      = Some (C0PQLINK_ERR_RNG, Some d, Some workspace_zero, [])" using mute_connect by blast
  then have "connect_run mute_client workspace_zero [] = Some (C0PQLINK_ERR_RNG, d, workspace_zero, [])"
    by (auto simp: c0pq_client_connect_def mute_client_facts(2))
  from that [OF run connect_run_fail(2) [OF mute_client_facts(1) this]] show ?thesis by simp
qed

text \<open>C7: the life cycle. However an application interleaves initialisation, connecting, sealing,
  opening and closing, with any arguments and any behaviour of the callbacks, the client it started
  by a successful initialisation is between calls in state \<open>READY\<close>, \<open>ESTABLISHED\<close> or \<open>FAILED\<close>, its
  buffers have their sizes, its callbacks are present, and outside an established session its
  secrets and nonce bases are zero.\<close>

theorem client_lifecycle:
  assumes "config_wf cf" and "c0pq_client_init (Some c0) (Some cf) = (C0PQLINK_OK, Some c)" and "client_step\<^sup>*\<^sup>* c c'"
  shows "client_wf c' \<and> client_state c' \<in> {C0PQ_CLIENT_READY, C0PQ_CLIENT_ESTABLISHED, C0PQ_CLIENT_FAILED} \<and>
    (client_state c' \<noteq> C0PQ_CLIENT_ESTABLISHED \<longrightarrow> secrets_wiped c') \<and>
    read_public_key (config c') \<noteq> None \<and> random_bytes (config c') \<noteq> None \<and>
    send_frame (config c') \<noteq> None \<and> receive_frame (config c') \<noteq> None"
  using clients_ok [OF assms] by (simp add: client_ok_def)

theorem client_lifecycle_witness: "\<exists>c'. client_step mute_client c' \<and> secrets_wiped c'"
proof -
  obtain c' where run: "c0pq_client_connect (Some mute_client) (Some workspace_zero) []
      = Some (C0PQLINK_ERR_RNG, Some c', Some workspace_zero, [])" and fail: "failed_client mute_client c'"
    by (rule mute_connect_failed)
  from run have step: "client_step mute_client c'" by (rule step_connect)
  have "client_state c' = C0PQ_CLIENT_FAILED" using fail by (simp add: failed_client_def)
  with client_lifecycle [OF mute_client_facts(3,4) r_into_rtranclp, OF step] step show ?thesis by auto
qed

end
