(* ===== verification/ReferencePeer.thy ===== *)
theory ReferencePeer
  imports Handshake Records
begin

text \<open>
  \<open>reference-peer/protocol.mjs\<close> and the message handler of \<open>reference-peer/udp-peer.mjs\<close>: the
  server the C client talks to, as its authors wrote it in JavaScript. A \<open>Buffer\<close> is a byte
  string; a thrown \<open>Error\<close> is \<open>Inl\<close> of its message and leaves the state the statements before it
  made; a session object that is updated in place is written back to the map it came from. The
  built-in hash and HMAC of the runtime are their standards, \<open>spec_sha256\<close> and \<open>spec_hmac\<close>; the
  decapsulation of the imported ML-KEM package, the random source and the application's callback
  are fields of the peer. A \<open>BigInt\<close> of 64 bits under \<open>MASK64\<close> is a \<open>u64\<close>; the frame types are the
  numbers of \<open>protocol.h\<close>.
\<close>

unbundle bit_operations_syntax

section \<open>Frame headers\<close>

record js_header =
  jh_type :: u8
  jh_flags :: u8
  jh_payload_length :: nat
  jh_session_id :: u32

definition encodeHeader :: "u8 \<Rightarrow> u8 \<Rightarrow> nat \<Rightarrow> u32 \<Rightarrow> string + bytes" where
  "encodeHeader ty fl payload_len sid =
     (if payload_len > 255 then Inl ''payload too large''
      else Inr ([0x43, 0x30, 1, ty, fl, of_nat payload_len] @ be_bytes 4 sid))"

definition decodeHeader :: "bytes \<Rightarrow> string + js_header" where
  "decodeHeader frame =
     (if length frame < 10 \<or> frame ! 0 \<noteq> 0x43 \<or> frame ! 1 \<noteq> 0x30 \<or> frame ! 2 \<noteq> 1
         \<or> unat (frame ! 5) + 10 \<noteq> length frame
      then Inl ''invalid C0-PQLink frame header''
      else Inr \<lparr>jh_type = frame ! 3, jh_flags = frame ! 4, jh_payload_length = unat (frame ! 5),
                jh_session_id = be_word (slice frame 6 4)\<rparr>)"

section \<open>Key derivation\<close>

text \<open>The calls below that cannot throw, because their lengths are constants, take the value out of
  the result with \<open>projr\<close>.\<close>

definition hmac_parts :: "bytes \<Rightarrow> bytes list \<Rightarrow> bytes" where
  "hmac_parts key parts = spec_hmac key (concat parts)"

definition hkdfExtract :: "bytes option \<Rightarrow> bytes \<Rightarrow> bytes" where
  "hkdfExtract salt ikm = hmac_parts (case salt of None \<Rightarrow> replicate 32 0 | Some s \<Rightarrow> s) [ikm]"

function hkdf_expand_blocks :: "bytes \<Rightarrow> bytes \<Rightarrow> nat \<Rightarrow> nat \<Rightarrow> bytes \<Rightarrow> bytes \<Rightarrow> bytes" where
  "hkdf_expand_blocks prk info len counter previous output =
     (if length output < len then
        let previous' = hmac_parts prk [previous, info, [of_nat counter]];
            n = min (length previous') (len - length output)
        in hkdf_expand_blocks prk info len (counter + 1) previous' (output @ take n previous')
      else output)"
  by pat_completeness auto
termination
  by (relation "measure (\<lambda>(prk, info, len, counter, previous, output). len - length output)")
    (auto simp: hmac_parts_def)

declare hkdf_expand_blocks.simps [simp del]

definition hkdfExpand :: "bytes \<Rightarrow> bytes \<Rightarrow> nat \<Rightarrow> string + bytes" where
  "hkdfExpand prk info len =
     (if len > 255 * 32 then Inl ''HKDF output too large'' else Inr (hkdf_expand_blocks prk info len 1 [] []))"

definition authTag :: "bytes \<Rightarrow> string \<Rightarrow> bytes \<Rightarrow> bytes" where
  "authTag key label data = take 16 (hmac_parts key [text_bytes label, data])"

definition tagEqual :: "bytes \<Rightarrow> bytes \<Rightarrow> bool" where
  "tagEqual left right \<longleftrightarrow> length left = length right \<and> left = right"

definition deriveHelloKey :: "bytes \<Rightarrow> bytes" where
  "deriveHelloKey key = (let early = hkdfExtract None key in projr (hkdfExpand early (text_bytes ''C0PQ/1 hello key'') 32))"

definition deriveSessionAuthKey :: "bytes \<Rightarrow> u16 \<Rightarrow> u64 \<Rightarrow> bytes \<Rightarrow> bytes \<Rightarrow> bytes \<Rightarrow> bytes" where
  "deriveSessionAuthKey key suite epoch key_id device_nonce server_nonce =
     (let early = hkdfExtract None key
      in hmac_parts early [text_bytes ''C0PQ/1 session auth'', be_bytes 2 suite, be_bytes 8 epoch, key_id, device_nonce, server_nonce])"

definition expandTextLabel :: "bytes \<Rightarrow> string \<Rightarrow> bytes \<Rightarrow> nat \<Rightarrow> bytes" where
  "expandTextLabel secret label th len = projr (hkdfExpand secret (concat [text_bytes label, [0], th]) len)"

definition deriveSessionKeys :: "bytes \<Rightarrow> bytes \<Rightarrow> bytes \<Rightarrow> c0pq_session_keys" where
  "deriveSessionKeys key kem_shared_secret th =
     (let early = hkdfExtract None key;
          derived = projr (hkdfExpand early (text_bytes ''C0PQ/1 derived'') 32);
          handshake = hkdfExtract (Some derived) kem_shared_secret
      in \<lparr>device_finished_key = expandTextLabel handshake ''C0PQ/1 device finished'' th 32,
          server_finished_key = expandTextLabel handshake ''C0PQ/1 server finished'' th 32,
          client_traffic_key = expandTextLabel handshake ''C0PQ/1 client traffic'' th 16,
          server_traffic_key = expandTextLabel handshake ''C0PQ/1 server traffic'' th 16,
          client_nonce_base = expandTextLabel handshake ''C0PQ/1 client nonce'' th 16,
          server_nonce_base = expandTextLabel handshake ''C0PQ/1 server nonce'' th 16,
          client_chain_key = expandTextLabel handshake ''C0PQ/1 client chain'' th 32,
          server_chain_key = expandTextLabel handshake ''C0PQ/1 server chain'' th 32\<rparr>)"

definition finishedTag :: "bytes \<Rightarrow> u8 \<Rightarrow> u32 \<Rightarrow> bytes \<Rightarrow> bytes" where
  "finishedTag key ty sid th =
     (let header = projr (encodeHeader ty 0 16 sid) in authTag key ''C0PQ/1 finished tag'' (concat [header, th]))"

section \<open>Ascon-AEAD128\<close>

definition loadLE :: "bytes \<Rightarrow> nat \<Rightarrow> nat \<Rightarrow> u64" where
  "loadLE bs offset len = fold (\<lambda>i value. value OR push_bit (8 * i) (ucast (bs ! (offset + i)))) [0..<len] 0"

fun storeLE :: "u64 \<Rightarrow> nat \<Rightarrow> bytes" where
  "storeLE value 0 = []"
| "storeLE value (Suc n) = ucast (value AND 0xff) # storeLE (drop_bit 8 value) n"

definition rotateRight64 :: "u64 \<Rightarrow> nat \<Rightarrow> u64" where
  "rotateRight64 value count = drop_bit count value OR push_bit (64 - count) value"

definition asconRound :: "ascon_state \<Rightarrow> u8 \<Rightarrow> ascon_state" where
  "asconRound s0 constant =
     (let s1 = s0\<lparr>x2 := x2 s0 XOR ucast constant\<rparr>;
          s2 = s1\<lparr>x0 := x0 s1 XOR x4 s1\<rparr>;
          s3 = s2\<lparr>x4 := x4 s2 XOR x3 s2\<rparr>;
          s4 = s3\<lparr>x2 := x2 s3 XOR x1 s3\<rparr>;
          t0 = x0 s4 XOR (NOT (x1 s4) AND x2 s4);
          t1 = x1 s4 XOR (NOT (x2 s4) AND x3 s4);
          t2 = x2 s4 XOR (NOT (x3 s4) AND x4 s4);
          t3 = x3 s4 XOR (NOT (x4 s4) AND x0 s4);
          t4 = x4 s4 XOR (NOT (x0 s4) AND x1 s4);
          t1 = t1 XOR t0;
          t0 = t0 XOR t4;
          t3 = t3 XOR t2;
          t2 = NOT t2
      in \<lparr>x0 = t0 XOR rotateRight64 t0 19 XOR rotateRight64 t0 28,
          x1 = t1 XOR rotateRight64 t1 61 XOR rotateRight64 t1 39,
          x2 = t2 XOR rotateRight64 t2 1 XOR rotateRight64 t2 6,
          x3 = t3 XOR rotateRight64 t3 10 XOR rotateRight64 t3 17,
          x4 = t4 XOR rotateRight64 t4 7 XOR rotateRight64 t4 41\<rparr>)"

definition P12 :: "u8 list" where
  "P12 = [0xf0, 0xe1, 0xd2, 0xc3, 0xb4, 0xa5, 0x96, 0x87, 0x78, 0x69, 0x5a, 0x4b]"

definition P8 :: "u8 list" where
  "P8 = drop 4 P12"

definition permute :: "ascon_state \<Rightarrow> u8 list \<Rightarrow> ascon_state" where
  "permute s constants = foldl asconRound s constants"

definition initializeAscon :: "bytes \<Rightarrow> bytes \<Rightarrow> ascon_state" where
  "initializeAscon key nonce =
     (let key0 = loadLE key 0 8; key1 = loadLE key 8 8;
          s = permute \<lparr>x0 = 0x00001000808c0001, x1 = key0, x2 = key1, x3 = loadLE nonce 0 8, x4 = loadLE nonce 8 8\<rparr> P12
      in s\<lparr>x3 := x3 s XOR key0, x4 := x4 s XOR key1\<rparr>)"

definition pad :: "nat \<Rightarrow> u64" where
  "pad pos = push_bit (8 * pos) 1"

function absorb_loop :: "ascon_state \<Rightarrow> bytes \<Rightarrow> nat \<Rightarrow> ascon_state \<times> nat" where
  "absorb_loop s data offset =
     (if offset + 16 \<le> length data
      then absorb_loop (permute (s\<lparr>x0 := x0 s XOR loadLE data offset 8, x1 := x1 s XOR loadLE data (offset + 8) 8\<rparr>) P8)
             data (offset + 16)
      else (s, offset))"
  by pat_completeness auto
termination
  by (relation "measure (\<lambda>(s, data, offset). length data - offset)") auto

definition absorbAssociatedData :: "ascon_state \<Rightarrow> bytes \<Rightarrow> ascon_state" where
  "absorbAssociatedData s data =
     (let s' = (if length data > 0 then
                  let (s1, offset) = absorb_loop s data 0; remaining = length data - offset
                  in permute
                       (if remaining \<ge> 8
                        then s1\<lparr>x0 := x0 s1 XOR loadLE data offset 8,
                                x1 := x1 s1 XOR loadLE data (offset + 8) (remaining - 8) XOR pad (remaining - 8)\<rparr>
                        else s1\<lparr>x0 := x0 s1 XOR loadLE data offset remaining XOR pad remaining\<rparr>) P8
                else s)
      in s'\<lparr>x4 := x4 s' XOR 0x8000000000000000\<rparr>)"

definition finalizeAscon :: "ascon_state \<Rightarrow> bytes \<Rightarrow> bytes" where
  "finalizeAscon s key =
     (let key0 = loadLE key 0 8; key1 = loadLE key 8 8;
          s1 = permute (s\<lparr>x2 := x2 s XOR key0, x3 := x3 s XOR key1\<rparr>) P12
      in concat [storeLE (x3 s1 XOR key0) 8, storeLE (x4 s1 XOR key1) 8])"

text \<open>The loops return the state, the output they have written and the offset they stopped at.\<close>

function encrypt_loop :: "ascon_state \<Rightarrow> bytes \<Rightarrow> nat \<Rightarrow> bytes \<Rightarrow> ascon_state \<times> bytes \<times> nat" where
  "encrypt_loop s message offset output =
     (if offset + 16 \<le> length message then
        let s1 = s\<lparr>x0 := x0 s XOR loadLE message offset 8, x1 := x1 s XOR loadLE message (offset + 8) 8\<rparr>
        in encrypt_loop (permute s1 P8) message (offset + 16) (output @ storeLE (x0 s1) 8 @ storeLE (x1 s1) 8)
      else (s, output, offset))"
  by pat_completeness auto
termination
  by (relation "measure (\<lambda>(s, m, offset, output). length m - offset)") auto

definition asconEncrypt :: "bytes \<Rightarrow> bytes \<Rightarrow> bytes \<Rightarrow> bytes \<Rightarrow> bytes \<times> bytes" where
  "asconEncrypt key nonce associated_data plaintext =
     (let s = absorbAssociatedData (initializeAscon key nonce) associated_data;
          (s1, ciphertext, offset) = encrypt_loop s plaintext 0 [];
          remaining = length plaintext - offset
      in if remaining \<ge> 8 then
           let s2 = s1\<lparr>x0 := x0 s1 XOR loadLE plaintext offset 8,
                       x1 := x1 s1 XOR loadLE plaintext (offset + 8) (remaining - 8)\<rparr>;
               output = ciphertext @ storeLE (x0 s2) 8 @ storeLE (x1 s2) (remaining - 8)
           in (output, finalizeAscon (s2\<lparr>x1 := x1 s2 XOR pad (remaining - 8)\<rparr>) key)
         else
           let s2 = s1\<lparr>x0 := x0 s1 XOR loadLE plaintext offset remaining\<rparr>;
               output = ciphertext @ storeLE (x0 s2) remaining
           in (output, finalizeAscon (s2\<lparr>x0 := x0 s2 XOR pad remaining\<rparr>) key))"

definition clearLowBytes :: "u64 \<Rightarrow> nat \<Rightarrow> u64" where
  "clearLowBytes value len = fold (\<lambda>i output. output AND NOT (push_bit (8 * i) 0xff)) [0..<len] value"

function decrypt_loop :: "ascon_state \<Rightarrow> bytes \<Rightarrow> nat \<Rightarrow> bytes \<Rightarrow> ascon_state \<times> bytes \<times> nat" where
  "decrypt_loop s input offset output =
     (if offset + 16 \<le> length input then
        let c0 = loadLE input offset 8; c1 = loadLE input (offset + 8) 8
        in decrypt_loop (permute (s\<lparr>x0 := c0, x1 := c1\<rparr>) P8) input (offset + 16)
             (output @ storeLE (x0 s XOR c0) 8 @ storeLE (x1 s XOR c1) 8)
      else (s, output, offset))"
  by pat_completeness auto
termination
  by (relation "measure (\<lambda>(s, m, offset, output). length m - offset)") auto

declare absorb_loop.simps [simp del] encrypt_loop.simps [simp del] decrypt_loop.simps [simp del]

definition asconDecrypt :: "bytes \<Rightarrow> bytes \<Rightarrow> bytes \<Rightarrow> bytes \<Rightarrow> bytes \<Rightarrow> bytes option" where
  "asconDecrypt key nonce associated_data ciphertext tag =
     (let s = absorbAssociatedData (initializeAscon key nonce) associated_data;
          (s1, plaintext, offset) = decrypt_loop s ciphertext 0 [];
          remaining = length ciphertext - offset;
          (s2, output) =
            (if remaining \<ge> 8 then
               let c0 = loadLE ciphertext offset 8; c1 = loadLE ciphertext (offset + 8) (remaining - 8)
               in (s1\<lparr>x0 := c0, x1 := (clearLowBytes (x1 s1) (remaining - 8) OR c1) XOR pad (remaining - 8)\<rparr>,
                   plaintext @ storeLE (x0 s1 XOR c0) 8 @ storeLE (x1 s1 XOR c1) (remaining - 8))
             else
               let c0 = loadLE ciphertext offset remaining
               in (s1\<lparr>x0 := (clearLowBytes (x0 s1) remaining OR c0) XOR pad remaining\<rparr>,
                   plaintext @ storeLE (x0 s1 XOR c0) remaining));
          expected = finalizeAscon s2 key
      in if tagEqual expected tag then Some output else None)"

section \<open>The peer and its sessions\<close>

record peer_device =
  dev_psk :: bytes
  dev_mode :: "int option"

record peer_session =
  ps_session_id :: u32
  ps_device :: peer_device
  ps_hello_core :: bytes
  ps_challenge_core :: bytes
  ps_challenge_frame :: bytes
  ps_auth_key :: bytes
  ps_ciphertext :: bytes
  ps_received :: "bool list"
  ps_established :: bool
  ps_send_sequence :: nat
  ps_receive_sequence :: nat
  ps_keys :: "c0pq_session_keys option"
  ps_transcript_hash :: "bytes option"
  ps_server_finished :: "bytes option"
  ps_last_client_frame :: "bytes option"
  ps_last_response :: "bytes option"

text \<open>The devices are a map from the device identifier, which the code writes in hexadecimal. The
  environment is the state behind the random source and the application's callback.\<close>

record 'r c0pq_peer =
  peer_secret_key :: bytes
  peer_epoch :: int
  peer_key_id :: bytes
  peer_devices :: "bytes \<rightharpoonup> peer_device"
  peer_decapsulate :: "bytes \<Rightarrow> bytes \<Rightarrow> string + bytes"
  peer_random :: "'r \<Rightarrow> nat \<Rightarrow> bytes \<times> 'r"
  peer_on_plaintext :: "bytes \<Rightarrow> peer_session \<Rightarrow> 'r \<Rightarrow> bytes option \<times> 'r"
  peer_sessions :: "u32 \<rightharpoonup> peer_session"
  peer_env :: 'r

type_synonym 'r peer_reply = "(string + bytes option) \<times> 'r c0pq_peer"

definition create_peer ::
  "bytes \<Rightarrow> bytes \<Rightarrow> (bytes \<rightharpoonup> peer_device) \<Rightarrow> int \<Rightarrow> bytes option \<Rightarrow> (bytes \<Rightarrow> bytes \<Rightarrow> string + bytes)
     \<Rightarrow> ('r \<Rightarrow> nat \<Rightarrow> bytes \<times> 'r) \<Rightarrow> (bytes \<Rightarrow> peer_session \<Rightarrow> 'r \<Rightarrow> bytes option \<times> 'r) \<Rightarrow> 'r \<Rightarrow> string + 'r c0pq_peer" where
  "create_peer public_key secret_key devs epoch kid decaps rnd on_plaintext env =
     (if length public_key \<noteq> 800 \<or> length secret_key \<noteq> 1632 then Inl ''invalid ML-KEM-512 key lengths''
      else
        let key_id = (case kid of Some k \<Rightarrow> k | None \<Rightarrow> take 16 (spec_sha256 public_key))
        in if length key_id \<noteq> 16 then Inl ''keyId must be 16 bytes''
           else Inr \<lparr>peer_secret_key = secret_key, peer_epoch = epoch, peer_key_id = key_id, peer_devices = devs,
                     peer_decapsulate = decaps, peer_random = rnd, peer_on_plaintext = on_plaintext,
                     peer_sessions = Map.empty, peer_env = env\<rparr>)"

definition lookupDevice :: "'r c0pq_peer \<Rightarrow> bytes \<Rightarrow> string + peer_device option" where
  "lookupDevice p identifier =
     (case peer_devices p identifier of
        None \<Rightarrow> Inr None
      | Some device \<Rightarrow>
          let m = (case dev_mode device of None \<Rightarrow> 1 | Some x \<Rightarrow> x)
          in if length (dev_psk device) \<noteq> 32 \<or> list_all (\<lambda>value. value = 0) (dev_psk device)
             then Inl ''device PSK must be 32 non-placeholder bytes''
             else if m \<noteq> 0 \<and> m \<noteq> 1 then Inl ''invalid device mode''
             else Inr (Some (device\<lparr>dev_mode := Some m\<rparr>)))"

section \<open>The handshake\<close>

record js_hello =
  jp_session_id :: u32
  jp_epoch :: u64
  jp_device_nonce :: bytes
  jp_device :: peer_device

definition parseHello :: "bytes \<Rightarrow> (bytes \<Rightarrow> string + peer_device option) \<Rightarrow> string + js_hello" where
  "parseHello frame device_lookup =
     (case decodeHeader frame of
        Inl e \<Rightarrow> Inl e
      | Inr header \<Rightarrow>
          if length frame \<noteq> 60 \<or> jh_type header \<noteq> C0PQ_FRAME_HELLO \<or> jh_flags header \<noteq> 0 \<or> jh_payload_length header \<noteq> 50
          then Inl ''invalid hello shape''
          else
            let suite = be_word (slice frame 10 2) :: u16;
                identifier = slice frame 12 8;
                epoch = be_word (slice frame 20 8);
                device_nonce = slice frame 28 16
            in case device_lookup identifier of
                 Inl e \<Rightarrow> Inl e
               | Inr None \<Rightarrow> Inl ''unknown device or suite''
               | Inr (Some device) \<Rightarrow>
                   if suite \<noteq> C0PQ_SUITE then Inl ''unknown device or suite''
                   else
                     let expected = authTag (deriveHelloKey (dev_psk device)) ''C0PQ/1 hello frame'' (take 44 frame)
                     in if \<not> tagEqual expected (drop 44 frame) then Inl ''hello authentication failed''
                        else Inr \<lparr>jp_session_id = jh_session_id header, jp_epoch = epoch,
                                  jp_device_nonce = device_nonce, jp_device = device\<rparr>)"

definition encodeChallenge :: "u32 \<Rightarrow> bytes \<Rightarrow> u64 \<Rightarrow> bytes \<Rightarrow> bytes \<Rightarrow> bytes \<Rightarrow> bytes \<times> bytes" where
  "encodeChallenge sid key epoch key_id device_nonce server_nonce =
     (let core = concat [projr (encodeHeader C0PQ_FRAME_CHALLENGE 0 74 sid), be_bytes 2 C0PQ_SUITE, be_bytes 8 epoch,
                         key_id, device_nonce, server_nonce];
          auth_key = deriveSessionAuthKey key C0PQ_SUITE epoch key_id device_nonce server_nonce
      in (concat [core, authTag auth_key ''C0PQ/1 challenge frame'' core], auth_key))"

definition encodeAck :: "peer_session \<Rightarrow> u8 \<Rightarrow> bytes" where
  "encodeAck session index =
     (let core = concat [projr (encodeHeader C0PQ_FRAME_CIPHERTEXT_ACK 0 18 (ps_session_id session)), [index, 0]]
      in concat [core, authTag (ps_auth_key session) ''C0PQ/1 ciphertext ack'' core])"

definition put_session :: "peer_session \<Rightarrow> 'r c0pq_peer \<Rightarrow> 'r c0pq_peer" where
  "put_session session p = p\<lparr>peer_sessions := (peer_sessions p)(ps_session_id session \<mapsto> session)\<rparr>"

definition handleHello :: "bytes \<Rightarrow> 'r c0pq_peer \<Rightarrow> 'r peer_reply" where
  "handleHello frame p =
     (case parseHello frame (lookupDevice p) of
        Inl e \<Rightarrow> (Inl e, p)
      | Inr parsed \<Rightarrow>
          (case peer_sessions p (jp_session_id parsed) of
             Some existing \<Rightarrow>
               if \<not> tagEqual (ps_hello_core existing) (take 44 frame) then (Inl ''session identifier collision'', p)
               else (Inr (Some (ps_challenge_frame existing)), p)
           | None \<Rightarrow>
               if uint (jp_epoch parsed) \<noteq> peer_epoch p then (Inl ''epoch mismatch'', p)
               else
                 let (server_nonce, env) = peer_random p (peer_env p) 16;
                     p1 = p\<lparr>peer_env := env\<rparr>
                 in if length server_nonce \<noteq> 16 then (Inl ''peer random source returned the wrong length'', p1)
                    else
                      let (challenge, auth_key) = encodeChallenge (jp_session_id parsed) (dev_psk (jp_device parsed))
                            (word_of_int (peer_epoch p)) (peer_key_id p) (jp_device_nonce parsed) server_nonce;
                          session = \<lparr>ps_session_id = jp_session_id parsed, ps_device = jp_device parsed,
                            ps_hello_core = take 44 frame, ps_challenge_core = take 68 challenge,
                            ps_challenge_frame = challenge, ps_auth_key = auth_key, ps_ciphertext = replicate 768 0,
                            ps_received = replicate 16 False, ps_established = False, ps_send_sequence = 0,
                            ps_receive_sequence = 0, ps_keys = None, ps_transcript_hash = None,
                            ps_server_finished = None, ps_last_client_frame = None, ps_last_response = None\<rparr>
                      in (Inr (Some challenge), put_session session p1)))"

definition handleFragment :: "bytes \<Rightarrow> js_header \<Rightarrow> 'r c0pq_peer \<Rightarrow> 'r peer_reply" where
  "handleFragment frame header p =
     (case peer_sessions p (jh_session_id header) of
        None \<Rightarrow> (Inl ''unknown or invalid fragment session'', p)
      | Some session \<Rightarrow>
          if jh_flags header \<noteq> 0 \<or> length frame < 29 then (Inl ''unknown or invalid fragment session'', p)
          else
            let index = unat (frame ! 10); total = unat (frame ! 11); len = unat (frame ! 12); core_length = 13 + len
            in if total \<noteq> 16 \<or> index \<ge> total \<or> len \<noteq> 48 \<or> length frame \<noteq> core_length + 16
               then (Inl ''invalid fragment shape'', p)
               else
                 let expected = authTag (ps_auth_key session) ''C0PQ/1 ciphertext fragment'' (take core_length frame)
                 in if \<not> tagEqual expected (drop core_length frame) then (Inl ''fragment authentication failed'', p)
                    else
                      let chunk = slice frame 13 len; offset = index * 48
                      in if ps_received session ! index \<and> \<not> tagEqual (slice (ps_ciphertext session) offset len) chunk
                         then (Inl ''conflicting fragment replay'', p)
                         else
                           let session' = session\<lparr>ps_ciphertext := memcpy (ps_ciphertext session) offset chunk,
                                                  ps_received := (ps_received session)[index := True]\<rparr>
                           in (Inr (Some (encodeAck session' (frame ! 10))), put_session session' p))"

definition finishSession :: "bytes \<Rightarrow> js_header \<Rightarrow> 'r c0pq_peer \<Rightarrow> 'r peer_reply" where
  "finishSession frame header p =
     (case peer_sessions p (jh_session_id header) of
        None \<Rightarrow> (Inl ''unknown or invalid finished session'', p)
      | Some session \<Rightarrow>
          if jh_flags header \<noteq> 0 \<or> jh_payload_length header \<noteq> 16 \<or> length frame \<noteq> 26
          then (Inl ''unknown or invalid finished session'', p)
          else
            (case ps_server_finished session of
               Some finished \<Rightarrow>
                 let expected = finishedTag (device_finished_key (the (ps_keys session))) C0PQ_FRAME_DEVICE_FINISHED
                                  (ps_session_id session) (the (ps_transcript_hash session))
                 in if \<not> tagEqual expected (drop 10 frame) then (Inl ''device Finished verification failed'', p)
                    else (Inr (Some finished), p)
             | None \<Rightarrow>
                 if \<not> list_all (\<lambda>b. b) (ps_received session) then (Inl ''ciphertext incomplete'', p)
                 else
                   let th = spec_sha256 (concat [text_bytes ''C0PQ/1 transcript'', ps_hello_core session,
                                      ps_challenge_core session, ps_ciphertext session])
                   in case peer_decapsulate p (ps_ciphertext session) (peer_secret_key p) of
                        Inl e \<Rightarrow> (Inl e, p)
                      | Inr kem_shared_secret \<Rightarrow>
                          let keys = deriveSessionKeys (dev_psk (ps_device session)) kem_shared_secret th;
                              session1 = session\<lparr>ps_keys := Some keys, ps_transcript_hash := Some th\<rparr>;
                              expected = finishedTag (device_finished_key keys) C0PQ_FRAME_DEVICE_FINISHED
                                           (ps_session_id session) th
                          in if \<not> tagEqual expected (drop 10 frame)
                             then (Inl ''device Finished verification failed'', put_session (session1\<lparr>ps_keys := None\<rparr>) p)
                             else
                               let finished = concat [projr (encodeHeader C0PQ_FRAME_SERVER_FINISHED 0 16 (ps_session_id session)),
                                     finishedTag (server_finished_key keys) C0PQ_FRAME_SERVER_FINISHED (ps_session_id session) th]
                               in (Inr (Some finished),
                                   put_session (session1\<lparr>ps_established := True, ps_server_finished := Some finished\<rparr>) p)))"

section \<open>Records\<close>

definition recordNonce :: "bytes \<Rightarrow> u64 \<Rightarrow> bytes" where
  "recordNonce base sequence = take 8 base @ map2 (XOR) (drop 8 base) (be_bytes 8 sequence)"

definition ratchetStep :: "bytes \<Rightarrow> bytes \<times> bytes" where
  "ratchetStep chain_key =
     (take 16 (hmac_parts chain_key [text_bytes ''C0PQ/1 ratchet message'']),
      hmac_parts chain_key [text_bytes ''C0PQ/1 ratchet next''])"

definition openRecord :: "peer_session \<Rightarrow> bytes \<Rightarrow> js_header \<Rightarrow> (string + bytes) \<times> peer_session" where
  "openRecord session frame header =
     (if \<not> ps_established session \<or> jh_flags header \<noteq> 0 \<or> jh_payload_length header < 24
      then (Inl ''invalid client record'', session)
      else
        let sequence = be_word (slice frame 10 8) :: u64
        in if unat sequence \<noteq> ps_receive_sequence session then (Inl ''record replay or gap'', session)
           else
             let ciphertext_length = jh_payload_length header - 24
             in if ciphertext_length > 48 then (Inl ''record too large'', session)
                else
                  let keys = the (ps_keys session);
                      ratchet = (dev_mode (ps_device session) = Some 1);
                      (message_key, next_chain_key) =
                        (if ratchet then ratchetStep (client_chain_key keys) else (client_traffic_key keys, []));
                      nonce = recordNonce (client_nonce_base keys) sequence
                  in case asconDecrypt message_key nonce (take 18 frame) (slice frame 18 ciphertext_length)
                            (drop (18 + ciphertext_length) frame) of
                       None \<Rightarrow> (Inl ''record authentication failed'', session)
                     | Some plaintext \<Rightarrow>
                         let keys' = (if ratchet then keys\<lparr>client_chain_key := next_chain_key\<rparr> else keys)
                         in (Inr plaintext, session\<lparr>ps_keys := Some keys', ps_receive_sequence := ps_receive_sequence session + 1\<rparr>))"

definition sealRecord :: "peer_session \<Rightarrow> bytes \<Rightarrow> (string + bytes) \<times> peer_session" where
  "sealRecord session message =
     (if length message > 48 then (Inl ''record plaintext too large'', session)
      else
        let keys = the (ps_keys session);
            ratchet = (dev_mode (ps_device session) = Some 1);
            (message_key, next_chain_key) =
              (if ratchet then ratchetStep (server_chain_key keys) else (server_traffic_key keys, []));
            header = projr (encodeHeader C0PQ_FRAME_DATA 1 (8 + length message + 16) (ps_session_id session))
        in if ps_send_sequence session \<ge> 2 ^ 64 then (Inl ''value out of range'', session)
           else
             let sequence = of_nat (ps_send_sequence session) :: u64;
                 associated_data = concat [header, be_bytes 8 sequence];
                 nonce = recordNonce (server_nonce_base keys) sequence;
                 (ciphertext, tag) = asconEncrypt message_key nonce associated_data message;
                 keys' = (if ratchet then keys\<lparr>server_chain_key := next_chain_key\<rparr> else keys)
             in (Inr (concat [associated_data, ciphertext, tag]),
                 session\<lparr>ps_keys := Some keys', ps_send_sequence := ps_send_sequence session + 1\<rparr>))"

definition handleData :: "bytes \<Rightarrow> js_header \<Rightarrow> 'r c0pq_peer \<Rightarrow> 'r peer_reply" where
  "handleData frame header p =
     (case peer_sessions p (jh_session_id header) of
        None \<Rightarrow> (Inl ''unknown data session'', p)
      | Some session \<Rightarrow>
          if ps_last_client_frame session \<noteq> None \<and> tagEqual (the (ps_last_client_frame session)) frame
          then (Inr (ps_last_response session), p)
          else
            case openRecord session frame header of
              (Inl e, session1) \<Rightarrow> (Inl e, put_session session1 p)
            | (Inr plaintext, session1) \<Rightarrow>
                let (response, env) = peer_on_plaintext p plaintext session1 (peer_env p);
                    p1 = p\<lparr>peer_env := env\<rparr>;
                    (response_frame, session2) =
                      (case response of
                         None \<Rightarrow> (Inr None, session1)
                       | Some r \<Rightarrow> (case sealRecord session1 r of (Inl e, s) \<Rightarrow> (Inl e, s) | (Inr f, s) \<Rightarrow> (Inr (Some f), s)))
                in case response_frame of
                     Inl e \<Rightarrow> (Inl e, put_session session2 p1)
                   | Inr f \<Rightarrow> (Inr f, put_session (session2\<lparr>ps_last_client_frame := Some frame, ps_last_response := f\<rparr>) p1))"

section \<open>Frames and messages\<close>

definition handleFrame :: "bytes \<Rightarrow> 'r c0pq_peer \<Rightarrow> 'r peer_reply" where
  "handleFrame frame p =
     (case decodeHeader frame of
        Inl e \<Rightarrow> (Inl e, p)
      | Inr header \<Rightarrow>
          if jh_type header = C0PQ_FRAME_HELLO then handleHello frame p
          else if jh_type header = C0PQ_FRAME_CIPHERTEXT_FRAGMENT then handleFragment frame header p
          else if jh_type header = C0PQ_FRAME_DEVICE_FINISHED then finishSession frame header p
          else if jh_type header = C0PQ_FRAME_DATA then handleData frame header p
          else (Inl ''unsupported frame type'', p))"

text \<open>The socket's handler: an answer is sent when there is one, an error is logged.\<close>

definition on_message :: "bytes \<Rightarrow> 'r c0pq_peer \<Rightarrow> bytes option \<times> 'r c0pq_peer" where
  "on_message message p =
     (case handleFrame message p of (Inl e, p') \<Rightarrow> (None, p') | (Inr response, p') \<Rightarrow> (response, p'))"

end
