(* ===== verification/PeerAgree.thy ===== *)
theory PeerAgree
  imports ReferencePeer
begin

text \<open>
  The reference peer speaks the client's protocol: its headers, tags, keys and its Ascon are those
  of the C code, and each of its handlers, given the frame the client sends in that state, gives
  the answer the client waits for. A frame that arrives again gets the same answer and changes
  nothing.
\<close>

unbundle bit_operations_syntax

section \<open>Headers, keys and tags\<close>

lemma C0_letters: "(of_char CHR ''C'' :: u8) = 0x43" "(of_char CHR ''0'' :: u8) = 0x30"
  by simp_all

lemma encodeHeader_bytes: "n \<le> 255 \<Longrightarrow> encodeHeader ty fl n sid = Inr (header_bytes ty fl (of_nat n) sid)"
  by (simp add: encodeHeader_def header_bytes_def)

lemma decodeHeader_bytes:
  assumes "take 10 f = header_bytes ty fl n sid" and "length f = unat n + 10"
  shows "decodeHeader f = Inr \<lparr>jh_type = ty, jh_flags = fl, jh_payload_length = unat n, jh_session_id = sid\<rparr>"
proof -
  obtain r where f: "f = header_bytes ty fl n sid @ r" using assms(1) append_take_drop_id [of 10 f] by metis
  have "slice f 6 4 = be_bytes 4 sid" by (simp add: f header_bytes_def slice_def)
  then show ?thesis
    using assms(2) by (simp add: decodeHeader_def f header_bytes_def be_word_be_bytes)
qed

lemma hkdfExtract_spec: "hkdfExtract None key = spec_hmac [] key" "hkdfExtract (Some s) key = spec_hmac s key"
  by (simp_all add: hkdfExtract_def hmac_parts_def hmac_empty_zero_key [of 32])

lemma hkdf_expand_blocks_spec:
  assumes "L \<le> 255 * 32" and "length out = 32 * i \<or> L \<le> length out" and "previous = spec_hkdf_T prk info i"
  shows "hkdf_expand_blocks prk info L (Suc i) previous out =
     out @ take (L - length out) (concat (map (spec_hkdf_T prk info) [Suc i..<256]))"
  using assms
proof (induction "L - length out" arbitrary: out i previous rule: less_induct)
  case less
  show ?case
  proof (cases "length out < L")
    case False
    then show ?thesis by (subst hkdf_expand_blocks.simps) simp
  next
    case True
    then have lo: "length out = 32 * i" and i: "i < 255" using less.prems(1,2) by auto
    let ?T = "spec_hkdf_T prk info (Suc i)"
    let ?out = "out @ take (min 32 (L - length out)) ?T"
    have blocks: "[Suc i..<256] = Suc i # [Suc (Suc i)..<256]" using i by (simp add: upt_conv_Cons)
    have prev: "hmac_parts prk [previous, info, [of_nat (Suc i)]] = ?T"
      using less.prems(3) by (simp add: hmac_parts_def)
    have lT: "length ?T = 32" by simp
    have step: "hkdf_expand_blocks prk info L (Suc i) previous out = hkdf_expand_blocks prk info L (Suc (Suc i)) ?T ?out"
      using True by (subst hkdf_expand_blocks.simps) (simp only: prev Let_def lT True if_True One_nat_def add_Suc_right add_0_right)
    have lo': "length ?out = length out + min 32 (L - length out)" using lT by simp
    have "L - length ?out < L - length out" using True lo' by auto
    moreover have "length ?out = 32 * Suc i \<or> L \<le> length ?out" using lo lo' by auto
    ultimately have "hkdf_expand_blocks prk info L (Suc (Suc i)) ?T ?out
        = ?out @ take (L - length ?out) (concat (map (spec_hkdf_T prk info) [Suc (Suc i)..<256]))"
      by (intro less.hyps less.prems(1)) simp_all
    also have "\<dots> = out @ take (L - length out) (?T @ concat (map (spec_hkdf_T prk info) [Suc (Suc i)..<256]))"
      using lo' lT by (cases "32 \<le> L - length out") (simp_all add: min_def del: spec_hkdf_T.simps)
    finally show ?thesis unfolding step by (simp add: blocks del: spec_hkdf_T.simps)
  qed
qed

lemma hkdfExpand_spec: "L \<le> 255 * 32 \<Longrightarrow> hkdfExpand prk info L = Inr (spec_hkdf_expand prk info L)"
  using hkdf_expand_blocks_spec [of L "[]" 0 "[]" prk info] by (simp add: hkdfExpand_def spec_hkdf_expand_def)

lemma deriveHelloKey_eq: "length key = 32 \<Longrightarrow> deriveHelloKey key = c0pq_derive_hello_key key"
  by (simp add: deriveHelloKey_def hkdfExtract_spec hkdfExpand_spec derive_hello_key_spec extract_psk_spec)

lemma authTag_eq: "length key = 32 \<Longrightarrow> authTag key label data = c0pq_auth_tag key label data"
  by (simp add: authTag_def hmac_parts_def auth_tag_spec)

lemma deriveSessionAuthKey_eq:
  "length key = 32 \<Longrightarrow> length kid = 16 \<Longrightarrow> length dn = 16 \<Longrightarrow> length sn = 16 \<Longrightarrow>
   deriveSessionAuthKey key su ep kid dn sn = c0pq_derive_session_auth_key key su ep kid dn sn"
  by (simp add: deriveSessionAuthKey_def hkdfExtract_spec hmac_parts_def session_auth_key_spec extract_psk_spec)

lemma expandTextLabel_eq: "n \<le> 255 * 32 \<Longrightarrow> expandTextLabel s l th n = spec_hkdf_expand s (label_info l th) n"
  by (simp add: expandTextLabel_def hkdfExpand_spec label_info_def)

lemma deriveSessionKeys_eq: "deriveSessionKeys key ss th = spec_session_keys key ss th"
  by (simp add: deriveSessionKeys_def spec_session_keys_def spec_handshake_secret_def hkdfExtract_spec hkdfExpand_spec
      expandTextLabel_eq Let_def)

lemma finishedTag_eq:
  "length key = 32 \<Longrightarrow> length th = 32 \<Longrightarrow> finishedTag key ty sid th = c0pq_finished_tag key ty sid th"
  by (simp add: finishedTag_def encodeHeader_bytes authTag_def hmac_parts_def finished_tag_spec)

lemma tagEqual_iff [simp]: "tagEqual a b \<longleftrightarrow> a = b"
  by (auto simp: tagEqual_def)

section \<open>Hello and challenge\<close>

lemma decodeHeader_frame:
  "f = header_bytes ty fl n sid @ r \<Longrightarrow> length r = unat n \<Longrightarrow>
   decodeHeader f = Inr \<lparr>jh_type = ty, jh_flags = fl, jh_payload_length = unat n, jh_session_id = sid\<rparr>"
  by (rule decodeHeader_bytes) simp_all

lemma lookupDevice_psk: "lookupDevice p d = Inr (Some dev) \<Longrightarrow> length (dev_psk dev) = 32"
  by (auto simp: lookupDevice_def Let_def split: option.split_asm if_split_asm)

lemma hello_frame_header:
  "hello_wf h \<Longrightarrow> decodeHeader (hello_frame key sid h)
     = Inr \<lparr>jh_type = C0PQ_FRAME_HELLO, jh_flags = 0, jh_payload_length = 50, jh_session_id = sid\<rparr>"
  using decodeHeader_frame [of "hello_frame key sid h" C0PQ_FRAME_HELLO 0 50 sid]
  by (simp add: hello_frame_def hello_core_def hello_wf_def)

lemma parseHello_accepts:
  fixes lookup :: "bytes \<Rightarrow> string + peer_device option"
  assumes wf: "hello_wf h" and dev: "lookup (hello_device_id h) = Inr (Some dev)" and key: "length (dev_psk dev) = 32"
  shows "parseHello (hello_frame (dev_psk dev) sid h) lookup = Inr \<lparr>jp_session_id = sid, jp_epoch = hello_epoch h,
     jp_device_nonce = hello_nonce h, jp_device = dev\<rparr>"
proof -
  let ?f = "hello_frame (dev_psk dev) sid h"
  let ?t = "c0pq_auth_tag (c0pq_derive_hello_key (dev_psk dev)) ''C0PQ/1 hello frame'' (hello_core sid h)"
  have parts: "?f = header_bytes C0PQ_FRAME_HELLO 0 50 sid @ be_bytes 2 (hello_suite h) @ hello_device_id h
      @ be_bytes 8 (hello_epoch h) @ hello_nonce h @ ?t"
    by (simp add: hello_frame_def hello_core_def)
  have sl: "slice ?f 10 2 = be_bytes 2 (hello_suite h)" "slice ?f 12 8 = hello_device_id h"
    "slice ?f 20 8 = be_bytes 8 (hello_epoch h)" "slice ?f 28 16 = hello_nonce h" "length ?f = 60"
    using wf unfolding parts by (simp_all add: slice_def hello_wf_def)
  have tag: "take 44 ?f = hello_core sid h" "drop 44 ?f = ?t" using wf by (simp_all add: hello_frame_def)
  have "hello_suite h = C0PQ_SUITE" using wf by (simp add: hello_wf_def)
  then show ?thesis
    using dev key hello_frame_header [OF wf]
    by (simp add: parseHello_def sl tag be_word_be_bytes deriveHelloKey_eq authTag_eq)
qed

definition peer_challenge :: "'r c0pq_peer \<Rightarrow> c0pq_hello \<Rightarrow> bytes \<Rightarrow> c0pq_challenge" where
  "peer_challenge p h sn = \<lparr>ch_suite = C0PQ_SUITE, ch_epoch = hello_epoch h, ch_key_id = peer_key_id p,
     ch_device_nonce = hello_nonce h, ch_server_nonce = sn\<rparr>"

lemma encodeChallenge_eq:
  assumes "length key = 32" and "challenge_wf ch"
  shows "encodeChallenge sid key (ch_epoch ch) (ch_key_id ch) (ch_device_nonce ch) (ch_server_nonce ch)
     = (challenge_frame key sid ch, challenge_key key ch)"
  using assms
  by (simp add: encodeChallenge_def Let_def encodeHeader_bytes challenge_frame_def challenge_core_def challenge_key_def
      challenge_wf_def deriveSessionAuthKey_eq authTag_eq)

text \<open>The session the peer opens for a hello.\<close>

definition opened_session :: "peer_device \<Rightarrow> u32 \<Rightarrow> c0pq_hello \<Rightarrow> c0pq_challenge \<Rightarrow> peer_session" where
  "opened_session dev sid h ch =
     \<lparr>ps_session_id = sid, ps_device = dev, ps_hello_core = hello_core sid h, ps_challenge_core = challenge_core sid ch,
      ps_challenge_frame = challenge_frame (dev_psk dev) sid ch, ps_auth_key = challenge_key (dev_psk dev) ch,
      ps_ciphertext = replicate 768 0, ps_received = replicate 16 False, ps_established = False, ps_send_sequence = 0,
      ps_receive_sequence = 0, ps_keys = None, ps_transcript_hash = None, ps_server_finished = None,
      ps_last_client_frame = None, ps_last_response = None\<rparr>"

lemma handle_hello:
  assumes wf: "hello_wf h" and dev: "lookupDevice p (hello_device_id h) = Inr (Some dev)"
    and epoch: "peer_epoch p = uint (hello_epoch h)" and kid: "length (peer_key_id p) = 16"
    and rnd: "peer_random p (peer_env p) 16 = (sn, env)" "length sn = 16" and none: "peer_sessions p sid = None"
  defines "ch \<equiv> peer_challenge p h sn"
  shows "handleFrame (hello_frame (dev_psk dev) sid h) p =
    (Inr (Some (challenge_frame (dev_psk dev) sid ch)), put_session (opened_session dev sid h ch) (p\<lparr>peer_env := env\<rparr>))"
proof -
  have key: "length (dev_psk dev) = 32" using lookupDevice_psk [OF dev] .
  have cw: "challenge_wf ch" using wf kid rnd(2) by (simp add: ch_def peer_challenge_def challenge_wf_def hello_wf_def)
  have enc: "encodeChallenge sid (dev_psk dev) (word_of_int (peer_epoch p)) (peer_key_id p) (hello_nonce h) sn
      = (challenge_frame (dev_psk dev) sid ch, challenge_key (dev_psk dev) ch)"
    using encodeChallenge_eq [OF key cw, of sid] epoch by (simp add: ch_def peer_challenge_def)
  have "take 44 (hello_frame (dev_psk dev) sid h) = hello_core sid h" using wf by (simp add: hello_frame_def)
  moreover have "take 68 (challenge_frame (dev_psk dev) sid ch) = challenge_core sid ch" using cw by (simp add: challenge_frame_def)
  ultimately show ?thesis
    using hello_frame_header [OF wf] parseHello_accepts [of h "lookupDevice p" dev sid, OF wf dev key] epoch rnd none enc
    by (simp add: handleFrame_def handleHello_def opened_session_def)
qed

lemma handle_hello_again:
  assumes wf: "hello_wf h" and dev: "lookupDevice p (hello_device_id h) = Inr (Some dev)"
    and s: "peer_sessions p sid = Some s" "ps_hello_core s = hello_core sid h"
  shows "handleFrame (hello_frame (dev_psk dev) sid h) p = (Inr (Some (ps_challenge_frame s)), p)"
proof -
  have "take 44 (hello_frame (dev_psk dev) sid h) = hello_core sid h" using wf by (simp add: hello_frame_def)
  then show ?thesis
    using hello_frame_header [OF wf] parseHello_accepts [of h "lookupDevice p" dev sid, OF wf dev lookupDevice_psk [OF dev]] s
    by (simp add: handleFrame_def handleHello_def)
qed

section \<open>Fragments\<close>

text \<open>The session once it holds the first bytes \<open>E\<close> of the ciphertext.\<close>

definition holding :: "peer_session \<Rightarrow> bytes \<Rightarrow> peer_session" where
  "holding s E = s\<lparr>ps_ciphertext := E @ replicate (768 - length E) 0,
     ps_received := replicate (length E div 48) True @ replicate (16 - length E div 48) False\<rparr>"

lemma put_session_same:
  "peer_sessions p (ps_session_id s) = Some s \<Longrightarrow> put_session s p = p"
  by (simp add: put_session_def fun_upd_idem)

lemma encodeAck_eq: "length (ps_auth_key s) = 32 \<Longrightarrow> encodeAck s i = ack_frame (ps_auth_key s) (ps_session_id s) i"
  by (simp add: encodeAck_def Let_def encodeHeader_bytes ack_frame_def ack_core_def authTag_eq)

lemma handle_fragment:
  assumes s: "peer_sessions p (ps_session_id s) = Some s" and key: "length (ps_auth_key s) = 32"
    and i: "i < 16" and data: "length data = 48"
    and free: "ps_received s ! i \<longrightarrow> slice (ps_ciphertext s) (48 * i) 48 = data"
  shows "handleFrame (fragment_frame (ps_auth_key s) (ps_session_id s) (of_nat i) data) p =
    (Inr (Some (ack_frame (ps_auth_key s) (ps_session_id s) (of_nat i))),
     put_session (s\<lparr>ps_ciphertext := memcpy (ps_ciphertext s) (48 * i) data, ps_received := (ps_received s)[i := True]\<rparr>) p)"
proof -
  let ?sid = "ps_session_id s" and ?key = "ps_auth_key s" and ?s' = "s\<lparr>ps_ciphertext := memcpy (ps_ciphertext s) (48 * i) data, ps_received := (ps_received s)[i := True]\<rparr>"
  let ?f = "fragment_frame ?key ?sid (of_nat i) data" and ?core = "fragment_core ?sid (of_nat i) data"
  have ui: "unat (of_nat i :: u8) = i" using i by (simp add: unat_of_nat_u8)
  have core: "?core = header_bytes C0PQ_FRAME_CIPHERTEXT_FRAGMENT 0 67 ?sid @ [of_nat i, 16, 48] @ data"
    using data by (simp add: fragment_core_def)
  have f: "?f = header_bytes C0PQ_FRAME_CIPHERTEXT_FRAGMENT 0 67 ?sid @ [of_nat i, 16, 48] @ data
      @ c0pq_auth_tag ?key ''C0PQ/1 ciphertext fragment'' ?core" by (simp add: fragment_frame_def core)
  have hd: "decodeHeader ?f = Inr \<lparr>jh_type = C0PQ_FRAME_CIPHERTEXT_FRAGMENT, jh_flags = 0, jh_payload_length = 67, jh_session_id = ?sid\<rparr>"
    using decodeHeader_frame [OF f] data by simp
  have nth: "?f ! 10 = of_nat i" "?f ! 11 = 16" "?f ! 12 = 48" and sl: "slice ?f 13 48 = data"
    by (simp_all add: f nth_append header_bytes_def slice_def data)
  have lc: "length ?core = 61" using data by simp
  have tag: "take 61 ?f = ?core" "drop 61 ?f = c0pq_auth_tag ?key ''C0PQ/1 ciphertext fragment'' ?core"
    unfolding fragment_frame_def using lc by simp_all
  have len: "length ?f = 77" using data by simp
  have "encodeAck ?s' (of_nat i) = ack_frame ?key ?sid (of_nat i)" using encodeAck_eq [of ?s'] key by simp
  then show ?thesis
    using hd s i free key data
    by (simp add: handleFrame_def handleFragment_def nth ui sl tag len Let_def authTag_eq mult.commute [of i])
qed

lemma handle_next_fragment:
  assumes s: "peer_sessions p (ps_session_id s) = Some (holding s E)" and key: "length (ps_auth_key s) = 32"
    and E: "length E = 48 * i" "i < 16" "length data = 48"
  shows "handleFrame (fragment_frame (ps_auth_key s) (ps_session_id s) (of_nat i) data) p =
    (Inr (Some (ack_frame (ps_auth_key s) (ps_session_id s) (of_nat i))), put_session (holding s (E @ data)) p)"
proof -
  have h: "ps_session_id (holding s E) = ps_session_id s" "ps_auth_key (holding s E) = ps_auth_key s"
    by (simp_all add: holding_def)
  have n: "\<not> ps_received (holding s E) ! i" using E by (simp add: holding_def nth_append)
  have "length (E @ data) = 48 * Suc i" using E by simp
  then have d: "length E div 48 = i" "length (E @ data) div 48 = Suc i" using E(1) by simp_all
  have f: "replicate (16 - i) False = False # replicate (16 - Suc i) False" using E(2) by (metis Suc_diff_Suc replicate_Suc)
  have r: "(replicate i True @ replicate (16 - i) False)[i := True] = replicate (Suc i) True @ replicate (16 - Suc i) False"
    unfolding f replicate_append_same [of i True, symmetric] replicate_Suc by (simp add: list_update_append)
  have m: "memcpy (E @ replicate (768 - length E) 0) (48 * i) data = (E @ data) @ replicate (768 - length (E @ data)) 0"
    using E by (simp add: memcpy_def)
  let ?X = "(E @ data) @ replicate (768 - length (E @ data)) 0" and ?R = "replicate (Suc i) True @ replicate (16 - Suc i) False"
  have "ps_ciphertext (holding s E) = E @ replicate (768 - length E) 0"
    "ps_received (holding s E) = replicate i True @ replicate (16 - i) False"
    by (simp_all add: holding_def d(1))
  moreover have "(holding s E)\<lparr>ps_ciphertext := ?X, ps_received := ?R\<rparr> = s\<lparr>ps_ciphertext := ?X, ps_received := ?R\<rparr>"
    by (simp add: holding_def)
  moreover have "holding s (E @ data) = s\<lparr>ps_ciphertext := ?X, ps_received := ?R\<rparr>" unfolding holding_def d by (rule refl)
  ultimately have "(holding s E)\<lparr>ps_ciphertext := memcpy (ps_ciphertext (holding s E)) (48 * i) data,
      ps_received := (ps_received (holding s E))[i := True]\<rparr> = holding s (E @ data)"
    by (simp only: m r)
  with handle_fragment [of p "holding s E" i data] s key E n h show ?thesis by simp
qed

lemma handle_fragment_again:
  assumes s: "peer_sessions p (ps_session_id s) = Some (holding s (E @ data))" and key: "length (ps_auth_key s) = 32"
    and E: "length E = 48 * i" "i < 16" "length data = 48"
  shows "handleFrame (fragment_frame (ps_auth_key s) (ps_session_id s) (of_nat i) data) p =
    (Inr (Some (ack_frame (ps_auth_key s) (ps_session_id s) (of_nat i))), p)"
proof -
  let ?s = "holding s (E @ data)"
  have h: "ps_session_id ?s = ps_session_id s" "ps_auth_key ?s = ps_auth_key s" by (simp_all add: holding_def)
  have "length (E @ data) = 48 * Suc i" using E by simp
  then have d: "length (E @ data) div 48 = Suc i" by simp
  have sl: "slice (ps_ciphertext ?s) (48 * i) 48 = data" using E by (simp add: holding_def slice_def)
  have r: "ps_received ?s ! i" unfolding holding_def d by (simp add: nth_append del: replicate_Suc)
  have m: "memcpy (ps_ciphertext ?s) (48 * i) data = ps_ciphertext ?s" using E by (simp add: holding_def memcpy_def)
  have u: "(ps_received ?s)[i := True] = ps_received ?s" using r list_update_id [of "ps_received ?s" i] by simp
  have "?s\<lparr>ps_ciphertext := memcpy (ps_ciphertext ?s) (48 * i) data, ps_received := (ps_received ?s)[i := True]\<rparr> = ?s"
    unfolding u m by simp
  with handle_fragment [of p ?s i data] s key E sl h put_session_same [of p ?s] show ?thesis by simp
qed

section \<open>Finished\<close>

definition session_transcript :: "peer_session \<Rightarrow> bytes" where
  "session_transcript s = spec_sha256 (text_bytes ''C0PQ/1 transcript'' @ ps_hello_core s @ ps_challenge_core s @ ps_ciphertext s)"

text \<open>The session after the device's finished message.\<close>

definition finished_session :: "peer_session \<Rightarrow> bytes \<Rightarrow> peer_session" where
  "finished_session s ss =
     (let th = session_transcript s; keys = spec_session_keys (dev_psk (ps_device s)) ss th
      in s\<lparr>ps_keys := Some keys, ps_transcript_hash := Some th, ps_established := True,
           ps_server_finished := Some (finished_frame (server_finished_key keys) C0PQ_FRAME_SERVER_FINISHED (ps_session_id s) th)\<rparr>)"

lemma finished_header:
  "decodeHeader (finished_frame key ty sid th) = Inr \<lparr>jh_type = ty, jh_flags = 0, jh_payload_length = 16, jh_session_id = sid\<rparr>"
  using decodeHeader_frame [of "finished_frame key ty sid th" ty 0 16 sid] by (simp add: finished_frame_def)

lemma length_session_transcript [simp]: "length (session_transcript s) = 32"
  by (simp add: session_transcript_def sha.length_hash)

lemma finished_keys_length [simp]:
  "length (device_finished_key (spec_session_keys key ss th)) = 32" "length (server_finished_key (spec_session_keys key ss th)) = 32"
  using session_keys_wf_spec [of key ss th] by (simp_all add: session_keys_wf_def)

lemma handle_finished:
  assumes s: "peer_sessions p (ps_session_id s) = Some s" and all: "list_all (\<lambda>b. b) (ps_received s)"
    and none: "ps_server_finished s = None" and kem: "peer_decapsulate p (ps_ciphertext s) (peer_secret_key p) = Inr ss"
  defines "th \<equiv> session_transcript s" and "keys \<equiv> spec_session_keys (dev_psk (ps_device s)) ss (session_transcript s)"
  shows "handleFrame (finished_frame (device_finished_key keys) C0PQ_FRAME_DEVICE_FINISHED (ps_session_id s) th) p =
    (Inr (Some (finished_frame (server_finished_key keys) C0PQ_FRAME_SERVER_FINISHED (ps_session_id s) th)),
     put_session (finished_session s ss) p)"
proof -
  have th: "spec_sha256 (text_bytes ''C0PQ/1 transcript'' @ ps_hello_core s @ ps_challenge_core s @ ps_ciphertext s) = th"
    by (simp add: th_def session_transcript_def)
  have lth: "length th = 32" by (simp add: th_def)
  have dr: "drop 10 (finished_frame k ty sid t) = c0pq_finished_tag k ty sid t" for k ty sid t
    by (simp add: finished_frame_def)
  have fin: "header_bytes C0PQ_FRAME_SERVER_FINISHED 0 16 (ps_session_id s) @
      c0pq_finished_tag (server_finished_key keys) C0PQ_FRAME_SERVER_FINISHED (ps_session_id s) th
      = finished_frame (server_finished_key keys) C0PQ_FRAME_SERVER_FINISHED (ps_session_id s) th"
    by (simp add: finished_frame_def)
  have fs: "finished_session s ss = s\<lparr>ps_keys := Some keys, ps_transcript_hash := Some th, ps_established := True,
      ps_server_finished := Some (finished_frame (server_finished_key keys) C0PQ_FRAME_SERVER_FINISHED (ps_session_id s) th)\<rparr>"
    by (simp add: finished_session_def Let_def th_def keys_def)
  have k: "spec_session_keys (dev_psk (ps_device s)) ss th = keys" by (simp add: keys_def th_def)
  have lk: "length (device_finished_key keys) = 32" "length (server_finished_key keys) = 32" by (simp_all add: keys_def)
  show ?thesis
    using s all none kem
    by (simp add: handleFrame_def finished_header finishSession_def th deriveSessionKeys_eq k finishedTag_eq lk lth dr
        encodeHeader_bytes fin fs Let_def)
qed

lemma handle_finished_again:
  assumes s: "peer_sessions p (ps_session_id s) = Some (finished_session s ss)"
  defines "th \<equiv> session_transcript s" and "keys \<equiv> spec_session_keys (dev_psk (ps_device s)) ss (session_transcript s)"
  shows "handleFrame (finished_frame (device_finished_key keys) C0PQ_FRAME_DEVICE_FINISHED (ps_session_id s) th) p =
    (Inr (Some (finished_frame (server_finished_key keys) C0PQ_FRAME_SERVER_FINISHED (ps_session_id s) th)), p)"
proof -
  have dr: "drop 10 (finished_frame k ty sid t) = c0pq_finished_tag k ty sid t" for k ty sid t
    by (simp add: finished_frame_def)
  show ?thesis
    using s
    by (simp add: handleFrame_def finished_header finishSession_def finished_session_def Let_def finishedTag_eq dr th_def keys_def)
qed

end
