(* ===== verification/PeerLink.thy ===== *)
theory PeerLink
  imports PeerAgree
begin

text \<open>
  The client and the reference peer over a line that loses frames. Every exchange of the client is
  answered as long as one of its attempts gets through in both directions: the peer answers a
  frame it has seen before as it did the first time, so a lost answer does no harm. It follows that
  the handshake succeeds and leaves both sides with the same keys.
\<close>

unbundle bit_operations_syntax

section \<open>The line\<close>

text \<open>What happens to an attempt: the request is lost, or its answer, or neither. The world is the
  peer, the frame waiting for the device, the number of attempts so far and the device's
  supply of random bytes.\<close>

datatype fate = Lost_request | Lost_answer | Delivered

record 'r line =
  ln_peer :: "'r c0pq_peer"
  ln_box :: "bytes option"
  ln_time :: nat
  ln_entropy :: bytes

definition line_send :: "(nat \<Rightarrow> fate) \<Rightarrow> 'r line send_fn" where
  "line_send fate w f =
     (let (answer, p) = on_message f (ln_peer w); w1 = w\<lparr>ln_time := ln_time w + 1\<rparr>
      in case fate (ln_time w) of
           Lost_request \<Rightarrow> (0, w1\<lparr>ln_box := None\<rparr>)
         | Lost_answer \<Rightarrow> (0, w1\<lparr>ln_peer := p, ln_box := None\<rparr>)
         | Delivered \<Rightarrow> (0, w1\<lparr>ln_peer := p, ln_box := answer\<rparr>))"

definition line_receive :: "'r line receive_fn" where
  "line_receive w cap t =
     (case ln_box w of
        None \<Rightarrow> (-1, [], 0, w)
      | Some f \<Rightarrow> if length f > cap then (-1, [], 0, w\<lparr>ln_box := None\<rparr>) else (0, f, length f, w\<lparr>ln_box := None\<rparr>))"

definition line_random :: "'r line rng" where
  "line_random w n = (if length (ln_entropy w) < n then (-1, [], w) else (0, take n (ln_entropy w), w\<lparr>ln_entropy := drop n (ln_entropy w)\<rparr>))"

text \<open>A client on the line, whose retries outlast every run of losses.\<close>

definition on_line :: "(nat \<Rightarrow> fate) \<Rightarrow> 'r line c0pq_client \<Rightarrow> bool" where
  "on_line fate c \<longleftrightarrow>
     send_frame (config c) = Some (line_send fate) \<and> receive_frame (config c) = Some line_receive \<and>
     random_bytes (config c) = Some line_random \<and>
     (\<forall>t. \<exists>j\<le>unat (maximum_retries (config c)). fate (t + j) = Delivered)"

lemma on_line_config: "config c' = config c \<Longrightarrow> on_line fate c' = on_line fate c"
  by (simp add: on_line_def)

section \<open>The exchange\<close>

text \<open>The peer answers \<open>req\<close> with \<open>reply\<close>, now and when it is repeated, and ends up in \<open>p'\<close>.\<close>

definition answers :: "bytes \<Rightarrow> bytes \<Rightarrow> 'r c0pq_peer \<Rightarrow> 'r c0pq_peer \<Rightarrow> bool" where
  "answers req reply p p' \<longleftrightarrow>
     handleFrame req p = (Inr (Some reply), p') \<and> handleFrame req p' = (Inr (Some reply), p')"

lemma answers_message: "answers req reply p p' \<Longrightarrow> q = p \<or> q = p' \<Longrightarrow> on_message req q = (Some reply, p')"
  by (auto simp: answers_def on_message_def)

lemma attempts_over_line:
  assumes line: "send_frame (config c) = Some (line_send fate)" "receive_frame (config c) = Some line_receive"
    and ans: "answers (take ol frame) reply p p'" and len: "length frame = 96" "length reply = el" "el \<le> 96"
    and hdr: "take 10 reply = header_bytes ty fl n (session_id c)" "el = unat n + 10"
  shows "j < k \<Longrightarrow> fate (ln_time w + j) = Delivered \<Longrightarrow> ln_peer w = p \<or> ln_peer w = p' \<Longrightarrow>
    \<exists>w'. send_attempts c ol ty el k frame w = (C0PQLINK_OK, memcpy frame 0 reply, w') \<and> ln_peer w' = p' \<and> ln_entropy w' = ln_entropy w"
proof (induction k arbitrary: j w)
  case 0
  then show ?case by simp
next
  case (Suc k)
  note msg = answers_message [OF ans Suc.prems(3)]
  have buf: "take 10 (memcpy frame 0 reply) = take 10 reply" using len hdr(2) by (simp add: memcpy_def)
  have dec: "c0pq_decode_header (Some header_zero) (Some (memcpy frame 0 reply)) el =
      (C0PQLINK_OK, Some \<lparr>htype = ty, hflags = fl, payload_length = ucast n, hsession_id = session_id c\<rparr>)"
    using len hdr buf by (subst decode_header_ok_iff) (auto intro!: exI [of _ n])
  have silent: "memcpy frame 0 [] = frame" by (simp add: memcpy_def)
  have later: ?case if r: "send_attempts c ol ty el (Suc k) frame w = send_attempts c ol ty el k frame w1"
    and w1: "ln_time w1 = ln_time w + 1" "ln_peer w1 = p \<or> ln_peer w1 = p'" "ln_entropy w1 = ln_entropy w"
    and lost: "fate (ln_time w) \<noteq> Delivered" for w1
  proof -
    obtain j' where j: "j = Suc j'" using lost Suc.prems(2) by (cases j) auto
    have "\<exists>w'. send_attempts c ol ty el k frame w1 = (C0PQLINK_OK, memcpy frame 0 reply, w') \<and> ln_peer w' = p' \<and> ln_entropy w' = ln_entropy w1"
      using Suc.prems(1,2) w1(1,2) by (intro Suc.IH [of j']) (simp_all add: j)
    then show ?thesis using r w1(3) by simp
  qed
  show ?case
  proof (cases "fate (ln_time w)")
    case Lost_request
    then show ?thesis
      using Suc.prems(3)
      by (intro later [of "w\<lparr>ln_time := ln_time w + 1, ln_box := None\<rparr>"]) (simp_all add: line line_send_def line_receive_def msg silent)
  next
    case Lost_answer
    then show ?thesis
      by (intro later [of "w\<lparr>ln_time := ln_time w + 1, ln_peer := p', ln_box := None\<rparr>"]) (simp_all add: line line_send_def line_receive_def msg silent)
  next
    case Delivered
    then show ?thesis using len dec by (simp add: line line_send_def line_receive_def msg Let_def)
  qed
qed

lemma exchange_over_line:
  assumes line: "on_line fate c" and ans: "answers (take ol frame) reply p p'" and peer: "ln_peer w = p"
    and len: "length frame = 96" "length reply = el" "el \<le> 96"
    and hdr: "take 10 reply = header_bytes ty fl n (session_id c)" "el = unat n + 10"
  obtains w' where "send_and_receive c frame ol ty el w = (C0PQLINK_OK, memcpy frame 0 reply, w')" and "ln_peer w' = p'"
    and "ln_entropy w' = ln_entropy w"
proof -
  obtain j where j: "j \<le> unat (maximum_retries (config c))" "fate (ln_time w + j) = Delivered"
    using line by (auto simp: on_line_def)
  have l: "send_frame (config c) = Some (line_send fate)" "receive_frame (config c) = Some line_receive"
    using line by (simp_all add: on_line_def)
  have jl: "j < unat (maximum_retries (config c)) + 1" using j(1) by simp
  from attempts_over_line [of c fate, OF l ans len hdr jl j(2)] peer that show ?thesis
    unfolding send_and_receive_def by blast
qed

lemma reply_front: "length frame = 96 \<Longrightarrow> length reply = el \<Longrightarrow> el \<le> 96 \<Longrightarrow>
    take el (memcpy frame 0 reply) = reply \<and> length (memcpy frame 0 reply) = 96"
  by (simp add: memcpy_def)

section \<open>The peer acknowledges\<close>

lemma put_session_twice [simp]:
  "ps_session_id s' = ps_session_id s \<Longrightarrow> put_session s' (put_session s p) = put_session s' p"
  by (simp add: put_session_def)

lemma put_session_lookup [simp]: "ps_session_id s = sid \<Longrightarrow> peer_sessions (put_session s p) sid = Some s"
  by (simp add: put_session_def)

lemma put_session_fields [simp]:
  "peer_decapsulate (put_session s p) = peer_decapsulate p" "peer_secret_key (put_session s p) = peer_secret_key p"
  "peer_devices (put_session s p) = peer_devices p" "peer_key_id (put_session s p) = peer_key_id p"
  "lookupDevice (put_session s p) d = lookupDevice p d"
  by (simp_all add: put_session_def lookupDevice_def)

lemma holding_fields [simp]:
  "ps_session_id (holding s E) = ps_session_id s" "ps_auth_key (holding s E) = ps_auth_key s"
  by (simp_all add: holding_def)

definition peer_holds :: "peer_session \<Rightarrow> 'r c0pq_peer \<Rightarrow> bytes \<Rightarrow> bytes \<Rightarrow> 'r line \<Rightarrow> bool" where
  "peer_holds s p rs E w \<longleftrightarrow> ln_peer w = put_session (holding s E) p \<and> ln_entropy w = rs"

lemma answers_fragment:
  assumes "length (ps_auth_key s) = 32" and "length E = 48 * i" and "i < 16" and "length data = 48"
  shows "answers (fragment_frame (ps_auth_key s) (ps_session_id s) (of_nat i) data)
    (ack_frame (ps_auth_key s) (ps_session_id s) (of_nat i)) (put_session (holding s E) p) (put_session (holding s (E @ data)) p)"
  using handle_next_fragment [of "put_session (holding s E) p" s E i data]
    handle_fragment_again [of "put_session (holding s (E @ data)) p" s E data i] assms
  by (simp add: answers_def)

lemma reference_peer_acknowledges:
  assumes line: "on_line fate c" and sid: "session_id c = ps_session_id s" and key: "length (ps_auth_key s) = 32"
  shows "acknowledging_peer c (ps_auth_key s) (peer_holds s p rs)"
proof
  fix E :: bytes and w :: "'a line" and i :: nat and data :: bytes
  assume h: "peer_holds s p rs E w" and E: "length E = 48 * i" "i < 16" "length data = 48"
  let ?frag = "fragment_frame (ps_auth_key s) (session_id c) (of_nat i) data" and ?ack = "ack_frame (ps_auth_key s) (session_id c) (of_nat i)"
  have t: "take 77 (?frag @ replicate 19 0) = ?frag" using E by simp
  have a: "answers (take 77 (?frag @ replicate 19 0)) ?ack (put_session (holding s E) p) (put_session (holding s (E @ data)) p)"
    unfolding t unfolding sid by (rule answers_fragment [OF key E])
  have w: "ln_peer w = put_session (holding s E) p" using h by (simp add: peer_holds_def)
  have l: "length (?frag @ replicate 19 0) = 96" using E by simp
  obtain w' where x: "send_and_receive c (?frag @ replicate 19 0) 77 C0PQ_FRAME_CIPHERTEXT_ACK 28 w
      = (C0PQLINK_OK, memcpy (?frag @ replicate 19 0) 0 ?ack, w')"
    and p: "ln_peer w' = put_session (holding s (E @ data)) p" "ln_entropy w' = ln_entropy w"
    by (rule exchange_over_line [OF line a w l, of 28 C0PQ_FRAME_CIPHERTEXT_ACK 0 18]) (simp_all add: take_ack_header)
  show "\<exists>frame w'. send_and_receive c (?frag @ replicate 19 0) 77 C0PQ_FRAME_CIPHERTEXT_ACK 28 w = (C0PQLINK_OK, frame, w') \<and>
      take 28 frame = ?ack \<and> peer_holds s p rs (E @ data) w'"
    using x reply_front [OF l length_ack_frame [of "ps_auth_key s" "session_id c" "of_nat i"]] p h by (simp add: peer_holds_def)
qed

section \<open>The handshake\<close>

text \<open>Client and peer provisioned for each other.\<close>

definition provisioned :: "'w c0pq_client \<Rightarrow> 'r c0pq_peer \<Rightarrow> peer_device \<Rightarrow> bool" where
  "provisioned c p dev \<longleftrightarrow>
     lookupDevice p (device_id (config c)) = Inr (Some dev) \<and> dev_psk dev = psk (config c) \<and>
     dev_mode dev = Some (mode (config c)) \<and> peer_epoch p = uint (cfg_epoch (config c)) \<and>
     peer_key_id p = public_key_id (config c)"

text \<open>Both sides hold the same keys and agree on the sequence numbers.\<close>

definition linked :: "'w c0pq_client \<Rightarrow> peer_session \<Rightarrow> bool" where
  "linked d s \<longleftrightarrow> client_wf d \<and> client_state d = C0PQ_CLIENT_ESTABLISHED \<and> ps_established s \<and> ps_session_id s = session_id d \<and>
     dev_mode (ps_device s) = Some (mode (config d)) \<and>
     (\<exists>keys. ps_keys s = Some keys \<and> session_keys_wf keys \<and>
        send_nonce_base d = client_nonce_base keys \<and> receive_nonce_base d = server_nonce_base keys \<and>
        (if mode (config d) = C0PQ_PQ_BOOTSTRAP_RATCHET
         then send_secret d = client_chain_key keys \<and> receive_secret d = server_chain_key keys
         else take 16 (send_secret d) = client_traffic_key keys \<and> take 16 (receive_secret d) = server_traffic_key keys)) \<and>
     ps_receive_sequence s = unat (send_sequence d) \<and> ps_send_sequence s = unat (receive_sequence d)"

lemma linked_installed:
  assumes wf: "client_wf c" and dev: "dev_mode (ps_device s) = Some (mode (config c))" and sid: "ps_session_id s = session_id c"
    and fresh: "ps_send_sequence s = 0" "ps_receive_sequence s = 0"
    and keys: "spec_session_keys (dev_psk (ps_device s)) ss (session_transcript s) = keys"
  shows "linked (install_keys keys c) (finished_session s ss)"
proof -
  have kw: "session_keys_wf keys" unfolding keys [symmetric] by simp
  note ok = install_keys_ok [OF wf kw]
  show ?thesis
    using kw ok wf dev sid fresh
    by (auto simp: linked_def finished_session_def Let_def keys session_keys_wf_def install_keys_def memcpy_def)
qed

lemma answers_hello:
  assumes wf: "hello_wf h" and dev: "lookupDevice p (hello_device_id h) = Inr (Some dev)"
    and epoch: "peer_epoch p = uint (hello_epoch h)" and kid: "length (peer_key_id p) = 16"
    and rnd: "peer_random p (peer_env p) 16 = (sn, env)" "length sn = 16" and none: "peer_sessions p sid = None"
  defines "ch \<equiv> peer_challenge p h sn"
  shows "answers (hello_frame (dev_psk dev) sid h) (challenge_frame (dev_psk dev) sid ch) p
    (put_session (opened_session dev sid h ch) (p\<lparr>peer_env := env\<rparr>))"
proof -
  let ?s = "opened_session dev sid h ch" and ?p = "p\<lparr>peer_env := env\<rparr>"
  have "lookupDevice (put_session ?s ?p) (hello_device_id h) = Inr (Some dev)" using dev by (simp add: lookupDevice_def)
  moreover have "peer_sessions (put_session ?s ?p) sid = Some ?s" by (simp add: opened_session_def)
  ultimately have "handleFrame (hello_frame (dev_psk dev) sid h) (put_session ?s ?p)
      = (Inr (Some (ps_challenge_frame ?s)), put_session ?s ?p)"
    by (intro handle_hello_again [OF wf]) (simp_all add: opened_session_def)
  moreover have "ps_challenge_frame ?s = challenge_frame (dev_psk dev) sid ch" by (simp add: opened_session_def)
  ultimately show ?thesis using handle_hello [OF wf dev epoch kid rnd none] by (simp add: answers_def ch_def)
qed

lemma answers_finished:
  assumes all: "list_all (\<lambda>b. b) (ps_received s)" and none: "ps_server_finished s = None"
    and kem: "peer_decapsulate p (ps_ciphertext s) (peer_secret_key p) = Inr ss"
    and th: "session_transcript s = th" and keys: "spec_session_keys (dev_psk (ps_device s)) ss th = keys"
  shows "answers (finished_frame (device_finished_key keys) C0PQ_FRAME_DEVICE_FINISHED (ps_session_id s) th)
    (finished_frame (server_finished_key keys) C0PQ_FRAME_SERVER_FINISHED (ps_session_id s) th)
    (put_session s p) (put_session (finished_session s ss) p)"
proof -
  have sid: "ps_session_id (finished_session s ss) = ps_session_id s" by (simp add: finished_session_def Let_def)
  show ?thesis
    using handle_finished [of "put_session s p" s ss] handle_finished_again [of "put_session (finished_session s ss) p" s ss]
      all none kem th keys sid
    by (simp add: answers_def)
qed

text \<open>The random bytes of a run, in the order in which the client draws them, and the two rows of
  the ciphertext.\<close>

definition run_nonce :: "'r line \<Rightarrow> bytes" where "run_nonce w = take 16 (ln_entropy w)"

definition run_coins :: "'r line \<Rightarrow> bytes" where "run_coins w = take 32 (drop 16 (ln_entropy w))"

definition run_row :: "key_source \<Rightarrow> 'r line \<Rightarrow> nat \<Rightarrow> s16 list option" where
  "run_row rd w i = row_poly i (public_seed rd) (drop 32 (spec_G rd (run_coins w)))"

text \<open>The decapsulation of the peer's package undoes the encapsulation of this run.\<close>

definition kem_agrees :: "'r c0pq_peer \<Rightarrow> key_source \<Rightarrow> 'r line \<Rightarrow> bool" where
  "kem_agrees p rd w \<longleftrightarrow>
     (\<forall>u0 u1. run_row rd w 0 = Some u0 \<and> run_row rd w 1 = Some u1 \<longrightarrow>
        peer_decapsulate p (concat (ciphertext_chunks rd (run_coins w) u0 u1)) (peer_secret_key p)
          = Inr (take 32 (spec_G rd (run_coins w))))"

lemma connect_finish_run:
  assumes wf: "client_wf c" and tr: "sha_represents tr T" and ss: "length ss = 32"
    and x: "exchange_finished c (spec_session_keys (psk (config c)) ss (spec_sha256 T)) (spec_sha256 T) w = (C0PQLINK_OK, w')"
  shows "connect_finish c ss tr w =
    (C0PQLINK_OK, install_keys (spec_session_keys (psk (config c)) ss (spec_sha256 T)) c, workspace_zero, w')"
proof -
  have "c0pq_derive_session_keys (Some session_keys_zero) (Some (psk (config c))) (Some ss) (Some (spec_sha256 T))
      = (C0PQLINK_OK, Some (spec_session_keys (psk (config c)) ss (spec_sha256 T)))"
    using wf ss by (intro derive_session_keys_ok) (simp_all add: client_wf_def sha.length_hash)
  then show ?thesis using x by (simp add: connect_finish_def Let_def sha.final_hash [OF tr])
qed

text \<open>The finished exchange with a session that holds the whole ciphertext.\<close>

lemma finished_over_line:
  assumes line: "on_line fate c" and w: "ln_peer w = put_session s p" and sid: "ps_session_id s = session_id c"
    and all: "list_all (\<lambda>b. b) (ps_received s)" and none: "ps_server_finished s = None"
    and kem: "peer_decapsulate p (ps_ciphertext s) (peer_secret_key p) = Inr ss"
    and th: "session_transcript s = th" and keys: "spec_session_keys (dev_psk (ps_device s)) ss th = keys"
  obtains w' where "exchange_finished c keys th w = (C0PQLINK_OK, w')" and "ln_peer w' = put_session (finished_session s ss) p"
proof -
  let ?f = "finished_frame (device_finished_key keys) C0PQ_FRAME_DEVICE_FINISHED (session_id c) th @ replicate 70 0"
  let ?r = "finished_frame (server_finished_key keys) C0PQ_FRAME_SERVER_FINISHED (session_id c) th"
  have t: "take 26 ?f = finished_frame (device_finished_key keys) C0PQ_FRAME_DEVICE_FINISHED (session_id c) th" by simp
  have a: "answers (take 26 ?f) ?r (put_session s p) (put_session (finished_session s ss) p)"
    unfolding t using answers_finished [OF all none kem th keys] by (simp add: sid)
  have l: "length ?f = 96" by simp
  obtain w' where x: "send_and_receive c ?f 26 C0PQ_FRAME_SERVER_FINISHED 26 w = (C0PQLINK_OK, memcpy ?f 0 ?r, w')"
    and p': "ln_peer w' = put_session (finished_session s ss) p"
    by (rule exchange_over_line [OF line a w l, of 26 C0PQ_FRAME_SERVER_FINISHED 0 16]) (simp_all add: finished_frame_def)
  have "length th = 32" "length (device_finished_key keys) = 32" unfolding th [symmetric] keys [symmetric] by simp_all
  with exchange_finished_run [OF x] reply_front [OF l, of ?r 26] that p' show ?thesis by simp
qed

text \<open>The first two steps, from the client's random bytes to the peer's new session.\<close>

lemma preflight_over_line:
  fixes w :: "'r line"
  assumes wf: "client_wf c" and line: "on_line fate c" and prov: "provisioned c (ln_peer w) dev"
    and ent: "48 \<le> length (ln_entropy w)"
    and rnd: "peer_random (ln_peer w) (peer_env (ln_peer w)) 16 = (sn, env)" "length sn = 16"
    and none: "peer_sessions (ln_peer w) (session_of (run_nonce w)) = None"
  defines "n \<equiv> run_nonce w" and "ch \<equiv> peer_challenge (ln_peer w) (hello_of c (run_nonce w)) sn"
    and "c1 \<equiv> c\<lparr>session_id := session_of (run_nonce w)\<rparr>"
  obtains frame tr tr' w1 where "connect_hello c w = (C0PQLINK_OK, c1, frame, n, tr, w1)"
    and "connect_challenge c1 frame n tr = (C0PQLINK_OK, fresh_writer c1 (challenge_key (psk (config c)) ch) tr')"
    and "sha_represents tr' (transcript_hello c n @ challenge_core (session_of n) ch)"
    and "ln_peer w1 = put_session (opened_session dev (session_of n) (hello_of c n) ch) ((ln_peer w)\<lparr>peer_env := env\<rparr>)"
    and "ln_entropy w1 = drop 16 (ln_entropy w)" and "challenge_wf ch"
proof -
  let ?sid = "session_of n" and ?h = "hello_of c n" and ?p = "ln_peer w" and ?w0 = "w\<lparr>ln_entropy := drop 16 (ln_entropy w)\<rparr>"
  have ln: "length n = 16" using ent by (simp add: n_def run_nonce_def)
  have hw: "hello_wf ?h" by (rule hello_of_wf [OF wf ln])
  have hf: "hello_epoch ?h = cfg_epoch (config c)" "hello_device_id ?h = device_id (config c)" "hello_nonce ?h = n"
    by (simp_all add: hello_of_def)
  have key: "dev_psk dev = psk (config c)" using prov by (simp add: provisioned_def)
  have ll: "length (public_key_id (config c)) = 16" using wf by (simp add: client_wf_def)
  have cw: "challenge_wf ch" and cf: "ch_epoch ch = cfg_epoch (config c)" "ch_key_id ch = public_key_id (config c)" "ch_device_nonce ch = n"
    using prov ln rnd(2) ll by (simp_all add: ch_def n_def [symmetric] peer_challenge_def hf provisioned_def challenge_wf_def)
  have rng: "the (random_bytes (config c)) w 16 = (0, n, ?w0)"
    using line ent by (simp add: on_line_def line_random_def n_def run_nonce_def)
  have nn: "n = memcpy (replicate 16 0) 0 (take 16 n)" using ln by (simp add: memcpy_def)
  have "answers (hello_frame (dev_psk dev) ?sid ?h) (challenge_frame (dev_psk dev) ?sid ch) ?p
      (put_session (opened_session dev ?sid ?h ch) (?p\<lparr>peer_env := env\<rparr>))"
    unfolding ch_def n_def
    by (rule answers_hello) (use hw [unfolded n_def] hf [unfolded n_def] prov ll rnd none in \<open>simp_all add: provisioned_def\<close>)
  moreover have take60: "take 60 (hello_frame (psk (config c)) ?sid ?h @ replicate 36 0) = hello_frame (psk (config c)) ?sid ?h"
    using hw by simp
  ultimately have a: "answers (take 60 (hello_frame (psk (config c)) ?sid ?h @ replicate 36 0)) (challenge_frame (psk (config c)) ?sid ch) ?p
      (put_session (opened_session dev ?sid ?h ch) (?p\<lparr>peer_env := env\<rparr>))" by (simp only: key)
  have l: "length (hello_frame (psk (config c)) ?sid ?h @ replicate 36 0) = 96" using hw by simp
  have lc: "length (challenge_frame (psk (config c)) ?sid ch) = 84" using cw by simp
  have c1: "session_id c1 = ?sid" "config c1 = config c" "client_wf c1" using wf by (simp_all add: c1_def n_def)
  have line1: "on_line fate c1" using line on_line_config [OF c1(2)] by simp
  let ?f = "memcpy (hello_frame (psk (config c)) ?sid ?h @ replicate 36 0) 0 (challenge_frame (psk (config c)) ?sid ch)"
  have w0: "ln_peer ?w0 = ?p" by simp
  obtain w1 where x: "send_and_receive c1 (hello_frame (psk (config c)) ?sid ?h @ replicate 36 0) 60 C0PQ_FRAME_CHALLENGE 84 ?w0
      = (C0PQLINK_OK, ?f, w1)"
    and p1: "ln_peer w1 = put_session (opened_session dev ?sid ?h ch) (?p\<lparr>peer_env := env\<rparr>)"
    and e1: "ln_entropy w1 = ln_entropy ?w0"
    by (rule exchange_over_line [OF line1 a w0 l lc, of C0PQ_FRAME_CHALLENGE 0 74])
      (use cw in \<open>simp_all add: challenge_frame_def challenge_core_def c1(1)\<close>)
  obtain tr where ch1: "connect_hello c w = (C0PQLINK_OK, c1, ?f, n, tr, w1)" and tr: "sha_represents tr (transcript_hello c n)"
    using connect_hello_run [OF wf rng nn x [unfolded c1_def n_def [symmetric]]] by (auto simp: c1_def n_def [symmetric])
  have fr: "take 84 ?f = challenge_frame (psk (config c1)) (session_id c1) ch" "length ?f = 96"
    using reply_front [OF l lc] c1 by simp_all
  obtain tr' where ch2: "connect_challenge c1 ?f n tr = (C0PQLINK_OK, fresh_writer c1 (challenge_key (psk (config c1)) ch) tr')"
    and tr': "sha_represents tr' (transcript_hello c n @ challenge_core (session_id c1) ch)"
    by (rule connect_challenge_run [OF c1(3) fr(2) ln tr cw fr(1)]) (simp_all add: cf c1(2))
  show ?thesis using that [OF ch1 ch2 [unfolded c1(2)] tr' [unfolded c1(1)] p1 _ cw] e1 by simp
qed

lemma holding_Nil: "ps_ciphertext s = replicate 768 0 \<Longrightarrow> ps_received s = replicate 16 False \<Longrightarrow> holding s [] = s"
  by (simp add: holding_def)

lemma connect_over_line:
  fixes w :: "'r line"
  assumes wf: "client_wf c" and line: "on_line fate c" and prov: "provisioned c (ln_peer w) dev"
    and rd: "read_public_key (config c) = Some (pure_reader rd)" "canonical_key rd" and ent: "48 \<le> length (ln_entropy w)"
    and rnd: "peer_random (ln_peer w) (peer_env (ln_peer w)) 16 = (sn, env)" "length sn = 16"
    and none: "peer_sessions (ln_peer w) (session_of (run_nonce w)) = None"
    and kem: "kem_agrees (ln_peer w) rd w"
  shows "if run_row rd w 0 = None \<or> run_row rd w 1 = None then connect_run c ws w = None
    else \<exists>d w' s. connect_run c ws w = Some (C0PQLINK_OK, d, workspace_zero, w') \<and>
      ln_peer w' = put_session s ((ln_peer w)\<lparr>peer_env := env\<rparr>) \<and> linked d s \<and>
      send_sequence d = 0 \<and> receive_sequence d = 0 \<and> ps_last_client_frame s = None"
proof -
  let ?c = "c\<lparr>client_state := C0PQ_CLIENT_CONNECTING\<rparr>" and ?n = "run_nonce w" and ?m = "run_coins w"
  let ?c1 = "?c\<lparr>session_id := session_of ?n\<rparr>"
  let ?ch = "peer_challenge (ln_peer w) (hello_of ?c ?n) sn" and ?p = "(ln_peer w)\<lparr>peer_env := env\<rparr>"
  let ?s = "opened_session dev (session_of ?n) (hello_of ?c ?n) ?ch"
  have wfc: "client_wf ?c" "client_wf ?c1" using wf by simp_all
  have lc: "on_line fate ?c" "on_line fate ?c1" using line by (simp_all add: on_line_def)
  have pc: "provisioned ?c (ln_peer w) dev" using prov by (simp add: provisioned_def)
  obtain frame tr tr' w1 where h1: "connect_hello ?c w = (C0PQLINK_OK, ?c1, frame, ?n, tr, w1)"
    and h2: "connect_challenge ?c1 frame ?n tr = (C0PQLINK_OK, fresh_writer ?c1 (challenge_key (psk (config ?c)) ?ch) tr')"
    and tr': "sha_represents tr' (transcript_hello ?c ?n @ challenge_core (session_of ?n) ?ch)"
    and p1: "ln_peer w1 = put_session ?s ?p" and e1: "ln_entropy w1 = drop 16 (ln_entropy w)" and cw: "challenge_wf ?ch"
    by (rule preflight_over_line [OF wfc(1) lc(1) pc ent rnd none])
  have key: "dev_psk dev = psk (config c)" using prov by (simp add: provisioned_def)
  define wr where "wr = fresh_writer ?c1 (ps_auth_key ?s) tr'"
  have h2': "connect_challenge ?c1 frame ?n tr = (C0PQLINK_OK, wr)" using h2 by (simp add: wr_def opened_session_def key)
  let ?w2 = "w1\<lparr>ln_entropy := drop 32 (ln_entropy w1)\<rparr>"
  have rng: "random_bytes (config ?c1) = Some line_random" "line_random w1 32 = (0, ?m, ?w2)"
    using line ent by (simp_all add: on_line_def line_random_def e1 run_coins_def)
  have rd1: "read_public_key (config ?c1) = Some (pure_reader rd)" using rd(1) by simp
  have run: "connect_run c ws w = do {
      (result, ss, writer', w3) \<leftarrow> connect_ciphertext ?c1 wr ws w1;
      if result \<noteq> C0PQLINK_OK then Some (connect_fail result ?c1 w3)
      else Some (connect_finish ?c1 ss (transcript writer') w3) }"
    by (simp add: connect_run_def h1 h2')
  have sid: "session_id ?c1 = ps_session_id ?s" by (simp add: opened_session_def)
  have lk: "length (ps_auth_key ?s) = 32" by (simp add: opened_session_def challenge_key_def)
  note ack = reference_peer_acknowledges [OF lc(2) sid lk, of ?p "drop 32 (ln_entropy w1)"]
  have h0: "peer_holds ?s ?p (drop 32 (ln_entropy w1)) (full_blocks []) ?w2"
    using p1 holding_Nil [of ?s] by (simp add: peer_holds_def full_blocks_def opened_session_def)
  have at: "writer_at ?c1 (ps_auth_key ?s) [] wr" unfolding wr_def by (rule fresh_writer_at(1))
  note served = acknowledging_peer.write_all_served [OF ack at _ h0]
  have rows: "row_poly i (public_seed rd) (drop 32 (spec_G rd ?m)) = run_row rd w i" for i by (simp add: run_row_def)
  show ?thesis
  proof (cases "run_row rd w 0 = None \<or> run_row rd w 1 = None")
    case True
    have "fst (write_all write_ciphertext (wr, ?w2) (chunks_u u)) = C0PQLINK_OK" for u
      using served [of "chunks_u u"] by auto
    then have "encap_run (pure_reader rd) ?m write_ciphertext (wr, ?w2) (replicate 32 0) = None"
      using True by (intro encap_run_unsampled [OF rd(2)]) (auto simp: rows)
    from connect_ciphertext_unsampled [OF rd1 rng this] True run show ?thesis by simp
  next
    case False
    then obtain u0 u1 where u: "run_row rd w 0 = Some u0" "run_row rd w 1 = Some u1" by auto
    let ?ct = "concat (ciphertext_chunks rd ?m u0 u1)" and ?ss = "take 32 (spec_G rd ?m)"
    obtain wr1 w3 where wa: "write_all write_ciphertext (wr, ?w2) (ciphertext_chunks rd ?m u0 u1) = (C0PQLINK_OK, (wr1, w3))"
      and h3: "peer_holds ?s ?p (drop 32 (ln_entropy w1)) (full_blocks ?ct) w3"
      using served [of "ciphertext_chunks rd ?m u0 u1"] by auto
    have w3: "ln_peer w3 = put_session (holding ?s ?ct) ?p"
      using h3 full_blocks_exact [of ?ct 16] by (simp add: peer_holds_def)
    obtain wr' where ctx: "connect_ciphertext ?c1 wr ws w1 = Some (C0PQLINK_OK, ?ss, wr', w3)"
      and tr3: "sha_represents (transcript wr') ((transcript_hello ?c ?n @ challenge_core (session_of ?n) ?ch) @ ?ct)"
      using connect_ciphertext_run [OF rd1 rng rd(2) _ _ tr' wa [unfolded wr_def], of ws] u unfolding rows wr_def by blast
    let ?T = "(transcript_hello ?c ?n @ challenge_core (session_of ?n) ?ch) @ ?ct" and ?full = "holding ?s ?ct"
    let ?keys = "spec_session_keys (psk (config ?c1)) ?ss (spec_sha256 ?T)"
    have hf: "ps_session_id ?full = session_id ?c1" "ps_server_finished ?full = None" "list_all (\<lambda>b. b) (ps_received ?full)"
      "ps_ciphertext ?full = ?ct" "ps_device ?full = dev" "ps_send_sequence ?full = 0" "ps_receive_sequence ?full = 0"
      by (simp_all add: holding_def opened_session_def list_all_iff)
    have th: "session_transcript ?full = spec_sha256 ?T"
      by (simp add: session_transcript_def holding_def opened_session_def transcript_hello_def)
    have kd: "peer_decapsulate ?p (ps_ciphertext ?full) (peer_secret_key ?p) = Inr ?ss"
      using kem u by (simp add: kem_agrees_def hf)
    have ks: "spec_session_keys (dev_psk (ps_device ?full)) ?ss (spec_sha256 ?T) = ?keys" by (simp add: hf key)
    obtain w4 where x: "exchange_finished ?c1 ?keys (spec_sha256 ?T) w3 = (C0PQLINK_OK, w4)"
      and p4: "ln_peer w4 = put_session (finished_session ?full ?ss) ?p"
      by (rule finished_over_line [OF lc(2) w3 hf(1,3,2) kd th ks])
    have fin: "connect_finish ?c1 ?ss (transcript wr') w3 = (C0PQLINK_OK, install_keys ?keys ?c1, workspace_zero, w4)"
      by (rule connect_finish_run [OF wfc(2) tr3 _ x]) simp
    have "dev_mode (ps_device ?full) = Some (mode (config ?c1))" using prov by (simp add: hf provisioned_def)
    then have "linked (install_keys ?keys ?c1) (finished_session ?full ?ss)"
      using th ks by (intro linked_installed [OF wfc(2) _ hf(1,6,7)]) simp_all
    moreover have "send_sequence (install_keys ?keys ?c1) = 0" "receive_sequence (install_keys ?keys ?c1) = 0"
      by (simp_all add: install_keys_def Let_def)
    moreover have "ps_last_client_frame (finished_session ?full ?ss) = None"
      by (simp add: finished_session_def holding_def Let_def opened_session_def)
    moreover have "connect_run c ws w = Some (C0PQLINK_OK, install_keys ?keys ?c1, workspace_zero, w4)"
      unfolding run by (simp add: ctx fin)
    ultimately show ?thesis using False p4 by auto
  qed
qed

end
