(* ===== verification/PeerRecords.thy ===== *)
theory PeerRecords
  imports PeerLink
begin

text \<open>
  Records between the client and the reference peer: the peer's Ascon is the C code's, so what one
  side seals the other opens, and a record that arrives twice is answered twice and acted on once.
\<close>

unbundle bit_operations_syntax

section \<open>The peer's Ascon\<close>

lemma loadLE_drop: "offset \<le> length bs \<Longrightarrow> loadLE bs offset n = load_little_endian (drop offset bs) n"
  by (simp add: loadLE_def load_little_endian_def)

lemma storeLE_store: "storeLE v n = store_little_endian v n"
proof (induction n arbitrary: v)
  case 0
  then show ?case by (simp add: store_little_endian_def)
next
  case (Suc n)
  have ff: "(0xff :: u64) = mask 8" by (simp add: mask_eq_exp_minus_1)
  have "ucast (v AND 0xff) = (ucast v :: u8)" unfolding ff by (rule bit_eqI) (simp add: bit_simps)
  moreover have "[0..<Suc n] = 0 # map Suc [0..<n]" by (simp add: upt_conv_Cons map_Suc_upt del: upt_Suc)
  ultimately show ?case using Suc by (simp add: store_little_endian_def add.commute del: upt_Suc)
qed

lemma asconRound_eq: "asconRound s c = ascon_round c s"
  by (simp add: asconRound_def ascon_round_def Let_def rotateRight64_def rotate_right64_def)

lemma permute_eq: "permute s P12 = ascon_permute12 s" "permute s P8 = ascon_permute8 s"
  by (simp_all add: permute_def P12_def P8_def asconRound_eq ascon_permute12_def ascon_permute8_def Let_def upt_12 upt_8)

lemma initializeAscon_eq: "8 \<le> length key \<Longrightarrow> 8 \<le> length nonce \<Longrightarrow> initializeAscon key nonce = initialize key nonce"
  by (simp add: initializeAscon_def initialize_def permute_eq loadLE_drop)

lemma finalizeAscon_eq: "8 \<le> length key \<Longrightarrow> finalizeAscon s key = finalize_tag s key"
  by (simp add: finalizeAscon_def finalize_tag_def permute_eq loadLE_drop storeLE_store)

lemma absorb_loop_blocks:
  "offset \<le> length data \<Longrightarrow> absorb_loop s data offset = (s', off) \<Longrightarrow>
     absorb_full_blocks s (drop offset data) = (s', drop off data) \<and> off \<le> length data"
proof (induction s data offset rule: absorb_loop.induct)
  case (1 s data offset)
  show ?case
  proof (cases "offset + 16 \<le> length data")
    case True
    then have le: "16 \<le> length data - offset" by linarith
    have "absorb_full_blocks s (drop offset data) = absorb_full_blocks (ascon_permute8
        (s\<lparr>x0 := x0 s XOR load_little_endian (drop offset data) 8, x1 := x1 s XOR load_little_endian (drop (offset + 8) data) 8\<rparr>))
        (drop (offset + 16) data)"
      using le by (subst absorb_full_blocks.simps) (simp add: add.commute)
    with "1.IH" [OF True] "1.prems" True show ?thesis
      by (subst (asm) (2) absorb_loop.simps) (simp add: permute_eq loadLE_drop)
  next
    case False
    then have "s' = s" "off = offset" using "1.prems" by (simp_all add: absorb_loop.simps [of s data offset])
    moreover have "\<not> 16 \<le> length data - offset" using False "1.prems"(1) by linarith
    ultimately show ?thesis using "1.prems" by (simp add: absorb_full_blocks.simps [of s "drop offset data"])
  qed
qed

lemma absorbAssociatedData_eq: "absorbAssociatedData s data = absorb_associated_data s data"
proof -
  obtain s1 off where l: "absorb_loop s data 0 = (s1, off)" by fastforce
  from absorb_loop_blocks [OF _ l] have "absorb_full_blocks s data = (s1, drop off data)" "off \<le> length data" by simp_all
  then show ?thesis
    by (cases "8 \<le> length data - off")
      (auto simp: absorbAssociatedData_def absorb_associated_data_def l permute_eq loadLE_drop pad_def add.commute Let_def)
qed

lemma encrypt_loop_blocks:
  "offset \<le> length m \<Longrightarrow> encrypt_loop s m offset out = (s', out', off) \<Longrightarrow>
     \<exists>more. encrypt_blocks s (drop offset m) = (s', more, drop off m) \<and> out' = out @ more \<and> off \<le> length m"
proof (induction s m offset out rule: encrypt_loop.induct)
  case (1 s m offset out)
  let ?s1 = "s\<lparr>x0 := x0 s XOR loadLE m offset 8, x1 := x1 s XOR loadLE m (offset + 8) 8\<rparr>"
  show ?case
  proof (cases "offset + 16 \<le> length m")
    case True
    then have le: "16 \<le> length m - offset" by linarith
    have "encrypt_loop (permute ?s1 P8) m (offset + 16) (out @ storeLE (x0 ?s1) 8 @ storeLE (x1 ?s1) 8) = (s', out', off)"
      using "1.prems" True by (subst (asm) encrypt_loop.simps) (simp add: Let_def)
    from "1.IH" [OF True refl _ this] True obtain more where
      more: "encrypt_blocks (permute ?s1 P8) (drop (offset + 16) m) = (s', more, drop off m)"
        "out' = (out @ storeLE (x0 ?s1) 8 @ storeLE (x1 ?s1) 8) @ more" "off \<le> length m" by auto
    have "encrypt_blocks s (drop offset m) = (s', (storeLE (x0 ?s1) 8 @ storeLE (x1 ?s1) 8) @ more, drop off m)"
      using True le more(1) by (subst encrypt_blocks.simps) (simp add: Let_def loadLE_drop permute_eq storeLE_store add.commute)
    with more(2,3) show ?thesis by simp
  next
    case False
    then have "s' = s" "off = offset" "out' = out" using "1.prems" by (simp_all add: encrypt_loop.simps [of s m offset out])
    moreover have "\<not> 16 \<le> length m - offset" using False "1.prems"(1) by linarith
    ultimately show ?thesis using "1.prems" by (simp add: encrypt_blocks.simps [of s "drop offset m"])
  qed
qed

lemma decrypt_loop_blocks:
  "offset \<le> length m \<Longrightarrow> decrypt_loop s m offset out = (s', out', off) \<Longrightarrow>
     \<exists>more. decrypt_blocks s (drop offset m) = (s', more, drop off m) \<and> out' = out @ more \<and> off \<le> length m"
proof (induction s m offset out rule: decrypt_loop.induct)
  case (1 s m offset out)
  let ?c0 = "loadLE m offset 8" and ?c1 = "loadLE m (offset + 8) 8"
  show ?case
  proof (cases "offset + 16 \<le> length m")
    case True
    then have le: "16 \<le> length m - offset" by linarith
    have "decrypt_loop (permute (s\<lparr>x0 := ?c0, x1 := ?c1\<rparr>) P8) m (offset + 16)
        (out @ storeLE (x0 s XOR ?c0) 8 @ storeLE (x1 s XOR ?c1) 8) = (s', out', off)"
      using "1.prems" True by (subst (asm) decrypt_loop.simps) (simp add: Let_def)
    from "1.IH" [OF True refl refl _ this] True obtain more where
      more: "decrypt_blocks (permute (s\<lparr>x0 := ?c0, x1 := ?c1\<rparr>) P8) (drop (offset + 16) m) = (s', more, drop off m)"
        "out' = (out @ storeLE (x0 s XOR ?c0) 8 @ storeLE (x1 s XOR ?c1) 8) @ more" "off \<le> length m" by auto
    have "decrypt_blocks s (drop offset m) = (s', (storeLE (x0 s XOR ?c0) 8 @ storeLE (x1 s XOR ?c1) 8) @ more, drop off m)"
      using True le more(1) by (subst decrypt_blocks.simps) (simp add: Let_def loadLE_drop permute_eq storeLE_store add.commute)
    with more(2,3) show ?thesis by simp
  next
    case False
    then have "s' = s" "off = offset" "out' = out" using "1.prems" by (simp_all add: decrypt_loop.simps [of s m offset out])
    moreover have "\<not> 16 \<le> length m - offset" using False "1.prems"(1) by linarith
    ultimately show ?thesis using "1.prems" by (simp add: decrypt_blocks.simps [of s "drop offset m"])
  qed
qed

lemma asconEncrypt_eq:
  assumes "length key = 16" and "length nonce = 16"
  shows "asconEncrypt key nonce ad p = c0_ascon_aead128_encrypt key nonce ad p"
proof -
  let ?s = "absorb_associated_data (initialize key nonce) ad"
  obtain s1 out off where l: "encrypt_loop ?s p 0 [] = (s1, out, off)" by (metis prod_cases3)
  from encrypt_loop_blocks [OF _ l] have b: "encrypt_blocks ?s p = (s1, out, drop off p)" "off \<le> length p" by auto
  show ?thesis
    using assms b
    by (cases "8 \<le> length p - off") (auto simp: asconEncrypt_def c0_ascon_aead128_encrypt_def initializeAscon_eq absorbAssociatedData_eq l finalizeAscon_eq
        encrypt_tail_def Let_def loadLE_drop storeLE_store pad_def add.commute)
qed

lemma asconDecrypt_eq:
  assumes "length key = 16" and "length nonce = 16" and "length tag = 16"
  shows "asconDecrypt key nonce ad c tag = Some p \<longleftrightarrow> c0_ascon_aead128_decrypt key nonce ad c tag = (C0PQLINK_OK, p)"
proof -
  let ?s = "absorb_associated_data (initialize key nonce) ad"
  obtain s1 out off where l: "decrypt_loop ?s c 0 [] = (s1, out, off)" by (metis prod_cases3)
  from decrypt_loop_blocks [OF _ l] have b: "decrypt_blocks ?s c = (s1, out, drop off c)" "off \<le> length c" by auto
  have ft: "length (finalize_tag s key) = 16" for s by simp
  show ?thesis
    using assms b
    by (cases "8 \<le> length c - off") (auto simp: asconDecrypt_def c0_ascon_aead128_decrypt_def initializeAscon_eq absorbAssociatedData_eq l finalizeAscon_eq
        decrypt_tail_def Let_def loadLE_drop storeLE_store pad_def add.commute clearLowBytes_def clear_low_bytes_def ft)
qed

section \<open>Record frames\<close>

lemma ratchetStep_eq: "length k = 32 \<Longrightarrow> ratchetStep k = c0pq_ratchet_step k"
  by (simp add: ratchetStep_def c0pq_ratchet_step_def Let_def hmac_parts_def c0_hmac_sha256_spec)

lemma recordNonce_eq: "length base = 16 \<Longrightarrow> recordNonce base s = c0pq_make_record_nonce base s"
  by (simp add: recordNonce_def record_nonce_spec)

lemma length_record_nonce: "length base = 16 \<Longrightarrow> length (c0pq_make_record_nonce base s) = 16"
  by (simp add: record_nonce_spec)

lemma ratchet_lengths [simp]: "length (fst (c0pq_ratchet_step k)) = 16" "length (snd (c0pq_ratchet_step k)) = 32"
  by (simp_all add: c0pq_ratchet_step_def Let_def)

lemma record_frame_parts:
  assumes "length p \<le> 48"
  obtains ct tag where "c0_ascon_aead128_encrypt key (c0pq_make_record_nonce nb sq) (record_header fl sid sq (length p)) p = (ct, tag)"
    and "record_frame fl sid sq key nb p = record_header fl sid sq (length p) @ ct @ tag"
    and "length ct = length p" and "length tag = 16"
    and "decodeHeader (record_frame fl sid sq key nb p)
      = Inr \<lparr>jh_type = C0PQ_FRAME_DATA, jh_flags = fl, jh_payload_length = length p + 24, jh_session_id = sid\<rparr>"
proof -
  let ?n = "of_nat (length p + 24) :: u8"
  obtain ct tag where e: "c0_ascon_aead128_encrypt key (c0pq_make_record_nonce nb sq) (record_header fl sid sq (length p)) p = (ct, tag)"
    by fastforce
  then have f: "record_frame fl sid sq key nb p = record_header fl sid sq (length p) @ ct @ tag" by (simp add: record_frame_def)
  have l: "length ct = length p" "length tag = 16" using ascon.length_encrypt e by auto
  have n: "unat ?n = length p + 24" using assms by (intro unat_of_nat_u8) simp
  have "decodeHeader (record_frame fl sid sq key nb p)
      = Inr \<lparr>jh_type = C0PQ_FRAME_DATA, jh_flags = fl, jh_payload_length = unat ?n, jh_session_id = sid\<rparr>"
    by (rule decodeHeader_frame [of _ _ _ ?n _ "be_bytes 8 sq @ ct @ tag"]) (simp_all add: f record_header_def l n del: of_nat_add)
  with that e f l n show ?thesis by simp
qed

text \<open>The keys of the next record from the device, and of the next one to it.\<close>

definition device_key :: "peer_session \<Rightarrow> bytes" where
  "device_key s = (if dev_mode (ps_device s) = Some 1 then fst (c0pq_ratchet_step (client_chain_key (the (ps_keys s))))
     else client_traffic_key (the (ps_keys s)))"

definition server_key :: "peer_session \<Rightarrow> bytes" where
  "server_key s = (if dev_mode (ps_device s) = Some 1 then fst (c0pq_ratchet_step (server_chain_key (the (ps_keys s))))
     else server_traffic_key (the (ps_keys s)))"

definition after_open :: "peer_session \<Rightarrow> peer_session" where
  "after_open s = (let keys = the (ps_keys s)
     in s\<lparr>ps_keys := Some (if dev_mode (ps_device s) = Some 1
            then keys\<lparr>client_chain_key := snd (c0pq_ratchet_step (client_chain_key keys))\<rparr> else keys),
          ps_receive_sequence := ps_receive_sequence s + 1\<rparr>)"

definition after_seal :: "peer_session \<Rightarrow> peer_session" where
  "after_seal s = (let keys = the (ps_keys s)
     in s\<lparr>ps_keys := Some (if dev_mode (ps_device s) = Some 1
            then keys\<lparr>server_chain_key := snd (c0pq_ratchet_step (server_chain_key keys))\<rparr> else keys),
          ps_send_sequence := ps_send_sequence s + 1\<rparr>)"

definition established_keys :: "peer_session \<Rightarrow> bool" where
  "established_keys s \<longleftrightarrow> ps_established s \<and> (\<exists>keys. ps_keys s = Some keys \<and> session_keys_wf keys)"

lemma openRecord_opens:
  assumes ek: "established_keys s" and len: "length p \<le> 48" and sq: "ps_receive_sequence s = unat sq"
    and f_def: "f = record_frame 0 sid sq (device_key s) (client_nonce_base (the (ps_keys s))) p"
  shows "openRecord s f \<lparr>jh_type = C0PQ_FRAME_DATA, jh_flags = 0, jh_payload_length = length p + 24, jh_session_id = sid\<rparr>
    = (Inr p, after_open s)"
proof -
  obtain keys where k: "ps_keys s = Some keys" "session_keys_wf keys" and e: "ps_established s"
    using ek by (auto simp: established_keys_def)
  let ?nb = "client_nonce_base keys" and ?key = "device_key s"
  have lk: "length (client_chain_key keys) = 32" "length (client_traffic_key keys) = 16" "length ?nb = 16"
    using k(2) by (simp_all add: session_keys_wf_def)
  have lkey: "length ?key = 16" using lk k by (simp add: device_key_def)
  obtain ct tag where enc: "c0_ascon_aead128_encrypt ?key (c0pq_make_record_nonce ?nb sq) (record_header 0 sid sq (length p)) p = (ct, tag)"
    and f: "f = record_header 0 sid sq (length p) @ ct @ tag" and l: "length ct = length p" "length tag = 16"
    by (rule record_frame_parts [OF len, of ?key ?nb sq 0 sid]) (simp add: f_def k)
  have ln: "length (c0pq_make_record_nonce ?nb sq) = 16" using lk(3) by (rule length_record_nonce)
  have dec: "asconDecrypt ?key (c0pq_make_record_nonce ?nb sq) (record_header 0 sid sq (length p)) ct tag = Some p"
    using asconDecrypt_eq [OF lkey ln l(2)] ascon.decrypt_encrypt [OF enc] by simp
  have sl: "be_word (slice f 10 8) = sq" "take 18 f = record_header 0 sid sq (length p)" "slice f 18 (length p) = ct"
    "drop (18 + length p) f = tag"
    by (simp_all add: f record_header_def slice_def l be_word_be_bytes)
  have mk: "(if dev_mode (ps_device s) = Some 1 then ratchetStep (client_chain_key keys) else (client_traffic_key keys, []))
      = (?key, if dev_mode (ps_device s) = Some 1 then snd (c0pq_ratchet_step (client_chain_key keys)) else [])"
    by (simp add: device_key_def k ratchetStep_eq lk)
  show ?thesis
    using e sq len k
    by (simp add: openRecord_def sl mk dec recordNonce_eq lk after_open_def Let_def)
qed

lemma sealRecord_seals:
  assumes ek: "established_keys s" and len: "length p \<le> 48" and sq: "ps_send_sequence s = unat sq"
  shows "sealRecord s p =
    (Inr (record_frame 1 (ps_session_id s) sq (server_key s) (server_nonce_base (the (ps_keys s))) p), after_seal s)"
proof -
  obtain keys where k: "ps_keys s = Some keys" "session_keys_wf keys"
    using ek by (auto simp: established_keys_def)
  let ?nb = "server_nonce_base keys" and ?key = "server_key s" and ?sid = "ps_session_id s"
  have lk: "length (server_chain_key keys) = 32" "length (server_traffic_key keys) = 16" "length ?nb = 16"
    using k(2) by (simp_all add: session_keys_wf_def)
  have lkey: "length ?key = 16" using lk k by (simp add: server_key_def)
  obtain ct tag where enc: "c0_ascon_aead128_encrypt ?key (c0pq_make_record_nonce ?nb sq) (record_header 1 ?sid sq (length p)) p = (ct, tag)"
    and f: "record_frame 1 ?sid sq ?key ?nb p = record_header 1 ?sid sq (length p) @ ct @ tag"
    using record_frame_parts [OF len, of ?key ?nb sq 1 ?sid] by metis
  have ln: "length (c0pq_make_record_nonce ?nb sq) = 16" using lk(3) by (rule length_record_nonce)
  have mk: "(if dev_mode (ps_device s) = Some 1 then ratchetStep (server_chain_key keys) else (server_traffic_key keys, []))
      = (?key, if dev_mode (ps_device s) = Some 1 then snd (c0pq_ratchet_step (server_chain_key keys)) else [])"
    by (simp add: server_key_def k ratchetStep_eq lk)
  have hd: "concat [projr (encodeHeader C0PQ_FRAME_DATA 1 (8 + length p + 16) ?sid), be_bytes 8 sq] = record_header 1 ?sid sq (length p)"
    using len by (simp add: encodeHeader_bytes record_header_def add.commute add.left_commute)
  have "unat sq < 2 ^ 64" using unsigned_less [where ?'a = nat and ?'b = 64, of sq] by simp
  then show ?thesis
    using len k sq
    by (simp add: sealRecord_def mk hd [simplified] asconEncrypt_eq [OF lkey ln] recordNonce_eq lk enc f after_seal_def Let_def)
qed

section \<open>The exchange\<close>

lemma linked_keys:
  assumes "linked d s"
  shows "established_keys s" and "device_key s = fst (select_send_key d)" and "server_key s = fst (select_receive_key d)"
    and "client_nonce_base (the (ps_keys s)) = send_nonce_base d" and "server_nonce_base (the (ps_keys s)) = receive_nonce_base d"
    and "ps_session_id s = session_id d" and "client_state d = C0PQ_CLIENT_ESTABLISHED"
    and "ps_receive_sequence s = unat (send_sequence d)" and "ps_send_sequence s = unat (receive_sequence d)"
  using assms
  by (auto simp: linked_def established_keys_def device_key_def server_key_def select_send_key_def select_receive_key_def)

lemma unat_next: "(x :: u64) \<noteq> -1 \<Longrightarrow> unat (x + 1) = unat x + 1"
  by (metis unatSuc add.commute add_eq_0_iff Suc_eq_plus1)

text \<open>A record in one direction keeps the two sides in step.\<close>

lemma linked_open:
  assumes l: "linked d s" and "send_sequence d \<noteq> -1"
  shows "linked (advance_send d) (after_open s)"
proof -
  obtain keys where k: "ps_keys s = Some keys" using l by (auto simp: linked_def)
  show ?thesis
    using l assms(2) k
    by (auto simp: linked_def advance_send_def after_open_def Let_def unat_next session_keys_wf_def client_wf_def split: if_split_asm)
qed

lemma linked_seal:
  assumes l: "linked d s" and "receive_sequence d \<noteq> -1"
  shows "linked (advance_receive d) (after_seal s)"
proof -
  obtain keys where k: "ps_keys s = Some keys" using l by (auto simp: linked_def)
  show ?thesis
    using l assms(2) k
    by (auto simp: linked_def advance_receive_def after_seal_def Let_def unat_next session_keys_wf_def client_wf_def split: if_split_asm)
qed

lemma linked_remember:
  "linked d (s\<lparr>ps_last_client_frame := f, ps_last_response := r\<rparr>) = linked d s"
  by (simp add: linked_def)

text \<open>The record the peer remembers is not the device's next one.\<close>

definition remembers_earlier :: "'w c0pq_client \<Rightarrow> peer_session \<Rightarrow> bool" where
  "remembers_earlier d s \<longleftrightarrow> (\<forall>f. ps_last_client_frame s = Some f \<longrightarrow> slice f 10 8 \<noteq> be_bytes 8 (send_sequence d))"

lemma sent_frame_sequence: "length m \<le> 48 \<Longrightarrow> slice (sent_frame d m) 10 8 = be_bytes 8 (send_sequence d)"
  by (simp add: sent_frame_def record_frame_def Let_def case_prod_unfold record_header_def slice_def)

lemma handle_data:
  assumes l: "linked d s" and r: "remembers_earlier d s" and p: "peer_sessions p (session_id d) = Some s"
    and m: "length m \<le> 48" "length reply \<le> 48"
    and app: "peer_on_plaintext p m (after_open s) (peer_env p) = (Some reply, env)"
  defines "s' \<equiv> (after_seal (after_open s))\<lparr>ps_last_client_frame := Some (sent_frame d m),
      ps_last_response := Some (expected_frame d reply)\<rparr>"
  shows "answers (sent_frame d m) (expected_frame d reply) p (put_session s' (p\<lparr>peer_env := env\<rparr>))"
proof -
  note lk = linked_keys [OF l]
  have f: "sent_frame d m = record_frame 0 (session_id d) (send_sequence d) (device_key s) (client_nonce_base (the (ps_keys s))) m"
    by (simp add: sent_frame_def lk)
  have hd: "decodeHeader (sent_frame d m) = Inr \<lparr>jh_type = C0PQ_FRAME_DATA, jh_flags = 0, jh_payload_length = length m + 24, jh_session_id = session_id d\<rparr>"
    by (rule record_frame_parts [OF m(1), of "device_key s" "client_nonce_base (the (ps_keys s))" "send_sequence d" 0 "session_id d"]) (simp add: f)
  have o: "openRecord s (sent_frame d m) \<lparr>jh_type = C0PQ_FRAME_DATA, jh_flags = 0, jh_payload_length = length m + 24, jh_session_id = session_id d\<rparr>
      = (Inr m, after_open s)" by (rule openRecord_opens [OF lk(1) m(1) lk(8) f])
  have ek: "established_keys (after_open s)"
    using lk(1) by (auto simp: established_keys_def after_open_def Let_def session_keys_wf_def)
  have sk: "server_key (after_open s) = server_key s" by (simp add: server_key_def after_open_def Let_def)
  have same: "ps_session_id (after_open s) = session_id d"
    "server_nonce_base (the (ps_keys (after_open s))) = receive_nonce_base d" "ps_send_sequence (after_open s) = unat (receive_sequence d)"
    using lk by (simp_all add: after_open_def Let_def)
  have sl: "sealRecord (after_open s) reply = (Inr (expected_frame d reply), after_seal (after_open s))"
    using sealRecord_seals [OF ek m(2) same(3)] by (simp add: same sk expected_frame_def lk)
  have new: "ps_last_client_frame s \<noteq> Some (sent_frame d m)"
    using r sent_frame_sequence [OF m(1), of d] by (auto simp: remembers_earlier_def)
  have sid: "ps_session_id s' = session_id d" by (simp add: s'_def after_seal_def Let_def same)
  have "handleFrame (sent_frame d m) p = (Inr (Some (expected_frame d reply)), put_session s' (p\<lparr>peer_env := env\<rparr>))"
    using p new app by (cases "ps_last_client_frame s") (simp_all add: handleFrame_def hd handleData_def o sl s'_def)
  moreover have "ps_last_client_frame s' = Some (sent_frame d m)" "ps_last_response s' = Some (expected_frame d reply)"
    by (simp_all add: s'_def)
  then have "handleFrame (sent_frame d m) (put_session s' (p\<lparr>peer_env := env\<rparr>))
      = (Inr (Some (expected_frame d reply)), put_session s' (p\<lparr>peer_env := env\<rparr>))"
    by (simp add: handleFrame_def hd handleData_def sid)
  ultimately show ?thesis by (simp add: answers_def)
qed

lemma lookupDevice_ok:
  assumes "lookupDevice p d = Inr (Some dev)"
  shows "length (dev_psk dev) = 32" and "\<exists>i<32. dev_psk dev ! i \<noteq> 0" and "dev_mode dev = Some 0 \<or> dev_mode dev = Some 1"
  using assms
  by (auto simp: lookupDevice_def Let_def list_all_length split: option.split_asm if_split_asm)

section \<open>Connecting, then exchanging a record\<close>

lemma connect_with_peer:
  fixes w :: "'r line"
  assumes "client_wf c" and "client_state c = C0PQ_CLIENT_READY" and "on_line fate c" and "provisioned c (ln_peer w) dev"
    and "read_public_key (config c) = Some (pure_reader rd)" and "canonical_key rd" and "48 \<le> length (ln_entropy w)"
    and "peer_random (ln_peer w) (peer_env (ln_peer w)) 16 = (sn, env)" and "length sn = 16"
    and "peer_sessions (ln_peer w) (session_of (run_nonce w)) = None" and "kem_agrees (ln_peer w) rd w"
  shows "run_row rd w 0 = None \<or> run_row rd w 1 = None \<Longrightarrow> c0pq_client_connect (Some c) (Some ws) w = None"
    and "\<not> (run_row rd w 0 = None \<or> run_row rd w 1 = None) \<Longrightarrow>
      \<exists>d w' s. c0pq_client_connect (Some c) (Some ws) w = Some (C0PQLINK_OK, Some d, Some workspace_zero, w') \<and>
        ln_peer w' = put_session s ((ln_peer w)\<lparr>peer_env := env\<rparr>) \<and> linked d s \<and> remembers_earlier d s \<and>
        send_sequence d = 0 \<and> receive_sequence d = 0"
proof -
  note link = connect_over_line [OF assms(1,3-11), of ws]
  have run: "c0pq_client_connect (Some c) (Some ws) w = map_option (\<lambda>(r, c', ws', w'). (r, Some c', Some ws', w')) (connect_run c ws w)"
    by (simp add: c0pq_client_connect_def assms(2))
  {
    assume none: "run_row rd w 0 = None \<or> run_row rd w 1 = None"
    with link have "connect_run c ws w = None" by (simp only: if_True)
    then show "c0pq_client_connect (Some c) (Some ws) w = None" unfolding run by (simp only: option.map)
  next
    assume some: "\<not> (run_row rd w 0 = None \<or> run_row rd w 1 = None)"
    from link [unfolded if_not_P [OF some]] obtain d w' s
      where "connect_run c ws w = Some (C0PQLINK_OK, d, workspace_zero, w')" "ln_peer w' = put_session s ((ln_peer w)\<lparr>peer_env := env\<rparr>)"
        "linked d s" "send_sequence d = 0" "receive_sequence d = 0" "ps_last_client_frame s = None"
      by blast
    then show "\<exists>d w' s. c0pq_client_connect (Some c) (Some ws) w = Some (C0PQLINK_OK, Some d, Some workspace_zero, w') \<and>
        ln_peer w' = put_session s ((ln_peer w)\<lparr>peer_env := env\<rparr>) \<and> linked d s \<and> remembers_earlier d s \<and>
        send_sequence d = 0 \<and> receive_sequence d = 0"
      unfolding run by (simp add: exI [of _ s] remembers_earlier_def)
  }
qed

lemma exchange_with_peer:
  assumes "linked d s" and "remembers_earlier d s" and "peer_sessions p (session_id d) = Some s"
    and "length m \<le> 48" and "length reply \<le> 48" and "send_sequence d \<noteq> -1" and "receive_sequence d \<noteq> -1"
    and "peer_on_plaintext p m (after_open s) (peer_env p) = (Some reply, env)"
    and "34 + length m \<le> cap" and "cap \<le> length buf" and "length reply \<le> cap'"
  shows "\<exists>d1 d2 F R p' s'.
    c0pq_client_seal_record (Some d) (Some m) (length m) (Some buf) cap (Some 0)
      = (C0PQLINK_OK, Some d1, Some (F @ drop (34 + length m) buf), Some (length F)) \<and>
    handleFrame F p = (Inr (Some R), p') \<and> handleFrame F p' = (Inr (Some R), p') \<and> peer_env p' = env \<and>
    c0pq_client_open_record (Some d1) (Some R) (length R) (Some pt) cap' (Some 0)
      = (C0PQLINK_OK, Some d2, Some (memcpy pt 0 reply), Some (length reply)) \<and>
    peer_sessions p' (session_id d2) = Some s' \<and> linked d2 s' \<and> remembers_earlier d2 s' \<and>
    send_sequence d2 = send_sequence d + 1 \<and> receive_sequence d2 = receive_sequence d + 1 \<and> peer_on_plaintext p' = peer_on_plaintext p"
proof -
  let ?d1 = "advance_send d" and ?s' = "(after_seal (after_open s))\<lparr>ps_last_client_frame := Some (sent_frame d m),
      ps_last_response := Some (expected_frame d reply)\<rparr>"
  let ?p' = "put_session ?s' (p\<lparr>peer_env := env\<rparr>)"
  note lk = linked_keys [OF assms(1)]
  have est: "client_state ?d1 = C0PQ_CLIENT_ESTABLISHED" and rs: "receive_sequence ?d1 = receive_sequence d"
    and same: "expected_frame ?d1 reply = expected_frame d reply"
    using lk(7) by (simp_all add: advance_send_def expected_frame_def select_receive_key_def)
  have ans: "answers (sent_frame d m) (expected_frame d reply) p ?p'" by (rule handle_data [OF assms(1-5,8)])
  have ln: "linked (advance_receive ?d1) ?s'"
    unfolding linked_remember using linked_seal [OF linked_open [OF assms(1,6)]] assms(7) rs by simp
  have re: "remembers_earlier (advance_receive ?d1) ?s'"
    using sent_frame_sequence [OF assms(4), of d]
    by (simp add: remembers_earlier_def advance_receive_def advance_send_def be_bytes_inject)
  have "ps_session_id ?s' = session_id (advance_receive ?d1)" using linked_keys(6) [OF ln] .
  then have look: "peer_sessions ?p' (session_id (advance_receive ?d1)) = Some ?s'" by (rule put_session_lookup)
  have env: "peer_env ?p' = env" by (simp add: put_session_def)
  have sealed: "c0pq_client_seal_record (Some d) (Some m) (length m) (Some buf) cap (Some 0)
      = (C0PQLINK_OK, Some ?d1, Some (sent_frame d m @ drop (34 + length m) buf), Some (length (sent_frame d m)))"
    unfolding length_sent_frame by (rule seal_record_ok [OF lk(7) assms(4,9,10,6)])
  have opened: "c0pq_client_open_record (Some ?d1) (Some (expected_frame d reply)) (length (expected_frame d reply)) (Some pt) cap' (Some 0)
      = (C0PQLINK_OK, Some (advance_receive ?d1), Some (memcpy pt 0 reply), Some (length reply))"
    unfolding length_expected_frame by (rule open_expected [OF est assms(5,11), unfolded same])
  have step: "send_sequence (advance_receive ?d1) = send_sequence d + 1" "receive_sequence (advance_receive ?d1) = receive_sequence d + 1"
    "peer_on_plaintext ?p' = peer_on_plaintext p"
    by (simp_all add: advance_receive_def advance_send_def put_session_def)
  show ?thesis
    by (intro exI conjI)
      (rule sealed ans [unfolded answers_def, THEN conjunct1] ans [unfolded answers_def, THEN conjunct2] env opened look ln re step)+
qed

text \<open>A client and a peer that are ready for the client's next record, and what one record does.\<close>

definition in_step :: "'w c0pq_client \<Rightarrow> 'r c0pq_peer \<Rightarrow> bool" where
  "in_step d p \<longleftrightarrow> (\<exists>s. peer_sessions p (session_id d) = Some s \<and> linked d s \<and> remembers_earlier d s)"

lemma in_step_established: "in_step d p \<Longrightarrow> client_state d = C0PQ_CLIENT_ESTABLISHED"
  by (auto simp: in_step_def linked_def)

lemma exchange_in_step:
  assumes "in_step d p" and "length m \<le> 48" and "length (reply m) \<le> 48" and "send_sequence d \<noteq> -1" and "receive_sequence d \<noteq> -1"
    and app: "\<And>s e. \<exists>e'. peer_on_plaintext p m s e = (Some (reply m), e')"
    and "34 + length m \<le> cap" and "cap \<le> length buf" and "length (reply m) \<le> cap'"
  obtains d1 d2 F R p'
  where "c0pq_client_seal_record (Some d) (Some m) (length m) (Some buf) cap (Some 0)
      = (C0PQLINK_OK, Some d1, Some (F @ drop (34 + length m) buf), Some (length F))"
    and "on_message F p = (Some R, p')"
    and "c0pq_client_open_record (Some d1) (Some R) (length R) (Some pt) cap' (Some 0)
      = (C0PQLINK_OK, Some d2, Some (memcpy pt 0 (reply m)), Some (length (reply m)))"
    and "in_step d2 p'" and "send_sequence d2 = send_sequence d + 1" and "receive_sequence d2 = receive_sequence d + 1"
    and "peer_on_plaintext p' = peer_on_plaintext p"
proof -
  obtain s where s: "peer_sessions p (session_id d) = Some s" "linked d s" "remembers_earlier d s"
    using assms(1) by (auto simp: in_step_def)
  obtain env where env: "peer_on_plaintext p m (after_open s) (peer_env p) = (Some (reply m), env)" using app by blast
  from exchange_with_peer [OF s(2,3,1) assms(2,3,4,5) env assms(7,8,9), of pt] obtain d1 d2 F R p' s'
    where c: "c0pq_client_seal_record (Some d) (Some m) (length m) (Some buf) cap (Some 0)
        = (C0PQLINK_OK, Some d1, Some (F @ drop (34 + length m) buf), Some (length F))"
      and h: "handleFrame F p = (Inr (Some R), p')"
      and o: "c0pq_client_open_record (Some d1) (Some R) (length R) (Some pt) cap' (Some 0)
        = (C0PQLINK_OK, Some d2, Some (memcpy pt 0 (reply m)), Some (length (reply m)))"
      and i: "peer_sessions p' (session_id d2) = Some s'" "linked d2 s'" "remembers_earlier d2 s'"
      and q: "send_sequence d2 = send_sequence d + 1" "receive_sequence d2 = receive_sequence d + 1" "peer_on_plaintext p' = peer_on_plaintext p"
    by blast
  have m: "on_message F p = (Some R, p')" by (simp add: on_message_def h)
  have "in_step d2 p'" using i by (auto simp: in_step_def)
  from that [OF c m o this q] show ?thesis .
qed

lemma connect_in_step:
  fixes w :: "'r line"
  assumes "client_wf c" and "client_state c = C0PQ_CLIENT_READY" and "on_line fate c" and "provisioned c (ln_peer w) dev"
    and "read_public_key (config c) = Some (pure_reader rd)" and "canonical_key rd" and "48 \<le> length (ln_entropy w)"
    and "peer_random (ln_peer w) (peer_env (ln_peer w)) 16 = (sn, env)" and "length sn = 16"
    and "peer_sessions (ln_peer w) (session_of (run_nonce w)) = None" and "kem_agrees (ln_peer w) rd w"
    and "\<not> (run_row rd w 0 = None \<or> run_row rd w 1 = None)"
  obtains d w' where "c0pq_client_connect (Some c) (Some ws) w = Some (C0PQLINK_OK, Some d, Some workspace_zero, w')"
    and "in_step d (ln_peer w')" and "send_sequence d = 0" and "receive_sequence d = 0"
    and "peer_on_plaintext (ln_peer w') = peer_on_plaintext (ln_peer w)"
proof -
  from connect_with_peer(2) [OF assms] obtain d w' s
    where c: "c0pq_client_connect (Some c) (Some ws) w = Some (C0PQLINK_OK, Some d, Some workspace_zero, w')"
      and p: "ln_peer w' = put_session s ((ln_peer w)\<lparr>peer_env := env\<rparr>)" and l: "linked d s" "remembers_earlier d s"
      and q: "send_sequence d = 0" "receive_sequence d = 0" by blast
  have "peer_sessions (ln_peer w') (session_id d) = Some s" unfolding p by (rule put_session_lookup [OF linked_keys(6) [OF l(1)]])
  then have "in_step d (ln_peer w')" using l by (auto simp: in_step_def)
  moreover have "peer_on_plaintext (ln_peer w') = peer_on_plaintext (ln_peer w)" by (simp add: p put_session_def)
  ultimately show ?thesis by (rule that [OF c _ q])
qed

section \<open>Provisioned parties\<close>

text \<open>A device and a peer that were provisioned together, on a line that loses every other attempt.\<close>

definition demo_rd :: key_source where "demo_rd = (\<lambda>_. 0)"

definition demo_config :: "unit line c0pq_client_config" where
  "demo_config = \<lparr>device_id = replicate 8 1, psk = replicate 32 2, cfg_epoch = 3, public_key_id = replicate 16 4,
     read_public_key = Some (pure_reader demo_rd), random_bytes = Some line_random,
     send_frame = Some (line_send (\<lambda>t. if even t then Lost_answer else Delivered)), receive_frame = Some line_receive,
     mode = C0PQ_PQ_BOOTSTRAP_RATCHET, timeout_ms = 10, maximum_retries = 1\<rparr>"

definition demo_client :: "unit line c0pq_client" where
  "demo_client = client_zero\<lparr>config := demo_config, client_state := C0PQ_CLIENT_READY\<rparr>"

definition demo_device :: peer_device where
  "demo_device = \<lparr>dev_psk = replicate 32 2, dev_mode = Some 1\<rparr>"

definition demo_peer :: "unit c0pq_peer" where
  "demo_peer = \<lparr>peer_secret_key = replicate 1632 0, peer_epoch = 3, peer_key_id = replicate 16 4,
     peer_devices = [replicate 8 1 \<mapsto> demo_device],
     peer_decapsulate = (\<lambda>ct sk. Inr (take 32 (spec_G demo_rd (replicate 32 5)))),
     peer_random = (\<lambda>env n. (replicate n 6, env)), peer_on_plaintext = (\<lambda>m s env. (Some m, env)),
     peer_sessions = Map.empty, peer_env = ()\<rparr>"

definition demo_line :: "unit line" where
  "demo_line = \<lparr>ln_peer = demo_peer, ln_box = None, ln_time = 0, ln_entropy = replicate 48 5\<rparr>"

lemma canonical_zero: "canonical_key demo_rd"
proof -
  have z: "horner_sum of_bool (2 :: nat) (map (\<lambda>i. False) xs) = 0" for xs :: "nat list" by (induction xs) simp_all
  show ?thesis by (simp add: canonical_key_def spec_decode12_def demo_rd_def key_bytes_def z)
qed

lemma demo_lookup: "lookupDevice demo_peer (replicate 8 1) = Inr (Some demo_device)"
  by (simp add: lookupDevice_def demo_peer_def demo_device_def Let_def list_all_iff)

lemma demo_parties:
  "client_wf demo_client" "client_state demo_client = C0PQ_CLIENT_READY"
  "on_line (\<lambda>t. if even t then Lost_answer else Delivered) demo_client"
  "provisioned demo_client (ln_peer demo_line) demo_device" "read_public_key (config demo_client) = Some (pure_reader demo_rd)"
  "48 \<le> length (ln_entropy demo_line)"
  "peer_random (ln_peer demo_line) (peer_env (ln_peer demo_line)) 16 = (replicate 16 6, ())" "length (replicate 16 (6 :: u8)) = 16"
  "peer_sessions (ln_peer demo_line) (session_of (run_nonce demo_line)) = None"
  "kem_agrees (ln_peer demo_line) demo_rd demo_line"
proof -
  have "\<exists>j\<le>Suc 0. (if even (t + j) then Lost_answer else Delivered) = Delivered" for t :: nat
    by (cases "even t") (auto intro: exI [of _ "Suc 0"] exI [of _ 0])
  then show "on_line (\<lambda>t. if even t then Lost_answer else Delivered) demo_client"
    by (simp add: on_line_def demo_client_def demo_config_def)
  show "provisioned demo_client (ln_peer demo_line) demo_device"
    using demo_lookup
    by (simp add: provisioned_def demo_client_def demo_config_def demo_line_def)
      (simp add: demo_device_def demo_peer_def)
  show "kem_agrees (ln_peer demo_line) demo_rd demo_line"
    by (simp add: kem_agrees_def demo_line_def demo_peer_def run_coins_def)
qed (simp_all add: demo_client_def demo_config_def client_zero_def client_wf_def demo_line_def demo_peer_def)

section \<open>Properties\<close>

text \<open>C10: the client connects to the reference peer. Over a line that may lose any request and any
  answer, as long as no more attempts in a row are lost than the client retries, with a peer
  provisioned for the device, a decapsulation that undoes the encapsulation, a canonical public key
  that the client's reader stands for, a random source with 48 bytes left and a session identifier
  that the peer does not hold yet, \<open>connect\<close> returns
  exactly when the rejection sampling of the public matrix ends, and then with success; the
  session the peer holds under the client's session identifier is established and has the same
  keys, chain keys, nonce bases and sequence numbers, so the handshake is live and both ends agree.\<close>

theorem reference_peer_connects:
  fixes w :: "'r line"
  assumes "client_wf c" and "client_state c = C0PQ_CLIENT_READY" and "on_line fate c" and "provisioned c (ln_peer w) dev"
    and "read_public_key (config c) = Some (pure_reader rd)" and "canonical_key rd" and "48 \<le> length (ln_entropy w)"
    and "peer_random (ln_peer w) (peer_env (ln_peer w)) 16 = (sn, env)" and "length sn = 16"
    and "peer_sessions (ln_peer w) (session_of (run_nonce w)) = None" and "kem_agrees (ln_peer w) rd w"
  shows "if run_row rd w 0 = None \<or> run_row rd w 1 = None then c0pq_client_connect (Some c) (Some ws) w = None
    else \<exists>d w' s. c0pq_client_connect (Some c) (Some ws) w = Some (C0PQLINK_OK, Some d, Some workspace_zero, w') \<and>
      peer_sessions (ln_peer w') (session_id d) = Some s \<and> linked d s \<and> remembers_earlier d s"
proof (cases "run_row rd w 0 = None \<or> run_row rd w 1 = None")
  case True
  then show ?thesis unfolding if_P [OF True] by (rule connect_with_peer(1) [OF assms])
next
  case False
  from connect_with_peer(2) [OF assms this] obtain d w' s
    where c: "c0pq_client_connect (Some c) (Some ws) w = Some (C0PQLINK_OK, Some d, Some workspace_zero, w')"
      "ln_peer w' = put_session s ((ln_peer w)\<lparr>peer_env := env\<rparr>)" and l: "linked d s" "remembers_earlier d s" by blast
  have "peer_sessions (ln_peer w') (session_id d) = Some s" unfolding c(2) by (rule put_session_lookup [OF linked_keys(6) [OF l(1)]])
  with c(1) l show ?thesis unfolding if_not_P [OF False] by blast
qed

theorem reference_peer_connects_witness:
  "if run_row demo_rd demo_line 0 = None \<or> run_row demo_rd demo_line 1 = None
    then c0pq_client_connect (Some demo_client) (Some workspace_zero) demo_line = None
    else \<exists>d w' s. c0pq_client_connect (Some demo_client) (Some workspace_zero) demo_line
        = Some (C0PQLINK_OK, Some d, Some workspace_zero, w') \<and>
      peer_sessions (ln_peer w') (session_id d) = Some s \<and> linked d s \<and> remembers_earlier d s"
  by (rule reference_peer_connects [OF demo_parties(1-5) canonical_zero demo_parties(6-10)])

text \<open>The same parties seen from the client alone.\<close>

theorem connect_outcome_witness:
  "(\<exists>d. c0pq_client_connect (Some mute_client) (Some workspace_zero) [] = Some (C0PQLINK_ERR_RNG, Some d, Some workspace_zero, [])
      \<and> failed_client mute_client d) \<and>
   (if run_row demo_rd demo_line 0 = None \<or> run_row demo_rd demo_line 1 = None
    then c0pq_client_connect (Some demo_client) (Some workspace_zero) demo_line = None
    else \<exists>d w' w0 ch w1 m w2 ct. c0pq_client_connect (Some demo_client) (Some workspace_zero) demo_line
        = Some (C0PQLINK_OK, Some d, Some workspace_zero, w') \<and>
      drew demo_client demo_line 16 (replicate 16 5) w0 \<and> drew demo_client w1 32 m w2 \<and>
      established_by demo_client (replicate 16 5) ch (take 32 (spec_G demo_rd m)) ct d \<and>
      peer_proved demo_client (replicate 16 5) ch (take 32 (spec_G demo_rd m)) ct w1 w')"
proof (rule conjI)
  obtain d where run: "c0pq_client_connect (Some mute_client) (Some workspace_zero) []
      = Some (C0PQLINK_ERR_RNG, Some d, Some workspace_zero, [])" using mute_connect by blast
  from connect_outcome [OF mute_client_facts(1,2) run] run
  show "\<exists>d. c0pq_client_connect (Some mute_client) (Some workspace_zero) [] = Some (C0PQLINK_ERR_RNG, Some d, Some workspace_zero, [])
      \<and> failed_client mute_client d" by auto
next
  let ?none = "run_row demo_rd demo_line 0 = None \<or> run_row demo_rd demo_line 1 = None"
  show "if ?none then c0pq_client_connect (Some demo_client) (Some workspace_zero) demo_line = None
    else \<exists>d w' w0 ch w1 m w2 ct. c0pq_client_connect (Some demo_client) (Some workspace_zero) demo_line
        = Some (C0PQLINK_OK, Some d, Some workspace_zero, w') \<and>
      drew demo_client demo_line 16 (replicate 16 5) w0 \<and> drew demo_client w1 32 m w2 \<and>
      established_by demo_client (replicate 16 5) ch (take 32 (spec_G demo_rd m)) ct d \<and>
      peer_proved demo_client (replicate 16 5) ch (take 32 (spec_G demo_rd m)) ct w1 w'"
  proof (cases ?none)
    case True
    show ?thesis unfolding if_P [OF True]
      by (rule connect_with_peer(1) [OF demo_parties(1-5) canonical_zero demo_parties(6-10) True])
  next
    case False
    obtain d w' where run: "c0pq_client_connect (Some demo_client) (Some workspace_zero) demo_line
        = Some (C0PQLINK_OK, Some d, Some workspace_zero, w')"
      using connect_with_peer(2) [OF demo_parties(1-5) canonical_zero demo_parties(6-10) False] by blast
    obtain b w0 ch w1 m w2 ss ct where r: "drew demo_client demo_line 16 b w0" "drew demo_client w1 32 m w2"
      "established_by demo_client (memcpy (replicate 16 0) 0 (take 16 b)) ch ss ct d"
      "peer_proved demo_client (memcpy (replicate 16 0) 0 (take 16 b)) ch ss ct w1 w'"
      "ss = take 32 (spec_G demo_rd m)"
      using connect_outcome [OF demo_parties(1,2) run] demo_parties(5) by auto
    have b: "b = replicate 16 5"
      using r(1) by (simp add: drew_def demo_client_def demo_config_def line_random_def demo_line_def)
    then have "memcpy (replicate 16 0) 0 (take 16 b) = replicate 16 5" by (simp add: memcpy_def)
    then show ?thesis unfolding if_not_P [OF False] using run r b by metis
  qed
qed

text \<open>C11: records with the reference peer. Between linked ends the record the client seals is the
  one the peer opens: its application gets the plaintext and its answer comes back as a record
  that the client opens to that answer. The same frame sent again gets the same answer without a
  second call of the application, and the ends are linked again, ready for the next record.\<close>

theorem reference_peer_exchange:
  assumes "linked d s" and "remembers_earlier d s" and "peer_sessions p (session_id d) = Some s"
    and "length m \<le> 48" and "length reply \<le> 48" and "send_sequence d \<noteq> -1" and "receive_sequence d \<noteq> -1"
    and "peer_on_plaintext p m (after_open s) (peer_env p) = (Some reply, env)"
    and "34 + length m \<le> cap" and "cap \<le> length buf" and "length reply \<le> cap'"
  shows "\<exists>d1 d2 F R p' s'.
    c0pq_client_seal_record (Some d) (Some m) (length m) (Some buf) cap (Some 0)
      = (C0PQLINK_OK, Some d1, Some (F @ drop (34 + length m) buf), Some (length F)) \<and>
    handleFrame F p = (Inr (Some R), p') \<and> handleFrame F p' = (Inr (Some R), p') \<and> peer_env p' = env \<and>
    c0pq_client_open_record (Some d1) (Some R) (length R) (Some pt) cap' (Some 0)
      = (C0PQLINK_OK, Some d2, Some (memcpy pt 0 reply), Some (length reply)) \<and>
    peer_sessions p' (session_id d2) = Some s' \<and> linked d2 s' \<and> remembers_earlier d2 s'"
  using exchange_with_peer [OF assms] by blast

definition demo_session :: peer_session where
  "demo_session = (finished_session (opened_session demo_device 7 hello_zero challenge_zero) (replicate 32 8))"

definition demo_linked :: "unit c0pq_client" where
  "demo_linked = install_keys (the (ps_keys demo_session)) (sample_client\<lparr>session_id := 7, config := sample_config\<lparr>mode := 1\<rparr>\<rparr>)"

lemma demo_link: "linked demo_linked demo_session" "remembers_earlier demo_linked demo_session" "session_id demo_linked = 7"
  "send_sequence demo_linked = 0" "receive_sequence demo_linked = 0"
proof -
  let ?c = "sample_client\<lparr>session_id := 7, config := sample_config\<lparr>mode := 1\<rparr>\<rparr>"
  let ?s = "opened_session demo_device 7 hello_zero challenge_zero"
  have wf: "client_wf ?c" by (simp add: client_wf_def sample_client_def sample_config_def)
  have k: "the (ps_keys demo_session) = spec_session_keys (dev_psk (ps_device ?s)) (replicate 32 8) (session_transcript ?s)"
    by (simp add: demo_session_def finished_session_def Let_def)
  show "linked demo_linked demo_session"
    unfolding demo_linked_def k unfolding demo_session_def
    by (rule linked_installed [OF wf]) (simp_all add: opened_session_def demo_device_def sample_config_def)
  show "session_id demo_linked = 7" "send_sequence demo_linked = 0" "receive_sequence demo_linked = 0"
    by (simp_all add: demo_linked_def install_keys_def Let_def)
  show "remembers_earlier demo_linked demo_session"
    by (simp add: remembers_earlier_def demo_session_def finished_session_def opened_session_def Let_def)
qed

theorem reference_peer_exchange_witness:
  "\<exists>d1 d2 F R p' s'.
    c0pq_client_seal_record (Some demo_linked) (Some [1, 2, 3]) (length [1 :: u8, 2, 3]) (Some (replicate 96 0)) 96 (Some 0)
      = (C0PQLINK_OK, Some d1, Some (F @ drop (34 + length [1 :: u8, 2, 3]) (replicate 96 0)), Some (length F)) \<and>
    handleFrame F (put_session demo_session demo_peer) = (Inr (Some R), p') \<and> handleFrame F p' = (Inr (Some R), p') \<and>
    c0pq_client_open_record (Some d1) (Some R) (length R) (Some (replicate 48 0)) 48 (Some 0)
      = (C0PQLINK_OK, Some d2, Some (memcpy (replicate 48 0) 0 [1, 2, 3]), Some (length [1 :: u8, 2, 3])) \<and> linked d2 s'"
proof -
  have sid: "ps_session_id demo_session = session_id demo_linked" using linked_keys(6) [OF demo_link(1)] .
  have s: "peer_sessions (put_session demo_session demo_peer) (session_id demo_linked) = Some demo_session"
    by (rule put_session_lookup [OF sid])
  have app: "peer_on_plaintext (put_session demo_session demo_peer) [1, 2, 3] (after_open demo_session)
      (peer_env (put_session demo_session demo_peer)) = (Some [1, 2, 3], ())"
    by (simp add: put_session_def demo_peer_def)
  have n: "send_sequence demo_linked \<noteq> -1" "receive_sequence demo_linked \<noteq> -1" by (simp_all add: demo_link)
  have "length [1 :: u8, 2, 3] \<le> 48" "34 + length [1 :: u8, 2, 3] \<le> 96" "96 \<le> length (replicate 96 (0 :: u8))" by simp_all
  from reference_peer_exchange [OF demo_link(1,2) s this(1) this(1) n app this(2,3) this(1), of "replicate 48 0"]
  show ?thesis by blast
qed

end
