(* ===== verification/Dialogue.thy ===== *)
theory Dialogue
  imports PeerRecords
begin

text \<open>
  What a program does with a connected client, whatever language it reaches the client from: it seals a
  message, gives the frame to the peer and opens the answer. The locale \<open>record_channel\<close> says what
  a wrapper owes the C client for that; it is interpreted by the C client itself, and by the C++ and
  the MicroPython wrapper in their theories.
\<close>

fun dialogue ::
  "('s \<Rightarrow> bytes \<Rightarrow> (bytes \<times> 's) option) \<Rightarrow> ('s \<Rightarrow> bytes \<Rightarrow> (bytes \<times> 's) option) \<Rightarrow> 's \<Rightarrow> 'r c0pq_peer \<Rightarrow> bytes list
     \<Rightarrow> bytes list option" where
  "dialogue seal_fn open_fn s p [] = Some []"
| "dialogue seal_fn open_fn s p (m # ms) =
     (case seal_fn s m of
        None \<Rightarrow> None
      | Some (frame, s1) \<Rightarrow>
          (case on_message frame p of
             (None, p') \<Rightarrow> None
           | (Some answer, p') \<Rightarrow>
               (case open_fn s1 answer of
                  None \<Rightarrow> None
                | Some (x, s2) \<Rightarrow> map_option ((#) x) (dialogue seal_fn open_fn s2 p' ms))))"

text \<open>An application that answers every message \<open>m\<close> that fits with \<open>answer m\<close>, which fits too.\<close>

definition application :: "'r c0pq_peer \<Rightarrow> (bytes \<Rightarrow> bytes) \<Rightarrow> bool" where
  "application p answer \<longleftrightarrow>
     (\<forall>m. length m \<le> 48 \<longrightarrow> length (answer m) \<le> 48 \<and> (\<forall>s e. \<exists>e'. peer_on_plaintext p m s e = (Some (answer m), e')))"

locale record_channel =
  fixes seal_fn :: "'s \<Rightarrow> bytes \<Rightarrow> (bytes \<times> 's) option"
    and open_fn :: "'s \<Rightarrow> bytes \<Rightarrow> (bytes \<times> 's) option"
    and client_of :: "'s \<Rightarrow> 'w c0pq_client"
  assumes seal_client: "c0pq_client_seal_record (Some (client_of s)) (Some m) (length m) (Some (replicate 96 0)) 96 (Some 0)
      = (C0PQLINK_OK, Some d, Some f, Some n) \<Longrightarrow> \<exists>s'. seal_fn s m = Some (take n f, s') \<and> client_of s' = d"
    and open_client: "c0pq_client_open_record (Some (client_of s)) (Some f) (length f) (Some (replicate 48 0)) 48 (Some 0)
      = (C0PQLINK_OK, Some d, Some p, Some n) \<Longrightarrow> \<exists>s'. open_fn s f = Some (take n p, s') \<and> client_of s' = d"
begin

text \<open>A dialogue with a peer in step gets the application's answers in order.\<close>

lemma dialogue_answered:
  assumes "in_step (client_of s) p" and "application p answer" and "list_all (\<lambda>m. length m \<le> 48) ms"
    and "unat (send_sequence (client_of s)) + length ms < 2 ^ 64" and "unat (receive_sequence (client_of s)) + length ms < 2 ^ 64"
  shows "dialogue seal_fn open_fn s p ms = Some (map answer ms)"
  using assms
proof (induction ms arbitrary: s p)
  case Nil
  then show ?case by simp
next
  case (Cons m ms)
  let ?d = "client_of s"
  have n: "send_sequence ?d \<noteq> -1" "receive_sequence ?d \<noteq> -1"
    using Cons.prems(4,5) by (auto simp: unsigned_minus_1_eq_mask mask_eq_exp_minus_1)
  have m: "length m \<le> 48" "length (answer m) \<le> 48" using Cons.prems(2,3) by (simp_all add: application_def)
  obtain d1 d2 F R p'
    where c: "c0pq_client_seal_record (Some ?d) (Some m) (length m) (Some (replicate 96 0)) 96 (Some 0)
        = (C0PQLINK_OK, Some d1, Some (F @ drop (34 + length m) (replicate 96 0)), Some (length F))"
      and r: "on_message F p = (Some R, p')"
      and o: "c0pq_client_open_record (Some d1) (Some R) (length R) (Some (replicate 48 0)) 48 (Some 0)
        = (C0PQLINK_OK, Some d2, Some (memcpy (replicate 48 0) 0 (answer m)), Some (length (answer m)))"
      and i: "in_step d2 p'" and q: "send_sequence d2 = send_sequence ?d + 1" "receive_sequence d2 = receive_sequence ?d + 1"
      and app: "peer_on_plaintext p' = peer_on_plaintext p"
    by (rule exchange_in_step [where reply = answer, OF Cons.prems(1) m n, of 96 "replicate 96 0" 48 "replicate 48 0"])
      (use m Cons.prems(2) in \<open>simp_all add: application_def\<close>)
  from seal_client [OF c] obtain s1 where s1: "seal_fn s m = Some (F, s1)" "client_of s1 = d1" by auto
  from open_client [of s1, unfolded s1(2), OF o] obtain s2 where s2: "open_fn s1 R = Some (answer m, s2)" "client_of s2 = d2"
    by (auto simp: memcpy_def)
  have "dialogue seal_fn open_fn s2 p' ms = Some (map answer ms)"
    by (rule Cons.IH) (use i Cons.prems(2-5) q app unat_next n in \<open>simp_all add: s2(2) application_def\<close>)
  then show ?case by (simp add: s1(1) r s2(1))
qed

end

section \<open>The C client\<close>

definition c_seal :: "'w c0pq_client \<Rightarrow> bytes \<Rightarrow> (bytes \<times> 'w c0pq_client) option" where
  "c_seal d m =
     (case c0pq_client_seal_record (Some d) (Some m) (length m) (Some (replicate 96 0)) 96 (Some 0) of
        (C0PQLINK_OK, Some d', Some f, Some n) \<Rightarrow> Some (take n f, d') | _ \<Rightarrow> None)"

definition c_open :: "'w c0pq_client \<Rightarrow> bytes \<Rightarrow> (bytes \<times> 'w c0pq_client) option" where
  "c_open d f =
     (case c0pq_client_open_record (Some d) (Some f) (length f) (Some (replicate 48 0)) 48 (Some 0) of
        (C0PQLINK_OK, Some d', Some p, Some n) \<Rightarrow> Some (take n p, d') | _ \<Rightarrow> None)"

interpretation c_channel: record_channel c_seal c_open "\<lambda>d. d"
  by unfold_locales (simp_all add: c_seal_def c_open_def)

end
