(* ===== verification/CppWrapper.thy ===== *)
theory CppWrapper
  imports Dialogue
begin

text \<open>
  \<open>C0PQLink.cpp\<close>, the C++ client of \<open>C0PQLink.h\<close>, and the sketch template
  \<open>examples/LiveSensorClient\<close>. An object of an interface class is the function or the record of
  functions that stands for its virtual methods, over the world they act on; an out parameter taken by reference
  that a method may leave alone is an option. The static functions the C client is given reach the
  sources through the context pointer, so they use those the object holds at the time of the call:
  \<open>with_context\<close> makes that binding where the C client calls back, which is in \<open>connect\<close>.
\<close>

section \<open>The client object\<close>

record 'w cpp_transport =
  tp_send :: "'w \<Rightarrow> bytes \<Rightarrow> int \<times> 'w"
  tp_receive :: "'w \<Rightarrow> nat \<Rightarrow> u32 \<Rightarrow> int \<times> bytes \<times> nat option \<times> 'w"

record 'w cpp_client =
  cl_client :: "'w c0pq_client"
  cl_publicKey :: "'w pk_read option"
  cl_random :: "'w rng option"
  cl_transport :: "'w cpp_transport option"

definition Client_new :: "'w cpp_client" where
  "Client_new = \<lparr>cl_client = client_zero, cl_publicKey = None, cl_random = None, cl_transport = None\<rparr>"

definition readPublicKey :: "'w cpp_client \<Rightarrow> 'w pk_read" where
  "readPublicKey self w offset = the (cl_publicKey self) w offset"

definition fillRandom :: "'w cpp_client \<Rightarrow> 'w rng" where
  "fillRandom self w n = the (cl_random self) w n"

definition sendFrame :: "'w cpp_client \<Rightarrow> 'w send_fn" where
  "sendFrame self w frame = tp_send (the (cl_transport self)) w frame"

definition receiveFrame :: "'w cpp_client \<Rightarrow> 'w receive_fn" where
  "receiveFrame self w capacity timeout =
     (let (result, written, reported, w') = tp_receive (the (cl_transport self)) w capacity timeout
      in (result, written, case reported of None \<Rightarrow> 0 | Some n \<Rightarrow> n, w'))"

definition Client_begin ::
  "'w cpp_client \<Rightarrow> bytes \<Rightarrow> bytes \<Rightarrow> u64 \<Rightarrow> bytes \<Rightarrow> 'w pk_read \<Rightarrow> 'w rng \<Rightarrow> 'w cpp_transport \<Rightarrow> int \<Rightarrow> u32 \<Rightarrow> u8
     \<Rightarrow> status \<times> 'w cpp_client" where
  "Client_begin self deviceId key epoch publicKeyId publicKey random transport md timeoutMs maximumRetries =
     (let conf0 = config_zero\<lparr>device_id := memcpy (replicate 8 0) 0 (take 8 deviceId), psk := memcpy (replicate 32 0) 0 (take 32 key),
                              cfg_epoch := epoch, public_key_id := memcpy (replicate 16 0) 0 (take 16 publicKeyId)\<rparr>;
          self1 = self\<lparr>cl_publicKey := Some publicKey, cl_random := Some random, cl_transport := Some transport\<rparr>;
          conf = conf0\<lparr>read_public_key := Some (readPublicKey self1), random_bytes := Some (fillRandom self1),
                       send_frame := Some (sendFrame self1), receive_frame := Some (receiveFrame self1),
                       mode := md, timeout_ms := timeoutMs, maximum_retries := maximumRetries\<rparr>;
          (result, c) = c0pq_client_init (Some (cl_client self1)) (Some conf)
      in (result, self1\<lparr>cl_client := the c\<rparr>))"

definition with_context :: "'w cpp_client \<Rightarrow> 'w c0pq_client \<Rightarrow> 'w c0pq_client" where
  "with_context self c =
     c\<lparr>config := (config c)
        \<lparr>read_public_key := map_option (\<lambda>_. readPublicKey self) (read_public_key (config c)),
         random_bytes := map_option (\<lambda>_. fillRandom self) (random_bytes (config c)),
         send_frame := map_option (\<lambda>_. sendFrame self) (send_frame (config c)),
         receive_frame := map_option (\<lambda>_. receiveFrame self) (receive_frame (config c))\<rparr>\<rparr>"

definition Client_connect ::
  "'w cpp_client \<Rightarrow> mlkem_workspace_internal \<Rightarrow> 'w \<Rightarrow> (status \<times> 'w cpp_client \<times> mlkem_workspace_internal \<times> 'w) option" where
  "Client_connect self workspace w =
     map_option (\<lambda>(result, c, ws, w'). (result, self\<lparr>cl_client := the c\<rparr>, the ws, w'))
       (c0pq_client_connect (Some (with_context self (cl_client self))) (Some workspace) w)"

definition Client_seal ::
  "'w cpp_client \<Rightarrow> bytes option \<Rightarrow> nat \<Rightarrow> bytes option \<Rightarrow> nat \<Rightarrow> nat \<Rightarrow> status \<times> 'w cpp_client \<times> bytes option \<times> nat" where
  "Client_seal self plaintext plaintextLength frame frameCapacity frameLength =
     (let (result, c, f, n) = c0pq_client_seal_record (Some (cl_client self)) plaintext plaintextLength frame frameCapacity (Some frameLength)
      in (result, self\<lparr>cl_client := the c\<rparr>, f, the n))"

definition Client_open ::
  "'w cpp_client \<Rightarrow> bytes option \<Rightarrow> nat \<Rightarrow> bytes option \<Rightarrow> nat \<Rightarrow> nat \<Rightarrow> status \<times> 'w cpp_client \<times> bytes option \<times> nat" where
  "Client_open self frame frameLength plaintext plaintextCapacity plaintextLength =
     (let (result, c, p, n) = c0pq_client_open_record (Some (cl_client self)) frame frameLength plaintext plaintextCapacity (Some plaintextLength)
      in (result, self\<lparr>cl_client := the c\<rparr>, p, the n))"

definition Client_close :: "'w cpp_client \<Rightarrow> 'w cpp_client" where
  "Client_close self = self\<lparr>cl_client := the (c0pq_client_close (Some (cl_client self)))\<rparr>"

definition Client_state :: "'w cpp_client \<Rightarrow> c0pq_client_state" where
  "Client_state self = client_state (cl_client self)"

definition Client_raw :: "'w cpp_client \<Rightarrow> 'w c0pq_client" where
  "Client_raw self = cl_client self"

section \<open>Beginning\<close>

text \<open>The object after \<open>begin\<close> has stored its sources, and the configuration it makes.\<close>

definition rewired :: "'w cpp_client \<Rightarrow> 'w pk_read \<Rightarrow> 'w rng \<Rightarrow> 'w cpp_transport \<Rightarrow> 'w cpp_client" where
  "rewired self rd rnd tp = self\<lparr>cl_publicKey := Some rd, cl_random := Some rnd, cl_transport := Some tp\<rparr>"

definition begun_config ::
  "'w cpp_client \<Rightarrow> bytes \<Rightarrow> bytes \<Rightarrow> u64 \<Rightarrow> bytes \<Rightarrow> int \<Rightarrow> u32 \<Rightarrow> u8 \<Rightarrow> 'w c0pq_client_config" where
  "begun_config self did key epoch kid md t r =
     \<lparr>device_id = did, psk = key, cfg_epoch = epoch, public_key_id = kid, read_public_key = Some (readPublicKey self),
      random_bytes = Some (fillRandom self), send_frame = Some (sendFrame self), receive_frame = Some (receiveFrame self),
      mode = md, timeout_ms = (if t = 0 then 3000 else t), maximum_retries = r\<rparr>"

lemma memcpy_whole: "length bs = n \<Longrightarrow> memcpy (replicate n x) 0 bs = bs"
  by (simp add: memcpy_def)

lemma begin_exact:
  assumes "length did = 8" and "length key = 32" and "length kid = 16"
  shows "Client_begin self did key epoch kid rd rnd tp md t r =
    (if provisioning_ok key kid md
     then (C0PQLINK_OK, (rewired self rd rnd tp)
             \<lparr>cl_client := client_zero\<lparr>config := begun_config (rewired self rd rnd tp) did key epoch kid md t r,
                                     client_state := C0PQ_CLIENT_READY\<rparr>\<rparr>)
     else (C0PQLINK_ERR_ARGUMENT, rewired self rd rnd tp))"
  using assms
  by (simp add: Client_begin_def Let_def init_present memcpy_whole rewired_def begun_config_def config_zero_def)

text \<open>A refused \<open>begin\<close> keeps the C client of before and yet replaces the sources, which a client that
  is ready then connects through.\<close>

lemma refused_begin_rewires:
  assumes "length did = 8" and "length key = 32" and "length kid = 16" and "\<not> provisioning_ok key kid md"
  shows "Client_begin self did key epoch kid rd rnd tp md t r = (C0PQLINK_ERR_ARGUMENT, rewired self rd rnd tp)"
    and "with_context (rewired self rd rnd tp) (cl_client (rewired self rd rnd tp)) =
      (cl_client self)\<lparr>config := (config (cl_client self))
        \<lparr>read_public_key := map_option (\<lambda>_. rd) (read_public_key (config (cl_client self))),
         random_bytes := map_option (\<lambda>_. rnd) (random_bytes (config (cl_client self))),
         send_frame := map_option (\<lambda>_. tp_send tp) (send_frame (config (cl_client self))),
         receive_frame := map_option (\<lambda>_. receiveFrame (rewired self rd rnd tp)) (receive_frame (config (cl_client self)))\<rparr>\<rparr>"
  by (simp add: begin_exact [OF assms(1-3)] assms(4))
    (simp add: with_context_def rewired_def readPublicKey_def [abs_def] fillRandom_def [abs_def] sendFrame_def [abs_def])

section \<open>A program over the object\<close>

definition sketch_seal :: "'w cpp_client \<Rightarrow> bytes \<Rightarrow> (bytes \<times> 'w cpp_client) option" where
  "sketch_seal self m =
     (let (result, self', frame, n) = Client_seal self (Some m) (length m) (Some (replicate 96 0)) 96 0
      in if result \<noteq> C0PQLINK_OK then None else Some (take n (the frame), self'))"

definition sketch_open :: "'w cpp_client \<Rightarrow> bytes \<Rightarrow> (bytes \<times> 'w cpp_client) option" where
  "sketch_open self f =
     (let (result, self', plaintext, n) = Client_open self (Some f) (length f) (Some (replicate 48 0)) 48 0
      in if result \<noteq> C0PQLINK_OK then None else Some (take n (the plaintext), self'))"

interpretation cpp_channel: record_channel sketch_seal sketch_open cl_client
  by unfold_locales (simp_all add: sketch_seal_def sketch_open_def Client_seal_def Client_open_def)

section \<open>The sketch template\<close>

definition DevicePublicKey_read :: "'w pk_read" where
  "DevicePublicKey_read w offset = (0, w)"

definition DeviceRandom_fill :: "'w rng" where
  "DeviceRandom_fill w n = (-1, replicate n 0, w)"

definition DeviceTransport :: "'w cpp_transport" where
  "DeviceTransport = \<lparr>tp_send = (\<lambda>w frame. (-1, w)), tp_receive = (\<lambda>w capacity timeout. (-1, [], Some 0, w))\<rparr>"

definition deviceId :: bytes where
  "deviceId = [0x01, 0x02, 0x03, 0x04, 0x05, 0x06, 0x07, 0x08]"

text \<open>\<open>setup\<close> on the arrays \<open>devicePsk\<close> and \<open>serverKeyId\<close> as they are after the two \<open>memset\<close>s, and with them.\<close>

definition setup_provisioned ::
  "bytes \<Rightarrow> bytes \<Rightarrow> 'w cpp_client \<Rightarrow> mlkem_workspace_internal \<Rightarrow> 'w \<Rightarrow> ('w cpp_client \<times> mlkem_workspace_internal \<times> 'w) option" where
  "setup_provisioned devicePsk serverKeyId pqClient pqWorkspace w =
     (let (result, c) = Client_begin pqClient deviceId devicePsk 1 serverKeyId DevicePublicKey_read DeviceRandom_fill DeviceTransport
                          C0PQ_PQ_BOOTSTRAP_RATCHET 3000 3
      in if result \<noteq> C0PQLINK_OK then Some (c, pqWorkspace, w)
         else map_option (\<lambda>(_, c', ws', w'). (c', ws', w')) (Client_connect c pqWorkspace w))"

definition sketch_setup ::
  "'w cpp_client \<Rightarrow> mlkem_workspace_internal \<Rightarrow> 'w \<Rightarrow> ('w cpp_client \<times> mlkem_workspace_internal \<times> 'w) option" where
  "sketch_setup pqClient pqWorkspace w = setup_provisioned (replicate 32 0) (replicate 16 0) pqClient pqWorkspace w"

section \<open>Properties\<close>

text \<open>The template fails closed. Set up as it is, the sketch leaves the client uninitialised and
  touches neither the workspace nor the outside. With provisioning installed but the other adapters not
  replaced, whatever the provisioning is, the client ends up failed without a secret, nothing has been
  sent, and a begin that was accepted was followed by a connect that reported the missing randomness.\<close>

theorem template_fails_closed:
  fixes w :: 'w
  assumes "length key = 32" and "length kid = 16" and "provisioning_ok key kid C0PQ_PQ_BOOTSTRAP_RATCHET"
  shows "(\<exists>c. sketch_setup Client_new ws w = Some (c, ws, w) \<and> Client_state c = C0PQ_CLIENT_UNINITIALIZED) \<and>
    (\<exists>c c'. Client_begin Client_new deviceId key 1 kid DevicePublicKey_read DeviceRandom_fill DeviceTransport C0PQ_PQ_BOOTSTRAP_RATCHET 3000 3
         = (C0PQLINK_OK, c) \<and>
       Client_connect c ws w = Some (C0PQLINK_ERR_RNG, c', workspace_zero, w) \<and>
       setup_provisioned key kid Client_new ws w = Some (c', workspace_zero, w) \<and>
       Client_state c' = C0PQ_CLIENT_FAILED \<and> secrets_wiped (Client_raw c'))"
proof
  have l: "length deviceId = 8" by (simp add: deviceId_def)
  let ?s = "rewired Client_new DevicePublicKey_read DeviceRandom_fill DeviceTransport"
  have "\<not> provisioning_ok (replicate 32 0) (replicate 16 0) C0PQ_PQ_BOOTSTRAP_RATCHET" by (simp add: provisioning_ok_def)
  then have "sketch_setup Client_new ws w = Some (?s, ws, w)" by (simp add: sketch_setup_def setup_provisioned_def begin_exact l)
  moreover have "Client_state ?s = C0PQ_CLIENT_UNINITIALIZED" by (simp add: Client_state_def rewired_def Client_new_def client_zero_def)
  ultimately show "\<exists>c. sketch_setup Client_new ws w = Some (c, ws, w) \<and> Client_state c = C0PQ_CLIENT_UNINITIALIZED" by blast
  define c :: "'w cpp_client" where "c = ?s\<lparr>cl_client := client_zero\<lparr>config := begun_config ?s deviceId key 1 kid C0PQ_PQ_BOOTSTRAP_RATCHET 3000 3,
    client_state := C0PQ_CLIENT_READY\<rparr>\<rparr>"
  have b: "Client_begin Client_new deviceId key 1 kid DevicePublicKey_read DeviceRandom_fill DeviceTransport C0PQ_PQ_BOOTSTRAP_RATCHET 3000 3 = (C0PQLINK_OK, c)"
    using assms by (simp add: begin_exact l c_def)
  obtain c' where r: "Client_connect c ws w = Some (C0PQLINK_ERR_RNG, c', workspace_zero, w)"
    and d: "client_state (cl_client c') = C0PQ_CLIENT_FAILED" "secrets_wiped (cl_client c')"
    by (simp add: c_def Client_connect_def c0pq_client_connect_def connect_run_def connect_hello_def connect_fail_def with_context_def begun_config_def
        fillRandom_def rewired_def DeviceRandom_fill_def client_zero_def wipe_secrets_def secrets_wiped_def)
  have "setup_provisioned key kid Client_new ws w = Some (c', workspace_zero, w)" unfolding setup_provisioned_def b by (simp add: r)
  with b r d show "\<exists>c c'. Client_begin Client_new deviceId key 1 kid DevicePublicKey_read DeviceRandom_fill DeviceTransport C0PQ_PQ_BOOTSTRAP_RATCHET 3000 3
         = (C0PQLINK_OK, c) \<and>
       Client_connect c ws w = Some (C0PQLINK_ERR_RNG, c', workspace_zero, w) \<and>
       setup_provisioned key kid Client_new ws w = Some (c', workspace_zero, w) \<and>
       Client_state c' = C0PQ_CLIENT_FAILED \<and> secrets_wiped (Client_raw c')"
    by (simp add: Client_state_def Client_raw_def)
qed

theorem template_fails_closed_witness:
  "\<exists>c'. setup_provisioned (replicate 32 1) (replicate 16 2) Client_new workspace_zero () = Some (c', workspace_zero, ()) \<and>
     Client_state c' = C0PQ_CLIENT_FAILED"
proof -
  have "provisioning_ok (replicate 32 1) (replicate 16 2) C0PQ_PQ_BOOTSTRAP_RATCHET"
    by (auto simp: provisioning_ok_def intro: exI [of _ 0])
  from template_fails_closed [OF _ _ this, of workspace_zero "()"] show ?thesis by auto
qed

text \<open>A transport over the line, which sets the length only when it received a frame.\<close>

definition line_transport :: "(nat \<Rightarrow> fate) \<Rightarrow> 'r line cpp_transport" where
  "line_transport fate = \<lparr>tp_send = line_send fate,
     tp_receive = (\<lambda>w cap t. let (r, b, n, w') = line_receive w cap t in (r, b, if r = 0 then Some n else None, w'))\<rparr>"

lemma receive_over_line: "cl_transport self = Some (line_transport fate) \<Longrightarrow> receiveFrame self = line_receive"
  by (intro ext) (auto simp: receiveFrame_def line_transport_def line_receive_def split: option.split)

text \<open>C12: the C++ client from end to end. With sources that reach the reference peer over a line which may
  lose any request and any answer, but not more in a row than the retries outlast, with a public-key
  source that gives a canonical key, 48 random bytes left and a session identifier that is free at
  the peer, and with a peer provisioned for the device and this key whose application answers every
  message \<open>m\<close> with \<open>answer m\<close>: \<open>begin\<close>
  succeeds; \<open>connect\<close> returns exactly when the sampling of the public matrix ends, with success; and
  then every dialogue of sealing a message, handing it to the peer and opening the answer yields the
  answers to the messages in order.\<close>

theorem cpp_client_dialogue:
  fixes w :: "'r line"
  assumes "length did = 8" and "length kid = 16" and "\<exists>i<16. kid ! i \<noteq> 0"
    and dev: "lookupDevice (ln_peer w) did = Inr (Some dev)" "dev_psk dev = key" "dev_mode dev = Some md"
    and peer: "peer_epoch (ln_peer w) = uint epoch" "peer_key_id (ln_peer w) = kid"
    and line: "\<forall>t. \<exists>j\<le>unat retries. fate (t + j) = Delivered"
    and rd: "canonical_key rd" and ent: "48 \<le> length (ln_entropy w)"
    and rnd: "peer_random (ln_peer w) (peer_env (ln_peer w)) 16 = (sn, env)" "length sn = 16"
    and none: "peer_sessions (ln_peer w) (session_of (run_nonce w)) = None" and kem: "kem_agrees (ln_peer w) rd w"
    and app: "application (ln_peer w) answer"
  shows "\<exists>c. Client_begin self did key epoch kid (pure_reader rd) line_random (line_transport fate) md t retries = (C0PQLINK_OK, c) \<and>
    (if run_row rd w 0 = None \<or> run_row rd w 1 = None then Client_connect c ws w = None
     else \<exists>c' w'. Client_connect c ws w = Some (C0PQLINK_OK, c', workspace_zero, w') \<and> Client_state c' = C0PQ_CLIENT_ESTABLISHED \<and>
       (\<forall>ms. list_all (\<lambda>m. length m \<le> 48) ms \<and> length ms < 2 ^ 64 \<longrightarrow> dialogue sketch_seal sketch_open c' (ln_peer w') ms = Some (map answer ms)))"
proof -
  let ?s = "rewired self (pure_reader rd) line_random (line_transport fate)"
  define C where "C = client_zero\<lparr>config := begun_config ?s did key epoch kid md t retries, client_state := C0PQ_CLIENT_READY\<rparr>"
  define c where "c = ?s\<lparr>cl_client := C\<rparr>"
  note ok = lookupDevice_ok [OF dev(1), unfolded dev(2,3)]
  have b: "Client_begin self did key epoch kid (pure_reader rd) line_random (line_transport fate) md t retries = (C0PQLINK_OK, c)"
    using assms(1-3) ok by (simp add: begin_exact c_def C_def provisioning_ok_def)
  have C: "client_wf C" "client_state C = C0PQ_CLIENT_READY" "on_line fate C" "provisioned C (ln_peer w) dev" "read_public_key (config C) = Some (pure_reader rd)"
    using assms(1,2) dev peer line ok
    by (simp_all add: C_def client_wf_def client_zero_def begun_config_def on_line_def provisioned_def receive_over_line rewired_def
        readPublicKey_def [abs_def] fillRandom_def [abs_def] sendFrame_def [abs_def] line_transport_def)
  have wc: "with_context c C = C"
    by (simp add: with_context_def c_def C_def begun_config_def readPublicKey_def [abs_def] fillRandom_def [abs_def] sendFrame_def [abs_def]
        receiveFrame_def [abs_def])
  have cc: "Client_connect c ws w = map_option (\<lambda>(result, d, ws, w'). (result, c\<lparr>cl_client := the d\<rparr>, the ws, w'))
      (c0pq_client_connect (Some C) (Some ws) w)" by (simp add: Client_connect_def wc) (simp add: c_def wc [unfolded c_def])
  note conn = C rd ent rnd none kem
  show ?thesis
  proof (cases "run_row rd w 0 = None \<or> run_row rd w 1 = None")
    case True
    have "c0pq_client_connect (Some C) (Some ws) w = None" by (rule connect_with_peer(1) [OF conn True])
    then have "Client_connect c ws w = None" by (simp only: cc option.map)
    with b show ?thesis unfolding if_P [OF True] by blast
  next
    case False
    obtain d w' where run: "c0pq_client_connect (Some C) (Some ws) w = Some (C0PQLINK_OK, Some d, Some workspace_zero, w')"
      and step: "in_step d (ln_peer w')" and q: "send_sequence d = 0" "receive_sequence d = 0"
      and p: "peer_on_plaintext (ln_peer w') = peer_on_plaintext (ln_peer w)"
      by (rule connect_in_step [OF conn False])
    let ?c' = "c\<lparr>cl_client := d\<rparr>"
    have "dialogue sketch_seal sketch_open ?c' (ln_peer w') ms = Some (map answer ms)" if "list_all (\<lambda>m. length m \<le> 48) ms" "length ms < 2 ^ 64" for ms
      by (rule cpp_channel.dialogue_answered) (use step that app q in \<open>simp_all add: p application_def\<close>)
    moreover have "Client_connect c ws w = Some (C0PQLINK_OK, ?c', workspace_zero, w')" by (simp add: cc run)
    moreover have "Client_state ?c' = C0PQ_CLIENT_ESTABLISHED" using in_step_established [OF step] by (simp add: Client_state_def)
    ultimately show ?thesis using b unfolding if_not_P [OF False] by blast
  qed
qed

theorem cpp_client_dialogue_witness:
  "\<exists>c. Client_begin Client_new (replicate 8 1) (replicate 32 2) 3 (replicate 16 4) (pure_reader demo_rd) line_random
      (line_transport (\<lambda>t. if even t then Lost_answer else Delivered)) C0PQ_PQ_BOOTSTRAP_RATCHET 10 1 = (C0PQLINK_OK, c) \<and>
    (if run_row demo_rd demo_line 0 = None \<or> run_row demo_rd demo_line 1 = None then Client_connect c workspace_zero demo_line = None
     else \<exists>c' w'. Client_connect c workspace_zero demo_line = Some (C0PQLINK_OK, c', workspace_zero, w') \<and>
       dialogue sketch_seal sketch_open c' (ln_peer w') [[1, 2], []] = Some [[1, 2], []])"
proof -
  let ?f = "\<lambda>t :: nat. if even t then Lost_answer else Delivered"
  have p: "ln_peer demo_line = demo_peer" by (simp add: demo_line_def)
  have app: "application (ln_peer demo_line) id" by (simp add: p demo_peer_def application_def)
  have k: "\<exists>i<16. replicate 16 (4 :: u8) ! i \<noteq> 0" by (auto intro: exI [of _ 0])
  have fate: "\<forall>t. \<exists>j\<le>unat (1 :: u8). ?f (t + j) = Delivered"
    using demo_parties(3) by (simp add: on_line_def demo_client_def demo_config_def)
  have l: "length (replicate 8 (1 :: u8)) = 8" "length (replicate 16 (4 :: u8)) = 16" by simp_all
  have dev: "lookupDevice (ln_peer demo_line) (replicate 8 1) = Inr (Some demo_device)" "dev_psk demo_device = replicate 32 2"
    "dev_mode demo_device = Some C0PQ_PQ_BOOTSTRAP_RATCHET" "peer_epoch (ln_peer demo_line) = uint (3 :: u64)"
    "peer_key_id (ln_peer demo_line) = replicate 16 4"
    using demo_lookup by (simp_all only: p) (simp_all add: demo_device_def demo_peer_def)
  from cpp_client_dialogue [where answer = id, OF l k dev fate canonical_zero demo_parties(6-10) app, of Client_new 10 workspace_zero]
  obtain c where c: "Client_begin Client_new (replicate 8 1) (replicate 32 2) 3 (replicate 16 4) (pure_reader demo_rd) line_random (line_transport ?f)
        C0PQ_PQ_BOOTSTRAP_RATCHET 10 1 = (C0PQLINK_OK, c)"
    and d: "if run_row demo_rd demo_line 0 = None \<or> run_row demo_rd demo_line 1 = None then Client_connect c workspace_zero demo_line = None
      else \<exists>c' w'. Client_connect c workspace_zero demo_line = Some (C0PQLINK_OK, c', workspace_zero, w') \<and> Client_state c' = C0PQ_CLIENT_ESTABLISHED \<and>
       (\<forall>ms. list_all (\<lambda>m. length m \<le> 48) ms \<and> length ms < 2 ^ 64 \<longrightarrow> dialogue sketch_seal sketch_open c' (ln_peer w') ms = Some (map id ms))"
    by (metis id_apply)
  have m: "list_all (\<lambda>m. length m \<le> 48) [[1, 2 :: u8], []] \<and> length [[1, 2 :: u8], []] < 2 ^ 64" "map id [[1, 2 :: u8], []] = [[1, 2], []]" by simp_all
  show ?thesis
  proof (cases "run_row demo_rd demo_line 0 = None \<or> run_row demo_rd demo_line 1 = None")
    case True
    with c d show ?thesis unfolding if_P [OF True] by blast
  next
    case False
    with c d m show ?thesis unfolding if_not_P [OF False] by metis
  qed
qed

end
