(* ===== verification/MicroPython.thy ===== *)
theory MicroPython
  imports Dialogue
begin

text \<open>
  \<open>micropython/modc0pqlink.c\<close>: the native class \<open>_Client\<close> a MicroPython program uses. The interpreter is not
  part of the repository, so what the module calls of it is a parameter: a record of the type of
  objects \<open>'o\<close>, the exceptions \<open>'e\<close> and the world \<open>'w\<close>, with the call of a callable, the conversions, and
  the constructors of integers and byte strings. A raised exception is \<open>Inl\<close>. A callback catches what
  its callable raises, as \<open>nlr_push\<close> does, and returns an error code instead. A buffer is the bytes it
  holds when it is looked at; memory does not run out. The conversions depend on the object alone, and a callable
  does not itself call methods of the client that is calling it. The result of a conversion to a C integer is
  taken modulo the width of its destination, the enumeration of the mode being an \<open>unsigned int\<close>.
\<close>

section \<open>The interpreter\<close>

record ('o, 'e, 'w) mp_runtime =
  mp_call :: "'o \<Rightarrow> 'o list \<Rightarrow> 'w \<Rightarrow> ('e + 'o) \<times> 'w"
  mp_get_int :: "'o \<Rightarrow> 'e + int"
  mp_get_buffer :: "'o \<Rightarrow> 'e + bytes"
  mp_callable :: "'o \<Rightarrow> bool"
  mp_int :: "int \<Rightarrow> 'o"
  mp_bytes :: "bytes \<Rightarrow> 'o"
  mp_none :: 'o
  mp_argument_error :: 'e

datatype 'e raised = OSError int | ValueError string | TypeError string | Raised 'e

definition raising :: "'e + 'a \<Rightarrow> ('a \<Rightarrow> 'e raised + 'b) \<Rightarrow> 'e raised + 'b" where
  "raising x k = (case x of Inl e \<Rightarrow> Inl (Raised e) | Inr a \<Rightarrow> k a)"

lemma raising_simps [simp]: "raising (Inl e) k = Inl (Raised e)" "raising (Inr a) k = k a"
  by (simp_all add: raising_def)

section \<open>The client object\<close>

record ('o, 'w) mpy_client =
  mc_client :: "'w c0pq_client"
  mc_workspace :: mlkem_workspace_internal
  public_key_source :: 'o
  random_function :: 'o
  send_function :: 'o
  receive_function :: 'o
  public_key_buffer :: bytes
  public_key_length :: nat
  public_key_is_buffer :: bool

definition raise_c0_error :: "status \<Rightarrow> 'e raised + unit" where
  "raise_c0_error result = (if result \<noteq> C0PQLINK_OK then Inl (OSError (- status_code result)) else Inr ())"

definition mpy_read_public_key :: "('o, 'e, 'w) mp_runtime \<Rightarrow> ('o, 'w) mpy_client \<Rightarrow> 'w pk_read" where
  "mpy_read_public_key rt self w offset =
     (if public_key_is_buffer self then (public_key_buffer self ! unat offset, w)
      else
        case mp_call rt (public_key_source self) [mp_int rt (uint offset)] w of
          (Inl e, w') \<Rightarrow> (0, w')
        | (Inr result, w') \<Rightarrow> (case mp_get_int rt result of Inl e \<Rightarrow> (0, w') | Inr value \<Rightarrow> (word_of_int value, w')))"

definition mpy_random_bytes :: "('o, 'e, 'w) mp_runtime \<Rightarrow> ('o, 'w) mpy_client \<Rightarrow> 'w rng" where
  "mpy_random_bytes rt self w n =
     (case mp_call rt (random_function self) [mp_int rt (int n)] w of
        (Inl e, w') \<Rightarrow> (-1, [], w')
      | (Inr result, w') \<Rightarrow>
          (case mp_get_buffer rt result of
             Inl e \<Rightarrow> (-1, [], w')
           | Inr buf \<Rightarrow> if length buf \<noteq> n then (-1, [], w') else (0, buf, w')))"

definition mpy_send_frame :: "('o, 'e, 'w) mp_runtime \<Rightarrow> ('o, 'w) mpy_client \<Rightarrow> 'w send_fn" where
  "mpy_send_frame rt self w frame =
     (case mp_call rt (send_function self) [mp_bytes rt frame] w of
        (Inl e, w') \<Rightarrow> (-1, w')
      | (Inr result, w') \<Rightarrow>
          if result = mp_none rt then (0, w')
          else (case mp_get_int rt result of Inl e \<Rightarrow> (-1, w') | Inr st \<Rightarrow> (sint (word_of_int st :: 32 word), w')))"

definition mpy_receive_frame :: "('o, 'e, 'w) mp_runtime \<Rightarrow> ('o, 'w) mpy_client \<Rightarrow> 'w receive_fn" where
  "mpy_receive_frame rt self w frame_capacity timeout =
     (case mp_call rt (receive_function self) [mp_int rt (int frame_capacity), mp_int rt (uint timeout)] w of
        (Inl e, w') \<Rightarrow> (-1, [], 0, w')
      | (Inr result, w') \<Rightarrow>
          if result = mp_none rt then (-1, [], 0, w')
          else case mp_get_buffer rt result of
                 Inl e \<Rightarrow> (-1, [], 0, w')
               | Inr buf \<Rightarrow>
                   if length buf > frame_capacity then (-1, [], 0, w') else (0, buf, length buf, w'))"

section \<open>Construction\<close>

text \<open>The arguments after the eighth are optional; a conversion that is skipped yields the default.\<close>

definition optional_int :: "('o, 'e, 'w) mp_runtime \<Rightarrow> 'o list \<Rightarrow> nat \<Rightarrow> int \<Rightarrow> 'e + int" where
  "optional_int rt args i d = (if length args > i then mp_get_int rt (args ! i) else Inr d)"

definition c0pq_mpy_client_make_new ::
  "('o, 'e, 'w) mp_runtime \<Rightarrow> 'o list \<Rightarrow> nat \<Rightarrow> 'e raised + ('o, 'w) mpy_client" where
  "c0pq_mpy_client_make_new rt args n_kw =
     (if n_kw \<noteq> 0 \<or> length args < 8 \<or> length args > 11 then Inl (Raised (mp_argument_error rt))
      else
        raising (mp_get_buffer rt (args ! 0)) (\<lambda>did.
        raising (mp_get_buffer rt (args ! 1)) (\<lambda>key.
        raising (mp_get_buffer rt (args ! 3)) (\<lambda>kid.
          if length did \<noteq> 8 \<or> length key \<noteq> 32 \<or> length kid \<noteq> 16 then Inl (ValueError ''bad provisioning length'')
          else
            raising (mp_get_int rt (args ! 2)) (\<lambda>epoch.
              let (is_buffer, public_key) = (case mp_get_buffer rt (args ! 4) of Inl e \<Rightarrow> (False, []) | Inr b \<Rightarrow> (True, b))
              in if is_buffer \<and> length public_key \<noteq> 800 then Inl (ValueError ''public key must be 800 bytes'')
                 else if \<not> is_buffer \<and> \<not> mp_callable rt (args ! 4) then Inl (TypeError ''public key source is not callable'')
                 else if \<not> mp_callable rt (args ! 5) \<or> \<not> mp_callable rt (args ! 6) \<or> \<not> mp_callable rt (args ! 7)
                 then Inl (TypeError ''callback is not callable'')
                 else
                   let self = \<lparr>mc_client = client_zero, mc_workspace = workspace_zero, public_key_source = args ! 4,
                               random_function = args ! 5, send_function = args ! 6, receive_function = args ! 7,
                               public_key_buffer = public_key, public_key_length = length public_key,
                               public_key_is_buffer = is_buffer\<rparr>
                   in raising (optional_int rt args 8 C0PQ_PQ_BOOTSTRAP_RATCHET) (\<lambda>md.
                      raising (optional_int rt args 9 3000) (\<lambda>timeout.
                      raising (optional_int rt args 10 3) (\<lambda>retries.
                        let conf = config_zero\<lparr>device_id := did, psk := key, cfg_epoch := word_of_int epoch, public_key_id := kid,
                              read_public_key := Some (mpy_read_public_key rt self), random_bytes := Some (mpy_random_bytes rt self),
                              send_frame := Some (mpy_send_frame rt self), receive_frame := Some (mpy_receive_frame rt self),
                              mode := uint (word_of_int md :: u32), timeout_ms := word_of_int timeout,
                              maximum_retries := word_of_int retries\<rparr>;
                            (result, c) = c0pq_client_init (Some (mc_client self)) (Some conf)
                        in case raise_c0_error result of Inl e \<Rightarrow> Inl e | Inr u \<Rightarrow> Inr (self\<lparr>mc_client := the c\<rparr>)))))))))"

section \<open>Methods\<close>

text \<open>A method returns the exception or its value, with the object. The outer option of \<open>connect\<close> is the one of
  the C function.\<close>

definition c0pq_mpy_client_connect ::
  "('o, 'e, 'w) mp_runtime \<Rightarrow> ('o, 'w) mpy_client \<Rightarrow> 'w \<Rightarrow> (('e raised + 'o) \<times> ('o, 'w) mpy_client \<times> 'w) option" where
  "c0pq_mpy_client_connect rt self w =
     map_option (\<lambda>(result, c', ws, w').
        (case raise_c0_error result of Inl e \<Rightarrow> Inl e | Inr u \<Rightarrow> Inr (mp_none rt),
         self\<lparr>mc_client := the c', mc_workspace := the ws\<rparr>, w'))
       (c0pq_client_connect (Some (mc_client self)) (Some (mc_workspace self)) w)"

definition c0pq_mpy_client_seal ::
  "('o, 'e, 'w) mp_runtime \<Rightarrow> ('o, 'w) mpy_client \<Rightarrow> 'o \<Rightarrow> ('e raised + 'o) \<times> ('o, 'w) mpy_client" where
  "c0pq_mpy_client_seal rt self data_in =
     (case mp_get_buffer rt data_in of
        Inl e \<Rightarrow> (Inl (Raised e), self)
      | Inr data \<Rightarrow>
          let (result, c, frame, n) = c0pq_client_seal_record (Some (mc_client self)) (Some data) (length data) (Some (replicate 96 0)) 96 (Some 0);
              self' = self\<lparr>mc_client := the c\<rparr>
          in (case raise_c0_error result of Inl e \<Rightarrow> Inl e | Inr u \<Rightarrow> Inr (mp_bytes rt (take (the n) (the frame))), self'))"

definition c0pq_mpy_client_open ::
  "('o, 'e, 'w) mp_runtime \<Rightarrow> ('o, 'w) mpy_client \<Rightarrow> 'o \<Rightarrow> ('e raised + 'o) \<times> ('o, 'w) mpy_client" where
  "c0pq_mpy_client_open rt self frame_in =
     (case mp_get_buffer rt frame_in of
        Inl e \<Rightarrow> (Inl (Raised e), self)
      | Inr frame \<Rightarrow>
          let (result, c, plaintext, n) = c0pq_client_open_record (Some (mc_client self)) (Some frame) (length frame) (Some (replicate 48 0)) 48 (Some 0);
              self' = self\<lparr>mc_client := the c\<rparr>
          in (case raise_c0_error result of Inl e \<Rightarrow> Inl e | Inr u \<Rightarrow> Inr (mp_bytes rt (take (the n) (the plaintext))), self'))"

definition c0pq_mpy_client_close :: "('o, 'e, 'w) mp_runtime \<Rightarrow> ('o, 'w) mpy_client \<Rightarrow> 'o \<times> ('o, 'w) mpy_client" where
  "c0pq_mpy_client_close rt self =
     (mp_none rt, self\<lparr>mc_client := the (c0pq_client_close (Some (mc_client self))), mc_workspace := workspace_zero\<rparr>)"

primrec state_number :: "c0pq_client_state \<Rightarrow> int" where
  "state_number C0PQ_CLIENT_UNINITIALIZED = 0"
| "state_number C0PQ_CLIENT_READY = 1"
| "state_number C0PQ_CLIENT_CONNECTING = 2"
| "state_number C0PQ_CLIENT_ESTABLISHED = 3"
| "state_number C0PQ_CLIENT_FAILED = 4"

definition c0pq_mpy_client_state :: "('o, 'e, 'w) mp_runtime \<Rightarrow> ('o, 'w) mpy_client \<Rightarrow> 'o" where
  "c0pq_mpy_client_state rt self = mp_int rt (state_number (client_state (mc_client self)))"

section \<open>Objects that were made\<close>

text \<open>An object that construction returns holds a ready client with every callback.\<close>

lemma sum_case_Inr: "(case x of Inl e \<Rightarrow> Inl e | Inr u \<Rightarrow> Inr a) = Inr b \<longleftrightarrow> (\<exists>u. x = Inr u) \<and> b = a"
  by (cases x) auto

lemma raising_Inr: "raising x k = Inr b \<longleftrightarrow> (\<exists>a. x = Inr a \<and> k a = Inr b)"
  by (cases x) simp_all

lemma raise_Inr: "raise_c0_error result = Inr u \<longleftrightarrow> result = C0PQLINK_OK"
  by (simp add: raise_c0_error_def)

lemma if_Inr: "(if P then Inl e else y) = Inr b \<longleftrightarrow> \<not> P \<and> y = Inr b"
  by simp

lemma make_new_object:
  assumes "c0pq_mpy_client_make_new rt args n_kw = Inr self"
  shows "client_wf (mc_client self)" and "client_state (mc_client self) = C0PQ_CLIENT_READY" and "mc_workspace self = workspace_zero"
  using assms
  by (auto simp: c0pq_mpy_client_make_new_def Let_def init_present raising_Inr sum_case_Inr raise_Inr client_wf_def client_zero_def config_zero_def
      split: if_split_asm sum.split_asm)

text \<open>A program that seals and opens through the methods.\<close>

definition script_seal :: "('o, 'e, 'w) mp_runtime \<Rightarrow> ('o, 'w) mpy_client \<Rightarrow> bytes \<Rightarrow> (bytes \<times> ('o, 'w) mpy_client) option" where
  "script_seal rt self m =
     (case c0pq_mpy_client_seal rt self (mp_bytes rt m) of
        (Inr frame, self') \<Rightarrow> (case mp_get_buffer rt frame of Inr f \<Rightarrow> Some (f, self') | Inl e \<Rightarrow> None)
      | (Inl e, self') \<Rightarrow> None)"

definition script_open :: "('o, 'e, 'w) mp_runtime \<Rightarrow> ('o, 'w) mpy_client \<Rightarrow> bytes \<Rightarrow> (bytes \<times> ('o, 'w) mpy_client) option" where
  "script_open rt self f =
     (case c0pq_mpy_client_open rt self (mp_bytes rt f) of
        (Inr plaintext, self') \<Rightarrow> (case mp_get_buffer rt plaintext of Inr p \<Rightarrow> Some (p, self') | Inl e \<Rightarrow> None)
      | (Inl e, self') \<Rightarrow> None)"

text \<open>What the interpreter is relied on for: bytes and integers of 32 bits convert back, and bytes are not \<open>None\<close>.\<close>

definition python_objects :: "('o, 'e, 'w) mp_runtime \<Rightarrow> bool" where
  "python_objects rt \<longleftrightarrow>
     (\<forall>b. mp_get_buffer rt (mp_bytes rt b) = Inr b \<and> mp_bytes rt b \<noteq> mp_none rt) \<and>
     (\<forall>n. - (2 ^ 31) \<le> n \<and> n < 2 ^ 31 \<longrightarrow> mp_get_int rt (mp_int rt n) = Inr n)"

lemma script_channel:
  assumes "python_objects rt"
  shows "record_channel (script_seal rt) (script_open rt) mc_client"
  using assms
  by unfold_locales
    (simp_all add: python_objects_def script_seal_def script_open_def c0pq_mpy_client_seal_def c0pq_mpy_client_open_def raise_c0_error_def)

text \<open>The interpreter of the instances: integers, byte strings and three callables, on the demonstration line.\<close>

datatype py = PyNone | PyInt int | PyBytes bytes | PyKey | PyRandom | PySend | PyReceive

definition py_call :: "(nat \<Rightarrow> fate) \<Rightarrow> py \<Rightarrow> py list \<Rightarrow> 'r line \<Rightarrow> (unit + py) \<times> 'r line" where
  "py_call fate f args w =
     (case (f, args) of
        (PyKey, [PyInt n]) \<Rightarrow> (Inr (PyInt 0), w)
      | (PyRandom, [PyInt n]) \<Rightarrow> (let (r, b, w') = line_random w (nat n) in (if r = 0 then Inr (PyBytes b) else Inl (), w'))
      | (PySend, [PyBytes frame]) \<Rightarrow> (Inr PyNone, snd (line_send fate w frame))
      | (PyReceive, [PyInt cap, PyInt t]) \<Rightarrow>
          (let (r, b, n, w') = line_receive w (nat cap) (word_of_int t) in (if r = 0 then Inr (PyBytes b) else Inl (), w'))
      | _ \<Rightarrow> (Inl (), w))"

definition py_runtime :: "(nat \<Rightarrow> fate) \<Rightarrow> (py, unit, 'r line) mp_runtime" where
  "py_runtime fate =
     \<lparr>mp_call = py_call fate, mp_get_int = (\<lambda>x. case x of PyInt n \<Rightarrow> Inr n | _ \<Rightarrow> Inl ()),
      mp_get_buffer = (\<lambda>x. case x of PyBytes b \<Rightarrow> Inr b | _ \<Rightarrow> Inl ()), mp_callable = (\<lambda>x. x \<in> {PyKey, PyRandom, PySend, PyReceive}),
      mp_int = PyInt, mp_bytes = PyBytes, mp_none = PyNone, mp_argument_error = ()\<rparr>"

lemma py_objects: "python_objects (py_runtime fate)"
  by (simp add: python_objects_def py_runtime_def)

interpretation py_channel: record_channel "script_seal (py_runtime fate)" "script_open (py_runtime fate)" mc_client
  for fate by (rule script_channel [OF py_objects])

section \<open>Callables on the line\<close>

text \<open>Callables that reach the peer over the line: \<open>send\<close> returns \<open>None\<close>, \<open>receive\<close> returns the frame and raises or returns
  \<open>None\<close> when nothing came, the random function returns bytes or raises.\<close>

definition python_line :: "('o, 'e, 'r line) mp_runtime \<Rightarrow> (nat \<Rightarrow> fate) \<Rightarrow> 'o \<Rightarrow> 'o \<Rightarrow> 'o \<Rightarrow> bool" where
  "python_line rt fate rnd sender receiver \<longleftrightarrow>
     list_all (mp_callable rt) [rnd, sender, receiver] \<and>
     (\<forall>w n. case line_random w n of (r, b, w') \<Rightarrow>
        if r = 0 then mp_call rt rnd [mp_int rt (int n)] w = (Inr (mp_bytes rt b), w')
        else \<exists>e. mp_call rt rnd [mp_int rt (int n)] w = (Inl e, w')) \<and>
     (\<forall>w f. mp_call rt sender [mp_bytes rt f] w = (Inr (mp_none rt), snd (line_send fate w f))) \<and>
     (\<forall>w cap t. case line_receive w cap t of (r, b, n, w') \<Rightarrow>
        if r = 0 then mp_call rt receiver [mp_int rt (int cap), mp_int rt (uint t)] w = (Inr (mp_bytes rt b), w')
        else \<exists>x. mp_call rt receiver [mp_int rt (int cap), mp_int rt (uint t)] w = (x, w') \<and> (x = Inr (mp_none rt) \<or> (\<exists>e. x = Inl e)))"

text \<open>A key source of either kind for the key \<open>rd\<close>: a buffer of 800 bytes, or a callable that answers every
  offset with the byte there and leaves the line alone.\<close>

definition python_key :: "('o, 'e, 'w) mp_runtime \<Rightarrow> 'o \<Rightarrow> key_source \<Rightarrow> bool" where
  "python_key rt src rd \<longleftrightarrow>
     (\<exists>b. mp_get_buffer rt src = Inr b \<and> length b = 800 \<and> rd = (\<lambda>i. b ! unat i)) \<or>
     (\<exists>e. mp_get_buffer rt src = Inl e) \<and> mp_callable rt src \<and>
       (\<forall>i w. mp_call rt src [mp_int rt (uint i)] w = (Inr (mp_int rt (uint (rd i))), w))"

lemma python_key_source:
  assumes objects: "python_objects rt" and key: "python_key rt src rd"
  obtains isb buf where "(case mp_get_buffer rt src of Inl e \<Rightarrow> (False, []) | Inr b \<Rightarrow> (True, b)) = (isb, buf)"
    and "isb \<Longrightarrow> length buf = 800" and "\<not> isb \<Longrightarrow> mp_callable rt src"
    and "\<And>x :: ('o, 'w) mpy_client. public_key_is_buffer x = isb \<Longrightarrow> public_key_buffer x = buf \<Longrightarrow> public_key_source x = src \<Longrightarrow>
      mpy_read_public_key (rt :: ('o, 'e, 'w) mp_runtime) x = pure_reader rd"
  using key unfolding python_key_def
proof (elim disjE)
  assume "\<exists>b. mp_get_buffer rt src = Inr b \<and> length b = 800 \<and> rd = (\<lambda>i. b ! unat i)"
  then obtain b where b: "mp_get_buffer rt src = Inr b" "length b = 800" "rd = (\<lambda>i. b ! unat i)" by blast
  show ?thesis by (rule that [of True b]) (simp_all add: b fun_eq_iff mpy_read_public_key_def)
next
  assume k: "(\<exists>e. mp_get_buffer rt src = Inl e) \<and> mp_callable rt src \<and>
    (\<forall>i w. mp_call rt src [mp_int rt (uint i)] w = (Inr (mp_int rt (uint (rd i))), w))"
  have "mpy_read_public_key rt x w i = (rd i, w)" if x: "\<not> public_key_is_buffer x" "public_key_source x = src"
    for x :: "('o, 'w) mpy_client" and w i
  proof -
    have c: "mp_call rt src [mp_int rt (uint i)] w = (Inr (mp_int rt (uint (rd i))), w)" using k by blast
    have "uint (rd i) < 256" "0 \<le> uint (rd i)" using unsigned_less [where ?'a = int, of "rd i"] by simp_all
    then have "- 2147483648 \<le> uint (rd i) \<and> uint (rd i) < 2147483648" by (intro conjI) linarith+
    then have "mp_get_int rt (mp_int rt (uint (rd i))) = Inr (uint (rd i))" using objects by (simp add: python_objects_def)
    then show ?thesis by (simp add: mpy_read_public_key_def x c)
  qed
  with k show ?thesis by (intro that [of False "[]"]) (auto simp: fun_eq_iff)
qed

lemma callbacks_on_line:
  assumes "python_objects rt" and "python_line rt fate (random_function self) (send_function self) (receive_function self)"
  shows "mpy_random_bytes rt self = line_random" and "mpy_send_frame rt self = line_send fate" and "mpy_receive_frame rt self = line_receive"
proof -
  have o: "mp_get_buffer rt (mp_bytes rt b) = Inr b" "mp_bytes rt b \<noteq> mp_none rt" for b
    using assms(1) by (simp_all add: python_objects_def)
  note l = conjunct2 [OF assms(2) [unfolded python_line_def], THEN conjunct1]
    conjunct2 [OF assms(2) [unfolded python_line_def], THEN conjunct2, THEN conjunct1]
    conjunct2 [OF assms(2) [unfolded python_line_def], THEN conjunct2, THEN conjunct2]
  show "mpy_random_bytes rt self = line_random"
  proof (intro ext)
    fix w n
    show "mpy_random_bytes rt self w n = line_random w n"
      using l(1) [THEN spec, of w, THEN spec, of n] by (auto simp: mpy_random_bytes_def line_random_def o split: if_split_asm)
  qed
  have "fst (line_send fate w f) = 0" for w f by (simp add: line_send_def Let_def case_prod_unfold split: fate.split)
  then show "mpy_send_frame rt self = line_send fate"
    by (intro ext) (simp add: mpy_send_frame_def l(2) prod_eq_iff)
  show "mpy_receive_frame rt self = line_receive"
  proof (intro ext)
    fix w cap t
    show "mpy_receive_frame rt self w cap t = line_receive w cap t"
      using l(3) [THEN spec, of w, THEN spec, of cap, THEN spec, of t]
      by (auto simp: mpy_receive_frame_def line_receive_def o split: if_split_asm option.split_asm)
  qed
qed

definition script_client ::
  "(nat \<Rightarrow> fate) \<Rightarrow> bytes \<Rightarrow> bytes \<Rightarrow> int \<Rightarrow> bytes \<Rightarrow> key_source \<Rightarrow> int \<Rightarrow> int \<Rightarrow> int \<Rightarrow> 'r line c0pq_client" where
  "script_client fate did dkey epoch kid rd md timeout retries =
     client_zero\<lparr>config := \<lparr>device_id = did, psk = dkey, cfg_epoch = word_of_int epoch, public_key_id = kid, read_public_key = Some (pure_reader rd),
         random_bytes = Some line_random, send_frame = Some (line_send fate), receive_frame = Some line_receive, mode = md,
         timeout_ms = (if word_of_int timeout = (0 :: u32) then 3000 else word_of_int timeout), maximum_retries = word_of_int retries\<rparr>,
       client_state := C0PQ_CLIENT_READY\<rparr>"

text \<open>What the constructor makes of such arguments, and the call \<open>connect\<close> then is.\<close>

lemma script_made:
  fixes w :: "'r line" and rt :: "('o, 'e, 'r line) mp_runtime"
  assumes objects: "python_objects rt" and line: "python_line rt fate rnd sender receiver" and key: "python_key rt src rd"
    and len: "length did = 8" "length dkey = 32" "length kid = 16" and prov: "provisioning_ok dkey kid md"
    and ints: "0 \<le> epoch" "epoch < 2 ^ 31" "0 \<le> timeout" "timeout < 2 ^ 31" "0 \<le> retries" "retries < 256"
  defines "C \<equiv> script_client fate did dkey epoch kid rd md timeout retries"
  obtains self where "c0pq_mpy_client_make_new rt [mp_bytes rt did, mp_bytes rt dkey, mp_int rt epoch, mp_bytes rt kid, src, rnd, sender, receiver,
        mp_int rt md, mp_int rt timeout, mp_int rt retries] 0 = Inr self"
    and "c0pq_mpy_client_connect rt self w = map_option (\<lambda>(result, c', ws, w').
      (case raise_c0_error result of Inl e \<Rightarrow> Inl e | Inr u \<Rightarrow> Inr (mp_none rt), self\<lparr>mc_client := the c', mc_workspace := the ws\<rparr>, w'))
      (c0pq_client_connect (Some C) (Some workspace_zero) w)"
proof -
  have md: "md = 0 \<or> md = 1" using prov by (simp add: provisioning_ok_def)
  have o: "mp_get_buffer rt (mp_bytes rt b) = Inr b" "- (2 ^ 31) \<le> n \<Longrightarrow> n < 2 ^ 31 \<Longrightarrow> mp_get_int rt (mp_int rt n) = Inr n" for b n
    using objects by (simp_all add: python_objects_def)
  have cal: "mp_callable rt rnd" "mp_callable rt sender" "mp_callable rt receiver" using line by (simp_all add: python_line_def)
  obtain isb buf where kb: "(case mp_get_buffer rt src of Inl e \<Rightarrow> (False, []) | Inr b \<Rightarrow> (True, b)) = (isb, buf)"
    and kl: "isb \<Longrightarrow> length buf = 800" "\<not> isb \<Longrightarrow> mp_callable rt src"
    and kr: "\<And>x. public_key_is_buffer x = isb \<Longrightarrow> public_key_buffer x = buf \<Longrightarrow> public_key_source x = src \<Longrightarrow>
      mpy_read_public_key rt x = (pure_reader rd :: 'r line pk_read)"
    using python_key_source [OF objects key] by blast
  define S :: "('o, 'r line) mpy_client" where "S = \<lparr>mc_client = client_zero, mc_workspace = workspace_zero, public_key_source = src,
    random_function = rnd, send_function = sender, receive_function = receiver, public_key_buffer = buf, public_key_length = length buf,
    public_key_is_buffer = isb\<rparr>"
  have cb: "mpy_random_bytes rt S = line_random" "mpy_send_frame rt S = line_send fate" "mpy_receive_frame rt S = line_receive"
    using callbacks_on_line [OF objects, of fate S] line by (simp_all add: S_def)
  have kS: "mpy_read_public_key rt S = pure_reader rd" by (rule kr) (simp_all add: S_def)
  have m32: "uint (word_of_int md :: u32) = md" using md by auto
  have gi: "mp_get_int rt (mp_int rt epoch) = Inr epoch" "mp_get_int rt (mp_int rt md) = Inr md"
    "mp_get_int rt (mp_int rt timeout) = Inr timeout" "mp_get_int rt (mp_int rt retries) = Inr retries"
    by (rule o(2); use md ints in auto)+
  have kl': "isb \<or> mp_callable rt src" "isb \<longrightarrow> length buf = 800" using kl by blast+
  let ?self = "S\<lparr>mc_client := C\<rparr>"
  have make: "c0pq_mpy_client_make_new rt [mp_bytes rt did, mp_bytes rt dkey, mp_int rt epoch, mp_bytes rt kid, src, rnd, sender, receiver,
      mp_int rt md, mp_int rt timeout, mp_int rt retries] 0 = Inr ?self"
    using len kl' cal
    by (simp add: c0pq_mpy_client_make_new_def o(1) gi kb optional_int_def S_def [symmetric] cb kS init_present m32 prov raise_c0_error_def
        config_zero_def C_def script_client_def)
  have "mc_workspace ?self = workspace_zero" by (simp add: S_def)
  then have "c0pq_mpy_client_connect rt ?self w = map_option (\<lambda>(result, c', ws, w').
      (case raise_c0_error result of Inl e \<Rightarrow> Inl e | Inr u \<Rightarrow> Inr (mp_none rt), ?self\<lparr>mc_client := the c', mc_workspace := the ws\<rparr>, w'))
      (c0pq_client_connect (Some C) (Some workspace_zero) w)"
    unfolding c0pq_mpy_client_connect_def by simp
  with make show ?thesis by (rule that)
qed

text \<open>The instance: the demonstration parties, for the key behind a callable.\<close>

abbreviation demo_fate :: "nat \<Rightarrow> fate" where
  "demo_fate \<equiv> \<lambda>t. if even t then Lost_answer else Delivered"

lemma py_line: "python_line (py_runtime fate) fate PyRandom PySend PyReceive"
  by (simp add: python_line_def py_runtime_def py_call_def case_prod_unfold Let_def)

lemma py_key: "python_key (py_runtime fate) PyKey demo_rd"
  by (simp add: python_key_def py_runtime_def py_call_def demo_rd_def)

lemma demo_provisioning: "provisioning_ok (replicate 32 2) (replicate 16 4) C0PQ_PQ_BOOTSTRAP_RATCHET"
  by (auto simp: provisioning_ok_def intro: exI [of _ 0])

section \<open>Properties\<close>

text \<open>C13: errors of a MicroPython client. For every interpreter, every behaviour of the callables, exceptions
  and changes of the world included, each called anew wherever the C code calls it back, the key source for
  every byte of the key it reads, and every object the constructor returned: \<open>connect\<close>, when it returns, has
  wiped the workspace, and it either returns
  \<open>None\<close> and leaves the client established, or raises \<open>OSError\<close> with one of the nine error numbers of the
  library and leaves a failed client that holds no secret. What a callable raises never
  gets out.\<close>

theorem script_connect_errors:
  assumes "c0pq_mpy_client_make_new rt args n_kw = Inr self" and "c0pq_mpy_client_connect rt self w = Some (outcome, self', w')"
  shows "mc_workspace self' = workspace_zero \<and>
    (outcome = Inr (mp_none rt) \<and> c0pq_mpy_client_state rt self' = mp_int rt 3 \<or>
     (\<exists>n\<in>{1..9}. outcome = Inl (OSError n)) \<and> c0pq_mpy_client_state rt self' = mp_int rt 4 \<and> secrets_wiped (mc_client self'))"
proof -
  note made = make_new_object [OF assms(1)]
  note wf = made(1)
  obtain st d v where run: "connect_run (mc_client self) (mc_workspace self) w = Some (st, d, v, w')"
    and out: "outcome = (case raise_c0_error st of Inl e \<Rightarrow> Inl e | Inr u \<Rightarrow> Inr (mp_none rt))" "mc_client self' = d" "mc_workspace self' = v"
    using assms(2) made(2) by (auto simp: c0pq_mpy_client_connect_def c0pq_client_connect_def Let_def)
  note fail = connect_run_fail [OF wf run]
  show ?thesis
  proof (cases "st = C0PQLINK_OK")
    case True
    with connect_established [OF wf run [unfolded True]] fail(1) out show ?thesis
      by (simp add: raise_c0_error_def c0pq_mpy_client_state_def)
  next
    case False
    then have "- status_code st \<in> {1..9}" by (cases st) simp_all
    moreover have "outcome = Inl (OSError (- status_code st))" using False out(1) by (simp add: raise_c0_error_def)
    moreover have "client_state d = C0PQ_CLIENT_FAILED" "secrets_wiped d" using fail(2) [OF False] by (simp_all add: failed_client_def)
    ultimately show ?thesis using fail(1) out(2,3) unfolding c0pq_mpy_client_state_def by auto
  qed
qed

theorem script_connect_errors_witness:
  "\<exists>self self'. c0pq_mpy_client_make_new (py_runtime demo_fate)
      [PyBytes (replicate 8 1), PyBytes (replicate 32 2), PyInt 3, PyBytes (replicate 16 4), PyKey, PyRandom, PySend, PyReceive, PyInt 1, PyInt 10, PyInt 1]
      0 = Inr self \<and>
    c0pq_mpy_client_connect (py_runtime demo_fate) self (demo_line\<lparr>ln_entropy := []\<rparr>)
      = Some (Inl (OSError 9), self', demo_line\<lparr>ln_entropy := []\<rparr>) \<and> secrets_wiped (mc_client self')"
proof -
  let ?rt = "py_runtime demo_fate :: (py, unit, unit line) mp_runtime" and ?w = "demo_line\<lparr>ln_entropy := []\<rparr>"
  obtain self where made: "c0pq_mpy_client_make_new ?rt [mp_bytes ?rt (replicate 8 1), mp_bytes ?rt (replicate 32 2), mp_int ?rt 3, mp_bytes ?rt (replicate 16 4),
      PyKey, PyRandom, PySend, PyReceive, mp_int ?rt 1, mp_int ?rt 10, mp_int ?rt 1] 0 = Inr self"
    and c: "c0pq_mpy_client_connect ?rt self ?w = map_option (\<lambda>(result, c', ws, w').
      (case raise_c0_error result of Inl e \<Rightarrow> Inl e | Inr u \<Rightarrow> Inr (mp_none ?rt), self\<lparr>mc_client := the c', mc_workspace := the ws\<rparr>, w'))
      (c0pq_client_connect (Some (script_client demo_fate (replicate 8 1) (replicate 32 2) 3 (replicate 16 4) demo_rd 1 10 1)) (Some workspace_zero) ?w)"
    by (rule script_made [OF py_objects py_line py_key _ _ _ demo_provisioning, where did = "replicate 8 1" and epoch = 3 and timeout = 10
        and retries = 1 and w = ?w]) simp_all
  have "\<exists>self'. c0pq_mpy_client_connect ?rt self ?w = Some (Inl (OSError 9), self', ?w)"
    by (simp add: c c0pq_client_connect_def script_client_def connect_run_def connect_hello_def line_random_def connect_fail_def raise_c0_error_def)
  then obtain self' where run: "c0pq_mpy_client_connect ?rt self ?w = Some (Inl (OSError 9), self', ?w)" by blast
  from script_connect_errors [OF made run] have "secrets_wiped (mc_client self')" by auto
  with made run show ?thesis by (auto simp: py_runtime_def)
qed



end
