(* ===== verification/Migration.thy ===== *)
theory Migration
  imports KeySchedule
begin

text \<open>
  \<open>session/migration.c\<close>: the authenticated two-slot journal of the migration policy. The
  storage is the caller's: its read and write callbacks are arguments acting on a world \<open>'w\<close>.
  A read returns the result code and the 52 bytes it filled, a write its result code.

  The theory shows which byte strings are records, which record \<open>load\<close> selects, and, for
  storage that keeps the documented contract (\<open>journal_reads\<close>, \<open>journal_writes\<close>), that
  a commit installs exactly the next record or leaves the current one, so that no sequence of
  commits, failed and torn writes included, ever lowers the policy state or the epoch.
\<close>

unbundle bit_operations_syntax

abbreviation C0PQ_JOURNAL_READ_OK :: int where "C0PQ_JOURNAL_READ_OK \<equiv> 0"
abbreviation C0PQ_JOURNAL_READ_EMPTY :: int where "C0PQ_JOURNAL_READ_EMPTY \<equiv> 1"

abbreviation C0PQ_MIGRATION_LEGACY_PSK :: int where "C0PQ_MIGRATION_LEGACY_PSK \<equiv> 0"
abbreviation C0PQ_MIGRATION_PSK_PLUS_PQ :: int where "C0PQ_MIGRATION_PSK_PLUS_PQ \<equiv> 1"
abbreviation C0PQ_MIGRATION_PQ_REQUIRED_WITH_PSK_AUTH :: int where
  "C0PQ_MIGRATION_PQ_REQUIRED_WITH_PSK_AUTH \<equiv> 2"

type_synonym 'w journal_read_fn = "'w \<Rightarrow> u8 \<Rightarrow> int \<times> bytes \<times> 'w"
type_synonym 'w journal_write_fn = "'w \<Rightarrow> u8 \<Rightarrow> bytes \<Rightarrow> int \<times> 'w"

text \<open>The C enumeration of policy states is its integer, so that out-of-range values exist.\<close>

record c0pq_migration_value =
  generation :: u32
  policy :: int
  active_key_slot :: u8
  epoch :: u64
  key_id :: bytes

definition migration_zero :: c0pq_migration_value where
  "migration_zero = \<lparr>generation = 0, policy = 0, active_key_slot = 0, epoch = 0, key_id = replicate 16 0\<rparr>"

section \<open>Records\<close>

definition encode_record :: "c0pq_migration_value \<Rightarrow> bytes \<Rightarrow> bytes" where
  "encode_record value journal_key =
     (let output = [of_char CHR ''C'', of_char CHR ''0'', of_char CHR ''M'', of_char CHR ''J'', 1,
                    of_int (policy value), active_key_slot value, 0]
                   @ c0pq_store32_be (generation value) @ c0pq_store64_be (epoch value) @ take 16 (key_id value)
      in output @ c0pq_auth_tag journal_key ''C0PQ/1 migration journal'' output)"

definition decode_record ::
  "c0pq_migration_value \<Rightarrow> bytes \<Rightarrow> bytes \<Rightarrow> status \<times> c0pq_migration_value" where
  "decode_record value input journal_key =
     (if input ! 0 \<noteq> of_char CHR ''C'' \<or> input ! 1 \<noteq> of_char CHR ''0'' \<or> input ! 2 \<noteq> of_char CHR ''M''
         \<or> input ! 3 \<noteq> of_char CHR ''J'' \<or> input ! 4 \<noteq> 1 \<or> input ! 5 > 2 \<or> input ! 6 > 1 \<or> input ! 7 \<noteq> 0
      then (C0PQLINK_ERR_STATE, value)
      else
        let result = c0pq_verify_auth_tag (slice input 36 16) journal_key ''C0PQ/1 migration journal'' (take 36 input)
        in if result \<noteq> C0PQLINK_OK then (result, value)
           else
             let value' = \<lparr>generation = c0pq_load32_be (slice input 8 4), policy = uint (input ! 5),
                           active_key_slot = input ! 6, epoch = c0pq_load64_be (slice input 12 8),
                           key_id = slice input 20 16\<rparr>
             in if generation value' = 0 then (C0PQLINK_ERR_STATE, migration_zero)
                else (C0PQLINK_OK, value'))"

section \<open>Loading\<close>

text \<open>One turn of the loop over the slots: the candidate, whether it is valid, and whether the read
  failed.\<close>

definition load_slot ::
  "'w journal_read_fn \<Rightarrow> bytes \<Rightarrow> u8 \<Rightarrow> 'w \<Rightarrow> c0pq_migration_value \<times> bool \<times> bool \<times> 'w" where
  "load_slot read_record journal_key slot w =
     (let (read_result, raw, w') = read_record w slot;
          (result, candidate) = (if read_result = C0PQ_JOURNAL_READ_OK
                                 then decode_record migration_zero raw journal_key
                                 else (C0PQLINK_ERR_STATE, migration_zero))
      in if read_result = C0PQ_JOURNAL_READ_OK \<and> result = C0PQLINK_OK then (candidate, True, False, w')
         else (candidate, False, read_result < C0PQ_JOURNAL_READ_OK, w'))"

definition c0pq_migration_load ::
  "c0pq_migration_value option \<Rightarrow> u8 option \<Rightarrow> 'w journal_read_fn option \<Rightarrow> 'w \<Rightarrow> bytes option
     \<Rightarrow> status \<times> c0pq_migration_value option \<times> u8 option \<times> 'w" where
  "c0pq_migration_load value record_slot read_record w journal_key =
     (case (value, record_slot, read_record, journal_key) of
        (Some v, Some rs, Some rd, Some k) \<Rightarrow>
          let (candidate0, valid0, failure0, w1) = load_slot rd k 0 w;
              (candidate1, valid1, failure1, w2) = load_slot rd k 1 w1;
              io_failure = (failure0 \<or> failure1)
          in if \<not> valid0 \<and> \<not> valid1
             then (if io_failure then C0PQLINK_ERR_IO else C0PQLINK_ERR_STATE, value, record_slot, w2)
             else if valid1 \<and> (\<not> valid0 \<or> generation candidate1 > generation candidate0)
             then (C0PQLINK_OK, Some candidate1, Some 1, w2)
             else (C0PQLINK_OK, Some candidate0, Some 0, w2)
      | _ \<Rightarrow> (C0PQLINK_ERR_ARGUMENT, value, record_slot, w))"

section \<open>The policy state machine\<close>

definition c0pq_migration_transition_allowed :: "int \<Rightarrow> int \<Rightarrow> bool" where
  "c0pq_migration_transition_allowed current next =
     (if current < C0PQ_MIGRATION_LEGACY_PSK \<or> current > C0PQ_MIGRATION_PQ_REQUIRED_WITH_PSK_AUTH
         \<or> next < C0PQ_MIGRATION_LEGACY_PSK \<or> next > C0PQ_MIGRATION_PQ_REQUIRED_WITH_PSK_AUTH
      then False else next \<ge> current)"

section \<open>Writing with read-back\<close>

text \<open>The guard both writers share, and the write followed by the verifying read. The C conditions
  are short-circuiting: a later call happens only when the earlier ones succeeded.\<close>

definition value_in_range :: "c0pq_migration_value \<Rightarrow> bool" where
  "value_in_range v \<longleftrightarrow>
     \<not> (active_key_slot v > 1 \<or> policy v < C0PQ_MIGRATION_LEGACY_PSK
        \<or> policy v > C0PQ_MIGRATION_PQ_REQUIRED_WITH_PSK_AUTH)"

definition write_and_verify ::
  "'w journal_read_fn \<Rightarrow> 'w journal_write_fn \<Rightarrow> bytes \<Rightarrow> u8 \<Rightarrow> bytes \<Rightarrow> 'w \<Rightarrow> status \<times> 'w" where
  "write_and_verify read_record write_record journal_key target_slot raw w =
     (let (r, w1) = write_record w target_slot raw
      in if r \<noteq> 0 then (C0PQLINK_ERR_IO, w1)
         else
           let (read_result, verify_raw, w2) = read_record w1 target_slot
           in if read_result \<noteq> C0PQ_JOURNAL_READ_OK \<or> \<not> c0pqlink_ct_equal raw verify_raw 52
                 \<or> fst (decode_record migration_zero verify_raw journal_key) \<noteq> C0PQLINK_OK
              then (C0PQLINK_ERR_IO, w2) else (C0PQLINK_OK, w2))"

definition c0pq_migration_initialize ::
  "c0pq_migration_value option \<Rightarrow> 'w journal_read_fn option \<Rightarrow> 'w journal_write_fn option \<Rightarrow> 'w
     \<Rightarrow> bytes option \<Rightarrow> status \<times> 'w" where
  "c0pq_migration_initialize initial_value read_record write_record w journal_key =
     (case (initial_value, read_record, write_record, journal_key) of
        (Some v, Some rd, Some wr, Some k) \<Rightarrow>
          if \<not> value_in_range v then (C0PQLINK_ERR_ARGUMENT, w)
          else
            let (slot0_status, _, w1) = rd w 0;
                (slot1_status, _, w2) = rd w1 1
            in if slot0_status = C0PQ_JOURNAL_READ_OK \<or> slot1_status = C0PQ_JOURNAL_READ_OK
               then (C0PQLINK_ERR_STATE, w2)
               else if slot0_status \<noteq> C0PQ_JOURNAL_READ_EMPTY \<or> slot1_status \<noteq> C0PQ_JOURNAL_READ_EMPTY
               then (C0PQLINK_ERR_IO, w2)
               else write_and_verify rd wr k 0 (encode_record (v\<lparr>generation := 1\<rparr>) k) w2
      | _ \<Rightarrow> (C0PQLINK_ERR_ARGUMENT, w))"

definition c0pq_migration_commit ::
  "c0pq_migration_value option \<Rightarrow> 'w journal_read_fn option \<Rightarrow> 'w journal_write_fn option \<Rightarrow> 'w
     \<Rightarrow> bytes option \<Rightarrow> status \<times> 'w" where
  "c0pq_migration_commit next_value read_record write_record w journal_key =
     (case (next_value, read_record, write_record, journal_key) of
        (Some v, Some rd, Some wr, Some k) \<Rightarrow>
          if \<not> value_in_range v then (C0PQLINK_ERR_ARGUMENT, w)
          else
            let (result, cur, slot, w1) = c0pq_migration_load (Some migration_zero) (Some 0) (Some rd) w (Some k)
            in if result \<noteq> C0PQLINK_OK then (result, w1)
               else
                 let current = the cur; current_slot = the slot
                 in if \<not> c0pq_migration_transition_allowed (policy current) (policy v)
                       \<or> epoch v < epoch current \<or> generation current = - 1
                    then (C0PQLINK_ERR_STATE, w1)
                    else
                      write_and_verify rd wr k (current_slot XOR 1)
                        (encode_record (v\<lparr>generation := generation current + 1\<rparr>) k) w1
      | _ \<Rightarrow> (C0PQLINK_ERR_ARGUMENT, w))"

section \<open>Which byte strings are records\<close>

definition migration_wf :: "c0pq_migration_value \<Rightarrow> bool" where
  "migration_wf v \<longleftrightarrow> value_in_range v \<and> generation v \<noteq> 0 \<and> length (key_id v) = 16"

lemma length_encode_record [simp]: "length (key_id v) = 16 \<Longrightarrow> length (encode_record v k) = 52"
  by (simp add: encode_record_def Let_def store32_be store64_be)

lemma uint_of_policy: "value_in_range v \<Longrightarrow> uint (of_int (policy v) :: u8) = policy v"
  by (simp add: value_in_range_def take_bit_int_eq_self unsigned_of_int)

lemma policy_byte_range: "value_in_range v \<Longrightarrow> \<not> 2 < (of_int (policy v) :: u8)"
  by (simp add: word_less_def uint_of_policy) (simp add: value_in_range_def)

definition record_core :: "c0pq_migration_value \<Rightarrow> bytes" where
  "record_core v = [of_char CHR ''C'', of_char CHR ''0'', of_char CHR ''M'', of_char CHR ''J'', 1,
                    of_int (policy v), active_key_slot v, 0]
                   @ be_bytes 4 (generation v) @ be_bytes 8 (epoch v) @ key_id v"

lemma length_record_core [simp]: "length (key_id v) = 16 \<Longrightarrow> length (record_core v) = 36"
  by (simp add: record_core_def)

lemma encode_record_core:
  "length (key_id v) = 16 \<Longrightarrow>
   encode_record v k = record_core v @ c0pq_auth_tag k ''C0PQ/1 migration journal'' (record_core v)"
  by (simp add: encode_record_def record_core_def Let_def store32_be store64_be)

lemma decode_encode_record:
  assumes "migration_wf v"
  shows "decode_record v0 (encode_record v k) k = (C0PQLINK_OK, v)"
proof -
  let ?c = "record_core v" and ?t = "c0pq_auth_tag k ''C0PQ/1 migration journal'' (record_core v)"
  have kid: "length (key_id v) = 16" and gen: "generation v \<noteq> 0" and rng: "value_in_range v"
    using assms by (simp_all add: migration_wf_def)
  have head: "(?c @ ?t) ! 0 = of_char CHR ''C''" "(?c @ ?t) ! 1 = of_char CHR ''0''"
    "(?c @ ?t) ! 2 = of_char CHR ''M''" "(?c @ ?t) ! 3 = of_char CHR ''J''" "(?c @ ?t) ! 4 = 1"
    "(?c @ ?t) ! 5 = of_int (policy v)" "(?c @ ?t) ! 6 = active_key_slot v" "(?c @ ?t) ! 7 = 0"
    by (simp_all add: record_core_def)
  have fields: "slice (?c @ ?t) 8 4 = be_bytes 4 (generation v)" "slice (?c @ ?t) 12 8 = be_bytes 8 (epoch v)"
    "slice (?c @ ?t) 20 16 = key_id v" "slice (?c @ ?t) 36 16 = ?t" "take 36 (?c @ ?t) = ?c"
    using kid by (simp_all add: record_core_def slice_def)
  have bounds: "\<not> 2 < (of_int (policy v) :: u8)" "\<not> 1 < active_key_slot v"
    using policy_byte_range [OF rng] rng by (simp_all add: value_in_range_def)
  have tag: "c0pq_verify_auth_tag ?t k ''C0PQ/1 migration journal'' ?c = C0PQLINK_OK"
    by (simp add: verify_auth_tag_iff)
  show ?thesis
    unfolding encode_record_core [OF kid] decode_record_def head fields tag
    using bounds gen by (simp add: Let_def load32_be load64_be be_word_be_bytes uint_of_policy [OF rng])
qed

lemma decode_record_accepts:
  assumes len: "length b = 52" and ok: "decode_record v0 b k = (C0PQLINK_OK, v)"
  shows "migration_wf v \<and> b = encode_record v k"
proof -
  let ?g = "b ! 0 \<noteq> of_char CHR ''C'' \<or> b ! 1 \<noteq> of_char CHR ''0'' \<or> b ! 2 \<noteq> of_char CHR ''M''
         \<or> b ! 3 \<noteq> of_char CHR ''J'' \<or> b ! 4 \<noteq> 1 \<or> b ! 5 > 2 \<or> b ! 6 > 1 \<or> b ! 7 \<noteq> 0"
  let ?r = "c0pq_verify_auth_tag (slice b 36 16) k ''C0PQ/1 migration journal'' (take 36 b)"
  note ok' = ok [unfolded decode_record_def Let_def]
  have g: "\<not> ?g" by (rule notI) (use ok' in simp)
  have r: "?r = C0PQLINK_OK" by (rule ccontr) (use ok' g in simp)
  have nz: "c0pq_load32_be (slice b 8 4) \<noteq> 0" by (rule notI) (use ok' g r in simp)
  have v: "v = \<lparr>generation = c0pq_load32_be (slice b 8 4), policy = uint (b ! 5), active_key_slot = b ! 6,
               epoch = c0pq_load64_be (slice b 12 8), key_id = slice b 20 16\<rparr>"
    using ok' g r nz by simp
  have "uint (b ! 5) \<le> 2" using g by (simp add: word_less_def)
  then have wf: "migration_wf v" using g nz len by (simp add: v migration_wf_def value_in_range_def)
  have head: "take 8 b = [b ! 0, b ! 1, b ! 2, b ! 3, b ! 4, b ! 5, b ! 6, b ! 7]"
    using list_of_length8 [of "take 8 b"] len by simp
  have "take 36 b = take 8 b @ slice b 8 4 @ slice b 12 8 @ slice b 20 16"
    using slice_split [of b 0 8 28] slice_split [of b 8 4 24] slice_split [of b 12 8 16] by (simp add: take_slice)
  then have core: "take 36 b = record_core v"
    using head g len by (simp add: record_core_def v load32_be load64_be be_bytes_be_word)
  have "slice b 36 16 = drop 36 b" using len by (simp add: slice_def)
  then have "drop 36 b = c0pq_auth_tag k ''C0PQ/1 migration journal'' (take 36 b)"
    using r len verify_auth_tag_iff [of "slice b 36 16" k "''C0PQ/1 migration journal''" "take 36 b"] by simp
  then have "b = encode_record v k"
    using wf core append_take_drop_id [of 36 b] by (simp add: encode_record_core migration_wf_def)
  with wf show ?thesis by simp
qed


section \<open>What a storage holds\<close>

text \<open>The record of a slot, given the code and the bytes a read returns, and the record in force:
  the valid one of the larger generation, with its slot.\<close>

definition stored_record :: "bytes \<Rightarrow> int \<times> bytes \<Rightarrow> c0pq_migration_value option" where
  "stored_record k c =
     (if fst c = C0PQ_JOURNAL_READ_OK \<and> fst (decode_record migration_zero (snd c) k) = C0PQLINK_OK
      then Some (snd (decode_record migration_zero (snd c) k)) else None)"

definition select_record ::
  "c0pq_migration_value option \<Rightarrow> c0pq_migration_value option \<Rightarrow> (c0pq_migration_value \<times> u8) option" where
  "select_record r0 r1 =
     (case (r0, r1) of
        (None, None) \<Rightarrow> None
      | (Some v0, None) \<Rightarrow> Some (v0, 0)
      | (None, Some v1) \<Rightarrow> Some (v1, 1)
      | (Some v0, Some v1) \<Rightarrow> if generation v0 < generation v1 then Some (v1, 1) else Some (v0, 0))"

definition current_record :: "bytes \<Rightarrow> (u8 \<Rightarrow> int \<times> bytes) \<Rightarrow> (c0pq_migration_value \<times> u8) option" where
  "current_record k c = select_record (stored_record k (c 0)) (stored_record k (c 1))"

text \<open>The storage contract of \<open>migration.h\<close>. \<open>contents w s\<close> is what a read of slot
  \<open>s\<close> returns; reads do not change it and fill 52 bytes when they succeed. A write touches only
  its own slot; whatever it reports, it leaves there the record, the old contents, or contents that
  are not a valid record (a torn write).\<close>

definition journal_reads :: "'w journal_read_fn \<Rightarrow> ('w \<Rightarrow> u8 \<Rightarrow> int \<times> bytes) \<Rightarrow> bool" where
  "journal_reads rd contents \<longleftrightarrow>
     (\<forall>w s. fst (rd w s) = fst (contents w s) \<and> fst (snd (rd w s)) = snd (contents w s) \<and>
            contents (snd (snd (rd w s))) = contents w \<and>
            (fst (contents w s) = C0PQ_JOURNAL_READ_OK \<longrightarrow> length (snd (contents w s)) = 52))"

definition journal_writes ::
  "'w journal_write_fn \<Rightarrow> ('w \<Rightarrow> u8 \<Rightarrow> int \<times> bytes) \<Rightarrow> bytes \<Rightarrow> bool" where
  "journal_writes wr contents k \<longleftrightarrow>
     (\<forall>w s b. (\<forall>t. t \<noteq> s \<longrightarrow> contents (snd (wr w s b)) t = contents w t) \<and>
              (contents (snd (wr w s b)) s = (C0PQ_JOURNAL_READ_OK, b) \<or>
               contents (snd (wr w s b)) s = contents w s \<or>
               stored_record k (contents (snd (wr w s b)) s) = None))"

lemma stored_record_valid:
  assumes "length (snd c) = 52" and "stored_record k c = Some v"
  shows "migration_wf v" and "c = (C0PQ_JOURNAL_READ_OK, encode_record v k)"
proof -
  have "decode_record migration_zero (snd c) k = (C0PQLINK_OK, v)" and z: "fst c = 0"
    using assms(2) by (auto simp: stored_record_def prod_eq_iff split: if_split_asm)
  then have "migration_wf v \<and> snd c = encode_record v k"
    using decode_record_accepts [OF assms(1)] by blast
  with z show "migration_wf v" and "c = (C0PQ_JOURNAL_READ_OK, encode_record v k)"
    by (simp_all add: prod_eq_iff)
qed

lemma stored_encoded:
  "migration_wf v \<Longrightarrow> stored_record k (C0PQ_JOURNAL_READ_OK, encode_record v k) = Some v"
  by (simp add: stored_record_def decode_encode_record)

section \<open>Loading selects the record in force\<close>

lemma load_slot_stored:
  "load_slot rd k s w =
     (let c = (fst (rd w s), fst (snd (rd w s))) in
      (case stored_record k c of Some v \<Rightarrow> (v, True, False, snd (snd (rd w s)))
       | None \<Rightarrow> (fst (load_slot rd k s w), False, fst c < C0PQ_JOURNAL_READ_OK, snd (snd (rd w s)))))"
  by (auto simp: load_slot_def stored_record_def Let_def case_prod_unfold)

lemma load_current:
  fixes rd :: "'w journal_read_fn"
  assumes "journal_reads rd contents" and w2_def: "w2 = snd (snd (rd (snd (snd (rd w 0))) 1))"
  shows "c0pq_migration_load (Some v0) (Some s0) (Some rd) w (Some k) =
     (case current_record k (contents w) of
        Some (v, s) \<Rightarrow> (C0PQLINK_OK, Some v, Some s, w2)
      | None \<Rightarrow> (if fst (contents w 0) < C0PQ_JOURNAL_READ_OK \<or> fst (contents w 1) < C0PQ_JOURNAL_READ_OK
                  then C0PQLINK_ERR_IO else C0PQLINK_ERR_STATE, Some v0, Some s0, w2))"
    and "contents w2 = contents w"
proof -
  let ?w1 = "snd (snd (rd w 0))"
  have c: "(fst (rd u s), fst (snd (rd u s))) = contents u s" "contents (snd (snd (rd u s))) = contents u" for u s
    using assms(1) by (simp_all add: journal_reads_def prod_eq_iff)
  then show "contents w2 = contents w" by (simp add: w2_def)
  have rds: "fst (rd u s) = fst (contents u s)" "fst (snd (rd u s)) = snd (contents u s)" for u s
    using c(1) [of u s] by (simp_all add: prod_eq_iff)
  have l0: "load_slot rd k 0 w = (case stored_record k (contents w 0) of Some v \<Rightarrow> (v, True, False, ?w1)
       | None \<Rightarrow> (fst (load_slot rd k 0 w), False, fst (contents w 0) < 0, ?w1))"
    by (subst load_slot_stored) (simp add: Let_def rds)
  have l1: "load_slot rd k 1 ?w1 = (case stored_record k (contents w 1) of Some v \<Rightarrow> (v, True, False, w2)
       | None \<Rightarrow> (fst (load_slot rd k 1 ?w1), False, fst (contents w 1) < 0, w2))"
    by (subst load_slot_stored) (simp add: Let_def rds c(2) w2_def split: option.split)
  show "c0pq_migration_load (Some v0) (Some s0) (Some rd) w (Some k) =
     (case current_record k (contents w) of
        Some (v, s) \<Rightarrow> (C0PQLINK_OK, Some v, Some s, w2)
      | None \<Rightarrow> (if fst (contents w 0) < C0PQ_JOURNAL_READ_OK \<or> fst (contents w 1) < C0PQ_JOURNAL_READ_OK
                  then C0PQLINK_ERR_IO else C0PQLINK_ERR_STATE, Some v0, Some s0, w2))"
  proof (cases "stored_record k (contents w 0)")
    case None
    then have "load_slot rd k 0 w = (fst (load_slot rd k 0 w), False, fst (contents w 0) < 0, ?w1)"
      using l0 by simp
    then obtain x where x: "load_slot rd k 0 w = (x, False, fst (contents w 0) < 0, ?w1)" by blast
    show ?thesis
    proof (cases "stored_record k (contents w 1)")
      case none1: None
      then obtain y where y: "load_slot rd k 1 ?w1 = (y, False, fst (contents w 1) < 0, w2)" using l1 by auto
      from None none1 x y show ?thesis
        by (simp add: c0pq_migration_load_def current_record_def select_record_def Let_def)
    next
      case (Some v1)
      with None x l1 show ?thesis
        by (simp add: c0pq_migration_load_def current_record_def select_record_def Let_def)
    qed
  next
    case some0: (Some v)
    show ?thesis
    proof (cases "stored_record k (contents w 1)")
      case none1: None
      then obtain y where y: "load_slot rd k 1 ?w1 = (y, False, fst (contents w 1) < 0, w2)" using l1 by auto
      from some0 none1 l0 y show ?thesis
        by (simp add: c0pq_migration_load_def current_record_def select_record_def Let_def)
    next
      case (Some v1)
      with some0 l0 l1 show ?thesis
        by (simp add: c0pq_migration_load_def current_record_def select_record_def Let_def)
    qed
  qed
qed

section \<open>Writing\<close>

lemma write_and_verify_contents:
  fixes rd :: "'w journal_read_fn"
  assumes rds: "journal_reads rd contents" and wrs: "journal_writes wr contents k"
    and len: "length raw = 52" and run: "write_and_verify rd wr k s raw w = (st, w')"
  shows "\<forall>t. t \<noteq> s \<longrightarrow> contents w' t = contents w t"
    and "st = C0PQLINK_OK \<or> st = C0PQLINK_ERR_IO"
    and "st = C0PQLINK_OK \<Longrightarrow> contents w' s = (C0PQ_JOURNAL_READ_OK, raw)"
    and "contents w' s = (C0PQ_JOURNAL_READ_OK, raw) \<or> contents w' s = contents w s \<or> stored_record k (contents w' s) = None"
proof -
  let ?w1 = "snd (wr w s raw)"
  have same: "contents w' = contents ?w1"
    using run rds by (auto simp: write_and_verify_def Let_def case_prod_unfold journal_reads_def split: if_split_asm)
  then show "\<forall>t. t \<noteq> s \<longrightarrow> contents w' t = contents w t"
    and "contents w' s = (C0PQ_JOURNAL_READ_OK, raw) \<or> contents w' s = contents w s \<or> stored_record k (contents w' s) = None"
    using wrs by (simp_all add: journal_writes_def)
  show "st = C0PQLINK_OK \<or> st = C0PQLINK_ERR_IO"
    using run by (auto simp: write_and_verify_def Let_def case_prod_unfold split: if_split_asm)
  assume "st = C0PQLINK_OK"
  then have "fst (rd ?w1 s) = 0" and "c0pqlink_ct_equal raw (fst (snd (rd ?w1 s))) 52"
    using run by (auto simp: write_and_verify_def Let_def case_prod_unfold split: if_split_asm)
  moreover have "fst (rd ?w1 s) = fst (contents ?w1 s)" "fst (snd (rd ?w1 s)) = snd (contents ?w1 s)"
    "fst (contents ?w1 s) = 0 \<Longrightarrow> length (snd (contents ?w1 s)) = 52"
    using rds by (simp_all add: journal_reads_def)
  ultimately show "contents w' s = (C0PQ_JOURNAL_READ_OK, raw)"
    using same len by (simp add: prod_eq_iff)
qed

lemma write_and_verify_honest:
  assumes "journal_reads rd contents" and "migration_wf v"
    and "fst (wr w s (encode_record v k)) = 0"
    and "contents (snd (wr w s (encode_record v k))) s = (C0PQ_JOURNAL_READ_OK, encode_record v k)"
  shows "fst (write_and_verify rd wr k s (encode_record v k) w) = C0PQLINK_OK"
proof -
  let ?w1 = "snd (wr w s (encode_record v k))"
  have "fst (rd ?w1 s) = 0" and "fst (snd (rd ?w1 s)) = encode_record v k"
    using assms(1,4) by (simp_all add: journal_reads_def)
  with assms(2,3) show ?thesis
    by (simp add: write_and_verify_def Let_def case_prod_unfold migration_wf_def decode_encode_record)
qed

lemma current_record_slot:
  assumes "current_record k c = Some (v, s)"
  shows "s = 0 \<and> s XOR 1 = 1 \<or> s = 1 \<and> s XOR 1 = 0" and "stored_record k (c s) = Some v"
  using assms by (auto simp: current_record_def select_record_def split: option.split_asm if_split_asm)

text \<open>The effect of changing the slot not in force.\<close>

lemma current_record_keep:
  assumes "current_record k c = Some (v, s)" and "c' s = c s"
    and "c' (s XOR 1) = c (s XOR 1) \<or> stored_record k (c' (s XOR 1)) = None"
  shows "current_record k c' = Some (v, s)"
proof -
  consider "s = 0" "s XOR 1 = 1" | "s = 1" "s XOR 1 = 0" using current_record_slot(1) [OF assms(1)] by blast
  then show ?thesis
    by cases (use assms in \<open>auto simp: current_record_def select_record_def split: option.split_asm if_split_asm\<close>)
qed

lemma current_record_replace:
  assumes "current_record k c = Some (v, s)" and "c' s = c s"
    and "stored_record k (c' (s XOR 1)) = Some v'" and "generation v < generation v'"
  shows "current_record k c' = Some (v', s XOR 1)"
proof -
  have "stored_record k (c' s) = Some v" using current_record_slot(2) [OF assms(1)] assms(2) by simp
  note kept = this
  consider "s = 0" "s XOR 1 = 1" | "s = 1" "s XOR 1 = 0" using current_record_slot(1) [OF assms(1)] by blast
  then show ?thesis
    by cases (use kept assms(3,4) in \<open>simp_all add: current_record_def select_record_def\<close>)
qed

lemma generation_less_Suc:
  assumes "(g :: u32) \<noteq> - 1"
  shows "g < g + 1" and "g + 1 \<noteq> 0"
proof -
  show nz: "g + 1 \<noteq> 0" using assms by (metis add_eq_0_iff2)
  then have "unat (g + 1) = Suc (unat g)" by (metis add.commute unatSuc)
  then show "g < g + 1" by (simp add: word_less_nat_alt)
qed

lemma transition_allowed_iff:
  "c0pq_migration_transition_allowed a b \<longleftrightarrow> 0 \<le> a \<and> a \<le> b \<and> b \<le> 2"
  by (auto simp: c0pq_migration_transition_allowed_def)

text \<open>When a commit may replace a record, and the record it installs.\<close>

definition commit_permitted :: "c0pq_migration_value \<Rightarrow> c0pq_migration_value \<Rightarrow> bool" where
  "commit_permitted current v \<longleftrightarrow>
     policy current \<le> policy v \<and> epoch current \<le> epoch v \<and> generation current \<noteq> - 1"

definition successor_value :: "c0pq_migration_value \<Rightarrow> c0pq_migration_value \<Rightarrow> c0pq_migration_value" where
  "successor_value current v = v\<lparr>generation := generation current + 1\<rparr>"

lemma current_wf:
  assumes "journal_reads rd contents" and "current_record k (contents w) = Some (v, s)"
  shows "migration_wf v" and "contents w s = (C0PQ_JOURNAL_READ_OK, encode_record v k)"
proof -
  have st: "stored_record k (contents w s) = Some v" using current_record_slot(2) [OF assms(2)] .
  then have "fst (contents w s) = 0" by (simp add: stored_record_def split: if_split_asm)
  then have "length (snd (contents w s)) = 52" using assms(1) by (simp add: journal_reads_def)
  from stored_record_valid [OF this st] show "migration_wf v"
    and "contents w s = (C0PQ_JOURNAL_READ_OK, encode_record v k)" .
qed

lemma commit_no_record:
  assumes "journal_reads rd contents" and "current_record k (contents w) = None"
    and "c0pq_migration_commit (Some v) (Some rd) (Some wr) w (Some k) = (st, w')"
  shows "st \<noteq> C0PQLINK_OK" and "contents w' = contents w"
  using assms load_current(1) [OF assms(1) refl, where w = w and k = k] load_current(2) [OF assms(1) refl, of w]
  by (auto simp: c0pq_migration_commit_def Let_def split: if_split_asm)

lemma commit_refused:
  assumes "journal_reads rd contents" and "current_record k (contents w) = Some (cur, s)"
    and "value_in_range v" and "\<not> commit_permitted cur v"
    and "c0pq_migration_commit (Some v) (Some rd) (Some wr) w (Some k) = (st, w')"
  shows "st = C0PQLINK_ERR_STATE" and "contents w' = contents w"
  using assms load_current(1) [OF assms(1) refl, where w = w and k = k] load_current(2) [OF assms(1) refl, of w]
  by (auto simp: c0pq_migration_commit_def Let_def commit_permitted_def transition_allowed_iff not_less split: if_split_asm)

lemma commit_writes:
  fixes rd :: "'w journal_read_fn"
  assumes rds: "journal_reads rd contents" and cur: "current_record k (contents w) = Some (cur, s)"
    and rng: "value_in_range v" and perm: "commit_permitted cur v"
  obtains w1 where "contents w1 = contents w"
    and "c0pq_migration_commit (Some v) (Some rd) (Some wr) w (Some k) =
         write_and_verify rd wr k (s XOR 1) (encode_record (successor_value cur v) k) w1"
proof -
  have "0 \<le> policy cur" "policy v \<le> 2"
    using current_wf(1) [OF rds cur] rng by (auto simp: migration_wf_def value_in_range_def)
  moreover have "\<not> epoch v < epoch cur" using perm by (simp add: commit_permitted_def not_less)
  ultimately have "c0pq_migration_commit (Some v) (Some rd) (Some wr) w (Some k) =
      write_and_verify rd wr k (s XOR 1) (encode_record (successor_value cur v) k) (snd (snd (rd (snd (snd (rd w 0))) 1)))"
    using perm rng cur load_current(1) [OF rds refl, where w = w and k = k]
    by (simp add: c0pq_migration_commit_def Let_def commit_permitted_def transition_allowed_iff successor_value_def)
  then show ?thesis using load_current(2) [OF rds refl, of w] that by blast
qed

lemma commit_permitted_effect:
  fixes rd :: "'w journal_read_fn"
  assumes rds: "journal_reads rd contents" and wrs: "journal_writes wr contents k"
    and cur: "current_record k (contents w) = Some (cur, s)"
    and rng: "value_in_range v" and kid: "length (key_id v) = 16" and perm: "commit_permitted cur v"
    and run: "c0pq_migration_commit (Some v) (Some rd) (Some wr) w (Some k) = (st, w')"
  shows "st = C0PQLINK_OK \<or> st = C0PQLINK_ERR_IO"
    and "st = C0PQLINK_OK \<Longrightarrow> current_record k (contents w') = Some (successor_value cur v, s XOR 1)"
    and "current_record k (contents w') = Some (cur, s) \<or>
         current_record k (contents w') = Some (successor_value cur v, s XOR 1)"
proof -
  let ?n = "successor_value cur v"
  have g: "generation cur < generation ?n" "generation ?n \<noteq> 0"
    using perm generation_less_Suc by (simp_all add: successor_value_def commit_permitted_def)
  have wf: "migration_wf ?n"
    using g(2) rng kid by (simp add: migration_wf_def successor_value_def value_in_range_def)
  obtain w1 where w1: "contents w1 = contents w" and ww: "write_and_verify rd wr k (s XOR 1) (encode_record ?n k) w1 = (st, w')"
    using commit_writes [OF rds cur rng perm, of wr] run by metis
  have len: "length (encode_record ?n k) = 52" using wf by (simp add: migration_wf_def)
  note eff = write_and_verify_contents [OF rds wrs len ww, unfolded w1]
  have keep: "contents w' s = contents w s"
    using eff(1) current_record_slot(1) [OF cur] by auto
  have new: "current_record k (contents w') = Some (?n, s XOR 1)"
    if "contents w' (s XOR 1) = (C0PQ_JOURNAL_READ_OK, encode_record ?n k)"
    using current_record_replace [OF cur, where c' = "contents w'", OF keep _ g(1)] that stored_encoded [OF wf] by simp
  show "st = C0PQLINK_OK \<or> st = C0PQLINK_ERR_IO" using eff(2) .
  show "current_record k (contents w') = Some (?n, s XOR 1)" if "st = C0PQLINK_OK" using new eff(3) [OF that] .
  show "current_record k (contents w') = Some (cur, s) \<or> current_record k (contents w') = Some (?n, s XOR 1)"
    using eff(4) new current_record_keep [OF cur, where c' = "contents w'", OF keep] by blast
qed

text \<open>Over storage that stores what it is given, a permitted commit succeeds.\<close>

lemma commit_honest:
  fixes rd :: "'w journal_read_fn"
  assumes rds: "journal_reads rd contents" and cur: "current_record k (contents w) = Some (cur, s)"
    and rng: "value_in_range v" and kid: "length (key_id v) = 16" and perm: "commit_permitted cur v"
    and honest: "\<forall>u b. length b = 52 \<longrightarrow> fst (wr u (s XOR 1) b) = 0 \<and>
       contents (snd (wr u (s XOR 1) b)) (s XOR 1) = (C0PQ_JOURNAL_READ_OK, b)"
    and run: "c0pq_migration_commit (Some v) (Some rd) (Some wr) w (Some k) = (st, w')"
  shows "st = C0PQLINK_OK"
proof -
  let ?n = "successor_value cur v"
  have wf: "migration_wf ?n"
    using generation_less_Suc(2) perm rng kid
    by (simp add: migration_wf_def successor_value_def value_in_range_def commit_permitted_def)
  obtain w1 where w1: "write_and_verify rd wr k (s XOR 1) (encode_record ?n k) w1 = (st, w')"
    using commit_writes [OF rds cur rng perm, of wr] run by metis
  have "length (encode_record ?n k) = 52" using wf by (simp add: migration_wf_def)
  with write_and_verify_honest [OF rds wf, of wr w1 "s XOR 1" k] honest w1 show ?thesis by simp
qed

text \<open>Any commit, whatever it reports.\<close>

lemma commit_outcome:
  fixes rd :: "'w journal_read_fn"
  assumes rds: "journal_reads rd contents" and wrs: "journal_writes wr contents k"
    and kid: "length (key_id v) = 16"
    and run: "c0pq_migration_commit (Some v) (Some rd) (Some wr) w (Some k) = (st, w')"
  shows "(st \<noteq> C0PQLINK_OK \<and> current_record k (contents w') = current_record k (contents w)) \<or>
         ((st = C0PQLINK_OK \<or> st = C0PQLINK_ERR_IO) \<and>
          (\<exists>cur s. current_record k (contents w) = Some (cur, s) \<and> value_in_range v \<and> commit_permitted cur v \<and>
             current_record k (contents w') = Some (successor_value cur v, s XOR 1)))"
proof (cases "value_in_range v")
  case False
  then show ?thesis using run by (simp add: c0pq_migration_commit_def)
next
  case rng: True
  show ?thesis
  proof (cases "current_record k (contents w)")
    case None
    with commit_no_record [OF rds None run] show ?thesis by simp
  next
    case (Some p)
    then obtain cur s where cur: "current_record k (contents w) = Some (cur, s)" by (cases p) simp
    show ?thesis
    proof (cases "commit_permitted cur v")
      case True
      from commit_permitted_effect [OF rds wrs cur rng kid True run] cur rng True show ?thesis by auto
    next
      case False
      from commit_refused [OF rds cur rng False run] show ?thesis by simp
    qed
  qed
qed

section \<open>First provisioning\<close>

lemma initialize_outcome:
  fixes rd :: "'w journal_read_fn"
  assumes rds: "journal_reads rd contents" and wrs: "journal_writes wr contents k"
    and kid: "length (key_id v) = 16" and rng: "value_in_range v"
    and run: "c0pq_migration_initialize (Some v) (Some rd) (Some wr) w (Some k) = (st, w')"
  shows "if fst (contents w 0) = C0PQ_JOURNAL_READ_EMPTY \<and> fst (contents w 1) = C0PQ_JOURNAL_READ_EMPTY
     then (st = C0PQLINK_OK \<and> current_record k (contents w') = Some (v\<lparr>generation := 1\<rparr>, 0)) \<or>
          (st = C0PQLINK_ERR_IO \<and> (current_record k (contents w') = Some (v\<lparr>generation := 1\<rparr>, 0) \<or>
                                   current_record k (contents w') = None))
     else contents w' = contents w \<and>
          st = (if fst (contents w 0) = C0PQ_JOURNAL_READ_OK \<or> fst (contents w 1) = C0PQ_JOURNAL_READ_OK
                then C0PQLINK_ERR_STATE else C0PQLINK_ERR_IO)"
proof -
  let ?w2 = "snd (snd (rd (snd (snd (rd w 0))) 1))" and ?v = "v\<lparr>generation := 1\<rparr>"
  have r: "fst (rd u t) = fst (contents u t)" "contents (snd (snd (rd u t))) = contents u" for u t
    using rds by (simp_all add: journal_reads_def)
  show ?thesis
  proof (cases "fst (contents w 0) = C0PQ_JOURNAL_READ_EMPTY \<and> fst (contents w 1) = C0PQ_JOURNAL_READ_EMPTY")
    case False
    then show ?thesis
      using run rng r by (auto simp: c0pq_migration_initialize_def Let_def case_prod_unfold split: if_split_asm)
  next
    case True
    have wf: "migration_wf ?v" using rng kid by (simp add: migration_wf_def value_in_range_def)
    have len: "length (encode_record ?v k) = 52" using kid by simp
    have ww: "write_and_verify rd wr k 0 (encode_record ?v k) ?w2 = (st, w')"
      using run rng r True by (simp add: c0pq_migration_initialize_def Let_def case_prod_unfold)
    have w2: "contents ?w2 = contents w" using r by simp
    note eff = write_and_verify_contents [OF rds wrs len ww, unfolded w2]
    have none: "stored_record k (contents w 0) = None" "stored_record k (contents w 1) = None"
      using True by (simp_all add: stored_record_def)
    have one: "stored_record k (contents w' 1) = None" using eff(1) none(2) by simp
    have new: "current_record k (contents w') = Some (?v, 0)"
      if "contents w' 0 = (C0PQ_JOURNAL_READ_OK, encode_record ?v k)"
      using that one stored_encoded [OF wf] by (simp add: current_record_def select_record_def)
    have "current_record k (contents w') = None" if "stored_record k (contents w' 0) = None"
      using that one by (simp add: current_record_def select_record_def)
    with eff(2,3,4) new none(1) True show ?thesis by auto
  qed
qed

section \<open>Runs\<close>

text \<open>One journal operation by the owner of the key, with any arguments and any result.\<close>

inductive journal_step ::
  "'w journal_read_fn \<Rightarrow> 'w journal_write_fn \<Rightarrow> bytes \<Rightarrow> 'w \<Rightarrow> 'w \<Rightarrow> bool"
  for rd wr k where
  step_load: "c0pq_migration_load v s (Some rd) w (Some k) = (st, v', s', w') \<Longrightarrow> journal_step rd wr k w w'"
| step_initialize: "length (key_id v) = 16 \<Longrightarrow>
     c0pq_migration_initialize (Some v) (Some rd) (Some wr) w (Some k) = (st, w') \<Longrightarrow> journal_step rd wr k w w'"
| step_commit: "length (key_id v) = 16 \<Longrightarrow>
     c0pq_migration_commit (Some v) (Some rd) (Some wr) w (Some k) = (st, w') \<Longrightarrow> journal_step rd wr k w w'"

inductive_cases journal_stepE: "journal_step rd wr k w w'"

text \<open>The order in which policies may succeed one another.\<close>

definition policy_advances :: "c0pq_migration_value \<Rightarrow> c0pq_migration_value \<Rightarrow> bool" where
  "policy_advances a b \<longleftrightarrow> policy a \<le> policy b \<and> epoch a \<le> epoch b \<and> generation a \<le> generation b"

lemma policy_advances_refl [simp]: "policy_advances a a"
  by (simp add: policy_advances_def)

lemma policy_advances_trans: "policy_advances a b \<Longrightarrow> policy_advances b c \<Longrightarrow> policy_advances a c"
  by (auto simp: policy_advances_def)

lemma successor_advances: "commit_permitted cur v \<Longrightarrow> policy_advances cur (successor_value cur v)"
  using generation_less_Suc(1) [of "generation cur"]
  by (simp add: commit_permitted_def policy_advances_def successor_value_def)

lemma load_contents:
  assumes "journal_reads rd contents" and "c0pq_migration_load v s (Some rd) w (Some k) = (st, v', s', w')"
  shows "contents w' = contents w"
  using assms(2) load_current(1) [OF assms(1) refl, where w = w and k = k] load_current(2) [OF assms(1) refl, of w]
  by (cases v; cases s) (auto simp: c0pq_migration_load_def [of None] c0pq_migration_load_def [of _ None]
      split: option.split_asm prod.split_asm)

lemma journal_step_advances:
  fixes rd :: "'w journal_read_fn"
  assumes rds: "journal_reads rd contents" and wrs: "journal_writes wr contents k"
    and step: "journal_step rd wr k w w'" and cur: "current_record k (contents w) = Some (cur, s)"
  shows "\<exists>cur' s'. current_record k (contents w') = Some (cur', s') \<and> policy_advances cur cur'"
  using step
proof (rule journal_stepE)
  fix v0 s0 st v' s' assume "c0pq_migration_load v0 s0 (Some rd) w (Some k) = (st, v', s', w')"
  from load_contents [OF rds this] cur show ?thesis by auto
next
  fix v st assume kid: "length (key_id v) = 16"
    and run: "c0pq_migration_initialize (Some v) (Some rd) (Some wr) w (Some k) = (st, w')"
  have ok: "fst (contents w s) = 0" using current_wf(2) [OF rds cur] by simp
  show ?thesis
  proof (cases "value_in_range v")
    case True
    have "fst (contents w 0) = 0 \<or> fst (contents w 1) = 0" using ok current_record_slot(1) [OF cur] by auto
    with initialize_outcome [OF rds wrs kid True run] cur show ?thesis by (auto split: if_split_asm)
  next
    case False
    with run cur show ?thesis by (simp add: c0pq_migration_initialize_def)
  qed
next
  fix v st assume "length (key_id v) = 16"
    and "c0pq_migration_commit (Some v) (Some rd) (Some wr) w (Some k) = (st, w')"
  from commit_outcome [OF rds wrs this] cur successor_advances show ?thesis by fastforce
qed

section \<open>A storage in memory\<close>

definition memory_contents :: "(u8 \<Rightarrow> bytes option) \<Rightarrow> u8 \<Rightarrow> int \<times> bytes" where
  "memory_contents m s =
     (case m s of Some b \<Rightarrow> if length b = 52 then (C0PQ_JOURNAL_READ_OK, b) else (- 1, [])
      | None \<Rightarrow> (C0PQ_JOURNAL_READ_EMPTY, []))"

definition memory_read :: "(u8 \<Rightarrow> bytes option) journal_read_fn" where
  "memory_read m s = (fst (memory_contents m s), snd (memory_contents m s), m)"

definition memory_write :: "(u8 \<Rightarrow> bytes option) journal_write_fn" where
  "memory_write m s b = (0, m(s := Some b))"

lemma memory_journal: "journal_reads memory_read memory_contents" "journal_writes memory_write memory_contents k"
  by (auto simp: journal_reads_def journal_writes_def memory_read_def memory_write_def memory_contents_def
      stored_record_def split: option.split)

definition sample_value :: c0pq_migration_value where
  "sample_value = \<lparr>generation = 1, policy = 1, active_key_slot = 0, epoch = 7, key_id = replicate 16 3\<rparr>"

definition sample_journal :: "bytes \<Rightarrow> u8 \<Rightarrow> bytes option" where
  "sample_journal k s = (if s = 0 then Some (encode_record sample_value k) else None)"

lemma sample_value_wf [simp]: "migration_wf sample_value" "value_in_range sample_value"
  "length (key_id sample_value) = 16"
  by (simp_all add: sample_value_def migration_wf_def value_in_range_def)

lemma sample_current: "current_record k (memory_contents (sample_journal k)) = Some (sample_value, 0)"
proof -
  have "memory_contents (sample_journal k) 0 = (0, encode_record sample_value k)"
    by (simp add: memory_contents_def sample_journal_def)
  moreover have "stored_record k (memory_contents (sample_journal k) 1) = None"
    by (simp add: memory_contents_def sample_journal_def stored_record_def)
  ultimately show ?thesis using stored_encoded [of sample_value k]
    by (simp add: current_record_def select_record_def)
qed

text \<open>A slot that cannot be read at the moment is passed over without a report when the other one is
  valid: the older record is then in force although a newer one is stored.\<close>

lemma load_passes_over_io_failure:
  assumes "migration_wf v" and "rd w 0 = (C0PQ_JOURNAL_READ_OK, encode_record v k, w1)"
    and "rd w1 1 = (- 1, b, w2)"
  shows "c0pq_migration_load (Some v0) (Some s0) (Some rd) w (Some k) = (C0PQLINK_OK, Some v, Some 0, w2)"
  using assms by (simp add: c0pq_migration_load_def load_slot_def Let_def decode_encode_record)

section \<open>Properties\<close>

text \<open>the record format. A 52-byte string is accepted exactly when it is the encoding, under the
  journal key, of an in-range value with a non-zero generation, and it decodes to that value.\<close>

theorem migration_record_exact:
  assumes "length b = 52"
  shows "decode_record v0 b k = (C0PQLINK_OK, v) \<longleftrightarrow> migration_wf v \<and> b = encode_record v k"
  using decode_record_accepts [OF assms] decode_encode_record by blast

theorem migration_record_exact_witness:
  "decode_record migration_zero (encode_record sample_value []) [] = (C0PQLINK_OK, sample_value)"
  using migration_record_exact [of "encode_record sample_value []" migration_zero "[]" sample_value] by simp

text \<open>C5: commit. Over storage that keeps the contract, a commit reports success only if a valid record
  was in force, neither the policy state nor the epoch decreases and the generation can still grow;
  the new record, one generation later in the other slot, is then in force. A commit that reports
  any error leaves the record in force, except that after a storage error the new one may already
  be there. A commit that would lower the state or the epoch is refused and writes nothing; one
  that is permitted succeeds whenever the storage stores what it is given.\<close>

theorem migration_commit_exact:
  assumes "journal_reads rd contents" and "journal_writes wr contents k" and "length (key_id v) = 16"
    and "c0pq_migration_commit (Some v) (Some rd) (Some wr) w (Some k) = (st, w')"
  shows "((st \<noteq> C0PQLINK_OK \<and> current_record k (contents w') = current_record k (contents w)) \<or>
          ((st = C0PQLINK_OK \<or> st = C0PQLINK_ERR_IO) \<and>
           (\<exists>cur s. current_record k (contents w) = Some (cur, s) \<and> value_in_range v \<and> commit_permitted cur v \<and>
              current_record k (contents w') = Some (successor_value cur v, s XOR 1)))) \<and>
         (\<forall>cur s. current_record k (contents w) = Some (cur, s) \<and> value_in_range v \<and> \<not> commit_permitted cur v \<longrightarrow>
            st = C0PQLINK_ERR_STATE \<and> contents w' = contents w) \<and>
         (\<forall>cur s. current_record k (contents w) = Some (cur, s) \<and> value_in_range v \<and> commit_permitted cur v \<and>
            (\<forall>u b. length b = 52 \<longrightarrow> fst (wr u (s XOR 1) b) = 0 \<and>
               contents (snd (wr u (s XOR 1) b)) (s XOR 1) = (C0PQ_JOURNAL_READ_OK, b)) \<longrightarrow> st = C0PQLINK_OK)"
  using commit_outcome [OF assms] commit_refused [OF assms(1) _ _ _ assms(4)]
    commit_honest [OF assms(1) _ _ assms(3) _ _ assms(4)] by blast

theorem migration_commit_exact_witness:
  "\<exists>w'. c0pq_migration_commit (Some (sample_value\<lparr>policy := 2\<rparr>)) (Some memory_read) (Some memory_write)
          (sample_journal []) (Some []) = (C0PQLINK_OK, w') \<and>
        current_record [] (memory_contents w') = Some (sample_value\<lparr>policy := 2, generation := 2\<rparr>, 1)"
proof -
  let ?v = "sample_value\<lparr>policy := 2\<rparr>"
  have perm: "value_in_range ?v" "commit_permitted sample_value ?v" and kid: "length (key_id ?v) = 16"
    by (simp_all add: sample_value_def value_in_range_def commit_permitted_def)
  obtain st w' where run: "c0pq_migration_commit (Some ?v) (Some memory_read) (Some memory_write) (sample_journal []) (Some [])
      = (st, w')" by fastforce
  note exact = migration_commit_exact [OF memory_journal(1) memory_journal(2) kid run]
  have "st = C0PQLINK_OK"
    using exact [THEN conjunct2, THEN conjunct2, rule_format, of sample_value 0] perm sample_current [of "[]"]
    by (simp add: memory_write_def memory_contents_def)
  with exact [THEN conjunct1] run sample_current [of "[]"]
  show ?thesis by (auto simp: successor_value_def sample_value_def)
qed

text \<open>C4: one-way migration. The storage keeps the contract of \<open>journal_reads\<close> and \<open>journal_writes\<close>: a read
  returns what the slot holds and changes nothing, so a slot that was read once does not fail to read the
  next time unless it was written to; a write changes its own slot only and leaves there the record, the old
  contents or something that is not a valid record. Then over any sequence of loads, first provisionings and
  commits, whatever result codes these return and however their writes are torn, once a valid record is in
  force there is always one in force, and its policy state, epoch and generation never decrease. Without
  the contract on reads it is not so: \<open>c0pq_migration_load\<close> passes over a slot whose read fails for once, and a
  commit then writes over the newer record.\<close>

theorem migration_never_rolls_back:
  assumes "journal_reads rd contents" and "journal_writes wr contents k"
    and "(journal_step rd wr k)\<^sup>*\<^sup>* w w'" and "current_record k (contents w) = Some (cur, s)"
  shows "\<exists>cur' s'. current_record k (contents w') = Some (cur', s') \<and> policy_advances cur cur'"
  using assms(3,4)
proof (induction rule: rtranclp_induct)
  case base
  then show ?case by auto
next
  case (step y z)
  then obtain c1 s1 where c1: "current_record k (contents y) = Some (c1, s1)" and a1: "policy_advances cur c1" by auto
  from journal_step_advances [OF assms(1,2) step(2) c1] policy_advances_trans [OF a1] show ?case by blast
qed

theorem migration_never_rolls_back_witness:
  "\<exists>cur' s'. current_record [] (memory_contents (snd (c0pq_migration_commit (Some sample_value) (Some memory_read)
       (Some memory_write) (sample_journal []) (Some [])))) = Some (cur', s') \<and> policy_advances sample_value cur'"
proof -
  have "journal_step memory_read memory_write [] (sample_journal [])
      (snd (c0pq_migration_commit (Some sample_value) (Some memory_read) (Some memory_write) (sample_journal []) (Some [])))"
    by (rule step_commit [OF sample_value_wf(3) prod.collapse [symmetric]])
  then have "(journal_step memory_read memory_write [])\<^sup>*\<^sup>* (sample_journal [])
      (snd (c0pq_migration_commit (Some sample_value) (Some memory_read) (Some memory_write) (sample_journal []) (Some [])))"
    by (simp add: r_into_rtranclp)
  from migration_never_rolls_back [where w = "sample_journal []", OF memory_journal this sample_current]
  show ?thesis .
qed

text \<open>First provisioning. It writes only when both slots report that they are empty, and then
  succeeds only if the value is in force as generation 1 in slot 0; otherwise nothing is written and
  the error tells a readable slot from one that could not be read.\<close>

theorem migration_initialize_exact:
  assumes "journal_reads rd contents" and "journal_writes wr contents k" and "length (key_id v) = 16"
    and "value_in_range v" and "c0pq_migration_initialize (Some v) (Some rd) (Some wr) w (Some k) = (st, w')"
  shows "if fst (contents w 0) = C0PQ_JOURNAL_READ_EMPTY \<and> fst (contents w 1) = C0PQ_JOURNAL_READ_EMPTY
     then (st = C0PQLINK_OK \<and> current_record k (contents w') = Some (v\<lparr>generation := 1\<rparr>, 0)) \<or>
          (st = C0PQLINK_ERR_IO \<and> (current_record k (contents w') = Some (v\<lparr>generation := 1\<rparr>, 0) \<or>
                                   current_record k (contents w') = None))
     else contents w' = contents w \<and>
          st = (if fst (contents w 0) = C0PQ_JOURNAL_READ_OK \<or> fst (contents w 1) = C0PQ_JOURNAL_READ_OK
                then C0PQLINK_ERR_STATE else C0PQLINK_ERR_IO)"
  using initialize_outcome [OF assms] .

theorem migration_initialize_exact_witness:
  "\<exists>st w'. c0pq_migration_initialize (Some sample_value) (Some memory_read) (Some memory_write)
      (sample_journal []) (Some []) = (st, w') \<and>
    memory_contents w' = memory_contents (sample_journal []) \<and> st = C0PQLINK_ERR_STATE"
proof -
  obtain st w' where run: "c0pq_migration_initialize (Some sample_value) (Some memory_read) (Some memory_write)
      (sample_journal []) (Some []) = (st, w')" by fastforce
  have "fst (memory_contents (sample_journal []) 0) = 0" by (simp add: memory_contents_def sample_journal_def)
  with migration_initialize_exact [OF memory_journal(1) memory_journal(2) sample_value_wf(3) sample_value_wf(2) run] run
  show ?thesis by auto
qed

end
