(* ===== verification/NpqHash.thy ===== *)
theory NpqHash
  imports Hmac
begin

text \<open>
  NanoPQ firmware, \<open>sha256.c\<close>: the SHA-256 that reuses its block buffer as the rolling message
  schedule, its truncated finalisation, the precomputed state of the SLH-DSA key prefix and HMAC with
  a fixed 32-byte key that runs on one context. The block is a union of 64 bytes and 16 words; the
  targets (AVR and the host) are little endian, so a word lies in it low byte first.

  The theory shows that the code computes FIPS 180-4 SHA-256 and RFC 2104 HMAC for messages whose
  length fits the 32-bit byte counter.
\<close>

unbundle bit_operations_syntax

section \<open>The compression function\<close>

definition QP_K :: "u32 list" where
  "QP_K = concat [
    [0x428a2f98, 0x71374491, 0xb5c0fbcf, 0xe9b5dba5], [0x3956c25b, 0x59f111f1, 0x923f82a4, 0xab1c5ed5],
    [0xd807aa98, 0x12835b01, 0x243185be, 0x550c7dc3], [0x72be5d74, 0x80deb1fe, 0x9bdc06a7, 0xc19bf174],
    [0xe49b69c1, 0xefbe4786, 0x0fc19dc6, 0x240ca1cc], [0x2de92c6f, 0x4a7484aa, 0x5cb0a9dc, 0x76f988da],
    [0x983e5152, 0xa831c66d, 0xb00327c8, 0xbf597fc7], [0xc6e00bf3, 0xd5a79147, 0x06ca6351, 0x14292967],
    [0x27b70a85, 0x2e1b2138, 0x4d2c6dfc, 0x53380d13], [0x650a7354, 0x766a0abb, 0x81c2c92e, 0x92722c85],
    [0xa2bfe8a1, 0xa81a664b, 0xc24b8b70, 0xc76c51a3], [0xd192e819, 0xd6990624, 0xf40e3585, 0x106aa070],
    [0x19a4c116, 0x1e376c08, 0x2748774c, 0x34b0bcb5], [0x391c0cb3, 0x4ed8aa4a, 0x5b9cca4f, 0x682e6ff3],
    [0x748f82ee, 0x78a5636f, 0x84c87814, 0x8cc70208], [0x90befffa, 0xa4506ceb, 0xbef9a3f7, 0xc67178f2]]"

definition rotr32 :: "u32 \<Rightarrow> nat \<Rightarrow> u32" where
  "rotr32 x n = drop_bit n x OR push_bit (32 - n) x"

definition read_be32 :: "bytes \<Rightarrow> u32" where
  "read_be32 p =
     push_bit 24 (ucast (p ! 0)) OR push_bit 16 (ucast (p ! 1)) OR push_bit 8 (ucast (p ! 2)) OR ucast (p ! 3)"

text \<open>One pass of the round loop: the schedule word, then the working variables.\<close>

definition qp_schedule_step :: "nat \<Rightarrow> u32 list \<Rightarrow> u32 list" where
  "qp_schedule_step i w =
     (if i \<ge> 16 then
        let w15 = w ! ((i + 1) mod 16);
            w2 = w ! ((i + 14) mod 16);
            s0 = rotr32 w15 7 XOR rotr32 w15 18 XOR drop_bit 3 w15;
            s1 = rotr32 w2 17 XOR rotr32 w2 19 XOR drop_bit 10 w2
        in w[i mod 16 := w ! (i mod 16) + (s0 + w ! ((i + 9) mod 16) + s1)]
      else w)"

definition qp_round :: "nat \<Rightarrow> u32 \<Rightarrow> sha_vars \<Rightarrow> sha_vars" where
  "qp_round i word = (\<lambda>(a, b, c, d, e, f, g, h).
     let s1 = rotr32 e 6 XOR rotr32 e 11 XOR rotr32 e 25;
         ch = (e AND f) XOR (NOT e AND g);
         t1 = h + s1 + ch + QP_K ! i + word;
         s0 = rotr32 a 2 XOR rotr32 a 13 XOR rotr32 a 22;
         maj = (a AND b) XOR (a AND c) XOR (b AND c);
         t2 = s0 + maj
     in (t1 + t2, a, b, c, d + t1, e, f, g))"

definition transform_schedule :: "u32 list \<Rightarrow> u32 list \<Rightarrow> u32 list \<times> u32 list" where
  "transform_schedule st w =
     (let (w', (a, b, c, d, e, f, g, h)) =
            fold (\<lambda>i (w, vars). let w1 = qp_schedule_step i w in (w1, qp_round i (w1 ! (i mod 16)) vars)) [0..<64]
              (w, (st ! 0, st ! 1, st ! 2, st ! 3, st ! 4, st ! 5, st ! 6, st ! 7))
      in ([st ! 0 + a, st ! 1 + b, st ! 2 + c, st ! 3 + d,
           st ! 4 + e, st ! 5 + f, st ! 6 + g, st ! 7 + h], w'))"

section \<open>The context\<close>

record qp_sha256_ctx =
  qp_block :: bytes
  qp_state :: "u32 list"
  qp_total_bytes :: u32
  qp_block_len :: u8

text \<open>The words of the union, and the block once all sixteen are written.\<close>

definition block_words :: "bytes \<Rightarrow> u32 list" where
  "block_words blk = map (\<lambda>i. le_word (slice blk (4 * i) 4)) [0..<16]"

definition words_block :: "u32 list \<Rightarrow> bytes" where
  "words_block w = concat (map (le_bytes 4) w)"

definition qp_transform :: "qp_sha256_ctx \<Rightarrow> qp_sha256_ctx" where
  "qp_transform ctx =
     (let blk = fold (\<lambda>i b. memcpy b (4 * i) (le_bytes 4 (read_be32 (slice b (4 * i) 4)))) [0..<16] (qp_block ctx);
          (st, w) = transform_schedule (qp_state ctx) (block_words blk)
      in ctx\<lparr>qp_state := st, qp_block := words_block w\<rparr>)"

definition qp_initial_state :: "u32 list" where
  "qp_initial_state =
     [0x6a09e667, 0xbb67ae85, 0x3c6ef372, 0xa54ff53a, 0x510e527f, 0x9b05688c, 0x1f83d9ab, 0x5be0cd19]"

definition qp_sha256_init :: "qp_sha256_ctx \<Rightarrow> qp_sha256_ctx" where
  "qp_sha256_init ctx = ctx\<lparr>qp_state := qp_initial_state, qp_total_bytes := 0, qp_block_len := 0\<rparr>"

definition qp_sha256_fips205_seed :: "bytes \<Rightarrow> u32 list" where
  "qp_sha256_fips205_seed pk_seed =
     fst (transform_schedule qp_initial_state
            (map (\<lambda>i. read_be32 (slice pk_seed (4 * i) 4)) [0..<4] @ replicate 12 0))"

text \<open>The update loop. It would not end on a full block, so its value is an option; every context
  the code builds has a free byte.\<close>

definition qp_update_step :: "qp_sha256_ctx \<Rightarrow> bytes \<Rightarrow> qp_sha256_ctx \<times> nat" where
  "qp_update_step ctx data =
     (let room = 64 - qp_block_len ctx;
          take_n = (if length data < unat room then of_nat (length data) else room);
          n = unat take_n;
          ctx1 = ctx\<lparr>qp_block := memcpy (qp_block ctx) (unat (qp_block_len ctx)) (take n data),
                     qp_block_len := qp_block_len ctx + take_n,
                     qp_total_bytes := qp_total_bytes ctx + ucast take_n\<rparr>
      in (if qp_block_len ctx1 = 64 then (qp_transform ctx1)\<lparr>qp_block_len := 0\<rparr> else ctx1, n))"

partial_function (option) qp_update_loop :: "qp_sha256_ctx \<Rightarrow> bytes \<Rightarrow> qp_sha256_ctx option" where
  "qp_update_loop ctx data =
     (if data = [] then Some ctx
      else let (ctx1, n) = qp_update_step ctx data in qp_update_loop ctx1 (drop n data))"

definition qp_sha256_update :: "qp_sha256_ctx \<Rightarrow> bytes \<Rightarrow> qp_sha256_ctx" where
  "qp_sha256_update ctx data = the (qp_update_loop ctx data)"

definition final_pad :: "qp_sha256_ctx \<Rightarrow> qp_sha256_ctx" where
  "final_pad ctx =
     (let n = unat (qp_block_len ctx) + 1;
          ctx1 = ctx\<lparr>qp_block := (qp_block ctx)[unat (qp_block_len ctx) := 0x80], qp_block_len := qp_block_len ctx + 1\<rparr>
      in if qp_block_len ctx1 > 56
         then (qp_transform (ctx1\<lparr>qp_block := memcpy (qp_block ctx1) n (replicate (64 - n) 0), qp_block_len := 64\<rparr>))
                \<lparr>qp_block_len := 0\<rparr>
         else ctx1)"

definition final_transform :: "qp_sha256_ctx \<Rightarrow> qp_sha256_ctx" where
  "final_transform ctx =
     (let low_bits = push_bit 3 (qp_total_bytes ctx);
          high_bits = drop_bit 29 (qp_total_bytes ctx);
          ctx1 = final_pad ctx;
          n = unat (qp_block_len ctx1);
          blk = memcpy (qp_block ctx1) n (replicate (56 - n) 0);
          count = [ucast (drop_bit 24 high_bits), ucast (drop_bit 16 high_bits), ucast (drop_bit 8 high_bits), ucast high_bits,
                   ucast (drop_bit 24 low_bits), ucast (drop_bit 16 low_bits), ucast (drop_bit 8 low_bits), ucast low_bits]
      in qp_transform (ctx1\<lparr>qp_block := memcpy blk 56 count, qp_block_len := 56\<rparr>))"

definition write_digest_words :: "qp_sha256_ctx \<Rightarrow> nat \<Rightarrow> bytes" where
  "write_digest_words ctx words =
     concat (map (\<lambda>i. [ucast (drop_bit 24 (qp_state ctx ! i)), ucast (drop_bit 16 (qp_state ctx ! i)),
                       ucast (drop_bit 8 (qp_state ctx ! i)), ucast (qp_state ctx ! i)]) [0..<words])"

definition qp_sha256_final :: "qp_sha256_ctx \<Rightarrow> bytes \<times> qp_sha256_ctx" where
  "qp_sha256_final ctx = (let c = final_transform ctx in (write_digest_words c 8, c))"

definition qp_sha256_final_16 :: "qp_sha256_ctx \<Rightarrow> bytes \<times> qp_sha256_ctx" where
  "qp_sha256_final_16 ctx = (let c = final_transform ctx in (write_digest_words c 4, c))"

text \<open>A context declared on the stack. Its contents are indeterminate in C; no operation reads them
  before writing them, as the invariant below shows for every block of 64 bytes.\<close>

definition qp_local :: qp_sha256_ctx where
  "qp_local = \<lparr>qp_block = replicate 64 0, qp_state = replicate 8 0, qp_total_bytes = 0, qp_block_len = 0\<rparr>"

definition qp_sha256 :: "bytes \<Rightarrow> bytes" where
  "qp_sha256 data = fst (qp_sha256_final (qp_sha256_update (qp_sha256_init qp_local) data))"

definition hmac_prefix :: "qp_sha256_ctx \<Rightarrow> bytes \<Rightarrow> u8 \<Rightarrow> qp_sha256_ctx" where
  "hmac_prefix ctx key pad_byte =
     (let ctx1 = qp_sha256_init ctx;
          b1 = fold (\<lambda>i b. b[i := key ! i XOR pad_byte]) [0..<32] (qp_block ctx1);
          b2 = memcpy b1 32 (replicate 32 pad_byte)
      in qp_transform (ctx1\<lparr>qp_block := b2, qp_total_bytes := 64\<rparr>))"

definition qp_hmac_sha256_32 :: "bytes \<Rightarrow> bytes \<Rightarrow> bytes" where
  "qp_hmac_sha256_32 key message =
     (let c1 = qp_sha256_update (hmac_prefix qp_local key 0x36) message;
          (tag, c2) = qp_sha256_final c1;
          c3 = qp_sha256_update (hmac_prefix c2 key 0x5c) tag
      in fst (qp_sha256_final c3))"

definition qp_constant_time_equal :: "bytes \<Rightarrow> bytes \<Rightarrow> nat \<Rightarrow> bool" where
  "qp_constant_time_equal a b len = (fold (\<lambda>i diff. diff OR (a ! i XOR b ! i)) [0..<len] 0 = 0)"

section \<open>Compression\<close>

lemma qp_constants: "QP_K = round_constants" "qp_initial_state = sha256_initial_state"
  by (simp_all add: QP_K_def round_constants_def qp_initial_state_def sha256_initial_state_def)

lemma rotr32_eq: "rotr32 x n = rotate_right32 x n"
  by (simp add: rotr32_def rotate_right32_def)

lemma read_be32_eq: "length p = 4 \<Longrightarrow> read_be32 p = be_word p"
  using load32_be_eq [of p] by (simp add: read_be32_def load32_be_def)

lemma ring_index:
  assumes "16 \<le> (i :: nat)"
  shows "(i + 1) mod 16 = (i - 15) mod 16" and "(i + 14) mod 16 = (i - 2) mod 16" and "(i + 9) mod 16 = (i - 7) mod 16"
proof -
  have "(j + 16) mod 16 = j mod 16" for j :: nat by simp
  note this [of "i - 15"] this [of "i - 2"] this [of "i - 7"]
  with assms show "(i + 1) mod 16 = (i - 15) mod 16" "(i + 14) mod 16 = (i - 2) mod 16" "(i + 9) mod 16 = (i - 7) mod 16"
    by (simp_all add: add.commute)
qed

lemma qp_schedule_step_eq: "qp_schedule_step i w = sha256_schedule_step i w"
  by (simp add: qp_schedule_step_def sha256_schedule_step_def ring_index rotr32_eq Let_def del: One_nat_def)

lemma qp_round_eq: "qp_round i word vars = sha256_round i word vars"
  by (simp add: qp_round_def sha256_round_def rotr32_eq qp_constants Let_def split: prod.split)

lemma transform_schedule_eq:
  assumes "length blk = 64"
  shows "fst (transform_schedule st (map (\<lambda>i. load32_be (slice blk (4 * i) 4)) [0..<16])) = spec_compress st blk"
  using transform_compress [OF assms, of st]
  by (simp add: transform_schedule_def sha256_transform_def Let_def case_prod_unfold qp_schedule_step_eq qp_round_eq)

lemma length_schedule_fold:
  "length (fst (fold (\<lambda>i (w, vars). let w1 = qp_schedule_step i w in (w1, qp_round i (w1 ! (i mod 16)) vars)) is (w, vars)))
     = length w"
  by (induction "is" arbitrary: w vars) (simp_all add: Let_def qp_schedule_step_def)

lemma length_transform_schedule: "length (snd (transform_schedule st w)) = length w"
  by (simp add: transform_schedule_def Let_def case_prod_unfold length_schedule_fold [unfolded Let_def case_prod_unfold])

text \<open>Converting the block in place, word by word, gives its big-endian words.\<close>

lemma slice_memcpy_same: "off + length src \<le> length b \<Longrightarrow> slice (memcpy b off src) off (length src) = src"
  by (simp add: slice_def memcpy_def)

lemma slice_memcpy_other:
  assumes "off + length src \<le> length b" and "o2 + n \<le> off \<or> off + length src \<le> o2" and "o2 + n \<le> length b"
  shows "slice (memcpy b off src) o2 n = slice b o2 n"
  using assms by (intro nth_equalityI) (auto simp: memcpy_def nth_append)

lemma block_words_convert:
  assumes "length blk = 64"
  shows "block_words (fold (\<lambda>i b. memcpy b (4 * i) (le_bytes 4 (read_be32 (slice b (4 * i) 4)))) [0..<16] blk)
     = map (\<lambda>i. load32_be (slice blk (4 * i) 4)) [0..<16]" (is "block_words (fold ?f _ _) = _")
proof -
  let ?P = "\<lambda>t b. length b = 64 \<and> (\<forall>i<16. slice b (4 * i) 4 =
      (if i < t then le_bytes 4 (load32_be (slice blk (4 * i) 4)) else slice blk (4 * i) 4))"
  have "?P 16 (fold ?f [0..<16] blk)"
  proof (rule fold_upt_invariant [where P = ?P])
    fix t b assume t: "t < 16" and P: "?P t b"
    have "slice (?f t b) (4 * i) 4 = (if i < Suc t then le_bytes 4 (load32_be (slice blk (4 * i) 4)) else slice blk (4 * i) 4)"
      if i: "i < 16" for i
    proof (cases "i = t")
      case True
      have "slice (?f t b) (4 * t) 4 = le_bytes 4 (read_be32 (slice b (4 * t) 4))"
        using slice_memcpy_same [of "4 * t" "le_bytes 4 (read_be32 (slice b (4 * t) 4))" b] P t by simp
      with True P t show ?thesis by (simp add: read_be32_def load32_be_def)
    next
      case False
      then have "slice (?f t b) (4 * i) 4 = slice b (4 * i) 4"
        using i t P by (intro slice_memcpy_other) auto
      with False P i show ?thesis by simp
    qed
    with P t show "?P (Suc t) (?f t b)" by simp
  qed (use assms in simp_all)
  then show ?thesis by (simp add: block_words_def le_word_le_bytes)
qed

lemma length_words_block [simp]: "length (words_block w) = 4 * length w"
  by (induction w) (simp_all add: words_block_def)

lemma qp_transform:
  assumes "length (qp_block ctx) = 64"
  shows "qp_state (qp_transform ctx) = spec_compress (qp_state ctx) (qp_block ctx)"
    and "length (qp_block (qp_transform ctx)) = 64"
    and "qp_total_bytes (qp_transform ctx) = qp_total_bytes ctx" and "qp_block_len (qp_transform ctx) = qp_block_len ctx"
  using transform_schedule_eq [OF assms, of "qp_state ctx"] block_words_convert [OF assms] length_transform_schedule
  by (simp_all add: qp_transform_def Let_def case_prod_unfold)

section \<open>Streaming\<close>

text \<open>A context stands for the message fed to it so far; only the pending bytes of its block
  matter.\<close>

definition qp_represents :: "qp_sha256_ctx \<Rightarrow> bytes \<Rightarrow> bool" where
  "qp_represents ctx m \<longleftrightarrow>
     qp_state ctx = spec_absorb sha256_initial_state m \<and> qp_total_bytes ctx = of_nat (length m) \<and>
     length (qp_block ctx) = 64 \<and> unat (qp_block_len ctx) = length m mod 64 \<and>
     take (length m mod 64) (qp_block ctx) = sha_tail m"

lemma qp_represents_init: "length (qp_block ctx) = 64 \<Longrightarrow> qp_represents (qp_sha256_init ctx) []"
  by (simp add: qp_represents_def qp_sha256_init_def qp_constants)

text \<open>One pass of the loop takes bytes up to the end of the block.\<close>

lemma qp_update_step:
  assumes rep: "qp_represents ctx m" and ne: "data \<noteq> []"
  defines "k \<equiv> min (length data) (64 - length m mod 64)"
  obtains c' where "qp_update_step ctx data = (c', k)" and "qp_represents c' (m @ take k data)" and "0 < k"
proof -
  let ?r = "length m mod 64" and ?xs = "take k data"
  have r: "?r < 64" and lb: "length (qp_block ctx) = 64" and bl: "unat (qp_block_len ctx) = ?r"
    and tk: "take ?r (qp_block ctx) = sha_tail m" and st: "qp_state ctx = spec_absorb sha256_initial_state m"
    and tot: "qp_total_bytes ctx = of_nat (length m)"
    using rep by (simp_all add: qp_represents_def)
  have k: "0 < k" "k \<le> length data" "?r + k \<le> 64" "length ?xs = k" using ne r by (auto simp: k_def)
  have "qp_block_len ctx \<le> 64" using bl r by (simp add: word_le_nat_alt)
  then have room: "unat (64 - qp_block_len ctx) = 64 - ?r" by (simp add: unat_sub bl)
  have "64 - qp_block_len ctx = of_nat (64 - ?r)" by (subst room [symmetric]) simp
  then have tn: "(if length data < unat (64 - qp_block_len ctx) then of_nat (length data) else 64 - qp_block_len ctx) = (of_nat k :: u8)"
    unfolding room by (auto simp: k_def min_def)
  have unk: "unat (of_nat k :: u8) = k" using k by (simp add: unat_of_nat_u8)
  have uck: "ucast (of_nat k :: u8) = (of_nat k :: u32)" using k by (simp add: unsigned_of_nat take_bit_nat_eq_self)
  have "qp_block_len ctx = of_nat ?r" by (subst bl [symmetric]) simp
  then have len: "qp_block_len ctx + of_nat k = of_nat (?r + k)" by simp
  have unl: "unat (of_nat (?r + k) :: u8) = ?r + k" using k by (intro unat_of_nat_u8) simp
  define c1 where "c1 = ctx\<lparr>qp_block := memcpy (qp_block ctx) ?r ?xs, qp_block_len := of_nat (?r + k),
      qp_total_bytes := of_nat (length m + k)\<rparr>"
  have step: "qp_update_step ctx data = (if ?r + k = 64 then (qp_transform c1)\<lparr>qp_block_len := 0\<rparr> else c1, k)"
    using unl unfolding qp_update_step_def Let_def tn unk uck bl len tot
    by (auto simp: c1_def word_unat_eq_iff simp del: of_nat_add) (simp_all add: of_nat_add)
  have blk: "take (?r + k) (qp_block c1) = sha_tail m @ ?xs" "length (qp_block c1) = 64"
    using lb tk k r by (simp_all add: c1_def memcpy_def)
  have abs: "spec_absorb sha256_initial_state (m @ ?xs) = spec_absorb (qp_state ctx) (sha_tail m @ ?xs)"
    by (simp add: absorb_append [of _ m] st)
  have lt: "length (sha_tail m @ ?xs) = ?r + k" using k by simp
  have lm: "length (m @ ?xs) mod 64 = (?r + k) mod 64" using k by (simp add: mod_add_left_eq)
  show ?thesis
  proof (cases "?r + k = 64")
    case True
    then have full: "qp_block c1 = sha_tail m @ ?xs" using blk by (metis take_all_iff order_refl)
    have b64: "length (sha_tail m @ ?xs) = 64" using lt True by simp
    have "spec_absorb (qp_state ctx) (sha_tail m @ ?xs) = spec_compress (qp_state ctx) (qp_block c1)"
      using absorb_block [OF b64, of "qp_state ctx" "[]"] full by simp
    moreover have "sha_tail (m @ ?xs) = []"
      using sha_tail_block [OF b64, of "[]"] by (simp add: tail_append [of m])
    ultimately have "qp_represents ((qp_transform c1)\<lparr>qp_block_len := 0\<rparr>) (m @ ?xs)"
      using qp_transform [OF blk(2)] lm True k abs by (simp add: qp_represents_def c1_def)
    with True step k that show ?thesis by simp
  next
    case False
    then have s: "?r + k < 64" using k by simp
    have "spec_absorb (qp_state ctx) (sha_tail m @ ?xs) = qp_state ctx" using lt s by simp
    moreover have "sha_tail (m @ ?xs) = sha_tail m @ ?xs" using lt s by (simp add: tail_append [of m])
    ultimately have "qp_represents c1 (m @ ?xs)"
      using lm s k abs blk unl by (simp add: qp_represents_def c1_def del: of_nat_add)
    with False step k that show ?thesis by simp
  qed
qed

lemma qp_update_returns:
  "qp_represents ctx m \<Longrightarrow> \<exists>c'. qp_update_loop ctx data = Some c' \<and> qp_represents c' (m @ data)"
proof (induction data arbitrary: ctx m rule: length_induct)
  case (1 data)
  show ?case
  proof (cases "data = []")
    case True
    with "1.prems" show ?thesis by (simp add: qp_update_loop.simps)
  next
    case False
    obtain c1 k where s: "qp_update_step ctx data = (c1, k)" "qp_represents c1 (m @ take k data)" "0 < k"
      by (rule qp_update_step [OF "1.prems" False])
    have "length (drop k data) < length data" using s(3) False by simp
    with "1.IH" s(2) obtain c' where "qp_update_loop c1 (drop k data) = Some c'" "qp_represents c' ((m @ take k data) @ drop k data)"
      by blast
    with s False show ?thesis by (simp add: qp_update_loop.simps [of ctx])
  qed
qed

lemma qp_represents_update: "qp_represents ctx m \<Longrightarrow> qp_represents (qp_sha256_update ctx xs) (m @ xs)"
  using qp_update_returns [of ctx m xs] by (auto simp: qp_sha256_update_def)

section \<open>Finalisation\<close>

text \<open>The padding with the code's 32-bit byte counter.\<close>

definition spec_sha256_32 :: "bytes \<Rightarrow> bytes" where
  "spec_sha256_32 m = concat (map (be_bytes 4) (spec_absorb sha256_initial_state
     (m @ [0x80] @ replicate ((119 - length m mod 64) mod 64) 0 @ be_bytes 8 (push_bit 3 (ucast (of_nat (length m) :: u32) :: u64)))))"

lemma spec_sha256_32_eq: "length m < 2 ^ 32 \<Longrightarrow> spec_sha256_32 m = spec_sha256 m"
  by (simp add: spec_sha256_32_def spec_sha256_def spec_pad_def unsigned_of_nat take_bit_nat_eq_self push_bit_eq_mult mult.commute)

lemma count_bytes:
  "[ucast (drop_bit 24 (drop_bit 29 t)), ucast (drop_bit 16 (drop_bit 29 t)), ucast (drop_bit 8 (drop_bit 29 t)), ucast (drop_bit 29 t),
    ucast (drop_bit 24 (push_bit 3 t)), ucast (drop_bit 16 (push_bit 3 t)), ucast (drop_bit 8 (push_bit 3 t)), ucast (push_bit 3 t)]
   = be_bytes 8 (push_bit 3 (ucast (t :: u32) :: u64))"
proof (rule nth_equalityI)
  fix i assume "i < length [ucast (drop_bit 24 (drop_bit 29 t)) :: u8, ucast (drop_bit 16 (drop_bit 29 t)), ucast (drop_bit 8 (drop_bit 29 t)),
    ucast (drop_bit 29 t), ucast (drop_bit 24 (push_bit 3 t)), ucast (drop_bit 16 (push_bit 3 t)), ucast (drop_bit 8 (push_bit 3 t)), ucast (push_bit 3 t)]"
  then have "i \<in> {0, 1, 2, 3, 4, 5, 6, 7}" by (simp add: numeral_eq_Suc less_Suc_eq) 
  then show "[ucast (drop_bit 24 (drop_bit 29 t)), ucast (drop_bit 16 (drop_bit 29 t)), ucast (drop_bit 8 (drop_bit 29 t)),
    ucast (drop_bit 29 t), ucast (drop_bit 24 (push_bit 3 t)), ucast (drop_bit 16 (push_bit 3 t)), ucast (drop_bit 8 (push_bit 3 t)), ucast (push_bit 3 t)] ! i
    = be_bytes 8 (push_bit 3 (ucast t :: u64)) ! i"
    by (elim insertE emptyE; simp add: be_bytes_def le_bytes_def upt_8; intro bit_word_eqI; auto simp: bit_simps add.commute dest: bit_imp_le_length)
qed simp

lemma final_pad_long:
  assumes rep: "qp_represents ctx m" and p: "length (sha_tail m) > 55"
  shows "qp_state (final_pad ctx) = spec_compress (qp_state ctx) (sha_tail m @ [0x80] @ replicate (63 - length (sha_tail m)) 0)"
    and "length (qp_block (final_pad ctx)) = 64" and "qp_block_len (final_pad ctx) = 0"
proof -
  let ?p = "sha_tail m"
  have r: "length ?p < 64" "unat (qp_block_len ctx) = length ?p" "length (qp_block ctx) = 64" "take (length ?p) (qp_block ctx) = ?p"
    using rep by (simp_all add: qp_represents_def)
  have n: "unat (qp_block_len ctx + 1) = Suc (length ?p)" using r(1,2) by (simp add: unat_word_ariths)
  then have gt: "qp_block_len ctx + 1 > 56" using p by (simp add: word_less_nat_alt)
  have buf: "(qp_block ctx)[length ?p := 0x80] = ?p @ [0x80] @ drop (Suc (length ?p)) (qp_block ctx)"
    using r upd_conv_take_nth_drop [of "length ?p" "qp_block ctx" "0x80"] by simp
  have "memcpy ((qp_block ctx)[length ?p := 0x80]) (Suc (length ?p)) (replicate (63 - length ?p) 0)
      = ?p @ [0x80] @ replicate (63 - length ?p) 0"
    using r(1,3) by (simp add: buf memcpy_def del: length_sha_tail)
  then have fp: "final_pad ctx = (qp_transform (ctx\<lparr>qp_block := ?p @ [0x80] @ replicate (63 - length ?p) 0, qp_block_len := 64\<rparr>))\<lparr>qp_block_len := 0\<rparr>"
    using gt by (simp add: final_pad_def r(2) Let_def del: length_sha_tail)
  have "length (?p @ [0x80] @ replicate (63 - length ?p) 0) = 64" using r(1) by (simp del: length_sha_tail)
  then show "qp_state (final_pad ctx) = spec_compress (qp_state ctx) (?p @ [0x80] @ replicate (63 - length ?p) 0)"
    and "length (qp_block (final_pad ctx)) = 64" and "qp_block_len (final_pad ctx) = 0"
    using qp_transform [of "ctx\<lparr>qp_block := ?p @ [0x80] @ replicate (63 - length ?p) 0, qp_block_len := 64\<rparr>"]
    by (simp_all add: fp del: length_sha_tail)
qed

lemma final_pad_short:
  assumes rep: "qp_represents ctx m" and p: "length (sha_tail m) \<le> 55"
  shows "qp_state (final_pad ctx) = qp_state ctx" and "length (qp_block (final_pad ctx)) = 64"
    and "unat (qp_block_len (final_pad ctx)) = Suc (length (sha_tail m))"
    and "take (Suc (length (sha_tail m))) (qp_block (final_pad ctx)) = sha_tail m @ [0x80]"
proof -
  let ?p = "sha_tail m"
  have r: "length ?p < 64" "unat (qp_block_len ctx) = length ?p" "length (qp_block ctx) = 64" "take (length ?p) (qp_block ctx) = ?p"
    using rep by (simp_all add: qp_represents_def)
  have n: "unat (qp_block_len ctx + 1) = Suc (length ?p)" using r(1,2) by (simp add: unat_word_ariths)
  then have "\<not> qp_block_len ctx + 1 > 56" using p by (simp add: word_less_nat_alt)
  then have fp: "final_pad ctx = ctx\<lparr>qp_block := (qp_block ctx)[length ?p := 0x80], qp_block_len := qp_block_len ctx + 1\<rparr>"
    by (simp add: final_pad_def r(2) Let_def del: length_sha_tail)
  have buf: "(qp_block ctx)[length ?p := 0x80] = ?p @ [0x80] @ drop (Suc (length ?p)) (qp_block ctx)"
    using r upd_conv_take_nth_drop [of "length ?p" "qp_block ctx" "0x80"] by simp
  show "qp_state (final_pad ctx) = qp_state ctx" and "length (qp_block (final_pad ctx)) = 64"
    and "unat (qp_block_len (final_pad ctx)) = Suc (length ?p)" using n r(3) by (simp_all add: fp del: length_sha_tail)
  show "take (Suc (length ?p)) (qp_block (final_pad ctx)) = ?p @ [0x80]" by (simp add: fp buf del: length_sha_tail)
qed

lemma final_transform_state:
  assumes rep: "qp_represents ctx m"
  defines "p \<equiv> sha_tail m" and "bits \<equiv> be_bytes 8 (push_bit 3 (ucast (qp_total_bytes ctx) :: u64))"
  shows "qp_state (final_transform ctx) = spec_absorb (qp_state ctx) (p @ [0x80] @ replicate ((119 - length p) mod 64) 0 @ bits)"
    and "length (qp_block (final_transform ctx)) = 64"
proof -
  have p64: "length p < 64" and lb: "length bits = 8" by (simp_all add: p_def bits_def)
  define c1 where "c1 = final_pad ctx"
  define n where "n = unat (qp_block_len c1)"
  define blk where "blk = memcpy (memcpy (qp_block c1) n (replicate (56 - n) 0)) 56 bits"
  have ft: "final_transform ctx = qp_transform (c1\<lparr>qp_block := blk, qp_block_len := 56\<rparr>)"
    by (simp add: final_transform_def Let_def c1_def n_def blk_def bits_def count_bytes [symmetric])
  have both: "n \<le> 56 \<and> length (qp_block c1) = 64 \<and> spec_compress (qp_state c1) (take n (qp_block c1) @ replicate (56 - n) 0 @ bits)
      = spec_absorb (qp_state ctx) (p @ [0x80] @ replicate ((119 - length p) mod 64) 0 @ bits)"
  proof (cases "length p > 55")
    case True
    note long = final_pad_long [OF rep True [unfolded p_def]]
    from long True show ?thesis unfolding absorb_padded [OF p64 lb] by (simp add: c1_def n_def p_def)
  next
    case False
    then have le: "length (sha_tail m) \<le> 55" by (simp add: p_def)
    note short = final_pad_short [OF rep le]
    have n: "n = Suc (length p)" using short(3) by (simp add: n_def c1_def p_def)
    have "56 - n = 55 - length p" using n by simp
    with short False n le show ?thesis unfolding absorb_padded [OF p64 lb] by (simp add: c1_def p_def del: length_sha_tail)
  qed
  then have "blk = take n (qp_block c1) @ replicate (56 - n) 0 @ bits"
    using lb by (simp add: blk_def memcpy_def)
  moreover from this both lb have "length blk = 64" by simp
  ultimately show "qp_state (final_transform ctx) = spec_absorb (qp_state ctx) (p @ [0x80] @ replicate ((119 - length p) mod 64) 0 @ bits)"
    and "length (qp_block (final_transform ctx)) = 64"
    using qp_transform [of "c1\<lparr>qp_block := blk, qp_block_len := 56\<rparr>"] both by (simp_all add: ft)
qed

lemma final_state_spec:
  assumes rep: "qp_represents ctx m"
  shows "concat (map (be_bytes 4) (qp_state (final_transform ctx))) = spec_sha256_32 m"
    and "length (qp_state (final_transform ctx)) = 8"
proof -
  have tot: "qp_total_bytes ctx = of_nat (length m)" and st: "qp_state ctx = spec_absorb sha256_initial_state m"
    using rep by (simp_all add: qp_represents_def)
  show "concat (map (be_bytes 4) (qp_state (final_transform ctx))) = spec_sha256_32 m"
    unfolding final_transform_state(1) [OF rep] spec_sha256_32_def absorb_append [of _ m] st tot length_sha_tail ..
  show "length (qp_state (final_transform ctx)) = 8"
    unfolding final_transform_state(1) [OF rep] st
    by (intro length_absorb) (simp add: sha256_initial_state_def)
qed

lemma write_digest_words: "words \<le> length (qp_state ctx) \<Longrightarrow>
    write_digest_words ctx words = concat (map (be_bytes 4) (take words (qp_state ctx)))"
proof -
  assume w: "words \<le> length (qp_state ctx)"
  have "write_digest_words ctx words = concat (map (be_bytes 4) (map ((!) (qp_state ctx)) [0..<words]))"
    by (simp add: write_digest_words_def comp_def Common.store32_be [symmetric] c0pq_store32_be_def)
  also have "map ((!) (qp_state ctx)) [0..<words] = take words (qp_state ctx)"
    using w by (intro nth_equalityI) auto
  finally show ?thesis .
qed

lemma take_concat_be: "take (4 * n) (concat (map (be_bytes 4) ws)) = concat (map (be_bytes 4) (take n (ws :: u32 list)))"
proof (induction ws arbitrary: n)
  case (Cons w ws)
  show ?case by (cases n) (simp_all add: Cons.IH)
qed simp

lemma qp_final_spec:
  assumes rep: "qp_represents ctx m"
  shows "fst (qp_sha256_final ctx) = spec_sha256_32 m" and "fst (qp_sha256_final_16 ctx) = take 16 (spec_sha256_32 m)"
    and "length (qp_block (snd (qp_sha256_final ctx))) = 64"
proof -
  note st = final_state_spec [OF rep]
  show "fst (qp_sha256_final ctx) = spec_sha256_32 m"
    using st by (simp add: qp_sha256_final_def Let_def write_digest_words)
  show "fst (qp_sha256_final_16 ctx) = take 16 (spec_sha256_32 m)"
    using st take_concat_be [of 4 "qp_state (final_transform ctx)"] by (simp add: qp_sha256_final_16_def Let_def write_digest_words)
  show "length (qp_block (snd (qp_sha256_final ctx))) = 64"
    using final_transform_state(2) [OF rep] by (simp add: qp_sha256_final_def Let_def)
qed

lemma length_spec_sha256_32: "length (spec_sha256_32 m) = 32"
proof -
  have "length (spec_absorb sha256_initial_state bs) = 8" for bs
    by (rule length_absorb) (simp add: sha256_initial_state_def)
  then show ?thesis by (simp add: spec_sha256_32_def length_concat comp_def sum_list_triv)
qed

lemma qp_local_block [simp]: "length (qp_block qp_local) = 64"
  by (simp add: qp_local_def)

interpretation qp: streaming_hash "qp_sha256_init qp_local" qp_sha256_update qp_sha256_final spec_sha256_32 qp_represents 32
  by unfold_locales (simp_all add: qp_represents_init qp_represents_update qp_final_spec(1) length_spec_sha256_32)

section \<open>HMAC on one context\<close>

lemma fold_update_prefix: "n \<le> length b \<Longrightarrow> fold (\<lambda>i b. b[i := f i]) [0..<n] b = map f [0..<n] @ drop n b"
proof (induction n)
  case (Suc n)
  then have "drop n b = b ! n # drop (Suc n) b" by (simp add: Cons_nth_drop_Suc)
  with Suc show ?case by (simp add: list_update_append)
qed simp

lemma hmac_prefix_represents:
  assumes "length (qp_block ctx) = 64" and "length key = 32"
  shows "qp_represents (hmac_prefix ctx key pad) (map (\<lambda>b. b XOR pad) (spec_hmac_key key))"
proof -
  have key: "map (\<lambda>i. key ! i XOR pad) [0..<32] = map (\<lambda>b. b XOR pad) key"
    using assms(2) by (intro nth_equalityI) simp_all
  let ?b = "map (\<lambda>b. b XOR pad) key @ replicate 32 pad"
  have k: "map (\<lambda>b. b XOR pad) (spec_hmac_key key) = ?b"
    using assms(2) by (simp add: spec_hmac_key_def map_replicate_const [symmetric])
  have len: "length ?b = 64" using assms(2) by simp
  let ?c = "ctx\<lparr>qp_state := sha256_initial_state, qp_block_len := 0, qp_block := ?b, qp_total_bytes := 64\<rparr>"
  have "memcpy (map (\<lambda>b. b XOR pad) key @ drop 32 (qp_block ctx)) 32 (replicate 32 pad) = ?b"
    using assms by (simp add: memcpy_def)
  then have "hmac_prefix ctx key pad = qp_transform ?c"
    using assms(1) by (simp add: hmac_prefix_def qp_sha256_init_def fold_update_prefix key qp_constants Let_def)
  moreover have "spec_absorb sha256_initial_state ?b = spec_compress sha256_initial_state ?b"
    using absorb_block [OF len, of sha256_initial_state "[]"] by simp
  moreover have "sha_tail ?b = []" using sha_tail_block [OF len, of "[]"] by simp
  ultimately show ?thesis
    unfolding k using qp_transform [of ?c] len assms(2) by (simp add: qp_represents_def)
qed

lemma qp_hmac_spec:
  assumes key: "length key = 32" and len: "length m < 2 ^ 32 - 64"
  shows "qp_hmac_sha256_32 key m = spec_hmac key m"
proof -
  have k64: "length (spec_hmac_key key) = 64" using key by (simp add: spec_hmac_key_def)
  let ?i = "map (\<lambda>b. b XOR 0x36) (spec_hmac_key key) @ m" and ?c1 = "qp_sha256_update (hmac_prefix qp_local key 0x36) m"
  have r1: "qp_represents ?c1 ?i" by (intro qp_represents_update hmac_prefix_represents key) simp
  have tag: "fst (qp_sha256_final ?c1) = spec_sha256 ?i"
    using qp_final_spec(1) [OF r1] spec_sha256_32_eq [of ?i] len k64 by simp
  have r2: "qp_represents (qp_sha256_update (hmac_prefix (snd (qp_sha256_final ?c1)) key 0x5c) (spec_sha256 ?i))
      (map (\<lambda>b. b XOR 0x5c) (spec_hmac_key key) @ spec_sha256 ?i)"
    by (intro qp_represents_update hmac_prefix_represents key qp_final_spec(3) [OF r1])
  have "length (map (\<lambda>b. b XOR 0x5c) (spec_hmac_key key) @ spec_sha256 ?i) < 2 ^ 32"
    using k64 by (simp add: length_spec_sha256)
  with qp_final_spec(1) [OF r2] tag show ?thesis
    by (simp add: qp_hmac_sha256_32_def Let_def case_prod_unfold spec_sha256_32_eq spec_hmac_def)
qed

lemma length_qp_hmac [simp]: "length key = 32 \<Longrightarrow> length (qp_hmac_sha256_32 key m) = 32"
proof -
  assume key: "length key = 32"
  let ?c1 = "qp_sha256_update (hmac_prefix qp_local key 0x36) m"
  have r1: "qp_represents ?c1 (map (\<lambda>b. b XOR 0x36) (spec_hmac_key key) @ m)"
    by (intro qp_represents_update hmac_prefix_represents key) simp
  have "qp_represents (qp_sha256_update (hmac_prefix (snd (qp_sha256_final ?c1)) key 0x5c) (fst (qp_sha256_final ?c1)))
      (map (\<lambda>b. b XOR 0x5c) (spec_hmac_key key) @ fst (qp_sha256_final ?c1))"
    by (intro qp_represents_update hmac_prefix_represents key qp_final_spec(3) [OF r1])
  from qp.length_final [OF this] show ?thesis by (simp add: qp_hmac_sha256_32_def Let_def case_prod_unfold)
qed

text \<open>The state the SLH-DSA verifier starts every hash from: that of the padded key seed.\<close>

lemma fips205_seed_state:
  assumes "length seed = 16"
  shows "qp_sha256_fips205_seed seed = spec_absorb sha256_initial_state (seed @ replicate 48 0)"
proof -
  let ?b = "seed @ replicate 48 (0 :: u8)"
  have len: "length ?b = 64" using assms by simp
  have lo: "load32_be (slice ?b (4 * i) 4) = read_be32 (slice seed (4 * i) 4)" if "i < 4" for i
    using that assms by (simp add: slice_append_left load32_be_def read_be32_def)
  have hi: "load32_be (slice ?b (4 * i) 4) = 0" if "4 \<le> i" "i < 16" for i
    using that assms by (simp add: slice_append_right slice_def load32_be_def)
  have "map (\<lambda>i. load32_be (slice ?b (4 * i) 4)) [0..<16] = map (\<lambda>i. read_be32 (slice seed (4 * i) 4)) [0..<4] @ replicate 12 0"
    using lo hi by (intro nth_equalityI) (auto simp: nth_append simp del: upt_conv_Cons_Cons)
  then have "qp_sha256_fips205_seed seed = spec_compress sha256_initial_state ?b"
    using transform_schedule_eq [OF len, of sha256_initial_state] by (simp add: qp_sha256_fips205_seed_def qp_constants)
  with absorb_block [OF len, of sha256_initial_state "[]"] show ?thesis by simp
qed

lemma qp_constant_time_equal_iff:
  "len \<le> length a \<Longrightarrow> len \<le> length b \<Longrightarrow> qp_constant_time_equal a b len \<longleftrightarrow> take len a = take len b"
  using ct_equal_iff [of len a b] by (simp add: qp_constant_time_equal_def c0pqlink_ct_equal_def)

section \<open>Properties\<close>

text \<open>the firmware's SHA-256 and HMAC are the standard's. Whatever the stack left in the
  block, a message below \<open>2^32\<close> bytes fed in any pieces gives the SHA-256 of their concatenation, in
  full or truncated to sixteen bytes; and HMAC under a 32-byte key is RFC 2104's. The update loop ends
  on every context reached this way.\<close>

theorem qp_hash_standard:
  assumes "length (qp_block ctx) = 64" and "length (concat chunks) < 2 ^ 32"
    and "length key = 32" and "length m < 2 ^ 32 - 64"
  shows "fst (qp_sha256_final (fold (\<lambda>x c. qp_sha256_update c x) chunks (qp_sha256_init ctx))) = spec_sha256 (concat chunks) \<and>
    fst (qp_sha256_final_16 (fold (\<lambda>x c. qp_sha256_update c x) chunks (qp_sha256_init ctx))) = take 16 (spec_sha256 (concat chunks)) \<and>
    (\<forall>data. qp_update_loop (fold (\<lambda>x c. qp_sha256_update c x) chunks (qp_sha256_init ctx)) data \<noteq> None) \<and>
    qp_hmac_sha256_32 key m = spec_hmac key m"
proof -
  have rep: "qp_represents (fold (\<lambda>x c. qp_sha256_update c x) chunks (qp_sha256_init ctx)) (concat chunks)"
    using qp.represents_updates [OF qp_represents_init [OF assms(1)], of chunks] by simp
  show ?thesis
    using qp_final_spec [OF rep] qp_update_returns [OF rep] spec_sha256_32_eq [OF assms(2)] qp_hmac_spec [OF assms(3,4)]
    by auto
qed

theorem qp_hash_standard_witness:
  "qp_hmac_sha256_32 (replicate 32 7) [1, 2, 3] = spec_hmac (replicate 32 7) [1, 2, 3]"
  using qp_hash_standard [of qp_local "[]" "replicate 32 7" "[1, 2, 3]"] by simp

end
