(* ===== verification/NpqCommon.thy ===== *)
theory NpqCommon
  imports NpqHash Ascon
begin

text \<open>
  NanoPQ firmware, \<open>common.c\<close> and \<open>ascon_aead128.c\<close>: result codes, wipe, comparison, 32-bit
  big-endian fields, and the AEAD. The firmware's Ascon file is a copy of \<open>core/ascon_aead128.c\<close>
  with other names for its entry points and helpers, so the static functions are those of theory
  \<open>Ascon\<close>; the two entry points are defined again and shown to be the same functions.
\<close>

unbundle bit_operations_syntax

datatype npq_status =
    NPQ_OK
  | NPQ_ERR_ARGUMENT
  | NPQ_ERR_FORMAT
  | NPQ_ERR_AUTH
  | NPQ_ERR_REPLAY
  | NPQ_ERR_STATE
  | NPQ_ERR_CAPACITY
  | NPQ_ERR_IO

section \<open>Helpers\<close>

fun npq_secure_zero :: "bytes \<Rightarrow> nat \<Rightarrow> bytes" where
  "npq_secure_zero bs 0 = bs"
| "npq_secure_zero [] (Suc len) = []"
| "npq_secure_zero (b # bs) (Suc len) = 0 # npq_secure_zero bs len"

definition npq_constant_time_equal :: "bytes \<Rightarrow> bytes \<Rightarrow> nat \<Rightarrow> bool" where
  "npq_constant_time_equal left right len =
     (fold (\<lambda>i difference. difference OR (left ! i XOR right ! i)) [0..<len] 0 = 0)"

definition npq_store_u32_be :: "u32 \<Rightarrow> bytes" where
  "npq_store_u32_be value =
     [ucast (drop_bit 24 value), ucast (drop_bit 16 value), ucast (drop_bit 8 value), ucast value]"

definition npq_load_u32_be :: "bytes \<Rightarrow> u32" where
  "npq_load_u32_be input =
     push_bit 24 (ucast (input ! 0)) OR push_bit 16 (ucast (input ! 1))
       OR push_bit 8 (ucast (input ! 2)) OR ucast (input ! 3)"

section \<open>Authenticated encryption\<close>

definition npq_ascon_aead128_encrypt :: "bytes \<Rightarrow> bytes \<Rightarrow> bytes \<Rightarrow> bytes \<Rightarrow> bytes \<times> bytes" where
  "npq_ascon_aead128_encrypt key nonce associated_data plaintext =
     (let s0 = absorb_associated_data (initialize key nonce) associated_data;
          (s1, c1, rest) = encrypt_blocks s0 plaintext;
          (s2, c2) = encrypt_tail s1 rest
      in (c1 @ c2, finalize_tag s2 key))"

definition npq_ascon_aead128_decrypt ::
  "bytes \<Rightarrow> bytes \<Rightarrow> bytes \<Rightarrow> bytes \<Rightarrow> bytes \<Rightarrow> npq_status \<times> bytes" where
  "npq_ascon_aead128_decrypt key nonce associated_data ciphertext tag =
     (let s0 = absorb_associated_data (initialize key nonce) associated_data;
          (s1, p1, rest) = decrypt_blocks s0 ciphertext;
          (s2, p2) = decrypt_tail s1 rest;
          expected_tag = finalize_tag s2 key;
          plaintext = p1 @ p2
      in if \<not> npq_constant_time_equal expected_tag tag 16
         then (NPQ_ERR_AUTH, npq_secure_zero plaintext (length ciphertext))
         else (NPQ_OK, plaintext))"

section \<open>What the helpers compute\<close>

lemma npq_secure_zero_eq: "npq_secure_zero bs n = c0pqlink_secure_zero bs n"
  by (induction bs n rule: npq_secure_zero.induct) simp_all

lemma npq_equal_eq: "npq_constant_time_equal a b n = c0pqlink_ct_equal a b n"
  by (simp add: npq_constant_time_equal_def c0pqlink_ct_equal_def)

lemma npq_equal_iff [simp]:
  "n \<le> length a \<Longrightarrow> n \<le> length b \<Longrightarrow> npq_constant_time_equal a b n \<longleftrightarrow> take n a = take n b"
  by (simp add: npq_equal_eq ct_equal_iff)

lemma npq_store_be [byte_simps]: "npq_store_u32_be v = be_bytes 4 v"
  by (simp add: npq_store_u32_be_def Common.store32_be [symmetric] c0pq_store32_be_def)

lemma npq_load_be [byte_simps]: "length bs = 4 \<Longrightarrow> npq_load_u32_be bs = be_word bs"
  by (simp add: npq_load_u32_be_def Common.load32_be [symmetric] c0pq_load32_be_def)

lemma npq_encrypt_eq: "npq_ascon_aead128_encrypt k n a p = c0_ascon_aead128_encrypt k n a p"
  by (simp add: npq_ascon_aead128_encrypt_def c0_ascon_aead128_encrypt_def)

text \<open>The contract of the AEAD carries over from theory \<open>Ascon\<close>.\<close>

lemma npq_decrypt_eq:
  "npq_ascon_aead128_decrypt k n a c t =
     (case c0_ascon_aead128_decrypt k n a c t of (st, p) \<Rightarrow> (if st = C0PQLINK_OK then NPQ_OK else NPQ_ERR_AUTH, p))"
  by (simp add: npq_ascon_aead128_decrypt_def c0_ascon_aead128_decrypt_def npq_equal_eq npq_secure_zero_eq Let_def case_prod_unfold)

lemma npq_decrypt_accepts:
  "length t = 16 \<Longrightarrow> npq_ascon_aead128_decrypt k n a c t = (NPQ_OK, p) \<longleftrightarrow> npq_ascon_aead128_encrypt k n a p = (c, t)"
  using ascon.decrypt_accepts [of t k n a c p] by (auto simp: npq_decrypt_eq npq_encrypt_eq split: prod.split if_split_asm)

lemma npq_decrypt_rejects:
  "length t = 16 \<Longrightarrow> fst (npq_ascon_aead128_decrypt k n a c t) \<noteq> NPQ_OK \<Longrightarrow>
     npq_ascon_aead128_decrypt k n a c t = (NPQ_ERR_AUTH, replicate (length c) 0)"
  using ascon.decrypt_rejects [of t k n a c] by (auto simp: npq_decrypt_eq split: prod.splits if_split_asm)

lemma npq_length_encrypt: "npq_ascon_aead128_encrypt k n a p = (c, t) \<Longrightarrow> length c = length p \<and> length t = 16"
  using ascon.length_encrypt [of k n a p c t] by (simp add: npq_encrypt_eq)

end
