(* ===== verification/NpqProtocol.thy ===== *)
theory NpqProtocol
  imports NpqCommon
begin

text \<open>
  NanoPQ firmware, \<open>protocol.c\<close>: the authenticated hello, challenge and finished frames, the
  derivation of a session from their transcript, and the ratcheted data records. Both ends of a link
  run this file, the Nano in the device role and the host peer in the server role. A pointer the
  code tests for \<open>NULL\<close> is an \<open>option\<close>.
\<close>

unbundle bit_operations_syntax

section \<open>Headers and labelled tags\<close>

abbreviation (input) NPQ_FRAME_HELLO :: u8 where "NPQ_FRAME_HELLO \<equiv> 1"
abbreviation (input) NPQ_FRAME_CHALLENGE :: u8 where "NPQ_FRAME_CHALLENGE \<equiv> 2"
abbreviation (input) NPQ_FRAME_CLIENT_FINISHED :: u8 where "NPQ_FRAME_CLIENT_FINISHED \<equiv> 3"
abbreviation (input) NPQ_FRAME_SERVER_FINISHED :: u8 where "NPQ_FRAME_SERVER_FINISHED \<equiv> 4"
abbreviation (input) NPQ_FRAME_DATA :: u8 where "NPQ_FRAME_DATA \<equiv> 5"
abbreviation (input) NPQ_ROLE_DEVICE :: u8 where "NPQ_ROLE_DEVICE \<equiv> 0"
abbreviation (input) NPQ_ROLE_SERVER :: u8 where "NPQ_ROLE_SERVER \<equiv> 1"

definition valid_header :: "bytes \<Rightarrow> u8 \<Rightarrow> bool" where
  "valid_header frame ty \<longleftrightarrow> frame ! 0 = 0x4e \<and> frame ! 1 = 0x51 \<and> frame ! 2 = 1 \<and> frame ! 3 = ty"

definition make_header :: "bytes \<Rightarrow> u8 \<Rightarrow> bytes" where
  "make_header frame ty = memcpy frame 0 [0x4e, 0x51, 1, ty]"

definition hmac_label :: "bytes \<Rightarrow> bytes \<Rightarrow> string \<Rightarrow> bytes \<Rightarrow> npq_status \<times> bytes" where
  "hmac_label out key label data =
     (if length label > 24 \<or> length data > 64 then (NPQ_ERR_CAPACITY, out)
      else (NPQ_OK, qp_hmac_sha256_32 key (text_bytes label @ [0] @ data)))"

definition verify_mac16 :: "bytes \<Rightarrow> bytes \<Rightarrow> string \<Rightarrow> bytes \<Rightarrow> npq_status" where
  "verify_mac16 tag key label data =
     (let (result, digest) = hmac_label (replicate 32 0) key label data
      in if result = NPQ_OK \<and> \<not> npq_constant_time_equal tag digest 16 then NPQ_ERR_AUTH else result)"

section \<open>Transcript and key derivation\<close>

definition transcript_hash :: "bytes \<Rightarrow> bytes \<Rightarrow> bytes" where
  "transcript_hash hello challenge =
     (let h0 = qp_sha256_init qp_local;
          h1 = qp_sha256_update h0 (text_bytes ''NPQ/1 transcript'');
          h2 = qp_sha256_update h1 (take 48 hello);
          h3 = qp_sha256_update h2 (take 60 challenge)
      in fst (qp_sha256_final h3))"

definition session_prk :: "bytes \<Rightarrow> bytes \<Rightarrow> bytes" where
  "session_prk root_key transcript = qp_hmac_sha256_32 transcript (take 32 root_key)"

definition hkdf_expand_label :: "bytes \<Rightarrow> bytes \<Rightarrow> string \<Rightarrow> bytes \<Rightarrow> npq_status \<times> bytes" where
  "hkdf_expand_label out prk label transcript =
     (if length label > 24 then (NPQ_ERR_CAPACITY, out)
      else (NPQ_OK, qp_hmac_sha256_32 prk (text_bytes label @ [0] @ take 32 transcript @ [1])))"

section \<open>Hello\<close>

definition npq_make_hello ::
  "bytes option \<Rightarrow> bytes option \<Rightarrow> bytes option \<Rightarrow> u32 \<Rightarrow> npq_status \<times> bytes option" where
  "npq_make_hello out root_key device_id boot_epoch =
     (case (out, root_key, device_id) of
        (Some o0, Some root, Some dev) \<Rightarrow>
          if boot_epoch = 0 then (NPQ_ERR_ARGUMENT, out)
          else
            let o1 = make_header o0 NPQ_FRAME_HELLO;
                o2 = memcpy o1 4 (take 8 dev);
                o3 = memcpy o2 12 (npq_store_u32_be boot_epoch);
                nonce_input = take 8 dev @ npq_store_u32_be boot_epoch;
                digest = snd (hmac_label (replicate 32 0) root ''NPQ/1 client nonce'' nonce_input);
                o4 = memcpy o3 16 (take 16 digest);
                digest = snd (hmac_label digest root ''NPQ/1 hello'' (take 32 o4));
                o5 = memcpy o4 32 (take 16 digest)
            in (NPQ_OK, Some o5)
      | _ \<Rightarrow> (NPQ_ERR_ARGUMENT, out))"

definition npq_verify_hello :: "bytes option \<Rightarrow> bytes option \<Rightarrow> npq_status" where
  "npq_verify_hello frame root_key =
     (case (frame, root_key) of
        (Some f, Some root) \<Rightarrow>
          if \<not> valid_header f NPQ_FRAME_HELLO \<or> npq_load_u32_be (slice f 12 4) = 0 then NPQ_ERR_FORMAT
          else verify_mac16 (slice f 32 16) root ''NPQ/1 hello'' (take 32 f)
      | _ \<Rightarrow> NPQ_ERR_FORMAT)"

section \<open>Challenge\<close>

definition npq_make_challenge ::
  "bytes option \<Rightarrow> bytes option \<Rightarrow> bytes option \<Rightarrow> bytes option \<Rightarrow> npq_status \<times> bytes option" where
  "npq_make_challenge out root_key hello server_nonce =
     (case (out, server_nonce) of
        (Some o0, Some nonce) \<Rightarrow>
          let result = npq_verify_hello hello root_key
          in if result \<noteq> NPQ_OK then (result, out)
             else
               let h = the hello; root = the root_key;
                   o1 = make_header o0 NPQ_FRAME_CHALLENGE;
                   o2 = memcpy o1 4 (slice h 12 4);
                   o3 = memcpy o2 8 (slice h 16 16);
                   o4 = memcpy o3 24 (take 16 nonce);
                   digest = snd (hmac_label (replicate 32 0) root ''NPQ/1 session id'' (take 40 o4));
                   o5 = memcpy o4 40 (take 4 digest);
                   digest = snd (hmac_label digest root ''NPQ/1 challenge'' (take 44 o5));
                   o6 = memcpy o5 44 (take 16 digest)
               in (NPQ_OK, Some o6)
      | _ \<Rightarrow> (NPQ_ERR_ARGUMENT, out))"

definition npq_verify_challenge :: "bytes option \<Rightarrow> bytes option \<Rightarrow> bytes option \<Rightarrow> npq_status" where
  "npq_verify_challenge frame root_key hello =
     (case (frame, root_key, hello) of
        (Some f, Some root, Some h) \<Rightarrow>
          if \<not> valid_header f NPQ_FRAME_CHALLENGE
             \<or> \<not> npq_constant_time_equal (drop 4 f) (drop 12 h) 4
             \<or> \<not> npq_constant_time_equal (drop 8 f) (drop 16 h) 16
          then NPQ_ERR_FORMAT
          else verify_mac16 (slice f 44 16) root ''NPQ/1 challenge'' (take 44 f)
      | _ \<Rightarrow> NPQ_ERR_FORMAT)"

text \<open>Both frames are checked again before anything is derived from them.\<close>

definition derive_transcript_prk ::
  "bytes option \<Rightarrow> bytes option \<Rightarrow> bytes option \<Rightarrow> npq_status \<times> bytes \<times> bytes" where
  "derive_transcript_prk root_key hello challenge =
     (let result = npq_verify_hello hello root_key;
          result = (if result = NPQ_OK then npq_verify_challenge challenge root_key hello else result)
      in if result \<noteq> NPQ_OK then (result, replicate 32 0, replicate 32 0)
         else let transcript = transcript_hash (the hello) (the challenge)
              in (NPQ_OK, transcript, session_prk (the root_key) transcript))"

section \<open>The session\<close>

record npq_session =
  s_send_chain :: bytes
  s_receive_chain :: bytes
  s_send_nonce_base :: bytes
  s_receive_nonce_base :: bytes
  s_session_id :: u32
  s_boot_epoch :: u32
  s_send_sequence :: u32
  s_receive_sequence :: u32
  s_established :: u8

definition session_zero :: npq_session where
  "session_zero =
     \<lparr>s_send_chain = replicate 32 0, s_receive_chain = replicate 32 0,
      s_send_nonce_base = replicate 16 0, s_receive_nonce_base = replicate 16 0,
      s_session_id = 0, s_boot_epoch = 0, s_send_sequence = 0, s_receive_sequence = 0, s_established = 0\<rparr>"

definition npq_derive_session ::
  "npq_session option \<Rightarrow> u8 \<Rightarrow> bytes option \<Rightarrow> bytes option \<Rightarrow> bytes option \<Rightarrow> npq_status \<times> npq_session option" where
  "npq_derive_session session role root_key hello challenge =
     (if session = None \<or> (role \<noteq> NPQ_ROLE_DEVICE \<and> role \<noteq> NPQ_ROLE_SERVER) then (NPQ_ERR_ARGUMENT, session)
      else
        let (result, transcript, prk) = derive_transcript_prk root_key hello challenge
        in if result \<noteq> NPQ_OK then (result, session)
           else
             let client_chain = snd (hkdf_expand_label (replicate 32 0) prk ''NPQ/1 client chain'' transcript);
                 server_chain = snd (hkdf_expand_label (replicate 32 0) prk ''NPQ/1 server chain'' transcript);
                 material = snd (hkdf_expand_label (replicate 32 0) prk ''NPQ/1 client nonce'' transcript);
                 client_nonce = take 16 material;
                 material = snd (hkdf_expand_label material prk ''NPQ/1 server nonce'' transcript);
                 server_nonce = take 16 material;
                 s0 = session_zero;
                 s1 = (if role = NPQ_ROLE_DEVICE
                       then s0\<lparr>s_send_chain := client_chain, s_receive_chain := server_chain,
                               s_send_nonce_base := client_nonce, s_receive_nonce_base := server_nonce\<rparr>
                       else s0\<lparr>s_send_chain := server_chain, s_receive_chain := client_chain,
                               s_send_nonce_base := server_nonce, s_receive_nonce_base := client_nonce\<rparr>);
                 s2 = s1\<lparr>s_session_id := npq_load_u32_be (slice (the challenge) 40 4),
                         s_boot_epoch := npq_load_u32_be (slice (the hello) 12 4), s_established := 1\<rparr>
             in (NPQ_OK, Some s2))"

section \<open>Finished\<close>

definition finished_key_label :: "u8 \<Rightarrow> string" where
  "finished_key_label frame_type =
     (if frame_type = NPQ_FRAME_CLIENT_FINISHED then ''NPQ/1 client finished'' else ''NPQ/1 server finished'')"

definition finished_tag_label :: "u8 \<Rightarrow> string" where
  "finished_tag_label frame_type =
     (if frame_type = NPQ_FRAME_CLIENT_FINISHED then ''NPQ/1 client proof'' else ''NPQ/1 server proof'')"

definition npq_make_finished ::
  "bytes option \<Rightarrow> u8 \<Rightarrow> u8 \<Rightarrow> bytes option \<Rightarrow> bytes option \<Rightarrow> bytes option \<Rightarrow> npq_status \<times> bytes option" where
  "npq_make_finished out frame_type role root_key hello challenge =
     (case out of
        None \<Rightarrow> (NPQ_ERR_ARGUMENT, out)
      | Some o0 \<Rightarrow>
          if frame_type \<noteq> NPQ_FRAME_CLIENT_FINISHED \<and> frame_type \<noteq> NPQ_FRAME_SERVER_FINISHED
          then (NPQ_ERR_ARGUMENT, out)
          else
            let (result, transcript, prk) = derive_transcript_prk root_key hello challenge
            in if result \<noteq> NPQ_OK then (result, out)
               else
                 let key = snd (hkdf_expand_label (replicate 32 0) prk (finished_key_label frame_type) transcript);
                     o1 = make_header o0 frame_type;
                     o2 = memcpy o1 4 (slice (the challenge) 40 4);
                     proof_input = take 8 o2 @ take 32 transcript;
                     digest = snd (hmac_label (replicate 32 0) key (finished_tag_label frame_type) proof_input);
                     o3 = memcpy o2 8 (take 16 digest)
                 in (NPQ_OK, Some o3))"

definition npq_verify_finished ::
  "bytes option \<Rightarrow> u8 \<Rightarrow> u8 \<Rightarrow> bytes option \<Rightarrow> bytes option \<Rightarrow> bytes option \<Rightarrow> npq_status" where
  "npq_verify_finished frame expected_type role root_key hello challenge =
     (case frame of
        None \<Rightarrow> NPQ_ERR_FORMAT
      | Some f \<Rightarrow>
          if \<not> valid_header f expected_type \<or> \<not> npq_constant_time_equal (drop 4 f) (drop 40 (the challenge)) 4
          then NPQ_ERR_FORMAT
          else
            let (result, expected) = npq_make_finished (Some (replicate 24 0)) expected_type role root_key hello challenge
            in if result = NPQ_OK \<and> \<not> npq_constant_time_equal (drop 8 f) (drop 8 (the expected)) 16
               then NPQ_ERR_AUTH else result)"

section \<open>Data records\<close>

definition ratchet_material :: "bytes \<Rightarrow> u32 \<Rightarrow> bytes \<times> bytes" where
  "ratchet_material chain sequence =
     (let encoded = npq_store_u32_be sequence;
          digest = snd (hmac_label (replicate 32 0) chain ''NPQ/1 message key'' encoded);
          message_key = take 16 digest;
          next_chain = snd (hmac_label (replicate 32 0) chain ''NPQ/1 next chain'' encoded)
      in (message_key, next_chain))"

definition make_nonce :: "bytes \<Rightarrow> u32 \<Rightarrow> bytes" where
  "make_nonce base sequence =
     (let encoded = npq_store_u32_be sequence
      in fold (\<lambda>i nonce. nonce[12 + i := nonce ! (12 + i) XOR encoded ! i]) [0..<4] (take 16 base))"

text \<open>The result is the status with the session, the output buffer and the reported length.\<close>

definition npq_seal ::
  "npq_session option \<Rightarrow> bytes option \<Rightarrow> u8 \<Rightarrow> bytes option \<Rightarrow> u8 option
     \<Rightarrow> npq_status \<times> npq_session option \<times> bytes option \<times> u8 option" where
  "npq_seal session plaintext plaintext_length out out_length =
     (case (session, out, out_length) of
        (Some s, Some o0, Some ol) \<Rightarrow>
          if plaintext = None \<and> plaintext_length \<noteq> 0 \<or> plaintext_length > 24
          then (NPQ_ERR_ARGUMENT, session, out, out_length)
          else if s_established s = 0 \<or> s_send_sequence s = - 1 then (NPQ_ERR_STATE, session, out, out_length)
          else
            let n = unat plaintext_length;
                o1 = make_header o0 NPQ_FRAME_DATA;
                o2 = memcpy o1 4 (npq_store_u32_be (s_session_id s));
                o3 = memcpy o2 8 (npq_store_u32_be (s_send_sequence s));
                o4 = o3[12 := plaintext_length];
                (message_key, next_chain) = ratchet_material (s_send_chain s) (s_send_sequence s);
                nonce = make_nonce (s_send_nonce_base s) (s_send_sequence s);
                (ct, tag) = npq_ascon_aead128_encrypt message_key nonce (take 13 o4)
                              (case plaintext of None \<Rightarrow> [] | Some p \<Rightarrow> take n p);
                o5 = memcpy o4 13 ct;
                o6 = memcpy o5 (13 + n) tag;
                s1 = s\<lparr>s_send_chain := next_chain, s_send_sequence := s_send_sequence s + 1\<rparr>
            in (NPQ_OK, Some s1, Some o6, Some (29 + plaintext_length))
      | _ \<Rightarrow> (NPQ_ERR_ARGUMENT, session, out, out_length))"

definition npq_open ::
  "npq_session option \<Rightarrow> bytes option \<Rightarrow> u8 \<Rightarrow> bytes option \<Rightarrow> u8 option
     \<Rightarrow> npq_status \<times> npq_session option \<times> bytes option \<times> u8 option" where
  "npq_open session frame frame_length plaintext plaintext_length =
     (case (session, frame, plaintext, plaintext_length) of
        (Some s, Some f, Some p, Some pl) \<Rightarrow>
          if frame_length < 29 \<or> \<not> valid_header f NPQ_FRAME_DATA
          then (NPQ_ERR_ARGUMENT, session, plaintext, plaintext_length)
          else
            let encoded_length = f ! 12; n = unat encoded_length
            in if encoded_length > 24 \<or> unat frame_length \<noteq> 29 + n \<or> npq_load_u32_be (slice f 4 4) \<noteq> s_session_id s
               then (NPQ_ERR_FORMAT, session, plaintext, plaintext_length)
               else
                 let sequence = npq_load_u32_be (slice f 8 4)
                 in if s_established s = 0 \<or> sequence \<noteq> s_receive_sequence s
                    then (NPQ_ERR_REPLAY, session, plaintext, plaintext_length)
                    else
                      let (message_key, next_chain) = ratchet_material (s_receive_chain s) sequence;
                          nonce = make_nonce (s_receive_nonce_base s) sequence;
                          (result, pt) = npq_ascon_aead128_decrypt message_key nonce (take 13 f)
                                           (slice f 13 n) (slice f (13 + n) 16);
                          p1 = memcpy p 0 pt
                      in if result = NPQ_OK
                         then (result,
                               Some (s\<lparr>s_receive_chain := next_chain, s_receive_sequence := s_receive_sequence s + 1\<rparr>),
                               Some p1, Some encoded_length)
                         else (result, session, Some p1, Some 0)
      | _ \<Rightarrow> (NPQ_ERR_ARGUMENT, session, plaintext, plaintext_length))"

definition npq_close :: "npq_session option \<Rightarrow> npq_session option" where
  "npq_close session = (case session of None \<Rightarrow> None | Some s \<Rightarrow> Some session_zero)"

end
