(* ===== verification/NpqState.thy ===== *)
theory NpqState
  imports NpqProtocol
begin

text \<open>
  NanoPQ firmware, \<open>main.c\<close>: the persistent state. Two 18-byte EEPROM slots hold records with a
  generation and a CRC; the record is kept in the byte order of the AVR, low byte first.

  The EEPROM is a string of 36 bytes. A power loss leaves an image between two writes, or one in
  which any of the bytes of the write under way are still the old ones, in whatever order the
  library writes them; single bytes are written as a whole.
\<close>

unbundle bit_operations_syntax

section \<open>The record\<close>

record npq_state_record =
  r_magic :: u16
  r_schema :: u8
  r_authorized :: u8
  r_generation :: u32
  r_boot_epoch :: u32
  r_policy_sequence :: u32
  r_crc :: u16

definition record_bytes :: "npq_state_record \<Rightarrow> bytes" where
  "record_bytes r =
     le_bytes 2 (r_magic r) @ [r_schema r, r_authorized r] @ le_bytes 4 (r_generation r) @ le_bytes 4 (r_boot_epoch r)
       @ le_bytes 4 (r_policy_sequence r) @ le_bytes 2 (r_crc r)"

definition bytes_record :: "bytes \<Rightarrow> npq_state_record" where
  "bytes_record bs =
     \<lparr>r_magic = le_word (slice bs 0 2), r_schema = bs ! 2, r_authorized = bs ! 3, r_generation = le_word (slice bs 4 4),
      r_boot_epoch = le_word (slice bs 8 4), r_policy_sequence = le_word (slice bs 12 4), r_crc = le_word (slice bs 16 2)\<rparr>"

definition crc16_ccitt :: "bytes \<Rightarrow> nat \<Rightarrow> u16" where
  "crc16_ccitt data len =
     fold (\<lambda>b crc. fold (\<lambda>_ crc. if crc AND 0x8000 \<noteq> 0 then push_bit 1 crc XOR 0x1021 else push_bit 1 crc) [0..<8]
                     (crc XOR push_bit 8 (ucast b)))
       (take len data) 0xffff"

definition state_valid :: "npq_state_record \<Rightarrow> bool" where
  "state_valid r \<longleftrightarrow>
     r_magic r = 0x4e50 \<and> r_schema r = 1 \<and> r_authorized r \<le> 1 \<and> r_crc r = crc16_ccitt (record_bytes r) (18 - 2)"

definition state_defaults :: npq_state_record where
  "state_defaults =
     (let r = \<lparr>r_magic = 0x4e50, r_schema = 1, r_authorized = 0, r_generation = 0, r_boot_epoch = 0, r_policy_sequence = 0, r_crc = 0\<rparr>
      in r\<lparr>r_crc := crc16_ccitt (record_bytes r) (18 - 2)\<rparr>)"

section \<open>Loading and storing\<close>

definition state_load :: "bytes \<Rightarrow> npq_state_record" where
  "state_load eeprom =
     (let first = bytes_record (slice eeprom 0 18); first_valid = state_valid first;
          second = bytes_record (slice eeprom 18 18); second_valid = state_valid second
      in if \<not> first_valid \<and> \<not> second_valid then state_defaults
         else if first_valid \<and> (\<not> second_valid \<or> r_generation first \<ge> r_generation second) then first
         else second)"

text \<open>The record that is written, and the three EEPROM updates in their order.\<close>

definition persist_record :: "npq_state_record \<Rightarrow> npq_state_record" where
  "persist_record st =
     (let r = st\<lparr>r_generation := r_generation st + 1, r_magic := 0x4e50, r_schema := 1\<rparr>
      in r\<lparr>r_crc := crc16_ccitt (record_bytes r) (18 - 2)\<rparr>)"

definition persist_writes :: "npq_state_record \<Rightarrow> (nat \<times> bytes) list" where
  "persist_writes st =
     (let slot = ucast (r_generation st + 1) AND 1 :: u8;
          target = 18 * unat slot;
          r = persist_record st
      in [(target, le_bytes 2 (0 :: u16)), (target + 2, drop 2 (record_bytes r)), (target, le_bytes 2 (0x4e50 :: u16))])"

definition state_persist :: "npq_state_record \<Rightarrow> bytes \<Rightarrow> npq_state_record \<times> bytes" where
  "state_persist st eeprom = (persist_record st, fold (\<lambda>(off, bs) e. memcpy e off bs) (persist_writes st) eeprom)"

section \<open>Power loss\<close>

text \<open>The images a write can leave when power fails while it is under way, and those a sequence of
  writes can leave.\<close>

definition torn :: "bytes \<Rightarrow> nat \<Rightarrow> bytes \<Rightarrow> bytes \<Rightarrow> bool" where
  "torn e off bs e' \<longleftrightarrow>
     length e' = length e \<and> (\<forall>i<length e. e' ! i = e ! i \<or> e' ! i = memcpy e off bs ! i)"

fun power_loss :: "(nat \<times> bytes) list \<Rightarrow> bytes \<Rightarrow> bytes \<Rightarrow> bool" where
  "power_loss [] e e' \<longleftrightarrow> e' = e"
| "power_loss ((off, bs) # ws) e e' \<longleftrightarrow> torn e off bs e' \<or> power_loss ws (memcpy e off bs) e'"

text \<open>The journal as the loader sees it: at most one current record. Valid records alternate between
  the slots by the parity of their generation.\<close>

definition slot_bytes :: "bytes \<Rightarrow> nat \<Rightarrow> bytes" where
  "slot_bytes e i = slice e (18 * i) 18"

definition slot_record :: "bytes \<Rightarrow> nat \<Rightarrow> npq_state_record option" where
  "slot_record e i = (let r = bytes_record (slot_bytes e i) in if state_valid r then Some r else None)"

definition current_state :: "bytes \<Rightarrow> npq_state_record option" where
  "current_state e =
     (case (slot_record e 0, slot_record e 1) of
        (None, None) \<Rightarrow> None
      | (Some r, None) \<Rightarrow> Some r
      | (None, Some r) \<Rightarrow> Some r
      | (Some r, Some r') \<Rightarrow> Some (if r_generation r \<ge> r_generation r' then r else r'))"

definition journal_wf :: "bytes \<Rightarrow> bool" where
  "journal_wf e \<longleftrightarrow>
     length e = 36 \<and> (\<forall>i<2. \<forall>r. slot_record e i = Some r \<longrightarrow> unat (r_generation r) mod 2 = i)"

text \<open>What the firmware knows when it persists: its state carries the generation it loaded.\<close>

definition follows :: "bytes \<Rightarrow> npq_state_record \<Rightarrow> bool" where
  "follows e st \<longleftrightarrow>
     r_authorized st \<le> 1 \<and> r_generation st = (case current_state e of None \<Rightarrow> 0 | Some r \<Rightarrow> r_generation r)"

lemma state_load_current: "state_load e = (case current_state e of None \<Rightarrow> state_defaults | Some r \<Rightarrow> r)"
  by (simp add: state_load_def current_state_def slot_record_def slot_bytes_def Let_def)

lemma length_record_bytes [simp]: "length (record_bytes r) = 18"
  by (simp add: record_bytes_def)

lemma bytes_record_bytes: "bytes_record (record_bytes r) = r"
  by (simp add: bytes_record_def record_bytes_def slice_def le_word_le_bytes nth_append)

lemma record_bytes_bytes: "length bs = 18 \<Longrightarrow> record_bytes (bytes_record bs) = bs"
proof -
  assume l: "length bs = 18"
  have le: "le_bytes 2 (le_word (slice bs k 2) :: u16) = slice bs k 2" if "k + 2 \<le> 18" for k
    using l that by (intro le_bytes_le_word) simp_all
  have le4: "le_bytes 4 (le_word (slice bs k 4) :: u32) = slice bs k 4" if "k + 4 \<le> 18" for k
    using l that by (intro le_bytes_le_word) simp_all
  have "bs = slice bs 0 2 @ [bs ! 2, bs ! 3] @ slice bs 4 4 @ slice bs 8 4 @ slice bs 12 4 @ slice bs 16 2"
    by (rule nth_equalityI) (use l in \<open>auto simp: slice_def nth_append nth_Cons' less_Suc_eq numeral_eq_Suc\<close>)
  then show ?thesis by (simp add: record_bytes_def bytes_record_def le le4)
qed

section \<open>Images after a power loss\<close>

lemma torn_length: "torn e off bs e' \<Longrightarrow> length e' = length e"
  by (simp add: torn_def)

lemma torn_byte: "torn e off bs e' \<Longrightarrow> k < length e \<Longrightarrow> e' ! k = e ! k \<or> e' ! k = memcpy e off bs ! k"
  by (simp add: torn_def)

lemma memcpy_nth:
  "off + length bs \<le> length e \<Longrightarrow> k < length e \<Longrightarrow>
     memcpy e off bs ! k = (if off \<le> k \<and> k < off + length bs then bs ! (k - off) else e ! k)"
  by (auto simp: memcpy_def nth_append)

lemma slot_nth: "length e = 36 \<Longrightarrow> i < 2 \<Longrightarrow> k < 18 \<Longrightarrow> slot_bytes e i ! k = e ! (18 * i + k)"
  by (simp add: slot_bytes_def slice_def)

lemma length_slot: "length e = 36 \<Longrightarrow> i < 2 \<Longrightarrow> length (slot_bytes e i) = 18"
  by (simp add: slot_bytes_def)

lemma slot_eqI: "length e = 36 \<Longrightarrow> length e' = 36 \<Longrightarrow> i < 2 \<Longrightarrow> (\<And>k. k < 18 \<Longrightarrow> e' ! (18 * i + k) = X ! k) \<Longrightarrow> length X = 18
    \<Longrightarrow> slot_bytes e' i = X"
  by (rule nth_equalityI) (simp_all add: slot_nth length_slot)

text \<open>The magic is the first thing a valid slot must have.\<close>

lemma magic_bytes: "le_bytes 2 (0x4e50 :: u16) = [0x50, 0x4e]" "le_bytes 2 (0 :: u16) = [0, 0]"
  by (simp_all add: le_bytes_def upt_rec drop_bit_eq_div)

lemma valid_magic:
  assumes "length bs = 18" and "state_valid (bytes_record bs)"
  shows "bs ! 0 = 0x50 \<and> bs ! 1 = 0x4e"
proof -
  have l: "length (slice bs 0 2) = 2" using assms(1) by simp
  have "le_word (slice bs 0 2) = (0x4e50 :: u16)" using assms(2) by (simp add: state_valid_def bytes_record_def)
  then have "slice bs 0 2 = le_bytes 2 (0x4e50 :: u16)" using le_bytes_le_word [OF l, where ?'a = 16] by simp
  moreover have "slice bs 0 2 = [bs ! 0, bs ! 1]"
    by (rule nth_equalityI) (use assms(1) in \<open>auto simp: less_Suc_eq numeral_eq_Suc\<close>)
  ultimately show ?thesis by (simp add: magic_bytes)
qed

text \<open>Every image of the three writes leaves the other slot alone, and a target slot that is valid is
  the old one or the new record.\<close>

lemma three_writes:
  fixes R :: bytes
  assumes e: "length e = 36" and i: "i < 2" and j: "j < 2" "j \<noteq> i" and R: "length R = 18" "R ! 0 = 0x50" "R ! 1 = 0x4e"
    and img: "power_loss [(18 * i, [0, 0]), (18 * i + 2, drop 2 R), (18 * i, [0x50, 0x4e])] e e'"
  shows "length e' = 36 \<and> slot_bytes e' j = slot_bytes e j \<and>
    (state_valid (bytes_record (slot_bytes e' i)) \<longrightarrow> slot_bytes e' i \<in> {slot_bytes e i, R})"
proof -
  let ?e1 = "memcpy e (18 * i) [0, 0]" let ?e2 = "memcpy ?e1 (18 * i + 2) (drop 2 R)" let ?e3 = "memcpy ?e2 (18 * i) [0x50, 0x4e]"
  have b: "18 * i + 18 \<le> 36" using i by simp
  have l: "length ?e1 = 36" "length ?e2 = 36" "length ?e3 = 36" using e b R by simp_all
  have n1: "?e1 ! k = (if k = 18 * i \<or> k = 18 * i + 1 then 0 else e ! k)" if "k < 36" for k
    using memcpy_nth [of "18 * i" "[0, 0]" e k] that e b by (auto simp: less_Suc_eq numeral_eq_Suc)
  have n2: "?e2 ! k = (if 18 * i + 2 \<le> k \<and> k < 18 * i + 18 then R ! (k - 18 * i) else ?e1 ! k)" if "k < 36" for k
  proof -
    have "drop 2 R ! (k - (18 * i + 2)) = R ! (k - 18 * i)" if "18 * i + 2 \<le> k"
    proof -
      have "2 + (k - (18 * i + 2)) = k - 18 * i" using that by simp
      moreover have "2 \<le> length R" using R by simp
      ultimately show ?thesis by (simp only: nth_drop)
    qed
    then show ?thesis using memcpy_nth [of "18 * i + 2" "drop 2 R" ?e1 k] that l b R by simp
  qed
  have n3: "?e3 ! k = (if k = 18 * i then 0x50 else if k = 18 * i + 1 then 0x4e else ?e2 ! k)" if "k < 36" for k
    using memcpy_nth [of "18 * i" "[0x50, 0x4e]" ?e2 k] that l b by (auto simp: less_Suc_eq numeral_eq_Suc)
  have len: "length e' = 36" using img e l by (auto dest: torn_length)
  have other: "e' ! k = e ! k" if "k < 36" "k < 18 * i \<or> 18 * i + 18 \<le> k" for k
  proof -
    have "?e1 ! k = e ! k" "?e2 ! k = e ! k" "?e3 ! k = e ! k" using n1 n2 n3 that by auto
    then show ?thesis using img that(1) e l by (auto dest!: torn_byte [where k = k])
  qed
  have "slot_bytes e' j = slot_bytes e j"
  proof (rule slot_eqI [OF e len j(1)])
    fix k :: nat
    assume "k < 18"
    then have "18 * j + k < 36" "18 * j + k < 18 * i \<or> 18 * i + 18 \<le> 18 * j + k" using i j by linarith+
    then show "e' ! (18 * j + k) = slot_bytes e j ! k" using other slot_nth [OF e j(1) \<open>k < 18\<close>] by simp
  qed (use length_slot [OF e j(1)] in simp)
  moreover have "slot_bytes e' i \<in> {slot_bytes e i, R}" if v: "state_valid (bytes_record (slot_bytes e' i))"
  proof -
    have m: "e' ! (18 * i) = 0x50" "e' ! (18 * i + 1) = 0x4e"
      using valid_magic [OF length_slot [OF len i] v] slot_nth [OF len i, of 0] slot_nth [OF len i, of 1] by simp_all
    have b01: "18 * i < 36" "18 * i + 1 < 36" using b by simp_all
    from img consider "torn e (18 * i) [0, 0] e'" | "torn ?e1 (18 * i + 2) (drop 2 R) e'" | "torn ?e2 (18 * i) [0x50, 0x4e] e' \<or> e' = ?e3"
      by auto
    then show ?thesis
    proof cases
      case 1
      have "e' ! k = e ! k" if "k < 36" for k
        using torn_byte [OF 1, of k] n1 [OF that] m that e by (auto split: if_splits)
      then have "slot_bytes e' i = slot_bytes e i"
        by (intro slot_eqI [OF e len i]) (use b in \<open>simp_all add: slot_nth [OF e i] length_slot [OF e i]\<close>)
      then show ?thesis by simp
    next
      case 2
      have "e' ! (18 * i) = 0" using torn_byte [OF 2, of "18 * i"] n1 [OF b01(1)] n2 [OF b01(1)] b01 l by auto
      then show ?thesis using m by simp
    next
      case 3
      have "e' ! (18 * i + k) = R ! k" if "k < 18" for k
      proof -
        have k: "18 * i + k < 36" using that b by simp
        consider "k = 0" | "k = 1" | "2 \<le> k" by linarith
        then show ?thesis
        proof cases
          case 3
          have "?e2 ! (18 * i + k) = R ! k" "?e3 ! (18 * i + k) = R ! k" using n2 [OF k] n3 [OF k] 3 that by auto
          then show ?thesis
            using \<open>torn ?e2 (18 * i) [0x50, 0x4e] e' \<or> e' = ?e3\<close> torn_byte [of ?e2 "18 * i" "[0x50, 0x4e]" e' "18 * i + k"] k l by auto
        qed (use m R in auto)
      qed
      then have "slot_bytes e' i = R" by (intro slot_eqI [OF e len i]) (use R in simp_all)
      then show ?thesis by simp
    qed
  qed
  ultimately show ?thesis using len by blast
qed

lemma three_writes_done:
  fixes R :: bytes
  assumes e: "length e = 36" and i: "i < 2" and R: "length R = 18" "R ! 0 = 0x50" "R ! 1 = 0x4e"
  shows "slot_bytes (memcpy (memcpy (memcpy e (18 * i) [0, 0]) (18 * i + 2) (drop 2 R)) (18 * i) [0x50, 0x4e]) i = R"
proof -
  have b: "18 * i + 18 \<le> 36" using i by simp
  let ?e1 = "memcpy e (18 * i) [0, 0]" let ?e2 = "memcpy ?e1 (18 * i + 2) (drop 2 R)" let ?e3 = "memcpy ?e2 (18 * i) [0x50, 0x4e]"
  have l: "length ?e1 = 36" "length ?e2 = 36" "length ?e3 = 36" using e b R by simp_all
  show ?thesis
  proof (rule slot_eqI [OF e l(3) i _ R(1)])
    fix k :: nat
    assume k: "k < 18"
    have k36: "18 * i + k < 36" using k b by linarith
    have n3: "?e3 ! (18 * i + k) = (if k < 2 then [0x50, 0x4e] ! k else ?e2 ! (18 * i + k))"
      using memcpy_nth [of "18 * i" "[0x50, 0x4e]" ?e2 "18 * i + k"] l b k36 by simp
    have n2: "?e2 ! (18 * i + k) = drop 2 R ! (k - 2)" if "2 \<le> k"
      using memcpy_nth [of "18 * i + 2" "drop 2 R" ?e1 "18 * i + k"] l b k36 k R that by simp
    have d: "drop 2 R ! (k - 2) = R ! k" if "2 \<le> k"
    proof -
      have "2 + (k - 2) = k" "2 \<le> length R" using that R by simp_all
      then show ?thesis by (simp only: nth_drop)
    qed
    consider "k = 0" | "k = 1" | "2 \<le> k" by linarith
    then show "?e3 ! (18 * i + k) = R ! k"
      using n3 n2 d R by cases simp_all
  qed
qed

section \<open>The journal\<close>

lemma crc_field: "crc16_ccitt (record_bytes (r\<lparr>r_crc := x\<rparr>)) 16 = crc16_ccitt (record_bytes r) 16"
  by (simp add: crc16_ccitt_def record_bytes_def)

lemma persist_record_simps [simp]:
  "r_magic (persist_record st) = 0x4e50" "r_schema (persist_record st) = 1"
  "r_authorized (persist_record st) = r_authorized st" "r_generation (persist_record st) = r_generation st + 1"
  "r_boot_epoch (persist_record st) = r_boot_epoch st" "r_policy_sequence (persist_record st) = r_policy_sequence st"
  by (simp_all add: persist_record_def Let_def)

lemma persist_record_valid: "r_authorized st \<le> 1 \<Longrightarrow> state_valid (persist_record st)"
  by (simp add: state_valid_def) (simp add: persist_record_def Let_def crc_field)

lemma state_defaults_simps [simp]:
  "r_authorized state_defaults = 0" "r_generation state_defaults = 0" "r_boot_epoch state_defaults = 0"
  "r_policy_sequence state_defaults = 0"
  by (simp_all add: state_defaults_def Let_def)

text \<open>The two slots by their numbers: the current record is the one with the larger generation.\<close>

lemma current_SomeI:
  assumes "i < 2" "j < 2" "i \<noteq> j" and "slot_record e j = Some r"
    and "\<And>r'. slot_record e i = Some r' \<Longrightarrow> r_generation r' < r_generation r"
  shows "current_state e = Some r"
proof -
  consider "i = 0" "j = 1" | "i = 1" "j = 0" using assms(1-3) by linarith
  then show ?thesis
    using assms(4,5) by cases (cases "slot_record e i"; force simp: current_state_def)+
qed

lemma current_NoneI: "slot_record e 0 = None \<Longrightarrow> slot_record e 1 = None \<Longrightarrow> current_state e = None"
  by (simp add: current_state_def)

lemma current_NoneD: "current_state e = None \<Longrightarrow> i < 2 \<Longrightarrow> slot_record e i = None"
  by (cases "slot_record e 0"; cases "slot_record e 1"; cases "i = 0") (auto simp: current_state_def less_2_cases_iff)

lemma journal_parity: "journal_wf e \<Longrightarrow> i < 2 \<Longrightarrow> slot_record e i = Some r \<Longrightarrow> unat (r_generation r) mod 2 = i"
  by (simp add: journal_wf_def)

lemma current_SomeD:
  assumes wf: "journal_wf e" and c: "current_state e = Some r" and i: "i < 2" "i \<noteq> unat (r_generation r) mod 2"
  shows "slot_record e (unat (r_generation r) mod 2) = Some r"
    and "slot_record e i = Some r' \<Longrightarrow> r_generation r' < r_generation r"
proof -
  obtain k where k: "k < 2" "slot_record e k = Some r"
    "\<And>k' r'. k' < 2 \<Longrightarrow> slot_record e k' = Some r' \<Longrightarrow> r_generation r' \<le> r_generation r"
    using c by (cases "slot_record e 0"; cases "slot_record e 1")
      (force simp: current_state_def less_2_cases_iff split: if_splits)+
  show "slot_record e (unat (r_generation r) mod 2) = Some r" using journal_parity [OF wf k(1,2)] k(2) by simp
  show "r_generation r' < r_generation r" if "slot_record e i = Some r'"
    using k(3) [OF i(1) that] journal_parity [OF wf i(1) that] i(2) by (cases "r_generation r' = r_generation r") auto
qed

lemma slot_record_cong: "slot_bytes e i = slot_bytes e' i \<Longrightarrow> slot_record e i = slot_record e' i"
  by (simp add: slot_record_def)

lemma slot_record_new: "slot_bytes e i = record_bytes r \<Longrightarrow> state_valid r \<Longrightarrow> slot_record e i = Some r"
  by (simp add: slot_record_def bytes_record_bytes)

text \<open>The slot a record goes to, and the three writes by its number.\<close>

lemma parity_suc:
  assumes "g \<noteq> (-1 :: u32)"
  shows "unat (g + 1) = unat g + 1"
proof -
  have "unat g \<noteq> unat (-1 :: u32)" using assms by (simp only: word_unat_eq_iff not_False_eq_True)
  moreover have "unat (-1 :: u32) = 4294967295" by (simp add: unsigned_minus_1_eq_mask mask_eq_exp_minus_1)
  moreover have "unat g < 4294967296" using unsigned_less [of g] by simp
  ultimately show ?thesis by (simp add: unat_word_ariths)
qed

lemma persist_writes_slot:
  "persist_writes st =
     (let i = unat (r_generation st + 1) mod 2
      in [(18 * i, [0, 0]), (18 * i + 2, drop 2 (record_bytes (persist_record st))), (18 * i, [0x50, 0x4e])])"
proof -
  have "ucast (r_generation st + 1) AND 1 = (ucast (r_generation st + 1) AND mask 1 :: u8)" by simp
  also have "\<dots> = take_bit 1 (ucast (r_generation st + 1))" by (simp only: take_bit_eq_mask)
  finally have "unat (ucast (r_generation st + 1) AND 1 :: u8) = take_bit 1 (unat (ucast (r_generation st + 1) :: u8))"
    by (simp only: unsigned_take_bit_eq)
  then have "unat (ucast (r_generation st + 1) AND 1 :: u8) = unat (r_generation st + 1) mod 2"
    by (simp add: unsigned_ucast_eq take_bit_eq_mod mod_mod_cancel)
  then show ?thesis by (simp add: persist_writes_def Let_def magic_bytes)
qed

lemma record_bytes_magic:
  "length (record_bytes (persist_record st)) = 18"
  "record_bytes (persist_record st) ! 0 = 0x50" "record_bytes (persist_record st) ! 1 = 0x4e"
  by (simp_all add: record_bytes_def magic_bytes)

text \<open>The three writes, or any image a power loss leaves of them, keep the journal well formed, and the
  loader finds the record it found before or the new one.\<close>

lemma journal_after_persist:
  assumes wf: "journal_wf e" and f: "follows e st" and g: "r_generation st \<noteq> -1"
    and i: "i = unat (r_generation st + 1) mod 2" and len: "length e' = 36"
    and other: "\<And>j. j < 2 \<Longrightarrow> j \<noteq> i \<Longrightarrow> slot_record e' j = slot_record e j"
    and target: "slot_record e' i \<in> {None, slot_record e i, Some (persist_record st)}"
  shows "journal_wf e' \<and> current_state e' \<in> {current_state e, Some (persist_record st)} \<and>
    (slot_record e' i = Some (persist_record st) \<longrightarrow> current_state e' = Some (persist_record st))"
proof -
  let ?R = "persist_record st"
  define j where "j = 1 - i"
  have i2: "i < 2" by (simp add: i)
  have ij: "i < 2" "j < 2" "j \<noteq> i" using i2 unfolding j_def by arith+
  have par: "unat (r_generation ?R) mod 2 = i" by (simp add: i)
  have wf': "journal_wf e'"
    unfolding journal_wf_def
  proof (intro conjI allI impI)
    fix k r
    assume k: "k < 2" "slot_record e' k = Some r"
    show "unat (r_generation r) mod 2 = k"
      using k other [of k] target par journal_parity [OF wf k(1), of r] by (cases "k = i") (auto simp del: persist_record_simps)
  qed (rule len)
  show ?thesis
  proof (cases "current_state e")
    case None
    then have n: "slot_record e k = None" if "k < 2" for k using that by (rule current_NoneD)
    have oj: "slot_record e' j = None" using other [OF ij(2,3)] n [OF ij(2)] by simp
    show ?thesis
    proof (cases "slot_record e' i")
      case None
      have "current_state e' = None" using None oj ij by (intro current_NoneI) (auto simp: less_2_cases_iff)
      then show ?thesis using wf' \<open>current_state e = None\<close> None by simp
    next
      case (Some r)
      then have "r = ?R" using target n [OF ij(1)] by auto
      then have "current_state e' = Some ?R" using Some oj by (intro current_SomeI [OF ij(2,1,3)]) simp_all
      then show ?thesis using wf' by simp
    qed
  next
    case (Some r)
    have gr: "r_generation r = r_generation st" using f Some by (simp add: follows_def)
    have pj: "unat (r_generation r) mod 2 = j"
    proof -
      have "Suc u mod 2 \<noteq> j \<Longrightarrow> u mod 2 = j" for u :: nat using ij(2) by presburger
      then show ?thesis using ij(3) parity_suc [OF g] gr unfolding i by simp
    qed
    have ne: "i \<noteq> unat (r_generation r) mod 2" using pj ij by simp
    have ej: "slot_record e j = Some r" using current_SomeD(1) [OF wf Some ij(1) ne] pj by simp
    have oj: "slot_record e' j = Some r" using other [OF ij(2,3)] ej by simp
    have bigger: "r_generation r < r_generation ?R" using parity_suc [OF g] gr by (simp add: word_less_nat_alt)
    show ?thesis
    proof (cases "slot_record e' i = Some ?R")
      case True
      have "current_state e' = Some ?R" using True oj bigger by (intro current_SomeI [OF ij(2,1,3)]) simp_all
      then show ?thesis using wf' by simp
    next
      case False
      have "r_generation r' < r_generation r" if "slot_record e' i = Some r'" for r'
        using that False target current_SomeD(2) [OF wf Some ij(1) ne, of r'] by auto
      then have "current_state e' = Some r" by (intro current_SomeI [OF ij(1,2) ij(3) [symmetric] oj])
      then show ?thesis using wf' Some False by simp
    qed
  qed
qed

lemma persist_images:
  assumes wf: "journal_wf e" and f: "follows e st" and g: "r_generation st \<noteq> -1" and img: "power_loss (persist_writes st) e e'"
  shows "journal_wf e' \<and> current_state e' \<in> {current_state e, Some (persist_record st)}"
proof -
  define i where "i = unat (r_generation st + 1) mod 2"
  let ?R = "persist_record st"
  have i: "i < 2" by (simp add: i_def)
  have e: "length e = 36" using wf by (simp add: journal_wf_def)
  have v: "state_valid ?R" using f by (intro persist_record_valid) (simp add: follows_def)
  have img': "power_loss [(18 * i, [0, 0]), (18 * i + 2, drop 2 (record_bytes ?R)), (18 * i, [0x50, 0x4e])] e e'"
    using img by (simp only: persist_writes_slot Let_def i_def)
  note tw = three_writes [OF e i _ _ record_bytes_magic img']
  have len: "length e' = 36" using tw [of "1 - i"] i by (cases "i = 0") simp_all
  have other: "slot_record e' j = slot_record e j" if "j < 2" "j \<noteq> i" for j
    using tw [OF that] slot_record_cong by blast
  have "slot_record e' i = None \<or> slot_bytes e' i \<in> {slot_bytes e i, record_bytes ?R}"
    using tw [of "1 - i"] i by (cases "i = 0") (auto simp: slot_record_def Let_def)
  then have "slot_record e' i \<in> {None, slot_record e i, Some ?R}"
    using slot_record_cong slot_record_new [OF _ v] by blast
  from journal_after_persist [OF wf f g i_def len other this] show ?thesis by simp
qed

lemma persist_completes:
  assumes wf: "journal_wf e" and f: "follows e st" and g: "r_generation st \<noteq> -1"
  shows "journal_wf (snd (state_persist st e)) \<and> current_state (snd (state_persist st e)) = Some (persist_record st)"
proof -
  define i where "i = unat (r_generation st + 1) mod 2"
  let ?R = "persist_record st" and ?e' = "snd (state_persist st e)"
  have i: "i < 2" by (simp add: i_def)
  have e: "length e = 36" using wf by (simp add: journal_wf_def)
  have v: "state_valid ?R" using f by (intro persist_record_valid) (simp add: follows_def)
  have e': "?e' = memcpy (memcpy (memcpy e (18 * i) [0, 0]) (18 * i + 2) (drop 2 (record_bytes ?R))) (18 * i) [0x50, 0x4e]"
    by (simp add: state_persist_def persist_writes_slot Let_def i_def)
  have "slot_record ?e' i = Some ?R"
    unfolding e' by (intro slot_record_new three_writes_done e i record_bytes_magic v)
  moreover have "slot_record ?e' j = slot_record e j" if "j < 2" "j \<noteq> i" for j
  proof -
    have "power_loss [(18 * i, [0, 0]), (18 * i + 2, drop 2 (record_bytes ?R)), (18 * i, [0x50, 0x4e])] e ?e'"
      by (simp only: e' power_loss.simps simp_thms)
    from three_writes [OF e i that record_bytes_magic this] show ?thesis using slot_record_cong by blast
  qed
  moreover have "length ?e' = 36" unfolding e' using e i by (simp add: memcpy_def)
  ultimately show ?thesis using journal_after_persist [OF wf f g i_def, of ?e'] by simp
qed

text \<open>C19: Whatever else the 18-byte slots hold, as long as records alternate between them, the state
  to be written has a valid authorization flag and the generation of the record the loader finds (0
  when there is none), and that generation is not the last one \<open>0xffffffff\<close>, writing the state is
  atomic: when it completes, the loader finds the new record; when power fails at any point
  of it, with any of the bytes of the write under way still old, the loader finds either the record
  it would have found before or the new one, and the slots still alternate, so the next write is
  atomic as well.\<close>

theorem persist_crash_safe:
  assumes "journal_wf e" and "follows e st" and "r_generation st \<noteq> -1"
  shows "state_load (snd (state_persist st e)) = fst (state_persist st e) \<and> journal_wf (snd (state_persist st e)) \<and>
    (\<forall>e'. power_loss (persist_writes st) e e' \<longrightarrow>
       journal_wf e' \<and> state_load e' \<in> {state_load e, fst (state_persist st e)})"
proof -
  have "state_load e' \<in> {state_load e, persist_record st} \<and> journal_wf e'" if "power_loss (persist_writes st) e e'" for e'
    using persist_images [OF assms that] by (auto simp: state_load_current)
  moreover have "fst (state_persist st e) = persist_record st" by (simp add: state_persist_def)
  ultimately show ?thesis using persist_completes [OF assms] by (simp add: state_load_current)
qed

lemma blank_slots: "i < 2 \<Longrightarrow> slot_record (replicate 36 0xff) i = None"
  by (simp add: slot_record_def slot_bytes_def state_valid_def bytes_record_def slice_def le_word_def)

lemma blank_journal: "journal_wf (replicate 36 0xff)" "current_state (replicate 36 0xff) = None"
  by (simp add: journal_wf_def blank_slots) (rule current_NoneI; rule blank_slots; simp)

theorem persist_crash_safe_witness:
  "state_load (snd (state_persist state_defaults (replicate 36 0xff))) = fst (state_persist state_defaults (replicate 36 0xff))"
  using persist_crash_safe [of "replicate 36 0xff" state_defaults] by (simp add: blank_journal follows_def)

text \<open>C27: The generation counter is not guarded against its wrap. A state stored with generation
  \<open>0xffffffff\<close> is the last one: the write that follows it completes, but its record has generation 0 and
  loses against the old one, so the loader keeps finding the old state, and with it the old boot epoch,
  whatever boot epoch was to be stored.\<close>

theorem generation_wrap_loses:
  assumes "journal_wf e" and "follows e st" and "r_generation st = -1"
  shows "r_generation (fst (state_persist st e)) = 0 \<and> r_boot_epoch (fst (state_persist st e)) = r_boot_epoch st \<and>
    state_load (snd (state_persist st e)) = state_load e"
proof -
  let ?R = "persist_record st" and ?e' = "snd (state_persist st e)"
  obtain r where r: "current_state e = Some r" "r_generation r = -1"
    using assms(2,3) by (cases "current_state e") (auto simp: follows_def)
  have e: "length e = 36" using assms(1) by (simp add: journal_wf_def)
  have g: "unat (r_generation r) mod 2 = 1" using r(2) by (simp add: unsigned_minus_1_eq_mask mask_eq_exp_minus_1)
  have c: "slot_record e 1 = Some r" using current_SomeD(1) [OF assms(1) r(1), of 0] g by simp
  have v: "state_valid ?R" using assms(2) by (intro persist_record_valid) (simp add: follows_def)
  have e': "?e' = memcpy (memcpy (memcpy e (18 * 0) [0, 0]) (18 * 0 + 2) (drop 2 (record_bytes ?R))) (18 * 0) [0x50, 0x4e]"
    using assms(3) by (simp add: state_persist_def persist_writes_slot Let_def)
  have z: "(0 :: nat) < 2" "(1 :: nat) < 2" "(1 :: nat) \<noteq> 0" by simp_all
  have new: "slot_record ?e' 0 = Some ?R"
    unfolding e' by (intro slot_record_new three_writes_done e z record_bytes_magic v)
  have "power_loss [(18 * 0, [0, 0]), (18 * 0 + 2, drop 2 (record_bytes ?R)), (18 * 0, [0x50, 0x4e])] e ?e'"
    by (simp only: e' power_loss.simps simp_thms)
  from three_writes [OF e z(1,2,3) record_bytes_magic this] have "slot_record ?e' 1 = Some r"
    using slot_record_cong [of ?e' 1 e] c by (simp only:)
  then have "current_state ?e' = Some r"
    using new r(2) assms(3) by (intro current_SomeI [of 0 1]) (simp_all add: word_less_nat_alt unsigned_minus_1_eq_mask mask_eq_exp_minus_1)
  then show ?thesis using r assms(3) by (simp add: state_load_current state_persist_def persist_record_def Let_def)
qed

text \<open>An EEPROM whose state has the last generation.\<close>

definition worn_eeprom :: bytes where
  "worn_eeprom = snd (state_persist (state_defaults\<lparr>r_generation := -2, r_boot_epoch := -3\<rparr>) (replicate 36 0xff))"

lemma worn_eeprom_state:
  defines "R \<equiv> persist_record (state_defaults\<lparr>r_generation := -2, r_boot_epoch := -3\<rparr>)"
  shows "journal_wf worn_eeprom" and "current_state worn_eeprom = Some R"
proof -
  let ?b = "replicate 36 0xff :: bytes"
  let ?st = "state_defaults\<lparr>r_generation := -2, r_boot_epoch := -3\<rparr>"
  have v: "state_valid R" unfolding R_def by (rule persist_record_valid) simp
  have e': "worn_eeprom = memcpy (memcpy (memcpy ?b (18 * 1) [0, 0]) (18 * 1 + 2) (drop 2 (record_bytes R))) (18 * 1) [0x50, 0x4e]"
    by (simp add: worn_eeprom_def state_persist_def persist_writes_slot Let_def R_def unsigned_minus_1_eq_mask mask_eq_exp_minus_1)
  have b: "length ?b = 36" and z: "(1 :: nat) < 2" "(0 :: nat) < 2" "(0 :: nat) \<noteq> 1" by simp_all
  have m: "length (record_bytes R) = 18" "record_bytes R ! 0 = 0x50" "record_bytes R ! 1 = 0x4e"
    unfolding R_def by (rule record_bytes_magic)+
  have s1: "slot_record worn_eeprom 1 = Some R" unfolding e' by (intro slot_record_new three_writes_done b z m v)
  have "power_loss [(18 * 1, [0, 0]), (18 * 1 + 2, drop 2 (record_bytes R)), (18 * 1, [0x50, 0x4e])] ?b worn_eeprom"
    by (simp only: e' power_loss.simps simp_thms)
  from three_writes [OF b z(1,2,3) m this] have s0: "slot_record worn_eeprom 0 = None" and l: "length worn_eeprom = 36"
    using slot_record_cong [of worn_eeprom 0 ?b] blank_slots [of 0] by simp_all
  show "journal_wf worn_eeprom"
    using s0 s1 l by (auto simp: journal_wf_def less_2_cases_iff R_def unsigned_minus_1_eq_mask mask_eq_exp_minus_1)
  show "current_state worn_eeprom = Some R" using s0 s1 by (simp add: current_state_def)
qed

theorem generation_wrap_loses_witness:
  "state_load (snd (state_persist ((state_load worn_eeprom)\<lparr>r_boot_epoch := -2\<rparr>) worn_eeprom)) = state_load worn_eeprom"
  using generation_wrap_loses [OF worn_eeprom_state(1), of "(state_load worn_eeprom)\<lparr>r_boot_epoch := -2\<rparr>"]
  by (simp add: worn_eeprom_state(2) follows_def state_load_current)

end
