(* ===== verification/NpqSession.thy ===== *)
theory NpqSession
  imports NpqProtocol
begin

text \<open>
  What the preflight of \<open>protocol.c\<close> accepts, and that both ends of a link derive matching
  sessions from it.
\<close>

section \<open>Frames\<close>

definition npq_header :: "u8 \<Rightarrow> bytes" where
  "npq_header ty = [0x4e, 0x51, 1, ty]"

definition npq_mac :: "bytes \<Rightarrow> string \<Rightarrow> bytes \<Rightarrow> bytes" where
  "npq_mac key label data = take 16 (spec_hmac key (text_bytes label @ [0] @ data))"

definition hello_core_npq :: "bytes \<Rightarrow> u32 \<Rightarrow> bytes \<Rightarrow> bytes" where
  "hello_core_npq dev epoch nonce = npq_header NPQ_FRAME_HELLO @ dev @ be_bytes 4 epoch @ nonce"

definition npq_hello_frame :: "bytes \<Rightarrow> bytes \<Rightarrow> u32 \<Rightarrow> bytes \<Rightarrow> bytes" where
  "npq_hello_frame root dev epoch nonce =
     hello_core_npq dev epoch nonce @ npq_mac root ''NPQ/1 hello'' (hello_core_npq dev epoch nonce)"

definition client_nonce :: "bytes \<Rightarrow> bytes \<Rightarrow> u32 \<Rightarrow> bytes" where
  "client_nonce root dev epoch = npq_mac root ''NPQ/1 client nonce'' (dev @ be_bytes 4 epoch)"

definition challenge_core_npq :: "bytes \<Rightarrow> bytes \<Rightarrow> bytes \<Rightarrow> bytes" where
  "challenge_core_npq hello snonce sid = npq_header NPQ_FRAME_CHALLENGE @ slice hello 12 4 @ slice hello 16 16 @ snonce @ sid"

definition npq_challenge_frame :: "bytes \<Rightarrow> bytes \<Rightarrow> bytes \<Rightarrow> bytes \<Rightarrow> bytes" where
  "npq_challenge_frame root hello snonce sid =
     challenge_core_npq hello snonce sid @ npq_mac root ''NPQ/1 challenge'' (challenge_core_npq hello snonce sid)"

definition challenge_session_id :: "bytes \<Rightarrow> bytes \<Rightarrow> bytes \<Rightarrow> bytes" where
  "challenge_session_id root hello snonce =
     take 4 (npq_mac root ''NPQ/1 session id'' (npq_header NPQ_FRAME_CHALLENGE @ slice hello 12 4 @ slice hello 16 16 @ snonce))"

lemma length_npq_header [simp]: "length (npq_header ty) = 4"
  by (simp add: npq_header_def)

lemma length_npq_mac [simp]: "length (npq_mac key label data) = 16"
  by (simp add: npq_mac_def)

lemma length_hello_core_npq [simp]: "length dev = 8 \<Longrightarrow> length nonce = 16 \<Longrightarrow> length (hello_core_npq dev epoch nonce) = 32"
  by (simp add: hello_core_npq_def)

lemma length_npq_hello_frame [simp]: "length dev = 8 \<Longrightarrow> length nonce = 16 \<Longrightarrow> length (npq_hello_frame root dev epoch nonce) = 48"
  by (simp add: npq_hello_frame_def)

lemma length_client_nonce [simp]: "length (client_nonce root dev epoch) = 16"
  by (simp add: client_nonce_def)

lemma length_challenge_core_npq [simp]:
  "48 \<le> length hello \<Longrightarrow> length snonce = 16 \<Longrightarrow> length sid = 4 \<Longrightarrow> length (challenge_core_npq hello snonce sid) = 44"
  by (simp add: challenge_core_npq_def)

lemma length_npq_challenge_frame [simp]:
  "48 \<le> length hello \<Longrightarrow> length snonce = 16 \<Longrightarrow> length sid = 4 \<Longrightarrow> length (npq_challenge_frame root hello snonce sid) = 60"
  by (simp add: npq_challenge_frame_def)

lemma length_challenge_session_id [simp]: "length (challenge_session_id root hello snonce) = 4"
  by (simp add: challenge_session_id_def)

section \<open>Headers and tags\<close>

lemma take_4: "4 \<le> length f \<Longrightarrow> take 4 f = [f ! 0, f ! 1, f ! 2, f ! 3]"
  using list_of_length4 [of "take 4 f"] by simp

lemma valid_header_iff: "4 \<le> length f \<Longrightarrow> valid_header f ty \<longleftrightarrow> take 4 f = npq_header ty"
  by (simp add: valid_header_def take_4 npq_header_def)

lemma make_header_eq: "make_header f ty = memcpy f 0 (npq_header ty)"
  by (simp add: make_header_def npq_header_def)

lemma hmac_label_ok:
  assumes "length key = 32" and "length label \<le> 24" and "length data \<le> 64"
  shows "hmac_label out key label data = (NPQ_OK, spec_hmac key (text_bytes label @ [0] @ data))"
proof -
  have "length (text_bytes label @ [0] @ data) < 2 ^ 32 - 64" using assms by simp
  with assms show ?thesis by (simp add: hmac_label_def qp_hmac_spec)
qed

lemma verify_mac16_iff:
  assumes "length key = 32" and "length label \<le> 24" and "length data \<le> 64" and "length tag = 16"
  shows "verify_mac16 tag key label data = (if tag = npq_mac key label data then NPQ_OK else NPQ_ERR_AUTH)"
  using assms by (auto simp: verify_mac16_def hmac_label_ok npq_mac_def)

text \<open>The first block of HKDF-Expand.\<close>

lemma hkdf_expand_first: "spec_hkdf_expand prk info 32 = spec_hmac prk (info @ [1])"
proof -
  have "[1..<256] = Suc 0 # [Suc (Suc 0)..<256]" using upt_conv_Cons [of 1 256] by (simp only: One_nat_def)
  then have "spec_hkdf_expand prk info 32 = take 32 (spec_hkdf_T prk info (Suc 0) @ concat (map (spec_hkdf_T prk info) [Suc (Suc 0)..<256]))"
    unfolding spec_hkdf_expand_def by (simp only: list.map concat.simps)
  also have "\<dots> = spec_hkdf_T prk info (Suc 0)" by (simp only: take_append length_spec_hkdf_T [of "Suc 0"]) simp
  finally show ?thesis by simp
qed

lemma expand_label_ok:
  assumes "length prk = 32" and "length label \<le> 24" and "length th = 32"
  shows "hkdf_expand_label out prk label th = (NPQ_OK, spec_hkdf_expand prk (text_bytes label @ [0] @ th) 32)"
proof -
  have "length (text_bytes label @ [0] @ th @ [1]) < 2 ^ 32 - 64" using assms by simp
  moreover have "spec_hkdf_expand prk (text_bytes label @ [0] @ th) 32 = spec_hmac prk (text_bytes label @ [0] @ th @ [1])"
    by (simp add: hkdf_expand_first)
  ultimately show ?thesis using assms by (simp add: hkdf_expand_label_def qp_hmac_spec)
qed

section \<open>Hello and challenge\<close>

lemma make_hello_ok:
  assumes "length root = 32" and "length dev = 8" and "epoch \<noteq> 0" and "48 \<le> length o0"
  shows "npq_make_hello (Some o0) (Some root) (Some dev) epoch =
     (NPQ_OK, Some (npq_hello_frame root dev epoch (client_nonce root dev epoch) @ drop 48 o0))"
proof -
  let ?n = "client_nonce root dev epoch" and ?core = "hello_core_npq dev epoch (client_nonce root dev epoch)"
  have d1: "take 16 (snd (hmac_label out root ''NPQ/1 client nonce'' (dev @ be_bytes 4 epoch))) = ?n" for out
    using assms by (simp add: hmac_label_ok client_nonce_def npq_mac_def)
  have b4: "memcpy (memcpy (memcpy (make_header o0 1) 4 dev) 12 (be_bytes 4 epoch)) 16 ?n = memcpy o0 0 ?core"
    using assms by (simp add: make_header_eq memcpy_memcpy hello_core_npq_def)
  have c: "take 32 (memcpy o0 0 ?core) = ?core" using assms by (simp add: memcpy_def)
  have d2: "take 16 (snd (hmac_label out root ''NPQ/1 hello'' ?core)) = npq_mac root ''NPQ/1 hello'' ?core" for out
    using assms by (simp add: hmac_label_ok npq_mac_def)
  have "memcpy (memcpy o0 0 ?core) 32 (npq_mac root ''NPQ/1 hello'' ?core) = npq_hello_frame root dev epoch ?n @ drop 48 o0"
    using assms by (subst memcpy_memcpy) (simp_all add: npq_hello_frame_def memcpy_front)
  with assms show ?thesis
    by (simp add: npq_make_hello_def npq_store_be d1 b4 c d2)
qed

lemma take_split: "take (m + n) f = take m f @ slice f m n"
  by (simp add: take_add slice_def)

lemma verify_hello_cases:
  assumes root: "length root = 32" and len: "48 \<le> length f"
  shows "npq_verify_hello (Some f) (Some root) =
     (if take 4 f \<noteq> npq_header NPQ_FRAME_HELLO \<or> (be_word (slice f 12 4) :: u32) = 0 then NPQ_ERR_FORMAT
      else if slice f 32 16 = npq_mac root ''NPQ/1 hello'' (take 32 f) then NPQ_OK else NPQ_ERR_AUTH)"
  using assms by (simp add: npq_verify_hello_def valid_header_iff npq_load_be verify_mac16_iff)

lemma verify_hello_ok_iff:
  assumes root: "length root = 32" and len: "48 \<le> length f"
  shows "npq_verify_hello (Some f) (Some root) = NPQ_OK \<longleftrightarrow>
     (\<exists>dev epoch nonce. length dev = 8 \<and> epoch \<noteq> 0 \<and> length nonce = 16 \<and> take 48 f = npq_hello_frame root dev epoch nonce)"
proof
  assume ok: "npq_verify_hello (Some f) (Some root) = NPQ_OK"
  let ?e = "be_word (slice f 12 4) :: u32"
  from ok have h: "take 4 f = npq_header NPQ_FRAME_HELLO" "?e \<noteq> 0" "slice f 32 16 = npq_mac root ''NPQ/1 hello'' (take 32 f)"
    unfolding verify_hello_cases [OF assms] by (auto split: if_split_asm)
  have e: "be_bytes 4 ?e = slice f 12 4" using len by (intro be_bytes_be_word) simp_all
  have core: "take 32 f = hello_core_npq (slice f 4 8) ?e (slice f 16 16)"
    using take_split [of 4 8 f] take_split [of 12 4 f] take_split [of 16 16 f] h(1) by (simp add: hello_core_npq_def e)
  have "take 48 f = npq_hello_frame root (slice f 4 8) ?e (slice f 16 16)"
    using take_split [of 32 16 f] h(3) by (simp add: npq_hello_frame_def core)
  moreover have "length (slice f 4 8) = 8" "length (slice f 16 16) = 16" using len by simp_all
  ultimately show "\<exists>dev epoch nonce. length dev = 8 \<and> epoch \<noteq> 0 \<and> length nonce = 16 \<and> take 48 f = npq_hello_frame root dev epoch nonce"
    using h(2) by metis
next
  assume "\<exists>dev epoch nonce. length dev = 8 \<and> epoch \<noteq> 0 \<and> length nonce = 16 \<and> take 48 f = npq_hello_frame root dev epoch nonce"
  then obtain dev epoch nonce where l: "length dev = 8" "length nonce = 16" and e: "epoch \<noteq> 0"
    and f: "take 48 f = npq_hello_frame root dev epoch nonce" by blast
  have sub: "slice f m n = slice (take 48 f) m n" if "m + n \<le> 48" for m n
    using that by (simp add: slice_def drop_take)
  have "take 32 f = take 32 (take 48 f)" "take 4 f = take 4 (take 48 f)" by simp_all
  then have "take 32 f = hello_core_npq dev epoch nonce" "take 4 f = npq_header NPQ_FRAME_HELLO"
    unfolding f using l by (simp_all add: npq_hello_frame_def hello_core_npq_def)
  moreover have "slice f 32 16 = npq_mac root ''NPQ/1 hello'' (hello_core_npq dev epoch nonce)"
    using sub [of 32 16] f l by (simp add: npq_hello_frame_def slice_def)
  moreover have "slice f 12 4 = be_bytes 4 epoch"
    using sub [of 12 4] f l by (simp add: npq_hello_frame_def hello_core_npq_def slice_def)
  ultimately show "npq_verify_hello (Some f) (Some root) = NPQ_OK"
    unfolding verify_hello_cases [OF assms] using e by (simp add: be_word_be_bytes)
qed

lemma make_challenge_ok:
  assumes "length root = 32" and "length snonce = 16" and "60 \<le> length o0" and "48 \<le> length h"
    and "npq_verify_hello (Some h) (Some root) = NPQ_OK"
  shows "npq_make_challenge (Some o0) (Some root) (Some h) (Some snonce) =
     (NPQ_OK, Some (npq_challenge_frame root h snonce (challenge_session_id root h snonce) @ drop 60 o0))"
proof -
  let ?p = "npq_header NPQ_FRAME_CHALLENGE @ slice h 12 4 @ slice h 16 16 @ snonce"
  let ?sid = "challenge_session_id root h snonce"
  let ?core = "challenge_core_npq h snonce ?sid"
  have b4: "memcpy (memcpy (memcpy (make_header o0 2) 4 (slice h 12 4)) 8 (slice h 16 16)) 24 snonce = memcpy o0 0 ?p"
    using assms by (simp add: make_header_eq memcpy_memcpy)
  have lp: "length ?p = 40" using assms by simp
  have t40: "take 40 (memcpy o0 0 ?p) = ?p" using assms lp by (simp add: memcpy_def)
  have d1: "take 4 (snd (hmac_label out root ''NPQ/1 session id'' ?p)) = ?sid" for out
    using assms lp by (subst hmac_label_ok) (simp_all add: challenge_session_id_def npq_mac_def)
  have b5: "memcpy (memcpy o0 0 ?p) 40 ?sid = memcpy o0 0 ?core"
    using assms lp by (subst memcpy_memcpy) (simp_all add: challenge_core_npq_def)
  have t44: "take 44 (memcpy o0 0 ?core) = ?core" using assms by (simp add: memcpy_def)
  have d2: "take 16 (snd (hmac_label out root ''NPQ/1 challenge'' ?core)) = npq_mac root ''NPQ/1 challenge'' ?core" for out
    using assms by (simp add: hmac_label_ok npq_mac_def)
  have b6: "memcpy (memcpy o0 0 ?core) 44 (npq_mac root ''NPQ/1 challenge'' ?core)
      = npq_challenge_frame root h snonce ?sid @ drop 60 o0"
    using assms by (subst memcpy_memcpy) (simp_all add: npq_challenge_frame_def memcpy_front)
  show ?thesis
    using assms unfolding npq_make_challenge_def by (simp add: Let_def b4 [simplified] t40 [simplified] d1 [simplified] b5 [simplified] t44 d2 b6)
qed

lemma verify_challenge_cases:
  assumes "length root = 32" and "60 \<le> length f" and "48 \<le> length h"
  shows "npq_verify_challenge (Some f) (Some root) (Some h) =
     (if take 4 f \<noteq> npq_header NPQ_FRAME_CHALLENGE \<or> slice f 4 4 \<noteq> slice h 12 4 \<or> slice f 8 16 \<noteq> slice h 16 16 then NPQ_ERR_FORMAT
      else if slice f 44 16 = npq_mac root ''NPQ/1 challenge'' (take 44 f) then NPQ_OK else NPQ_ERR_AUTH)"
  using assms by (simp add: npq_verify_challenge_def valid_header_iff verify_mac16_iff slice_def)

lemma verify_challenge_ok_iff:
  assumes root: "length root = 32" and len: "60 \<le> length f" and h: "48 \<le> length h"
  shows "npq_verify_challenge (Some f) (Some root) (Some h) = NPQ_OK \<longleftrightarrow>
     (\<exists>snonce sid. length snonce = 16 \<and> length sid = 4 \<and> take 60 f = npq_challenge_frame root h snonce sid)"
proof
  assume "npq_verify_challenge (Some f) (Some root) (Some h) = NPQ_OK"
  then have c: "take 4 f = npq_header NPQ_FRAME_CHALLENGE" "slice f 4 4 = slice h 12 4" "slice f 8 16 = slice h 16 16"
    "slice f 44 16 = npq_mac root ''NPQ/1 challenge'' (take 44 f)"
    unfolding verify_challenge_cases [OF assms] by (auto split: if_split_asm)
  have core: "take 44 f = challenge_core_npq h (slice f 24 16) (slice f 40 4)"
    using take_split [of 4 4 f] take_split [of 8 16 f] take_split [of 24 16 f] take_split [of 40 4 f] c(1-3)
    by (simp add: challenge_core_npq_def)
  have "take 60 f = npq_challenge_frame root h (slice f 24 16) (slice f 40 4)"
    using take_split [of 44 16 f] c(4) by (simp add: npq_challenge_frame_def core)
  moreover have "length (slice f 24 16) = 16" "length (slice f 40 4) = 4" using len by simp_all
  ultimately show "\<exists>snonce sid. length snonce = 16 \<and> length sid = 4 \<and> take 60 f = npq_challenge_frame root h snonce sid" by metis
next
  assume "\<exists>snonce sid. length snonce = 16 \<and> length sid = 4 \<and> take 60 f = npq_challenge_frame root h snonce sid"
  then obtain sn sid where l: "length sn = 16" "length sid = 4" and f: "take 60 f = npq_challenge_frame root h sn sid" by blast
  have sub: "slice f m n = slice (take 60 f) m n" if "m + n \<le> 60" for m n
    using that by (simp add: slice_def drop_take)
  have "take 44 f = take 44 (take 60 f)" "take 4 f = take 4 (take 60 f)" by simp_all
  then have "take 44 f = challenge_core_npq h sn sid" "take 4 f = npq_header NPQ_FRAME_CHALLENGE"
    unfolding f using l h by (simp_all add: npq_challenge_frame_def challenge_core_npq_def)
  moreover have "slice f 44 16 = npq_mac root ''NPQ/1 challenge'' (challenge_core_npq h sn sid)"
    using sub [of 44 16] f l h by (simp add: npq_challenge_frame_def slice_def)
  moreover have "slice f 4 4 = slice h 12 4" "slice f 8 16 = slice h 16 16"
    using sub [of 4 4] sub [of 8 16] f l h by (simp_all add: npq_challenge_frame_def challenge_core_npq_def slice_def)
  ultimately show "npq_verify_challenge (Some f) (Some root) (Some h) = NPQ_OK"
    unfolding verify_challenge_cases [OF assms] by simp
qed

lemma hello_frame_accepted:
  assumes "length root = 32" and "length dev = 8" and "epoch \<noteq> 0" and "length nonce = 16"
  shows "npq_verify_hello (Some (npq_hello_frame root dev epoch nonce)) (Some root) = NPQ_OK"
proof -
  have "take 48 (npq_hello_frame root dev epoch nonce) = npq_hello_frame root dev epoch nonce" using assms by simp
  then show ?thesis using assms by (subst verify_hello_ok_iff) (simp_all, metis)
qed

lemma challenge_frame_accepted:
  assumes "length root = 32" and "48 \<le> length h" and "length sn = 16" and "length sid = 4"
  shows "npq_verify_challenge (Some (npq_challenge_frame root h sn sid)) (Some root) (Some h) = NPQ_OK"
proof -
  have "take 60 (npq_challenge_frame root h sn sid) = npq_challenge_frame root h sn sid" using assms by simp
  then show ?thesis using assms by (subst verify_challenge_ok_iff) (simp_all, metis)
qed

section \<open>Keys\<close>

definition npq_transcript :: "bytes \<Rightarrow> bytes \<Rightarrow> bytes" where
  "npq_transcript hello challenge = spec_sha256 (text_bytes ''NPQ/1 transcript'' @ take 48 hello @ take 60 challenge)"

text \<open>HKDF with the transcript hash as salt and as context.\<close>

definition npq_secret :: "bytes \<Rightarrow> bytes \<Rightarrow> bytes \<Rightarrow> string \<Rightarrow> bytes" where
  "npq_secret root hello challenge label =
     (let th = npq_transcript hello challenge in spec_hkdf_expand (spec_hmac th root) (text_bytes label @ [0] @ th) 32)"

lemma length_npq_transcript [simp]: "length (npq_transcript h c) = 32"
  by (simp add: npq_transcript_def length_spec_sha256)

lemma length_npq_secret [simp]: "length (npq_secret root h c label) = 32"
  by (simp add: npq_secret_def Let_def)

lemma transcript_hash_spec: "transcript_hash h c = npq_transcript h c"
proof -
  let ?cs = "[text_bytes ''NPQ/1 transcript'', take 48 h, take 60 c]"
  have "length (concat ?cs) < 2 ^ 32" by simp
  with qp.final_updates [of ?cs] spec_sha256_32_eq [of "concat ?cs"] show ?thesis
    by (simp add: transcript_hash_def npq_transcript_def)
qed

lemma expand_secret:
  assumes "length root = 32" and "length label \<le> 24"
  shows "snd (hkdf_expand_label out (spec_hmac (npq_transcript h c) root) label (npq_transcript h c)) = npq_secret root h c label"
  using assms by (simp add: expand_label_ok npq_secret_def Let_def)

definition preflight_accepted :: "bytes \<Rightarrow> bytes \<Rightarrow> bytes \<Rightarrow> bool" where
  "preflight_accepted root h c \<longleftrightarrow>
     npq_verify_hello (Some h) (Some root) = NPQ_OK \<and> npq_verify_challenge (Some c) (Some root) (Some h) = NPQ_OK"

lemma derive_prk_ok:
  assumes "length root = 32" and "preflight_accepted root h c"
  shows "derive_transcript_prk (Some root) (Some h) (Some c) =
     (NPQ_OK, npq_transcript h c, spec_hmac (npq_transcript h c) root)"
  using assms by (simp add: derive_transcript_prk_def preflight_accepted_def transcript_hash_spec session_prk_def qp_hmac_spec Let_def)

lemma derive_prk_refused: "\<not> preflight_accepted root h c \<Longrightarrow> fst (derive_transcript_prk (Some root) (Some h) (Some c)) \<noteq> NPQ_OK"
  by (simp add: derive_transcript_prk_def preflight_accepted_def Let_def)

definition device_session :: "bytes \<Rightarrow> bytes \<Rightarrow> bytes \<Rightarrow> npq_session" where
  "device_session root h c =
     \<lparr>s_send_chain = npq_secret root h c ''NPQ/1 client chain'', s_receive_chain = npq_secret root h c ''NPQ/1 server chain'',
      s_send_nonce_base = take 16 (npq_secret root h c ''NPQ/1 client nonce''),
      s_receive_nonce_base = take 16 (npq_secret root h c ''NPQ/1 server nonce''),
      s_session_id = be_word (slice c 40 4), s_boot_epoch = be_word (slice h 12 4),
      s_send_sequence = 0, s_receive_sequence = 0, s_established = 1\<rparr>"

text \<open>The session of the other end: the two directions exchanged.\<close>

definition mirror :: "npq_session \<Rightarrow> npq_session" where
  "mirror s = s\<lparr>s_send_chain := s_receive_chain s, s_receive_chain := s_send_chain s,
     s_send_nonce_base := s_receive_nonce_base s, s_receive_nonce_base := s_send_nonce_base s,
     s_send_sequence := s_receive_sequence s, s_receive_sequence := s_send_sequence s\<rparr>"

lemma derive_session_ok:
  assumes "length root = 32" and "48 \<le> length h" and "60 \<le> length c" and "preflight_accepted root h c"
  shows "npq_derive_session (Some s0) NPQ_ROLE_DEVICE (Some root) (Some h) (Some c) = (NPQ_OK, Some (device_session root h c))"
    and "npq_derive_session (Some s0) NPQ_ROLE_SERVER (Some root) (Some h) (Some c) = (NPQ_OK, Some (mirror (device_session root h c)))"
  using assms by (simp_all add: npq_derive_session_def derive_prk_ok expand_secret npq_load_be session_zero_def device_session_def mirror_def)

lemma derive_session_imp:
  "npq_derive_session (Some s0) role (Some root) (Some h) (Some c) = (NPQ_OK, s) \<Longrightarrow>
     preflight_accepted root h c \<and> (role = NPQ_ROLE_DEVICE \<or> role = NPQ_ROLE_SERVER)"
  using derive_prk_refused [of root h c] by (auto simp: npq_derive_session_def split: if_split_asm prod.split_asm)

section \<open>Finished\<close>

definition npq_finished_frame :: "bytes \<Rightarrow> bytes \<Rightarrow> bytes \<Rightarrow> u8 \<Rightarrow> bytes" where
  "npq_finished_frame root h c ty =
     (let core = npq_header ty @ slice c 40 4
      in core @ npq_mac (npq_secret root h c (finished_key_label ty)) (finished_tag_label ty) (core @ npq_transcript h c))"

lemma length_npq_finished_frame [simp]: "60 \<le> length c \<Longrightarrow> length (npq_finished_frame root h c ty) = 24"
  by (simp add: npq_finished_frame_def Let_def)

lemma length_finished_labels: "length (finished_key_label ty) \<le> 24" "length (finished_tag_label ty) \<le> 24"
  by (simp_all add: finished_key_label_def finished_tag_label_def)

lemma make_finished_ok:
  assumes "length root = 32" and "60 \<le> length c" and "preflight_accepted root h c" and "24 \<le> length o0"
    and "ty = NPQ_FRAME_CLIENT_FINISHED \<or> ty = NPQ_FRAME_SERVER_FINISHED"
  shows "npq_make_finished (Some o0) ty role (Some root) (Some h) (Some c) =
     (NPQ_OK, Some (npq_finished_frame root h c ty @ drop 24 o0))"
proof -
  let ?core = "npq_header ty @ slice c 40 4" and ?th = "npq_transcript h c"
  let ?key = "npq_secret root h c (finished_key_label ty)"
  have b2: "memcpy (make_header o0 ty) 4 (slice c 40 4) = memcpy o0 0 ?core"
    using assms by (simp add: make_header_eq memcpy_memcpy)
  have core: "length ?core = 8" using assms by simp
  then have t8: "take 8 (memcpy o0 0 ?core) = ?core" using assms by (simp add: memcpy_def)
  have tag: "take 16 (snd (hmac_label out ?key (finished_tag_label ty) (?core @ ?th)))
      = npq_mac ?key (finished_tag_label ty) (?core @ ?th)" for out
    using core length_finished_labels(2) [of ty] by (subst hmac_label_ok) (simp_all add: npq_mac_def)
  have b3: "memcpy (memcpy o0 0 ?core) 8 (npq_mac ?key (finished_tag_label ty) (?core @ ?th))
      = npq_finished_frame root h c ty @ drop 24 o0"
    using assms core by (subst memcpy_memcpy) (simp_all add: npq_finished_frame_def Let_def memcpy_front)
  show ?thesis
    using assms(5) unfolding npq_make_finished_def
    by (auto simp add: Let_def derive_prk_ok [OF assms(1,3)] expand_secret [OF assms(1) length_finished_labels(1)]
        b2 t8 tag b3 simp del: append_assoc)
qed

lemma verify_finished_iff:
  assumes root: "length root = 32" and c: "60 \<le> length c" and len: "24 \<le> length f" and pre: "preflight_accepted root h c"
    and ty: "ty = NPQ_FRAME_CLIENT_FINISHED \<or> ty = NPQ_FRAME_SERVER_FINISHED"
  shows "npq_verify_finished (Some f) ty role (Some root) (Some h) (Some c) = NPQ_OK \<longleftrightarrow> take 24 f = npq_finished_frame root h c ty"
proof -
  let ?F = "npq_finished_frame root h c ty"
  have F: "length ?F = 24" using c by simp
  have mk: "npq_make_finished (Some (replicate 24 0)) ty role (Some root) (Some h) (Some c) = (NPQ_OK, Some ?F)"
    using make_finished_ok [OF root c pre _ ty, of "replicate 24 0" role] by simp
  have parts: "take 4 ?F = npq_header ty" "slice ?F 4 4 = slice c 40 4"
    using c by (simp_all add: npq_finished_frame_def Let_def slice_def)
  have split: "take 24 f = take 4 f @ slice f 4 4 @ slice f 8 16"
    using take_split [of 4 4 f] take_split [of 8 16 f] by simp
  have splitF: "?F = take 4 ?F @ slice ?F 4 4 @ slice ?F 8 16"
    using take_split [of 4 4 ?F] take_split [of 8 16 ?F] F by simp
  have "npq_verify_finished (Some f) ty role (Some root) (Some h) (Some c) = NPQ_OK \<longleftrightarrow>
      take 4 f = npq_header ty \<and> slice f 4 4 = slice c 40 4 \<and> slice f 8 16 = slice ?F 8 16"
    using c len F by (auto simp: npq_verify_finished_def valid_header_iff mk slice_def)
  also have "\<dots> \<longleftrightarrow> take 24 f = ?F"
    unfolding split by (subst splitF) (use parts c len F in \<open>simp add: append_eq_append_conv\<close>)
  finally show ?thesis .
qed

lemma verify_finished_imp:
  "npq_verify_finished (Some f) ty role (Some root) (Some h) (Some c) = NPQ_OK \<Longrightarrow> preflight_accepted root h c"
  using derive_prk_refused [of root h c]
  by (auto simp: npq_verify_finished_def npq_make_finished_def split: if_split_asm prod.split_asm)

section \<open>Properties\<close>

text \<open>The preflight frames of the NanoPQ link. \<open>npq_make_hello\<close> and \<open>npq_make_challenge\<close> write
  the specified frames and leave the rest of the buffer; \<open>npq_verify_hello\<close> accepts a frame exactly
  when it is such a frame for some device, a nonzero epoch and some nonce, authenticated under the
  root key, and \<open>npq_verify_challenge\<close> exactly when it echoes the epoch and nonce of the hello at
  hand and is authenticated.\<close>

theorem npq_preflight_exact:
  assumes "length root = 32" and "length dev = 8" and "epoch \<noteq> 0" and "length snonce = 16"
    and "48 \<le> length f" and "60 \<le> length g"
  shows "npq_make_hello (Some (replicate 48 0)) (Some root) (Some dev) epoch =
      (NPQ_OK, Some (npq_hello_frame root dev epoch (client_nonce root dev epoch))) \<and>
    (npq_verify_hello (Some f) (Some root) = NPQ_OK \<longleftrightarrow>
      (\<exists>d e n. length d = 8 \<and> e \<noteq> 0 \<and> length n = 16 \<and> take 48 f = npq_hello_frame root d e n)) \<and>
    (npq_verify_hello (Some f) (Some root) = NPQ_OK \<longrightarrow>
      npq_make_challenge (Some (replicate 60 0)) (Some root) (Some f) (Some snonce) =
        (NPQ_OK, Some (npq_challenge_frame root f snonce (challenge_session_id root f snonce)))) \<and>
    (npq_verify_challenge (Some g) (Some root) (Some f) = NPQ_OK \<longleftrightarrow>
      (\<exists>sn sid. length sn = 16 \<and> length sid = 4 \<and> take 60 g = npq_challenge_frame root f sn sid))"
  using assms make_hello_ok [of root dev epoch "replicate 48 0"] make_challenge_ok [of root snonce "replicate 60 0" f]
  by (simp add: verify_hello_ok_iff verify_challenge_ok_iff)

theorem npq_preflight_exact_witness:
  "npq_verify_hello (Some (npq_hello_frame (replicate 32 1) (replicate 8 2) 5 (replicate 16 3))) (Some (replicate 32 1)) = NPQ_OK"
proof -
  let ?f = "npq_hello_frame (replicate 32 1) (replicate 8 2) 5 (replicate 16 3)"
  have len: "length ?f = 48" by simp
  have "\<exists>d e n. length d = 8 \<and> e \<noteq> 0 \<and> length n = 16 \<and> take 48 ?f = npq_hello_frame (replicate 32 1) d e n"
    using len by (intro exI [of _ "replicate 8 2"] exI [of _ 5] exI [of _ "replicate 16 3"]) simp
  with npq_preflight_exact [of "replicate 32 1" "replicate 8 2" 5 "replicate 16 3" ?f "replicate 60 0"] len
  show ?thesis by simp
qed

text \<open>Agreement. When the device derives a session from a hello and a challenge, the server
  derives from the same frames the mirrored session, both established with both counters at zero; and
  each end accepts as the other's finished message exactly the frame the other end makes.\<close>

theorem npq_session_agreement:
  assumes "length root = 32" and "48 \<le> length h" and "60 \<le> length c"
    and "npq_derive_session (Some s0) NPQ_ROLE_DEVICE (Some root) (Some h) (Some c) = (NPQ_OK, Some d)"
  shows "npq_derive_session (Some s1) NPQ_ROLE_SERVER (Some root) (Some h) (Some c) = (NPQ_OK, Some (mirror d)) \<and>
    s_established d = 1 \<and> s_send_sequence d = 0 \<and> s_receive_sequence d = 0 \<and>
    (\<forall>f ty role role'. 24 \<le> length f \<and> (ty = NPQ_FRAME_CLIENT_FINISHED \<or> ty = NPQ_FRAME_SERVER_FINISHED) \<longrightarrow>
       (npq_verify_finished (Some f) ty role (Some root) (Some h) (Some c) = NPQ_OK \<longleftrightarrow>
        npq_make_finished (Some (replicate 24 0)) ty role' (Some root) (Some h) (Some c) = (NPQ_OK, Some (take 24 f))))"
proof -
  have pre: "preflight_accepted root h c" using derive_session_imp [OF assms(4)] by simp
  note ok = derive_session_ok [OF assms(1-3) pre]
  have d: "d = device_session root h c" using assms(4) ok(1) by simp
  have "npq_verify_finished (Some f) ty role (Some root) (Some h) (Some c) = NPQ_OK \<longleftrightarrow>
      npq_make_finished (Some (replicate 24 0)) ty role' (Some root) (Some h) (Some c) = (NPQ_OK, Some (take 24 f))"
    if "24 \<le> length f" "ty = NPQ_FRAME_CLIENT_FINISHED \<or> ty = NPQ_FRAME_SERVER_FINISHED" for f ty role role'
    using verify_finished_iff [OF assms(1,3) that(1) pre that(2)] make_finished_ok [OF assms(1,3) pre _ that(2), of "replicate 24 0"]
    by auto
  with ok(2) d show ?thesis by (auto simp: device_session_def)
qed

theorem npq_session_agreement_witness:
  "\<exists>h c d. npq_derive_session (Some session_zero) 0 (Some (replicate 32 1)) (Some h) (Some c) = (NPQ_OK, Some d) \<and>
     npq_derive_session (Some session_zero) 1 (Some (replicate 32 1)) (Some h) (Some c) = (NPQ_OK, Some (mirror d))"
proof -
  let ?r = "replicate 32 1" and ?h = "npq_hello_frame (replicate 32 1) (replicate 8 2) 5 (replicate 16 3)"
  let ?c = "npq_challenge_frame ?r ?h (replicate 16 4) (replicate 4 5)"
  have lh: "length ?h = 48" by simp
  then have lc: "length ?c = 60" by simp
  have pre: "preflight_accepted ?r ?h ?c" unfolding preflight_accepted_def using lh by (intro conjI hello_frame_accepted challenge_frame_accepted) simp_all
  have "npq_derive_session (Some session_zero) 0 (Some ?r) (Some ?h) (Some ?c) = (NPQ_OK, Some (device_session ?r ?h ?c))"
    using derive_session_ok(1) [OF _ _ _ pre] lh lc by simp
  with npq_session_agreement [of ?r ?h ?c session_zero "device_session ?r ?h ?c" session_zero] lh lc show ?thesis
    by (intro exI [of _ ?h] exI [of _ ?c]) auto
qed

end
