(* ===== verification/NpqRecords.thy ===== *)
theory NpqRecords
  imports NpqSession
begin

text \<open>
  The data records of the NanoPQ link: exactly which frames \<open>npq_open\<close> accepts, and that a link
  between two mirrored sessions delivers, over a network that drops, repeats and reorders, a prefix of
  what was sealed.
\<close>

unbundle bit_operations_syntax

section \<open>Record frames\<close>

definition data_header :: "u32 \<Rightarrow> u32 \<Rightarrow> nat \<Rightarrow> bytes" where
  "data_header sid sequence n = npq_header NPQ_FRAME_DATA @ be_bytes 4 sid @ be_bytes 4 sequence @ [of_nat n]"

definition data_frame :: "u32 \<Rightarrow> u32 \<Rightarrow> bytes \<Rightarrow> bytes \<Rightarrow> bytes \<Rightarrow> bytes" where
  "data_frame sid sequence chain base p =
     (let (ct, tag) = npq_ascon_aead128_encrypt (fst (ratchet_material chain sequence)) (make_nonce base sequence)
                        (data_header sid sequence (length p)) p
      in data_header sid sequence (length p) @ ct @ tag)"

definition sealed_frame :: "npq_session \<Rightarrow> bytes \<Rightarrow> bytes" where
  "sealed_frame s p = data_frame (s_session_id s) (s_send_sequence s) (s_send_chain s) (s_send_nonce_base s) p"

definition awaited_frame :: "npq_session \<Rightarrow> bytes \<Rightarrow> bytes" where
  "awaited_frame s p = data_frame (s_session_id s) (s_receive_sequence s) (s_receive_chain s) (s_receive_nonce_base s) p"

definition after_send :: "npq_session \<Rightarrow> npq_session" where
  "after_send s = s\<lparr>s_send_chain := snd (ratchet_material (s_send_chain s) (s_send_sequence s)),
     s_send_sequence := s_send_sequence s + 1\<rparr>"

definition after_receive :: "npq_session \<Rightarrow> npq_session" where
  "after_receive s = s\<lparr>s_receive_chain := snd (ratchet_material (s_receive_chain s) (s_receive_sequence s)),
     s_receive_sequence := s_receive_sequence s + 1\<rparr>"

lemma length_data_header [simp]: "length (data_header sid sequence n) = 13"
  by (simp add: data_header_def)

lemma length_data_frame [simp]: "length (data_frame sid sequence chain base p) = 29 + length p"
proof -
  obtain ct tag where e: "npq_ascon_aead128_encrypt (fst (ratchet_material chain sequence)) (make_nonce base sequence)
      (data_header sid sequence (length p)) p = (ct, tag)" by fastforce
  with npq_length_encrypt [OF e] show ?thesis by (simp add: data_frame_def)
qed

lemma length_sealed_frame [simp]: "length (sealed_frame s p) = 29 + length p"
  and length_awaited_frame [simp]: "length (awaited_frame s p) = 29 + length p"
  by (simp_all add: sealed_frame_def awaited_frame_def)

lemma data_header_fields:
  assumes "f = data_header sid sequence n @ g"
  shows "valid_header f NPQ_FRAME_DATA" and "slice f 4 4 = be_bytes 4 sid" and "slice f 8 4 = be_bytes 4 sequence"
    and "f ! 12 = of_nat n" and "take 13 f = data_header sid sequence n"
proof -
  have f: "f = npq_header NPQ_FRAME_DATA @ be_bytes 4 sid @ be_bytes 4 sequence @ of_nat n # g"
    using assms by (simp add: data_header_def)
  have "take 4 f = npq_header NPQ_FRAME_DATA" by (simp add: f)
  then show "valid_header f NPQ_FRAME_DATA" by (subst valid_header_iff) (simp_all add: f)
  show "slice f 4 4 = be_bytes 4 sid" "slice f 8 4 = be_bytes 4 sequence" by (simp_all add: f slice_def)
  show "f ! 12 = of_nat n" by (simp add: f nth_append)
  show "take 13 f = data_header sid sequence n" using assms by simp
qed

lemma slice_one: "i < length f \<Longrightarrow> slice f i 1 = [f ! i]"
  by (simp add: slice_def Cons_nth_drop_Suc [symmetric])

section \<open>Sealing\<close>

lemma seal_ok:
  assumes "s_established s \<noteq> 0" and "s_send_sequence s \<noteq> - 1" and "length p \<le> 24" and "29 + length p \<le> length o0"
  shows "npq_seal (Some s) (Some p) (of_nat (length p)) (Some o0) (Some ol) =
     (NPQ_OK, Some (after_send s), Some (sealed_frame s p @ drop (29 + length p) o0), Some (of_nat (29 + length p)))"
proof -
  let ?n = "length p" and ?h = "data_header (s_session_id s) (s_send_sequence s) (length p)"
  let ?key = "fst (ratchet_material (s_send_chain s) (s_send_sequence s))" and ?nonce = "make_nonce (s_send_nonce_base s) (s_send_sequence s)"
  obtain ct tag where enc: "npq_ascon_aead128_encrypt ?key ?nonce ?h p = (ct, tag)" by fastforce
  have len: "length ct = ?n" "length tag = 16" using npq_length_encrypt [OF enc] by simp_all
  have un: "unat (of_nat ?n :: u8) = ?n" using assms(3) by (simp add: unat_of_nat_u8)
  have le: "\<not> (of_nat ?n :: u8) > 24" using un assms(3) by (simp add: word_less_nat_alt)
  have b3: "memcpy (memcpy (make_header o0 5) 4 (be_bytes 4 (s_session_id s))) 8 (be_bytes 4 (s_send_sequence s))
      = memcpy o0 0 (npq_header 5 @ be_bytes 4 (s_session_id s) @ be_bytes 4 (s_send_sequence s))"
    using assms by (simp add: make_header_eq memcpy_memcpy)
  have upd: "(memcpy o0 0 xs)[12 := v] = memcpy o0 0 (xs @ [v])" if "length xs = 12" for xs v
  proof -
    have "drop 12 o0 = o0 ! 12 # drop 13 o0" using Cons_nth_drop_Suc [of 12 o0] assms by simp
    then show ?thesis using that by (simp add: memcpy_def list_update_append)
  qed
  have b4: "(memcpy (memcpy (make_header o0 5) 4 (be_bytes 4 (s_session_id s))) 8 (be_bytes 4 (s_send_sequence s)))[12 := of_nat ?n]
      = memcpy o0 0 ?h"
    unfolding b3 by (subst upd) (simp_all add: data_header_def)
  have ad: "take 13 (memcpy o0 0 ?h) = ?h" using assms by (simp add: memcpy_def)
  have b6: "memcpy (memcpy (memcpy o0 0 ?h) 13 ct) (13 + ?n) tag = (?h @ ct @ tag) @ drop (29 + ?n) o0"
    using assms len by (subst memcpy_memcpy, simp, simp, subst memcpy_memcpy) (simp_all add: memcpy_front add.commute)
  have fr: "sealed_frame s p = ?h @ ct @ tag" by (simp add: sealed_frame_def data_frame_def enc)
  show ?thesis
    using assms(1,2) le enc unfolding npq_seal_def
    by (simp add: Let_def npq_store_be b4 ad un b6 fr after_send_def case_prod_unfold)
qed

text \<open>Whatever the arguments, a seal that succeeds is such a seal, and one that fails changes nothing.\<close>

lemma seal_imp:
  assumes "npq_seal (Some s) p n o0 ol = (st, s', o1, ol')"
  shows "s' = Some (if st = NPQ_OK then after_send s else s)"
    and "st = NPQ_OK \<Longrightarrow> s_established s \<noteq> 0 \<and> s_send_sequence s \<noteq> - 1"
  using assms by (auto simp: npq_seal_def Let_def case_prod_unfold after_send_def split: option.split_asm if_split_asm)

section \<open>Opening\<close>

lemma open_imp:
  assumes "npq_open (Some s) f n p pl = (st, s', p', pl')"
  shows "s' = Some (if st = NPQ_OK then after_receive s else s)"
proof -
  consider "f = None \<or> p = None \<or> pl = None" | f0 p0 l0 where "f = Some f0" "p = Some p0" "pl = Some l0" by fastforce
  then show ?thesis
  proof cases
    case 1
    then show ?thesis using assms by (auto simp: npq_open_def split: option.split_asm)
  next
    case 2
    let ?r = "ratchet_material (s_receive_chain s) (npq_load_u32_be (slice f0 8 4))"
    let ?D = "npq_ascon_aead128_decrypt (fst ?r) (make_nonce (s_receive_nonce_base s) (npq_load_u32_be (slice f0 8 4)))
        (take 13 f0) (slice f0 13 (unat (f0 ! 12))) (slice f0 (13 + unat (f0 ! 12)) 16)"
    have "npq_open (Some s) f n p pl =
        (if n < 29 \<or> \<not> valid_header f0 5 then (NPQ_ERR_ARGUMENT, Some s, p, pl)
         else if f0 ! 12 > 24 \<or> unat n \<noteq> 29 + unat (f0 ! 12) \<or> npq_load_u32_be (slice f0 4 4) \<noteq> s_session_id s
         then (NPQ_ERR_FORMAT, Some s, p, pl)
         else if s_established s = 0 \<or> npq_load_u32_be (slice f0 8 4) \<noteq> s_receive_sequence s then (NPQ_ERR_REPLAY, Some s, p, pl)
         else if fst ?D = NPQ_OK
         then (NPQ_OK, Some (after_receive s), Some (memcpy p0 0 (snd ?D)), Some (f0 ! 12))
         else (fst ?D, Some s, Some (memcpy p0 0 (snd ?D)), Some 0))"
      by (simp add: npq_open_def 2 Let_def case_prod_unfold after_receive_def)
    with assms show ?thesis by (auto split: if_split_asm)
  qed
qed

lemma npq_open_accepts_imp:
  assumes ok: "npq_open (Some s) (Some f) (of_nat (length f)) (Some p) (Some pl) = (NPQ_OK, s', p', n')" and len: "length f < 256"
  obtains pt where "length pt \<le> 24" and "f = awaited_frame s pt" and "s_established s \<noteq> 0"
    and "p' = Some (memcpy p 0 pt)" and "n' = Some (of_nat (length pt))"
proof -
  let ?n = "of_nat (length f) :: u8" and ?k = "unat (f ! 12)" and ?seq = "npq_load_u32_be (slice f 8 4)"
  note ok' = ok [unfolded npq_open_def Let_def case_prod_unfold option.case prod.case fst_conv snd_conv]
  have un: "unat ?n = length f" using len by (simp add: unat_of_nat_u8)
  have g1: "\<not> (?n < 29 \<or> \<not> valid_header f 5)" by (rule notI) (use ok' in simp)
  have g2: "\<not> (f ! 12 > 24 \<or> unat ?n \<noteq> 29 + ?k \<or> npq_load_u32_be (slice f 4 4) \<noteq> s_session_id s)"
    by (rule notI) (use ok' g1 in simp)
  have g3: "\<not> (s_established s = 0 \<or> ?seq \<noteq> s_receive_sequence s)" by (rule notI) (use ok' g1 g2 in simp)
  have fl: "length f = 29 + ?k" using g2 un by simp
  have k24: "?k \<le> 24" using g2 by (simp add: word_less_nat_alt not_less)
  let ?key = "fst (ratchet_material (s_receive_chain s) (s_receive_sequence s))"
  let ?nonce = "make_nonce (s_receive_nonce_base s) (s_receive_sequence s)"
  let ?D = "npq_ascon_aead128_decrypt ?key ?nonce (take 13 f) (slice f 13 ?k) (slice f (13 + ?k) 16)"
  have d: "fst ?D = NPQ_OK" by (rule ccontr) (use ok' g1 g2 g3 in simp)
  then obtain pt where D: "?D = (NPQ_OK, pt)" by (cases ?D) simp
  have tl: "length (slice f (13 + ?k) 16) = 16" using fl by simp
  have enc: "npq_ascon_aead128_encrypt ?key ?nonce (take 13 f) pt = (slice f 13 ?k, slice f (13 + ?k) 16)"
    using D npq_decrypt_accepts [OF tl] by simp
  have lpt: "length pt = ?k" using npq_length_encrypt [OF enc] fl by simp
  have b: "slice f 4 4 = be_bytes 4 (s_session_id s)" "slice f 8 4 = be_bytes 4 (s_receive_sequence s)"
    using be_bytes_be_word [of "slice f 4 4" 4, where ?'a = 32] be_bytes_be_word [of "slice f 8 4" 4, where ?'a = 32] g2 g3 fl
    by (simp_all add: npq_load_be)
  have "take 4 f = npq_header 5" using g1 fl by (simp add: valid_header_iff)
  moreover have "slice f 12 1 = [f ! 12]" using fl by (intro slice_one) simp
  ultimately have ad: "take 13 f = data_header (s_session_id s) (s_receive_sequence s) (length pt)"
    using take_split [of 4 4 f] take_split [of 8 4 f] take_split [of 12 1 f] b lpt by (simp add: data_header_def)
  have "f = take 13 f @ slice f 13 ?k @ slice f (13 + ?k) 16"
    using fl by (simp add: slice_def) (metis append_take_drop_id drop_drop add.commute)
  then have "f = awaited_frame s pt" using enc by (simp add: awaited_frame_def data_frame_def ad)
  moreover have "p' = Some (memcpy p 0 pt)" "n' = Some (of_nat (length pt))" using ok' g1 g2 g3 D lpt by simp_all
  ultimately show ?thesis using that [of pt] lpt k24 g3 by simp
qed

lemma open_awaited:
  assumes est: "s_established s \<noteq> 0" and pt: "length pt \<le> 24"
  shows "npq_open (Some s) (Some (awaited_frame s pt)) (of_nat (29 + length pt)) (Some p) (Some pl) =
     (NPQ_OK, Some (after_receive s), Some (memcpy p 0 pt), Some (of_nat (length pt)))"
proof -
  let ?f = "awaited_frame s pt" and ?h = "data_header (s_session_id s) (s_receive_sequence s) (length pt)"
  let ?key = "fst (ratchet_material (s_receive_chain s) (s_receive_sequence s))"
  let ?nonce = "make_nonce (s_receive_nonce_base s) (s_receive_sequence s)"
  obtain ct tag where enc: "npq_ascon_aead128_encrypt ?key ?nonce ?h pt = (ct, tag)" by fastforce
  have len: "length ct = length pt" "length tag = 16" using npq_length_encrypt [OF enc] by simp_all
  have f: "?f = ?h @ ct @ tag" by (simp add: awaited_frame_def data_frame_def enc)
  have fields: "valid_header ?f 5" "slice ?f 4 4 = be_bytes 4 (s_session_id s)" "slice ?f 8 4 = be_bytes 4 (s_receive_sequence s)"
    "?f ! 12 = of_nat (length pt)" "take 13 ?f = ?h"
    using data_header_fields [OF f] by simp_all
  have un: "unat (of_nat (length pt) :: u8) = length pt" using pt by (simp add: unat_of_nat_u8)
  have un29: "unat (of_nat (29 + length pt) :: u8) = 29 + length pt" using pt by (intro unat_of_nat_u8) simp
  have g: "\<not> (of_nat (29 + length pt) :: u8) < 29" "\<not> (of_nat (length pt) :: u8) > 24"
    using un un29 pt by (simp_all add: word_less_nat_alt del: of_nat_add)
  have parts: "slice ?f 13 (length pt) = ct" "slice ?f (13 + length pt) 16 = tag"
    unfolding f using len by (simp_all add: slice_def)
  have "npq_ascon_aead128_decrypt ?key ?nonce ?h ct tag = (NPQ_OK, pt)"
    using npq_decrypt_accepts [OF len(2)] enc by simp
  then show ?thesis
    using est g un un29 fields parts
    by (simp add: npq_open_def Let_def npq_load_be be_word_be_bytes case_prod_unfold after_receive_def del: of_nat_add)
qed

section \<open>Frames identify their records\<close>

lemma data_frame_fields:
  "slice (data_frame sid sequence chain base p) 8 4 = be_bytes 4 sequence"
  "data_frame sid sequence chain base p ! 12 = of_nat (length p)"
proof -
  obtain ct tag where "npq_ascon_aead128_encrypt (fst (ratchet_material chain sequence)) (make_nonce base sequence)
      (data_header sid sequence (length p)) p = (ct, tag)" by fastforce
  then have "data_frame sid sequence chain base p = data_header sid sequence (length p) @ ct @ tag" by (simp add: data_frame_def)
  from data_header_fields [OF this] show "slice (data_frame sid sequence chain base p) 8 4 = be_bytes 4 sequence"
    "data_frame sid sequence chain base p ! 12 = of_nat (length p)" by simp_all
qed

lemma data_frame_inject:
  assumes "data_frame sid sequence chain base p = data_frame sid sequence chain base q"
  shows "p = q"
proof -
  let ?enc = "npq_ascon_aead128_encrypt (fst (ratchet_material chain sequence)) (make_nonce base sequence) (data_header sid sequence (length p))"
  obtain c t where p: "?enc p = (c, t)" by fastforce
  obtain d u where q: "?enc q = (d, u)" by fastforce
  have len: "length p = length q" using arg_cong [OF assms, of length] by simp
  have "c @ t = d @ u" using assms p q len by (simp add: data_frame_def)
  moreover have "length c = length d" using npq_length_encrypt [OF p] npq_length_encrypt [OF q] len by simp
  ultimately show ?thesis using p q ascon.encrypt_inject by (simp add: npq_encrypt_eq)
qed

section \<open>A link between two ends\<close>

text \<open>One direction of a link: the two sessions, the frames sealed with their plaintexts, and the
  plaintexts accepted. The network may drop, repeat and reorder the sealed frames; the opposite
  direction runs between the same sessions.\<close>

record npq_link =
  lk_sender :: npq_session
  lk_receiver :: npq_session
  lk_sent :: "(bytes \<times> bytes) list"
  lk_got :: "bytes list"

inductive link_step :: "npq_link \<Rightarrow> npq_link \<Rightarrow> bool" where
  link_seal: "npq_seal (Some (lk_sender l)) (Some p) (of_nat (length p)) (Some o0) (Some ol) = (NPQ_OK, Some a, Some o1, Some n) \<Longrightarrow>
    length p \<le> 24 \<Longrightarrow> 64 \<le> length o0 \<Longrightarrow>
    link_step l (l\<lparr>lk_sender := a, lk_sent := lk_sent l @ [(take (unat n) o1, p)]\<rparr>)"
| link_deliver: "f \<in> fst ` set (lk_sent l) \<Longrightarrow> 24 \<le> length p \<Longrightarrow>
    npq_open (Some (lk_receiver l)) (Some f) (of_nat (length f)) (Some p) (Some pl) = (st, Some b, Some p', Some n) \<Longrightarrow>
    link_step l (l\<lparr>lk_receiver := b, lk_got := (if st = NPQ_OK then lk_got l @ [take (unat n) p'] else lk_got l)\<rparr>)"
| link_back_seal: "npq_seal (Some (lk_receiver l)) p n o0 ol = (st, Some b, o1, ol') \<Longrightarrow> link_step l (l\<lparr>lk_receiver := b\<rparr>)"
| link_back_open: "npq_open (Some (lk_sender l)) f n p pl = (st, Some a, p', pl') \<Longrightarrow> link_step l (l\<lparr>lk_sender := a\<rparr>)"

inductive_cases link_stepE: "link_step l l'"

fun chain_at :: "bytes \<Rightarrow> nat \<Rightarrow> bytes" where
  "chain_at c 0 = c"
| "chain_at c (Suc n) = snd (ratchet_material (chain_at c n) (of_nat n))"

definition record_at :: "npq_session \<Rightarrow> nat \<Rightarrow> bytes \<Rightarrow> bytes" where
  "record_at a i p = data_frame (s_session_id a) (of_nat i) (chain_at (s_send_chain a) i) (s_send_nonce_base a) p"

text \<open>The invariant, relative to the sending session at the start.\<close>

definition sender_at :: "npq_session \<Rightarrow> nat \<Rightarrow> npq_session \<Rightarrow> bool" where
  "sender_at a n s \<longleftrightarrow> s_send_sequence s = of_nat n \<and> s_send_chain s = chain_at (s_send_chain a) n \<and>
     s_send_nonce_base s = s_send_nonce_base a \<and> s_session_id s = s_session_id a"

definition receiver_at :: "npq_session \<Rightarrow> nat \<Rightarrow> npq_session \<Rightarrow> bool" where
  "receiver_at a n s \<longleftrightarrow> s_receive_sequence s = of_nat n \<and> s_receive_chain s = chain_at (s_send_chain a) n \<and>
     s_receive_nonce_base s = s_send_nonce_base a \<and> s_session_id s = s_session_id a"

definition link_inv :: "npq_session \<Rightarrow> npq_link \<Rightarrow> bool" where
  "link_inv a l \<longleftrightarrow> sender_at a (length (lk_sent l)) (lk_sender l) \<and> receiver_at a (length (lk_got l)) (lk_receiver l) \<and>
     length (lk_sent l) < 2 ^ 32 \<and> length (lk_got l) \<le> length (lk_sent l) \<and>
     (\<forall>i<length (lk_sent l). length (snd (lk_sent l ! i)) \<le> 24 \<and> fst (lk_sent l ! i) = record_at a i (snd (lk_sent l ! i))) \<and>
     lk_got l = take (length (lk_got l)) (map snd (lk_sent l))"

lemma sealed_at: "sender_at a n s \<Longrightarrow> sealed_frame s p = record_at a n p"
  by (simp add: sender_at_def sealed_frame_def record_at_def)

lemma awaited_at: "receiver_at a n s \<Longrightarrow> awaited_frame s p = record_at a n p"
  by (simp add: receiver_at_def awaited_frame_def record_at_def)

lemma after_at: "sender_at a n s \<Longrightarrow> sender_at a (Suc n) (after_send s)" "receiver_at a n s \<Longrightarrow> receiver_at a (Suc n) (after_receive s)"
  "sender_at a n s \<Longrightarrow> sender_at a n (after_receive s)" "receiver_at a n s \<Longrightarrow> receiver_at a n (after_send s)"
  by (simp_all add: sender_at_def receiver_at_def after_send_def after_receive_def)

lemma record_at_inject:
  assumes "record_at a i p = record_at a j q" and "i < 2 ^ 32" and "j < 2 ^ 32"
  shows "i = j \<and> p = q"
proof -
  have "be_bytes 4 (of_nat i :: u32) = be_bytes 4 (of_nat j :: u32)"
    using arg_cong [OF assms(1), of "\<lambda>f. slice f 8 4"] by (simp add: record_at_def data_frame_fields(1))
  then have "(of_nat i :: u32) = of_nat j" by (subst (asm) be_bytes_inject) simp_all
  then have "i = j" using assms(2,3) by (simp add: word_of_nat_eq_iff take_bit_nat_eq_self)
  with assms(1) data_frame_inject show ?thesis by (auto simp: record_at_def)
qed

lemma link_inv_seal:
  assumes inv: "link_inv a l" and p: "length p \<le> 24" and o0: "64 \<le> length o0"
    and seal: "npq_seal (Some (lk_sender l)) (Some p) (of_nat (length p)) (Some o0) (Some ol) = (NPQ_OK, Some s, Some o1, Some n)"
  shows "link_inv a (l\<lparr>lk_sender := s, lk_sent := lk_sent l @ [(take (unat n) o1, p)]\<rparr>)"
proof -
  let ?k = "length (lk_sent l)"
  have at: "sender_at a ?k (lk_sender l)" and k: "?k < 2 ^ 32" using inv by (simp_all add: link_inv_def)
  have est: "s_established (lk_sender l) \<noteq> 0" "s_send_sequence (lk_sender l) \<noteq> - 1" using seal_imp(2) [OF seal] by simp_all
  have out: "s = after_send (lk_sender l)" "o1 = record_at a ?k p @ drop (29 + length p) o0" "n = of_nat (29 + length p)"
    using seal seal_ok [OF est p, of o0 ol] o0 p sealed_at [OF at, of p] by auto
  have "unat n = 29 + length p" unfolding out(3) using p by (intro unat_of_nat_u8) simp
  then have fr: "take (unat n) o1 = record_at a ?k p" by (simp add: out(2) record_at_def)
  have "(of_nat ?k :: u32) \<noteq> - 1" using est(2) at by (simp add: sender_at_def)
  then have "?k \<noteq> 2 ^ 32 - 1" by auto
  then have "Suc ?k < 2 ^ 32" using k by simp
  with inv after_at(1) [OF at] out(1) fr p show ?thesis by (auto simp: link_inv_def nth_append less_Suc_eq)
qed

lemma link_inv_deliver:
  assumes inv: "link_inv a l" and f: "f \<in> fst ` set (lk_sent l)" and p: "24 \<le> length p"
    and "open": "npq_open (Some (lk_receiver l)) (Some f) (of_nat (length f)) (Some p) (Some pl) = (st, Some b, Some p', Some n)"
  shows "link_inv a (l\<lparr>lk_receiver := b, lk_got := (if st = NPQ_OK then lk_got l @ [take (unat n) p'] else lk_got l)\<rparr>)"
proof (cases "st = NPQ_OK")
  case False
  with open_imp [OF "open"] inv show ?thesis by (simp add: link_inv_def)
next
  case True
  let ?k = "length (lk_got l)"
  have at: "receiver_at a ?k (lk_receiver l)" and k: "length (lk_sent l) < 2 ^ 32" "?k \<le> length (lk_sent l)"
    and pre: "lk_got l = take ?k (map snd (lk_sent l))"
    using inv by (simp_all add: link_inv_def)
  obtain j where j: "j < length (lk_sent l)" "f = record_at a j (snd (lk_sent l ! j))" "length (snd (lk_sent l ! j)) \<le> 24"
    using f inv unfolding link_inv_def by (auto simp: in_set_conv_nth) (metis fst_conv)
  have lf: "length f < 256" using j(2,3) by (simp add: record_at_def)
  obtain pt where pt: "length pt \<le> 24" "f = awaited_frame (lk_receiver l) pt" "p' = memcpy p 0 pt" "n = of_nat (length pt)"
    using npq_open_accepts_imp [OF "open" [unfolded True] lf] by auto
  have "?k = j \<and> pt = snd (lk_sent l ! j)"
    using record_at_inject [of a ?k pt j "snd (lk_sent l ! j)"] pt(2) j k awaited_at [OF at, of pt] by simp
  then have kj: "?k < length (lk_sent l)" "pt = map snd (lk_sent l) ! ?k" using j(1) by simp_all
  have "unat n = length pt" unfolding pt(4) using pt(1) by (intro unat_of_nat_u8) simp
  then have "take (unat n) p' = pt" using p pt(1,3) by (simp add: memcpy_front)
  moreover have "take (Suc ?k) (map snd (lk_sent l)) = lk_got l @ [pt]"
    using kj pre by (simp add: take_Suc_conv_app_nth)
  ultimately show ?thesis
    using inv True kj(1) after_at(2) [OF at] open_imp [OF "open"] by (simp add: link_inv_def)
qed

lemma link_inv_step: "link_step l l' \<Longrightarrow> link_inv a l \<Longrightarrow> link_inv a l'"
proof (erule link_stepE)
  fix p n o0 ol st b o1 ol'
  assume "link_inv a l" "l' = l\<lparr>lk_receiver := b\<rparr>" "npq_seal (Some (lk_receiver l)) p n o0 ol = (st, Some b, o1, ol')"
  with seal_imp(1) [OF this(3)] after_at(4) show "link_inv a l'" by (auto simp: link_inv_def)
next
  fix f n p pl st s p' pl'
  assume "link_inv a l" "l' = l\<lparr>lk_sender := s\<rparr>" "npq_open (Some (lk_sender l)) f n p pl = (st, Some s, p', pl')"
  with open_imp [OF this(3)] after_at(3) show "link_inv a l'" by (auto simp: link_inv_def)
next
  fix f p pl st b p' n
  assume "link_inv a l" "f \<in> fst ` set (lk_sent l)" "24 \<le> length p"
    "npq_open (Some (lk_receiver l)) (Some f) (of_nat (length f)) (Some p) (Some pl) = (st, Some b, Some p', Some n)"
    "l' = l\<lparr>lk_receiver := b, lk_got := (if st = NPQ_OK then lk_got l @ [take (unat n) p'] else lk_got l)\<rparr>"
  then show "link_inv a l'" by (simp only: link_inv_deliver)
qed (auto intro: link_inv_seal)

lemma link_inv_reachable:
  assumes "link_step\<^sup>*\<^sup>* \<lparr>lk_sender = a, lk_receiver = mirror a, lk_sent = [], lk_got = []\<rparr> l" and "s_send_sequence a = 0"
  shows "link_inv a l"
  using assms(1)
proof (induction rule: rtranclp_induct)
  case base
  show ?case using assms(2) by (simp add: link_inv_def sender_at_def receiver_at_def mirror_def)
qed (rule link_inv_step)

section \<open>Nonces\<close>

lemma make_nonce_eq:
  assumes "length base = 16"
  shows "make_nonce base i = take 12 base @ map2 (XOR) (drop 12 base) (be_bytes 4 i)"
proof -
  obtain b0 b1 b2 b3 b4 b5 b6 b7 b8 b9 ba bb bc bd be bf
    where base: "base = [b0, b1, b2, b3, b4, b5, b6, b7, b8, b9, ba, bb, bc, bd, be, bf]"
    using assms by (auto simp: numeral_eq_Suc length_Suc_conv)
  obtain e0 e1 e2 e3 where e: "be_bytes 4 i = [e0, e1, e2, e3]"
    using length_be_bytes [of 4 i] by (auto simp: numeral_eq_Suc length_Suc_conv simp del: length_be_bytes)
  show ?thesis by (simp add: make_nonce_def Let_def npq_store_be base e upt_rec)
qed

lemma make_nonce_inject:
  assumes "length base = 16" and "make_nonce base i = make_nonce base j"
  shows "i = j"
proof -
  have len: "length (drop 12 base) = length (be_bytes 4 i)" "length (drop 12 base) = length (be_bytes 4 j)"
    using assms(1) by simp_all
  have eq: "map2 (XOR) (drop 12 base) (be_bytes 4 i) = map2 (XOR) (drop 12 base) (be_bytes 4 j)"
    using assms(2) by (simp only: make_nonce_eq [OF assms(1)] same_append_eq)
  from map2_xor_inject [OF len eq] show ?thesis using be_bytes_inject [of 4 i j] by simp
qed

section \<open>Properties\<close>

text \<open>opening. On an established session a frame of fewer than 256 bytes is accepted exactly
  when it is the frame the other end seals at this position for some plaintext of at most 24 bytes;
  then the plaintext is delivered with its length and the chain and the counter move on. Any other
  frame, and any call with a missing argument, leaves the session as it was.\<close>

theorem npq_open_exact:
  assumes "s_established s \<noteq> 0" and "length f < 256"
  shows "(fst (npq_open (Some s) (Some f) (of_nat (length f)) (Some p) (Some pl)) = NPQ_OK \<longleftrightarrow>
      (\<exists>pt. length pt \<le> 24 \<and> f = awaited_frame s pt)) \<and>
    (\<forall>pt. length pt \<le> 24 \<and> f = awaited_frame s pt \<longrightarrow>
      npq_open (Some s) (Some f) (of_nat (length f)) (Some p) (Some pl) =
        (NPQ_OK, Some (after_receive s), Some (memcpy p 0 pt), Some (of_nat (length pt)))) \<and>
    (\<forall>g n q ql. fst (npq_open (Some s) g n q ql) \<noteq> NPQ_OK \<longrightarrow> fst (snd (npq_open (Some s) g n q ql)) = Some s)"
proof -
  let ?o = "npq_open (Some s) (Some f) (of_nat (length f)) (Some p) (Some pl)"
  have acc: "?o = (NPQ_OK, Some (after_receive s), Some (memcpy p 0 pt), Some (of_nat (length pt)))"
    if "length pt \<le> 24" "f = awaited_frame s pt" for pt
    using open_awaited [OF assms(1) that(1), of p pl] that(2) by simp
  have imp: "\<exists>pt. length pt \<le> 24 \<and> f = awaited_frame s pt" if ok: "fst ?o = NPQ_OK"
  proof -
    obtain st s' p' n' where r: "?o = (st, s', p', n')" by (metis prod_cases4)
    then have "?o = (NPQ_OK, s', p', n')" using ok by simp
    from npq_open_accepts_imp [OF this assms(2)] show ?thesis by metis
  qed
  have kept: "fst (snd (npq_open (Some s) g n q ql)) = Some s" if bad: "fst (npq_open (Some s) g n q ql) \<noteq> NPQ_OK" for g n q ql
  proof -
    obtain st s' q' ql' where r: "npq_open (Some s) g n q ql = (st, s', q', ql')" by (metis prod_cases4)
    from open_imp [OF r] bad r show ?thesis by simp
  qed
  have "fst ?o = NPQ_OK" if "\<exists>pt. length pt \<le> 24 \<and> f = awaited_frame s pt"
  proof -
    from that obtain pt where "length pt \<le> 24" "f = awaited_frame s pt" by blast
    from acc [OF this] show ?thesis by simp
  qed
  with acc imp kept show ?thesis by blast
qed

definition sample_session :: npq_session where
  "sample_session = session_zero\<lparr>s_established := 1, s_session_id := 9\<rparr>"

theorem npq_open_exact_witness:
  "npq_open (Some sample_session) (Some (awaited_frame sample_session [1, 2])) 31 (Some (replicate 24 0)) (Some 0) =
     (NPQ_OK, Some (after_receive sample_session), Some (memcpy (replicate 24 0) 0 [1, 2]), Some 2)"
  using npq_open_exact [of sample_session "awaited_frame sample_session [1, 2]" "replicate 24 0" 0,
      THEN conjunct2, THEN conjunct1, rule_format, of "[1, 2]"]
  by (simp add: sample_session_def)

text \<open>C38: a link refines an ordered channel. Start with an established session and its mirror at
  the other end; let the sender seal, let the network deliver any sealed frames in any order and as
  often as it likes, and let the opposite direction run with arbitrary arguments. Then what the
  receiver has accepted is a prefix of what was sealed, and no nonce was used twice.\<close>

theorem npq_link_ordered:
  assumes "link_step\<^sup>*\<^sup>* \<lparr>lk_sender = a, lk_receiver = mirror a, lk_sent = [], lk_got = []\<rparr> l"
    and "s_send_sequence a = 0" and "length (s_send_nonce_base a) = 16"
  shows "(\<exists>rest. map snd (lk_sent l) = lk_got l @ rest) \<and>
    distinct (map (\<lambda>i. make_nonce (s_send_nonce_base a) (of_nat i)) [0..<length (lk_sent l)]) \<and>
    (\<forall>i<length (lk_sent l). fst (lk_sent l ! i) = record_at a i (snd (lk_sent l ! i)))"
proof -
  have inv: "link_inv a l" by (rule link_inv_reachable [OF assms(1,2)])
  have "\<exists>rest. map snd (lk_sent l) = lk_got l @ rest"
    using inv by (metis append_take_drop_id link_inv_def)
  moreover have "inj_on (\<lambda>i. make_nonce (s_send_nonce_base a) (of_nat i)) {0..<length (lk_sent l)}"
  proof (rule inj_onI)
    fix i j assume ij: "i \<in> {0..<length (lk_sent l)}" "j \<in> {0..<length (lk_sent l)}"
      and "make_nonce (s_send_nonce_base a) (of_nat i) = make_nonce (s_send_nonce_base a) (of_nat j)"
    then have "(of_nat i :: u32) = of_nat j" using make_nonce_inject [OF assms(3)] by blast
    then show "i = j" using ij inv by (simp add: link_inv_def word_of_nat_eq_iff take_bit_nat_eq_self)
  qed
  ultimately show ?thesis using inv by (simp add: distinct_map link_inv_def)
qed

theorem npq_link_ordered_witness:
  "\<exists>l. link_step \<lparr>lk_sender = sample_session, lk_receiver = mirror sample_session, lk_sent = [], lk_got = []\<rparr> l \<and>
     map snd (lk_sent l) = [[7]]"
proof -
  let ?start = "\<lparr>lk_sender = sample_session, lk_receiver = mirror sample_session, lk_sent = [], lk_got = []\<rparr>"
  have est: "s_established sample_session \<noteq> 0" "s_send_sequence sample_session \<noteq> - 1" by (simp_all add: sample_session_def session_zero_def)
  note seal = seal_ok [OF est, of "[7]" "replicate 64 0" 0]
  let ?o = "sealed_frame sample_session [7] @ drop 30 (replicate 64 0)"
  let ?l = "?start\<lparr>lk_sender := after_send sample_session, lk_sent := [(take 30 ?o, [7])]\<rparr>"
  have step: "link_step ?start ?l"
    using link_seal [of ?start "[7]" "replicate 64 0" 0 "after_send sample_session" ?o 30] seal by simp
  have "s_send_sequence sample_session = 0" "length (s_send_nonce_base sample_session) = 16"
    by (simp_all add: sample_session_def session_zero_def)
  moreover have "link_step\<^sup>*\<^sup>* ?start ?l" using step by (rule r_into_rtranclp)
  ultimately have "map snd (lk_sent ?l) = [[7]]" using npq_link_ordered [of sample_session ?l] by simp
  with step show ?thesis by (intro exI [of _ ?l] conjI)
qed

end
