(* ===== verification/NpqLms.thy ===== *)
theory NpqLms
  imports NpqHash
begin

text \<open>
  NanoPQ firmware, \<open>lms.c\<close>: the constant-memory LMS verifier (LMS_SHA256_M32_H5 over
  LMOTS_SHA256_N32_W4 or W8), which pulls the signature through a reader in the order of its bytes.
  The reader is a parameter: it returns the bytes asked for, or fails.

  Beside it stands the verification algorithm of RFC 8554 on a complete signature; the theory shows
  that the streamed verifier accepts exactly what the RFC accepts.
\<close>

unbundle bit_operations_syntax

section \<open>Reading and hashing\<close>

datatype npq_lms_result =
    NPQ_LMS_OK
  | NPQ_LMS_BAD_SIGNATURE
  | NPQ_LMS_BAD_LENGTH
  | NPQ_LMS_BAD_PARAMETER
  | NPQ_LMS_IO_ERROR

definition load_u32_be :: "bytes \<Rightarrow> u32" where
  "load_u32_be input =
     push_bit 24 (ucast (input ! 0)) OR push_bit 16 (ucast (input ! 1)) OR push_bit 8 (ucast (input ! 2)) OR ucast (input ! 3)"

definition store_u16_be :: "u16 \<Rightarrow> bytes" where
  "store_u16_be value = [ucast (drop_bit 8 value), ucast value]"

definition store_u32_be :: "u32 \<Rightarrow> bytes" where
  "store_u32_be value =
     [ucast (drop_bit 24 value), ucast (drop_bit 16 value), ucast (drop_bit 8 value), ucast value]"

definition read_part :: "'r read_fn \<Rightarrow> 'r \<Rightarrow> nat \<Rightarrow> nat option \<Rightarrow> bytes option \<times> 'r \<times> nat option" where
  "read_part reader r len bytes_consumed =
     (let (out, r') = reader r len
      in if out = None then (None, r', bytes_consumed) else (out, r', map_option (\<lambda>n. n + len) bytes_consumed))"

definition hash_chain_step :: "bytes \<Rightarrow> bytes \<Rightarrow> u16 \<Rightarrow> u8 \<Rightarrow> bytes \<Rightarrow> bytes" where
  "hash_chain_step identifier encoded_q chain_index iteration input =
     qp_sha256 (take 16 identifier @ take 4 encoded_q @ store_u16_be chain_index @ [iteration] @ take 32 input)"

definition hash_lms_node :: "bytes \<Rightarrow> u32 \<Rightarrow> u16 \<Rightarrow> bytes \<Rightarrow> bytes option \<Rightarrow> bytes" where
  "hash_lms_node identifier node_number domain left right =
     qp_sha256 (take 16 identifier @ store_u32_be node_number @ store_u16_be domain @ take 32 left
       @ (case right of None \<Rightarrow> [] | Some r \<Rightarrow> take 32 r))"

definition coefficient_at :: "bytes \<Rightarrow> bytes \<Rightarrow> nat \<Rightarrow> nat \<Rightarrow> u8" where
  "coefficient_at message_hash checksum index width =
     (let message_coefficients = 256 div width;
          local_index = (if index < message_coefficients then index else index - message_coefficients);
          bytes = (if index < message_coefficients then message_hash else checksum);
          coefficients_per_byte = 8 div width;
          shift = 8 - width - width * (local_index mod coefficients_per_byte)
      in drop_bit shift (bytes ! (local_index div coefficients_per_byte)) AND (push_bit width 1 - 1))"

section \<open>Verification\<close>

definition lms_checksum :: "bytes \<Rightarrow> nat \<Rightarrow> nat \<Rightarrow> u8 \<Rightarrow> u16" where
  "lms_checksum message_hash width checksum_shift chain_limit =
     push_bit checksum_shift
       (fold (\<lambda>i checksum. checksum + ucast chain_limit - ucast (coefficient_at message_hash [0, 0] i width))
          [0..<256 div width] 0)"

text \<open>The chains, one signature value each, hashed into the candidate one-time key.\<close>

fun lms_chains ::
  "'r read_fn \<Rightarrow> bytes \<Rightarrow> bytes \<Rightarrow> bytes \<Rightarrow> bytes \<Rightarrow> nat \<Rightarrow> u8 \<Rightarrow> nat list \<Rightarrow> qp_sha256_ctx \<Rightarrow> 'r \<Rightarrow> nat option
     \<Rightarrow> qp_sha256_ctx option \<times> 'r \<times> nat option" where
  "lms_chains reader identifier encoded_q message_hash checksum_bytes width chain_limit [] hash r consumed =
     (Some hash, r, consumed)"
| "lms_chains reader identifier encoded_q message_hash checksum_bytes width chain_limit (i # is) hash r consumed =
     (case read_part reader r 32 consumed of
        (None, r1, consumed1) \<Rightarrow> (None, r1, consumed1)
      | (Some v, r1, consumed1) \<Rightarrow>
          let coefficient = coefficient_at message_hash checksum_bytes i width;
              chain_value = fold (\<lambda>iteration v. hash_chain_step identifier encoded_q (of_nat i) (of_nat iteration) v)
                              [unat coefficient..<unat chain_limit] v
          in lms_chains reader identifier encoded_q message_hash checksum_bytes width chain_limit is
               (qp_sha256_update hash chain_value) r1 consumed1)"

text \<open>The authentication path.\<close>

fun lms_path ::
  "'r read_fn \<Rightarrow> bytes \<Rightarrow> nat \<Rightarrow> u32 \<Rightarrow> bytes \<Rightarrow> 'r \<Rightarrow> nat option \<Rightarrow> bytes option \<times> 'r \<times> nat option" where
  "lms_path reader identifier 0 node_number chain_value r consumed = (Some chain_value, r, consumed)"
| "lms_path reader identifier (Suc levels) node_number chain_value r consumed =
     (case read_part reader r 32 consumed of
        (None, r1, consumed1) \<Rightarrow> (None, r1, consumed1)
      | (Some sibling, r1, consumed1) \<Rightarrow>
          let node_output = (if node_number AND 1 \<noteq> 0
                then hash_lms_node identifier (node_number div 2) 0x8383 sibling (Some chain_value)
                else hash_lms_node identifier (node_number div 2) 0x8383 chain_value (Some sibling))
          in lms_path reader identifier levels (node_number div 2) node_output r1 consumed1)"

text \<open>The parameters of the one-time signature: width, number of chains, checksum shift, signature
  length.\<close>

definition lms_parameters :: "u32 \<Rightarrow> (nat \<times> nat \<times> nat \<times> nat) option" where
  "lms_parameters ots_type =
     (if ots_type = 3 then Some (4, 67, 4, 2348)
      else if ots_type = 4 then Some (8, 34, 0, 1292) else None)"

text \<open>The tree part: the type field, the leaf, the path and the comparison with the root.\<close>

definition lms_tree ::
  "'r read_fn \<Rightarrow> bytes \<Rightarrow> u32 \<Rightarrow> bytes \<Rightarrow> 'r \<Rightarrow> nat option \<Rightarrow> npq_lms_result \<times> 'r \<times> nat option" where
  "lms_tree reader public_key q candidate_ots_key r consumed =
     (let identifier = drop 8 public_key in
      case read_part reader r 4 consumed of
        (None, r1, consumed1) \<Rightarrow> (NPQ_LMS_BAD_SIGNATURE, r1, consumed1)
      | (Some encoded_type, r1, consumed1) \<Rightarrow>
          if load_u32_be encoded_type \<noteq> 5 then (NPQ_LMS_BAD_SIGNATURE, r1, consumed1)
          else
            let node_number = push_bit 5 1 + q;
                leaf = hash_lms_node identifier node_number 0x8282 candidate_ots_key None
            in case lms_path reader identifier 5 node_number leaf r1 consumed1 of
                 (None, r2, consumed2) \<Rightarrow> (NPQ_LMS_IO_ERROR, r2, consumed2)
               | (Some value, r2, consumed2) \<Rightarrow>
                   (if qp_constant_time_equal value (drop 24 public_key) 32 then NPQ_LMS_OK else NPQ_LMS_BAD_SIGNATURE,
                    r2, consumed2))"

text \<open>The one-time part: message hash, checksum and chains.\<close>

definition lms_ots ::
  "'r read_fn \<Rightarrow> bytes \<Rightarrow> bytes \<Rightarrow> nat \<Rightarrow> nat \<Rightarrow> nat \<Rightarrow> bytes \<Rightarrow> bytes \<Rightarrow> 'r \<Rightarrow> nat option
     \<Rightarrow> bytes option \<times> 'r \<times> nat option" where
  "lms_ots reader public_key message width p checksum_shift encoded_q randomizer r consumed =
     (let identifier = drop 8 public_key;
          chain_limit = push_bit width 1 - 1;
          h0 = qp_sha256_init qp_local;
          h1 = qp_sha256_update h0 (take 16 identifier);
          h2 = qp_sha256_update h1 (take 4 encoded_q);
          h3 = qp_sha256_update h2 [0x81, 0x81];
          h4 = qp_sha256_update h3 (take 32 randomizer);
          h5 = qp_sha256_update h4 message;
          (message_hash, h6) = qp_sha256_final h5;
          checksum_bytes = store_u16_be (lms_checksum message_hash width checksum_shift chain_limit);
          k0 = qp_sha256_init h6;
          k1 = qp_sha256_update k0 (take 16 identifier);
          k2 = qp_sha256_update k1 (take 4 encoded_q);
          k3 = qp_sha256_update k2 [0x80, 0x80]
      in case lms_chains reader identifier encoded_q message_hash checksum_bytes width chain_limit [0..<p] k3 r consumed of
           (None, r1, consumed1) \<Rightarrow> (None, r1, consumed1)
         | (Some k, r1, consumed1) \<Rightarrow> (Some (fst (qp_sha256_final k)), r1, consumed1))"

text \<open>The three header fields of the signature.\<close>

definition lms_header ::
  "'r read_fn \<Rightarrow> 'r \<Rightarrow> nat option \<Rightarrow> (bytes \<times> bytes \<times> bytes) option \<times> 'r \<times> nat option" where
  "lms_header reader r consumed =
     (case read_part reader r 4 consumed of
        (None, r1, n1) \<Rightarrow> (None, r1, n1)
      | (Some encoded_q, r1, n1) \<Rightarrow>
          (case read_part reader r1 4 n1 of
             (None, r2, n2) \<Rightarrow> (None, r2, n2)
           | (Some encoded_type, r2, n2) \<Rightarrow>
               (case read_part reader r2 32 n2 of
                  (None, r3, n3) \<Rightarrow> (None, r3, n3)
                | (Some randomizer, r3, n3) \<Rightarrow> (Some (encoded_q, encoded_type, randomizer), r3, n3))))"

definition npq_lms_sha256_m32_h5_verify_stream ::
  "bytes option \<Rightarrow> bytes option \<Rightarrow> nat \<Rightarrow> nat \<Rightarrow> 'r read_fn option \<Rightarrow> 'r \<Rightarrow> nat option
     \<Rightarrow> npq_lms_result \<times> 'r \<times> nat option" where
  "npq_lms_sha256_m32_h5_verify_stream public_key message message_length signature_length reader r bytes_consumed =
     (let consumed0 = map_option (\<lambda>_. 0) bytes_consumed in
      if public_key = None \<or> (message = None \<and> message_length \<noteq> 0) \<or> reader = None
      then (NPQ_LMS_BAD_PARAMETER, r, consumed0)
      else
        let pk = the public_key; rd = the reader;
            msg = (case message of None \<Rightarrow> [] | Some m \<Rightarrow> take message_length m);
            ots_type = load_u32_be (slice pk 4 4)
        in case lms_parameters ots_type of
             None \<Rightarrow> (NPQ_LMS_BAD_PARAMETER, r, consumed0)
           | Some (width, p, checksum_shift, expected_signature_length) \<Rightarrow>
               if signature_length \<noteq> expected_signature_length then (NPQ_LMS_BAD_LENGTH, r, consumed0)
               else if load_u32_be (take 4 pk) \<noteq> 5 then (NPQ_LMS_BAD_PARAMETER, r, consumed0)
               else
                 case lms_header rd r consumed0 of
                   (None, r1, n1) \<Rightarrow> (NPQ_LMS_IO_ERROR, r1, n1)
                 | (Some (encoded_q, encoded_type, randomizer), r1, n1) \<Rightarrow>
                     let q = load_u32_be encoded_q
                     in if q \<ge> push_bit 5 1 \<or> load_u32_be encoded_type \<noteq> ots_type then (NPQ_LMS_BAD_SIGNATURE, r1, n1)
                        else
                          case lms_ots rd pk msg width p checksum_shift encoded_q randomizer r1 n1 of
                            (None, r2, n2) \<Rightarrow> (NPQ_LMS_IO_ERROR, r2, n2)
                          | (Some candidate_ots_key, r2, n2) \<Rightarrow> lms_tree rd pk q candidate_ots_key r2 n2)"

section \<open>RFC 8554\<close>

text \<open>The algorithms of sections 3.1.3, 4.4, 4.6 and 5.4.2 on byte strings.\<close>

definition rfc_coef :: "bytes \<Rightarrow> nat \<Rightarrow> nat \<Rightarrow> nat" where
  "rfc_coef S i w = unat (S ! (i * w div 8)) div 2 ^ (8 - (w * (i mod (8 div w)) + w)) mod 2 ^ w"

definition rfc_cksm :: "nat \<Rightarrow> nat \<Rightarrow> bytes \<Rightarrow> bytes" where
  "rfc_cksm w ls Q = be_bytes 2 (of_nat ((\<Sum>i<256 div w. 2 ^ w - 1 - rfc_coef Q i w) * 2 ^ ls) :: u16)"

definition rfc_chain :: "bytes \<Rightarrow> bytes \<Rightarrow> nat \<Rightarrow> nat \<Rightarrow> nat \<Rightarrow> bytes \<Rightarrow> bytes" where
  "rfc_chain I q i a w y =
     fold (\<lambda>j tmp. spec_sha256 (I @ q @ be_bytes 2 (of_nat i :: u16) @ [of_nat j] @ tmp)) [a..<2 ^ w - 1] y"

definition rfc_ots_candidate :: "nat \<Rightarrow> nat \<Rightarrow> nat \<Rightarrow> bytes \<Rightarrow> bytes \<Rightarrow> bytes \<Rightarrow> bytes \<Rightarrow> bytes list \<Rightarrow> bytes" where
  "rfc_ots_candidate w p ls I q C message y =
     (let Q = spec_sha256 (I @ q @ [0x81, 0x81] @ C @ message);
          S = Q @ rfc_cksm w ls Q
      in spec_sha256 (I @ q @ [0x80, 0x80] @ concat (map (\<lambda>i. rfc_chain I q i (rfc_coef S i w) w (y ! i)) [0..<p])))"

fun rfc_tree_root :: "bytes \<Rightarrow> nat \<Rightarrow> bytes \<Rightarrow> bytes list \<Rightarrow> bytes" where
  "rfc_tree_root I node tmp [] = tmp"
| "rfc_tree_root I node tmp (s # path) =
     rfc_tree_root I (node div 2)
       (spec_sha256 (I @ be_bytes 4 (of_nat (node div 2) :: u32) @ [0x83, 0x83] @ (if odd node then s @ tmp else tmp @ s))) path"

text \<open>The fields of a signature, in the order of the wire.\<close>

definition sig_values :: "nat \<Rightarrow> nat \<Rightarrow> bytes \<Rightarrow> bytes list" where
  "sig_values off n sig = map (\<lambda>i. slice sig (off + 32 * i) 32) [0..<n]"

definition rfc_lms_verify :: "bytes \<Rightarrow> bytes \<Rightarrow> bytes \<Rightarrow> bool" where
  "rfc_lms_verify pk message sig =
     (case lms_parameters (be_word (slice pk 4 4)) of
        None \<Rightarrow> False
      | Some (w, p, ls, len) \<Rightarrow>
          let I = slice pk 8 16; q = slice sig 0 4;
              Kc = rfc_ots_candidate w p ls I q (slice sig 8 32) message (sig_values 40 p sig);
              node = 32 + unat (be_word q :: u32);
              leaf = spec_sha256 (I @ be_bytes 4 (of_nat node :: u32) @ [0x82, 0x82] @ Kc)
          in (be_word (take 4 pk) :: u32) = 5 \<and> length sig = len \<and> unat (be_word q :: u32) < 32 \<and>
             slice sig 4 4 = slice pk 4 4 \<and> (be_word (slice sig (40 + 32 * p) 4) :: u32) = 5 \<and>
             rfc_tree_root I node leaf (sig_values (44 + 32 * p) 5 sig) = slice pk 24 32)"

section \<open>Coefficients and checksum\<close>

lemma qp_sha256_spec: "length m < 2 ^ 32 \<Longrightarrow> qp_sha256 m = spec_sha256 m"
  using qp.final_update1 [of m] spec_sha256_32_eq [of m] by (simp add: qp_sha256_def)

lemma load_u32_be_eq: "length bs = 4 \<Longrightarrow> load_u32_be bs = be_word bs"
  by (simp add: load_u32_be_def Common.load32_be [symmetric] c0pq_load32_be_def)

lemma store_u16_be_eq: "store_u16_be v = be_bytes 2 v"
  by (simp add: store_u16_be_def Common.store16_be [symmetric] c0pq_store16_be_def)

lemma store_u32_be_eq: "store_u32_be v = be_bytes 4 v"
  by (simp add: store_u32_be_def Common.store32_be [symmetric] c0pq_store32_be_def)

lemma unat_field: "w \<le> 8 \<Longrightarrow> unat (drop_bit k (x :: u8) AND (push_bit w 1 - 1)) = unat x div 2 ^ k mod 2 ^ w"
proof -
  assume "w \<le> 8"
  have "push_bit w 1 - 1 = (mask w :: u8)" by (simp add: mask_eq_exp_minus_1 push_bit_eq_mult)
  then have "drop_bit k x AND (push_bit w 1 - 1) = take_bit w (drop_bit k x)" by (simp add: take_bit_eq_mask)
  moreover have "unat (take_bit w (drop_bit k x)) = take_bit w (drop_bit k (unat x))"
    by (simp add: unsigned_take_bit_eq unsigned_drop_bit_eq \<open>w \<le> 8\<close> take_bit_nat_eq_self unat_u8_less)
  ultimately show ?thesis by (simp only: take_bit_eq_mod [where ?'a = nat] drop_bit_eq_div [where ?'a = nat])
qed

text \<open>The two parameter sets.\<close>

definition ots_params :: "nat \<Rightarrow> nat \<Rightarrow> nat \<Rightarrow> nat \<Rightarrow> bool" where
  "ots_params w p ls len \<longleftrightarrow> (w, p, ls, len) = (4, 67, 4, 2348) \<or> (w, p, ls, len) = (8, 34, 0, 1292)"

lemma lms_parameters_SomeD: "lms_parameters t = Some (w, p, ls, len) \<Longrightarrow> ots_params w p ls len"
  by (auto simp: lms_parameters_def ots_params_def split: if_split_asm)

lemma ots_params_length: "ots_params w p ls len \<Longrightarrow> len = 204 + 32 * p"
  by (auto simp: ots_params_def)

lemma coefficient_at_coef:
  assumes par: "ots_params w p ls len" and "i < p" and Q: "length Q = 32" and ck: "length ck = 2"
  shows "unat (coefficient_at Q ck i w) = rfc_coef (Q @ ck) i w"
  using par
proof (unfold ots_params_def, elim disjE)
  assume wp: "(w, p, ls, len) = (8, 34, 0, 1292)"
  then have w: "w = 8" by simp
  show ?thesis
    unfolding coefficient_at_def Let_def unat_field [of w, unfolded w, OF order_refl] w
    using Q by (auto simp: rfc_coef_def nth_append unat_u8_less)
next
  assume wp: "(w, p, ls, len) = (4, 67, 4, 2348)"
  then have w: "w = 4" by simp
  have m: "(i - 64) mod 2 = i mod 2" and d: "i div 2 - 32 = (i - 64) div 2" if "64 \<le> i"
  proof -
    from that obtain j where i: "i = j + 64" by (metis add.commute le_Suc_ex)
    show "(i - 64) mod 2 = i mod 2" using mod_mult_self2 [of j 2 32] by (simp add: i)
    show "i div 2 - 32 = (i - 64) div 2" using div_mult_self2 [of 2 j 32] by (simp add: i)
  qed
  have "i * 4 div (2 * 4) = i div 2" by (rule div_mult_mult2) simp
  then have "i * 4 div 8 = i div 2" by simp
  moreover have "i div 2 < 32 \<longleftrightarrow> i < 64" by (simp add: div_less_iff_less_mult)
  ultimately show ?thesis
    using Q unfolding coefficient_at_def Let_def w
    by (simp add: rfc_coef_def nth_append unat_field [of 4, simplified] m d)
qed

lemma rfc_coef_bound: "rfc_coef S i w \<le> 2 ^ w - 1"
proof -
  have "rfc_coef S i w < 2 ^ w" by (simp add: rfc_coef_def)
  then show ?thesis by linarith
qed

lemma unat_chain_limit: "ots_params w p ls len \<Longrightarrow> unat (push_bit w 1 - 1 :: u8) = 2 ^ w - 1"
  by (auto simp: ots_params_def)

lemma ucast_diff: "b \<le> a \<Longrightarrow> a < 256 \<Longrightarrow> s + (of_nat a :: u16) - of_nat b = s + of_nat (a - b)"
  by (simp add: of_nat_diff)

lemma lms_checksum_spec:
  assumes par: "ots_params w p ls len" and Q: "length Q = 32"
  shows "store_u16_be (lms_checksum Q w ls (push_bit w 1 - 1)) = rfc_cksm w ls Q"
proof -
  define L where "L = (push_bit w 1 - 1 :: u8)"
  let ?c = "\<lambda>i. coefficient_at Q [0, 0] i w"
  have p: "256 div w \<le> p" "\<And>i. i < 256 div w \<Longrightarrow> i * w div 8 < 32" using par by (auto simp: ots_params_def)
  have lim: "ucast L = (of_nat (2 ^ w - 1) :: u16)"
    using unat_chain_limit [OF par, folded L_def] by (metis of_nat_unat)
  have coef: "unat (?c i) = rfc_coef Q i w" if "i < 256 div w" for i
    using coefficient_at_coef [OF par _ Q, of i "[0, 0]"] that p Q by (simp add: rfc_coef_def nth_append)
  have "fold (\<lambda>i checksum. checksum + ucast L - ucast (?c i)) [0..<n] 0 = (of_nat (\<Sum>i<n. 2 ^ w - 1 - rfc_coef Q i w) :: u16)"
    if "n \<le> 256 div w" for n
    using that
  proof (induction n)
    case (Suc n)
    have "ucast (?c n) = (of_nat (rfc_coef Q n w) :: u16)" using coef [of n] Suc.prems by (metis Suc_le_lessD of_nat_unat)
    moreover have "(of_nat (2 ^ w - 1 - rfc_coef Q n w) :: u16) = of_nat (2 ^ w - 1) - of_nat (rfc_coef Q n w)"
      using rfc_coef_bound [of Q n w] by (rule of_nat_diff)
    ultimately show ?case using Suc by (simp add: lim del: One_nat_def)
  qed simp
  then show ?thesis unfolding lms_checksum_def L_def [symmetric] by (simp add: rfc_cksm_def store_u16_be_eq push_bit_eq_mult)
qed

lemma rfc_cksm_length [simp]: "length (rfc_cksm w ls Q) = 2"
  by (simp add: rfc_cksm_def)

section \<open>Chains and path\<close>

lemma hash_chain_step_spec:
  "length I = 16 \<Longrightarrow> length q = 4 \<Longrightarrow> length v = 32 \<Longrightarrow>
     hash_chain_step (I @ rest) q i j v = spec_sha256 (I @ q @ be_bytes 2 i @ [j] @ v)"
  by (simp add: hash_chain_step_def store_u16_be_eq qp_sha256_spec)

lemma length_chain: "length y = 32 \<Longrightarrow> length (rfc_chain I q i a w y) = 32"
  unfolding rfc_chain_def by (rule fold_invariant_set [where P = "\<lambda>t. length t = 32"]) (simp_all add: length_spec_sha256)

lemma length_tree_root: "length v = 32 \<Longrightarrow> length (rfc_tree_root I n v path) = 32"
  by (induction I n v path rule: rfc_tree_root.induct) (simp_all add: length_spec_sha256)

lemma chain_fold:
  assumes "length I = 16" and "length q = 4"
  shows "length y = 32 \<Longrightarrow> fold (\<lambda>it v. hash_chain_step (I @ rest) q i (of_nat it) v) js y
    = fold (\<lambda>j tmp. spec_sha256 (I @ q @ be_bytes 2 i @ [of_nat j] @ tmp)) js y"
proof (induction js arbitrary: y)
  case (Cons j js)
  then show ?case using assms by (simp add: hash_chain_step_spec length_spec_sha256)
qed simp

lemma hash_lms_node_spec:
  assumes "length I = 16" and "length l = 32"
  shows "hash_lms_node (I @ rest) n d l None = spec_sha256 (I @ be_bytes 4 n @ be_bytes 2 d @ l)"
    and "length r = 32 \<Longrightarrow> hash_lms_node (I @ rest) n d l (Some r) = spec_sha256 (I @ be_bytes 4 n @ be_bytes 2 d @ l @ r)"
  using assms by (simp_all add: hash_lms_node_def store_u16_be_eq store_u32_be_eq qp_sha256_spec)

lemma be_bytes_domains: "be_bytes 2 (0x8282 :: u16) = [0x82, 0x82]" "be_bytes 2 (0x8383 :: u16) = [0x83, 0x83]"
  by (simp_all add: be_bytes_def le_bytes_def upt_rec drop_bit_eq_div)

lemma odd_and_1: "(n AND 1 \<noteq> (0 :: u32)) \<longleftrightarrow> odd (unat n)"
proof -
  have "odd (unat n) \<longleftrightarrow> bit (unat n) 0" by (simp add: bit_0)
  also have "\<dots> \<longleftrightarrow> bit n 0" by (simp only: bit_unsigned_iff) auto
  also have "\<dots> \<longleftrightarrow> odd n" by (simp add: bit_0)
  finally show ?thesis by (simp add: and_one_eq mod_2_eq_odd)
qed

section \<open>Streaming\<close>

lemma drop_slice: "drop off xs = slice xs off n @ drop (off + n) xs"
  by (simp add: slice_def) (metis append_take_drop_id drop_drop add.commute)

text \<open>The verifier over any source that honours the contract of \<open>byte_source\<close>.\<close>

context byte_source
begin

lemma read_part_available:
  assumes "0 < n" and "n < 65536" and "n \<le> length (pending_bytes r)"
  shows "\<exists>r'. read_part source_read r n c = (Some (take n (pending_bytes r)), r', map_option (\<lambda>k. k + n) c)
    \<and> pending_bytes r' = drop n (pending_bytes r)"
  using read_available [OF assms] by (cases "source_read r n") (simp add: read_part_def)

lemma read_part_exhausted:
  assumes "length (pending_bytes r) < n"
  shows "\<exists>r'. read_part source_read r n c = (None, r', c)"
  using read_exhausted [OF assms] by (cases "source_read r n") (simp add: read_part_def)

lemma values_Cons:
  "map (\<lambda>j. slice bs (off + 32 * j) 32) [0..<Suc n] = slice bs off 32 # map (\<lambda>j. slice (drop 32 bs) (off + 32 * j) 32) [0..<n]"
proof -
  have "map (\<lambda>j. slice bs (off + 32 * j) 32) [0..<Suc n] = map (\<lambda>j. slice bs (off + 32 * j) 32) (0 # map Suc [0..<n])"
    by (simp only: upt_conv_Cons [OF zero_less_Suc] map_Suc_upt)
  then show ?thesis by (simp add: slice_def ac_simps)
qed

lemma lms_chains_available:
  assumes par: "ots_params w p ls len" and I: "length I = 16" and q: "length q = 4"
    and Q: "length Q = 32" and ck: "length ck = 2"
  shows "32 * length is \<le> length (pending_bytes r) \<Longrightarrow> (\<forall>i\<in>set is. i < p) \<Longrightarrow> qp_represents h m \<Longrightarrow>
    \<exists>h' r'. lms_chains source_read (I @ rest) q Q ck w (push_bit w 1 - 1) is h r c =
        (Some h', r', map_option (\<lambda>k. k + 32 * length is) c) \<and>
      pending_bytes r' = drop (32 * length is) (pending_bytes r) \<and>
      qp_represents h' (m @ concat (map2 (\<lambda>i y. rfc_chain I q i (rfc_coef (Q @ ck) i w) w y) is
         (map (\<lambda>j. slice (pending_bytes r) (32 * j) 32) [0..<length is])))"
proof (induction "is" arbitrary: r h m c)
  case Nil
  then show ?case by (simp add: option.map_ident)
next
  case (Cons i "is")
  let ?y = "take 32 (pending_bytes r)" and ?a = "rfc_coef (Q @ ck) i w"
  obtain r1 where r1: "read_part source_read r 32 c = (Some ?y, r1, map_option (\<lambda>k. k + 32) c)"
    "pending_bytes r1 = drop 32 (pending_bytes r)"
    using read_part_available [of 32 r c] Cons.prems(1) by auto
  have ly: "length ?y = 32" using Cons.prems(1) by simp
  let ?z = "rfc_chain I q i ?a w ?y"
  have "fold (\<lambda>it v. hash_chain_step (I @ rest) q (of_nat i) (of_nat it) v)
      [unat (coefficient_at Q ck i w)..<unat (push_bit w 1 - 1 :: u8)] ?y = ?z"
    unfolding chain_fold [OF I q ly] rfc_chain_def unat_chain_limit [OF par]
    using coefficient_at_coef [OF par _ Q ck, of i] Cons.prems(2) by simp
  moreover have rep: "qp_represents (qp_sha256_update h ?z) (m @ ?z)" by (rule qp_represents_update [OF Cons.prems(3)])
  moreover have av: "32 * length is \<le> length (pending_bytes r1)" "\<forall>i\<in>set is. i < p" using Cons.prems(1,2) r1(2) by auto
  moreover obtain h' r' where "lms_chains source_read (I @ rest) q Q ck w (push_bit w 1 - 1) is (qp_sha256_update h ?z) r1 (map_option (\<lambda>k. k + 32) c)
      = (Some h', r', map_option (\<lambda>k. k + 32 * length is) (map_option (\<lambda>k. k + 32) c))"
    "pending_bytes r' = drop (32 * length is) (pending_bytes r1)"
    "qp_represents h' ((m @ ?z) @ concat (map2 (\<lambda>i y. rfc_chain I q i (rfc_coef (Q @ ck) i w) w y) is
         (map (\<lambda>j. slice (pending_bytes r1) (32 * j) 32) [0..<length is])))"
    using Cons.IH [OF av rep, of "map_option (\<lambda>k. k + 32) c"] by blast
  ultimately show ?case
    using r1 values_Cons [of "pending_bytes r" 0 "length is"]
    by (simp add: option.map_comp comp_def add.assoc add.commute slice_def del: upt_Suc)
qed

lemma lms_chains_exhausted:
  "length (pending_bytes r) < 32 * length is \<Longrightarrow>
     fst (lms_chains source_read I q Q ck w lim is h r c) = None"
proof (induction "is" arbitrary: r h c)
  case (Cons i "is")
  show ?case
  proof (cases "32 \<le> length (pending_bytes r)")
    case True
    then obtain r1 where "read_part source_read r 32 c = (Some (take 32 (pending_bytes r)), r1, map_option (\<lambda>k. k + 32) c)"
      "pending_bytes r1 = drop 32 (pending_bytes r)"
      using read_part_available [of 32 r c] by auto
    with Cons True show ?thesis by (simp add: Let_def)
  next
    case False
    then obtain r1 where "read_part source_read r 32 c = (None, r1, c)" using read_part_exhausted [of r 32 c] by auto
    then show ?thesis by simp
  qed
qed simp

lemma lms_path_available:
  assumes I: "length I = 16"
  shows "32 * n \<le> length (pending_bytes r) \<Longrightarrow> length v = 32 \<Longrightarrow>
    \<exists>r'. lms_path source_read (I @ rest) n node v r c =
        (Some (rfc_tree_root I (unat node) v (map (\<lambda>j. slice (pending_bytes r) (32 * j) 32) [0..<n])),
         r', map_option (\<lambda>k. k + 32 * n) c) \<and> pending_bytes r' = drop (32 * n) (pending_bytes r)"
proof (induction n arbitrary: node v r c)
  case 0
  then show ?case by (simp add: option.map_ident)
next
  case (Suc n)
  let ?s = "take 32 (pending_bytes r)"
  obtain r1 where r1: "read_part source_read r 32 c = (Some ?s, r1, map_option (\<lambda>k. k + 32) c)"
    "pending_bytes r1 = drop 32 (pending_bytes r)"
    using read_part_available [of 32 r c] Suc.prems(1) by auto
  have ls: "length ?s = 32" using Suc.prems(1) by simp
  let ?x = "spec_sha256 (I @ be_bytes 4 (node div 2) @ [0x83, 0x83] @ (if odd (unat node) then ?s @ v else v @ ?s))"
  have out: "(if node AND 1 \<noteq> 0 then hash_lms_node (I @ rest) (node div 2) 0x8383 ?s (Some v)
      else hash_lms_node (I @ rest) (node div 2) 0x8383 v (Some ?s)) = ?x"
    using hash_lms_node_spec(2) [OF I ls Suc.prems(2)] hash_lms_node_spec(2) [OF I Suc.prems(2) ls]
    by (auto simp: odd_and_1 be_bytes_domains)
  have un: "unat (node div 2) = unat node div 2" "(of_nat (unat node div 2) :: u32) = node div 2"
    by (simp add: unat_div) (simp add: word_arith_nat_div)
  have "32 * n \<le> length (pending_bytes r1)" "length ?x = 32" using Suc.prems(1) r1(2) by (simp_all add: length_spec_sha256)
  then obtain r' where "lms_path source_read (I @ rest) n (node div 2) ?x r1 (map_option (\<lambda>k. k + 32) c) =
      (Some (rfc_tree_root I (unat node div 2) ?x (map (\<lambda>j. slice (pending_bytes r1) (32 * j) 32) [0..<n])),
       r', map_option (\<lambda>k. k + 32 * n) (map_option (\<lambda>k. k + 32) c))" "pending_bytes r' = drop (32 * n) (pending_bytes r1)"
    using Suc.IH [of r1 ?x "node div 2" "map_option (\<lambda>k. k + 32) c"] unfolding un(1) by blast
  with r1 out un(2) values_Cons [of "pending_bytes r" 0 n] show ?case
    by (simp add: option.map_comp comp_def add.assoc add.commute slice_def Let_def del: upt_Suc)
qed

lemma lms_path_exhausted:
  "length (pending_bytes r) < 32 * n \<Longrightarrow> fst (lms_path source_read I n node v r c) = None"
proof (induction n arbitrary: node v r c)
  case (Suc n)
  show ?case
  proof (cases "32 \<le> length (pending_bytes r)")
    case True
    then obtain r1 where "read_part source_read r 32 c = (Some (take 32 (pending_bytes r)), r1, map_option (\<lambda>k. k + 32) c)"
      "pending_bytes r1 = drop 32 (pending_bytes r)"
      using read_part_available [of 32 r c] by auto
    with Suc True show ?thesis by (simp add: Let_def)
  next
    case False
    then obtain r1 where "read_part source_read r 32 c = (None, r1, c)" using read_part_exhausted [of r 32 c] by auto
    then show ?thesis by simp
  qed
qed simp

lemma lms_header_available:
  assumes "40 \<le> length (pending_bytes r)"
  shows "\<exists>r'. lms_header source_read r c = (Some (take 4 (pending_bytes r), slice (pending_bytes r) 4 4, slice (pending_bytes r) 8 32), r',
      map_option (\<lambda>k. k + 40) c) \<and> pending_bytes r' = drop 40 (pending_bytes r)"
proof -
  let ?c1 = "map_option (\<lambda>k. k + 4) c" and ?c2 = "map_option (\<lambda>k. k + 4) (map_option (\<lambda>k. k + 4) c)"
  have n: "0 < (4 :: nat)" "(4 :: nat) < 65536" "0 < (32 :: nat)" "(32 :: nat) < 65536" by simp_all
  have "4 \<le> length (pending_bytes r)" using assms by simp
  from read_part_available [OF n(1,2) this] obtain r1 where r1: "read_part source_read r 4 c = (Some (take 4 (pending_bytes r)), r1, ?c1)"
    "pending_bytes r1 = drop 4 (pending_bytes r)" by blast
  have "4 \<le> length (pending_bytes r1)" using assms r1(2) by simp
  from read_part_available [OF n(1,2) this] obtain r2 where r2: "read_part source_read r1 4 ?c1 = (Some (take 4 (pending_bytes r1)), r2, ?c2)"
    "pending_bytes r2 = drop 4 (pending_bytes r1)" by blast
  have "32 \<le> length (pending_bytes r2)" using assms r1(2) r2(2) by simp
  from read_part_available [OF n(3,4) this] obtain r3 where r3: "read_part source_read r2 32 ?c2 = (Some (take 32 (pending_bytes r2)), r3,
      map_option (\<lambda>k. k + 32) ?c2)" "pending_bytes r3 = drop 32 (pending_bytes r2)" by blast
  show ?thesis
    unfolding lms_header_def r1(1) prod.case option.case r2(1) r3(1)
    using r1(2) r2(2) r3(2) by (simp add: slice_def option.map_comp comp_def add.assoc)
qed

lemma lms_header_exhausted:
  assumes "length (pending_bytes r) < 40"
  shows "fst (lms_header source_read r c) = None"
proof -
  have step: "fst (read_part source_read r n c) = None \<or>
      (n \<le> length (pending_bytes r) \<and> pending_bytes (fst (snd (read_part source_read r n c))) = drop n (pending_bytes r))"
    if "0 < n" "n < 65536" for r n c
    using read_part_available [of n r c] read_part_exhausted [of r n c] that by (cases "n \<le> length (pending_bytes r)") auto
  obtain o1 r1 c1 where 1: "read_part source_read r 4 c = (o1, r1, c1)" by (metis prod_cases3)
  obtain o2 r2 c2 where 2: "read_part source_read r1 4 c1 = (o2, r2, c2)" by (metis prod_cases3)
  obtain o3 r3 c3 where 3: "read_part source_read r2 32 c2 = (o3, r3, c3)" by (metis prod_cases3)
  have "o1 = None \<or> o2 = None \<or> o3 = None"
    using step [of 4 r c] step [of 4 r1 c1] step [of 32 r2 c2] 1 2 3 assms by auto
  then show ?thesis by (auto simp: lms_header_def 1 2 3 split: option.split)
qed

lemma lms_ots_available:
  assumes par: "ots_params w p ls len" and pk: "length pk = 56" and q: "length q = 4" and C: "length C = 32"
    and av: "32 * p \<le> length (pending_bytes r)" and m: "length message < 2 ^ 32 - 54"
  shows "\<exists>r'. lms_ots source_read pk message w p ls q C r c = (Some (rfc_ots_candidate w p ls (slice pk 8 16) q C message
      (map (\<lambda>j. slice (pending_bytes r) (32 * j) 32) [0..<p])), r', map_option (\<lambda>k. k + 32 * p) c) \<and>
    pending_bytes r' = drop (32 * p) (pending_bytes r)"
proof -
  let ?I = "slice pk 8 16" and ?ys = "map (\<lambda>j. slice (pending_bytes r) (32 * j) 32) [0..<p]"
  have id: "drop 8 pk = ?I @ drop 24 pk" using drop_slice [of 8 pk 16] by simp
  have I: "length ?I = 16" using pk by simp
  let ?h = "fold (\<lambda>x d. qp_sha256_update d x) [?I, q, [0x81, 0x81], C, message] (qp_sha256_init qp_local)"
  define Q where "Q = spec_sha256 (?I @ q @ [0x81, 0x81] @ C @ message)"
  have rep: "qp_represents ?h (?I @ q @ [0x81, 0x81] @ C @ message)"
    using qp.represents_updates [OF qp.represents_init, of "[?I, q, [0x81, 0x81], C, message]"] by simp
  have lm: "length (?I @ q @ [0x81, 0x81] @ C @ message) < 2 ^ 32" using I q C m by simp
  have Qh: "fst (qp_sha256_final ?h) = Q" using qp_final_spec(1) [OF rep] spec_sha256_32_eq [OF lm] by (simp add: Q_def)
  have LQ: "length Q = 32" by (simp add: Q_def length_spec_sha256)
  define ck where "ck = rfc_cksm w ls Q"
  have ck: "length ck = 2" by (simp add: ck_def)
  let ?k = "fold (\<lambda>x d. qp_sha256_update d x) [?I, q, [0x80, 0x80]] (qp_sha256_init (snd (qp_sha256_final ?h)))"
  have rk: "qp_represents ?k (?I @ q @ [0x80, 0x80])"
    using qp.represents_updates [OF qp_represents_init [OF qp_final_spec(3) [OF rep]], of "[?I, q, [0x80, 0x80]]"] by simp
  have up: "\<forall>i\<in>set [0..<p]. i < p" by simp
  obtain h' r' where ch: "lms_chains source_read (?I @ drop 24 pk) q Q ck w (push_bit w 1 - 1) [0..<p] ?k r c =
        (Some h', r', map_option (\<lambda>k. k + 32 * p) c)" "pending_bytes r' = drop (32 * p) (pending_bytes r)"
      "qp_represents h' ((?I @ q @ [0x80, 0x80]) @ concat (map2 (\<lambda>i y. rfc_chain ?I q i (rfc_coef (Q @ ck) i w) w y) [0..<p] ?ys))"
    using lms_chains_available [OF par I q LQ ck _ up rk, of r "drop 24 pk" c] av by (simp only: length_upt minus_nat.diff_0) blast
  let ?z = "map (\<lambda>i. rfc_chain ?I q i (rfc_coef (Q @ ck) i w) w (?ys ! i)) [0..<p]"
  have z: "map2 (\<lambda>i y. rfc_chain ?I q i (rfc_coef (Q @ ck) i w) w y) [0..<p] ?ys = ?z"
    by (rule nth_equalityI) simp_all
  have "map length ?z = replicate p 32"
  proof (rule nth_equalityI)
    fix i assume "i < length (map length ?z)"
    then have i: "i < p" by simp
    have "length (?ys ! i) = 32" using i av by simp
    then have "length (rfc_chain ?I q i (rfc_coef (Q @ ck) i w) w (?ys ! i)) = 32" by (rule length_chain)
    then show "map length ?z ! i = replicate p 32 ! i" using i by simp
  qed simp
  then have "length (concat ?z) = 32 * p" by (simp only: length_concat sum_list_replicate mult.commute of_nat_id)
  then have "length ((?I @ q @ [0x80, 0x80]) @ concat ?z) < 2 ^ 32" using I q par by (auto simp: ots_params_def)
  from trans [OF qp_final_spec(1) [OF ch(3) [unfolded z]] spec_sha256_32_eq [OF this]]
  have "fst (qp_sha256_final h') = rfc_ots_candidate w p ls ?I q C message ?ys"
    unfolding rfc_ots_candidate_def Let_def Q_def [symmetric] ck_def [symmetric] by (simp only: append_assoc)
  moreover have "lms_ots source_read pk message w p ls q C r c = (Some (fst (qp_sha256_final h')), r', map_option (\<lambda>k. k + 32 * p) c)"
    using ch(1) Qh lms_checksum_spec [OF par LQ] q C I
    by (simp add: lms_ots_def Let_def case_prod_unfold id ck_def [symmetric])
  ultimately show ?thesis using ch(2) by simp
qed

text \<open>The tree part accepts exactly when the type is 5 and the path leads to the root.\<close>

lemma lms_tree_available:
  assumes pk: "length pk = 56" and av: "164 \<le> length (pending_bytes r)" and K: "length K = 32" and q: "unat q < 32"
  defines "B \<equiv> pending_bytes r" and "I \<equiv> Prelude.slice pk 8 16"
  defines "good \<equiv> (be_word (take 4 B) :: u32) = 5 \<and>
      rfc_tree_root I (32 + unat q) (spec_sha256 (I @ be_bytes 4 (of_nat (32 + unat q) :: u32) @ [0x82, 0x82] @ K))
        (map (\<lambda>j. Prelude.slice B (4 + 32 * j) 32) [0..<5]) = Prelude.slice pk 24 32"
  shows "\<exists>r' c'. lms_tree source_read pk q K r c = (if good then NPQ_LMS_OK else NPQ_LMS_BAD_SIGNATURE, r', c') \<and>
    (good \<longrightarrow> c' = map_option (\<lambda>k. k + 164) c \<and> pending_bytes r' = drop 164 B)"
proof -
  have id: "drop 8 pk = I @ drop 24 pk" using drop_slice [of 8 pk 16] by (simp add: I_def)
  have I: "length I = 16" using pk by (simp add: I_def)
  have n: "0 < (4 :: nat)" "(4 :: nat) < 65536" "4 \<le> length (pending_bytes r)" using av by simp_all
  from read_part_available [OF n] obtain r1 where r1:
    "read_part source_read r 4 c = (Some (take 4 B), r1, map_option (\<lambda>k. k + 4) c)" "pending_bytes r1 = drop 4 B"
    unfolding B_def by blast
  have t4: "load_u32_be (take 4 B) = be_word (take 4 B)" using n by (simp add: load_u32_be_eq B_def)
  let ?node = "push_bit 5 1 + q" and ?leaf = "spec_sha256 (I @ be_bytes 4 (of_nat (32 + unat q) :: u32) @ [0x82, 0x82] @ K)"
  have node: "unat ?node = 32 + unat q" "(of_nat (32 + unat q) :: u32) = ?node"
    using q by (simp_all add: unat_word_ariths)
  have leaf: "hash_lms_node (I @ drop 24 pk) ?node 0x8282 K None = ?leaf"
    using hash_lms_node_spec(1) [OF I K] by (simp add: be_bytes_domains node(2))
  have ll: "length ?leaf = 32" by (simp add: length_spec_sha256)
  have "32 * 5 \<le> length (pending_bytes r1)" using av r1(2) by (simp add: B_def)
  from lms_path_available [OF I this ll, of "drop 24 pk" ?node "map_option (\<lambda>k. k + 4) c"] obtain r2 where r2:
    "lms_path source_read (I @ drop 24 pk) 5 ?node ?leaf r1 (map_option (\<lambda>k. k + 4) c) =
       (Some (rfc_tree_root I (unat ?node) ?leaf (map (\<lambda>j. slice (drop 4 B) (32 * j) 32) [0..<5])), r2,
        map_option (\<lambda>k. k + 32 * 5) (map_option (\<lambda>k. k + 4) c))"
    "pending_bytes r2 = drop (32 * 5) (drop 4 B)" unfolding r1(2) by blast
  define root where "root = rfc_tree_root I (32 + unat q) ?leaf (map (\<lambda>j. slice B (4 + 32 * j) 32) [0..<5])"
  have lr: "length root = 32" unfolding root_def using ll by (rule length_tree_root)
  have cmp: "qp_constant_time_equal root (drop 24 pk) 32 \<longleftrightarrow> root = slice pk 24 32"
    using qp_constant_time_equal_iff [of 32 root "drop 24 pk"] lr pk by (simp add: slice_def)
  have g: "good \<longleftrightarrow> be_word (take 4 B) = (5 :: u32) \<and> root = slice pk 24 32"
    by (simp add: good_def root_def)
  show ?thesis
  proof (cases "be_word (take 4 B) = (5 :: u32)")
    case False
    then show ?thesis by (simp add: lms_tree_def r1(1) t4 g)
  next
    case True
    have "lms_tree source_read pk q K r c = (if good then NPQ_LMS_OK else NPQ_LMS_BAD_SIGNATURE, r2, map_option (\<lambda>k. k + 164) c)"
      unfolding lms_tree_def Let_def r1(1) prod.case option.case t4 id leaf r2(1) slice_drop node(1) root_def [symmetric] cmp
      using True by (simp add: g option.map_comp comp_def add.assoc)
    then show ?thesis using r2(2) by simp
  qed
qed

lemma lms_tree_exhausted:
  assumes "length (pending_bytes r) < 164"
  shows "fst (lms_tree source_read pk q K r c) \<noteq> NPQ_LMS_OK"
proof (cases "4 \<le> length (pending_bytes r)")
  case True
  then obtain r1 where r1: "read_part source_read r 4 c = (Some (take 4 (pending_bytes r)), r1, map_option (\<lambda>k. k + 4) c)"
    "pending_bytes r1 = drop 4 (pending_bytes r)" using read_part_available [of 4 r c] by auto
  have "fst (lms_path source_read i 5 m v r1 c') = None" for i m v c'
    by (rule lms_path_exhausted) (use assms r1(2) in simp)
  then have "\<exists>r2 c2. lms_path source_read i 5 m v r1 c' = (None, r2, c2)" for i m v c'
    by (metis prod.collapse)
  then show ?thesis
    by (auto simp: lms_tree_def r1(1) Let_def split: prod.split option.split) (metis option.distinct(1) prod.inject)
next
  case False
  then obtain r1 where "read_part source_read r 4 c = (None, r1, c)" using read_part_exhausted [of r 4 c] by auto
  then show ?thesis by (simp add: lms_tree_def Let_def)
qed

text \<open>The whole verifier over the bytes of the source.\<close>

lemma lms_verify_available:
  assumes pk: "length pk = 56" and m: "length message < 2 ^ 32 - 54" and par: "lms_parameters (be_word (slice pk 4 4)) = Some (w, p, ls, len)"
    and tree: "(be_word (take 4 pk) :: u32) = 5" and av: "len \<le> length (pending_bytes r)"
  shows "\<exists>res r' c'. npq_lms_sha256_m32_h5_verify_stream (Some pk) (Some message) (length message) len (Some source_read) r c = (res, r', c') \<and>
    res \<in> {NPQ_LMS_OK, NPQ_LMS_BAD_SIGNATURE} \<and>
    (res = NPQ_LMS_OK \<longleftrightarrow> rfc_lms_verify pk message (take len (pending_bytes r))) \<and>
    (res = NPQ_LMS_OK \<longrightarrow> pending_bytes r' = drop len (pending_bytes r) \<and> c' = map_option (\<lambda>_. len) c)"
proof -
  define S where "S = pending_bytes r"
  let ?T = "take len S" and ?I = "slice pk 8 16"
  let ?q = "take 4 S" and ?C = "slice S 8 32" and ?qw = "be_word (take 4 S) :: u32"
  have op: "ots_params w p ls len" using par by (rule lms_parameters_SomeD)
  have len: "len = 204 + 32 * p" using op by (rule ots_params_length)
  let ?Kc = "rfc_ots_candidate w p ls ?I ?q ?C message (map (\<lambda>j. slice S (40 + 32 * j) 32) [0..<p])"
  let ?leaf = "spec_sha256 (?I @ be_bytes 4 (of_nat (32 + unat ?qw) :: u32) @ [0x82, 0x82] @ ?Kc)"
  have sv: "sig_values 40 p ?T = map (\<lambda>j. slice S (40 + 32 * j) 32) [0..<p]"
    "sig_values (44 + 32 * p) 5 ?T = map (\<lambda>j. slice S (44 + 32 * p + 32 * j) 32) [0..<5]"
    by (simp_all add: sig_values_def slice_take len)
  have sl: "slice ?T 0 4 = ?q" "slice ?T 4 4 = slice S 4 4" "slice ?T 8 32 = ?C" "slice ?T (40 + 32 * p) 4 = slice S (40 + 32 * p) 4"
    using slice_take [of 0 4 len S] by (simp_all add: slice_take len) (simp add: slice_def)
  define good where "good \<longleftrightarrow> (be_word (slice S (40 + 32 * p) 4) :: u32) = 5 \<and>
    rfc_tree_root ?I (32 + unat ?qw) ?leaf (map (\<lambda>j. slice S (44 + 32 * p + 32 * j) 32) [0..<5]) = slice pk 24 32"
  have spec: "rfc_lms_verify pk message ?T \<longleftrightarrow> unat ?qw < 32 \<and> slice S 4 4 = slice pk 4 4 \<and> good"
    using av tree unfolding rfc_lms_verify_def par Let_def option.case prod.case sv sl good_def by (simp add: S_def)
  have lS: "40 \<le> length (pending_bytes r)" "164 + (40 + 32 * p) \<le> length S" using av by (simp_all add: len S_def)
  define c0 where "c0 = map_option (\<lambda>_. 0 :: nat) c"
  from lms_header_available [OF lS(1), of c0] obtain r1 where r1:
    "lms_header source_read r c0 = (Some (?q, slice S 4 4, ?C), r1, map_option (\<lambda>k. k + 40) c0)" "pending_bytes r1 = drop 40 S"
    unfolding S_def by blast
  have words: "load_u32_be ?q = ?qw" "load_u32_be (slice pk 4 4) = be_word (slice pk 4 4)" "load_u32_be (take 4 pk) = be_word (take 4 pk)"
     "load_u32_be (slice S 4 4) = be_word (slice S 4 4)"
    using lS pk by (simp_all add: load_u32_be_eq S_def)
  have l4: "length (slice S 4 4) = 4" "length (slice pk 4 4) = 4" "8 * 4 \<le> LENGTH(32)" using lS pk by (simp_all add: S_def)
  have same: "(be_word (slice S 4 4) :: u32) = be_word (slice pk 4 4) \<longleftrightarrow> slice S 4 4 = slice pk 4 4"
    using be_bytes_be_word [OF l4(1,3)] be_bytes_be_word [OF l4(2,3)] by metis
  have q32: "push_bit 5 1 \<le> ?qw \<longleftrightarrow> \<not> unat ?qw < 32" by (simp add: word_le_nat_alt) linarith
  let ?run = "npq_lms_sha256_m32_h5_verify_stream (Some pk) (Some message) (length message) len (Some source_read) r c"
  have start: "?run = (if \<not> unat ?qw < 32 \<or> slice S 4 4 \<noteq> slice pk 4 4 then (NPQ_LMS_BAD_SIGNATURE, r1, map_option (\<lambda>k. k + 40) c0)
      else case lms_ots source_read pk message w p ls ?q ?C r1 (map_option (\<lambda>k. k + 40) c0) of
        (None, r2, n2) \<Rightarrow> (NPQ_LMS_IO_ERROR, r2, n2)
      | (Some candidate_ots_key, r2, n2) \<Rightarrow> lms_tree source_read pk ?qw candidate_ots_key r2 n2)"
    unfolding npq_lms_sha256_m32_h5_verify_stream_def Let_def option.sel option.case words par prod.case c0_def [symmetric] r1(1) q32 same
    using tree by simp
  show ?thesis
  proof (cases "unat ?qw < 32 \<and> slice S 4 4 = slice pk 4 4")
    case False
    then show ?thesis unfolding start spec [unfolded S_def, folded S_def] using False by (auto simp: spec S_def [symmetric])
  next
    case True
    have lq: "length ?q = 4" "length ?C = 32" using lS by simp_all
    have "32 * p \<le> length (pending_bytes r1)" using lS(2) r1(2) by simp
    from lms_ots_available [OF op pk lq this m] obtain r2 where r2:
      "lms_ots source_read pk message w p ls ?q ?C r1 (map_option (\<lambda>k. k + 40) c0) =
         (Some ?Kc, r2, map_option (\<lambda>k. k + 32 * p) (map_option (\<lambda>k. k + 40) c0))"
      "pending_bytes r2 = drop (32 * p) (drop 40 S)"
      unfolding r1(2) slice_drop by blast
    have lK: "length ?Kc = 32" by (simp add: rfc_ots_candidate_def Let_def length_spec_sha256)
    have P2: "pending_bytes r2 = drop (40 + 32 * p) S" using r2(2) by (simp add: add.commute)
    have "164 \<le> length (pending_bytes r2)" using lS(2) P2 by simp
    from lms_tree_available [OF pk this lK conjunct1 [OF True]] obtain r3 c3 where r3:
      "lms_tree source_read pk ?qw ?Kc r2 (map_option (\<lambda>k. k + 32 * p) (map_option (\<lambda>k. k + 40) c0)) =
        (if good then NPQ_LMS_OK else NPQ_LMS_BAD_SIGNATURE, r3, c3)"
      "good \<Longrightarrow> c3 = map_option (\<lambda>k. k + 164) (map_option (\<lambda>k. k + 32 * p) (map_option (\<lambda>k. k + 40) c0)) \<and> pending_bytes r3 = drop 164 (drop (40 + 32 * p) S)"
      unfolding P2 slice_drop good_def by (simp add: slice_def add.assoc add.left_commute) blast
    have run: "?run = (if good then NPQ_LMS_OK else NPQ_LMS_BAD_SIGNATURE, r3, c3)"
      unfolding start r2(1) prod.case option.case r3(1) using True by simp
    have "good \<Longrightarrow> c3 = map_option (\<lambda>_. len) c \<and> pending_bytes r3 = drop len S"
      using r3(2) by (simp add: len c0_def option.map_comp comp_def)
    then show ?thesis unfolding run S_def [symmetric] spec using True by auto
  qed
qed

lemma lms_ots_exhausted:
  "length (pending_bytes r) < 32 * p \<Longrightarrow> fst (lms_ots source_read pk message w p ls q C r c) = None"
  using lms_chains_exhausted [of r "[0..<p]"]
  by (simp add: lms_ots_def Let_def case_prod_unfold split: option.split)

lemma lms_ots_None_or_rest:
  assumes "32 * p \<le> length (pending_bytes r)" and par: "ots_params w p ls len" and pk: "length pk = 56" and q: "length q = 4"
    and C: "length C = 32" and m: "length message < 2 ^ 32 - 54"
    and ots: "lms_ots source_read pk message w p ls q C r c = (Some K, r', c')"
  shows "pending_bytes r' = drop (32 * p) (pending_bytes r)"
  using lms_ots_available [OF par pk q C assms(1) m, of c] ots by auto

lemma lms_verify_exhausted:
  assumes pk: "length pk = 56" and m: "length message < 2 ^ 32 - 54" and par: "lms_parameters (be_word (slice pk 4 4)) = Some (w, p, ls, len)"
    and short: "length (pending_bytes r) < len"
  shows "fst (npq_lms_sha256_m32_h5_verify_stream (Some pk) (Some message) (length message) len (Some source_read) r c) \<noteq> NPQ_LMS_OK"
proof
  assume ok: "fst (npq_lms_sha256_m32_h5_verify_stream (Some pk) (Some message) (length message) len (Some source_read) r c) = NPQ_LMS_OK"
  have op: "ots_params w p ls len" using par by (rule lms_parameters_SomeD)
  have len: "len = 204 + 32 * p" using op by (rule ots_params_length)
  let ?c0 = "map_option (\<lambda>_. 0 :: nat) c"
  have "load_u32_be (slice pk 4 4) = be_word (slice pk 4 4)" using pk by (simp add: load_u32_be_eq)
  with ok par obtain q t C r1 c1 K r2 c2 where hd: "lms_header source_read r ?c0 = (Some (q, t, C), r1, c1)"
    and ots: "lms_ots source_read pk message w p ls q C r1 c1 = (Some K, r2, c2)"
    and tr: "fst (lms_tree source_read pk (load_u32_be q) K r2 c2) = NPQ_LMS_OK"
    by (auto simp: npq_lms_sha256_m32_h5_verify_stream_def Let_def split: prod.splits option.splits if_split_asm)
  have av: "40 \<le> length (pending_bytes r)"
    using lms_header_exhausted [of r ?c0] hd by (cases "40 \<le> length (pending_bytes r)") auto
  from lms_header_available [OF this, of ?c0] hd have f: "length q = 4" "length C = 32" "pending_bytes r1 = drop 40 (pending_bytes r)"
    using av by auto
  have av1: "32 * p \<le> length (pending_bytes r1)"
    using lms_ots_exhausted [of r1 p pk message w ls q C c1] ots by (cases "32 * p \<le> length (pending_bytes r1)") auto
  have "pending_bytes r2 = drop (32 * p) (pending_bytes r1)"
    by (rule lms_ots_None_or_rest [OF av1 op pk f(1,2) m ots])
  then have "length (pending_bytes r2) < 164" using short f(3) by (simp add: len)
  from lms_tree_exhausted [OF this] tr show False by blast
qed

end

section \<open>Properties\<close>

lemma rfc_lms_verify_length:
  "rfc_lms_verify pk message sig \<Longrightarrow> \<exists>w p ls. lms_parameters (be_word (slice pk 4 4)) = Some (w, p, ls, length sig) \<and>
     (be_word (take 4 pk) :: u32) = 5"
  by (auto simp: rfc_lms_verify_def Let_def split: option.splits)

lemma lms_stream_ok:
  assumes "byte_source reader pending" and "length pk = 56" and "length message < 2 ^ 32 - 54"
    and "npq_lms_sha256_m32_h5_verify_stream (Some pk) (Some message) (length message) siglen (Some reader) r c = (res, r', c')"
  shows "(res = NPQ_LMS_OK \<longleftrightarrow> siglen \<le> length (pending r) \<and> rfc_lms_verify pk message (take siglen (pending r))) \<and>
    (res = NPQ_LMS_OK \<longrightarrow> pending r' = drop siglen (pending r) \<and> c' = map_option (\<lambda>_. siglen) c)"
proof (cases "\<exists>w p ls. lms_parameters (be_word (slice pk 4 4)) = Some (w, p, ls, siglen) \<and> (be_word (take 4 pk) :: u32) = 5")
  case True
  then obtain w p ls where par: "lms_parameters (be_word (slice pk 4 4)) = Some (w, p, ls, siglen)" and t: "(be_word (take 4 pk) :: u32) = 5" by blast
  show ?thesis
  proof (cases "siglen \<le> length (pending r)")
    case True
    then show ?thesis
      using byte_source.lms_verify_available [OF assms(1-3) par t True, of c] assms(4) by auto
  next
    case False
    then show ?thesis
      using byte_source.lms_verify_exhausted [OF assms(1-3) par, of r c] assms(4) by simp
  qed
next
  case False
  have w: "load_u32_be (slice pk 4 4) = be_word (slice pk 4 4)" "load_u32_be (take 4 pk) = be_word (take 4 pk)"
    using assms(2) by (simp_all add: load_u32_be_eq)
  have "res \<noteq> NPQ_LMS_OK"
    using assms(4) False
    by (auto simp: npq_lms_sha256_m32_h5_verify_stream_def Let_def w split: option.splits if_split_asm)
  moreover have "\<not> rfc_lms_verify pk message (take siglen (pending r))" if "siglen \<le> length (pending r)"
    using rfc_lms_verify_length [of pk message "take siglen (pending r)"] that False by auto
  ultimately show ?thesis by blast
qed

text \<open>C40: The streaming LMS verifier accepts exactly the signatures RFC 8554 accepts. Whatever reader
  hands it the bytes, as long as it honours the contract of a byte source, and for every public key of
  56 bytes, every message of fewer than \<open>2^32 - 54\<close> bytes and every announced signature length, the result is \<open>NPQ_LMS_OK\<close> if and
  only if the source holds that many bytes and these bytes are a valid LMS_SHA256_M32_H5 signature of
  the message; the verifier has then consumed exactly the signature and reports its length.\<close>

theorem lms_stream_exact:
  assumes "byte_source reader pending" and "length pk = 56" and "length message < 2 ^ 32 - 54"
    and "npq_lms_sha256_m32_h5_verify_stream (Some pk) (Some message) (length message) siglen (Some reader) r c = (res, r', c')"
  shows "(res = NPQ_LMS_OK \<longleftrightarrow> siglen \<le> length (pending r) \<and> rfc_lms_verify pk message (take siglen (pending r))) \<and>
    (res = NPQ_LMS_OK \<longrightarrow> pending r' = drop siglen (pending r) \<and> c' = map_option (\<lambda>_. siglen) c)"
  using assms by (rule lms_stream_ok)

definition sample_lms_key :: bytes where
  "sample_lms_key = [0, 0, 0, 5, 0, 0, 0, 4] @ replicate 48 7"

theorem lms_stream_exact_witness:
  "\<not> rfc_lms_verify sample_lms_key [1, 2, 3] (replicate 1292 0)"
proof -
  let ?v = "npq_lms_sha256_m32_h5_verify_stream (Some sample_lms_key) (Some [1, 2, 3]) (length [1, 2, 3 :: u8]) 1292 (Some string_read)
    (replicate 1292 0) None"
  obtain res r' c' where v: "?v = (res, r', c')" by (metis prod_cases3)
  have "length sample_lms_key = 56" "length [1, 2, 3 :: u8] < 2 ^ 32 - 54" by (simp_all add: sample_lms_key_def)
  from lms_stream_exact [OF string_source.byte_source_axioms this v]
  have "res = NPQ_LMS_OK \<longleftrightarrow> rfc_lms_verify sample_lms_key [1, 2, 3] (replicate 1292 0)" by simp
  moreover have "res \<noteq> NPQ_LMS_OK"
    using v by (auto simp: npq_lms_sha256_m32_h5_verify_stream_def lms_header_def read_part_def string_read_def sample_lms_key_def
      load_u32_be_def lms_parameters_def slice_def)
  ultimately show ?thesis by simp
qed

end
