(* ===== verification/NpqSlhdsa.thy ===== *)
theory NpqSlhdsa
  imports NpqHash
begin

text \<open>
  NanoPQ firmware, \<open>slhdsa.c\<close>: the one-pass verifier of SLH-DSA-SHA2-128s, for the default compile
  switches (rolling schedule, native 22-byte addresses, fixed-prefix hash state). The signature is
  pulled through a reader in wire order and folded as it arrives. The reader is a parameter.

  Each loop of the file is a recursion over the list of its index values; a read that fails ends
  it with \<open>None\<close>.
\<close>

unbundle bit_operations_syntax

datatype qp_slhdsa_result =
    QP_SLHDSA_OK
  | QP_SLHDSA_BAD_SIGNATURE
  | QP_SLHDSA_BAD_LENGTH
  | QP_SLHDSA_BAD_CONTEXT
  | QP_SLHDSA_IO_ERROR

abbreviation (input) ADRS_WOTS_HASH :: u32 where "ADRS_WOTS_HASH \<equiv> 0"
abbreviation (input) ADRS_WOTS_PK :: u32 where "ADRS_WOTS_PK \<equiv> 1"
abbreviation (input) ADRS_TREE :: u32 where "ADRS_TREE \<equiv> 2"
abbreviation (input) ADRS_FORS_TREE :: u32 where "ADRS_FORS_TREE \<equiv> 3"
abbreviation (input) ADRS_FORS_ROOTS :: u32 where "ADRS_FORS_ROOTS \<equiv> 4"

record 'r slh_verify_ctx =
  v_pk_seed :: bytes
  v_pk_root :: bytes
  v_address :: bytes
  v_seeded_state :: "u32 list"
  v_reader :: "'r read_fn"
  v_reader_context :: 'r
  v_consumed :: nat

section \<open>Numbers\<close>

definition write_be32 :: "u32 \<Rightarrow> bytes" where
  "write_be32 value =
     [ucast (drop_bit 24 value), ucast (drop_bit 16 value), ucast (drop_bit 8 value), ucast value]"

definition write_be64 :: "u64 \<Rightarrow> bytes" where
  "write_be64 value = fst (fold (\<lambda>i (out, v). (out[7 - i := ucast v], drop_bit 8 v)) [0..<8] (replicate 8 0, value))"

definition read_be_uint :: "bytes \<Rightarrow> nat \<Rightarrow> u64" where
  "read_be_uint bs len = foldl (\<lambda>value b. push_bit 8 value OR ucast b) 0 (take len bs)"

section \<open>Addresses\<close>

definition address_zero :: "'r slh_verify_ctx \<Rightarrow> 'r slh_verify_ctx" where
  "address_zero ctx = ctx\<lparr>v_address := replicate 22 0\<rparr>"

definition address_set_layer :: "'r slh_verify_ctx \<Rightarrow> u32 \<Rightarrow> 'r slh_verify_ctx" where
  "address_set_layer ctx layer = ctx\<lparr>v_address := (v_address ctx)[0 := ucast layer]\<rparr>"

definition address_set_tree :: "'r slh_verify_ctx \<Rightarrow> u64 \<Rightarrow> 'r slh_verify_ctx" where
  "address_set_tree ctx tree = ctx\<lparr>v_address := memcpy (v_address ctx) 1 (write_be64 tree)\<rparr>"

definition address_set_type_and_clear :: "'r slh_verify_ctx \<Rightarrow> u32 \<Rightarrow> 'r slh_verify_ctx" where
  "address_set_type_and_clear ctx ty =
     ctx\<lparr>v_address := memcpy ((v_address ctx)[9 := ucast ty]) 10 (replicate 12 0)\<rparr>"

definition address_set_type_and_clear_not_keypair :: "'r slh_verify_ctx \<Rightarrow> u32 \<Rightarrow> 'r slh_verify_ctx" where
  "address_set_type_and_clear_not_keypair ctx ty =
     ctx\<lparr>v_address := memcpy ((v_address ctx)[9 := ucast ty]) 14 (replicate 8 0)\<rparr>"

definition address_set_keypair :: "'r slh_verify_ctx \<Rightarrow> u32 \<Rightarrow> 'r slh_verify_ctx" where
  "address_set_keypair ctx keypair = ctx\<lparr>v_address := memcpy (v_address ctx) 10 (write_be32 keypair)\<rparr>"

definition address_set_chain_or_height :: "'r slh_verify_ctx \<Rightarrow> u32 \<Rightarrow> 'r slh_verify_ctx" where
  "address_set_chain_or_height ctx value = ctx\<lparr>v_address := memcpy (v_address ctx) 14 (write_be32 value)\<rparr>"

definition address_set_hash_or_index :: "'r slh_verify_ctx \<Rightarrow> u32 \<Rightarrow> 'r slh_verify_ctx" where
  "address_set_hash_or_index ctx value = ctx\<lparr>v_address := memcpy (v_address ctx) 18 (write_be32 value)\<rparr>"

section \<open>Reading and hashing\<close>

definition read_signature :: "'r slh_verify_ctx \<Rightarrow> nat \<Rightarrow> bytes option \<times> 'r slh_verify_ctx" where
  "read_signature ctx len =
     (let (out, r') = v_reader ctx (v_reader_context ctx) len
      in if out = None then (None, ctx\<lparr>v_reader_context := r'\<rparr>)
         else (out, ctx\<lparr>v_reader_context := r', v_consumed := v_consumed ctx + len\<rparr>))"

definition hash_start :: "'r slh_verify_ctx \<Rightarrow> qp_sha256_ctx \<Rightarrow> qp_sha256_ctx" where
  "hash_start ctx hash =
     qp_sha256_update (hash\<lparr>qp_state := v_seeded_state ctx, qp_total_bytes := 64, qp_block_len := 0\<rparr>) (v_address ctx)"

definition hash_finish_n :: "qp_sha256_ctx \<Rightarrow> bytes" where
  "hash_finish_n hash = fst (qp_sha256_final_16 hash)"

definition hash_f :: "'r slh_verify_ctx \<Rightarrow> bytes \<Rightarrow> bytes" where
  "hash_f ctx inp = hash_finish_n (qp_sha256_update (hash_start ctx qp_local) (take 16 inp))"

definition hash_h :: "'r slh_verify_ctx \<Rightarrow> bytes \<Rightarrow> bytes \<Rightarrow> bytes" where
  "hash_h ctx left right =
     hash_finish_n (qp_sha256_update (qp_sha256_update (hash_start ctx qp_local) (take 16 left)) (take 16 right))"

section \<open>One-time signatures and the tree above them\<close>

definition chain :: "'r slh_verify_ctx \<Rightarrow> bytes \<Rightarrow> u8 \<Rightarrow> u8 \<Rightarrow> 'r slh_verify_ctx \<times> bytes" where
  "chain ctx value start steps =
     fold (\<lambda>j (c, v). let c' = address_set_hash_or_index c (of_nat j) in (c', hash_f c' v))
       [unat start..<unat (start + steps)] (ctx, value)"

definition wots_checksum :: "bytes \<Rightarrow> u16" where
  "wots_checksum message =
     push_bit 4
       (fold (\<lambda>i checksum.
          let value = message ! (i div 2); digit = (if odd i then value AND 0x0f else drop_bit 4 value)
          in checksum + 15 - ucast digit) [0..<32] 0)"

definition wots_digit_at :: "bytes \<Rightarrow> u16 \<Rightarrow> nat \<Rightarrow> u8" where
  "wots_digit_at message checksum index =
     (if index < 32
      then let value = message ! (index div 2) in (if odd index then value AND 0x0f else drop_bit 4 value)
      else ucast (drop_bit (12 - 4 * (index - 32)) checksum AND 0x0f))"

fun wots_chains ::
  "bytes \<Rightarrow> u16 \<Rightarrow> nat list \<Rightarrow> 'r slh_verify_ctx \<Rightarrow> qp_sha256_ctx \<Rightarrow> qp_sha256_ctx option \<times> 'r slh_verify_ctx" where
  "wots_chains message checksum [] ctx aggregate = (Some aggregate, ctx)"
| "wots_chains message checksum (i # is) ctx aggregate =
     (let digit = wots_digit_at message checksum i;
          c1 = address_set_chain_or_height ctx (of_nat i)
      in case read_signature c1 16 of
           (None, c2) \<Rightarrow> (None, c2)
         | (Some value, c2) \<Rightarrow>
             let (c3, v) = chain c2 value digit (15 - digit)
             in wots_chains message checksum is c3 (qp_sha256_update aggregate v))"

fun xmss_path :: "u32 \<Rightarrow> nat list \<Rightarrow> bytes \<Rightarrow> 'r slh_verify_ctx \<Rightarrow> bytes option \<times> 'r slh_verify_ctx" where
  "xmss_path leaf_index [] root ctx = (Some root, ctx)"
| "xmss_path leaf_index (i # is) root ctx =
     (case read_signature ctx 16 of
        (None, c1) \<Rightarrow> (None, c1)
      | (Some sibling, c1) \<Rightarrow>
          let c2 = address_set_chain_or_height c1 (of_nat i + 1);
              c3 = address_set_hash_or_index c2 (drop_bit (i + 1) leaf_index)
          in xmss_path leaf_index is
               (if drop_bit i leaf_index AND 1 = 0 then hash_h c3 root sibling else hash_h c3 sibling root) c3)"

definition xmss_public_key_from_signature ::
  "'r slh_verify_ctx \<Rightarrow> u32 \<Rightarrow> bytes \<Rightarrow> bytes option \<times> 'r slh_verify_ctx" where
  "xmss_public_key_from_signature ctx leaf_index message =
     (let checksum = wots_checksum message;
          c1 = address_set_type_and_clear_not_keypair ctx ADRS_WOTS_PK;
          aggregate = hash_start c1 qp_local;
          c2 = address_set_type_and_clear_not_keypair c1 ADRS_WOTS_HASH
      in case wots_chains message checksum [0..<35] c2 aggregate of
           (None, c3) \<Rightarrow> (None, c3)
         | (Some aggregate', c3) \<Rightarrow>
             xmss_path leaf_index [0..<9] (hash_finish_n aggregate') (address_set_type_and_clear c3 ADRS_TREE))"

section \<open>Few-time signature\<close>

definition fors_index_at :: "bytes \<Rightarrow> nat \<Rightarrow> u16" where
  "fors_index_at md index =
     (let byte_index = index * 12 div 8 in
      if even index
      then push_bit 4 (ucast (md ! byte_index)) OR ucast (drop_bit 4 (md ! (byte_index + 1)))
      else push_bit 8 (ucast (md ! byte_index) AND 0x0f) OR ucast (md ! (byte_index + 1)))"

fun fors_path ::
  "u16 \<Rightarrow> u32 \<Rightarrow> nat list \<Rightarrow> bytes \<Rightarrow> 'r slh_verify_ctx \<Rightarrow> bytes option \<times> 'r slh_verify_ctx" where
  "fors_path fors_index tree_index [] node ctx = (Some node, ctx)"
| "fors_path fors_index tree_index (j # js) node ctx =
     (case read_signature ctx 16 of
        (None, c1) \<Rightarrow> (None, c1)
      | (Some sibling, c1) \<Rightarrow>
          let c2 = address_set_chain_or_height c1 (of_nat j + 1);
              c3 = address_set_hash_or_index c2 (drop_bit (j + 1) tree_index)
          in fors_path fors_index tree_index js
               (if drop_bit j fors_index AND 1 = 0 then hash_h c3 node sibling else hash_h c3 sibling node) c3)"

fun fors_trees ::
  "bytes \<Rightarrow> nat list \<Rightarrow> 'r slh_verify_ctx \<Rightarrow> qp_sha256_ctx \<Rightarrow> qp_sha256_ctx option \<times> 'r slh_verify_ctx" where
  "fors_trees md [] ctx aggregate = (Some aggregate, ctx)"
| "fors_trees md (i # is) ctx aggregate =
     (let fors_index = fors_index_at md i;
          tree_index = push_bit 12 (of_nat i) + ucast fors_index;
          c1 = address_set_chain_or_height ctx 0;
          c2 = address_set_hash_or_index c1 tree_index
      in case read_signature c2 16 of
           (None, c3) \<Rightarrow> (None, c3)
         | (Some node, c3) \<Rightarrow>
             (case fors_path fors_index tree_index [0..<12] (hash_f c3 node) c3 of
                (None, c4) \<Rightarrow> (None, c4)
              | (Some node', c4) \<Rightarrow> fors_trees md is c4 (qp_sha256_update aggregate node')))"

definition fors_public_key_from_signature ::
  "'r slh_verify_ctx \<Rightarrow> bytes \<Rightarrow> bytes option \<times> 'r slh_verify_ctx" where
  "fors_public_key_from_signature ctx md =
     (let c1 = address_set_type_and_clear_not_keypair ctx ADRS_FORS_ROOTS;
          aggregate = hash_start c1 qp_local;
          c2 = address_set_type_and_clear_not_keypair c1 ADRS_FORS_TREE
      in case fors_trees md [0..<14] c2 aggregate of
           (None, c3) \<Rightarrow> (None, c3)
         | (Some aggregate', c3) \<Rightarrow> (Some (hash_finish_n aggregate'), c3))"

section \<open>Verification\<close>

definition h_message :: "'r slh_verify_ctx \<Rightarrow> bytes \<Rightarrow> bytes \<Rightarrow> bytes \<Rightarrow> u8 \<Rightarrow> bytes" where
  "h_message ctx randomizer message ctx_string ctx_len =
     (let h0 = qp_sha256_init qp_local;
          h1 = qp_sha256_update h0 (take 16 randomizer);
          h2 = qp_sha256_update h1 (take 16 (v_pk_seed ctx));
          h3 = qp_sha256_update h2 (take 16 (v_pk_root ctx));
          h4 = qp_sha256_update h3 [0, ctx_len];
          h5 = (if ctx_len \<noteq> 0 then qp_sha256_update h4 (take (unat ctx_len) ctx_string) else h4);
          h6 = qp_sha256_update h5 message;
          (digest, h7) = qp_sha256_final h6;
          k0 = qp_sha256_init h7;
          k1 = qp_sha256_update k0 (take 16 randomizer);
          k2 = qp_sha256_update k1 (take 16 (v_pk_seed ctx));
          k3 = qp_sha256_update k2 digest;
          k4 = qp_sha256_update k3 [0, 0, 0, 0]
      in fst (qp_sha256_final k4))"

fun slh_layers ::
  "nat list \<Rightarrow> u64 \<Rightarrow> u32 \<Rightarrow> bytes \<Rightarrow> 'r slh_verify_ctx \<Rightarrow> bytes option \<times> 'r slh_verify_ctx" where
  "slh_layers [] tree_index leaf_index node ctx = (Some node, ctx)"
| "slh_layers (layer # ls) tree_index leaf_index node ctx =
     (let c1 = address_zero ctx;
          c2 = address_set_layer c1 (of_nat layer);
          c3 = address_set_tree c2 tree_index;
          c4 = address_set_keypair c3 leaf_index
      in case xmss_public_key_from_signature c4 leaf_index node of
           (None, c5) \<Rightarrow> (None, c5)
         | (Some node', c5) \<Rightarrow>
             let (leaf', tree') = (if layer + 1 < 7 then (ucast (tree_index AND 0x1ff), drop_bit 9 tree_index)
                                   else (leaf_index, tree_index))
             in slh_layers ls tree' leaf' node' c5)"

text \<open>The part after the parameter checks; \<open>None\<close> when a read failed.\<close>

definition slh_root_from_signature ::
  "'r slh_verify_ctx \<Rightarrow> bytes \<Rightarrow> bytes \<Rightarrow> u8 \<Rightarrow> bytes option \<times> 'r slh_verify_ctx" where
  "slh_root_from_signature ctx message ctx_string ctx_len =
     (case read_signature ctx 16 of
        (None, c1) \<Rightarrow> (None, c1)
      | (Some randomizer, c1) \<Rightarrow>
          let digest = h_message c1 randomizer message ctx_string ctx_len;
              tree_index = read_be_uint (drop 21 digest) 7 AND (push_bit (63 - 9) 1 - 1);
              leaf_index = ucast (read_be_uint (drop (21 + 7) digest) 2) AND 0x1ff;
              c2 = address_zero c1;
              c3 = address_set_tree c2 tree_index;
              c4 = address_set_type_and_clear_not_keypair c3 ADRS_FORS_TREE;
              c5 = address_set_keypair c4 leaf_index
          in case fors_public_key_from_signature c5 digest of
               (None, c6) \<Rightarrow> (None, c6)
             | (Some node, c6) \<Rightarrow> slh_layers [0..<7] tree_index leaf_index node c6)"

definition qp_slhdsa_sha2_128s_verify_stream ::
  "bytes option \<Rightarrow> bytes option \<Rightarrow> nat \<Rightarrow> bytes option \<Rightarrow> nat \<Rightarrow> nat \<Rightarrow> 'r read_fn option \<Rightarrow> 'r \<Rightarrow> nat option
     \<Rightarrow> qp_slhdsa_result \<times> 'r \<times> nat option" where
  "qp_slhdsa_sha2_128s_verify_stream public_key message message_len ctx_string ctx_len signature_len reader r bytes_consumed =
     (let consumed0 = map_option (\<lambda>_. 0) bytes_consumed in
      if signature_len \<noteq> 7856 then (QP_SLHDSA_BAD_LENGTH, r, consumed0)
      else if ctx_len > 255 \<or> (ctx_len \<noteq> 0 \<and> ctx_string = None) then (QP_SLHDSA_BAD_CONTEXT, r, consumed0)
      else if reader = None \<or> public_key = None \<or> (message_len \<noteq> 0 \<and> message = None)
      then (QP_SLHDSA_IO_ERROR, r, consumed0)
      else
        let pk = the public_key;
            msg = (case message of None \<Rightarrow> [] | Some m \<Rightarrow> take message_len m);
            cs = (case ctx_string of None \<Rightarrow> [] | Some c \<Rightarrow> c);
            verify = \<lparr>v_pk_seed = take 16 pk, v_pk_root = drop 16 pk, v_address = replicate 22 0,
              v_seeded_state = qp_sha256_fips205_seed (take 16 pk), v_reader = the reader, v_reader_context = r, v_consumed = 0\<rparr>;
            (node, verify') = slh_root_from_signature verify msg cs (of_nat ctx_len);
            consumed' = map_option (\<lambda>_. v_consumed verify') bytes_consumed
        in (case node of
              None \<Rightarrow> QP_SLHDSA_IO_ERROR
            | Some n \<Rightarrow>
                if v_consumed verify' \<noteq> 7856 then QP_SLHDSA_BAD_LENGTH
                else if qp_constant_time_equal n (v_pk_root verify') 16 then QP_SLHDSA_OK else QP_SLHDSA_BAD_SIGNATURE,
            v_reader_context verify', consumed'))"

end
