(* ===== verification/NpqFips205.thy ===== *)
theory NpqFips205
  imports NpqSlhdsa
begin

text \<open>
  The verification algorithm of FIPS 205 for SLH-DSA-SHA2-128s on a complete signature (Algorithms 4,
  5, 8, 11, 13, 17, 20 and 24, with the SHA-2 instantiation of section 11.2), and the proof that the
  streaming verifier of theory \<open>NpqSlhdsa\<close> accepts exactly the signatures it accepts.
\<close>

unbundle bit_operations_syntax

section \<open>FIPS 205\<close>

text \<open>The 32-byte address and its compressed form \<open>ADRSc\<close>. Tree addresses are below \<open>2^54\<close>, so the
  first four of their twelve bytes are zero.\<close>

definition fips_adrs :: "u32 \<Rightarrow> u64 \<Rightarrow> u32 \<Rightarrow> u32 \<Rightarrow> u32 \<Rightarrow> u32 \<Rightarrow> bytes" where
  "fips_adrs layer tree ty w1 w2 w3 =
     be_bytes 4 layer @ replicate 4 0 @ be_bytes 8 tree @ be_bytes 4 ty @ be_bytes 4 w1 @ be_bytes 4 w2 @ be_bytes 4 w3"

definition fips_compress :: "bytes \<Rightarrow> bytes" where
  "fips_compress A = [A ! 3] @ slice A 8 8 @ [A ! 19] @ slice A 20 12"

text \<open>\<open>F\<close>, \<open>H\<close> and \<open>T\<close> for \<open>n = 16\<close>: one function on the concatenated input.\<close>

definition fips_hash :: "bytes \<Rightarrow> bytes \<Rightarrow> bytes \<Rightarrow> bytes" where
  "fips_hash seed A m = take 16 (spec_sha256 (seed @ replicate 48 0 @ fips_compress A @ m))"

definition bytes_int :: "bytes \<Rightarrow> nat" where
  "bytes_int = foldl (\<lambda>n b. 256 * n + unat b) 0"

text \<open>The \<open>i\<close>-th group of \<open>b\<close> bits of a byte string.\<close>

definition base_2b :: "bytes \<Rightarrow> nat \<Rightarrow> nat \<Rightarrow> nat" where
  "base_2b X b i = bytes_int X div 2 ^ (8 * length X - b * (i + 1)) mod 2 ^ b"

definition fips_wots_digit :: "bytes \<Rightarrow> nat \<Rightarrow> nat" where
  "fips_wots_digit M i =
     (if i < 32 then base_2b M 4 i
      else base_2b (be_bytes 2 (of_nat ((\<Sum>i<32. 15 - base_2b M 4 i) * 16) :: u16)) 4 (i - 32))"

definition fips_chain :: "bytes \<Rightarrow> (u32 \<Rightarrow> bytes) \<Rightarrow> bytes \<Rightarrow> nat \<Rightarrow> nat \<Rightarrow> bytes" where
  "fips_chain seed A X i s = fold (\<lambda>j X. fips_hash seed (A (of_nat j)) X) [i..<i + s] X"

definition fips_wots_value :: "bytes \<Rightarrow> u32 \<Rightarrow> u64 \<Rightarrow> u32 \<Rightarrow> bytes \<Rightarrow> nat \<Rightarrow> bytes \<Rightarrow> bytes" where
  "fips_wots_value seed l t kp M i y =
     (let d = fips_wots_digit M i in fips_chain seed (\<lambda>j. fips_adrs l t 0 kp (of_nat i) j) y d (15 - d))"

fun fips_path :: "(nat \<Rightarrow> nat \<Rightarrow> bytes \<Rightarrow> bytes) \<Rightarrow> nat \<Rightarrow> nat \<Rightarrow> nat \<Rightarrow> bytes \<Rightarrow> bytes list \<Rightarrow> bytes" where
  "fips_path H k i e node [] = node"
| "fips_path H k i e node (s # path) =
     fips_path H (k + 1) (i div 2) (e div 2) (H k i (if even e then node @ s else s @ node)) path"

definition fips_xmss_root :: "bytes \<Rightarrow> u32 \<Rightarrow> u64 \<Rightarrow> nat \<Rightarrow> bytes \<Rightarrow> bytes \<Rightarrow> bytes" where
  "fips_xmss_root seed l t leaf sig M =
     (let kp = of_nat leaf;
          pk = fips_hash seed (fips_adrs l t 1 kp 0 0)
                 (concat (map (\<lambda>i. fips_wots_value seed l t kp M i (slice sig (16 * i) 16)) [0..<35]))
      in fips_path (\<lambda>k i. fips_hash seed (fips_adrs l t 2 0 (of_nat k) (of_nat i))) 1 (leaf div 2) leaf pk
           (map (\<lambda>k. slice sig (560 + 16 * k) 16) [0..<9]))"

fun fips_ht_root :: "bytes \<Rightarrow> nat \<Rightarrow> nat \<Rightarrow> nat \<Rightarrow> nat \<Rightarrow> bytes \<Rightarrow> bytes \<Rightarrow> bytes" where
  "fips_ht_root seed l 0 tree leaf sig M = M"
| "fips_ht_root seed l (Suc n) tree leaf sig M =
     fips_ht_root seed (l + 1) n (tree div 2 ^ 9) (tree mod 2 ^ 9) (drop 704 sig)
       (fips_xmss_root seed (of_nat l) (of_nat tree) leaf (take 704 sig) M)"

definition fips_fors_node :: "bytes \<Rightarrow> u64 \<Rightarrow> u32 \<Rightarrow> nat \<Rightarrow> nat \<Rightarrow> bytes \<Rightarrow> bytes" where
  "fips_fors_node seed t kp k i = fips_hash seed (fips_adrs 0 t 3 kp (of_nat k) (of_nat i))"

definition fips_fors_root :: "bytes \<Rightarrow> u64 \<Rightarrow> u32 \<Rightarrow> bytes \<Rightarrow> nat \<Rightarrow> bytes \<Rightarrow> bytes" where
  "fips_fors_root seed t kp md i sig =
     (let e = base_2b md 12 i; leaf = i * 2 ^ 12 + e
      in fips_path (fips_fors_node seed t kp) 1 (leaf div 2) e (fips_fors_node seed t kp 0 leaf (take 16 sig))
           (map (\<lambda>j. slice sig (16 + 16 * j) 16) [0..<12]))"

definition fips_fors_pk :: "bytes \<Rightarrow> u64 \<Rightarrow> u32 \<Rightarrow> bytes \<Rightarrow> bytes \<Rightarrow> bytes" where
  "fips_fors_pk seed t kp md sig =
     fips_hash seed (fips_adrs 0 t 4 kp 0 0)
       (concat (map (\<lambda>i. fips_fors_root seed t kp md i (slice sig (208 * i) 208)) [0..<14]))"

definition fips_h_msg :: "bytes \<Rightarrow> bytes \<Rightarrow> bytes \<Rightarrow> bytes \<Rightarrow> bytes" where
  "fips_h_msg R seed root M = take 30 (spec_sha256 (R @ seed @ spec_sha256 (R @ seed @ root @ M) @ [0, 0, 0, 0]))"

definition fips205_verify :: "bytes \<Rightarrow> bytes \<Rightarrow> bytes \<Rightarrow> bytes \<Rightarrow> bool" where
  "fips205_verify pk M ctx_string sig \<longleftrightarrow>
     length ctx_string \<le> 255 \<and> length sig = 7856 \<and>
     (let seed = take 16 pk; root = drop 16 pk;
          digest = fips_h_msg (take 16 sig) seed root ([0, of_nat (length ctx_string)] @ ctx_string @ M);
          md = take 21 digest;
          tree = bytes_int (slice digest 21 7) mod 2 ^ 54;
          leaf = bytes_int (slice digest 28 2) mod 2 ^ 9
      in fips_ht_root seed 0 7 tree leaf (slice sig 2928 4928)
           (fips_fors_pk seed (of_nat tree) (of_nat leaf) md (slice sig 16 2912)) = root)"

section \<open>Addresses\<close>

definition c_adrs :: "u32 \<Rightarrow> u64 \<Rightarrow> u32 \<Rightarrow> u32 \<Rightarrow> u32 \<Rightarrow> u32 \<Rightarrow> bytes" where
  "c_adrs layer tree ty w1 w2 w3 =
     [ucast layer] @ be_bytes 8 tree @ [ucast ty] @ be_bytes 4 w1 @ be_bytes 4 w2 @ be_bytes 4 w3"

lemma length_c_adrs [simp]: "length (c_adrs l t ty a b c) = 22"
  by (simp add: c_adrs_def)

lemma be_bytes_last: "0 < n \<Longrightarrow> be_bytes n v ! (n - 1) = ucast v"
  by (simp add: be_bytes_def rev_nth)

lemma compress_adrs: "fips_compress (fips_adrs l t ty a b c) = c_adrs l t ty a b c"
proof -
  have "be_bytes 4 l ! 3 = ucast l" "be_bytes 4 ty ! 3 = ucast ty"
    using be_bytes_last [of 4 l] be_bytes_last [of 4 ty] by simp_all
  then show ?thesis by (simp add: fips_compress_def fips_adrs_def c_adrs_def nth_append slice_def)
qed

lemma write_be32_eq: "write_be32 v = be_bytes 4 v"
  by (simp add: write_be32_def Common.store32_be [symmetric] c0pq_store32_be_def)

lemma write_be64_eq: "write_be64 v = be_bytes 8 v"
  by (simp add: write_be64_def be_bytes_def le_bytes_def upt_rec drop_bit_drop_bit Common.replicate_8)

lemma be_bytes_zero: "be_bytes n (0 :: 'a::len word) = replicate n 0"
  by (simp add: be_bytes_def le_bytes_def map_replicate_const)

lemma adrs_zero: "replicate 22 0 = c_adrs 0 0 0 0 0 0"
  by (simp add: c_adrs_def be_bytes_zero numeral_eq_Suc)

lemma adrs_layer: "(c_adrs l t ty a b c)[0 := ucast l'] = c_adrs l' t ty a b c"
  by (simp add: c_adrs_def)

lemma adrs_tree: "memcpy (c_adrs l t ty a b c) (Suc 0) (write_be64 t') = c_adrs l t' ty a b c"
  by (simp add: c_adrs_def memcpy_def write_be64_eq)

lemma adrs_type: "(c_adrs l t ty a b c)[9 := v] = c_adrs l t (ucast v) a b c"
proof -
  have "ucast (ucast v :: u32) = v" by (rule bit_word_eqI) (auto simp: bit_simps dest: bit_imp_le_length)
  then show ?thesis by (simp add: c_adrs_def list_update_append)
qed

lemma adrs_clear: "memcpy (c_adrs l t ty a b c) 10 (replicate 12 0) = c_adrs l t ty 0 0 0"
proof -
  have "replicate 12 (0 :: u8) = be_bytes 4 (0 :: u32) @ be_bytes 4 (0 :: u32) @ be_bytes 4 (0 :: u32)"
    by (simp add: be_bytes_zero replicate_add [symmetric])
  then show ?thesis by (simp add: c_adrs_def memcpy_def)
qed

lemma adrs_clear_not_keypair: "memcpy (c_adrs l t ty a b c) 14 (replicate 8 0) = c_adrs l t ty a 0 0"
proof -
  have "replicate 8 (0 :: u8) = be_bytes 4 (0 :: u32) @ be_bytes 4 (0 :: u32)"
    by (simp add: be_bytes_zero replicate_add [symmetric])
  then show ?thesis by (simp add: c_adrs_def memcpy_def)
qed

lemma adrs_words:
  "memcpy (c_adrs l t ty a b c) 10 (write_be32 a') = c_adrs l t ty a' b c"
  "memcpy (c_adrs l t ty a b c) 14 (write_be32 b') = c_adrs l t ty a b' c"
  "memcpy (c_adrs l t ty a b c) 18 (write_be32 c') = c_adrs l t ty a b c'"
  by (simp_all add: c_adrs_def memcpy_def write_be32_eq)

lemmas adrs_ops = address_zero_def address_set_layer_def address_set_tree_def address_set_type_and_clear_def
  address_set_type_and_clear_not_keypair_def address_set_keypair_def address_set_chain_or_height_def
  address_set_hash_or_index_def adrs_zero adrs_layer adrs_tree adrs_type adrs_clear adrs_clear_not_keypair adrs_words

section \<open>Numbers and digits\<close>

lemma foldl_int: "foldl (\<lambda>n b. 256 * n + unat b) a xs = a * 256 ^ length xs + bytes_int xs"
proof (induction xs rule: rev_induct)
  case Nil
  then show ?case by (simp add: bytes_int_def)
next
  case (snoc x xs)
  have "bytes_int (xs @ [x]) = 256 * bytes_int xs + unat x" by (simp add: bytes_int_def)
  with snoc show ?case by (simp add: algebra_simps)
qed

lemma bytes_int_append: "bytes_int (xs @ ys) = bytes_int xs * 256 ^ length ys + bytes_int ys"
  using foldl_int [of "bytes_int xs" ys] by (simp add: bytes_int_def)

lemma bytes_int_Cons: "bytes_int (b # bs) = unat b * 256 ^ length bs + bytes_int bs"
  using bytes_int_append [of "[b]" bs] by (simp add: bytes_int_def)

lemma bytes_int_less: "bytes_int xs < 256 ^ length xs"
proof (induction xs)
  case (Cons b bs)
  have "unat b * 256 ^ length bs + bytes_int bs < (unat b + 1) * 256 ^ length bs" using Cons by (simp add: algebra_simps)
  also have "\<dots> \<le> 256 * 256 ^ length bs" using unat_u8_less [of b] by (intro mult_right_mono) simp_all
  finally show ?case by (simp add: bytes_int_Cons)
qed (simp add: bytes_int_def)

text \<open>The big-endian word of a byte string is its number.\<close>

lemma shift_or_byte: "push_bit 8 w OR ucast (b :: u8) = 256 * w + (ucast b :: 'a::len word)"
proof -
  have "push_bit 8 w AND (ucast b :: 'a word) = 0"
    by (rule bit_word_eqI) (auto simp: bit_simps dest: bit_imp_le_length)
  then have "push_bit 8 w OR ucast b = push_bit 8 w + (ucast b :: 'a word)"
    using word_plus_and_or [of "push_bit 8 w" "ucast b :: 'a word"] by simp
  then show ?thesis by (simp add: push_bit_eq_mult)
qed

lemma be_word_int: "be_word bs = (of_nat (bytes_int bs) :: 'a::len word)"
proof (induction bs rule: rev_induct)
  case Nil
  then show ?case by (simp add: bytes_int_def)
next
  case (snoc b bs)
  then show ?case by (simp add: be_word_snoc shift_or_byte bytes_int_def)
qed

lemma bytes_int_be_word:
  assumes "8 * length bs \<le> LENGTH('a)"
  shows "bytes_int bs = unat (be_word bs :: 'a::len word)"
proof -
  have "bytes_int bs < 2 ^ (8 * length bs)" using bytes_int_less [of bs] power_mult [of "2 :: nat" 8 "length bs"] by simp
  also have "\<dots> \<le> 2 ^ LENGTH('a)" using assms by (intro power_increasing) simp_all
  finally show ?thesis by (simp add: be_word_int unat_of_nat)
qed

text \<open>Dropping the low bytes of a number.\<close>

lemma bytes_int_high: "bytes_int (xs @ ys) div 256 ^ length ys = bytes_int xs"
  using bytes_int_less [of ys] by (simp add: bytes_int_append)

lemma base_2b_prefix:
  assumes "length X = k + m" and "b * (i + 1) \<le> 8 * k"
  shows "base_2b X b i = bytes_int (take k X) div 2 ^ (8 * k - b * (i + 1)) mod 2 ^ b"
proof -
  have e: "8 * length X - b * (i + 1) = 8 * m + (8 * k - b * (i + 1))" using assms by simp
  have l: "length (drop k X) = m" using assms(1) by simp
  have "bytes_int X div 2 ^ (8 * m) = bytes_int (take k X)"
    using bytes_int_high [of "take k X" "drop k X"] l power_mult [of "2 :: nat" 8 m] by simp
  then show ?thesis unfolding base_2b_def e power_add div_mult2_eq by simp
qed

lemma bytes_int_snoc: "bytes_int (xs @ [b]) = 256 * bytes_int xs + unat b"
  by (simp add: bytes_int_def)

lemma base_2b_4:
  assumes "i < 2 * length X"
  shows "base_2b X 4 i = (if odd i then unat (X ! (i div 2)) mod 16 else unat (X ! (i div 2)) div 16)"
proof -
  let ?k = "i div 2" and ?b = "unat (X ! (i div 2))"
  have k: "?k < length X" using assms by simp
  then have t: "take (Suc ?k) X = take ?k X @ [X ! ?k]" by (rule take_Suc_conv_app_nth)
  have "length X = Suc ?k + (length X - Suc ?k)" using k by simp
  from base_2b_prefix [OF this, of 4 i]
  have e: "base_2b X 4 i = (256 * bytes_int (take ?k X) + ?b) div 2 ^ (8 * Suc ?k - 4 * (i + 1)) mod 2 ^ 4"
    by (simp only: t bytes_int_snoc) (cases "even i"; simp)
  have b: "?b < 256" by (rule unat_u8_less)
  show ?thesis
  proof (cases "odd i")
    case True
    then have "8 * Suc ?k - 4 * (i + 1) = 0" by (elim oddE) simp
    moreover have "(256 * bytes_int (take ?k X) + ?b) mod 16 = ?b mod 16"
      by (rule mod_add_cong [of "256 * bytes_int (take ?k X)" 16 0 ?b ?b, simplified])
    ultimately show ?thesis using e True by simp
  next
    case False
    then have "even i" by simp
    then have "8 * Suc ?k - 4 * (i + 1) = 4" by (elim evenE) simp
    moreover have "(256 * bytes_int (take ?k X) + ?b) div 16 = 16 * bytes_int (take ?k X) + ?b div 16"
      using div_mult_self1 [of 16 ?b "16 * bytes_int (take ?k X)"] by (simp add: add.commute mult.assoc [symmetric])
    moreover have "?b div 16 < 16" using b by simp
    ultimately show ?thesis using e False by simp
  qed
qed

lemma base_2b_12:
  assumes "12 * (i + 1) \<le> 8 * length X"
  defines "k \<equiv> i * 12 div 8"
  shows "base_2b X 12 i = (if even i then unat (X ! k) * 16 + unat (X ! (k + 1)) div 16
    else unat (X ! k) mod 16 * 256 + unat (X ! (k + 1)))"
proof -
  let ?a = "unat (X ! k)" and ?b = "unat (X ! (k + 1))"
  have k: "k + 1 < length X" using assms unfolding k_def by (cases "even i") (auto elim!: evenE oddE)
  have "take (k + 2) X = take (k + 1) X @ [X ! (k + 1)]" using k take_Suc_conv_app_nth [of "k + 1" X] by simp
  also have "take (k + 1) X = take k X @ [X ! k]" using k take_Suc_conv_app_nth [of k X] by simp
  finally have t: "bytes_int (take (k + 2) X) = 256 * (256 * bytes_int (take k X) + ?a) + ?b" by (simp add: bytes_int_def)
  have "length X = (k + 2) + (length X - (k + 2))" using k by simp
  moreover have "12 * (i + 1) \<le> 8 * (k + 2)" unfolding k_def by (cases "even i") (auto elim!: evenE oddE)
  ultimately have e: "base_2b X 12 i = (256 * (256 * bytes_int (take k X) + ?a) + ?b) div 2 ^ (8 * (k + 2) - 12 * (i + 1)) mod 2 ^ 12"
    using base_2b_prefix [of X "k + 2" _ 12 i] unfolding t by blast
  have ab: "?a < 256" "?b < 256" by (rule unat_u8_less)+
  show ?thesis
  proof (cases "even i")
    case True
    then have "8 * (k + 2) - 12 * (i + 1) = 4" unfolding k_def by (elim evenE) simp
    moreover have "(256 * (256 * bytes_int (take k X) + ?a) + ?b) div 16 = ?a * 16 + ?b div 16 + 4096 * bytes_int (take k X)"
      using div_mult_self1 [of 16 ?b "16 * (256 * bytes_int (take k X) + ?a)"] by (simp add: algebra_simps)
    moreover have "(?a * 16 + ?b div 16 + 4096 * bytes_int (take k X)) mod 4096 = ?a * 16 + ?b div 16"
    proof -
      have "?a * 16 + ?b div 16 < 4096" using ab by linarith
      then show ?thesis using mod_mult_self2 [of "?a * 16 + ?b div 16" 4096 "bytes_int (take k X)"] by simp
    qed
    ultimately show ?thesis using e True by simp
  next
    case False
    then obtain j where i: "i = 2 * j + 1" by (elim oddE)
    then have "k = 3 * j + 1" unfolding k_def by presburger
    then have e0: "8 * (k + 2) - 12 * (i + 1) = 0" using i by simp
    have e1: "256 * (256 * bytes_int (take k X) + ?a) + ?b = ?a mod 16 * 256 + ?b + 4096 * (16 * bytes_int (take k X) + ?a div 16)"
    proof -
      have "?a = 16 * (?a div 16) + ?a mod 16" by simp
      then have "256 * ?a = 4096 * (?a div 16) + 256 * (?a mod 16)" by linarith
      then show ?thesis by (simp add: algebra_simps)
    qed
    have e2: "(?a mod 16 * 256 + ?b + 4096 * (16 * bytes_int (take k X) + ?a div 16)) mod 4096 = ?a mod 16 * 256 + ?b"
    proof -
      have "?a mod 16 < 16" by simp
      then have "?a mod 16 * 256 + ?b < 4096" using ab by linarith
      then show ?thesis using mod_mult_self2 [of "?a mod 16 * 256 + ?b" 4096 "16 * bytes_int (take k X) + ?a div 16"] by simp
    qed
    have p: "(2 :: nat) ^ 12 = 4096" by simp
    show ?thesis using e False unfolding e0 e1 p power_0 div_by_1 e2 by simp
  qed
qed

lemma unat_high: "unat (drop_bit n (w :: 'a::len word)) = unat w div 2 ^ n"
  unfolding unat_drop_bit_eq by (rule drop_bit_eq_div)

lemma of_nat_high: "of_nat (unat w div 2 ^ n) = drop_bit n (w :: 'a::len word)"
  unfolding unat_high [symmetric] by simp

lemma unat_nibbles: "unat (b AND 0x0f :: u8) = unat b mod 16" "unat (drop_bit 4 b :: u8) = unat b div 16"
proof -
  have "b AND 0x0f = take_bit 4 b" by (simp add: take_bit_eq_mask mask_eq_exp_minus_1)
  then show "unat (b AND 0x0f) = unat b mod 16" by (simp only: unsigned_take_bit_eq) (simp add: take_bit_eq_mod)
  show "unat (drop_bit 4 b) = unat b div 16" by (simp add: unat_high)
qed

lemma nibble_digit:
  assumes "length M = 16" and "i < 32"
  shows "unat (let value = M ! (i div 2) in if odd i then value AND 0x0f else drop_bit 4 value :: u8) = base_2b M 4 i"
  using base_2b_4 [of i M] assms by (simp add: unat_nibbles)

lemma base_2b_bound: "base_2b X b i < 2 ^ b"
  by (simp add: base_2b_def)

lemma wots_checksum_spec:
  assumes "length M = 16"
  shows "wots_checksum M = of_nat ((\<Sum>i<32. 15 - base_2b M 4 i) * 16)"
proof -
  let ?digit = "\<lambda>i. let value = M ! (i div 2) in if odd i then value AND 0x0f else drop_bit 4 value :: u8"
  have "fold (\<lambda>i checksum. checksum + 15 - ucast (?digit i)) [0..<n] 0 = (of_nat (\<Sum>i<n. 15 - base_2b M 4 i) :: u16)"
    if "n \<le> 32" for n
    using that
  proof (induction n)
    case (Suc n)
    have "ucast (?digit n) = (of_nat (base_2b M 4 n) :: u16)" using nibble_digit [OF assms, of n] Suc.prems by (metis Suc_le_lessD of_nat_unat)
    moreover have "(of_nat (15 - base_2b M 4 n) :: u16) = of_nat 15 - of_nat (base_2b M 4 n)"
      using base_2b_bound [of M 4 n] by (intro of_nat_diff) simp
    ultimately show ?case using Suc by (simp add: Let_def)
  qed simp
  then show ?thesis by (simp add: wots_checksum_def Let_def push_bit_eq_mult mult.commute)
qed

lemma wots_digit_spec:
  assumes M: "length M = 16" and i: "i < 35"
  shows "unat (wots_digit_at M (wots_checksum M) i) = fips_wots_digit M i"
proof (cases "i < 32")
  case True
  then show ?thesis using nibble_digit [OF M True] by (simp add: wots_digit_at_def fips_wots_digit_def)
next
  case False
  let ?c = "of_nat ((\<Sum>i<32. 15 - base_2b M 4 i) * 16) :: u16"
  have "unat (ucast (drop_bit (12 - 4 * j) v AND 0x0f) :: u8) = base_2b (be_bytes 2 v) 4 j" if "j < 3" for j and v :: u16
  proof -
    have n: "bytes_int (be_bytes 2 v) = unat v"
      by (subst bytes_int_be_word [where ?'a = 16]) (simp_all add: be_word_be_bytes)
    have m: "drop_bit (12 - 4 * j) v AND 0x0f = take_bit 4 (drop_bit (12 - 4 * j) v)" by (simp add: take_bit_eq_mask mask_eq_exp_minus_1)
    have "unat (drop_bit (12 - 4 * j) v AND 0x0f) = unat v div 2 ^ (12 - 4 * j) mod 16"
      unfolding m unsigned_take_bit_eq unat_high by (simp add: take_bit_eq_mod)
    moreover have "16 - 4 * (j + 1) = 12 - 4 * j" by simp
    ultimately show ?thesis by (simp add: base_2b_def n unsigned_ucast_eq take_bit_eq_mod)
  qed
  then show ?thesis using False i by (simp add: wots_digit_at_def fips_wots_digit_def wots_checksum_spec [OF M])
qed

lemma fors_index_spec:
  assumes "length md \<ge> 21" and "i < 14"
  shows "unat (fors_index_at md i) = base_2b (take 21 md) 12 i"
proof -
  let ?k = "i * 12 div 8"
  have k: "?k < 21" "?k + 1 < 21" using assms(2) by linarith+
  have or: "push_bit n x OR ucast (y :: u8) = push_bit n x + (ucast y :: u16)" if "8 \<le> n" for n x y
  proof -
    have "push_bit n x AND (ucast y :: u16) = 0"
      by (rule bit_word_eqI) (use that in \<open>auto simp: bit_simps dest: bit_imp_le_length\<close>)
    then show ?thesis using word_plus_and_or [of "push_bit n x" "ucast y :: u16"] by simp
  qed
  have nth: "take 21 md ! ?k = md ! ?k" "take 21 md ! (?k + 1) = md ! (?k + 1)" using k by simp_all
  have b: "unat (md ! j) < 256" for j by (rule unat_u8_less)
  have u: "unat (ucast (y :: u8) :: u16) = unat y" for y
    using unat_u8_less [of y] by (simp add: unsigned_ucast_eq take_bit_nat_eq_self)
  have spec: "base_2b (take 21 md) 12 i = (if even i then unat (md ! ?k) * 16 + unat (md ! (?k + 1)) div 16
      else unat (md ! ?k) mod 16 * 256 + unat (md ! (?k + 1)))"
    using base_2b_12 [of i "take 21 md"] assms unfolding nth by simp
  show ?thesis
  proof (cases "even i")
    case True
    have "push_bit 4 (ucast (md ! ?k)) AND (ucast (drop_bit 4 (md ! (?k + 1))) :: u16) = 0"
      by (rule bit_word_eqI) (auto simp: bit_simps dest: bit_imp_le_length)
    then have "fors_index_at md i = push_bit 4 (ucast (md ! ?k)) + ucast (drop_bit 4 (md ! (?k + 1)))"
      using True word_plus_and_or [of "push_bit 4 (ucast (md ! ?k))" "ucast (drop_bit 4 (md ! (?k + 1))) :: u16"]
      by (simp add: fors_index_at_def Let_def)
    then have "unat (fors_index_at md i) = unat (16 * ucast (md ! ?k) + ucast (drop_bit 4 (md ! (?k + 1))) :: u16)"
      by (simp add: push_bit_eq_mult mult.commute)
    also have "\<dots> = 16 * unat (md ! ?k) + unat (md ! (?k + 1)) div 16"
      using b [of ?k] b [of "?k + 1"] by (simp add: unat_word_ariths u unat_nibbles)
    finally show ?thesis using True by (simp add: spec)
  next
    case False
    have "fors_index_at md i = push_bit 8 (ucast (md ! ?k) AND 0x0f) + ucast (md ! (?k + 1))"
      using False unfolding fors_index_at_def Let_def or [OF order_refl] by simp
    moreover have "ucast (md ! ?k) AND 0x0f = (ucast (md ! ?k AND 0x0f) :: u16)"
    proof -
      have m: "(0x0f :: u16) = mask 4" "(0x0f :: u8) = mask 4" by (simp_all add: mask_eq_exp_minus_1)
      show ?thesis unfolding m by (rule bit_word_eqI) (auto simp: bit_simps)
    qed
    ultimately have "unat (fors_index_at md i) = unat (256 * ucast (md ! ?k AND 0x0f) + ucast (md ! (?k + 1)) :: u16)"
      by (simp add: push_bit_eq_mult mult.commute)
    also have "\<dots> = 256 * (unat (md ! ?k) mod 16) + unat (md ! (?k + 1))"
    proof -
      have "unat (md ! ?k) mod 16 < 16" by simp
      then have "256 * (unat (md ! ?k) mod 16) + unat (md ! (?k + 1)) < 65536" using b [of "?k + 1"] by linarith
      then show ?thesis by (simp add: unat_word_ariths u unat_nibbles)
    qed
    finally show ?thesis using False by (simp add: spec mult.commute)
  qed
qed

section \<open>Hashing from the seeded state\<close>

definition slh_hash :: "bytes \<Rightarrow> bytes \<Rightarrow> bytes \<Rightarrow> bytes" where
  "slh_hash seed a m = take 16 (spec_sha256 (seed @ replicate 48 0 @ a @ m))"

lemma length_slh_hash [simp]: "length (slh_hash seed a m) = 16"
  by (simp add: slh_hash_def length_spec_sha256)

lemma fips_hash_adrs: "fips_hash seed (fips_adrs l t ty a b c) = slh_hash seed (c_adrs l t ty a b c)"
  by (rule ext) (simp add: fips_hash_def slh_hash_def compress_adrs)

definition seeded :: "bytes \<Rightarrow> 'r slh_verify_ctx \<Rightarrow> bool" where
  "seeded seed ctx \<longleftrightarrow> length seed = 16 \<and> v_seeded_state ctx = spec_absorb sha256_initial_state (seed @ replicate 48 0)"

lemma hash_start_represents:
  assumes "seeded seed ctx"
  shows "qp_represents (hash_start ctx qp_local) (seed @ replicate 48 0 @ v_address ctx)"
proof -
  have "length (seed @ replicate 48 (0 :: u8)) = 64" using assms by (simp add: seeded_def)
  then have "qp_represents (qp_local\<lparr>qp_state := v_seeded_state ctx, qp_total_bytes := 64, qp_block_len := 0\<rparr>) (seed @ replicate 48 0)"
    using assms sha_tail_block [of "seed @ replicate 48 0" "[]"] by (simp add: qp_represents_def seeded_def)
  from qp_represents_update [OF this, of "v_address ctx"] show ?thesis by (simp add: hash_start_def)
qed

lemma hash_finish_spec:
  assumes "qp_represents h (seed @ replicate 48 0 @ a @ m)" and "length seed = 16" and "length a = 22" and "length m < 2 ^ 32 - 86"
  shows "hash_finish_n h = slh_hash seed a m"
  using qp_final_spec(2) [OF assms(1)] spec_sha256_32_eq [of "seed @ replicate 48 0 @ a @ m"] assms(2-4)
  by (simp add: hash_finish_n_def slh_hash_def)

lemma hash_f_spec:
  assumes s: "seeded seed ctx" and a: "length (v_address ctx) = 22" and m: "length m = 16"
  shows "hash_f ctx m = slh_hash seed (v_address ctx) m"
  unfolding hash_f_def
  using qp_represents_update [OF hash_start_represents [OF s], of "take 16 m"] assms
  by (intro hash_finish_spec) (simp_all add: seeded_def)

lemma hash_h_spec:
  assumes s: "seeded seed ctx" and a: "length (v_address ctx) = 22" and m: "length x = 16" "length y = 16"
  shows "hash_h ctx x y = slh_hash seed (v_address ctx) (x @ y)"
  unfolding hash_h_def
  using qp_represents_update [OF qp_represents_update [OF hash_start_represents [OF s], of "take 16 x"], of "take 16 y"] assms
  by (intro hash_finish_spec) (simp_all add: seeded_def)

lemma seeded_update [simp]:
  "seeded seed (ctx\<lparr>v_address := a\<rparr>) = seeded seed ctx"
  "seeded seed (ctx\<lparr>v_reader_context := r\<rparr>) = seeded seed ctx"
  "seeded seed (ctx\<lparr>v_consumed := n\<rparr>) = seeded seed ctx"
  by (simp_all add: seeded_def)

text \<open>A chain sets the hash address before every step, so its result does not depend on what stood
  there.\<close>

lemma chain_spec:
  assumes s: "seeded seed ctx" and a: "v_address ctx = c_adrs l t 0 kp c b" and y: "length y = 16" and d: "unat d \<le> 15"
  shows "\<exists>b'. chain ctx y d (15 - d) = (ctx\<lparr>v_address := c_adrs l t 0 kp c b'\<rparr>,
    fips_chain seed (\<lambda>j. fips_adrs l t 0 kp c j) y (unat d) (15 - unat d))"
proof -
  let ?step = "\<lambda>j (cx, v). let c' = address_set_hash_or_index cx (of_nat j) in (c', hash_f c' v)"
  have main: "\<exists>b'. fold ?step js (ctx\<lparr>v_address := c_adrs l t 0 kp c b\<rparr>, y) =
      (ctx\<lparr>v_address := c_adrs l t 0 kp c b'\<rparr>, fold (\<lambda>j X. slh_hash seed (c_adrs l t 0 kp c (of_nat j)) X) js y)"
    if "length y = 16" for js b y
    using that
  proof (induction js arbitrary: b y)
    case (Cons j js)
    let ?c = "ctx\<lparr>v_address := c_adrs l t 0 kp c (of_nat j)\<rparr>"
    have "hash_f ?c y = slh_hash seed (c_adrs l t 0 kp c (of_nat j)) y"
      using hash_f_spec [of seed ?c y] s Cons.prems by simp
    then show ?case using Cons.IH [of "slh_hash seed (c_adrs l t 0 kp c (of_nat j)) y" "of_nat j"] by (simp add: adrs_ops)
  qed auto
  have "d + (15 - d) = 15" by simp
  then have "[unat d..<unat (d + (15 - d))] = [unat d..<unat d + (15 - unat d)]" using d by simp
  moreover have "ctx\<lparr>v_address := c_adrs l t 0 kp c b\<rparr> = ctx" unfolding a [symmetric] by simp
  ultimately show ?thesis using main [OF y, of "[unat d..<unat d + (15 - unat d)]" b]
    by (simp only: chain_def fips_chain_def fips_hash_adrs)
qed

lemma length_fips_chain: "length y = 16 \<Longrightarrow> length (fips_chain seed (\<lambda>j. fips_adrs l t 0 kp c j) y i s) = 16"
  unfolding fips_chain_def fips_hash_adrs by (rule fold_invariant_set [where P = "\<lambda>t. length t = 16"]) simp_all

section \<open>Streaming\<close>

lemma and_1_even: "(w AND 1 = (0 :: 'a::len word)) \<longleftrightarrow> even (unat w)"
proof -
  have "even (unat w) \<longleftrightarrow> \<not> bit (unat w) 0" by (simp add: bit_0)
  also have "\<dots> \<longleftrightarrow> \<not> bit w 0" by (simp only: bit_unsigned_iff) auto
  also have "\<dots> \<longleftrightarrow> even w" by (simp add: bit_0)
  finally show ?thesis by (simp add: and_one_eq mod_2_eq_odd)
qed

lemma values_Suc:
  "map (\<lambda>j. slice bs (off + 16 * j) 16) [0..<Suc n] = slice bs off 16 # map (\<lambda>j. slice (drop 16 bs) (off + 16 * j) 16) [0..<n]"
proof -
  have "map (\<lambda>j. slice bs (off + 16 * j) 16) [0..<Suc n] = map (\<lambda>j. slice bs (off + 16 * j) 16) (0 # map Suc [0..<n])"
    by (simp only: upt_conv_Cons [OF zero_less_Suc] map_Suc_upt)
  then show ?thesis by (simp add: slice_def ac_simps)
qed

text \<open>What reading \<open>n\<close> bytes of the signature does to the verification context; the address is
  tracked apart.\<close>

definition moved :: "('r \<Rightarrow> bytes) \<Rightarrow> nat \<Rightarrow> 'r slh_verify_ctx \<Rightarrow> 'r slh_verify_ctx \<Rightarrow> bool" where
  "moved rest n ctx ctx' \<longleftrightarrow>
     v_reader ctx' = v_reader ctx \<and> v_seeded_state ctx' = v_seeded_state ctx \<and> v_pk_seed ctx' = v_pk_seed ctx \<and>
     v_pk_root ctx' = v_pk_root ctx \<and> v_consumed ctx' = v_consumed ctx + n \<and>
     n \<le> length (rest (v_reader_context ctx)) \<and> rest (v_reader_context ctx') = drop n (rest (v_reader_context ctx))"

lemma moved_address [simp]:
  "moved rest n (ctx\<lparr>v_address := a\<rparr>) ctx' = moved rest n ctx ctx'"
  "moved rest n ctx (ctx'\<lparr>v_address := a\<rparr>) = moved rest n ctx ctx'"
  by (simp_all add: moved_def)

lemma moved_refl: "moved rest 0 ctx ctx"
  by (simp add: moved_def)

lemma moved_trans: "moved rest n a b \<Longrightarrow> moved rest m b c \<Longrightarrow> moved rest (n + m) a c"
  by (auto simp: moved_def add.commute)

lemma moved_facts:
  assumes "moved rest n ctx ctx'"
  shows "v_reader ctx' = v_reader ctx" and "seeded seed ctx' = seeded seed ctx"
    and "rest (v_reader_context ctx') = drop n (rest (v_reader_context ctx))" and "n \<le> length (rest (v_reader_context ctx))"
  using assms by (simp_all add: moved_def seeded_def)

lemma length_fips_path: "(\<And>k i m. length (H k i m) = 16) \<Longrightarrow> length node = 16 \<Longrightarrow> length (fips_path H k i e node path) = 16"
  by (induction path arbitrary: k i e node) simp_all

lemma length_fips_wots_value: "length y = 16 \<Longrightarrow> length (fips_wots_value seed l t kp M i y) = 16"
  unfolding fips_wots_value_def Let_def by (rule length_fips_chain)

lemma length_fips_xmss_root: "length (fips_xmss_root seed l t leaf sig M) = 16"
  unfolding fips_xmss_root_def Let_def fips_hash_adrs by (rule length_fips_path) simp_all

lemma length_fips_fors_root: "length (fips_fors_root seed t kp md i sig) = 16"
  unfolding fips_fors_root_def Let_def fips_fors_node_def fips_hash_adrs by (rule length_fips_path) simp_all

lemma length_concat_16: "(\<And>i. i \<in> set is \<Longrightarrow> length (f i) = 16) \<Longrightarrow> length (concat (map f is)) = 16 * length is"
  by (induction "is") simp_all

text \<open>Zipping the index list with the values of the signature.\<close>

lemma map2_upt: "map2 f [0..<n] (map g [0..<n]) = map (\<lambda>i. f i (g i)) [0..<n]"
  by (rule nth_equalityI) simp_all

lemma blocks_Suc:
  "map (\<lambda>j. slice bs (w * j) w) [0..<Suc n] = take w bs # map (\<lambda>j. slice (drop w bs) (w * j) w) [0..<n]"
proof -
  have "map (\<lambda>j. slice bs (w * j) w) [0..<Suc n] = map (\<lambda>j. slice bs (w * j) w) (0 # map Suc [0..<n])"
    by (simp only: upt_conv_Cons [OF zero_less_Suc] map_Suc_upt)
  then show ?thesis by (simp add: slice_def ac_simps)
qed

text \<open>The index of a leaf in the concatenated FORS trees.\<close>

lemma fors_tree_index:
  assumes md: "length md \<ge> 21" and i: "i < 14"
  shows "unat (push_bit 12 (of_nat i) + ucast (fors_index_at md i) :: u32) = i * 2 ^ 12 + base_2b (take 21 md) 12 i"
proof -
  have e: "unat (fors_index_at md i) = base_2b (take 21 md) 12 i" "base_2b (take 21 md) 12 i < 4096"
    using fors_index_spec [OF md i] base_2b_bound [of "take 21 md" 12 i] by simp_all
  have "ucast (fors_index_at md i) = (of_nat (base_2b (take 21 md) 12 i) :: u32)" by (metis e(1) of_nat_unat)
  then have "push_bit 12 (of_nat i) + ucast (fors_index_at md i) = (of_nat (i * 2 ^ 12 + base_2b (take 21 md) 12 i) :: u32)"
    by (simp add: push_bit_eq_mult)
  moreover have "i * 2 ^ 12 + base_2b (take 21 md) 12 i < 2 ^ 32" using e(2) i by simp
  ultimately show ?thesis by (simp only: unat_of_nat) simp
qed

lemma unat_u64_u32: "unat (w AND 0x1ff :: u64) = unat w mod 2 ^ 9" "unat (ucast (w AND 0x1ff :: u64) :: u32) = unat w mod 2 ^ 9"
proof -
  have "w AND 0x1ff = take_bit 9 w" by (simp add: take_bit_eq_mask mask_eq_exp_minus_1)
  then show u: "unat (w AND 0x1ff :: u64) = unat w mod 2 ^ 9" by (simp only: unsigned_take_bit_eq) (simp add: take_bit_eq_mod)
  then have "unat (w AND 0x1ff) < 2 ^ 32" by (simp add: less_trans [OF mod_less_divisor])
  then show "unat (ucast (w AND 0x1ff :: u64) :: u32) = unat w mod 2 ^ 9"
    using u by (simp only: unsigned_ucast_eq) (simp add: take_bit_nat_eq_self)
qed

lemma length_fips_ht_root: "length M = 16 \<Longrightarrow> length (fips_ht_root seed l n tree leaf sig M) = 16"
  by (induction seed l n tree leaf sig M rule: fips_ht_root.induct) (simp_all add: length_fips_xmss_root)

text \<open>The message digest and the indices taken from it.\<close>

lemma h_message_spec:
  assumes "length (v_pk_seed ctx) = 16" and "length (v_pk_root ctx) = 16" and "length R = 16" and "length cs \<le> 255"
    and "length message < 2 ^ 32 - 400"
  shows "h_message ctx R message cs (of_nat (length cs)) = spec_sha256 (R @ v_pk_seed ctx @
    spec_sha256 (R @ v_pk_seed ctx @ v_pk_root ctx @ [0, of_nat (length cs)] @ cs @ message) @ [0, 0, 0, 0])"
proof -
  let ?n = "of_nat (length cs) :: u8" and ?pre = "R @ v_pk_seed ctx @ v_pk_root ctx @ [0, of_nat (length cs)]"
  have n: "unat ?n = length cs" using assms(4) by (simp add: unat_of_nat_u8)
  let ?h4 = "fold (\<lambda>x d. qp_sha256_update d x) [R, v_pk_seed ctx, v_pk_root ctx, [0, ?n]] (qp_sha256_init qp_local)"
  have r4: "qp_represents ?h4 ?pre"
    using qp.represents_updates [OF qp.represents_init, of "[R, v_pk_seed ctx, v_pk_root ctx, [0, ?n]]"] by simp
  let ?h5 = "if ?n \<noteq> 0 then qp_sha256_update ?h4 cs else ?h4"
  have r5: "qp_represents ?h5 (?pre @ cs)"
  proof (cases "?n = 0")
    case True
    then have "cs = []" using n by simp
    then show ?thesis using r4 True by simp
  next
    case False
    then show ?thesis using qp_represents_update [OF r4, of cs] by simp
  qed
  let ?h6 = "qp_sha256_update ?h5 message"
  have r6: "qp_represents ?h6 ((?pre @ cs) @ message)" by (rule qp_represents_update [OF r5])
  let ?I = "spec_sha256 ((?pre @ cs) @ message)"
  have I: "fst (qp_sha256_final ?h6) = ?I"
    using trans [OF qp_final_spec(1) [OF r6] spec_sha256_32_eq] assms by simp
  let ?k = "fold (\<lambda>x d. qp_sha256_update d x) [R, v_pk_seed ctx, ?I, [0, 0, 0, 0]] (qp_sha256_init (snd (qp_sha256_final ?h6)))"
  have rk: "qp_represents ?k (R @ v_pk_seed ctx @ ?I @ [0, 0, 0, 0])"
    using qp.represents_updates [OF qp_represents_init [OF qp_final_spec(3) [OF r6]], of "[R, v_pk_seed ctx, ?I, [0, 0, 0, 0]]"] by simp
  have "fst (qp_sha256_final ?k) = spec_sha256 (R @ v_pk_seed ctx @ ?I @ [0, 0, 0, 0])"
    using trans [OF qp_final_spec(1) [OF rk] spec_sha256_32_eq] assms by (simp add: length_spec_sha256)
  moreover have "h_message ctx R message cs ?n = fst (qp_sha256_final (fold (\<lambda>x d. qp_sha256_update d x)
      [R, v_pk_seed ctx, fst (qp_sha256_final ?h6), [0, 0, 0, 0]] (qp_sha256_init (snd (qp_sha256_final ?h6)))))"
    using assms(1-3) by (simp add: h_message_def Let_def case_prod_unfold n)
  ultimately show ?thesis unfolding I by simp
qed

lemma read_be_uint_value: "n \<le> 8 \<Longrightarrow> unat (read_be_uint bs n) = bytes_int (take n bs)"
  unfolding read_be_uint_def foldl_be_word
  by (subst bytes_int_be_word [of "take n bs", where ?'a = 64]) simp_all

lemma tree_index_value:
  assumes "28 \<le> length D"
  shows "unat (read_be_uint (drop 21 D) 7 AND (push_bit 54 1 - 1)) = bytes_int (slice D 21 7) mod 2 ^ 54"
proof -
  have "push_bit 54 1 - 1 = (mask 54 :: u64)" by (simp add: mask_eq_exp_minus_1 push_bit_eq_mult)
  then have "read_be_uint (drop 21 D) 7 AND (push_bit 54 1 - 1) = take_bit 54 (read_be_uint (drop 21 D) 7)"
    by (simp only: take_bit_eq_mask)
  then have "unat (read_be_uint (drop 21 D) 7 AND (push_bit 54 1 - 1)) = take_bit 54 (unat (read_be_uint (drop 21 D) 7))"
    by (simp only: unsigned_take_bit_eq)
  then show ?thesis by (simp add: read_be_uint_value slice_def take_bit_eq_mod)
qed

lemma leaf_index_value:
  assumes "30 \<le> length D"
  shows "unat (ucast (read_be_uint (drop 28 D) 2) AND 0x1ff :: u32) = bytes_int (slice D 28 2) mod 2 ^ 9"
proof -
  let ?w = "read_be_uint (drop 28 D) 2"
  have u: "unat ?w = bytes_int (slice D 28 2)" by (simp add: read_be_uint_value slice_def)
  have "bytes_int (slice D 28 2) < 256 ^ 2" using bytes_int_less [of "slice D 28 2"] assms by simp
  then have "unat (ucast ?w :: u32) = bytes_int (slice D 28 2)"
    unfolding u [symmetric] by (simp only: unsigned_ucast_eq) (simp add: take_bit_nat_eq_self)
  moreover have "(ucast ?w AND 0x1ff :: u32) = take_bit 9 (ucast ?w)" by (simp add: take_bit_eq_mask mask_eq_exp_minus_1)
  ultimately show ?thesis by (simp only: unsigned_take_bit_eq) (simp add: take_bit_eq_mod)
qed

context byte_source
begin

lemma read_sig_available:
  assumes "v_reader ctx = source_read" and "16 \<le> length (pending_bytes (v_reader_context ctx))"
  obtains ctx' where "read_signature ctx 16 = (Some (take 16 (pending_bytes (v_reader_context ctx))), ctx')"
    and "moved pending_bytes 16 ctx ctx'" and "v_address ctx' = v_address ctx"
proof -
  obtain r' where "source_read (v_reader_context ctx) 16 = (Some (take 16 (pending_bytes (v_reader_context ctx))), r')"
    "pending_bytes r' = drop 16 (pending_bytes (v_reader_context ctx))"
    using read_available [of 16 "v_reader_context ctx"] assms(2) by (cases "source_read (v_reader_context ctx) 16") auto
  then show ?thesis using that assms by (simp add: read_signature_def moved_def)
qed

lemma wots_chains_available:
  assumes M: "length M = 16"
  shows "v_reader ctx = source_read \<Longrightarrow> seeded seed ctx \<Longrightarrow> v_address ctx = c_adrs l t 0 kp a b \<Longrightarrow>
    16 * length is \<le> length (pending_bytes (v_reader_context ctx)) \<Longrightarrow> (\<forall>i\<in>set is. i < 35) \<Longrightarrow> qp_represents h m \<Longrightarrow>
    \<exists>h' ctx' a' b'. wots_chains M (wots_checksum M) is ctx h = (Some h', ctx') \<and> moved pending_bytes (16 * length is) ctx ctx' \<and>
      v_address ctx' = c_adrs l t 0 kp a' b' \<and>
      qp_represents h' (m @ concat (map2 (fips_wots_value seed l t kp M) is
         (map (\<lambda>j. slice (pending_bytes (v_reader_context ctx)) (16 * j) 16) [0..<length is])))"
proof (induction "is" arbitrary: ctx a b h m)
  case Nil
  then show ?case by (auto simp: moved_refl)
next
  case (Cons i "is")
  let ?P = "pending_bytes (v_reader_context ctx)" and ?d = "wots_digit_at M (wots_checksum M) i"
  let ?c1 = "ctx\<lparr>v_address := c_adrs l t 0 kp (of_nat i) b\<rparr>"
  have c1: "address_set_chain_or_height ctx (of_nat i) = ?c1" by (simp add: adrs_ops Cons.prems(3))
  have P: "16 \<le> length ?P" using Cons.prems(4) by simp
  obtain c2 where c2: "read_signature ?c1 16 = (Some (take 16 ?P), c2)" "moved pending_bytes 16 ctx c2"
    "v_address c2 = c_adrs l t 0 kp (of_nat i) b"
    using read_sig_available [of ?c1] Cons.prems(1) P by auto
  let ?y = "take 16 ?P"
  have y: "length ?y = 16" using P by simp
  have d: "unat ?d = fips_wots_digit M i" "unat ?d \<le> 15"
    using wots_digit_spec [OF M, of i] Cons.prems(5) base_2b_bound [of _ 4]
    by (auto simp: fips_wots_digit_def less_Suc_eq_le [symmetric])
  let ?z = "fips_wots_value seed l t kp M i ?y"
  have s2: "seeded seed c2" using Cons.prems(2) moved_facts(2) [OF c2(2)] by simp
  from chain_spec [OF s2 c2(3) y d(2)]
  obtain b1 where ch: "chain c2 ?y ?d (15 - ?d) = (c2\<lparr>v_address := c_adrs l t 0 kp (of_nat i) b1\<rparr>, ?z)"
    by (auto simp: fips_wots_value_def Let_def d(1))
  let ?c3 = "c2\<lparr>v_address := c_adrs l t 0 kp (of_nat i) b1\<rparr>"
  have h3: "qp_represents (qp_sha256_update h ?z) (m @ ?z)" by (rule qp_represents_update [OF Cons.prems(6)])
  have pre: "v_reader ?c3 = source_read" "seeded seed ?c3" "v_address ?c3 = c_adrs l t 0 kp (of_nat i) b1"
    "16 * length is \<le> length (pending_bytes (v_reader_context ?c3))" "\<forall>i\<in>set is. i < 35"
    using Cons.prems s2 moved_facts [OF c2(2)] by simp_all
  from Cons.IH [OF pre h3] obtain h' ctx' a' b' where
    IH: "wots_chains M (wots_checksum M) is ?c3 (qp_sha256_update h ?z) = (Some h', ctx')" "moved pending_bytes (16 * length is) ?c3 ctx'"
      "v_address ctx' = c_adrs l t 0 kp a' b'"
      "qp_represents h' ((m @ ?z) @ concat (map2 (fips_wots_value seed l t kp M) is
         (map (\<lambda>j. slice (drop 16 ?P) (16 * j) 16) [0..<length is])))"
    using moved_facts(3) [OF c2(2)] by auto
  have "wots_chains M (wots_checksum M) (i # is) ctx h = (Some h', ctx')" using IH(1) by (simp add: c1 c2(1) ch Let_def)
  moreover have "moved pending_bytes (16 * length (i # is)) ctx ctx'" using moved_trans [OF c2(2)] IH(2) by simp
  ultimately show ?case
    using IH(3,4) values_Suc [of ?P 0 "length is"] by (auto simp: slice_def simp del: upt_Suc)
qed

lemma xmss_path_available:
  "v_reader ctx = source_read \<Longrightarrow> seeded seed ctx \<Longrightarrow> v_address ctx = c_adrs l t 2 0 a b \<Longrightarrow>
    16 * n \<le> length (pending_bytes (v_reader_context ctx)) \<Longrightarrow> length root = 16 \<Longrightarrow>
    \<exists>ctx'. xmss_path leaf [j..<j + n] root ctx =
        (Some (fips_path (\<lambda>k i. slh_hash seed (c_adrs l t 2 0 (of_nat k) (of_nat i))) (j + 1) (unat leaf div 2 ^ (j + 1)) (unat leaf div 2 ^ j)
          root (map (\<lambda>j. slice (pending_bytes (v_reader_context ctx)) (16 * j) 16) [0..<n])), ctx') \<and>
      moved pending_bytes (16 * n) ctx ctx'"
proof (induction n arbitrary: ctx a b root j)
  case 0
  then show ?case by (auto simp: moved_refl)
next
  case (Suc n)
  let ?P = "pending_bytes (v_reader_context ctx)" and ?k = "of_nat j + 1 :: u32" and ?i = "drop_bit (j + 1) leaf"
  have P: "16 \<le> length ?P" using Suc.prems(4) by simp
  obtain c1 where c1: "read_signature ctx 16 = (Some (take 16 ?P), c1)" "moved pending_bytes 16 ctx c1" "v_address c1 = c_adrs l t 2 0 a b"
    using read_sig_available [of ctx] Suc.prems(1,3) P by auto
  let ?c3 = "c1\<lparr>v_address := c_adrs l t 2 0 ?k ?i\<rparr>" and ?s = "take 16 ?P"
  have s: "length ?s = 16" using P by simp
  have s3: "seeded seed ?c3" using Suc.prems(2) moved_facts(2) [OF c1(2)] by simp
  have idx: "?k = of_nat (j + 1)" "?i = of_nat (unat leaf div 2 ^ (j + 1))" by (simp_all only: of_nat_high) simp
  let ?x = "slh_hash seed (c_adrs l t 2 0 (of_nat (j + 1)) (of_nat (unat leaf div 2 ^ (j + 1))))
      (if even (unat leaf div 2 ^ j) then root @ ?s else ?s @ root)"
  have x: "(if drop_bit j leaf AND 1 = 0 then hash_h ?c3 root ?s else hash_h ?c3 ?s root) = ?x"
    using hash_h_spec [OF s3 _ Suc.prems(5) s] hash_h_spec [OF s3 _ s Suc.prems(5)]
    unfolding and_1_even unat_high idx [symmetric] by simp
  have up: "[j..<j + Suc n] = j # [Suc j..<Suc j + n]" by (simp add: upt_conv_Cons)
  have a2: "address_set_hash_or_index (address_set_chain_or_height c1 ?k) ?i = ?c3" by (simp add: adrs_ops c1(3))
  have step: "xmss_path leaf [j..<j + Suc n] root ctx = xmss_path leaf [Suc j..<Suc j + n] ?x ?c3"
    unfolding up xmss_path.simps c1(1) prod.case option.case Let_def a2 x ..
  have pre: "v_reader ?c3 = source_read" "v_address ?c3 = c_adrs l t 2 0 ?k ?i"
    "16 * n \<le> length (pending_bytes (v_reader_context ?c3))" "length ?x = 16"
    using Suc.prems moved_facts [OF c1(2)] by simp_all
  from Suc.IH [OF pre(1) s3 pre(2-4), of "Suc j"] obtain ctx' where
    "xmss_path leaf [Suc j..<Suc j + n] ?x ?c3 = (Some (fips_path (\<lambda>k i. slh_hash seed (c_adrs l t 2 0 (of_nat k) (of_nat i))) (Suc j + 1)
       (unat leaf div 2 ^ (Suc j + 1)) (unat leaf div 2 ^ Suc j) ?x (map (\<lambda>j. slice (drop 16 ?P) (16 * j) 16) [0..<n])), ctx')"
    "moved pending_bytes (16 * n) ?c3 ctx'"
    using moved_facts(3) [OF c1(2)] by auto
  moreover have "unat leaf div 2 ^ (Suc j + 1) = unat leaf div 2 ^ (j + 1) div 2" "unat leaf div 2 ^ Suc j = unat leaf div 2 ^ j div 2"
    by (simp_all add: div_mult2_eq [symmetric] mult.commute)
  moreover have "moved pending_bytes (16 * Suc n) ctx ctx'" using moved_trans [OF c1(2)] calculation(2) by simp
  ultimately show ?case
    using step values_Suc [of ?P 0 n] by (auto simp: slice_def simp del: upt_Suc)
qed

lemma fors_path_available:
  "v_reader ctx = source_read \<Longrightarrow> seeded seed ctx \<Longrightarrow> v_address ctx = c_adrs 0 t 3 kp a b \<Longrightarrow>
    16 * n \<le> length (pending_bytes (v_reader_context ctx)) \<Longrightarrow> length node = 16 \<Longrightarrow>
    \<exists>ctx' a' b'. fors_path fi ti [j..<j + n] node ctx =
        (Some (fips_path (fips_fors_node seed t kp) (j + 1) (unat ti div 2 ^ (j + 1)) (unat fi div 2 ^ j)
          node (map (\<lambda>j. slice (pending_bytes (v_reader_context ctx)) (16 * j) 16) [0..<n])), ctx') \<and>
      moved pending_bytes (16 * n) ctx ctx' \<and> v_address ctx' = c_adrs 0 t 3 kp a' b'"
proof (induction n arbitrary: ctx a b node j)
  case 0
  then show ?case by (auto simp: moved_refl)
next
  case (Suc n)
  let ?P = "pending_bytes (v_reader_context ctx)" and ?k = "of_nat j + 1 :: u32" and ?i = "drop_bit (j + 1) ti"
  have P: "16 \<le> length ?P" using Suc.prems(4) by simp
  obtain c1 where c1: "read_signature ctx 16 = (Some (take 16 ?P), c1)" "moved pending_bytes 16 ctx c1" "v_address c1 = c_adrs 0 t 3 kp a b"
    using read_sig_available [of ctx] Suc.prems(1,3) P by auto
  let ?c3 = "c1\<lparr>v_address := c_adrs 0 t 3 kp ?k ?i\<rparr>" and ?s = "take 16 ?P"
  have s: "length ?s = 16" using P by simp
  have s3: "seeded seed ?c3" using Suc.prems(2) moved_facts(2) [OF c1(2)] by simp
  have idx: "?k = of_nat (j + 1)" "?i = of_nat (unat ti div 2 ^ (j + 1))" by (simp_all only: of_nat_high) simp
  let ?x = "fips_fors_node seed t kp (j + 1) (unat ti div 2 ^ (j + 1)) (if even (unat fi div 2 ^ j) then node @ ?s else ?s @ node)"
  have x: "(if drop_bit j fi AND 1 = 0 then hash_h ?c3 node ?s else hash_h ?c3 ?s node) = ?x"
    using hash_h_spec [OF s3 _ Suc.prems(5) s] hash_h_spec [OF s3 _ s Suc.prems(5)]
    unfolding and_1_even unat_high fips_fors_node_def fips_hash_adrs idx [symmetric] by simp
  have up: "[j..<j + Suc n] = j # [Suc j..<Suc j + n]" by (simp add: upt_conv_Cons)
  have a2: "address_set_hash_or_index (address_set_chain_or_height c1 ?k) ?i = ?c3" by (simp add: adrs_ops c1(3))
  have step: "fors_path fi ti [j..<j + Suc n] node ctx = fors_path fi ti [Suc j..<Suc j + n] ?x ?c3"
    unfolding up fors_path.simps c1(1) prod.case option.case Let_def a2 x ..
  have pre: "v_reader ?c3 = source_read" "v_address ?c3 = c_adrs 0 t 3 kp ?k ?i"
    "16 * n \<le> length (pending_bytes (v_reader_context ?c3))" "length ?x = 16"
    using Suc.prems moved_facts [OF c1(2)] by (simp_all add: fips_fors_node_def fips_hash_adrs)
  from Suc.IH [OF pre(1) s3 pre(2-4), of "Suc j"] obtain ctx' a' b' where
    "fors_path fi ti [Suc j..<Suc j + n] ?x ?c3 = (Some (fips_path (fips_fors_node seed t kp) (Suc j + 1)
       (unat ti div 2 ^ (Suc j + 1)) (unat fi div 2 ^ Suc j) ?x (map (\<lambda>j. slice (drop 16 ?P) (16 * j) 16) [0..<n])), ctx')"
    "moved pending_bytes (16 * n) ?c3 ctx'" "v_address ctx' = c_adrs 0 t 3 kp a' b'"
    using moved_facts(3) [OF c1(2)] by auto
  moreover have "unat ti div 2 ^ (Suc j + 1) = unat ti div 2 ^ (j + 1) div 2" "unat fi div 2 ^ Suc j = unat fi div 2 ^ j div 2"
    by (simp_all add: div_mult2_eq [symmetric] mult.commute)
  moreover have "moved pending_bytes (16 * Suc n) ctx ctx'" using moved_trans [OF c1(2)] calculation(2) by simp
  ultimately show ?case
    using step values_Suc [of ?P 0 n] by (auto simp: slice_def simp del: upt_Suc)
qed

lemma xmss_available:
  assumes rd: "v_reader ctx = source_read" and s: "seeded seed ctx" and a: "v_address ctx = c_adrs l t ty leaf b c"
    and M: "length M = 16" and av: "704 \<le> length (pending_bytes (v_reader_context ctx))"
  shows "\<exists>ctx'. xmss_public_key_from_signature ctx leaf M =
      (Some (fips_xmss_root seed l t (unat leaf) (take 704 (pending_bytes (v_reader_context ctx))) M), ctx') \<and>
    moved pending_bytes 704 ctx ctx'"
proof -
  let ?P = "pending_bytes (v_reader_context ctx)" and ?W = "fips_wots_value seed l t leaf M"
  let ?c1 = "ctx\<lparr>v_address := c_adrs l t 1 leaf 0 0\<rparr>" and ?c2 = "ctx\<lparr>v_address := c_adrs l t 0 leaf 0 0\<rparr>"
  have c1: "address_set_type_and_clear_not_keypair ctx ADRS_WOTS_PK = ?c1" by (simp add: adrs_ops a)
  have c2: "address_set_type_and_clear_not_keypair ?c1 ADRS_WOTS_HASH = ?c2" by (simp add: adrs_ops)
  let ?h = "hash_start ?c1 qp_local"
  have rep: "qp_represents ?h (seed @ replicate 48 0 @ c_adrs l t 1 leaf 0 0)"
    using hash_start_represents [of seed ?c1] s by simp
  have pre: "v_reader ?c2 = source_read" "seeded seed ?c2" "v_address ?c2 = c_adrs l t 0 leaf 0 0"
    "16 * length [0..<35] \<le> length (pending_bytes (v_reader_context ?c2))" "\<forall>i\<in>set [0..<35]. i < 35"
    using rd s av by simp_all
  from wots_chains_available [OF M pre rep] obtain h' c3 a' b' where
    w: "wots_chains M (wots_checksum M) [0..<35] ?c2 ?h = (Some h', c3)" "moved pending_bytes (16 * 35) ctx c3"
      "v_address c3 = c_adrs l t 0 leaf a' b'"
      "qp_represents h' ((seed @ replicate 48 0 @ c_adrs l t 1 leaf 0 0) @ concat (map2 ?W [0..<35] (map (\<lambda>j. slice ?P (16 * j) 16) [0..<35])))"
    by (auto simp del: upt_conv_Cons_Cons upt_rec_numeral)
  let ?m = "concat (map (\<lambda>i. ?W i (slice (take 704 ?P) (16 * i) 16)) [0..<35])"
  have zip: "map2 ?W [0..<35] (map (\<lambda>j. slice ?P (16 * j) 16) [0..<35]) = map (\<lambda>i. ?W i (slice (take 704 ?P) (16 * i) 16)) [0..<35]"
    unfolding map2_upt by (rule map_cong [OF refl]) (simp add: slice_take)
  have "length ?m = 16 * length [0..<35]"
    by (intro length_concat_16 length_fips_wots_value) (use av in \<open>simp add: slice_take\<close>)
  then have lm: "length ?m < 2 ^ 32 - 86" by simp
  let ?pk = "slh_hash seed (c_adrs l t 1 leaf 0 0) ?m" and ?c4 = "c3\<lparr>v_address := c_adrs l t 2 0 0 0\<rparr>"
  have rep': "qp_represents h' (seed @ replicate 48 0 @ c_adrs l t 1 leaf 0 0 @ ?m)" using w(4) unfolding zip append_assoc .
  have pk: "hash_finish_n h' = ?pk"
    by (rule hash_finish_spec [OF rep' _ _ lm]) (use s in \<open>simp_all add: seeded_def\<close>)
  have c4: "address_set_type_and_clear c3 ADRS_TREE = ?c4" by (simp add: adrs_ops w(3))
  have s4: "seeded seed ?c4" using s moved_facts(2) [OF w(2)] by simp
  have pre4: "v_reader ?c4 = source_read" "v_address ?c4 = c_adrs l t 2 0 0 0" "16 * 9 \<le> length (pending_bytes (v_reader_context ?c4))" "length ?pk = 16"
    using rd moved_facts [OF w(2)] av by simp_all
  from xmss_path_available [OF pre4(1) s4 pre4(2-4), of leaf 0] moved_facts(3) [OF w(2)] obtain c5 where
    p: "xmss_path leaf [0..<9] ?pk ?c4 = (Some (fips_path (\<lambda>k i. slh_hash seed (c_adrs l t 2 0 (of_nat k) (of_nat i))) 1 (unat leaf div 2) (unat leaf)
        ?pk (map (\<lambda>j. slice (drop (16 * 35) ?P) (16 * j) 16) [0..<9])), c5)" "moved pending_bytes (16 * 9) ?c4 c5"
    by (auto simp del: upt_conv_Cons_Cons upt_rec_numeral)
  have sib: "map (\<lambda>j. slice (drop (16 * 35) ?P) (16 * j) 16) [0..<9] = map (\<lambda>k. slice (take 704 ?P) (560 + 16 * k) 16) [0..<9]"
    by (rule map_cong [OF refl]) (simp add: slice_take slice_drop)
  have lf: "(of_nat (unat leaf) :: u32) = leaf" by simp
  have "xmss_public_key_from_signature ctx leaf M =
      (Some (fips_xmss_root seed l t (unat leaf) (take 704 ?P) M), c5)"
    unfolding xmss_public_key_from_signature_def Let_def c1 c2 w(1) prod.case option.case pk c4 p(1)
      fips_xmss_root_def fips_hash_adrs sib lf ..
  moreover have "moved pending_bytes 704 ctx c5" using moved_trans [OF w(2), of "16 * 9" c5] p(2) by simp
  ultimately show ?thesis by blast
qed

lemma fors_trees_available:
  assumes md: "length md \<ge> 21"
  shows "v_reader ctx = source_read \<Longrightarrow> seeded seed ctx \<Longrightarrow> v_address ctx = c_adrs 0 t 3 kp a b \<Longrightarrow>
    208 * length is \<le> length (pending_bytes (v_reader_context ctx)) \<Longrightarrow> (\<forall>i\<in>set is. i < 14) \<Longrightarrow> qp_represents h m \<Longrightarrow>
    \<exists>h' ctx' a' b'. fors_trees md is ctx h = (Some h', ctx') \<and> moved pending_bytes (208 * length is) ctx ctx' \<and>
      v_address ctx' = c_adrs 0 t 3 kp a' b' \<and>
      qp_represents h' (m @ concat (map2 (fips_fors_root seed t kp (take 21 md)) is
         (map (\<lambda>j. slice (pending_bytes (v_reader_context ctx)) (208 * j) 208) [0..<length is])))"
proof (induction "is" arbitrary: ctx a b h m)
  case Nil
  then show ?case by (auto simp: moved_refl)
next
  case (Cons i "is")
  let ?P = "pending_bytes (v_reader_context ctx)" and ?fi = "fors_index_at md i" and ?B = "take 208 (pending_bytes (v_reader_context ctx))"
  let ?ti = "push_bit 12 (of_nat i) + ucast ?fi :: u32"
  have P: "208 \<le> length ?P" and i: "i < 14" using Cons.prems(4,5) by simp_all
  have ti: "unat ?ti = i * 2 ^ 12 + base_2b (take 21 md) 12 i" by (rule fors_tree_index [OF md i])
  have fi: "unat ?fi = base_2b (take 21 md) 12 i" by (rule fors_index_spec [OF md i])
  let ?c2 = "ctx\<lparr>v_address := c_adrs 0 t 3 kp 0 ?ti\<rparr>"
  have c2: "address_set_hash_or_index (address_set_chain_or_height ctx 0) ?ti = ?c2" by (simp add: adrs_ops Cons.prems(3))
  obtain c3 where c3: "read_signature ?c2 16 = (Some (take 16 ?P), c3)" "moved pending_bytes 16 ctx c3" "v_address c3 = c_adrs 0 t 3 kp 0 ?ti"
    using read_sig_available [of ?c2] Cons.prems(1) P by auto
  have s3: "seeded seed c3" using Cons.prems(2) moved_facts(2) [OF c3(2)] by simp
  let ?n = "fips_fors_node seed t kp 0 (i * 2 ^ 12 + base_2b (take 21 md) 12 i) (take 16 ?P)"
  have tw: "(of_nat (i * 2 ^ 12 + base_2b (take 21 md) 12 i) :: u32) = ?ti" unfolding ti [symmetric] by simp
  have n: "hash_f c3 (take 16 ?P) = ?n"
    using hash_f_spec [OF s3, of "take 16 ?P"] P c3(3) unfolding fips_fors_node_def fips_hash_adrs tw by simp
  have pre: "v_reader c3 = source_read" "16 * 12 \<le> length (pending_bytes (v_reader_context c3))" "length ?n = 16"
    using Cons.prems(1) moved_facts [OF c3(2)] P by (simp_all add: fips_fors_node_def fips_hash_adrs)
  let ?root = "fips_fors_root seed t kp (take 21 md) i ?B"
  have vals: "map (\<lambda>j. slice (drop 16 ?P) (16 * j) 16) [0..<12] = map (\<lambda>j. slice ?B (16 + 16 * j) 16) [0..<12]"
    by (rule map_cong [OF refl]) (simp add: slice_take slice_drop)
  have root: "fips_path (fips_fors_node seed t kp) 1 (unat ?ti div 2 ^ 1) (unat ?fi div 2 ^ 0) ?n
      (map (\<lambda>j. slice (drop 16 ?P) (16 * j) 16) [0..<12]) = ?root"
    unfolding vals ti fi fips_fors_root_def Let_def by (simp add: take_take min_def)
  from fors_path_available [OF pre(1) s3 c3(3) pre(2,3), of ?fi ?ti 0] obtain c4 a' b' where
    c4: "fors_path ?fi ?ti [0..<12] ?n c3 = (Some ?root, c4)" "moved pending_bytes (16 * 12) c3 c4" "v_address c4 = c_adrs 0 t 3 kp a' b'"
    unfolding moved_facts(3) [OF c3(2)] add_0 root by blast
  have m4: "moved pending_bytes 208 ctx c4" using moved_trans [OF c3(2) c4(2)] by simp
  have h4: "qp_represents (qp_sha256_update h ?root) (m @ ?root)" by (rule qp_represents_update [OF Cons.prems(6)])
  have pre4: "v_reader c4 = source_read" "seeded seed c4" "208 * length is \<le> length (pending_bytes (v_reader_context c4))" "\<forall>i\<in>set is. i < 14"
    using Cons.prems moved_facts [OF m4] by simp_all
  from Cons.IH [OF pre4(1,2) c4(3) pre4(3,4) h4] obtain h' c5 a' b' where
    IH: "fors_trees md is c4 (qp_sha256_update h ?root) = (Some h', c5)" "moved pending_bytes (208 * length is) c4 c5"
      "v_address c5 = c_adrs 0 t 3 kp a' b'"
      "qp_represents h' ((m @ ?root) @ concat (map2 (fips_fors_root seed t kp (take 21 md)) is
         (map (\<lambda>j. slice (drop 208 ?P) (208 * j) 208) [0..<length is])))"
    unfolding moved_facts(3) [OF m4] by blast
  have "fors_trees md (i # is) ctx h = (Some h', c5)"
    unfolding fors_trees.simps Let_def c2 c3(1) prod.case option.case n c4(1) IH(1) ..
  moreover have "moved pending_bytes (208 * length (i # is)) ctx c5" using moved_trans [OF m4 IH(2)] by simp
  ultimately show ?case
    using IH(3,4) blocks_Suc [of ?P 208 "length is"] by (auto simp del: upt_Suc)
qed

lemma fors_available:
  assumes rd: "v_reader ctx = source_read" and s: "seeded seed ctx" and a: "v_address ctx = c_adrs 0 t 3 kp b c"
    and md: "length md \<ge> 21" and av: "2912 \<le> length (pending_bytes (v_reader_context ctx))"
  shows "\<exists>ctx'. fors_public_key_from_signature ctx md =
      (Some (fips_fors_pk seed t kp (take 21 md) (take 2912 (pending_bytes (v_reader_context ctx)))), ctx') \<and>
    moved pending_bytes 2912 ctx ctx'"
proof -
  let ?P = "pending_bytes (v_reader_context ctx)" and ?R = "fips_fors_root seed t kp (take 21 md)"
  let ?c1 = "ctx\<lparr>v_address := c_adrs 0 t 4 kp 0 0\<rparr>" and ?c2 = "ctx\<lparr>v_address := c_adrs 0 t 3 kp 0 0\<rparr>"
  have c1: "address_set_type_and_clear_not_keypair ctx ADRS_FORS_ROOTS = ?c1" by (simp add: adrs_ops a)
  have c2: "address_set_type_and_clear_not_keypair ?c1 ADRS_FORS_TREE = ?c2" by (simp add: adrs_ops)
  let ?h = "hash_start ?c1 qp_local"
  have rep: "qp_represents ?h (seed @ replicate 48 0 @ c_adrs 0 t 4 kp 0 0)"
    using hash_start_represents [of seed ?c1] s by simp
  have pre: "v_reader ?c2 = source_read" "seeded seed ?c2" "v_address ?c2 = c_adrs 0 t 3 kp 0 0"
    "208 * length [0..<14] \<le> length (pending_bytes (v_reader_context ?c2))" "\<forall>i\<in>set [0..<14]. i < 14"
    using rd s av by simp_all
  from fors_trees_available [OF md pre rep] obtain h' c3 where
    w: "fors_trees md [0..<14] ?c2 ?h = (Some h', c3)" "moved pending_bytes (208 * 14) ctx c3"
      "qp_represents h' ((seed @ replicate 48 0 @ c_adrs 0 t 4 kp 0 0) @ concat (map2 ?R [0..<14] (map (\<lambda>j. slice ?P (208 * j) 208) [0..<14])))"
    by (auto simp del: upt_conv_Cons_Cons upt_rec_numeral)
  let ?m = "concat (map (\<lambda>i. ?R i (slice (take 2912 ?P) (208 * i) 208)) [0..<14])"
  have zip: "map2 ?R [0..<14] (map (\<lambda>j. slice ?P (208 * j) 208) [0..<14]) = map (\<lambda>i. ?R i (slice (take 2912 ?P) (208 * i) 208)) [0..<14]"
    unfolding map2_upt by (rule map_cong [OF refl]) (simp add: slice_take)
  have "length ?m = 16 * length [0..<14]" by (intro length_concat_16 length_fips_fors_root)
  then have lm: "length ?m < 2 ^ 32 - 86" by simp
  have rep': "qp_represents h' (seed @ replicate 48 0 @ c_adrs 0 t 4 kp 0 0 @ ?m)" using w(3) unfolding zip append_assoc .
  have pk: "hash_finish_n h' = slh_hash seed (c_adrs 0 t 4 kp 0 0) ?m"
    by (rule hash_finish_spec [OF rep' _ _ lm]) (use s in \<open>simp_all add: seeded_def\<close>)
  have "fors_public_key_from_signature ctx md = (Some (fips_fors_pk seed t kp (take 21 md) (take 2912 ?P)), c3)"
    unfolding fors_public_key_from_signature_def Let_def c1 c2 w(1) prod.case option.case pk fips_fors_pk_def fips_hash_adrs ..
  with w(2) show ?thesis by auto
qed

lemma slh_layers_available:
  "v_reader ctx = source_read \<Longrightarrow> seeded seed ctx \<Longrightarrow> 704 * n \<le> length (pending_bytes (v_reader_context ctx)) \<Longrightarrow> length M = 16 \<Longrightarrow>
    l + n = 7 \<Longrightarrow>
    \<exists>ctx'. slh_layers [l..<7] tree leaf M ctx =
        (Some (fips_ht_root seed l n (unat tree) (unat leaf) (take (704 * n) (pending_bytes (v_reader_context ctx))) M), ctx') \<and>
      moved pending_bytes (704 * n) ctx ctx'"
proof (induction n arbitrary: ctx M l tree leaf)
  case 0
  then show ?case by (auto simp: moved_refl)
next
  case (Suc n)
  let ?P = "pending_bytes (v_reader_context ctx)"
  have l: "[l..<7] = l # [Suc l..<7]" using Suc.prems(5) by (simp add: upt_conv_Cons)
  let ?c = "ctx\<lparr>v_address := c_adrs (of_nat l) tree 0 leaf 0 0\<rparr>"
  have c: "address_set_keypair (address_set_tree (address_set_layer (address_zero ctx) (of_nat l)) tree) leaf = ?c"
    by (simp add: adrs_ops)
  have pre: "v_reader ?c = source_read" "seeded seed ?c" "v_address ?c = c_adrs (of_nat l) tree 0 leaf 0 0"
    "704 \<le> length (pending_bytes (v_reader_context ?c))"
    using Suc.prems by simp_all
  let ?N = "fips_xmss_root seed (of_nat l) tree (unat leaf) (take 704 ?P) M"
  from xmss_available [OF pre(1-3) Suc.prems(4) pre(4)] obtain c1 where
    c1: "xmss_public_key_from_signature ?c leaf M = (Some ?N, c1)" "moved pending_bytes 704 ctx c1" by auto
  have pre1: "v_reader c1 = source_read" "seeded seed c1" "704 * n \<le> length (pending_bytes (v_reader_context c1))" "length ?N = 16" "Suc l + n = 7"
    using Suc.prems moved_facts [OF c1(2)] by (simp_all add: length_fips_xmss_root)
  let ?next = "if l + 1 < 7 then (ucast (tree AND 0x1ff), drop_bit 9 tree) else (leaf, tree) :: u32 \<times> u64"
  obtain leaf' tree' where nx: "?next = (leaf', tree')" by fastforce
  from Suc.IH [OF pre1, of tree' leaf'] obtain c2 where
    c2: "slh_layers [Suc l..<7] tree' leaf' ?N c1 =
      (Some (fips_ht_root seed (Suc l) n (unat tree') (unat leaf') (take (704 * n) (drop 704 ?P)) ?N), c2)" "moved pending_bytes (704 * n) c1 c2"
    unfolding moved_facts(3) [OF c1(2)] by blast
  have rest: "take (704 * n) (drop 704 ?P) = drop 704 (take (704 * Suc n) ?P)" by (simp add: drop_take)
  have tk: "take 704 (take (704 * Suc n) ?P) = take 704 ?P" by (simp add: take_take min_def)
  have ft: "fips_ht_root seed (Suc l) n (unat tree') (unat leaf') sg N = fips_ht_root seed (l + 1) n (unat tree div 2 ^ 9) (unat tree mod 2 ^ 9) sg N" for sg N
  proof (cases n)
    case (Suc k)
    then show ?thesis using nx Suc.prems(5) unat_high [of 9 tree] unat_u64_u32(2) [of tree] by (auto split: if_splits)
  qed simp
  have tw: "(of_nat (unat tree) :: u64) = tree" by simp
  have "slh_layers [l..<7] tree leaf M ctx =
      (Some (fips_ht_root seed l (Suc n) (unat tree) (unat leaf) (take (704 * Suc n) ?P) M), c2)"
    unfolding l slh_layers.simps Let_def c c1(1) prod.case option.case nx c2(1) ft rest fips_ht_root.simps(2) tk tw ..
  moreover have "moved pending_bytes (704 * Suc n) ctx c2" using moved_trans [OF c1(2) c2(2)] by simp
  ultimately show ?case by blast
qed

lemma slh_root_available:
  assumes rd: "v_reader ctx = source_read" and s: "seeded (v_pk_seed ctx) ctx" and lr: "length (v_pk_root ctx) = 16"
    and av: "7856 \<le> length (pending_bytes (v_reader_context ctx))" and cs: "length cs \<le> 255" and lm: "length message < 2 ^ 32 - 400"
  shows "\<exists>node ctx'. slh_root_from_signature ctx message cs (of_nat (length cs)) = (Some node, ctx') \<and>
    moved pending_bytes 7856 ctx ctx' \<and> length node = 16 \<and>
    (fips205_verify (v_pk_seed ctx @ v_pk_root ctx) message cs (take 7856 (pending_bytes (v_reader_context ctx))) \<longleftrightarrow> node = v_pk_root ctx)"
proof -
  let ?P = "pending_bytes (v_reader_context ctx)"
  define seed root where "seed = v_pk_seed ctx" and "root = v_pk_root ctx"
  note sr = seed_def [symmetric] root_def [symmetric]
  let ?seed = seed and ?root = root
  let ?R = "take 16 ?P" and ?M = "[0, of_nat (length cs)] @ cs @ message"
  have s: "seeded seed ctx" and lr: "length root = 16" using s lr by (simp_all add: sr)
  have seed: "length ?seed = 16" using s by (simp add: seeded_def)
  have P16: "16 \<le> length ?P" using av by simp
  obtain c1 where c1: "read_signature ctx 16 = (Some ?R, c1)" "moved pending_bytes 16 ctx c1"
    by (rule read_sig_available [OF rd P16])
  have pk: "v_pk_seed c1 = ?seed" "v_pk_root c1 = ?root" using c1(2) by (simp_all add: moved_def seed_def root_def)
  define D where "D = h_message c1 ?R message cs (of_nat (length cs))"
  have D: "D = spec_sha256 (?R @ ?seed @ spec_sha256 (?R @ ?seed @ ?root @ ?M) @ [0, 0, 0, 0])"
    unfolding D_def pk [symmetric] by (rule h_message_spec) (use pk seed lr cs lm P16 in simp_all)
  have lD: "length D = 32" by (simp add: D length_spec_sha256)
  define tree where "tree = (read_be_uint (drop 21 D) 7 AND (push_bit (63 - 9) 1 - 1))"
  define leaf where "leaf = (ucast (read_be_uint (drop (21 + 7) D) 2) AND 0x1ff :: u32)"
  have tree: "unat tree = bytes_int (slice D 21 7) mod 2 ^ 54"
    using tree_index_value [of D] lD by (simp add: tree_def)
  have leaf: "unat leaf = bytes_int (slice D 28 2) mod 2 ^ 9"
    using leaf_index_value [of D] lD by (simp add: leaf_def)
  let ?c5 = "c1\<lparr>v_address := c_adrs 0 tree 3 leaf 0 0\<rparr>"
  have c5: "address_set_keypair (address_set_type_and_clear_not_keypair (address_set_tree (address_zero c1) tree) ADRS_FORS_TREE) leaf = ?c5"
    by (simp add: adrs_ops)
  have pre5: "v_reader ?c5 = source_read" "seeded ?seed ?c5" "v_address ?c5 = c_adrs 0 tree 3 leaf 0 0" "21 \<le> length D"
    "2912 \<le> length (pending_bytes (v_reader_context ?c5))"
    using rd s moved_facts [OF c1(2)] lD av by simp_all
  let ?F = "fips_fors_pk ?seed tree leaf (take 21 D) (take 2912 (drop 16 ?P))"
  from fors_available [OF pre5] moved_facts(3) [OF c1(2)] obtain c6 where
    c6: "fors_public_key_from_signature ?c5 D = (Some ?F, c6)" "moved pending_bytes 2912 c1 c6" by auto
  from moved_trans [OF c1(2) c6(2)] have m6: "moved pending_bytes 2928 ctx c6" by simp
  have pre6: "v_reader c6 = source_read" "seeded ?seed c6" "704 * 7 \<le> length (pending_bytes (v_reader_context c6))" "length ?F = 16" "0 + 7 = (7 :: nat)"
    using rd s moved_facts [OF m6] av by (simp_all add: fips_fors_pk_def fips_hash_adrs)
  let ?H = "fips_ht_root ?seed 0 7 (unat tree) (unat leaf) (take (704 * 7) (drop 2928 ?P)) ?F"
  from slh_layers_available [OF pre6, of tree leaf] obtain c7 where
    c7: "slh_layers [0..<7] tree leaf ?F c6 = (Some ?H, c7)" "moved pending_bytes (704 * 7) c6 c7"
    unfolding moved_facts(3) [OF m6] by blast
  from moved_trans [OF m6 c7(2)] have m7: "moved pending_bytes 7856 ctx c7" by simp
  have run: "slh_root_from_signature ctx message cs (of_nat (length cs)) = (Some ?H, c7)"
    unfolding slh_root_from_signature_def c1(1) prod.case option.case Let_def D_def [symmetric]
      tree_def [symmetric] leaf_def [symmetric] c5 c6(1) c7(1) ..
  have lH: "length ?H = 16" by (rule length_fips_ht_root [OF pre6(4)])
  let ?S = "take 7856 ?P"
  have msg: "fips_h_msg (take 16 ?S) ?seed ?root ([0, of_nat (length cs)] @ cs @ message) = take 30 D"
    by (simp add: fips_h_msg_def D take_take min_def)
  have parts: "slice ?S 16 2912 = take 2912 (drop 16 ?P)" "slice ?S 2928 4928 = take (704 * 7) (drop 2928 ?P)"
    "slice (take 30 D) 21 7 = slice D 21 7" "slice (take 30 D) 28 2 = slice D 28 2" "take 21 (take 30 D) = take 21 D"
    by (simp_all add: slice_take take_take min_def) (simp_all add: slice_def)
  have sp: "take 16 (seed @ root) = seed" "drop 16 (seed @ root) = root" using seed by simp_all
  have words: "(of_nat (unat tree) :: u64) = tree" "(of_nat (unat leaf) :: u32) = leaf" by simp_all
  have "fips205_verify (?seed @ ?root) message cs ?S \<longleftrightarrow> ?H = ?root"
    unfolding fips205_verify_def Let_def sp msg parts tree [symmetric] leaf [symmetric] words using cs av by simp
  with run m7 lH show ?thesis unfolding sr by blast
qed

text \<open>A stage that succeeds has read all it needs.\<close>

lemma read_sig_some:
  assumes "read_signature ctx 16 = (Some x, ctx')" and "v_reader ctx = source_read"
  shows "moved pending_bytes 16 ctx ctx'"
proof (cases "16 \<le> length (pending_bytes (v_reader_context ctx))")
  case True
  then show ?thesis using read_sig_available [of ctx] assms by (metis prod.inject)
next
  case False
  then show ?thesis
    using assms read_exhausted [of "v_reader_context ctx" 16]
    by (simp add: read_signature_def case_prod_unfold split: if_split_asm)
qed

lemma chain_moved: "moved pending_bytes 0 ctx (fst (chain ctx v d s))"
proof -
  let ?step = "\<lambda>j (c, v). let c' = address_set_hash_or_index c (of_nat j) in (c', hash_f c' v)"
  have "moved pending_bytes 0 ctx (fst (fold ?step js (c, v)))" if "moved pending_bytes 0 ctx c" for js c v
    using that by (induction js arbitrary: c v) (simp_all add: Let_def address_set_hash_or_index_def)
  then show ?thesis unfolding chain_def by (simp add: moved_refl)
qed

lemma wots_chains_some:
  "wots_chains M ck is ctx h = (Some h', ctx') \<Longrightarrow> v_reader ctx = source_read \<Longrightarrow> moved pending_bytes (16 * length is) ctx ctx'"
proof (induction "is" arbitrary: ctx h)
  case (Cons i "is")
  let ?d = "wots_digit_at M ck i"
  from Cons.prems(1) obtain v c2 c3 v' where
    r: "read_signature (address_set_chain_or_height ctx (of_nat i)) 16 = (Some v, c2)" "chain c2 v ?d (15 - ?d) = (c3, v')"
      "wots_chains M ck is c3 (qp_sha256_update h v') = (Some h', ctx')"
    by (auto simp: Let_def split: prod.splits option.splits)
  have "moved pending_bytes 16 ctx c2"
    using read_sig_some [OF r(1)] Cons.prems(2) by (simp add: address_set_chain_or_height_def)
  from moved_trans [OF this] chain_moved [of c2 v ?d "15 - ?d"] r(2) have m: "moved pending_bytes 16 ctx c3"
    by (metis add.right_neutral fst_conv)
  from moved_trans [OF m Cons.IH [OF r(3)]] moved_facts(1) [OF m] Cons.prems(2) show ?case by simp
qed (simp add: moved_refl)

lemma xmss_path_some:
  "xmss_path leaf is root ctx = (Some x, ctx') \<Longrightarrow> v_reader ctx = source_read \<Longrightarrow> moved pending_bytes (16 * length is) ctx ctx'"
proof (induction "is" arbitrary: ctx root)
  case (Cons i "is")
  from Cons.prems(1) obtain v c1 a root' where
    r: "read_signature ctx 16 = (Some v, c1)" "xmss_path leaf is root' (c1\<lparr>v_address := a\<rparr>) = (Some x, ctx')"
    by (auto simp: Let_def address_set_chain_or_height_def address_set_hash_or_index_def split: prod.splits option.splits)
  have m: "moved pending_bytes 16 ctx c1" by (rule read_sig_some [OF r(1) Cons.prems(2)])
  from moved_trans [OF m] Cons.IH [OF r(2)] moved_facts(1) [OF m] Cons.prems(2) show ?case by simp
qed (simp add: moved_refl)

lemma fors_path_some:
  "fors_path fi ti is node ctx = (Some x, ctx') \<Longrightarrow> v_reader ctx = source_read \<Longrightarrow> moved pending_bytes (16 * length is) ctx ctx'"
proof (induction "is" arbitrary: ctx node)
  case (Cons i "is")
  from Cons.prems(1) obtain v c1 a node' where
    r: "read_signature ctx 16 = (Some v, c1)" "fors_path fi ti is node' (c1\<lparr>v_address := a\<rparr>) = (Some x, ctx')"
    by (auto simp: Let_def address_set_chain_or_height_def address_set_hash_or_index_def split: prod.splits option.splits)
  have m: "moved pending_bytes 16 ctx c1" by (rule read_sig_some [OF r(1) Cons.prems(2)])
  from moved_trans [OF m] Cons.IH [OF r(2)] moved_facts(1) [OF m] Cons.prems(2) show ?case by simp
qed (simp add: moved_refl)

lemma fors_trees_some:
  "fors_trees md is ctx h = (Some h', ctx') \<Longrightarrow> v_reader ctx = source_read \<Longrightarrow> moved pending_bytes (208 * length is) ctx ctx'"
proof (induction "is" arbitrary: ctx h)
  case (Cons i "is")
  from Cons.prems(1) obtain a v c3 fi ti n n' c4 where
    r: "read_signature (ctx\<lparr>v_address := a\<rparr>) 16 = (Some v, c3)" "fors_path fi ti [0..<12] n c3 = (Some n', c4)"
      "fors_trees md is c4 (qp_sha256_update h n') = (Some h', ctx')"
    by (auto simp: Let_def address_set_chain_or_height_def address_set_hash_or_index_def split: prod.splits option.splits
        simp del: upt_conv_Cons_Cons upt_rec_numeral fors_path.simps)
  have m3: "moved pending_bytes 16 ctx c3" using read_sig_some [OF r(1)] Cons.prems(2) by simp
  have "moved pending_bytes 192 c3 c4"
    using fors_path_some [OF r(2)] moved_facts(1) [OF m3] Cons.prems(2) by simp
  from moved_trans [OF m3 this] have m4: "moved pending_bytes 208 ctx c4" by simp
  from moved_trans [OF m4 Cons.IH [OF r(3)]] moved_facts(1) [OF m4] Cons.prems(2) show ?case by simp
qed (simp add: moved_refl)

lemma fors_some:
  assumes "fors_public_key_from_signature ctx md = (Some x, ctx')" and rd: "v_reader ctx = source_read"
  shows "moved pending_bytes 2912 ctx ctx'"
proof -
  from assms(1) obtain a h h' where "fors_trees md [0..<14] (ctx\<lparr>v_address := a\<rparr>) h = (Some h', ctx')"
    by (auto simp: fors_public_key_from_signature_def Let_def address_set_type_and_clear_not_keypair_def split: prod.splits option.splits
        simp del: upt_conv_Cons_Cons upt_rec_numeral fors_trees.simps)
  from fors_trees_some [OF this] rd show ?thesis by simp
qed

lemma xmss_some:
  assumes "xmss_public_key_from_signature ctx leaf M = (Some x, ctx')" and rd: "v_reader ctx = source_read"
  shows "moved pending_bytes 704 ctx ctx'"
proof -
  from assms(1) obtain a h h' c3 a' root where
    r: "wots_chains M (wots_checksum M) [0..<35] (ctx\<lparr>v_address := a\<rparr>) h = (Some h', c3)"
      "xmss_path leaf [0..<9] root (c3\<lparr>v_address := a'\<rparr>) = (Some x, ctx')"
    by (auto simp: xmss_public_key_from_signature_def Let_def address_set_type_and_clear_not_keypair_def address_set_type_and_clear_def
        split: prod.splits option.splits simp del: upt_conv_Cons_Cons upt_rec_numeral wots_chains.simps xmss_path.simps)
  have m3: "moved pending_bytes 560 ctx c3" using wots_chains_some [OF r(1)] rd by simp
  have "moved pending_bytes 144 c3 ctx'" using xmss_path_some [OF r(2)] moved_facts(1) [OF m3] rd by simp
  from moved_trans [OF m3 this] show ?thesis by simp
qed

lemma slh_layers_some:
  "slh_layers ls tree leaf node ctx = (Some x, ctx') \<Longrightarrow> v_reader ctx = source_read \<Longrightarrow> moved pending_bytes (704 * length ls) ctx ctx'"
proof (induction ls arbitrary: ctx tree leaf node)
  case (Cons l ls)
  from Cons.prems(1) obtain a n c5 tree' leaf' where
    r: "xmss_public_key_from_signature (ctx\<lparr>v_address := a\<rparr>) leaf node = (Some n, c5)"
      "slh_layers ls tree' leaf' n c5 = (Some x, ctx')"
    by (auto simp: Let_def address_zero_def address_set_layer_def address_set_tree_def address_set_keypair_def
        split: prod.splits option.splits if_splits)
  have m: "moved pending_bytes 704 ctx c5" using xmss_some [OF r(1)] Cons.prems(2) by simp
  from moved_trans [OF m Cons.IH [OF r(2)]] moved_facts(1) [OF m] Cons.prems(2) show ?case by simp
qed (simp add: moved_refl)

lemma slh_root_some:
  assumes "slh_root_from_signature ctx message cs n = (Some x, ctx')" and rd: "v_reader ctx = source_read"
  shows "moved pending_bytes 7856 ctx ctx'"
proof -
  from assms(1) obtain R c1 a D node c6 tree leaf where
    r: "read_signature ctx 16 = (Some R, c1)" "fors_public_key_from_signature (c1\<lparr>v_address := a\<rparr>) D = (Some node, c6)"
      "slh_layers [0..<7] tree leaf node c6 = (Some x, ctx')"
    by (auto simp: slh_root_from_signature_def Let_def address_zero_def address_set_tree_def address_set_type_and_clear_not_keypair_def
        address_set_keypair_def split: prod.splits option.splits simp del: upt_conv_Cons_Cons upt_rec_numeral slh_layers.simps)
  have m1: "moved pending_bytes 16 ctx c1" by (rule read_sig_some [OF r(1) rd])
  have "moved pending_bytes 2912 c1 c6" using fors_some [OF r(2)] moved_facts(1) [OF m1] rd by simp
  from moved_trans [OF m1 this] have m6: "moved pending_bytes 2928 ctx c6" by simp
  have "moved pending_bytes 4928 c6 ctx'" using slh_layers_some [OF r(3)] moved_facts(1) [OF m6] rd by simp
  from moved_trans [OF m6 this] show ?thesis by simp
qed

end

section \<open>Properties\<close>

lemma slhdsa_stream_ok:
  assumes src: "byte_source reader pending" and pk: "length pk = 32" and m: "length message < 2 ^ 32 - 400"
    and run: "qp_slhdsa_sha2_128s_verify_stream (Some pk) (Some message) (length message) (Some cs) (length cs) siglen
      (Some reader) r c = (res, r', c')"
  shows "(res = QP_SLHDSA_OK \<longleftrightarrow>
      siglen = 7856 \<and> siglen \<le> length (pending r) \<and> fips205_verify pk message cs (take siglen (pending r))) \<and>
    (res = QP_SLHDSA_OK \<longrightarrow> pending r' = drop siglen (pending r) \<and> c' = map_option (\<lambda>_. siglen) c)"
proof (cases "siglen = 7856 \<and> length cs \<le> 255")
  case False
  then have "res \<noteq> QP_SLHDSA_OK"
    using run by (auto simp: qp_slhdsa_sha2_128s_verify_stream_def Let_def split: if_split_asm)
  then show ?thesis using False by (auto simp: fips205_verify_def)
next
  case True
  define v where "v = \<lparr>v_pk_seed = take 16 pk, v_pk_root = drop 16 pk, v_address = replicate 22 0,
    v_seeded_state = qp_sha256_fips205_seed (take 16 pk), v_reader = reader, v_reader_context = r, v_consumed = 0\<rparr>"
  obtain node w where nw: "slh_root_from_signature v message cs (of_nat (length cs)) = (node, w)" by fastforce
  have r: "r' = v_reader_context w" "c' = map_option (\<lambda>_. v_consumed w) c"
    "res = (case node of None \<Rightarrow> QP_SLHDSA_IO_ERROR | Some n \<Rightarrow> if v_consumed w \<noteq> 7856 then QP_SLHDSA_BAD_LENGTH
        else if qp_constant_time_equal n (v_pk_root w) 16 then QP_SLHDSA_OK else QP_SLHDSA_BAD_SIGNATURE)"
    using run True nw [unfolded v_def] by (simp_all add: qp_slhdsa_sha2_128s_verify_stream_def Let_def)
  have l16: "length (take 16 pk) = 16" using pk by simp
  have sd: "seeded (take 16 pk) v"
    unfolding seeded_def v_def slh_verify_ctx.simps fips205_seed_state [OF l16] using l16 by blast
  have vf: "v_reader v = reader" "seeded (v_pk_seed v) v" "length (v_pk_root v) = 16" "v_pk_seed v = take 16 pk"
    "v_consumed v = 0" "v_pk_root v = drop 16 pk" "v_reader_context v = r"
    using pk sd by (simp_all add: v_def)
  show ?thesis
  proof (cases "7856 \<le> length (pending r)")
    case av: True
    have L: "7856 \<le> length (pending (v_reader_context v))" and C: "length cs \<le> 255" using av True by (simp_all only: vf(7))
    from byte_source.slh_root_available [OF src vf(1-3) L C m]
    obtain n w' where "slh_root_from_signature v message cs (of_nat (length cs)) = (Some n, w')"
      and n': "moved pending 7856 v w'" "length n = 16" "fips205_verify pk message cs (take 7856 (pending r)) \<longleftrightarrow> n = drop 16 pk"
      unfolding vf(4,6,7) append_take_drop_id by blast
    with nw have "node = Some n" "w = w'" by simp_all
    with n' have n: "node = Some n" "moved pending 7856 v w" "length n = 16"
      "fips205_verify pk message cs (take 7856 (pending r)) \<longleftrightarrow> n = drop 16 pk"
      by (simp_all only:)
    have w: "v_consumed w = 7856" "v_pk_root w = drop 16 pk" "pending (v_reader_context w) = drop 7856 (pending r)"
      using n(2) vf by (simp_all add: moved_def)
    have "qp_constant_time_equal n (drop 16 pk) 16 \<longleftrightarrow> n = drop 16 pk"
      using qp_constant_time_equal_iff [of 16 n "drop 16 pk"] n(3) pk by simp
    then have "res = QP_SLHDSA_OK \<longleftrightarrow> n = drop 16 pk" using r(3) n(1) w(1,2) by simp
    then show ?thesis unfolding r(1,2) w(1,3) conjunct1 [OF True] using n(4) av by simp
  next
    case False
    have "node = None"
      using byte_source.slh_root_some [OF src, of v message cs "of_nat (length cs)"] nw vf(1,7) False
      by (cases node) (auto simp: moved_def)
    then show ?thesis using r False True by simp
  qed
qed

text \<open>C39: The streaming SLH-DSA verifier accepts exactly the signatures FIPS 205 accepts. Whatever reader
  hands it the bytes, as long as it honours the contract of a byte source, for every public key of 32
  bytes, every message of fewer than \<open>2^32 - 400\<close> bytes, context string and announced length: the result is \<open>QP_SLHDSA_OK\<close> if and
  only if 7856 bytes were announced, the source holds them, and they are a valid SLH-DSA-SHA2-128s
  signature of the message under the context. The verifier has then consumed exactly the signature and
  reports its length.\<close>

theorem slhdsa_stream_exact:
  assumes src: "byte_source reader pending" and pk: "length pk = 32" and m: "length message < 2 ^ 32 - 400"
    and run: "qp_slhdsa_sha2_128s_verify_stream (Some pk) (Some message) (length message) (Some cs) (length cs) siglen
      (Some reader) r c = (res, r', c')"
  shows "(res = QP_SLHDSA_OK \<longleftrightarrow>
      siglen = 7856 \<and> siglen \<le> length (pending r) \<and> fips205_verify pk message cs (take siglen (pending r))) \<and>
    (res = QP_SLHDSA_OK \<longrightarrow> pending r' = drop siglen (pending r) \<and> c' = map_option (\<lambda>_. siglen) c)"
  using assms by (rule slhdsa_stream_ok)

theorem slhdsa_stream_exact_witness:
  "\<not> (\<exists>sig. length sig = 16 \<and> fst (qp_slhdsa_sha2_128s_verify_stream (Some (replicate 32 7)) (Some [1, 2, 3]) 3 (Some []) 0 7856
      (Some string_read) sig None) = QP_SLHDSA_OK)"
proof
  assume "\<exists>sig. length sig = 16 \<and> fst (qp_slhdsa_sha2_128s_verify_stream (Some (replicate 32 7)) (Some [1, 2, 3]) 3 (Some []) 0 7856
      (Some string_read) sig None) = QP_SLHDSA_OK"
  then obtain sig :: bytes where s: "length sig = 16"
    "fst (qp_slhdsa_sha2_128s_verify_stream (Some (replicate 32 7)) (Some [1, 2, 3]) 3 (Some []) 0 7856 (Some string_read) sig None) = QP_SLHDSA_OK"
    by blast
  obtain r' c' where "qp_slhdsa_sha2_128s_verify_stream (Some (replicate 32 7)) (Some [1, 2, 3 :: u8]) (length [1, 2, 3 :: u8]) (Some [])
      (length ([] :: bytes)) 7856 (Some string_read) sig None = (QP_SLHDSA_OK, r', c')"
    using s(2) by (metis eq_fst_iff length_Cons list.size(3) numeral_3_eq_3)
  from slhdsa_stream_exact [OF string_source.byte_source_axioms _ _ this] s(1) show False by simp
qed

end
