(* ===== verification/NpqFirmware.thy ===== *)
theory NpqFirmware
  imports NpqState NpqRecords NpqLms NpqFips205
begin

text \<open>
  NanoPQ firmware, \<open>main.c\<close> and \<open>provisioning.h\<close>: the serial line, the authorisation of the
  post-quantum policy, the session the device opens at every boot, its sensor and command records,
  and the life of the device as a step relation with power loss.

  The hardware is what the registers show. The receiver is a script of what each poll of the status
  register finds: a byte, or no byte together with the value of the timer. The three builds of the
  firmware (\<open>NPQ_AUTH_LMS\<close>, \<open>NPQ_LMS_W8\<close>) are a parameter. A byte written past the end of an
  array has no defined effect; an operation that does so is \<open>None\<close>.
\<close>

unbundle bit_operations_syntax

section \<open>Provisioned constants\<close>

definition NPQ_DEVICE_ROOT :: bytes where
  "NPQ_DEVICE_ROOT =
     [0x1b, 0x47, 0x6c, 0xe0, 0x0b, 0x45, 0x87, 0x91, 0x7e, 0xc4, 0xee, 0x14, 0xa2, 0x5e, 0x1a, 0xf6,
      0xb5, 0x3a, 0xb3, 0x39, 0x6d, 0x6c, 0x28, 0x1f, 0x5a, 0x7a, 0x84, 0xc7, 0x16, 0x67, 0x33, 0x42]"

definition NPQ_DEVICE_ID :: bytes where
  "NPQ_DEVICE_ID = [0x03, 0xaf, 0xe9, 0xd9, 0x89, 0x40, 0xf1, 0xd2]"

definition NPQ_SLHDSA_PUBLIC_KEY :: bytes where
  "NPQ_SLHDSA_PUBLIC_KEY =
     [0xc4, 0xe5, 0x3d, 0xaa, 0xf2, 0x1d, 0x9b, 0x2c, 0x68, 0x47, 0x39, 0x83, 0x54, 0x11, 0x65, 0xf0,
      0x84, 0x37, 0x13, 0x94, 0x18, 0x65, 0xcd, 0x3e, 0xd7, 0x80, 0xac, 0xde, 0x08, 0xc7, 0xe3, 0x64]"

definition NPQ_LMS_W4_PUBLIC_KEY :: bytes where
  "NPQ_LMS_W4_PUBLIC_KEY =
     [0x00, 0x00, 0x00, 0x05, 0x00, 0x00, 0x00, 0x03, 0x43, 0xd7, 0x76, 0xdc, 0x3c, 0xb7, 0x24, 0x6f,
      0x97, 0xb3, 0x80, 0x5e, 0x37, 0x8b, 0x1a, 0xdd, 0xb8, 0x04, 0xc0, 0xe0, 0x62, 0x71, 0xe1, 0xd6,
      0x43, 0x77, 0x3b, 0xe5, 0x56, 0x13, 0x2b, 0xc5, 0x84, 0x18, 0xb1, 0x7d, 0xec, 0xc5, 0x2b, 0x7d,
      0xac, 0x41, 0x01, 0x1e, 0x3f, 0x31, 0xfa, 0xd9]"

definition NPQ_LMS_W8_PUBLIC_KEY :: bytes where
  "NPQ_LMS_W8_PUBLIC_KEY =
     [0x00, 0x00, 0x00, 0x05, 0x00, 0x00, 0x00, 0x04, 0x64, 0x4a, 0xed, 0xf1, 0xc8, 0xb8, 0xe6, 0x1a,
      0x60, 0x6d, 0xd1, 0xb6, 0x66, 0x4b, 0x36, 0x0d, 0xcc, 0x9e, 0xef, 0xd3, 0xe2, 0x85, 0x87, 0xf5,
      0xc6, 0x6e, 0x47, 0x4e, 0xc9, 0xcd, 0x88, 0x6b, 0x88, 0xbd, 0x46, 0xfb, 0x8b, 0xf4, 0x5f, 0x78,
      0x1e, 0x20, 0x4c, 0xfc, 0x0b, 0x77, 0xfd, 0x3d]"

definition NPQ_DEVICE_CLASS_ID :: bytes where
  "NPQ_DEVICE_CLASS_ID =
     [0x03, 0xaf, 0xe9, 0xd9, 0x89, 0x40, 0xf1, 0xd2, 0xce, 0x19, 0x6f, 0xc7, 0x4c, 0xb4, 0xd5, 0x93]"

definition NPQ_LEGACY_POLICY_DIGEST :: bytes where
  "NPQ_LEGACY_POLICY_DIGEST =
     [0xc7, 0xdb, 0x98, 0x59, 0x14, 0xea, 0xd0, 0x0d, 0x7e, 0xf5, 0x2e, 0xe5, 0xdb, 0x72, 0xc5, 0x21]"

text \<open>The build selects the algorithm that authorises a policy.\<close>

datatype auth_build = AUTH_SLHDSA | AUTH_LMS_W4 | AUTH_LMS_W8

fun NPQ_AUTH_ALGORITHM_ID :: "auth_build \<Rightarrow> u8" where
  "NPQ_AUTH_ALGORITHM_ID AUTH_SLHDSA = 1"
| "NPQ_AUTH_ALGORITHM_ID AUTH_LMS_W4 = 2"
| "NPQ_AUTH_ALGORITHM_ID AUTH_LMS_W8 = 3"

fun NPQ_AUTH_SIGNATURE_BYTES :: "auth_build \<Rightarrow> nat" where
  "NPQ_AUTH_SIGNATURE_BYTES AUTH_SLHDSA = 7856"
| "NPQ_AUTH_SIGNATURE_BYTES AUTH_LMS_W4 = 2348"
| "NPQ_AUTH_SIGNATURE_BYTES AUTH_LMS_W8 = 1292"

fun NPQ_AUTH_PUBLIC_KEY :: "auth_build \<Rightarrow> bytes" where
  "NPQ_AUTH_PUBLIC_KEY AUTH_SLHDSA = NPQ_SLHDSA_PUBLIC_KEY"
| "NPQ_AUTH_PUBLIC_KEY AUTH_LMS_W4 = NPQ_LMS_W4_PUBLIC_KEY"
| "NPQ_AUTH_PUBLIC_KEY AUTH_LMS_W8 = NPQ_LMS_W8_PUBLIC_KEY"

abbreviation (input) NPQ_FRAME_ENROLL_REQUIRED :: u8 where "NPQ_FRAME_ENROLL_REQUIRED \<equiv> 6"
abbreviation (input) NPQ_FRAME_ENROLL_BEGIN :: u8 where "NPQ_FRAME_ENROLL_BEGIN \<equiv> 7"
abbreviation (input) NPQ_FRAME_ENROLL_RESULT :: u8 where "NPQ_FRAME_ENROLL_RESULT \<equiv> 8"
abbreviation (input) NPQ_FRAME_ENROLL_CHUNK_READY :: u8 where "NPQ_FRAME_ENROLL_CHUNK_READY \<equiv> 9"
abbreviation (input) NPQ_PAYLOAD_SENSOR :: u8 where "NPQ_PAYLOAD_SENSOR \<equiv> 0x01"
abbreviation (input) NPQ_PAYLOAD_STATUS :: u8 where "NPQ_PAYLOAD_STATUS \<equiv> 0x02"
abbreviation (input) NPQ_PAYLOAD_COMMAND :: u8 where "NPQ_PAYLOAD_COMMAND \<equiv> 0x10"

section \<open>The serial line\<close>

datatype poll_event =
    Arrived u8
  | Idle u16

record uart =
  u_rx :: "poll_event list"
  u_timer :: u16
  u_tx :: bytes

definition uart_putc :: "u8 \<Rightarrow> uart \<Rightarrow> uart" where
  "uart_putc value u = u\<lparr>u_tx := u_tx u @ [value]\<rparr>"

text \<open>The polling loop: it gives up when the 16-bit difference to the timer value it started with
  reaches the limit. When the script ends, nothing arrives any more and the timer runs on.\<close>

fun uart_poll :: "u16 \<Rightarrow> poll_event list \<Rightarrow> u16 \<Rightarrow> u8 option \<times> poll_event list \<times> u16" where
  "uart_poll started [] timer = (None, [], timer)"
| "uart_poll started (Arrived b # es) timer = (Some b, es, timer)"
| "uart_poll started (Idle t # es) timer = (if t - started \<ge> 31250 then (None, es, t) else uart_poll started es t)"

definition uart_getc_timeout :: "uart \<Rightarrow> u8 option \<times> uart" where
  "uart_getc_timeout u =
     (let (value, rx, timer) = uart_poll (u_timer u) (u_rx u) (u_timer u) in (value, u\<lparr>u_rx := rx, u_timer := timer\<rparr>))"

text \<open>The bytes written to the output, and whether all arrived.\<close>

primrec uart_read_exact :: "nat \<Rightarrow> uart \<Rightarrow> bytes \<times> bool \<times> uart" where
  "uart_read_exact 0 u = ([], True, u)"
| "uart_read_exact (Suc n) u =
     (case uart_getc_timeout u of
        (None, u1) \<Rightarrow> ([], False, u1)
      | (Some b, u1) \<Rightarrow> (let (bs, ok, u2) = uart_read_exact n u1 in (b # bs, ok, u2)))"

definition uart_send_frame :: "bytes \<Rightarrow> u8 \<Rightarrow> uart \<Rightarrow> uart" where
  "uart_send_frame frame len u = fold uart_putc (map (\<lambda>i. frame ! i) [0..<unat len]) (uart_putc len u)"

text \<open>The frame goes into a buffer of the caller, which the function takes to be 64 bytes long.\<close>

definition uart_read_frame :: "bytes \<Rightarrow> uart \<Rightarrow> (bool \<times> bytes \<times> u8 \<times> uart) option" where
  "uart_read_frame frame u =
     (case uart_getc_timeout u of
        (None, u1) \<Rightarrow> Some (False, frame, 0, u1)
      | (Some incoming_length, u1) \<Rightarrow>
          if incoming_length = 0 \<or> incoming_length > 64 then Some (False, frame, 0, u1)
          else
            let (bs, ok, u2) = uart_read_exact (unat incoming_length) u1
            in if length bs > length frame then None
               else if \<not> ok then Some (False, memcpy frame 0 bs, 0, u2)
               else Some (True, memcpy frame 0 bs, incoming_length, u2))"

definition signature_reader :: "uart read_fn" where
  "signature_reader u len =
     (if len = 0 \<or> len > 65535 then (None, u)
      else
        let ready = [0x4e, 0x51, 1, NPQ_FRAME_ENROLL_CHUNK_READY, of_nat (drop_bit 8 len), of_nat len];
            u1 = uart_send_frame ready 6 u;
            (bs, ok, u2) = uart_read_exact len u1
        in (if ok then Some bs else None, u2))"

section \<open>Authorising a policy\<close>

definition flash_equals :: "bytes \<Rightarrow> bytes \<Rightarrow> nat \<Rightarrow> bool" where
  "flash_equals bs flash_bytes len = (fold (\<lambda>i difference. difference OR (bs ! i XOR flash_bytes ! i)) [0..<len] (0 :: u8) = 0)"

definition manifest_valid :: "bytes \<Rightarrow> npq_state_record \<Rightarrow> bool" where
  "manifest_valid manifest st \<longleftrightarrow>
     manifest ! 0 = 0x51 \<and> manifest ! 1 = 0x50 \<and> manifest ! 2 = 0x43 \<and> manifest ! 3 = 0x31 \<and>
     manifest ! 4 = 1 \<and> manifest ! 5 = 1 \<and> manifest ! 6 = 1 \<and> manifest ! 7 = 2 \<and>
     flash_equals (drop 8 manifest) NPQ_DEVICE_CLASS_ID 16 \<and>
     flash_equals (drop 24 manifest) NPQ_LEGACY_POLICY_DIGEST 16 \<and>
     npq_load_u32_be (slice manifest 40 4) > r_policy_sequence st"

definition load_flash_bytes :: "bytes \<Rightarrow> nat \<Rightarrow> bytes" where
  "load_flash_bytes source len = map (\<lambda>i. source ! i) [0..<len]"

text \<open>The static variables and the devices they share the program with.\<close>

record firmware =
  f_uart :: uart
  f_adc :: "nat \<Rightarrow> u16"
  f_conversions :: nat
  f_led :: bool
  f_eeprom :: bytes
  f_state :: npq_state_record
  f_session :: npq_session
  f_hello :: bytes
  f_challenge :: bytes
  f_frame :: bytes
  f_plaintext :: bytes

definition make_control_frame :: "u8 \<Rightarrow> u8 \<Rightarrow> firmware \<Rightarrow> firmware" where
  "make_control_frame ty status fw = fw\<lparr>f_frame := memcpy (f_frame fw) 0 [0x4e, 0x51, 1, ty, status]\<rparr>"

definition send_frame :: "u8 \<Rightarrow> firmware \<Rightarrow> firmware" where
  "send_frame len fw = fw\<lparr>f_uart := uart_send_frame (f_frame fw) len (f_uart fw)\<rparr>"

definition verify_policy :: "auth_build \<Rightarrow> bytes \<Rightarrow> uart \<Rightarrow> bool \<times> uart" where
  "verify_policy build manifest u =
     (let public_key = map (\<lambda>i. NPQ_AUTH_PUBLIC_KEY build ! i) [0..<length (NPQ_AUTH_PUBLIC_KEY build)]
      in case build of
           AUTH_SLHDSA \<Rightarrow>
             let (verification, u1, consumed) =
               qp_slhdsa_sha2_128s_verify_stream (Some public_key) (Some manifest) 48 (Some (text_bytes ''Q-PUNCTURE-205'')) 14
                 7856 (Some signature_reader) u (Some 0)
             in (verification = QP_SLHDSA_OK \<and> consumed = Some (NPQ_AUTH_SIGNATURE_BYTES build), u1)
         | _ \<Rightarrow>
             let (verification, u1, consumed) =
               npq_lms_sha256_m32_h5_verify_stream (Some public_key) (Some manifest) 48 (NPQ_AUTH_SIGNATURE_BYTES build)
                 (Some signature_reader) u (Some 0)
             in (verification = NPQ_LMS_OK \<and> consumed = Some (NPQ_AUTH_SIGNATURE_BYTES build), u1))"

text \<open>Up to the point where the new state is stored: a refusal has been answered (\<open>Inl\<close>), an
  acceptance is in the state in memory only (\<open>Inr\<close>).\<close>

definition authorize_check :: "auth_build \<Rightarrow> firmware \<Rightarrow> (firmware + firmware) option" where
  "authorize_check build fw =
     (let fw1 = send_frame 5 (make_control_frame NPQ_FRAME_ENROLL_REQUIRED (NPQ_AUTH_ALGORITHM_ID build) fw)
      in case uart_read_frame (f_frame fw1) (f_uart fw1) of
           None \<Rightarrow> None
         | Some (ok, frame, incoming_length, u) \<Rightarrow>
             let fw2 = fw1\<lparr>f_frame := frame, f_uart := u\<rparr>
             in if \<not> ok \<or> incoming_length \<noteq> 52 \<or> frame ! 0 \<noteq> 0x4e \<or> frame ! 1 \<noteq> 0x51 \<or> frame ! 2 \<noteq> 1
                   \<or> frame ! 3 \<noteq> NPQ_FRAME_ENROLL_BEGIN \<or> \<not> manifest_valid (drop 4 frame) (f_state fw2)
                then Some (Inl (send_frame 5 (make_control_frame NPQ_FRAME_ENROLL_RESULT 0 fw2)))
                else
                  let (verified, u') = verify_policy build (slice frame 4 48) (f_uart fw2);
                      fw3 = fw2\<lparr>f_uart := u'\<rparr>
                  in if \<not> verified then Some (Inl (send_frame 5 (make_control_frame NPQ_FRAME_ENROLL_RESULT 0 fw3)))
                     else Some (Inr (fw3\<lparr>f_state := (f_state fw3)\<lparr>r_authorized := 1,
                                       r_policy_sequence := npq_load_u32_be (slice frame 44 4)\<rparr>\<rparr>)))"

definition fw_persist :: "firmware \<Rightarrow> firmware" where
  "fw_persist fw = (let (st, e) = state_persist (f_state fw) (f_eeprom fw) in fw\<lparr>f_state := st, f_eeprom := e\<rparr>)"

definition authorize_post_quantum :: "auth_build \<Rightarrow> firmware \<Rightarrow> (bool \<times> firmware) option" where
  "authorize_post_quantum build fw =
     (case authorize_check build fw of
        None \<Rightarrow> None
      | Some (Inl fw') \<Rightarrow> Some (False, fw')
      | Some (Inr fw') \<Rightarrow> Some (True, send_frame 5 (make_control_frame NPQ_FRAME_ENROLL_RESULT 1 (fw_persist fw'))))"

section \<open>Opening a session\<close>

definition establish_session :: "firmware \<Rightarrow> (bool \<times> firmware) option" where
  "establish_session fw =
     (let root_key = load_flash_bytes NPQ_DEVICE_ROOT 32;
          device_id = load_flash_bytes NPQ_DEVICE_ID 8;
          finish = (\<lambda>ok fw. Some (ok, fw\<lparr>f_hello := npq_secure_zero (f_hello fw) 48, f_challenge := npq_secure_zero (f_challenge fw) 60\<rparr>));
          (result, hello) = npq_make_hello (Some (f_hello fw)) (Some root_key) (Some device_id) (r_boot_epoch (f_state fw));
          fw1 = fw\<lparr>f_hello := the hello\<rparr>
      in if result \<noteq> NPQ_OK then finish False fw1
         else
           let u1 = uart_send_frame (f_hello fw1) 48 (f_uart fw1)
           in case uart_read_frame (f_challenge fw1) u1 of
                None \<Rightarrow> None
              | Some (ok, challenge, frame_length, u2) \<Rightarrow>
                  let fw2 = fw1\<lparr>f_challenge := challenge, f_uart := u2\<rparr>
                  in if \<not> ok \<or> frame_length \<noteq> 60 then finish False fw2
                     else if npq_verify_challenge (Some challenge) (Some root_key) hello \<noteq> NPQ_OK then finish False fw2
                     else
                       let (result, session) =
                             npq_derive_session (Some (f_session fw2)) NPQ_ROLE_DEVICE (Some root_key) hello (Some challenge);
                           fw3 = fw2\<lparr>f_session := the session\<rparr>
                       in if result \<noteq> NPQ_OK then finish False fw3
                          else
                            let (result, frame) = npq_make_finished (Some (f_frame fw3)) NPQ_FRAME_CLIENT_FINISHED NPQ_ROLE_DEVICE
                                                    (Some root_key) hello (Some challenge);
                                fw4 = fw3\<lparr>f_frame := the frame\<rparr>
                            in if result \<noteq> NPQ_OK then finish False fw4
                               else
                                 let fw5 = send_frame 24 fw4
                                 in case uart_read_frame (f_frame fw5) (f_uart fw5) of
                                      None \<Rightarrow> None
                                    | Some (ok, frame, frame_length, u) \<Rightarrow>
                                        let fw6 = fw5\<lparr>f_frame := frame, f_uart := u\<rparr>
                                        in if \<not> ok \<or> frame_length \<noteq> 24 then finish False fw6
                                           else finish (npq_verify_finished (Some frame) NPQ_FRAME_SERVER_FINISHED NPQ_ROLE_DEVICE
                                                          (Some root_key) hello (Some challenge) = NPQ_OK) fw6)"

section \<open>Sensor and command records\<close>

definition adc_read_a0 :: "firmware \<Rightarrow> u16 \<times> firmware" where
  "adc_read_a0 fw = (f_adc fw (f_conversions fw), fw\<lparr>f_conversions := f_conversions fw + 1\<rparr>)"

definition led_set :: "bool \<Rightarrow> firmware \<Rightarrow> firmware" where
  "led_set enabled fw = fw\<lparr>f_led := enabled\<rparr>"

text \<open>One pass of the endless loop of \<open>fatal_blink\<close>.\<close>

definition fatal_blink :: "firmware \<Rightarrow> firmware" where
  "fatal_blink fw = led_set False (led_set True fw)"

definition seal_and_send :: "u8 \<Rightarrow> firmware \<Rightarrow> firmware" where
  "seal_and_send len fw =
     (let (result, session, frame, frame_length) =
            npq_seal (Some (f_session fw)) (Some (f_plaintext fw)) len (Some (f_frame fw)) (Some 0);
          fw1 = fw\<lparr>f_session := the session, f_frame := the frame\<rparr>
      in if result = NPQ_OK then send_frame (the frame_length) fw1 else fw1)"

definition send_sensor :: "firmware \<Rightarrow> firmware" where
  "send_sensor fw =
     (let (sample, fw1) = adc_read_a0 fw;
          plaintext = memcpy (f_plaintext fw1) 0
            ([NPQ_PAYLOAD_SENSOR, ucast (drop_bit 8 sample), ucast sample] @ npq_store_u32_be (r_boot_epoch (f_state fw1)))
      in seal_and_send 7 (fw1\<lparr>f_plaintext := plaintext\<rparr>))"

definition send_status :: "u8 \<Rightarrow> firmware \<Rightarrow> firmware" where
  "send_status accepted fw =
     seal_and_send 3 (fw\<lparr>f_plaintext := memcpy (f_plaintext fw) 0 [NPQ_PAYLOAD_STATUS, accepted, if f_led fw then 1 else 0]\<rparr>)"

definition receive_command :: "firmware \<Rightarrow> firmware option" where
  "receive_command fw =
     (case uart_read_frame (f_frame fw) (f_uart fw) of
        None \<Rightarrow> None
      | Some (ok, frame, frame_length, u) \<Rightarrow>
          let fw1 = fw\<lparr>f_frame := frame, f_uart := u\<rparr>
          in if \<not> ok then Some fw1
             else
               let (result, session, plaintext, plaintext_length) =
                     npq_open (Some (f_session fw1)) (Some frame) frame_length (Some (f_plaintext fw1)) (Some 0);
                   fw2 = fw1\<lparr>f_session := the session, f_plaintext := the plaintext\<rparr>
               in if result = NPQ_OK \<and> the plaintext_length = 2 \<and> f_plaintext fw2 ! 0 = NPQ_PAYLOAD_COMMAND
                     \<and> f_plaintext fw2 ! 1 \<le> 1
                  then Some (send_status 1 (led_set (f_plaintext fw2 ! 1 \<noteq> 0) fw2))
                  else Some (send_status 0 fw2))"

section \<open>The life of a device\<close>

text \<open>The state of the program right after the initialisation of \<open>main\<close>: the static variables are
  zero and the state is the one the loader finds.\<close>

definition main_start :: "(nat \<Rightarrow> u16) \<Rightarrow> bytes \<Rightarrow> firmware" where
  "main_start adc eeprom =
     \<lparr>f_uart = \<lparr>u_rx = [], u_timer = 0, u_tx = []\<rparr>, f_adc = adc, f_conversions = 0, f_led = False, f_eeprom = eeprom,
      f_state = state_load eeprom, f_session = session_zero, f_hello = replicate 48 0, f_challenge = replicate 60 0,
      f_frame = replicate 64 0, f_plaintext = replicate 24 0\<rparr>"

text \<open>One pass of the loop at the end of \<open>main\<close>, and the part of a boot that stores the next epoch.\<close>

definition main_cycle :: "firmware \<Rightarrow> firmware option" where
  "main_cycle fw = receive_command (send_sensor fw)"

definition next_epoch :: "firmware \<Rightarrow> firmware" where
  "next_epoch fw = fw\<lparr>f_state := (f_state fw)\<lparr>r_boot_epoch := r_boot_epoch (f_state fw) + 1\<rparr>\<rparr>"

text \<open>A device is off, in the loop that waits for an authorisation, past the stored epoch, in its main
  loop, or blinking. \<open>Undefined\<close> is a device whose program wrote past an array. The epochs of the
  hellos it has sent and the number of state writes it has begun are recorded beside it.\<close>

datatype phase = Off | Enrolling | Booted | Running | Fatal | Undefined

record device =
  d_phase :: phase
  d_fw :: firmware
  d_announced :: "u32 list"
  d_persists :: nat

definition hear :: "poll_event list \<Rightarrow> firmware \<Rightarrow> firmware" where
  "hear rx fw = fw\<lparr>f_uart := (f_uart fw)\<lparr>u_rx := rx\<rparr>\<rparr>"

text \<open>The epoch in the hello that \<open>establish_session\<close> sends.\<close>

definition hello_epoch :: "firmware \<Rightarrow> u32" where
  "hello_epoch fw =
     npq_load_u32_be (slice (the (snd (npq_make_hello (Some (f_hello fw)) (Some (load_flash_bytes NPQ_DEVICE_ROOT 32))
       (Some (load_flash_bytes NPQ_DEVICE_ID 8)) (r_boot_epoch (f_state fw))))) 12 4)"

inductive device_step :: "auth_build \<Rightarrow> device \<Rightarrow> device \<Rightarrow> bool" for build :: auth_build where
  power_on:
    "d_phase d = Off \<Longrightarrow>
     device_step build d (d\<lparr>d_phase := Enrolling, d_fw := main_start adc (f_eeprom (d_fw d))\<rparr>)"
| authorize:
    "d_phase d = Enrolling \<Longrightarrow> r_authorized (f_state (d_fw d)) = 0 \<Longrightarrow>
     authorize_post_quantum build (hear rx (d_fw d)) = Some (ok, fw') \<Longrightarrow>
     device_step build d (d\<lparr>d_fw := fw', d_persists := d_persists d + (if ok then 1 else 0)\<rparr>)"
| authorize_cut:
    "d_phase d = Enrolling \<Longrightarrow> r_authorized (f_state (d_fw d)) = 0 \<Longrightarrow>
     authorize_check build (hear rx (d_fw d)) = Some (Inr fw') \<Longrightarrow> power_loss (persist_writes (f_state fw')) (f_eeprom fw') e' \<Longrightarrow>
     device_step build d (d\<lparr>d_phase := Off, d_fw := fw'\<lparr>f_eeprom := e'\<rparr>, d_persists := d_persists d + 1\<rparr>)"
| exhausted:
    "d_phase d = Enrolling \<Longrightarrow> r_authorized (f_state (d_fw d)) \<noteq> 0 \<Longrightarrow> r_boot_epoch (f_state (d_fw d)) = -1 \<Longrightarrow>
     device_step build d (d\<lparr>d_phase := Fatal\<rparr>)"
| epoch:
    "d_phase d = Enrolling \<Longrightarrow> r_authorized (f_state (d_fw d)) \<noteq> 0 \<Longrightarrow> r_boot_epoch (f_state (d_fw d)) \<noteq> -1 \<Longrightarrow>
     device_step build d (d\<lparr>d_phase := Booted, d_fw := fw_persist (next_epoch (d_fw d)), d_persists := d_persists d + 1\<rparr>)"
| epoch_cut:
    "d_phase d = Enrolling \<Longrightarrow> r_authorized (f_state (d_fw d)) \<noteq> 0 \<Longrightarrow> r_boot_epoch (f_state (d_fw d)) \<noteq> -1 \<Longrightarrow>
     power_loss (persist_writes (f_state (next_epoch (d_fw d)))) (f_eeprom (d_fw d)) e' \<Longrightarrow>
     device_step build d (d\<lparr>d_phase := Off, d_fw := (d_fw d)\<lparr>f_eeprom := e'\<rparr>, d_persists := d_persists d + 1\<rparr>)"
| session:
    "d_phase d = Booted \<Longrightarrow> establish_session (hear rx (d_fw d)) = Some (ok, fw') \<Longrightarrow>
     device_step build d (d\<lparr>d_phase := (if ok then Running else Fatal), d_fw := fw',
       d_announced := hello_epoch (d_fw d) # d_announced d\<rparr>)"
| session_cut:
    "d_phase d = Booted \<Longrightarrow>
     device_step build d (d\<lparr>d_phase := Off, d_announced := hello_epoch (d_fw d) # d_announced d\<rparr>)"
| session_overrun:
    "d_phase d = Booted \<Longrightarrow> establish_session (hear rx (d_fw d)) = None \<Longrightarrow>
     device_step build d (d\<lparr>d_phase := Undefined, d_announced := hello_epoch (d_fw d) # d_announced d\<rparr>)"
| cycle:
    "d_phase d = Running \<Longrightarrow> main_cycle (hear rx (d_fw d)) = Some fw' \<Longrightarrow> device_step build d (d\<lparr>d_fw := fw'\<rparr>)"
| blink:
    "d_phase d = Fatal \<Longrightarrow> device_step build d (d\<lparr>d_fw := fatal_blink (d_fw d)\<rparr>)"
| power_off:
    "d_phase d \<noteq> Undefined \<Longrightarrow> device_step build d (d\<lparr>d_phase := Off\<rparr>)"

inductive_cases device_stepE: "device_step build d d'"

lemmas device_step_cases = device_stepE [case_names power_on authorize authorize_cut exhausted epoch epoch_cut session
  session_cut session_overrun cycle blink power_off, consumes 1]

text \<open>The runs of a device that is switched on with a given EEPROM.\<close>

definition device_off :: "bytes \<Rightarrow> device" where
  "device_off e = \<lparr>d_phase = Off, d_fw = main_start (\<lambda>_. 0) e, d_announced = [], d_persists = 0\<rparr>"

inductive device_run :: "auth_build \<Rightarrow> bytes \<Rightarrow> device \<Rightarrow> bool" for build :: auth_build and e :: bytes where
  run_off: "device_run build e (device_off e)"
| run_step: "device_run build e d \<Longrightarrow> device_step build d d' \<Longrightarrow> device_run build e d'"

section \<open>The line as a byte source\<close>

text \<open>The bytes that arrive before the program runs into a timeout.\<close>

fun timely :: "u16 \<Rightarrow> poll_event list \<Rightarrow> u16 \<Rightarrow> bytes" where
  "timely started [] timer = []"
| "timely started (Arrived b # es) timer = b # timely timer es timer"
| "timely started (Idle t # es) timer = (if t - started \<ge> 31250 then [] else timely started es t)"

definition line_bytes :: "uart \<Rightarrow> bytes" where
  "line_bytes u = timely (u_timer u) (u_rx u) (u_timer u)"

lemma uart_poll_timely:
  "timely started es timer =
     (case uart_poll started es timer of (None, es', t) \<Rightarrow> [] | (Some b, es', t) \<Rightarrow> b # timely t es' t)"
  by (induction started es timer rule: timely.induct) auto

lemma getc_line:
  "line_bytes u = (case uart_getc_timeout u of (None, u') \<Rightarrow> [] | (Some b, u') \<Rightarrow> b # line_bytes u')"
  by (simp add: line_bytes_def uart_poll_timely [of "u_timer u"] uart_getc_timeout_def Let_def split: prod.split option.split)

lemma line_send [simp]: "line_bytes (uart_send_frame f n u) = line_bytes u"
proof -
  have "line_bytes (fold uart_putc bs v) = line_bytes v" for bs v
    by (induction bs arbitrary: v) (simp_all add: line_bytes_def uart_putc_def)
  then show ?thesis by (simp add: uart_send_frame_def) (simp add: line_bytes_def uart_putc_def)
qed

lemma read_exact_available:
  "n \<le> length (line_bytes u) \<Longrightarrow> \<exists>u'. uart_read_exact n u = (take n (line_bytes u), True, u') \<and> line_bytes u' = drop n (line_bytes u)"
proof (induction n arbitrary: u)
  case (Suc n)
  then obtain b bs where l: "line_bytes u = b # bs" by (cases "line_bytes u") auto
  with getc_line [of u] obtain u1 where g: "uart_getc_timeout u = (Some b, u1)" "line_bytes u1 = bs"
    by (auto split: prod.splits option.splits)
  with Suc.IH [of u1] Suc.prems l show ?case by auto
qed simp

lemma read_exact_exhausted:
  "length (line_bytes u) < n \<Longrightarrow> \<exists>u'. uart_read_exact n u = (line_bytes u, False, u')"
proof (induction n arbitrary: u)
  case (Suc n)
  show ?case
  proof (cases "line_bytes u")
    case Nil
    with getc_line [of u] show ?thesis by (auto split: prod.splits option.splits)
  next
    case (Cons b bs)
    with getc_line [of u] obtain u1 where g: "uart_getc_timeout u = (Some b, u1)" "line_bytes u1 = bs"
      by (auto split: prod.splits option.splits)
    with Suc.IH [of u1] Suc.prems Cons show ?thesis by auto
  qed
qed simp

interpretation uart_source: byte_source signature_reader line_bytes
proof
  fix n :: nat and u :: uart
  assume "0 < n" "n < 65536" and a: "n \<le> length (line_bytes u)"
  let ?v = "uart_send_frame [0x4e, 0x51, 1, NPQ_FRAME_ENROLL_CHUNK_READY, of_nat (drop_bit 8 n), of_nat n] 6 u"
  from a read_exact_available [of n ?v] \<open>0 < n\<close> \<open>n < 65536\<close>
  show "fst (signature_reader u n) = Some (take n (line_bytes u)) \<and> line_bytes (snd (signature_reader u n)) = drop n (line_bytes u)"
    by (auto simp: signature_reader_def Let_def)
next
  fix n :: nat and u :: uart
  assume a: "length (line_bytes u) < n"
  let ?v = "uart_send_frame [0x4e, 0x51, 1, NPQ_FRAME_ENROLL_CHUNK_READY, of_nat (drop_bit 8 n), of_nat n] 6 u"
  from a read_exact_exhausted [of ?v n] show "fst (signature_reader u n) = None"
    by (auto simp: signature_reader_def Let_def)
qed

section \<open>Frames from the line\<close>

lemma read_frame_silent: "line_bytes u = [] \<Longrightarrow> \<exists>u'. uart_read_frame frame u = Some (False, frame, 0, u')"
  using getc_line [of u] by (auto simp: uart_read_frame_def split: prod.splits option.splits)

lemma read_frame_line:
  assumes "line_bytes u = b # l"
  shows "\<exists>u'. uart_read_frame frame u =
      (if b = 0 \<or> b > 64 then Some (False, frame, 0, u')
       else if length (take (unat b) l) > length frame then None
       else if length l < unat b then Some (False, memcpy frame 0 l, 0, u')
       else Some (True, memcpy frame 0 (take (unat b) l), b, u')) \<and>
    (unat b \<le> length l \<longrightarrow> unat b \<le> length frame \<longrightarrow> b \<noteq> 0 \<longrightarrow> b \<le> 64 \<longrightarrow> line_bytes u' = drop (unat b) l)"
proof -
  from assms getc_line [of u] obtain u1 where g: "uart_getc_timeout u = (Some b, u1)" "line_bytes u1 = l"
    by (auto split: prod.splits option.splits)
  show ?thesis
  proof (cases "b = 0 \<or> b > 64")
    case True
    then show ?thesis by (simp add: uart_read_frame_def g) (auto simp: not_le)
  next
    case False
    show ?thesis
    proof (cases "unat b \<le> length l")
      case True
      then obtain u2 where "uart_read_exact (unat b) u1 = (take (unat b) l, True, u2)" "line_bytes u2 = drop (unat b) l"
        using read_exact_available [of "unat b" u1] g(2) by blast
      with True False show ?thesis by (simp add: uart_read_frame_def g)
    next
      case short: False
      then obtain u2 where "uart_read_exact (unat b) u1 = (l, False, u2)"
        using read_exact_exhausted [of u1 "unat b"] g(2) by auto
      with short False show ?thesis by (simp add: uart_read_frame_def g)
    qed
  qed
qed

text \<open>A buffer of 64 bytes always holds the frame, and a frame of 60 or 24 bytes fits the challenge.\<close>

lemma read_frame_64:
  assumes "length frame = 64"
  obtains (refused) frame' u' where "uart_read_frame frame u = Some (False, frame', 0, u')" "length frame' = 64"
      "\<nexists>b l. line_bytes u = b # l \<and> b \<noteq> 0 \<and> b \<le> 64 \<and> unat b \<le> length l"
  | (frame) b l u' where "uart_read_frame frame u = Some (True, take (unat b) l @ drop (unat b) frame, b, u')"
      "line_bytes u = b # l" "b \<noteq> 0" "b \<le> 64" "unat b \<le> length l" "line_bytes u' = drop (unat b) l"
proof (cases "line_bytes u")
  case Nil
  with read_frame_silent [OF Nil, of frame] assms refused show ?thesis by auto
next
  case (Cons b l)
  note r = read_frame_line [OF Cons, of frame]
  show ?thesis
  proof (cases "b = 0 \<or> b > 64")
    case True
    with r refused assms Cons show ?thesis by (auto simp: not_le)
  next
    case False
    then have b: "b \<noteq> 0" "b \<le> 64" "unat b \<le> 64" by (auto simp: not_less word_le_nat_alt)
    show ?thesis
    proof (cases "unat b \<le> length l")
      case True
      with r b False assms obtain u' where u': "uart_read_frame frame u = Some (True, memcpy frame 0 (take (unat b) l), b, u')"
        "line_bytes u' = drop (unat b) l" by auto
      moreover have "memcpy frame 0 (take (unat b) l) = take (unat b) l @ drop (unat b) frame"
        using True b assms by (simp add: memcpy_front)
      ultimately show ?thesis using frame Cons b True by simp
    next
      case short: False
      with r b False assms obtain u' where "uart_read_frame frame u = Some (False, memcpy frame 0 l, 0, u')" by auto
      moreover have "length (memcpy frame 0 l) = 64" using short b assms by simp
      ultimately show ?thesis using refused short Cons by simp
    qed
  qed
qed

text \<open>Receiving sends nothing.\<close>

lemma getc_tx: "u_tx (snd (uart_getc_timeout u)) = u_tx u"
  by (simp add: uart_getc_timeout_def Let_def split: prod.split)

lemma read_exact_tx: "u_tx (snd (snd (uart_read_exact n u))) = u_tx u"
proof (induction n arbitrary: u)
  case (Suc n)
  then show ?case using getc_tx [of u] by (simp add: Let_def split: prod.split option.split) (metis snd_conv)
qed simp

lemma read_frame_tx: "uart_read_frame frame u = Some (ok, f', n, u') \<Longrightarrow> u_tx u' = u_tx u"
  using getc_tx [of u] read_exact_tx
  by (simp add: uart_read_frame_def Let_def split: prod.splits option.splits if_split_asm) (metis snd_conv)+

lemma send_frame_tx: "unat n \<le> length frame \<Longrightarrow> u_tx (uart_send_frame frame n u) = u_tx u @ n # take (unat n) frame"
proof -
  assume l: "unat n \<le> length frame"
  have f: "u_tx (fold uart_putc bs v) = u_tx v @ bs" for bs v
    by (induction bs arbitrary: v) (simp_all add: uart_putc_def)
  have "map (\<lambda>i. frame ! i) [0..<unat n] = take (unat n) frame" by (rule nth_equalityI) (use l in simp_all)
  then show ?thesis by (simp add: uart_send_frame_def f) (simp add: uart_putc_def)
qed

end
