(* ===== verification/NpqDevice.thy ===== *)
theory NpqDevice
  imports NpqFirmware
begin

text \<open>
  What the NanoPQ firmware does: which line contents authorise a policy, open a session and move the
  LED, and which epochs a device announces over its whole life. The model is in theory
  \<open>NpqFirmware\<close>, the persistent state in \<open>NpqState\<close>.
\<close>

unbundle bit_operations_syntax

section \<open>Who may authorise a policy\<close>

text \<open>What a manifest must say, and what it must be signed with.\<close>

definition policy_manifest :: "bytes \<Rightarrow> bool" where
  "policy_manifest m \<longleftrightarrow>
     length m = 48 \<and> take 8 m = [0x51, 0x50, 0x43, 0x31, 1, 1, 1, 2] \<and>
     slice m 8 16 = NPQ_DEVICE_CLASS_ID \<and> slice m 24 16 = NPQ_LEGACY_POLICY_DIGEST"

fun policy_signed :: "auth_build \<Rightarrow> bytes \<Rightarrow> bytes \<Rightarrow> bool" where
  "policy_signed AUTH_SLHDSA m sig \<longleftrightarrow> fips205_verify NPQ_SLHDSA_PUBLIC_KEY m (text_bytes ''Q-PUNCTURE-205'') sig"
| "policy_signed AUTH_LMS_W4 m sig \<longleftrightarrow> rfc_lms_verify NPQ_LMS_W4_PUBLIC_KEY m sig"
| "policy_signed AUTH_LMS_W8 m sig \<longleftrightarrow> rfc_lms_verify NPQ_LMS_W8_PUBLIC_KEY m sig"

lemma length_keys [simp]:
  "length NPQ_SLHDSA_PUBLIC_KEY = 32" "length NPQ_LMS_W4_PUBLIC_KEY = 56" "length NPQ_LMS_W8_PUBLIC_KEY = 56"
  "length NPQ_DEVICE_CLASS_ID = 16" "length NPQ_LEGACY_POLICY_DIGEST = 16" "length NPQ_DEVICE_ROOT = 32" "length NPQ_DEVICE_ID = 8"
  by (simp_all add: NPQ_SLHDSA_PUBLIC_KEY_def NPQ_LMS_W4_PUBLIC_KEY_def NPQ_LMS_W8_PUBLIC_KEY_def NPQ_DEVICE_CLASS_ID_def
      NPQ_LEGACY_POLICY_DIGEST_def NPQ_DEVICE_ROOT_def NPQ_DEVICE_ID_def)

lemma lms_key_types:
  "lms_parameters (be_word (slice NPQ_LMS_W4_PUBLIC_KEY 4 4)) = Some (4, 67, 4, 2348)"
  "lms_parameters (be_word (slice NPQ_LMS_W8_PUBLIC_KEY 4 4)) = Some (8, 34, 0, 1292)"
  by (simp_all add: NPQ_LMS_W4_PUBLIC_KEY_def NPQ_LMS_W8_PUBLIC_KEY_def slice_def be_word_def lms_parameters_def)

lemma flash_equals_iff:
  "n \<le> length a \<Longrightarrow> n \<le> length b \<Longrightarrow> flash_equals a b n \<longleftrightarrow> take n a = take n b"
  by (auto simp: flash_equals_def fold_difference list_eq_iff_nth_eq)

lemma load_flash_all: "length xs = n \<Longrightarrow> load_flash_bytes xs n = xs"
  using map_nth [of xs] by (simp add: load_flash_bytes_def)

lemma manifest_valid_iff:
  assumes "length m = 48"
  shows "manifest_valid m st \<longleftrightarrow> policy_manifest m \<and> be_word (slice m 40 4) > r_policy_sequence st"
proof -
  have "take 8 m = [m ! 0, m ! 1, m ! 2, m ! 3, m ! 4, m ! 5, m ! 6, m ! 7]"
    using list_of_length8 [of "take 8 m"] assms by simp
  moreover have "flash_equals (drop 8 m) NPQ_DEVICE_CLASS_ID 16 \<longleftrightarrow> slice m 8 16 = NPQ_DEVICE_CLASS_ID"
    "flash_equals (drop 24 m) NPQ_LEGACY_POLICY_DIGEST 16 \<longleftrightarrow> slice m 24 16 = NPQ_LEGACY_POLICY_DIGEST"
    using assms by (simp_all add: flash_equals_iff slice_def)
  moreover have "length (slice m 40 4) = 4" using assms by simp
  ultimately show ?thesis using assms by (simp add: manifest_valid_def policy_manifest_def npq_load_be)
qed

lemma manifest_valid_take: "48 \<le> length m \<Longrightarrow> manifest_valid (take 48 m) st = manifest_valid m st"
proof -
  assume l: "48 \<le> length m"
  then have "flash_equals (drop 8 (take 48 m)) NPQ_DEVICE_CLASS_ID 16 = flash_equals (drop 8 m) NPQ_DEVICE_CLASS_ID 16"
    "flash_equals (drop 24 (take 48 m)) NPQ_LEGACY_POLICY_DIGEST 16 = flash_equals (drop 24 m) NPQ_LEGACY_POLICY_DIGEST 16"
    by (simp_all add: flash_equals_iff drop_take [symmetric]) (simp_all add: drop_take min_def)
  then show ?thesis using l by (simp add: manifest_valid_def slice_take)
qed

text \<open>The verifiers are run over the line.\<close>

lemma verify_policy_exact:
  assumes m: "length m = 48"
  shows "fst (verify_policy build m u) \<longleftrightarrow>
    NPQ_AUTH_SIGNATURE_BYTES build \<le> length (line_bytes u) \<and>
    policy_signed build m (take (NPQ_AUTH_SIGNATURE_BYTES build) (line_bytes u))"
proof -
  have keys: "map (\<lambda>i. NPQ_SLHDSA_PUBLIC_KEY ! i) [0..<32] = NPQ_SLHDSA_PUBLIC_KEY"
    "map (\<lambda>i. NPQ_LMS_W4_PUBLIC_KEY ! i) [0..<56] = NPQ_LMS_W4_PUBLIC_KEY"
    "map (\<lambda>i. NPQ_LMS_W8_PUBLIC_KEY ! i) [0..<56] = NPQ_LMS_W8_PUBLIC_KEY"
    using map_nth [of NPQ_SLHDSA_PUBLIC_KEY] map_nth [of NPQ_LMS_W4_PUBLIC_KEY] map_nth [of NPQ_LMS_W8_PUBLIC_KEY]
    by (simp_all only: length_keys)
  have l14: "length (text_bytes ''Q-PUNCTURE-205'') = 14" by simp
  note slh = slhdsa_stream_ok [OF uart_source.byte_source_axioms length_keys(1), where message = m
      and cs = "text_bytes ''Q-PUNCTURE-205''" and siglen = 7856 and r = u and c = "Some 0", unfolded l14 m]
  note lms4 = lms_stream_ok [OF uart_source.byte_source_axioms length_keys(2), where message = m and siglen = 2348
      and r = u and c = "Some 0", unfolded m]
  note lms8 = lms_stream_ok [OF uart_source.byte_source_axioms length_keys(3), where message = m and siglen = 1292
      and r = u and c = "Some 0", unfolded m]
  show ?thesis
  proof (cases build)
    case AUTH_SLHDSA
    obtain res u' c' where r: "qp_slhdsa_sha2_128s_verify_stream (Some NPQ_SLHDSA_PUBLIC_KEY) (Some m) 48 (Some (text_bytes ''Q-PUNCTURE-205'')) 14
         7856 (Some signature_reader) u (Some 0) = (res, u', c')" by (metis prod_cases3)
    then show ?thesis using slh [of res u' c'] m by (auto simp: verify_policy_def keys AUTH_SLHDSA)
  next
    case AUTH_LMS_W4
    obtain res u' c' where r: "npq_lms_sha256_m32_h5_verify_stream (Some NPQ_LMS_W4_PUBLIC_KEY) (Some m) 48 2348 (Some signature_reader) u (Some 0)
        = (res, u', c')" by (metis prod_cases3)
    then show ?thesis using lms4 [of res u' c'] m by (auto simp: verify_policy_def keys AUTH_LMS_W4)
  next
    case AUTH_LMS_W8
    obtain res u' c' where r: "npq_lms_sha256_m32_h5_verify_stream (Some NPQ_LMS_W8_PUBLIC_KEY) (Some m) 48 1292 (Some signature_reader) u (Some 0)
        = (res, u', c')" by (metis prod_cases3)
    then show ?thesis using lms8 [of res u' c'] m by (auto simp: verify_policy_def keys AUTH_LMS_W8)
  qed
qed

lemma policy_signed_length: "policy_signed build m sig \<Longrightarrow> length sig = NPQ_AUTH_SIGNATURE_BYTES build"
  by (cases build) (auto simp: fips205_verify_def lms_key_types dest!: rfc_lms_verify_length)

text \<open>The line carries an authorisation: a policy frame with a manifest that is newer than the stored
  policy, and a signature of it.\<close>

definition authorization_on_line :: "auth_build \<Rightarrow> u32 \<Rightarrow> bytes \<Rightarrow> bool" where
  "authorization_on_line build stored line \<longleftrightarrow>
     (\<exists>manifest sig rest. line = [52, 0x4e, 0x51, 1, 7] @ manifest @ sig @ rest \<and>
        policy_manifest manifest \<and> be_word (slice manifest 40 4) > stored \<and> policy_signed build manifest sig)"

lemma authorization_on_line_iff:
  "authorization_on_line build stored line \<longleftrightarrow>
     53 + NPQ_AUTH_SIGNATURE_BYTES build \<le> length line \<and> take 5 line = [52, 0x4e, 0x51, 1, 7] \<and>
     policy_manifest (slice line 5 48) \<and> be_word (slice (slice line 5 48) 40 4) > stored \<and>
     policy_signed build (slice line 5 48) (take (NPQ_AUTH_SIGNATURE_BYTES build) (drop 53 line))"
    (is "_ \<longleftrightarrow> ?R")
proof
  assume "authorization_on_line build stored line"
  then obtain m sig rest where l: "line = [52, 0x4e, 0x51, 1, 7] @ m @ sig @ rest" "policy_manifest m"
      "be_word (slice m 40 4) > stored" "policy_signed build m sig" by (auto simp: authorization_on_line_def)
  have n: "length sig = NPQ_AUTH_SIGNATURE_BYTES build" "length m = 48"
    using policy_signed_length [OF l(4)] l(2) by (simp_all add: policy_manifest_def)
  have s: "slice line 5 48 = m" "drop 53 line = sig @ rest" "take 5 line = [52, 0x4e, 0x51, 1, 7]"
    using n l(1) by (simp_all add: slice_def)
  have "53 + length sig \<le> length line" using l(1) n(2) by simp
  then show ?R unfolding s(1,2) using n(1) l(2-4) s(3) by simp
next
  assume r: ?R
  let ?n = "NPQ_AUTH_SIGNATURE_BYTES build"
  have "line = take 5 line @ slice line 5 48 @ take ?n (drop 53 line) @ drop ?n (drop 53 line)"
  proof -
    have "line = take 5 line @ drop 5 line" "drop 53 line = take ?n (drop 53 line) @ drop ?n (drop 53 line)"
      by (simp_all only: append_take_drop_id)
    moreover have "drop 5 line = slice line 5 48 @ drop 53 line" using append_take_drop_id [of 48 "drop 5 line"] by (simp add: slice_def)
    ultimately show ?thesis by metis
  qed
  then show "authorization_on_line build stored line" using r unfolding authorization_on_line_def by (intro exI conjI) auto
qed

text \<open>The state that is stored with an authorisation.\<close>

definition authorized_state :: "firmware \<Rightarrow> npq_state_record" where
  "authorized_state fw =
     (f_state fw)\<lparr>r_authorized := 1, r_policy_sequence := be_word (slice (slice (line_bytes (f_uart fw)) 5 48) 40 4)\<rparr>"

lemma control_frame_fields [simp]:
  "f_uart (make_control_frame ty status fw) = f_uart fw" "f_state (make_control_frame ty status fw) = f_state fw"
  "f_eeprom (make_control_frame ty status fw) = f_eeprom fw" "f_frame (send_frame n fw) = f_frame fw"
  "f_state (send_frame n fw) = f_state fw" "f_eeprom (send_frame n fw) = f_eeprom fw"
  "f_hello (make_control_frame ty status fw) = f_hello fw" "f_hello (send_frame n fw) = f_hello fw"
  "length (f_frame fw) = 64 \<Longrightarrow> length (f_frame (make_control_frame ty status fw)) = 64"
  by (simp_all add: make_control_frame_def send_frame_def)

lemma send_frame_line [simp]: "line_bytes (f_uart (send_frame n fw)) = line_bytes (f_uart fw)"
  by (simp add: send_frame_def)

lemma authorize_check_exact:
  fixes build :: auth_build and fw :: firmware
  assumes l: "length (f_frame fw) = 64"
  defines "good \<equiv> authorization_on_line build (r_policy_sequence (f_state fw)) (line_bytes (f_uart fw))"
  shows "\<exists>fw'. authorize_check build fw = Some (if good then Inr fw' else Inl fw') \<and> f_eeprom fw' = f_eeprom fw \<and>
    length (f_frame fw') = 64 \<and> f_state fw' = (if good then authorized_state fw else f_state fw)"
proof -
  define fw1 where "fw1 = send_frame 5 (make_control_frame 6 (NPQ_AUTH_ALGORITHM_ID build) fw)"
  let ?L = "line_bytes (f_uart fw)" and ?n = "NPQ_AUTH_SIGNATURE_BYTES build"
  have f1: "length (f_frame fw1) = 64" "line_bytes (f_uart fw1) = ?L" "f_state fw1 = f_state fw" "f_eeprom fw1 = f_eeprom fw"
    using l by (simp_all add: fw1_def)
  have good: "good \<longleftrightarrow> 53 + ?n \<le> length ?L \<and> take 5 ?L = [52, 0x4e, 0x51, 1, 7] \<and> policy_manifest (slice ?L 5 48) \<and>
      be_word (slice (slice ?L 5 48) 40 4) > r_policy_sequence (f_state fw) \<and> policy_signed build (slice ?L 5 48) (take ?n (drop 53 ?L))"
    unfolding good_def by (rule authorization_on_line_iff)
  from f1(1) show ?thesis
  proof (cases rule: read_frame_64 [where u = "f_uart fw1"])
    case (refused frame' u')
    have "?L = 52 # tl ?L \<Longrightarrow> length ?L < 53" using refused(3) unfolding f1(2) by (cases ?L) auto
    then have "\<not> good" unfolding good by (cases ?L) auto
    then show ?thesis using refused(1,2) f1 l by (simp add: authorize_check_def Let_def fw1_def [symmetric])
  next
    case (frame b m u')
    let ?F = "take (unat b) m @ drop (unat b) (f_frame fw1)"
    have L: "?L = b # m" using frame(2) f1(2) by simp
    show ?thesis
    proof (cases "b = 52")
      case False
      then have "\<not> good" unfolding good L by simp
      moreover have "authorize_check build fw = Some (Inl (send_frame 5 (make_control_frame 8 0 (fw1\<lparr>f_frame := ?F, f_uart := u'\<rparr>))))"
        using False by (simp add: authorize_check_def Let_def fw1_def [symmetric] frame(1))
      moreover have "length ?F = 64" using f1(1) frame(4,5) by (simp add: word_le_nat_alt)
      ultimately show ?thesis using f1 by simp
    next
      case b: True
      have m: "52 \<le> length m" using frame(5) b by simp
      define F where "F = take 52 m @ drop 52 (f_frame fw1)"
      have fr: "uart_read_frame (f_frame fw1) (f_uart fw1) = Some (True, F, 52, u')" using frame(1) b by (simp add: F_def)
      have lF: "length F = 64" using m f1(1) by (simp add: F_def)
      have sl: "slice F 4 48 = slice m 4 48" "slice F 44 4 = slice m 44 4" "\<And>i. i < 52 \<Longrightarrow> F ! i = m ! i"
        unfolding F_def using m by (simp_all add: slice_append_left slice_take nth_append)
      have "take 48 (drop 4 F) = slice m 4 48" "48 \<le> length (drop 4 F)" using sl(1) lF by (simp_all add: slice_def)
      then have dr: "manifest_valid (drop 4 F) st \<longleftrightarrow> manifest_valid (slice m 4 48) st" for st
        using manifest_valid_take [of "drop 4 F" st] by simp
      have t5: "take 5 ?L = [52, 0x4e, 0x51, 1, 7] \<longleftrightarrow> F ! 0 = 0x4e \<and> F ! 1 = 0x51 \<and> F ! 2 = 1 \<and> F ! 3 = 7"
        using list_of_length4 [of "take 4 m"] m b sl(3) [of 0] sl(3) [of 1] sl(3) [of 2] sl(3) [of 3] by (simp add: L)
      have s5: "slice ?L 5 48 = slice m 4 48" "drop 53 ?L = drop 52 m" by (simp_all add: L slice_def)
      have lm: "length (slice m 4 48) = 48" using m by simp
      have u: "line_bytes u' = drop 53 ?L" using frame(6) b s5(2) by simp
      note mv = dr manifest_valid_iff [OF lm]
      have seq: "npq_load_u32_be (slice F 44 4) = be_word (slice (slice ?L 5 48) 40 4)"
      proof -
        have "slice (slice m 4 48) 40 4 = slice m 44 4" by (simp add: slice_def drop_take)
        then show ?thesis unfolding sl(2) s5(1) using m by (simp add: npq_load_be)
      qed
      have good': "good \<longleftrightarrow> F ! 0 = 0x4e \<and> F ! 1 = 0x51 \<and> F ! 2 = 1 \<and> F ! 3 = 7 \<and> manifest_valid (drop 4 F) (f_state fw1) \<and>
          fst (verify_policy build (slice F 4 48) u')"
        unfolding good t5 mv sl(1) verify_policy_exact [OF lm] u s5(1) f1(3) using L m by auto
      show ?thesis
      proof (cases "F ! 0 = 0x4e \<and> F ! 1 = 0x51 \<and> F ! 2 = 1 \<and> F ! 3 = 7 \<and> manifest_valid (drop 4 F) (f_state fw1)")
        case False
        have "authorize_check build fw = Some (Inl (send_frame 5 (make_control_frame 8 0 (fw1\<lparr>f_frame := F, f_uart := u'\<rparr>))))"
          unfolding authorize_check_def Let_def fw1_def [symmetric] fr option.case prod.case firmware.simps using False by auto
        then show ?thesis using False good' lF f1 by auto
      next
        case True
        obtain v u'' where v: "verify_policy build (slice F 4 48) u' = (v, u'')" by fastforce
        have "authorize_check build fw = (if v
            then Some (Inr (fw1\<lparr>f_frame := F, f_uart := u'', f_state := (f_state fw1)\<lparr>r_authorized := 1, r_policy_sequence := npq_load_u32_be (slice F 44 4)\<rparr>\<rparr>))
            else Some (Inl (send_frame 5 (make_control_frame 8 0 (fw1\<lparr>f_frame := F, f_uart := u''\<rparr>)))))"
          unfolding authorize_check_def Let_def fw1_def [symmetric] fr option.case prod.case firmware.simps
          using True by (simp add: v)
        moreover have "good \<longleftrightarrow> v" using good' True v by simp
        ultimately show ?thesis using lF f1 by (simp add: authorized_state_def seq)
      qed
    qed
  qed
qed

section \<open>What the operations leave alone\<close>

lemma authorize_check_hello:
  "authorize_check build fw = Some (Inl fw') \<Longrightarrow> f_hello fw' = f_hello fw"
  "authorize_check build fw = Some (Inr fw') \<Longrightarrow> f_hello fw' = f_hello fw"
  by (auto simp: authorize_check_def Let_def split: option.splits prod.splits if_split_asm)

lemma fw_persist_fields [simp]:
  "f_state (fw_persist fw) = persist_record (f_state fw)" "f_eeprom (fw_persist fw) = snd (state_persist (f_state fw) (f_eeprom fw))"
  "f_hello (fw_persist fw) = f_hello fw" "f_frame (fw_persist fw) = f_frame fw" "f_uart (fw_persist fw) = f_uart fw"
  by (simp_all add: fw_persist_def state_persist_def)

lemma next_epoch_fields [simp]:
  "f_state (next_epoch fw) = (f_state fw)\<lparr>r_boot_epoch := r_boot_epoch (f_state fw) + 1\<rparr>" "f_eeprom (next_epoch fw) = f_eeprom fw"
  "f_hello (next_epoch fw) = f_hello fw"
  by (simp_all add: next_epoch_def)

lemma hear_fields [simp]:
  "f_state (hear rx fw) = f_state fw" "f_eeprom (hear rx fw) = f_eeprom fw" "f_hello (hear rx fw) = f_hello fw"
  "f_frame (hear rx fw) = f_frame fw"
  by (simp_all add: hear_def)

lemma establish_session_keeps:
  "establish_session fw = Some (ok, fw') \<Longrightarrow> f_eeprom fw' = f_eeprom fw"
  by (auto simp: establish_session_def Let_def split: option.splits prod.splits if_split_asm)

lemma seal_and_send_keeps [simp]: "f_eeprom (seal_and_send n fw) = f_eeprom fw"
  by (simp add: seal_and_send_def Let_def split: prod.splits)

lemma main_cycle_keeps: "main_cycle fw = Some fw' \<Longrightarrow> f_eeprom fw' = f_eeprom fw"
  by (auto simp: main_cycle_def receive_command_def send_sensor_def send_status_def adc_read_a0_def led_set_def Let_def
      split: option.splits prod.splits if_split_asm)

text \<open>The hello carries the epoch of the state.\<close>

lemma hello_epoch_eq:
  assumes "48 \<le> length (f_hello fw)" and "r_boot_epoch (f_state fw) \<noteq> 0"
  shows "hello_epoch fw = r_boot_epoch (f_state fw)"
proof -
  let ?root = NPQ_DEVICE_ROOT and ?dev = NPQ_DEVICE_ID and ?e = "r_boot_epoch (f_state fw)"
  have "slice (npq_hello_frame ?root ?dev ?e (client_nonce ?root ?dev ?e) @ x) 12 4 = be_bytes 4 ?e" for x
    by (simp add: npq_hello_frame_def hello_core_npq_def slice_def)
  then show ?thesis
    using assms by (simp add: hello_epoch_def make_hello_ok load_flash_all npq_load_be be_word_be_bytes)
qed

section \<open>The state a device carries\<close>

lemma state_load_authorized: "r_authorized (state_load e) \<le> 1"
  by (auto simp: state_load_def Let_def state_valid_def)

lemma follows_load: "follows e st \<longleftrightarrow> r_authorized st \<le> 1 \<and> r_generation st = r_generation (state_load e)"
  by (auto simp: follows_def state_load_current split: option.splits)

lemma persist_loads:
  assumes "journal_wf e" and "r_authorized st \<le> 1" and "r_generation st = r_generation (state_load e)"
    and "r_generation (state_load e) \<noteq> -1"
  shows "journal_wf (snd (state_persist st e))" and "state_load (snd (state_persist st e)) = persist_record st"
    and "power_loss (persist_writes st) e e' \<Longrightarrow> journal_wf e' \<and> state_load e' \<in> {state_load e, persist_record st}"
proof -
  have f: "follows e st" and g: "r_generation st \<noteq> -1" using assms by (simp_all add: follows_load)
  show "journal_wf (snd (state_persist st e))" "state_load (snd (state_persist st e)) = persist_record st"
    using persist_completes [OF assms(1) f g] by (simp_all add: state_load_current)
  show "journal_wf e' \<and> state_load e' \<in> {state_load e, persist_record st}" if "power_loss (persist_writes st) e e'"
    using persist_images [OF assms(1) f g that] by (auto simp: state_load_current)
qed

text \<open>The invariant: every epoch that was announced is below or at the stored one, and a device that
  has just stored an epoch has not announced it.\<close>

definition announced_below :: "u32 \<Rightarrow> u32 list \<Rightarrow> u32 \<Rightarrow> bool" where
  "announced_below b0 eps b \<longleftrightarrow> sorted_wrt (>) eps \<and> b0 \<le> b \<and> (\<forall>ep\<in>set eps. b0 < ep \<and> ep \<le> b)"

definition device_inv :: "bytes \<Rightarrow> device \<Rightarrow> bool" where
  "device_inv e d \<longleftrightarrow>
     (let fw = d_fw d; cur = state_load (f_eeprom fw); b0 = r_boot_epoch (state_load e)
      in journal_wf (f_eeprom fw) \<and> unat (r_generation cur) \<le> unat (r_generation (state_load e)) + d_persists d \<and>
         announced_below b0 (d_announced d) (r_boot_epoch cur) \<and>
         (d_phase d = Enrolling \<longrightarrow> f_state fw = cur \<and> length (f_frame fw) = 64 \<and> length (f_hello fw) = 48) \<and>
         (d_phase d = Booted \<longrightarrow> f_state fw = cur \<and> length (f_hello fw) = 48 \<and> r_boot_epoch cur \<noteq> 0 \<and>
            announced_below b0 (r_boot_epoch cur # d_announced d) (r_boot_epoch cur)))"

lemma announced_below_mono: "announced_below b0 eps b \<Longrightarrow> b \<le> b' \<Longrightarrow> announced_below b0 eps b'"
  by (auto simp: announced_below_def intro: order_trans)

lemma announced_below_next:
  assumes "announced_below b0 eps b" and "b \<noteq> -1"
  shows "announced_below b0 ((b + 1) # eps) (b + 1)" and "b \<le> b + 1" and "b + 1 \<noteq> 0"
proof -
  have l: "b < b + 1" using parity_suc [OF assms(2)] by (simp add: word_less_nat_alt)
  then show "announced_below b0 ((b + 1) # eps) (b + 1)" "b \<le> b + 1" "b + 1 \<noteq> 0"
    using assms(1) by (auto simp: announced_below_def)
qed

text \<open>One lemma for the steps that store a state, completed or cut.\<close>

lemma device_inv_persist:
  assumes inv: "device_inv e d" and bound: "unat (r_generation (state_load e)) + (d_persists d + 1) < 2 ^ 32"
    and st: "r_authorized st \<le> 1" "r_generation st = r_generation (state_load (f_eeprom (d_fw d)))"
      "r_boot_epoch (state_load (f_eeprom (d_fw d))) \<le> r_boot_epoch st"
    and d': "d_persists d' = d_persists d + 1" "d_announced d' = d_announced d"
    and e': "f_eeprom (d_fw d') = snd (state_persist st (f_eeprom (d_fw d))) \<or>
      power_loss (persist_writes st) (f_eeprom (d_fw d)) (f_eeprom (d_fw d')) \<and> d_phase d' = Off"
    and en: "d_phase d' = Enrolling \<Longrightarrow> f_state (d_fw d') = persist_record st \<and> length (f_frame (d_fw d')) = 64 \<and> length (f_hello (d_fw d')) = 48"
    and bo: "d_phase d' = Booted \<Longrightarrow> f_state (d_fw d') = persist_record st \<and> length (f_hello (d_fw d')) = 48 \<and> r_boot_epoch st \<noteq> 0 \<and>
      announced_below (r_boot_epoch (state_load e)) (r_boot_epoch st # d_announced d) (r_boot_epoch st)"
  shows "device_inv e d'"
proof -
  let ?E = "f_eeprom (d_fw d)" and ?E' = "f_eeprom (d_fw d')"
  have wf: "journal_wf ?E" and g: "unat (r_generation (state_load ?E)) \<le> unat (r_generation (state_load e)) + d_persists d"
    and an: "announced_below (r_boot_epoch (state_load e)) (d_announced d) (r_boot_epoch (state_load ?E))"
    using inv by (simp_all add: device_inv_def Let_def)
  have "unat (r_generation (state_load ?E)) < 2 ^ 32 - 1" using g bound by simp
  then have ne: "r_generation (state_load ?E) \<noteq> -1"
    by (auto simp: unsigned_minus_1_eq_mask mask_eq_exp_minus_1)
  note pl = persist_loads [OF wf st(1,2) ne]
  have gen: "unat (r_generation (persist_record st)) \<le> unat (r_generation (state_load e)) + d_persists d'"
    using parity_suc [OF ne] g st(2) d'(1) by simp
  have an': "announced_below (r_boot_epoch (state_load e)) (d_announced d') (r_boot_epoch (persist_record st))"
    using announced_below_mono [OF an st(3)] d'(2) by simp
  have "journal_wf ?E' \<and> state_load ?E' \<in> {state_load ?E, persist_record st} \<and> (d_phase d' \<noteq> Off \<longrightarrow> state_load ?E' = persist_record st)"
    using e' pl by auto
  then show ?thesis
    using gen an' an g en bo d' by (auto simp: device_inv_def Let_def)
qed

lemma device_inv_step:
  assumes "device_step build d d'" and inv: "device_inv e d" and bound: "unat (r_generation (state_load e)) + d_persists d' < 2 ^ 32"
  shows "device_inv e d'"
  using assms(1)
proof (cases rule: device_step_cases)
  case (power_on adc)
  then show ?thesis using inv by (simp add: device_inv_def Let_def main_start_def)
next
  case (authorize rx ok fw')
  let ?h = "hear rx (d_fw d)"
  have l: "length (f_frame ?h) = 64" and h: "length (f_hello ?h) = 48" and s: "f_state ?h = state_load (f_eeprom (d_fw d))"
    using inv authorize(2) by (simp_all add: device_inv_def Let_def)
  from authorize_check_exact [OF l, of build] obtain good fw1 where c: "authorize_check build ?h = Some (if good then Inr fw1 else Inl fw1)"
      "f_eeprom fw1 = f_eeprom (d_fw d)" "length (f_frame fw1) = 64" "f_state fw1 = (if good then authorized_state ?h else f_state (d_fw d))"
    by auto
  have h1: "length (f_hello fw1) = 48" using authorize_check_hello [of build ?h fw1] c(1) h by (auto split: if_split_asm)
  show ?thesis
  proof (cases good)
    case False
    then have "\<not> ok" "fw' = fw1" using authorize(4) c(1) by (auto simp: authorize_post_quantum_def)
    then show ?thesis using authorize(1,2) inv c h1 False by (simp add: device_inv_def Let_def)
  next
    case True
    then have w: "ok" "fw' = send_frame 5 (make_control_frame 8 1 (fw_persist fw1))"
      using authorize(4) c(1) by (auto simp: authorize_post_quantum_def)
    show ?thesis
    proof (rule device_inv_persist [OF inv])
      show "unat (r_generation (state_load e)) + (d_persists d + 1) < 2 ^ 32" using bound authorize(1) w(1) by simp
    qed (use True c w s h1 authorize(1,2) in \<open>simp_all add: authorized_state_def\<close>)
  qed
next
  case (authorize_cut rx fw' e')
  let ?h = "hear rx (d_fw d)"
  have l: "length (f_frame ?h) = 64" and s: "f_state ?h = state_load (f_eeprom (d_fw d))"
    using inv authorize_cut(2) by (simp_all add: device_inv_def Let_def)
  have c: "f_eeprom fw' = f_eeprom (d_fw d)" "f_state fw' = authorized_state ?h"
    using authorize_check_exact [OF l, of build] authorize_cut(4) by (auto split: if_split_asm)
  show ?thesis
  proof (rule device_inv_persist [OF inv, of "f_state fw'"])
    show "unat (r_generation (state_load e)) + (d_persists d + 1) < 2 ^ 32" using bound authorize_cut(1) by simp
  qed (use c s authorize_cut in \<open>simp_all add: authorized_state_def\<close>)
next
  case exhausted
  then show ?thesis using inv by (simp add: device_inv_def Let_def)
next
  case epoch
  let ?b = "r_boot_epoch (state_load (f_eeprom (d_fw d)))"
  have s: "f_state (d_fw d) = state_load (f_eeprom (d_fw d))" "length (f_hello (d_fw d)) = 48"
    and an: "announced_below (r_boot_epoch (state_load e)) (d_announced d) ?b"
    using inv epoch(2) by (simp_all add: device_inv_def Let_def)
  have b: "?b \<noteq> -1" using epoch(4) s(1) by simp
  show ?thesis
  proof (rule device_inv_persist [OF inv, of "f_state (next_epoch (d_fw d))"])
    show "unat (r_generation (state_load e)) + (d_persists d + 1) < 2 ^ 32" using bound epoch(1) by simp
  qed (use announced_below_next [OF an b] s epoch(1) state_load_authorized in simp_all)
next
  case (epoch_cut e')
  let ?b = "r_boot_epoch (state_load (f_eeprom (d_fw d)))"
  have s: "f_state (d_fw d) = state_load (f_eeprom (d_fw d))"
    and an: "announced_below (r_boot_epoch (state_load e)) (d_announced d) ?b"
    using inv epoch_cut(2) by (simp_all add: device_inv_def Let_def)
  have b: "?b \<noteq> -1" using epoch_cut(4) s(1) by simp
  show ?thesis
  proof (rule device_inv_persist [OF inv, of "f_state (next_epoch (d_fw d))"])
    show "unat (r_generation (state_load e)) + (d_persists d + 1) < 2 ^ 32" using bound epoch_cut(1) by simp
  qed (use announced_below_next [OF an b] s epoch_cut(1,5) state_load_authorized in simp_all)
next
  case (session rx ok fw')
  then show ?thesis using inv establish_session_keeps [OF session(3)] hello_epoch_eq [of "d_fw d"] by (simp add: device_inv_def Let_def)
next
  case session_cut
  then show ?thesis using inv hello_epoch_eq [of "d_fw d"] by (simp add: device_inv_def Let_def)
next
  case (session_overrun rx)
  then show ?thesis using inv hello_epoch_eq [of "d_fw d"] by (simp add: device_inv_def Let_def)
next
  case (cycle rx fw')
  then show ?thesis using inv main_cycle_keeps [OF cycle(3)] by (simp add: device_inv_def Let_def)
next
  case blink
  then show ?thesis using inv by (simp add: device_inv_def Let_def fatal_blink_def led_set_def)
next
  case power_off
  then show ?thesis using inv by (simp add: device_inv_def Let_def)
qed

lemma device_step_persists: "device_step build d d' \<Longrightarrow> d_persists d \<le> d_persists d'"
  by (erule device_step_cases) simp_all

lemma device_inv_run:
  assumes "device_run build e d" and wf: "journal_wf e" and "unat (r_generation (state_load e)) + d_persists d < 2 ^ 32"
  shows "device_inv e d"
  using assms(1,3)
proof (induction rule: device_run.induct)
  case run_off
  then show ?case using wf by (simp add: device_inv_def device_off_def main_start_def announced_below_def)
next
  case (run_step d d')
  then show ?case using device_step_persists [OF run_step(2)] device_inv_step [OF run_step(2)] by simp
qed

text \<open>A frame of an expected length.\<close>

lemma read_frame_None:
  "uart_read_frame frame u = None \<longleftrightarrow>
     (\<exists>b l. line_bytes u = b # l \<and> b \<noteq> 0 \<and> b \<le> 64 \<and> length frame < length (take (unat b) l))"
proof (cases "line_bytes u")
  case Nil
  then show ?thesis using read_frame_silent [OF Nil, of frame] by auto
next
  case (Cons b l)
  then show ?thesis using read_frame_line [OF Cons, of frame] by (auto simp: not_le split: if_split_asm)
qed

lemma read_frame_exactly:
  assumes r: "uart_read_frame frame u = Some (ok, f', m, u')" and n: "0 < n" "n \<le> length frame" "n \<le> 64"
  shows "(ok \<and> m = of_nat n \<longleftrightarrow> (\<exists>c rest. line_bytes u = of_nat n # c @ rest \<and> length c = n)) \<and>
    (ok \<and> m = of_nat n \<longrightarrow> f' = slice (line_bytes u) 1 n @ drop n frame \<and> line_bytes u' = drop (Suc n) (line_bytes u)) \<and>
    length f' = length frame"
proof (cases "line_bytes u")
  case Nil
  then show ?thesis using read_frame_silent [OF Nil, of frame] r by auto
next
  case (Cons b l)
  have un: "unat (of_nat n :: u8) = n" using n by (intro unat_of_nat_u8) simp
  then have n64: "(of_nat n :: u8) \<noteq> 0" "(of_nat n :: u8) \<le> 64" using n by (auto simp: word_le_nat_alt)
  from read_frame_line [OF Cons, of frame] obtain v where v: "uart_read_frame frame u =
      (if b = 0 \<or> b > 64 then Some (False, frame, 0, v)
       else if length (take (unat b) l) > length frame then None
       else if length l < unat b then Some (False, memcpy frame 0 l, 0, v)
       else Some (True, memcpy frame 0 (take (unat b) l), b, v))"
    "unat b \<le> length l \<Longrightarrow> unat b \<le> length frame \<Longrightarrow> b \<noteq> 0 \<Longrightarrow> b \<le> 64 \<Longrightarrow> line_bytes v = drop (unat b) l" by blast
  have split: "(\<exists>c rest. line_bytes u = of_nat n # c @ rest \<and> length c = n) \<longleftrightarrow> b = of_nat n \<and> n \<le> length l"
  proof
    assume "b = of_nat n \<and> n \<le> length l"
    then show "\<exists>c rest. line_bytes u = of_nat n # c @ rest \<and> length c = n"
      using Cons by (intro exI [of _ "take n l"] exI [of _ "drop n l"]) simp
  qed (use Cons in auto)
  show ?thesis
  proof (cases "b = of_nat n \<and> n \<le> length l")
    case True
    then show ?thesis using r v un n64 n split Cons by (auto simp: memcpy_front slice_def not_less not_le split: if_split_asm)
  next
    case False
    have "\<not> (ok \<and> m = of_nat n)" using r v(1) un n64 False by (auto split: if_split_asm)
    moreover have "length f' = length frame" using r v(1) by (auto split: if_split_asm)
    ultimately show ?thesis using False split by auto
  qed
qed

section \<open>Which sessions a device opens\<close>

definition device_hello :: "firmware \<Rightarrow> bytes" where
  "device_hello fw =
     npq_hello_frame NPQ_DEVICE_ROOT NPQ_DEVICE_ID (r_boot_epoch (f_state fw)) (client_nonce NPQ_DEVICE_ROOT NPQ_DEVICE_ID (r_boot_epoch (f_state fw)))"

text \<open>The line answers the hello with a challenge for it and with the matching server proof.\<close>

definition server_on_line :: "bytes \<Rightarrow> bytes \<Rightarrow> bool" where
  "server_on_line hello line \<longleftrightarrow>
     (\<exists>sn sid rest. let c = npq_challenge_frame NPQ_DEVICE_ROOT hello sn sid
        in length sn = 16 \<and> length sid = 4 \<and>
           line = [60] @ c @ [24] @ npq_finished_frame NPQ_DEVICE_ROOT hello c NPQ_FRAME_SERVER_FINISHED @ rest)"

lemma server_on_line_iff:
  assumes h: "length h = 48"
  shows "server_on_line h line \<longleftrightarrow>
    (\<exists>c rest. line = 60 # c @ rest \<and> length c = 60 \<and> npq_verify_challenge (Some c) (Some NPQ_DEVICE_ROOT) (Some h) = NPQ_OK \<and>
       (\<exists>f rest'. rest = 24 # f @ rest' \<and> f = npq_finished_frame NPQ_DEVICE_ROOT h c NPQ_FRAME_SERVER_FINISHED))"
proof -
  have v: "npq_verify_challenge (Some c) (Some NPQ_DEVICE_ROOT) (Some h) = NPQ_OK \<longleftrightarrow>
      (\<exists>sn sid. length sn = 16 \<and> length sid = 4 \<and> c = npq_challenge_frame NPQ_DEVICE_ROOT h sn sid)" if "length c = 60" for c
    using verify_challenge_ok_iff [of NPQ_DEVICE_ROOT c h] that h by simp
  have l: "length (npq_challenge_frame NPQ_DEVICE_ROOT h sn sid) = 60" if "length sn = 16" "length sid = 4" for sn sid
    using that h by simp
  show ?thesis
    unfolding server_on_line_def Let_def using v l by fastforce
qed

lemma zero_buffer: "length bs = n \<Longrightarrow> npq_secure_zero bs n = replicate n 0"
  by (simp add: npq_secure_zero_eq)

lemma establish_session_cases:
  assumes l: "length (f_hello fw) = 48" "length (f_challenge fw) = 60" "length (f_frame fw) = 64" and ep: "r_boot_epoch (f_state fw) \<noteq> 0"
  defines "L \<equiv> line_bytes (f_uart fw)" and "h \<equiv> device_hello fw"
  shows "(\<exists>b l. L = b # l \<and> 60 < b \<and> b \<le> 64 \<and> 60 < length l) \<and> establish_session fw = None \<or>
    \<not> (\<exists>b l. L = b # l \<and> 60 < b \<and> b \<le> 64 \<and> 60 < length l) \<and>
    (\<exists>fw'. establish_session fw = Some (server_on_line h L, fw') \<and> f_hello fw' = replicate 48 0 \<and> f_challenge fw' = replicate 60 0 \<and>
       (server_on_line h L \<longrightarrow> f_session fw' = device_session NPQ_DEVICE_ROOT h (slice L 1 60) \<and>
          u_tx (f_uart fw') = u_tx (f_uart fw) @ [48] @ h @ [24] @ npq_finished_frame NPQ_DEVICE_ROOT h (slice L 1 60) NPQ_FRAME_CLIENT_FINISHED))"
proof -
  let ?root = NPQ_DEVICE_ROOT
  have lh: "length h = 48" by (simp add: h_def device_hello_def)
  have mh: "npq_make_hello (Some (f_hello fw)) (Some (load_flash_bytes NPQ_DEVICE_ROOT 32)) (Some (load_flash_bytes NPQ_DEVICE_ID 8))
      (r_boot_epoch (f_state fw)) = (NPQ_OK, Some h)"
    using l ep by (simp add: load_flash_all make_hello_ok h_def device_hello_def)
  have root: "load_flash_bytes NPQ_DEVICE_ROOT 32 = ?root" by (simp add: load_flash_all)
  let ?u1 = "uart_send_frame h 48 (f_uart fw)"
  have L1: "line_bytes ?u1 = L" by (simp add: L_def)
  note start = establish_session_def Let_def mh [unfolded root] root zero_buffer
  have over: "uart_read_frame (f_challenge fw) ?u1 = None \<longleftrightarrow> (\<exists>b l. L = b # l \<and> 60 < b \<and> b \<le> 64 \<and> 60 < length l)"
  proof -
    have "60 < length (take (unat b) m) \<longleftrightarrow> 60 < b \<and> 60 < length m" for b :: u8 and m :: bytes
      by (auto simp: word_less_nat_alt)
    then show ?thesis unfolding read_frame_None L1 l(2) by fastforce
  qed
  show ?thesis
  proof (cases "uart_read_frame (f_challenge fw) ?u1")
    case None
    then have "establish_session fw = None" by (simp add: start)
    then show ?thesis using over None by blast
  next
    case (Some r)
    obtain ok c m u2 where r: "uart_read_frame (f_challenge fw) ?u1 = Some (ok, c, m, u2)" using Some by (cases r) auto
    note ex = read_frame_exactly [OF r, of 60, unfolded L1 l(2)]
    have no: "\<not> (\<exists>b l. L = b # l \<and> 60 < b \<and> b \<le> 64 \<and> 60 < length l)" using over r by simp
    have lc: "length c = 60" using ex by simp
    show ?thesis
    proof (cases "ok \<and> m = 60")
      case False
      then have "\<not> server_on_line h L" using ex unfolding server_on_line_iff [OF lh] by auto
      moreover have "\<exists>fw'. establish_session fw = Some (False, fw') \<and> f_hello fw' = replicate 48 0 \<and> f_challenge fw' = replicate 60 0"
        using False lh lc by (auto simp: start r)
      ultimately show ?thesis using no by simp
    next
      case ok: True
      have c: "c = slice L 1 60" "line_bytes u2 = drop 61 L" and Lc: "\<exists>rest. L = 60 # c @ rest"
        using ex ok l(2) by (auto simp: slice_def)
      then obtain rest where Lr: "L = 60 # c @ rest" by blast
      then have rest: "rest = line_bytes u2" using c(2) lc by simp
      let ?F = "npq_finished_frame ?root h c 4"
      have srv: "server_on_line h L \<longleftrightarrow> npq_verify_challenge (Some c) (Some ?root) (Some h) = NPQ_OK \<and> (\<exists>rest'. rest = 24 # ?F @ rest')"
        unfolding server_on_line_iff [OF lh] using Lr lc by auto
      show ?thesis
      proof (cases "npq_verify_challenge (Some c) (Some ?root) (Some h) = NPQ_OK")
        case False
        moreover have "\<exists>fw'. establish_session fw = Some (False, fw') \<and> f_hello fw' = replicate 48 0 \<and> f_challenge fw' = replicate 60 0"
          using False lh lc ok by (simp add: start r)
        ultimately show ?thesis using no srv by simp
      next
        case vc: True
        have "npq_verify_hello (Some h) (Some ?root) = NPQ_OK"
          unfolding h_def device_hello_def using ep by (intro hello_frame_accepted) simp_all
        then have pre: "preflight_accepted ?root h c" using vc by (simp add: preflight_accepted_def)
        have rl: "length ?root = 32" "48 \<le> length h" "60 \<le> length c" "24 \<le> length (f_frame fw)" using lh lc l by simp_all
        note ds = derive_session_ok(1) [OF rl(1-3) pre]
        have mf: "npq_make_finished (Some (f_frame fw)) 3 0 (Some ?root) (Some h) (Some c)
            = (NPQ_OK, Some (npq_finished_frame ?root h c 3 @ drop 24 (f_frame fw)))"
          by (rule make_finished_ok [OF rl(1,3) pre rl(4)]) simp
        define F1 where "F1 = npq_finished_frame ?root h c 3 @ drop 24 (f_frame fw)"
        have lF1: "length F1 = 64" using l(3) rl by (simp add: F1_def)
        let ?u3 = "uart_send_frame F1 24 u2"
        have "uart_read_frame F1 ?u3 \<noteq> None"
          using lF1 by (auto simp: read_frame_None word_le_nat_alt)
        then obtain ok2 f m2 u4 where r2: "uart_read_frame F1 ?u3 = Some (ok2, f, m2, u4)" by (metis option.exhaust prod_cases4)
        have n24: "0 < (24 :: nat)" "24 \<le> length F1" "(24 :: nat) \<le> 64" using lF1 by simp_all
        note ex2 = read_frame_exactly [OF r2 n24, unfolded line_send, folded rest]
        have lf: "24 \<le> length f" using ex2 lF1 by simp
        note vf = verify_finished_iff [OF rl(1,3) lf pre, of 4]
        have run: "\<exists>fw'. establish_session fw = Some (ok2 \<and> m2 = 24 \<and> npq_verify_finished (Some f) 4 0 (Some ?root) (Some h) (Some c) = NPQ_OK, fw') \<and>
            f_hello fw' = replicate 48 0 \<and> f_challenge fw' = replicate 60 0 \<and> f_session fw' = device_session ?root h c \<and> f_uart fw' = u4"
          using ok lh lc vc ds mf r2 by (simp add: start r send_frame_def F1_def) blast
        have "take 24 F1 = npq_finished_frame ?root h c 3" using rl by (simp add: F1_def)
        then have tx: "u_tx u4 = u_tx (f_uart fw) @ [48] @ h @ [24] @ npq_finished_frame ?root h c 3"
          using read_frame_tx [OF r] read_frame_tx [OF r2] lF1 lh by (simp add: send_frame_tx)
        have "ok2 \<and> m2 = 24 \<and> npq_verify_finished (Some f) 4 0 (Some ?root) (Some h) (Some c) = NPQ_OK \<longleftrightarrow> (\<exists>rest'. rest = 24 # ?F @ rest')"
        proof
          assume a: "ok2 \<and> m2 = 24 \<and> npq_verify_finished (Some f) 4 0 (Some ?root) (Some h) (Some c) = NPQ_OK"
          then obtain g g' where g: "rest = 24 # g @ g'" "length g = 24" using ex2 by auto
          have "f = g @ drop 24 F1" using ex2 a g by (simp add: slice_def)
          then show "\<exists>rest'. rest = 24 # ?F @ rest'" using vf a g by auto
        next
          assume "\<exists>rest'. rest = 24 # ?F @ rest'"
          then obtain rest' where g: "rest = 24 # ?F @ rest'" by blast
          have lf': "length ?F = 24" using rl by simp
          then have o: "ok2 \<and> m2 = 24" using ex2 g by auto
          then have "f = ?F @ drop 24 F1" using ex2 g lf' by (simp add: slice_def)
          then show "ok2 \<and> m2 = 24 \<and> npq_verify_finished (Some f) 4 0 (Some ?root) (Some h) (Some c) = NPQ_OK"
            using vf o lf' by simp
        qed
        then show ?thesis using run tx no srv vc c(1) by auto
      qed
    qed
  qed
qed

section \<open>Commands\<close>

text \<open>The line carries a command: a data frame for this position of the session with a command that
  turns the LED on or off.\<close>

definition command_on_line :: "npq_session \<Rightarrow> u8 \<Rightarrow> bytes \<Rightarrow> bool" where
  "command_on_line s v line \<longleftrightarrow> v \<le> 1 \<and> (\<exists>rest. line = 31 # awaited_frame s [NPQ_PAYLOAD_COMMAND, v] @ rest)"

lemma seal_and_send_fields [simp]:
  "f_led (seal_and_send n fw) = f_led fw" "f_uart (seal_and_send n fw) = f_uart fw \<longleftrightarrow> f_uart (seal_and_send n fw) = f_uart fw"
  by (simp_all add: seal_and_send_def Let_def send_frame_def split: prod.splits)

lemma npq_open_prefix:
  assumes "unat n \<le> length f"
  shows "npq_open (Some s) (Some f) n (Some p) (Some pl) = npq_open (Some s) (Some (take (unat n) f)) n (Some p) (Some pl)"
proof (cases "n < 29")
  case True
  then show ?thesis by (simp add: npq_open_def)
next
  case False
  then have n: "29 \<le> unat n" by (simp add: word_less_nat_alt)
  define t where "t = take (unat n) f"
  have "valid_header t 5 = valid_header f 5" "t ! 12 = f ! 12" "slice t 4 4 = slice f 4 4" "slice t 8 4 = slice f 8 4" "take 13 t = take 13 f"
    using n by (simp_all add: t_def valid_header_def slice_take)
  moreover have "slice t 13 (unat (f ! 12)) = slice f 13 (unat (f ! 12))" "slice t (13 + unat (f ! 12)) 16 = slice f (13 + unat (f ! 12)) 16"
    if "unat n = 29 + unat (f ! 12)" using that by (simp_all add: t_def slice_take)
  ultimately show ?thesis unfolding t_def [symmetric] by (simp add: npq_open_def Let_def case_prod_unfold)
qed

lemma receive_command_cases:
  assumes l: "length (f_frame fw) = 64" "length (f_plaintext fw) = 24" and est: "s_established (f_session fw) \<noteq> 0"
  defines "L \<equiv> line_bytes (f_uart fw)"
  shows "\<exists>fw'. receive_command fw = Some fw' \<and>
    (\<forall>v. command_on_line (f_session fw) v L \<longrightarrow> f_led fw' = (v \<noteq> 0)) \<and>
    ((\<nexists>v. command_on_line (f_session fw) v L) \<longrightarrow> f_led fw' = f_led fw)"
  using l(1)
proof (cases rule: read_frame_64 [where u = "f_uart fw"])
  case (refused frame' u')
  have "\<not> command_on_line (f_session fw) v L" for v
  proof
    assume "command_on_line (f_session fw) v L"
    then obtain rest where "L = 31 # awaited_frame (f_session fw) [0x10, v] @ rest" by (auto simp: command_on_line_def)
    then show False using refused(3) by (auto simp: L_def)
  qed
  moreover have "\<exists>fw'. receive_command fw = Some fw' \<and> f_led fw' = f_led fw" using refused(1) by (simp add: receive_command_def)
  ultimately show ?thesis by blast
next
  case (frame b m u')
  let ?s = "f_session fw" and ?F = "take (unat b) m @ drop (unat b) (f_frame fw)" and ?g = "take (unat b) m"
  have Lb: "L = b # m" using frame(2) by (simp add: L_def)
  have lg: "length ?g = unat b" "(of_nat (length ?g) :: u8) = b" using frame(5) by simp_all
  have lF: "unat b \<le> length ?F" "take (unat b) ?F = ?g" using lg by simp_all
  obtain st s' p' n' where o: "npq_open (Some ?s) (Some ?F) b (Some (f_plaintext fw)) (Some 0) = (st, s', p', n')" by (metis prod_cases4)
  have o': "npq_open (Some ?s) (Some ?g) b (Some (f_plaintext fw)) (Some 0) = (st, s', p', n')"
    using o unfolding npq_open_prefix [OF lF(1)] lF(2) .
  define acc where "acc \<longleftrightarrow> st = NPQ_OK \<and> the n' = 2 \<and> the p' ! 0 = 0x10 \<and> the p' ! 1 \<le> 1"
  have run: "\<exists>fw'. receive_command fw = Some fw' \<and> f_led fw' = (if acc then the p' ! 1 \<noteq> 0 else f_led fw)"
    by (simp add: receive_command_def frame(1) o Let_def acc_def send_status_def led_set_def)
  have cmd: "acc \<and> the p' ! 1 = v" if "command_on_line ?s v L" for v
  proof -
    from that obtain rest where v: "v \<le> 1" "L = 31 # awaited_frame ?s [0x10, v] @ rest" by (auto simp: command_on_line_def)
    then have g: "b = 31" "?g = awaited_frame ?s [0x10, v]" using Lb by simp_all
    have "(of_nat (29 + length [0x10, v]) :: u8) = b" "(of_nat (length [0x10, v]) :: u8) = 2" "length [0x10, v] \<le> 24" using g(1) by simp_all
    then have "(st, s', p', n') = (NPQ_OK, Some (after_receive ?s), Some (memcpy (f_plaintext fw) 0 [0x10, v]), Some 2)"
      using o' open_awaited [OF est, of "[0x10, v]" "f_plaintext fw" 0] g(2) by (simp only:)
    then show ?thesis using v(1) l(2) by (simp add: acc_def memcpy_front)
  qed
  have conv: "\<exists>v. command_on_line ?s v L" if acc
  proof -
    have "npq_open (Some ?s) (Some ?g) (of_nat (length ?g)) (Some (f_plaintext fw)) (Some 0) = (NPQ_OK, s', p', n')"
      using o' that lg(2) by (simp only: acc_def)
    moreover have "length ?g < 256" using lg(1) unat_u8_less [of b] by simp
    ultimately obtain pt where pt: "length pt \<le> 24" "?g = awaited_frame ?s pt" "p' = Some (memcpy (f_plaintext fw) 0 pt)" "n' = Some (of_nat (length pt))"
      using npq_open_accepts_imp by blast
    have "length pt = 2" using that pt(1,4) unat_of_nat_u8 [of "length pt"] by (auto simp: acc_def)
    then obtain x v where xv: "pt = [x, v]" by (auto simp: numeral_eq_Suc length_Suc_conv)
    have "x = 0x10" "v \<le> 1" using that pt(3) xv l(2) by (simp_all add: acc_def memcpy_front)
    moreover have "b = 31" using arg_cong [OF pt(2), of length] lg xv by (simp add: word_unat_eq_iff)
    moreover have "L = b # ?g @ drop (unat b) m" by (simp add: Lb)
    ultimately have "L = 31 # awaited_frame ?s [0x10, v] @ drop (unat b) m \<and> v \<le> 1" unfolding pt(2) xv by simp
    then show ?thesis unfolding command_on_line_def by blast
  qed
  from run cmd conv show ?thesis by (cases acc) auto
qed

section \<open>Properties\<close>

text \<open>C17: Over all runs of a device that starts from a blank EEPROM, or from any EEPROM of 36 bytes whose
  valid records stand in the slot of their generation's parity (as every state write keeps it), with power lost
  at any moment and the state write torn in any way, every epoch it announces is larger than all it announced
  before and than the one it was switched on with, as long as the generation counter of the state does not
  wrap.\<close>

theorem boot_epochs_unique:
  assumes "device_run build e d" and "journal_wf e" and "unat (r_generation (state_load e)) + d_persists d < 2 ^ 32"
  shows "sorted_wrt (>) (d_announced d) \<and>
    (\<forall>ep\<in>set (d_announced d). r_boot_epoch (state_load e) < ep \<and> ep \<le> r_boot_epoch (state_load (f_eeprom (d_fw d))))"
  using device_inv_run [OF assms] by (simp add: device_inv_def announced_below_def Let_def)

lemma authorize_outcome:
  assumes "length (f_frame fw) = 64"
  shows "\<exists>ok fw'. authorize_post_quantum build fw = Some (ok, fw') \<and>
    (ok \<longleftrightarrow> authorization_on_line build (r_policy_sequence (f_state fw)) (line_bytes (f_uart fw))) \<and>
    (ok \<longrightarrow> (f_state fw', f_eeprom fw') = state_persist (authorized_state fw) (f_eeprom fw)) \<and>
    (\<not> ok \<longrightarrow> f_state fw' = f_state fw \<and> f_eeprom fw' = f_eeprom fw)"
proof -
  from authorize_check_exact [OF assms, of build] obtain good fw1 where
    g: "good \<longleftrightarrow> authorization_on_line build (r_policy_sequence (f_state fw)) (line_bytes (f_uart fw))"
    and c: "authorize_check build fw = Some (if good then Inr fw1 else Inl fw1)" "f_eeprom fw1 = f_eeprom fw"
      "f_state fw1 = (if good then authorized_state fw else f_state fw)" by blast
  show ?thesis
    unfolding g [symmetric] using c by (cases good) (auto simp: authorize_post_quantum_def state_persist_def)
qed

text \<open>C18: Authorising a policy. The answer is yes exactly when the line carries, before the program
  runs into a timeout, a policy frame whose manifest names this device class and legacy policy with a
  sequence number above the stored one, followed by a signature of it that FIPS 205 (or RFC 8554, in the
  LMS builds) accepts under the provisioned key. Then the new policy is stored; otherwise neither the
  state nor the EEPROM changes.\<close>

theorem authorization_exact:
  assumes "length (f_frame fw) = 64"
  shows "\<exists>ok fw'. authorize_post_quantum build fw = Some (ok, fw') \<and>
    (ok \<longleftrightarrow> authorization_on_line build (r_policy_sequence (f_state fw)) (line_bytes (f_uart fw))) \<and>
    (ok \<longrightarrow> (f_state fw', f_eeprom fw') = state_persist (authorized_state fw) (f_eeprom fw)) \<and>
    (\<not> ok \<longrightarrow> f_state fw' = f_state fw \<and> f_eeprom fw' = f_eeprom fw)"
  by (rule authorize_outcome [OF assms])

theorem authorization_exact_witness:
  "\<exists>fw'. authorize_post_quantum AUTH_SLHDSA (main_start (\<lambda>_. 0) (replicate 36 0xff)) = Some (False, fw') \<and>
     f_eeprom fw' = replicate 36 0xff"
proof -
  let ?fw = "main_start (\<lambda>_. 0) (replicate 36 0xff)"
  have "\<not> authorization_on_line AUTH_SLHDSA s (line_bytes (f_uart ?fw))" for s
    by (simp add: main_start_def line_bytes_def authorization_on_line_def)
  moreover have "length (f_frame ?fw) = 64" "f_eeprom ?fw = replicate 36 0xff" by (simp_all add: main_start_def)
  ultimately show ?thesis using authorization_exact [of ?fw AUTH_SLHDSA] by auto
qed

text \<open>C23: Opening a session. The device opens one exactly when the line answers its hello with a challenge
  for it, authenticated under the root key, and with the server proof over both; it then holds the
  session of that hello and challenge and has sent the hello and its own proof, and in every case the two frames are wiped. The one way this
  goes wrong is a frame announced with 61 to 64 bytes in place of the challenge: more than 60 of its
  bytes are written into the 60 bytes of \<open>npq_challenge\<close>.\<close>

theorem device_session_exact:
  assumes "length (f_hello fw) = 48" and "length (f_challenge fw) = 60" and "length (f_frame fw) = 64" and "r_boot_epoch (f_state fw) \<noteq> 0"
  shows "(establish_session fw = None \<longleftrightarrow> (\<exists>b l. line_bytes (f_uart fw) = b # l \<and> 60 < b \<and> b \<le> 64 \<and> 60 < length l)) \<and>
    (\<forall>ok fw'. establish_session fw = Some (ok, fw') \<longrightarrow>
      (ok \<longleftrightarrow> server_on_line (device_hello fw) (line_bytes (f_uart fw))) \<and>
      (ok \<longrightarrow> f_session fw' = device_session NPQ_DEVICE_ROOT (device_hello fw) (slice (line_bytes (f_uart fw)) 1 60) \<and>
        u_tx (f_uart fw') = u_tx (f_uart fw) @ [48] @ device_hello fw @ [24] @
          npq_finished_frame NPQ_DEVICE_ROOT (device_hello fw) (slice (line_bytes (f_uart fw)) 1 60) NPQ_FRAME_CLIENT_FINISHED) \<and>
      f_hello fw' = replicate 48 0 \<and> f_challenge fw' = replicate 60 0)"
  using establish_session_cases [OF assms] by auto

lemma timely_arrived: "timely started (map Arrived bs) timer = bs"
  by (induction bs arbitrary: started) simp_all

lemma line_hear: "line_bytes (f_uart (hear (map Arrived bs) fw)) = bs"
  by (simp add: hear_def line_bytes_def timely_arrived)

theorem device_session_exact_witness:
  "establish_session (hear (map Arrived (64 # replicate 64 7)) (next_epoch (main_start (\<lambda>_. 0) (replicate 36 0xff)))) = None"
proof -
  let ?fw = "hear (map Arrived (64 # replicate 64 7)) (next_epoch (main_start (\<lambda>_. 0) (replicate 36 0xff)))"
  have l: "line_bytes (f_uart ?fw) = 64 # replicate 64 7" by (rule line_hear)
  have "r_boot_epoch (f_state ?fw) \<noteq> 0" by (simp add: main_start_def state_load_current blank_journal)
  moreover have "length (f_hello ?fw) = 48" "length (f_challenge ?fw) = 60" "length (f_frame ?fw) = 64"
    by (simp_all add: hear_def next_epoch_def main_start_def)
  moreover have "\<exists>b m. line_bytes (f_uart ?fw) = b # m \<and> 60 < b \<and> b \<le> 64 \<and> 60 < length m" unfolding l by simp
  ultimately show ?thesis using device_session_exact [of ?fw] by blast
qed

text \<open>C24: Commands. In an established session the LED takes the value of a command exactly when the line
  delivers, in time, the data frame that carries this command at the awaited position; nothing else
  on the line changes it.\<close>

theorem led_command_exact:
  assumes "length (f_frame fw) = 64" and "length (f_plaintext fw) = 24" and "s_established (f_session fw) \<noteq> 0"
  shows "\<exists>fw'. receive_command fw = Some fw' \<and>
    (\<forall>v. command_on_line (f_session fw) v (line_bytes (f_uart fw)) \<longrightarrow> f_led fw' = (v \<noteq> 0)) \<and>
    ((\<nexists>v. command_on_line (f_session fw) v (line_bytes (f_uart fw))) \<longrightarrow> f_led fw' = f_led fw)"
  by (rule receive_command_cases [OF assms])

theorem led_command_exact_witness:
  "\<exists>fw'. receive_command ((main_start (\<lambda>_. 0) (replicate 36 0xff))\<lparr>f_led := True, f_session := session_zero\<lparr>s_established := 1\<rparr>\<rparr>) = Some fw' \<and>
     f_led fw'"
proof -
  let ?fw = "(main_start (\<lambda>_. 0) (replicate 36 0xff))\<lparr>f_led := True, f_session := session_zero\<lparr>s_established := 1\<rparr>\<rparr>"
  have "\<not> command_on_line s v (line_bytes (f_uart ?fw))" for s v by (simp add: main_start_def line_bytes_def command_on_line_def)
  then show ?thesis using led_command_exact [of ?fw] by (simp add: main_start_def)
qed

text \<open>An authorised device: two boots, the first of which loses power right after its hello.\<close>

definition sample_eeprom :: bytes where
  "sample_eeprom = snd (state_persist (state_defaults\<lparr>r_authorized := 1\<rparr>) (replicate 36 0xff))"

lemma sample_eeprom_load:
  "journal_wf sample_eeprom" "state_load sample_eeprom = persist_record (state_defaults\<lparr>r_authorized := 1\<rparr>)"
  using persist_completes [OF blank_journal(1), of "state_defaults\<lparr>r_authorized := 1\<rparr>"]
  by (simp_all add: sample_eeprom_def follows_def blank_journal(2) state_load_current)

theorem boot_epochs_unique_witness:
  "\<exists>d. device_run AUTH_SLHDSA sample_eeprom d \<and> length (d_announced d) = 2 \<and> sorted_wrt (>) (d_announced d)"
proof -
  have boot: "\<exists>d2. device_run AUTH_SLHDSA sample_eeprom d2 \<and> d_phase d2 = Off \<and> length (d_announced d2) = Suc (length (d_announced d)) \<and>
      d_persists d2 = d_persists d + 1 \<and> journal_wf (f_eeprom (d_fw d2)) \<and>
      state_load (f_eeprom (d_fw d2)) = persist_record ((state_load (f_eeprom (d_fw d)))\<lparr>r_boot_epoch := r_boot_epoch (state_load (f_eeprom (d_fw d))) + 1\<rparr>)"
    if d: "device_run AUTH_SLHDSA sample_eeprom d" "d_phase d = Off" "journal_wf (f_eeprom (d_fw d))"
      and c: "r_authorized (state_load (f_eeprom (d_fw d))) = 1" "r_generation (state_load (f_eeprom (d_fw d))) \<noteq> -1"
        "r_boot_epoch (state_load (f_eeprom (d_fw d))) \<noteq> -1" for d
  proof -
    let ?e = "f_eeprom (d_fw d)"
    define d0 where "d0 = d\<lparr>d_phase := Enrolling, d_fw := main_start (\<lambda>_. 0) ?e\<rparr>"
    define d1 where "d1 = d0\<lparr>d_phase := Booted, d_fw := fw_persist (next_epoch (d_fw d0)), d_persists := d_persists d0 + 1\<rparr>"
    have f: "f_state (d_fw d0) = state_load ?e" "f_eeprom (d_fw d0) = ?e" by (simp_all add: d0_def main_start_def)
    have "device_run AUTH_SLHDSA sample_eeprom d0" unfolding d0_def by (rule run_step [OF d(1)]) (rule power_on [OF d(2)])
    moreover have "device_step AUTH_SLHDSA d0 d1" unfolding d1_def by (rule device_step.epoch) (use f c in \<open>simp_all add: d0_def main_start_def\<close>)
    ultimately have r1: "device_run AUTH_SLHDSA sample_eeprom d1" by (rule run_step)
    have "d_phase d1 = Booted" by (simp add: d1_def)
    from run_step [OF r1 session_cut [OF this]] show ?thesis
      using persist_loads(1,2) [OF d(3), of "f_state (next_epoch (d_fw d0))"] c f
      by (intro exI [of _ "d1\<lparr>d_phase := Off, d_announced := hello_epoch (d_fw d1) # d_announced d1\<rparr>"]) (simp add: d1_def d0_def main_start_def)
  qed
  let ?d = "device_off sample_eeprom"
  have s: "state_load (f_eeprom (d_fw ?d)) = persist_record (state_defaults\<lparr>r_authorized := 1\<rparr>)" "d_phase ?d = Off" "d_persists ?d = 0"
      "d_announced ?d = []" "journal_wf (f_eeprom (d_fw ?d))"
    using sample_eeprom_load by (simp_all add: device_off_def main_start_def)
  have "r_authorized (persist_record (state_defaults\<lparr>r_authorized := 1\<rparr>)) = 1" by simp
  from boot [OF run_off s(2,5), unfolded s(1,3,4)] obtain d2 where d2: "device_run AUTH_SLHDSA sample_eeprom d2" "d_phase d2 = Off"
      "length (d_announced d2) = 1" "d_persists d2 = 1" "journal_wf (f_eeprom (d_fw d2))"
      "state_load (f_eeprom (d_fw d2)) = persist_record ((persist_record (state_defaults\<lparr>r_authorized := 1\<rparr>))\<lparr>r_boot_epoch := 1\<rparr>)" by auto
  from boot [OF d2(1,2,5), unfolded d2(3,4,6)] obtain d4 where d4: "device_run AUTH_SLHDSA sample_eeprom d4" "length (d_announced d4) = 2"
      "d_persists d4 = 2" by auto
  have "unat (r_generation (state_load sample_eeprom)) + d_persists d4 < 2 ^ 32" using d4(3) by (simp add: sample_eeprom_load)
  from boot_epochs_unique [OF d4(1) sample_eeprom_load(1) this] d4 show ?thesis by blast
qed

end
