(* ===== verification/NpqPeer.thy ===== *)
theory NpqPeer
  imports NpqRecords NpqSlhdsa NpqLms
begin

text \<open>
  NanoPQ host peer, \<open>nanopq_peer.c\<close>: options, the serial port, the epoch file that outlives a run,
  enrolment, the session it opens with a device, and the demonstration it runs.

  The operating system is what the calls return. Reading the port is a script of what \<open>poll\<close> and
  \<open>read\<close> report, writing a script of what \<open>poll\<close>, \<open>write\<close> and \<open>tcdrain\<close> report, the
  random source a script of what \<open>getrandom\<close> returns; a port with no script left is silent and
  takes every byte. Files are byte strings by their paths; a manifest or signature that cannot be
  opened or read is, as in the code, one that is not there, and what opening and reading the epoch
  file gives has an event of its own. Messages to the terminal are left out.
\<close>

unbundle bit_operations_syntax

definition demo_root_key :: bytes where
  "demo_root_key =
     [0x1b, 0x47, 0x6c, 0xe0, 0x0b, 0x45, 0x87, 0x91, 0x7e, 0xc4, 0xee, 0x14, 0xa2, 0x5e, 0x1a, 0xf6,
      0xb5, 0x3a, 0xb3, 0x39, 0x6d, 0x6c, 0x28, 0x1f, 0x5a, 0x7a, 0x84, 0xc7, 0x16, 0x67, 0x33, 0x42]"

definition demo_device_id :: bytes where
  "demo_device_id = [0x03, 0xaf, 0xe9, 0xd9, 0x89, 0x40, 0xf1, 0xd2]"

section \<open>Options\<close>

record peer_options =
  o_port :: "string option"
  o_manifest :: string
  o_signature :: "string option"
  o_state :: string
  o_led :: u8
  o_tamper_demo :: u8

text \<open>The loop over the arguments; an option that takes a value and is the last argument is not known.\<close>

fun parse_args :: "string list \<Rightarrow> peer_options \<Rightarrow> peer_options option" where
  "parse_args [] opts = Some opts"
| "parse_args (a # rest) opts =
     (case rest of
        [] \<Rightarrow> if a = ''--tamper-demo'' then Some (opts\<lparr>o_tamper_demo := 1\<rparr>) else None
      | v # others \<Rightarrow>
          if a = ''--port'' then parse_args others (opts\<lparr>o_port := Some v\<rparr>)
          else if a = ''--manifest'' then parse_args others (opts\<lparr>o_manifest := v\<rparr>)
          else if a = ''--signature'' then parse_args others (opts\<lparr>o_signature := Some v\<rparr>)
          else if a = ''--state'' then parse_args others (opts\<lparr>o_state := v\<rparr>)
          else if a = ''--led'' then
            if v = ''on'' then parse_args others (opts\<lparr>o_led := 1\<rparr>)
            else if v = ''off'' then parse_args others (opts\<lparr>o_led := 0\<rparr>)
            else None
          else if a = ''--tamper-demo'' then parse_args rest (opts\<lparr>o_tamper_demo := 1\<rparr>)
          else None)"

definition parse_options :: "string list \<Rightarrow> peer_options option" where
  "parse_options args =
     (case parse_args args \<lparr>o_port = None, o_manifest = ''tests/vectors/cutover_manifest.bin'', o_signature = None,
        o_state = ''build/nanopq-peer.state'', o_led = 1, o_tamper_demo = 0\<rparr> of
        None \<Rightarrow> None
      | Some opts \<Rightarrow> if o_port opts = None then None else Some opts)"

section \<open>The serial port\<close>

datatype read_event = ReadPollInterrupted | ReadPollQuiet | ReadInterrupted | ReadFailed | Received bytes
datatype write_event = WritePollInterrupted | WritePollQuiet | WriteInterrupted | WriteFailed | Wrote nat | DrainFailed
datatype random_event = RandomInterrupted | RandomFailed | Randomness bytes
datatype load_event = LoadWhole | LoadOpenFailed | LoadCut nat
datatype store_event = StoreOpenFailed | StoreWriteFailed bytes | StoreSyncFailed | StoreRenameFailed | Stored

record host =
  h_reads :: "read_event list"
  h_writes :: "write_event list"
  h_sent :: bytes
  h_random :: "random_event list"
  h_files :: "string \<Rightarrow> bytes option"
  h_malloc :: "nat \<Rightarrow> bool"
  h_load :: load_event
  h_store :: store_event
  h_opens :: bool

text \<open>\<open>wait_fd\<close> and \<open>read\<close>: an interrupted call is made again, silence and failure end the loop. The
  kernel keeps what a call did not ask for.\<close>

fun read_exact :: "read_event list \<Rightarrow> nat \<Rightarrow> bytes option \<times> read_event list" where
  "read_exact es 0 = (Some [], es)"
| "read_exact [] (Suc n) = (None, [])"
| "read_exact (ReadPollInterrupted # es) (Suc n) = read_exact es (Suc n)"
| "read_exact (ReadPollQuiet # es) (Suc n) = (None, es)"
| "read_exact (ReadInterrupted # es) (Suc n) = read_exact es (Suc n)"
| "read_exact (ReadFailed # es) (Suc n) = (None, es)"
| "read_exact (Received bs # es) (Suc n) =
     (if bs = [] then (None, es)
      else if length bs \<le> Suc n then
        (case read_exact es (Suc n - length bs) of
           (None, es') \<Rightarrow> (None, es')
         | (Some others, es') \<Rightarrow> (Some (bs @ others), es'))
      else (Some (take (Suc n) bs), Received (drop (Suc n) bs) # es))"

fun write_loop :: "write_event list \<Rightarrow> bytes \<Rightarrow> bool \<times> bytes \<times> write_event list" where
  "write_loop es [] = (case es of DrainFailed # es' \<Rightarrow> (False, [], es') | _ \<Rightarrow> (True, [], es))"
| "write_loop [] (b # bs) = (True, b # bs, [])"
| "write_loop (WritePollInterrupted # es) (b # bs) = write_loop es (b # bs)"
| "write_loop (WritePollQuiet # es) (b # bs) = (False, [], es)"
| "write_loop (WriteInterrupted # es) (b # bs) = write_loop es (b # bs)"
| "write_loop (WriteFailed # es) (b # bs) = (False, [], es)"
| "write_loop (DrainFailed # es) (b # bs) = write_loop es (b # bs)"
| "write_loop (Wrote n # es) (b # bs) =
     (if n = 0 then (False, [], es)
      else
        let now = take n (b # bs); (ok, others, es') = write_loop es (drop n (b # bs))
        in (ok, now @ others, es'))"

definition read_port :: "nat \<Rightarrow> host \<Rightarrow> bytes option \<times> host" where
  "read_port n h = (let (r, es) = read_exact (h_reads h) n in (r, h\<lparr>h_reads := es\<rparr>))"

definition write_exact :: "bytes \<Rightarrow> host \<Rightarrow> bool \<times> host" where
  "write_exact input h =
     (let (ok, out, es) = write_loop (h_writes h) input in (ok, h\<lparr>h_writes := es, h_sent := h_sent h @ out\<rparr>))"

definition read_frame :: "host \<Rightarrow> bytes option \<times> host" where
  "read_frame h =
     (case read_port 1 h of
        (None, h1) \<Rightarrow> (None, h1)
      | (Some l, h1) \<Rightarrow>
          let len = l ! 0
          in if len = 0 \<or> len > 64 then (None, h1) else read_port (unat len) h1)"

text \<open>Up to eight frames are read until one has the protocol header.\<close>

primrec protocol_attempts :: "nat \<Rightarrow> host \<Rightarrow> bytes option \<times> host" where
  "protocol_attempts 0 h = (None, h)"
| "protocol_attempts (Suc n) h =
     (case read_frame h of
        (None, h1) \<Rightarrow> (None, h1)
      | (Some frame, h1) \<Rightarrow>
          if length frame \<ge> 4 \<and> frame ! 0 = 0x4e \<and> frame ! 1 = 0x51 \<and> frame ! 2 = 1 then (Some frame, h1)
          else protocol_attempts n h1)"

definition read_protocol_frame :: "host \<Rightarrow> bytes option \<times> host" where
  "read_protocol_frame h = protocol_attempts 8 h"

definition write_frame :: "bytes \<Rightarrow> u8 \<Rightarrow> host \<Rightarrow> bool \<times> host" where
  "write_frame frame len h =
     (let (ok, h1) = write_exact [len] h
      in if \<not> ok then (False, h1) else write_exact (take (unat len) frame) h1)"

section \<open>Files and randomness\<close>

definition read_file_exact :: "string \<Rightarrow> nat \<Rightarrow> host \<Rightarrow> bytes option" where
  "read_file_exact path expected_length h =
     (case h_files h path of
        None \<Rightarrow> None
      | Some content \<Rightarrow>
          if \<not> h_malloc h expected_length \<or> length content < expected_length then None
          else if length content > expected_length then None
          else Some content)"

fun random_loop :: "random_event list \<Rightarrow> nat \<Rightarrow> bytes option \<times> random_event list" where
  "random_loop es 0 = (Some [], es)"
| "random_loop [] (Suc n) = (None, [])"
| "random_loop (RandomInterrupted # es) (Suc n) = random_loop es (Suc n)"
| "random_loop (RandomFailed # es) (Suc n) = (None, es)"
| "random_loop (Randomness bs # es) (Suc n) =
     (if bs = [] then (None, es)
      else
        let now = take (Suc n) bs
        in case random_loop es (Suc n - length now) of
             (None, es') \<Rightarrow> (None, es')
           | (Some others, es') \<Rightarrow> (Some (now @ others), es'))"

definition fill_random :: "nat \<Rightarrow> host \<Rightarrow> bytes option \<times> host" where
  "fill_random n h = (let (r, es) = random_loop (h_random h) n in (r, h\<lparr>h_random := es\<rparr>))"

text \<open>What \<open>fscanf\<close> and \<open>fprintf\<close> make of an unsigned number in decimal. A number that does not fit
  has no defined result in C; here it is taken modulo \<open>2^32\<close>.\<close>

definition is_space :: "u8 \<Rightarrow> bool" where
  "is_space b \<longleftrightarrow> b = 32 \<or> (9 \<le> b \<and> b \<le> 13)"

definition is_digit :: "u8 \<Rightarrow> bool" where
  "is_digit b \<longleftrightarrow> 48 \<le> b \<and> b \<le> 57"

definition digits_value :: "bytes \<Rightarrow> nat" where
  "digits_value ds = foldl (\<lambda>v d. 10 * v + (unat d - 48)) 0 ds"

definition scan_u32 :: "bytes \<Rightarrow> u32 option" where
  "scan_u32 text =
     (let s = dropWhile is_space text;
          (negative, s) = (case s of [] \<Rightarrow> (False, s) | c # cs \<Rightarrow> if c = 45 then (True, cs) else if c = 43 then (False, cs) else (False, s));
          ds = takeWhile is_digit s
      in if ds = [] then None else Some (if negative then - of_nat (digits_value ds) else of_nat (digits_value ds)))"

fun decimal :: "nat \<Rightarrow> bytes" where
  "decimal n = (if n < 10 then [of_nat (48 + n)] else decimal (n div 10) @ [of_nat (48 + n mod 10)])"

declare decimal.simps [simp del]

text \<open>\<open>fopen\<close> can fail on a file that is there, and \<open>fscanf\<close> on one that was opened: then it has seen the
  bytes before the error only.\<close>

definition load_latest_epoch :: "string \<Rightarrow> host \<Rightarrow> u32" where
  "load_latest_epoch path h =
     (case h_files h path of
        None \<Rightarrow> 0
      | Some content \<Rightarrow>
          (case h_load h of
             LoadOpenFailed \<Rightarrow> 0
           | LoadCut n \<Rightarrow> (case scan_u32 (take n content) of None \<Rightarrow> 0 | Some epoch \<Rightarrow> epoch)
           | LoadWhole \<Rightarrow> (case scan_u32 content of None \<Rightarrow> 0 | Some epoch \<Rightarrow> epoch)))"

text \<open>The new epoch is written to a second file, flushed, synced, and renamed over the first.\<close>

definition store_latest_epoch :: "string \<Rightarrow> u32 \<Rightarrow> host \<Rightarrow> bool \<times> host" where
  "store_latest_epoch path epoch h =
     (let temporary = path @ ''.tmp''; line = decimal (unat epoch) @ [10]
      in if length temporary \<ge> 4096 then (False, h)
         else case h_store h of
             StoreOpenFailed \<Rightarrow> (False, h)
           | StoreWriteFailed partial \<Rightarrow> (False, h\<lparr>h_files := (h_files h)(temporary \<mapsto> partial)\<rparr>)
           | StoreSyncFailed \<Rightarrow> (False, h\<lparr>h_files := (h_files h)(temporary \<mapsto> line)\<rparr>)
           | StoreRenameFailed \<Rightarrow> (False, h\<lparr>h_files := (h_files h)(temporary \<mapsto> line)\<rparr>)
           | Stored \<Rightarrow> (True, h\<lparr>h_files := (h_files h)(path \<mapsto> line, temporary := None)\<rparr>))"

section \<open>Enrolment\<close>

text \<open>The path and length of the signature for the algorithm the device asked for.\<close>

definition enrollment_signature :: "peer_options \<Rightarrow> u8 \<Rightarrow> (string \<times> nat) option" where
  "enrollment_signature opts algorithm_id =
     (let path = (\<lambda>default. case o_signature opts of Some p \<Rightarrow> p | None \<Rightarrow> default)
      in if algorithm_id = 1 then Some (path ''tests/vectors/slhdsa_signature.bin'', 7856)
         else if algorithm_id = 2 then Some (path ''tests/vectors/lms_w4_signature.bin'', 2348)
         else if algorithm_id = 3 then Some (path ''tests/vectors/lms_w8_signature.bin'', 1292)
         else None)"

text \<open>The device asks for the signature in pieces.\<close>

function enrollment_loop :: "bytes \<Rightarrow> nat \<Rightarrow> host \<Rightarrow> bool \<times> host" where
  "enrollment_loop signature signature_offset h =
     (case read_protocol_frame h of
        (None, h1) \<Rightarrow> (False, h1)
      | (Some frame, h1) \<Rightarrow>
          if frame ! 3 = 9 \<and> length frame = 6 then
            let requested = push_bit 8 (unat (frame ! 4)) OR unat (frame ! 5)
            in if requested = 0 \<or> requested > length signature - signature_offset then (False, h1)
               else
                 let (ok, h2) = write_exact (slice signature signature_offset requested) h1
                 in if \<not> ok then (False, h2) else enrollment_loop signature (signature_offset + requested) h2
          else if frame ! 3 = 8 \<and> length frame = 5 then
            (frame ! 4 = 1 \<and> signature_offset = length signature, h1)
          else (False, h1))"
  by pat_completeness auto

termination
  by (relation "measure (\<lambda>(signature, signature_offset, h). length signature - signature_offset)") auto

declare enrollment_loop.simps [simp del]

definition run_enrollment :: "peer_options \<Rightarrow> u8 \<Rightarrow> host \<Rightarrow> bool \<times> host" where
  "run_enrollment opts algorithm_id h =
     (let manifest = read_file_exact (o_manifest opts) 48 h
      in case enrollment_signature opts algorithm_id of
           None \<Rightarrow> (False, h)
         | Some (signature_path, signature_length) \<Rightarrow>
             (case (manifest, read_file_exact signature_path signature_length h) of
                (Some m, Some signature) \<Rightarrow>
                  let frame = [0x4e, 0x51, 1, 7] @ m; (ok, h1) = write_frame frame 52 h
                  in if \<not> ok then (False, h1) else enrollment_loop signature 0 h1
              | _ \<Rightarrow> (False, h)))"

section \<open>The session\<close>

definition peer_establish_session :: "peer_options \<Rightarrow> bytes \<Rightarrow> npq_session \<Rightarrow> host \<Rightarrow> bool \<times> npq_session \<times> host" where
  "peer_establish_session opts hello session h =
     (if npq_verify_hello (Some hello) (Some demo_root_key) \<noteq> NPQ_OK
         \<or> \<not> npq_constant_time_equal (drop 4 hello) demo_device_id 8 then (False, session, h)
      else
        let boot_epoch = npq_load_u32_be (slice hello 12 4)
        in if boot_epoch \<le> load_latest_epoch (o_state opts) h then (False, session, h)
           else
             case fill_random 16 h of
               (None, h1) \<Rightarrow> (False, session, h1)
             | (Some server_nonce, h1) \<Rightarrow>
                 let (result, challenge) = npq_make_challenge (Some (replicate 60 0)) (Some demo_root_key) (Some hello) (Some server_nonce)
                 in if result \<noteq> NPQ_OK then (False, session, h1)
                    else
                      let (ok, h2) = write_frame (the challenge) 60 h1
                      in if \<not> ok then (False, session, h2)
                         else
                           let (result, derived) = npq_derive_session (Some session) NPQ_ROLE_SERVER (Some demo_root_key) (Some hello) challenge;
                               session = the derived
                           in if result \<noteq> NPQ_OK then (False, session, h2)
                              else case read_protocol_frame h2 of
                                  (None, h3) \<Rightarrow> (False, session, h3)
                                | (Some frame, h3) \<Rightarrow>
                                    if length frame \<noteq> 24
                                       \<or> npq_verify_finished (Some frame) NPQ_FRAME_CLIENT_FINISHED NPQ_ROLE_SERVER (Some demo_root_key) (Some hello) challenge \<noteq> NPQ_OK
                                    then (False, session, h3)
                                    else
                                      let (ok, h4) = store_latest_epoch (o_state opts) boot_epoch h3
                                      in if \<not> ok then (False, session, h4)
                                         else
                                           let (result, finished) = npq_make_finished (Some frame) NPQ_FRAME_SERVER_FINISHED NPQ_ROLE_SERVER
                                                                      (Some demo_root_key) (Some hello) challenge
                                           in if result \<noteq> NPQ_OK then (False, session, h4)
                                              else let (ok, h5) = write_frame (the finished) 24 h4 in (ok, session, h5))"

section \<open>Records\<close>

definition receive_plaintext :: "npq_session \<Rightarrow> host \<Rightarrow> bytes option \<times> npq_session \<times> host" where
  "receive_plaintext session h =
     (case read_protocol_frame h of
        (None, h1) \<Rightarrow> (None, session, h1)
      | (Some frame, h1) \<Rightarrow>
          let (result, session', plaintext, plaintext_length) =
                npq_open (Some session) (Some frame) (of_nat (length frame)) (Some (replicate 24 0)) (Some 0)
          in (if result = NPQ_OK then Some (take (unat (the plaintext_length)) (the plaintext)) else None, the session', h1))"

definition require_status :: "npq_session \<Rightarrow> u8 \<Rightarrow> host \<Rightarrow> bool \<times> npq_session \<times> host" where
  "require_status session expected_accepted h =
     (case receive_plaintext session h of
        (None, session', h1) \<Rightarrow> (False, session', h1)
      | (Some plaintext, session', h1) \<Rightarrow>
          (length plaintext = 3 \<and> plaintext ! 0 = 2 \<and> plaintext ! 1 = expected_accepted, session', h1))"

definition receive_sensor :: "npq_session \<Rightarrow> host \<Rightarrow> bool \<times> npq_session \<times> host" where
  "receive_sensor session h =
     (case receive_plaintext session h of
        (None, session', h1) \<Rightarrow> (False, session', h1)
      | (Some plaintext, session', h1) \<Rightarrow> (length plaintext = 7 \<and> plaintext ! 0 = 1, session', h1))"

section \<open>The demonstration and the program\<close>

definition run_live_demo :: "npq_session \<Rightarrow> peer_options \<Rightarrow> host \<Rightarrow> bool \<times> npq_session \<times> host" where
  "run_live_demo session opts h =
     (let command = [0x10, o_led opts];
          (ok, s1, h1) = receive_sensor session h
      in if \<not> ok then (False, s1, h1)
         else
           let (result, s2, command_frame, command_length) = npq_seal (Some s1) (Some command) 2 (Some (replicate 64 0)) (Some 0);
               s2 = the s2; command_frame = the command_frame; command_length = the command_length
           in if result \<noteq> NPQ_OK then (False, s2, h1)
              else
                let (ok, s4, h4) =
                      (if o_tamper_demo opts \<noteq> 0 then
                         let tampered = take (unat command_length) command_frame;
                             tampered = tampered[unat command_length - 1 := tampered ! (unat command_length - 1) XOR 1];
                             (ok, h2) = write_frame tampered command_length h1
                         in if \<not> ok then (False, s2, h2)
                            else let (ok, s3, h3) = require_status s2 0 h2
                                 in if \<not> ok then (False, s3, h3) else receive_sensor s3 h3
                       else (True, s2, h1))
                in if \<not> ok then (False, s4, h4)
                   else
                     let (ok, h5) = write_frame command_frame command_length h4
                     in if \<not> ok then (False, s4, h5)
                        else
                          let (ok, s6, h6) = require_status s4 1 h5
                          in if \<not> ok then (False, s6, h6)
                             else if o_tamper_demo opts \<noteq> 0 then
                               let (ok, s7, h7) = receive_sensor s6 h6
                               in if \<not> ok then (False, s7, h7)
                                  else
                                    let (ok, h8) = write_frame command_frame command_length h7
                                    in if \<not> ok then (False, s7, h8) else require_status s7 0 h8
                             else (True, s6, h6))"

text \<open>The exit code of \<open>main\<close>, the session it ends with and the host it leaves.\<close>

definition peer_main :: "string list \<Rightarrow> host \<Rightarrow> nat \<times> npq_session \<times> host" where
  "peer_main args h =
     (case parse_options args of
        None \<Rightarrow> (2, session_zero, h)
      | Some opts \<Rightarrow>
          if \<not> h_opens h then (2, session_zero, h)
          else
            let cleanup = (\<lambda>success session h. (if success then 0 else 1, the (npq_close (Some session)), h))
            in case read_protocol_frame h of
                 (None, h1) \<Rightarrow> cleanup False session_zero h1
               | (Some first, h1) \<Rightarrow>
                   let (enrolled, first, h2) =
                         (if first ! 3 = 6 then
                            if length first \<noteq> 5 then (False, first, h1)
                            else
                              let (ok, h2) = run_enrollment opts (first ! 4) h1
                              in if \<not> ok then (False, first, h2)
                                 else (case read_protocol_frame h2 of
                                         (None, h3) \<Rightarrow> (False, first, h3)
                                       | (Some first, h3) \<Rightarrow> (True, first, h3))
                          else (True, first, h1))
                   in if \<not> enrolled then cleanup False session_zero h2
                      else if first ! 3 \<noteq> NPQ_FRAME_HELLO \<or> length first \<noteq> 48 then cleanup False session_zero h2
                      else
                        let (ok, session, h3) = peer_establish_session opts first session_zero h2
                        in if \<not> ok then cleanup False session h3
                           else let (ok, session, h4) = run_live_demo session opts h3 in cleanup ok session h4)"

section \<open>The epoch file\<close>

lemma decimal_small: "n < 10 \<Longrightarrow> decimal n = [of_nat (48 + n)]"
  and decimal_large: "\<not> n < 10 \<Longrightarrow> decimal n = decimal (n div 10) @ [of_nat (48 + n mod 10)]"
  by (subst decimal.simps, simp)+

lemma digit_byte: "k < 10 \<Longrightarrow> unat (of_nat (48 + k) :: u8) = 48 + k"
  by (rule unat_of_nat_u8) simp

lemma decimal_digits: "\<forall>b\<in>set (decimal n). is_digit b"
proof (induction n rule: decimal.induct)
  case (1 n)
  have d: "is_digit (of_nat (48 + k))" if "k < 10" for k
    using that digit_byte [OF that] by (simp add: is_digit_def word_le_nat_alt del: of_nat_add)
  show ?case
  proof (cases "n < 10")
    case True
    then show ?thesis using d [of n] by (simp add: decimal_small del: of_nat_add)
  next
    case False
    then show ?thesis using 1 d [of "n mod 10"] by (simp add: decimal_large del: of_nat_add)
  qed
qed

lemma decimal_nonempty: "decimal n \<noteq> []"
  by (cases "n < 10") (simp_all add: decimal_small decimal_large)

lemma digits_value_decimal: "digits_value (decimal n) = n"
proof (induction n rule: decimal.induct)
  case (1 n)
  show ?case
  proof (cases "n < 10")
    case True
    then show ?thesis using digit_byte [OF True] by (simp add: decimal_small digits_value_def del: of_nat_add)
  next
    case False
    then have "digits_value (decimal n) = 10 * digits_value (decimal (n div 10)) + (unat (of_nat (48 + n mod 10) :: u8) - 48)"
      by (simp add: decimal_large digits_value_def del: of_nat_add)
    also have "\<dots> = 10 * (n div 10) + n mod 10" using 1 False digit_byte [of "n mod 10"] by (simp del: of_nat_add)
    finally show ?thesis by simp
  qed
qed

lemma scan_decimal: "scan_u32 (decimal (unat e) @ [10]) = Some e"
proof -
  obtain d ds where dd: "decimal (unat e) = d # ds" using decimal_nonempty by (cases "decimal (unat e)") auto
  have dig: "\<forall>b\<in>set (decimal (unat e)). is_digit b" by (rule decimal_digits)
  have "is_digit d" using dig dd by simp
  then have "48 \<le> unat d" by (simp add: is_digit_def word_le_nat_alt)
  then have s: "\<not> is_space d" "d \<noteq> 45" "d \<noteq> 43" by (auto simp: is_space_def word_le_nat_alt)
  have "takeWhile is_digit (decimal (unat e) @ [10]) = decimal (unat e)"
    using dig by (simp add: takeWhile_append2 is_digit_def)
  then show ?thesis using s dd digits_value_decimal [of "unat e"] by (simp add: scan_u32_def)
qed

section \<open>What the port operations do\<close>

lemma write_loop_prefix: "write_loop es bs = (ok, out, es') \<Longrightarrow> (\<exists>k. out = take k bs) \<and> (ok \<longrightarrow> out = bs)"
proof (induction es bs arbitrary: ok out es' rule: write_loop.induct)
  case (8 n es b bs)
  show ?case
  proof (cases "n = 0")
    case True
    then show ?thesis using 8 by (auto intro: exI [of _ 0])
  next
    case False
    obtain ok1 out1 es1 where w: "write_loop es (drop n (b # bs)) = (ok1, out1, es1)" by (metis prod_cases3)
    have o: "ok = ok1" "out = take n (b # bs) @ out1" using "8.prems" False w by simp_all
    from "8.IH" [OF False refl w] obtain k where k: "out1 = take k (drop n (b # bs))" "ok1 \<longrightarrow> out1 = drop n (b # bs)" by blast
    have "out = take (n + k) (b # bs)" unfolding o(2) k(1) by (rule take_add [symmetric])
    moreover have "ok \<longrightarrow> out = b # bs" using o k(2) append_take_drop_id [of n "b # bs"] by simp
    ultimately show ?thesis by blast
  qed
next
  case (2 b bs)
  then show ?case by (auto intro: exI [of _ "Suc (length bs)"])
qed (auto split: list.splits write_event.splits intro: exI [of _ 0])

lemma write_exact_sent:
  assumes "write_exact bs h = (ok, h')"
  obtains k where "h_sent h' = h_sent h @ take k bs" and "ok \<Longrightarrow> h_sent h' = h_sent h @ bs"
    and "h_files h' = h_files h" and "h_store h' = h_store h" and "h_reads h' = h_reads h"
proof -
  obtain ok1 out es where w: "write_loop (h_writes h) bs = (ok1, out, es)" by (metis prod_cases3)
  have h: "ok = ok1" "h' = h\<lparr>h_writes := es, h_sent := h_sent h @ out\<rparr>" using assms by (simp_all add: write_exact_def w)
  from write_loop_prefix [OF w] obtain k where "out = take k bs" "ok1 \<longrightarrow> out = bs" by blast
  then show ?thesis using that [of k] h by simp
qed

lemma write_frame_sent:
  assumes "write_frame f n h = (ok, h')"
  obtains k where "h_sent h' = h_sent h @ take k (n # take (unat n) f)" and "ok \<Longrightarrow> h_sent h' = h_sent h @ n # take (unat n) f"
    and "h_files h' = h_files h" and "h_store h' = h_store h" and "h_reads h' = h_reads h"
proof -
  obtain ok1 h1 where w: "write_exact [n] h = (ok1, h1)" by fastforce
  from write_exact_sent [OF w] obtain k1 where h1: "h_sent h1 = h_sent h @ take k1 [n]" "ok1 \<Longrightarrow> h_sent h1 = h_sent h @ [n]"
    "h_files h1 = h_files h" "h_store h1 = h_store h" "h_reads h1 = h_reads h" by metis
  show ?thesis
  proof (cases ok1)
    case False
    then have "\<not> ok" "h' = h1" using assms w by (simp_all add: write_frame_def)
    moreover have "take k1 [n] = take (min k1 1) (n # take (unat n) f)" by (cases k1) simp_all
    ultimately show ?thesis by (intro that [of "min k1 1"]) (use h1 in simp_all)
  next
    case True
    then have w2: "write_exact (take (unat n) f) h1 = (ok, h')" using assms w by (simp add: write_frame_def)
    from write_exact_sent [OF w2] obtain k2 where "h_sent h' = h_sent h1 @ take k2 (take (unat n) f)"
      "ok \<Longrightarrow> h_sent h' = h_sent h1 @ take (unat n) f" "h_files h' = h_files h1" "h_store h' = h_store h1" "h_reads h' = h_reads h1" by metis
    then show ?thesis by (intro that [of "Suc k2"]) (use h1 True in simp_all)
  qed
qed

lemma read_exact_length: "read_exact es n = (Some bs, es') \<Longrightarrow> length bs = n"
proof (induction es n arbitrary: bs es' rule: read_exact.induct)
  case (7 cs es n)
  show ?case
  proof (cases "cs = [] \<or> \<not> length cs \<le> Suc n")
    case True
    then show ?thesis using 7(2) by (cases "cs = []") auto
  next
    case False
    then have c: "\<not> cs = []" "length cs \<le> Suc n" by simp_all
    obtain r es1 where r: "read_exact es (Suc n - length cs) = (r, es1)" by fastforce
    then have "(case r of None \<Rightarrow> (None, es1) | Some others \<Rightarrow> (Some (cs @ others), es1)) = (Some bs, es')"
      using 7(2) c by (simp only: read_exact.simps if_True if_False prod.case)
    then obtain others where o: "r = Some others" "bs = cs @ others" by (cases r) auto
    have "length others = Suc n - length cs" using 7(1) [OF c] r o(1) by blast
    then show ?thesis using c(2) o(2) by simp
  qed
qed simp_all

lemma read_port_keeps:
  "read_port n h = (r, h') \<Longrightarrow> h_sent h' = h_sent h \<and> h_files h' = h_files h \<and> h_store h' = h_store h \<and> h_writes h' = h_writes h"
  by (auto simp: read_port_def Let_def split: prod.split_asm)

lemma read_frame_keeps:
  "read_frame h = (r, h') \<Longrightarrow> h_sent h' = h_sent h \<and> h_files h' = h_files h \<and> h_store h' = h_store h \<and> h_writes h' = h_writes h"
  by (auto simp: read_frame_def Let_def split: prod.split_asm option.split_asm if_split_asm dest!: read_port_keeps)

lemma read_frame_length: "read_frame h = (Some f, h') \<Longrightarrow> length f \<le> 64"
  by (auto simp: read_frame_def read_port_def Let_def word_less_nat_alt not_less split: prod.split_asm option.split_asm if_split_asm
      dest!: read_exact_length)

lemma protocol_attempts_keeps:
  "protocol_attempts n h = (r, h') \<Longrightarrow> h_sent h' = h_sent h \<and> h_files h' = h_files h \<and> h_store h' = h_store h \<and> h_writes h' = h_writes h"
  by (induction n arbitrary: h) (auto split: prod.split_asm option.split_asm if_split_asm dest!: read_frame_keeps)

lemma read_protocol_keeps:
  "read_protocol_frame h = (r, h') \<Longrightarrow> h_sent h' = h_sent h \<and> h_files h' = h_files h \<and> h_store h' = h_store h \<and> h_writes h' = h_writes h"
  unfolding read_protocol_frame_def by (rule protocol_attempts_keeps)

lemma read_protocol_frame_header:
  "read_protocol_frame h = (Some f, h') \<Longrightarrow> 4 \<le> length f \<and> length f \<le> 64 \<and> f ! 0 = 0x4e \<and> f ! 1 = 0x51 \<and> f ! 2 = 1"
proof -
  have "protocol_attempts n h = (Some f, h') \<Longrightarrow> 4 \<le> length f \<and> length f \<le> 64 \<and> f ! 0 = 0x4e \<and> f ! 1 = 0x51 \<and> f ! 2 = 1" for n
    by (induction n arbitrary: h) (auto split: prod.split_asm option.split_asm if_split_asm dest!: read_frame_length)
  then show "read_protocol_frame h = (Some f, h') \<Longrightarrow> ?thesis" unfolding read_protocol_frame_def .
qed

section \<open>The stored epoch\<close>

definition stored_epoch :: "string \<Rightarrow> (string \<Rightarrow> bytes option) \<Rightarrow> u32" where
  "stored_epoch path files =
     (case files path of None \<Rightarrow> 0 | Some content \<Rightarrow> (case scan_u32 content of None \<Rightarrow> 0 | Some epoch \<Rightarrow> epoch))"

text \<open>The epoch file of a run is read as it is: it is not there, or it is opened and read to its end.\<close>

definition reads_epoch :: "string \<Rightarrow> host \<Rightarrow> bool" where
  "reads_epoch path h \<longleftrightarrow> h_files h path = None \<or> h_load h = LoadWhole"

lemma load_stored: "reads_epoch path h \<Longrightarrow> load_latest_epoch path h = stored_epoch path (h_files h)"
  by (auto simp: load_latest_epoch_def stored_epoch_def reads_epoch_def split: option.split)

lemma store_epoch:
  assumes "store_latest_epoch path epoch h = (ok, h')"
  shows "stored_epoch path (h_files h') = (if ok then epoch else stored_epoch path (h_files h))"
    and "h_sent h' = h_sent h" and "h_reads h' = h_reads h" and "h_writes h' = h_writes h"
proof -
  have ne: "path @ ''.tmp'' \<noteq> path" by simp
  show "stored_epoch path (h_files h') = (if ok then epoch else stored_epoch path (h_files h))"
    using assms ne scan_decimal [of epoch]
    by (auto simp: store_latest_epoch_def stored_epoch_def Let_def split: if_split_asm store_event.split_asm)
  show "h_sent h' = h_sent h" "h_reads h' = h_reads h" "h_writes h' = h_writes h"
    using assms by (auto simp: store_latest_epoch_def Let_def split: if_split_asm store_event.split_asm)
qed

lemma random_loop_length: "random_loop es n = (Some bs, es') \<Longrightarrow> length bs = n"
proof (induction es n arbitrary: bs es' rule: random_loop.induct)
  case (5 cs es n)
  have c: "\<not> cs = []"
  proof
    assume "cs = []"
    with 5(2) show False by simp
  qed
  obtain r es1 where r: "random_loop es (Suc n - length (take (Suc n) cs)) = (r, es1)" by fastforce
  then have "(case r of None \<Rightarrow> (None, es1) | Some others \<Rightarrow> (Some (take (Suc n) cs @ others), es1)) = (Some bs, es')"
    using 5(2) c by (simp only: random_loop.simps if_True if_False prod.case Let_def)
  then obtain others where o: "r = Some others" "bs = take (Suc n) cs @ others" by (cases r) auto
  have "length others = Suc n - length (take (Suc n) cs)" using 5(1) [OF c refl] r o(1) by blast
  then show ?case using o(2) by simp
qed simp_all

lemma fill_random_keeps:
  "fill_random n h = (r, h') \<Longrightarrow> h_sent h' = h_sent h \<and> h_files h' = h_files h \<and> h_store h' = h_store h \<and> h_reads h' = h_reads h \<and> h_writes h' = h_writes h"
  "fill_random n h = (Some bs, h') \<Longrightarrow> length bs = n"
  by (auto simp: fill_random_def Let_def split: prod.split_asm dest!: random_loop_length)

section \<open>Which sessions the peer opens\<close>

text \<open>Reading depends on the read script alone.\<close>

lemma read_port_cong: "h_reads g = h_reads h \<Longrightarrow> fst (read_port n g) = fst (read_port n h) \<and> h_reads (snd (read_port n g)) = h_reads (snd (read_port n h))"
  by (simp add: read_port_def Let_def split: prod.split)

lemma read_frame_cong:
  assumes "h_reads g = h_reads h"
  shows "fst (read_frame g) = fst (read_frame h) \<and> h_reads (snd (read_frame g)) = h_reads (snd (read_frame h))"
proof -
  obtain r g1 where g: "read_port 1 g = (r, g1)" by fastforce
  obtain r' h1 where h: "read_port 1 h = (r', h1)" by fastforce
  have e: "r = r'" "h_reads g1 = h_reads h1" using read_port_cong [OF assms, of 1] unfolding g h by simp_all
  show ?thesis
    using read_port_cong [OF e(2)] e by (cases r') (simp_all add: read_frame_def g [simplified] h [simplified] Let_def)
qed

lemma protocol_attempts_cong: "h_reads g = h_reads h \<Longrightarrow> fst (protocol_attempts n g) = fst (protocol_attempts n h)"
proof (induction n arbitrary: g h)
  case (Suc n)
  obtain r g1 where g: "read_frame g = (r, g1)" by fastforce
  obtain r' h1 where h: "read_frame h = (r', h1)" by fastforce
  have e: "r = r'" "h_reads g1 = h_reads h1" using read_frame_cong [OF Suc.prems] by (simp_all add: g h)
  show ?case using Suc.IH [OF e(2)] e(1) by (cases r') (simp_all add: g h)
qed simp

lemma read_protocol_cong: "h_reads g = h_reads h \<Longrightarrow> fst (read_protocol_frame g) = fst (read_protocol_frame h)"
  unfolding read_protocol_frame_def by (rule protocol_attempts_cong)

lemma length_demo [simp]: "length demo_root_key = 32" "length demo_device_id = 8"
  by (simp_all add: demo_root_key_def demo_device_id_def)

definition known_hello :: "bytes \<Rightarrow> bool" where
  "known_hello hello \<longleftrightarrow>
     (\<exists>epoch nonce. epoch \<noteq> 0 \<and> length nonce = 16 \<and> hello = npq_hello_frame demo_root_key demo_device_id epoch nonce)"

lemma known_hello_iff:
  assumes "length hello = 48"
  shows "known_hello hello \<longleftrightarrow>
    npq_verify_hello (Some hello) (Some demo_root_key) = NPQ_OK \<and> npq_constant_time_equal (drop 4 hello) demo_device_id 8"
proof -
  have v: "npq_verify_hello (Some hello) (Some demo_root_key) = NPQ_OK \<longleftrightarrow>
      (\<exists>dev epoch nonce. length dev = 8 \<and> epoch \<noteq> 0 \<and> length nonce = 16 \<and> hello = npq_hello_frame demo_root_key dev epoch nonce)"
    using verify_hello_ok_iff [of demo_root_key hello] assms by simp
  have d: "npq_constant_time_equal (drop 4 hello) demo_device_id 8 \<longleftrightarrow> slice hello 4 8 = demo_device_id"
    using assms by (simp add: slice_def)
  have s: "slice (npq_hello_frame demo_root_key dev epoch nonce) 4 8 = dev" if "length dev = 8" for dev epoch nonce
    using that by (simp add: npq_hello_frame_def hello_core_npq_def slice_def)
  show ?thesis unfolding v d known_hello_def using s by (metis length_demo(2))
qed

text \<open>Either the run ends before the epoch is stored, and at most the challenge has been sent; or the
  epoch of a known device, larger than the one that was loaded, has been stored after the client proof was
  received, and the server proof follows.\<close>

definition peer_refused :: "string \<Rightarrow> bytes \<Rightarrow> host \<Rightarrow> host \<Rightarrow> bool" where
  "peer_refused path hello h h' \<longleftrightarrow>
     stored_epoch path (h_files h') = stored_epoch path (h_files h) \<and>
     (h_sent h' = h_sent h \<or>
      known_hello hello \<and> load_latest_epoch path h < be_word (slice hello 12 4) \<and>
      (\<exists>sn k. length sn = 16 \<and> h_sent h' = h_sent h @ take k (60 # npq_challenge_frame demo_root_key hello sn (challenge_session_id demo_root_key hello sn))))"

definition peer_confirmed :: "string \<Rightarrow> bytes \<Rightarrow> host \<Rightarrow> bool \<Rightarrow> npq_session \<Rightarrow> host \<Rightarrow> bool" where
  "peer_confirmed path hello h ok s' h' \<longleftrightarrow>
     known_hello hello \<and> load_latest_epoch path h < be_word (slice hello 12 4) \<and>
     stored_epoch path (h_files h') = be_word (slice hello 12 4) \<and>
     (\<exists>sn. let c = npq_challenge_frame demo_root_key hello sn (challenge_session_id demo_root_key hello sn);
               finished = 24 # npq_finished_frame demo_root_key hello c NPQ_FRAME_SERVER_FINISHED
        in length sn = 16 \<and> fst (read_protocol_frame h) = Some (npq_finished_frame demo_root_key hello c NPQ_FRAME_CLIENT_FINISHED) \<and>
           s' = mirror (device_session demo_root_key hello c) \<and>
           (\<exists>k. h_sent h' = h_sent h @ 60 # c @ take k finished) \<and> (ok \<longrightarrow> h_sent h' = h_sent h @ 60 # c @ finished))"

lemma peer_session_cases:
  assumes run: "peer_establish_session opts hello s h = (ok, s', h')" and len: "length hello = 48"
  shows "\<not> ok \<and> peer_refused (o_state opts) hello h h' \<or> peer_confirmed (o_state opts) hello h ok s' h'"
proof -
  let ?p = "o_state opts" and ?ep = "be_word (slice hello 12 4) :: u32" and ?root = demo_root_key
  have ep: "npq_load_u32_be (slice hello 12 4) = ?ep" using len by (simp add: npq_load_be)
  note start = peer_establish_session_def Let_def ep
  have quiet: "peer_refused ?p hello h g" if "h_files g = h_files h" "h_sent g = h_sent h" for g
    using that by (simp add: peer_refused_def)
  show ?thesis
  proof (cases "known_hello hello \<and> load_latest_epoch ?p h < ?ep")
    case False
    then have "ok = False" "h' = h"
      using run known_hello_iff [OF len] by (auto simp: start not_le not_less split: if_split_asm)
    then show ?thesis using quiet [of h] by simp
  next
    case fresh: True
    have hi: "npq_verify_hello (Some hello) (Some ?root) = NPQ_OK" "npq_constant_time_equal (drop 4 hello) demo_device_id 8"
      "\<not> ?ep \<le> load_latest_epoch ?p h"
      using fresh known_hello_iff [OF len] by (simp_all add: not_le)
    obtain rnd h1 where rn: "fill_random 16 h = (rnd, h1)" by fastforce
    note k1 = fill_random_keeps(1) [OF rn]
    show ?thesis
    proof (cases rnd)
      case None
      then have "ok = False" "h' = h1" using run hi rn by (simp_all add: start)
      then show ?thesis using quiet [of h1] k1 by simp
    next
      case (Some sn)
      have sn: "length sn = 16" using fill_random_keeps(2) rn Some by blast
      define c where "c = npq_challenge_frame ?root hello sn (challenge_session_id ?root hello sn)"
      have lc: "length c = 60" using len sn by (simp add: c_def)
      have mc: "npq_make_challenge (Some (replicate 60 0)) (Some ?root) (Some hello) (Some sn) = (NPQ_OK, Some c)"
        using make_challenge_ok [of ?root sn "replicate 60 0" hello] sn len hi(1) by (simp add: c_def)
      have vc: "npq_verify_challenge (Some c) (Some ?root) (Some hello) = NPQ_OK"
        unfolding c_def using len sn by (intro challenge_frame_accepted) simp_all
      then have pre: "preflight_accepted ?root hello c" using hi(1) by (simp add: preflight_accepted_def)
      have rl: "length ?root = 32" "48 \<le> length hello" "60 \<le> length c" using len lc by simp_all
      note ds = derive_session_ok(2) [OF rl pre]
      obtain ok2 h2 where w: "write_frame c 60 h1 = (ok2, h2)" by fastforce
      from write_frame_sent [OF w] obtain k where w1: "h_sent h2 = h_sent h1 @ take k (60 # take (unat (60 :: u8)) c)"
        "ok2 \<Longrightarrow> h_sent h2 = h_sent h1 @ 60 # take (unat (60 :: u8)) c"
        "h_files h2 = h_files h1" "h_store h2 = h_store h1" "h_reads h2 = h_reads h1" by metis
      have t60: "take (unat (60 :: u8)) c = c" using lc by simp
      have ref: "peer_refused ?p hello h g" if "h_sent g = h_sent h2" "stored_epoch ?p (h_files g) = stored_epoch ?p (h_files h)" for g
        using that fresh sn w1(1) k1 unfolding peer_refused_def t60 c_def [symmetric] by (metis c_def)
      show ?thesis
      proof (cases ok2)
        case False
        then have "ok = False" "h' = h2" using run hi rn Some mc w by (simp_all add: start)
        then show ?thesis using ref [of h2] w1 k1 by simp
      next
        case True
        obtain r h3 where r: "read_protocol_frame h2 = (r, h3)" by fastforce
        note k3 = read_protocol_keeps [OF r]
        let ?vf = "\<lambda>f. npq_verify_finished (Some f) NPQ_FRAME_CLIENT_FINISHED NPQ_ROLE_SERVER (Some ?root) (Some hello) (Some c) = NPQ_OK"
        show ?thesis
        proof (cases "\<exists>f. r = Some f \<and> length f = 24 \<and> ?vf f")
          case False
          then have "ok = False" "h' = h3"
            using run hi rn Some mc w True ds r by (auto simp: start split: option.split_asm if_split_asm)
          then show ?thesis using ref [of h3] w1 k1 k3 by simp
        next
          case True
          then obtain f where f: "r = Some f" "length f = 24" "?vf f" by blast
          have f24: "24 \<le> length f" using f(2) by simp
          have ff: "f = npq_finished_frame ?root hello c NPQ_FRAME_CLIENT_FINISHED"
            using verify_finished_iff [OF rl(1,3) f24 pre, of NPQ_FRAME_CLIENT_FINISHED NPQ_ROLE_SERVER] f by simp
          obtain ok4 h4 where st: "store_latest_epoch ?p ?ep h3 = (ok4, h4)" by fastforce
          note s4 = store_epoch [OF st]
          have mf: "npq_make_finished (Some f) NPQ_FRAME_SERVER_FINISHED NPQ_ROLE_SERVER (Some ?root) (Some hello) (Some c) =
              (NPQ_OK, Some (npq_finished_frame ?root hello c NPQ_FRAME_SERVER_FINISHED @ drop 24 f))"
            by (rule make_finished_ok [OF rl(1,3) pre f24]) simp
          define F where "F = npq_finished_frame ?root hello c NPQ_FRAME_SERVER_FINISHED"
          have lF: "length F = 24" using rl by (simp add: F_def)
          have mf': "npq_make_finished (Some f) NPQ_FRAME_SERVER_FINISHED NPQ_ROLE_SERVER (Some ?root) (Some hello) (Some c) = (NPQ_OK, Some F)"
            using mf f(2) by (simp add: F_def)
          show ?thesis
          proof (cases ok4)
            case False
            then have "ok = False" "h' = h4" using run hi rn Some mc w \<open>ok2\<close> ds r f st by (simp_all add: start)
            then show ?thesis using ref [of h4] s4 False w1 k1 k3 by simp
          next
            case True
            obtain ok5 h5 where w5: "write_frame F 24 h4 = (ok5, h5)" by fastforce
            have e: "ok = ok5" "s' = mirror (device_session ?root hello c)" "h' = h5"
              using run hi rn Some mc w \<open>ok2\<close> ds r f st True mf' w5 by (simp_all add: start)
            from write_frame_sent [OF w5] obtain m where w6: "h_sent h5 = h_sent h4 @ take m (24 # take (unat (24 :: u8)) F)"
              "ok5 \<Longrightarrow> h_sent h5 = h_sent h4 @ 24 # take (unat (24 :: u8)) F" "h_files h5 = h_files h4" by metis
            have t24: "take (unat (24 :: u8)) F = F" using lF by simp
            have sent4: "h_sent h4 = h_sent h @ 60 # c" using s4(2) k3 w1(2) \<open>ok2\<close> k1 t60 by simp
            have "h_reads h2 = h_reads h" using w1(5) k1 by simp
            then have "fst (read_protocol_frame h) = Some f" using read_protocol_cong [of h2 h] r f(1) by simp
            then have "peer_confirmed ?p hello h ok s' h'"
              unfolding peer_confirmed_def Let_def c_def [symmetric] F_def [symmetric]
              using fresh sn e w6 t24 sent4 s4(1) True ff lF by (intro conjI exI [of _ sn]) (auto simp: c_def F_def)
            then show ?thesis by simp
          qed
        qed
      qed
    qed
  qed
qed

text \<open>When nothing fails, an honest device is accepted.\<close>

lemma read_exact_front:
  assumes "length f = n"
  shows "read_exact (Received (b # f) # es) 1 = (Some [b], if f = [] then es else Received f # es)"
    and "0 < n \<Longrightarrow> read_exact (Received f # es) n = (Some f, es)"
proof -
  show "read_exact (Received (b # f) # es) 1 = (Some [b], if f = [] then es else Received f # es)" by simp
  show "read_exact (Received f # es) n = (Some f, es)" if "0 < n" using assms that by (cases n) auto
qed

lemma read_protocol_received:
  assumes "h_reads h = Received (of_nat (length f) # f) # es" and "4 \<le> length f" "length f \<le> 64"
    and "f ! 0 = 0x4e" "f ! 1 = 0x51" "f ! 2 = 1"
  shows "read_protocol_frame h = (Some f, h\<lparr>h_reads := es\<rparr>)"
proof -
  have u: "unat (of_nat (length f) :: u8) = length f" using assms(3) by (intro unat_of_nat_u8) simp
  have n: "\<not> (of_nat (length f) :: u8) > 64" "(of_nat (length f) :: u8) \<noteq> 0"
    using u assms(2,3) by (auto simp: word_less_nat_alt)
  have f: "f \<noteq> []" "0 < length f" using assms(2) by auto
  have "read_frame h = (Some f, h\<lparr>h_reads := es\<rparr>)"
    using n u f(1) read_exact_front(1) [OF refl, of "of_nat (length f)" f es] read_exact_front(2) [OF refl f(2), of es]
    by (simp add: read_frame_def read_port_def assms(1) del: read_exact.simps)
  then show ?thesis using assms(2,4-6) unfolding read_protocol_frame_def by (simp add: numeral_eq_Suc)
qed

lemma write_frame_free: "h_writes h = [] \<Longrightarrow> write_frame f n h = (True, h\<lparr>h_sent := h_sent h @ n # take (unat n) f\<rparr>)"
proof -
  have "write_loop [] bs = (True, bs, [])" for bs by (cases bs) simp_all
  then show "h_writes h = [] \<Longrightarrow> ?thesis" by (simp add: write_frame_def write_exact_def Let_def)
qed

lemma random_front: "0 < length f \<Longrightarrow> random_loop (Randomness f # es) (length f) = (Some f, es)"
  by (cases "length f") auto

lemma peer_accepts:
  assumes hello: "known_hello hello" and fresh: "load_latest_epoch (o_state opts) h < be_word (slice hello 12 4)"
    and env: "h_random h = [Randomness sn]" "length sn = 16" "h_writes h = []" "h_store h = Stored" "length (o_state opts) < 4092"
  defines "c \<equiv> npq_challenge_frame demo_root_key hello sn (challenge_session_id demo_root_key hello sn)"
  assumes client: "h_reads h = Received (24 # npq_finished_frame demo_root_key hello c NPQ_FRAME_CLIENT_FINISHED) # es"
  shows "\<exists>h'. peer_establish_session opts hello s h = (True, mirror (device_session demo_root_key hello c), h') \<and>
    h_sent h' = h_sent h @ 60 # c @ 24 # npq_finished_frame demo_root_key hello c NPQ_FRAME_SERVER_FINISHED"
proof -
  let ?root = demo_root_key and ?ep = "be_word (slice hello 12 4) :: u32"
  have len: "length hello = 48" using hello by (auto simp: known_hello_def)
  have hi: "npq_verify_hello (Some hello) (Some ?root) = NPQ_OK" "npq_constant_time_equal (drop 4 hello) demo_device_id 8"
    "\<not> ?ep \<le> load_latest_epoch (o_state opts) h" "npq_load_u32_be (slice hello 12 4) = ?ep"
    using hello fresh known_hello_iff [OF len] len by (simp_all add: not_le npq_load_be)
  have rn: "fill_random 16 h = (Some sn, h\<lparr>h_random := []\<rparr>)"
  proof -
    have "random_loop (Randomness sn # []) (length sn) = (Some sn, [])" by (rule random_front) (use env(2) in simp)
    then show ?thesis using env(1,2) by (simp add: fill_random_def)
  qed
  have lc: "length c = 60" using len env(2) by (simp add: c_def)
  have mc: "npq_make_challenge (Some (replicate 60 0)) (Some ?root) (Some hello) (Some sn) = (NPQ_OK, Some c)"
    using make_challenge_ok [of ?root sn "replicate 60 0" hello] env(2) len hi(1) by (simp add: c_def)
  have "npq_verify_challenge (Some c) (Some ?root) (Some hello) = NPQ_OK"
    unfolding c_def using len env(2) by (intro challenge_frame_accepted) simp_all
  then have pre: "preflight_accepted ?root hello c" using hi(1) by (simp add: preflight_accepted_def)
  have rl: "length ?root = 32" "48 \<le> length hello" "60 \<le> length c" using len lc by simp_all
  note ds = derive_session_ok(2) [OF rl pre]
  define f where "f = npq_finished_frame ?root hello c NPQ_FRAME_CLIENT_FINISHED"
  have lf: "length f = 24" "24 \<le> length f" using rl by (simp_all add: f_def)
  have hf: "f ! 0 = 0x4e" "f ! 1 = 0x51" "f ! 2 = 1"
    by (simp_all add: f_def npq_finished_frame_def Let_def npq_header_def)
  have vf: "npq_verify_finished (Some f) NPQ_FRAME_CLIENT_FINISHED NPQ_ROLE_SERVER (Some ?root) (Some hello) (Some c) = NPQ_OK"
    using verify_finished_iff [OF rl(1,3) lf(2) pre, of NPQ_FRAME_CLIENT_FINISHED NPQ_ROLE_SERVER] lf by (simp add: f_def)
  let ?F = "npq_finished_frame ?root hello c NPQ_FRAME_SERVER_FINISHED"
  have mf: "npq_make_finished (Some f) NPQ_FRAME_SERVER_FINISHED NPQ_ROLE_SERVER (Some ?root) (Some hello) (Some c) = (NPQ_OK, Some ?F)"
    using make_finished_ok [OF rl(1,3) pre lf(2), of NPQ_FRAME_SERVER_FINISHED] lf by simp
  define h2 where "h2 = h\<lparr>h_random := [], h_sent := h_sent h @ 60 # take (unat (60 :: u8)) c\<rparr>"
  have w2: "write_frame c 60 (h\<lparr>h_random := []\<rparr>) = (True, h2)" using env(3) by (simp add: h2_def write_frame_free)
  have rp: "read_protocol_frame h2 = (Some f, h2\<lparr>h_reads := es\<rparr>)"
    by (rule read_protocol_received) (use client lf hf in \<open>simp_all add: f_def h2_def\<close>)
  have st: "fst (store_latest_epoch (o_state opts) ?ep (h2\<lparr>h_reads := es\<rparr>)) = True"
    "h_writes (snd (store_latest_epoch (o_state opts) ?ep (h2\<lparr>h_reads := es\<rparr>))) = []"
    using env(3-5) by (simp_all add: store_latest_epoch_def Let_def h2_def)
  then obtain h4 where h4: "store_latest_epoch (o_state opts) ?ep (h2\<lparr>h_reads := es\<rparr>) = (True, h4)" "h_writes h4 = []"
    by (cases "store_latest_epoch (o_state opts) ?ep (h2\<lparr>h_reads := es\<rparr>)") simp
  have t: "take (unat (60 :: u8)) c = c" "take (unat (24 :: u8)) ?F = ?F" using lc rl by simp_all
  define h5 where "h5 = h4\<lparr>h_sent := h_sent h4 @ 24 # take (unat (24 :: u8)) ?F\<rparr>"
  have w5: "write_frame ?F 24 h4 = (True, h5)" unfolding h5_def by (rule write_frame_free [OF h4(2)])
  have b: "(length f \<noteq> 24) = False" using lf by simp
  have "peer_establish_session opts hello s h = (True, mirror (device_session ?root hello c), h5)"
    unfolding peer_establish_session_def Let_def hi(4)
    by (simp only: hi(1-3) rn prod.case option.case mc ds w2 rp vf b h4 mf w5 option.sel simp_thms if_True if_False)
  moreover have "h_sent h5 = h_sent h @ 60 # c @ 24 # ?F"
    using store_epoch(2) [OF h4(1)] by (simp add: h5_def h2_def t [simplified])
  ultimately show ?thesis by blast
qed

section \<open>Enrolment\<close>

lemma enrollment_loop_sent:
  "enrollment_loop signature signature_offset h = (ok, h') \<Longrightarrow> signature_offset \<le> length signature \<Longrightarrow> ok \<Longrightarrow>
     h_sent h' = h_sent h @ drop signature_offset signature"
proof (induction signature signature_offset h arbitrary: ok h' rule: enrollment_loop.induct)
  case (1 signature signature_offset h)
  obtain r h1 where r: "read_protocol_frame h = (r, h1)" by fastforce
  note keep = read_protocol_keeps [OF r]
  have run: "enrollment_loop signature signature_offset h = (ok, h')" "ok" by (rule 1(2), rule 1(4))
  show ?case
  proof (cases r)
    case None
    then show ?thesis using run r by (simp add: enrollment_loop.simps [of signature signature_offset h])
  next
    case (Some frame)
    note loop = run(1) [unfolded enrollment_loop.simps [of signature signature_offset h] r prod.case option.case Some Let_def]
    show ?thesis
    proof (cases "frame ! 3 = 9 \<and> length frame = 6")
      case False
      then show ?thesis using loop run(2) keep 1(3) by (auto split: if_split_asm)
    next
      case True
      let ?n = "push_bit 8 (unat (frame ! 4)) OR unat (frame ! 5)"
      obtain ok2 h2 where w: "write_exact (slice signature signature_offset ?n) h1 = (ok2, h2)" by fastforce
      have c: "\<not> (?n = 0 \<or> ?n > length signature - signature_offset)"
        by (rule notI) (use loop True run(2) in \<open>simp add: if_True\<close>)
      have ok2: "ok2" by (rule ccontr) (use loop True c w run(2) in simp)
      have rest: "enrollment_loop signature (signature_offset + ?n) h2 = (ok, h')" using loop True c w ok2 by simp
      from write_exact_sent [OF w] have s2: "h_sent h2 = h_sent h1 @ slice signature signature_offset ?n" using ok2 by metis
      have "h_sent h' = h_sent h2 @ drop (signature_offset + ?n) signature"
      proof (rule 1(1) [OF r [symmetric] Some True refl c w [symmetric] refl])
        show "signature_offset + ?n \<le> length signature" using c 1(3) by linarith
      qed (use ok2 rest run(2) in simp_all)
      also have "\<dots> = h_sent h1 @ drop signature_offset signature"
        unfolding s2 append_assoc using drop_slice [of signature_offset signature ?n] by (simp only:)
      finally show ?thesis using keep by simp
    qed
  qed
qed

lemma enrollment_sent:
  assumes "run_enrollment opts alg h = (True, h')"
  obtains m path n sig where "enrollment_signature opts alg = Some (path, n)" and "h_files h (o_manifest opts) = Some m" and "length m = 48"
    and "h_files h path = Some sig" and "length sig = n" and "h_sent h' = h_sent h @ [52, 0x4e, 0x51, 1, 7] @ m @ sig"
proof -
  obtain path n where e: "enrollment_signature opts alg = Some (path, n)"
    using assms by (cases "enrollment_signature opts alg") (auto simp: run_enrollment_def Let_def)
  obtain m sig where f: "read_file_exact (o_manifest opts) 48 h = Some m" "read_file_exact path n h = Some sig"
    using assms by (auto simp: run_enrollment_def Let_def e split: option.split_asm)
  obtain ok h1 where w: "write_frame (0x4e # 0x51 # 1 # 7 # m) 52 h = (ok, h1)" by fastforce
  have ok: "ok" by (rule ccontr) (use assms in \<open>simp add: run_enrollment_def Let_def e f w\<close>)
  have l: "enrollment_loop sig 0 h1 = (True, h')" using assms w ok by (simp add: run_enrollment_def Let_def e f)
  have m: "h_files h (o_manifest opts) = Some m" "length m = 48" "h_files h path = Some sig" "length sig = n"
    using f by (auto simp: read_file_exact_def split: option.split_asm if_split_asm)
  have "h_sent h1 = h_sent h @ 52 # take (unat (52 :: u8)) (0x4e # 0x51 # 1 # 7 # m)" using write_frame_sent [OF w] ok by metis
  then have "h_sent h1 = h_sent h @ [52, 0x4e, 0x51, 1, 7] @ m" using m(2) by simp
  then have "h_sent h' = h_sent h @ [52, 0x4e, 0x51, 1, 7] @ m @ sig" using enrollment_loop_sent [OF l] by simp
  from that [OF e m this] show ?thesis .
qed

section \<open>Runs of the peer\<close>

text \<open>Runs of the peer one after the other on the same epoch file, with any device, any port and any
  failure in each of them but one: an epoch file that is there is opened and read. The epochs of the sessions opened are recorded, the last first.\<close>

inductive peer_history :: "string \<Rightarrow> (string \<Rightarrow> bytes option) \<Rightarrow> u32 list \<Rightarrow> (string \<Rightarrow> bytes option) \<Rightarrow> bool"
  for path :: string and files :: "string \<Rightarrow> bytes option" where
  no_run: "peer_history path files [] files"
| one_run: "peer_history path files eps files1 \<Longrightarrow> h_files h = files1 \<Longrightarrow> o_state opts = path \<Longrightarrow> length hello = 48 \<Longrightarrow>
    reads_epoch path h \<Longrightarrow>
    peer_establish_session opts hello s h = (ok, s', h') \<Longrightarrow>
    peer_history path files (if ok then be_word (slice hello 12 4) # eps else eps) (h_files h')"

lemma peer_stores:
  assumes "peer_establish_session opts hello s h = (ok, s', h')" and "length hello = 48"
  shows "ok \<Longrightarrow> stored_epoch (o_state opts) (h_files h') = be_word (slice hello 12 4)"
  using peer_session_cases [OF assms] by (auto simp: peer_refused_def peer_confirmed_def Let_def)

lemma peer_epoch_step:
  assumes "peer_establish_session opts hello s h = (ok, s', h')" and "length hello = 48" and "reads_epoch (o_state opts) h"
  shows "stored_epoch (o_state opts) (h_files h) \<le> stored_epoch (o_state opts) (h_files h')"
    and "ok \<Longrightarrow> stored_epoch (o_state opts) (h_files h) < be_word (slice hello 12 4) \<and>
      stored_epoch (o_state opts) (h_files h') = be_word (slice hello 12 4)"
  using peer_session_cases [OF assms(1,2)] load_stored [OF assms(3)]
  by (auto simp: peer_refused_def peer_confirmed_def Let_def)

lemma peer_history_increasing:
  "peer_history path files eps files' \<Longrightarrow>
     sorted_wrt (>) eps \<and> stored_epoch path files \<le> stored_epoch path files' \<and>
     (\<forall>ep\<in>set eps. stored_epoch path files < ep \<and> ep \<le> stored_epoch path files')"
proof (induction rule: peer_history.induct)
  case (one_run eps files1 h opts hello s ok s' h')
  have p: "o_state opts = path" "h_files h = files1" by (rule one_run.hyps(3), rule one_run.hyps(2))
  have "reads_epoch (o_state opts) h" unfolding p(1) by (rule one_run.hyps(5))
  note st = peer_epoch_step [OF one_run.hyps(6,4) this]
  have le: "stored_epoch path files1 \<le> stored_epoch path (h_files h')" using st(1) p by simp
  have new: "stored_epoch path files1 < be_word (slice hello 12 4) \<and> stored_epoch path (h_files h') = be_word (slice hello 12 4)" if ok
    using st(2) that p by simp
  show ?case using one_run.IH le new by (cases ok) (auto intro: order_trans le_less_trans)
qed simp

section \<open>Properties\<close>

text \<open>C25: A run of the peer, whatever the device sends and whatever fails. Either no session is opened,
  the stored epoch is as before, and at most a challenge was sent, for a known device with a larger
  epoch than the one the peer loaded; or the hello is one of the known device with a larger epoch than
  the one loaded, the first protocol frame on the port is the client proof for the challenge that was
  sent, the epoch is stored, and the server proof follows, complete when the session is opened. The
  epoch loaded is the stored one when the epoch file could be opened and read or is not there, and 0
  when a file that is there cannot be opened.\<close>

theorem peer_session_exact:
  assumes "peer_establish_session opts hello s h = (ok, s', h')" and "length hello = 48"
  shows "(\<not> ok \<and> peer_refused (o_state opts) hello h h' \<or> peer_confirmed (o_state opts) hello h ok s' h') \<and>
    (reads_epoch (o_state opts) h \<longrightarrow> load_latest_epoch (o_state opts) h = stored_epoch (o_state opts) (h_files h)) \<and>
    (h_load h = LoadOpenFailed \<longrightarrow> load_latest_epoch (o_state opts) h = 0)"
  using peer_session_cases [OF assms] load_stored
  by (auto simp: load_latest_epoch_def split: option.split)

text \<open>C20: Over any sequence of runs on one epoch file, in each of which the file is either not there or
  can be opened and read, and anything else may fail, the epochs of the sessions that are opened
  increase strictly and stay above the epoch stored at the start, so no hello is accepted twice.\<close>

theorem peer_sessions_increasing:
  assumes "peer_history path files eps files'"
  shows "sorted_wrt (>) eps \<and> (\<forall>ep\<in>set eps. stored_epoch path files < ep \<and> ep \<le> stored_epoch path files')"
  using peer_history_increasing [OF assms] by simp

text \<open>A device at epoch 1 meets a peer that has no epoch file yet.\<close>

definition sample_hello :: bytes where
  "sample_hello = npq_hello_frame demo_root_key demo_device_id 1 (replicate 16 5)"

definition sample_options :: peer_options where
  "sample_options = \<lparr>o_port = Some ''port'', o_manifest = ''m'', o_signature = None, o_state = ''s'', o_led = 1, o_tamper_demo = 0\<rparr>"

definition sample_host :: host where
  "sample_host =
     (let c = npq_challenge_frame demo_root_key sample_hello (replicate 16 6) (challenge_session_id demo_root_key sample_hello (replicate 16 6))
      in \<lparr>h_reads = [Received (24 # npq_finished_frame demo_root_key sample_hello c NPQ_FRAME_CLIENT_FINISHED)], h_writes = [], h_sent = [],
          h_random = [Randomness (replicate 16 6)], h_files = Map.empty, h_malloc = (\<lambda>_. True), h_load = LoadWhole, h_store = Stored, h_opens = True\<rparr>)"

lemma hello_frame_epoch: "length dev = 8 \<Longrightarrow> slice (npq_hello_frame root dev epoch nonce) 12 4 = be_bytes 4 epoch"
  by (simp add: npq_hello_frame_def hello_core_npq_def slice_def)

lemma sample_known: "known_hello sample_hello" "length sample_hello = 48" "be_word (slice sample_hello 12 4) = (1 :: u32)"
proof -
  show "known_hello sample_hello" unfolding known_hello_def sample_hello_def
    by (intro exI [of _ 1] exI [of _ "replicate 16 5"]) simp
  show "length sample_hello = 48" by (simp add: sample_hello_def)
  show "be_word (slice sample_hello 12 4) = (1 :: u32)" by (simp add: sample_hello_def hello_frame_epoch be_word_be_bytes)
qed

lemma sample_accepted: "\<exists>s' h'. peer_establish_session sample_options sample_hello session_zero sample_host = (True, s', h')"
  using peer_accepts [OF sample_known(1), of sample_options sample_host "replicate 16 6" "[]" session_zero]
  by (auto simp: sample_known sample_host_def sample_options_def load_latest_epoch_def Let_def)

text \<open>The condition of the runs is needed: with an epoch file that holds 2 and cannot be opened, the peer
  opens a session with the hello of epoch 1 and stores that epoch over the larger one.\<close>

lemma unreadable_epoch_replayed:
  "\<exists>h s' h'. h_load h = LoadOpenFailed \<and> stored_epoch ''s'' (h_files h) = 2 \<and>
     peer_establish_session sample_options sample_hello session_zero h = (True, s', h') \<and> stored_epoch ''s'' (h_files h') = 1"
proof -
  let ?h = "sample_host\<lparr>h_files := [''s'' \<mapsto> [50, 10]], h_load := LoadOpenFailed\<rparr>"
  obtain s' h' where r: "peer_establish_session sample_options sample_hello session_zero ?h = (True, s', h')"
    using peer_accepts [OF sample_known(1), of sample_options ?h "replicate 16 6" "[]" session_zero]
    by (auto simp: sample_known sample_host_def sample_options_def load_latest_epoch_def Let_def)
  have "stored_epoch ''s'' (h_files h') = 1"
    using peer_stores [OF r sample_known(2)] by (simp add: sample_known(3)) (simp add: sample_options_def)
  moreover have "stored_epoch ''s'' (h_files ?h) = 2"
    by (simp add: stored_epoch_def scan_u32_def is_space_def is_digit_def digits_value_def)
  moreover have "h_load ?h = LoadOpenFailed" by simp
  ultimately show ?thesis using r by blast
qed

theorem peer_session_exact_witness:
  "\<exists>s' h'. peer_establish_session sample_options sample_hello session_zero sample_host = (True, s', h') \<and>
     peer_confirmed ''s'' sample_hello sample_host True s' h'"
proof -
  obtain ok s' h' where r: "peer_establish_session sample_options sample_hello session_zero sample_host = (ok, s', h')" by (metis prod_cases3)
  then have "ok" using sample_accepted by auto
  with peer_session_exact [OF r sample_known(2)] r show ?thesis by (auto simp: sample_options_def)
qed

theorem peer_sessions_increasing_witness:
  "\<exists>eps files'. peer_history ''s'' Map.empty eps files' \<and> length eps = 1 \<and> sorted_wrt (>) eps"
proof -
  obtain ok s' h' where r: "peer_establish_session sample_options sample_hello session_zero sample_host = (ok, s', h')" by (metis prod_cases3)
  have "peer_history ''s'' Map.empty (if ok then be_word (slice sample_hello 12 4) # [] else []) (h_files h')"
    by (rule one_run [OF no_run _ _ sample_known(2) _ r]) (simp_all add: sample_host_def Let_def sample_options_def reads_epoch_def)
  moreover have ok using r sample_accepted by auto
  ultimately show ?thesis using peer_sessions_increasing by fastforce
qed

end
