(* ===== verification/Spec2Isabelle.thy ===== *)
theory Spec2Isabelle
  imports CppWrapper MicroPython Migration NpqDevice NpqPeer
begin

text \<open>
  A verification development of the C0-PQLink repository: the C library of \<open>src/src\<close> (its
  cryptographic core in \<open>core\<close>, its link protocol in \<open>session\<close>) with its C++ and MicroPython wrappers
  and the JavaScript reference peer it talks to (\<open>src/reference-peer\<close>), and the NanoPQ SecureLink
  firmware and host peer of \<open>src/NanoPQ-SecureLink-1.0.0\<close>.

  \<^bold>\<open>The program.\<close> The library lets a small device open a link with a server. A client reads the server's
  ML-KEM-512 public key through a callback, encapsulates while the ciphertext leaves in fragments,
  authenticates the preflight with a pre-shared key, derives a key schedule over the transcript, and
  then exchanges records protected by Ascon-AEAD128 under keys that ratchet forward with every record. A
  separate journal stores which generation of the policy and key is active. The NanoPQ firmware runs on
  an ATmega328P: at the first start it verifies a post-quantum signature (SLH-DSA or LMS) of a policy
  manifest while the signature streams over the serial line, at every start it stores a new boot epoch in
  its EEPROM and opens a session with the host peer, and then it sends sensor records and obeys
  commands. The two programs share no code but resemble each other, and both are modelled.

  \<^bold>\<open>Modelling.\<close> Buffers are lists of bytes and a write returns the new list; machine integers are words of
  their width, so arithmetic wraps as in C; a pointer the code tests for \<open>NULL\<close> is an \<open>option\<close>; result
  codes are datatypes with the constants of the code. Callbacks of the library (transport, random source,
  public-key reader, storage) are parameters of the definitions, over a world they thread through: each call may
  change the world and answer differently from the last. A property that needs their documented contract states it
  as a hypothesis; a public-key reader that stands for a key, the same bytes at every call, is
  \<open>pure_reader key\<close>, and what is said of the key holds for such a reader only. Loops over arrays are folds
  or structural recursion. What the environment of a NanoPQ program does, a polled register, a system
  call, a power loss, is a script the program consumes or a step of a transition relation, so a
  property holds for every environment. Definitions keep the names of the code; a piece of a long function
  that is a definition of its own has a name of its own and is listed with the lines it stands for.

  \<^bold>\<open>Shared ground.\<close>
  \<^item> \<open>Prelude\<close>: words and buffers, the two byte orders, the collections \<open>buf_simps\<close> and \<open>byte_simps\<close>.
  \<^item> \<open>Common\<close>: result codes, wipe, constant-time comparison, big-endian fields (\<open>common.h\<close>,
    \<open>session/crypto.c\<close>).
  \<^item> \<open>Interfaces\<close>: the contracts between components as locales. \<open>streaming_hash\<close> is interpreted by
    SHA-256 of both programs, HMAC, SHA-3 and SHAKE, and used by the key schedule, the transcript
    and the signature verifiers; \<open>aead\<close> is interpreted by Ascon and used by the records; \<open>byte_source\<close> is
    interpreted by the serial line of the firmware and by a string, and used by the verifiers. Two more stand
    where their client is: \<open>acknowledging_peer\<close> in \<open>Fragments\<close>, a far end that acknowledges every fragment, and
    \<open>record_channel\<close> in \<open>Dialogue\<close>, what a wrapper owes the C client to carry a dialogue of records.

  \<^bold>\<open>The library, core.\<close>
  \<^item> \<open>Sha256\<close>, \<open>Hmac\<close> (\<open>core/sha256.c\<close>): for every way a message is cut into updates the result is
    FIPS 180-4, RFC 2104 and RFC 5869; the 16-word rolling schedule is shown to be the standard's.
  \<^item> \<open>Keccak\<close> (\<open>core/keccak.c\<close>): the in-place permutation is Keccak-f[1600] of FIPS 202 with its offsets
    and constants generated by the standard's rules; absorbing and squeezing in pieces is the sponge.
  \<^item> \<open>Ascon\<close> (\<open>core/ascon_aead128.c\<close>): encryption and decryption are SP 800-232; decryption accepts
    exactly what encryption makes and releases nothing otherwise.
  \<^item> \<open>MlkemArith\<close>, \<open>MlkemPoly\<close>, \<open>Mlkem\<close>, \<open>Encapsulation\<close> (\<open>core/mlkem512_stream.c\<close>): the
    branch-free arithmetic with its bounds, the transforms, the samplers, the streamed matrix product
    and encapsulation; the outcome of encapsulation for every key and every behaviour of the callbacks.

  \<^bold>\<open>The library, session.\<close>
  \<^item> \<open>Frame\<close>, \<open>Wire\<close> (\<open>session/preflight.c\<close>): the decoders accept exactly the encodings.
  \<^item> \<open>KeySchedule\<close> (\<open>session/crypto.c\<close>): the keys as HKDF over the transcript.
  \<^item> \<open>ClientState\<close>, \<open>Records\<close> (\<open>client.h\<close>, \<open>session/ratchet.c\<close>): sealing and opening exactly; over all
    runs the frames a client seals are Ascon encryptions under pairwise distinct nonces, and no record is
    accepted twice, out of order or as one's own. A record accepted at the last sequence number moves the
    counter back to 0, which the protocol document excludes; the property on opening says so.
  \<^item> \<open>Client\<close>, \<open>Fragments\<close>, \<open>Handshake\<close> (\<open>session/fragment.c\<close>): the bounded exchange with retries, the
    fragment stream, and what \<open>connect\<close> leaves on every path; the life cycle of a client.
  \<^item> \<open>ReferencePeer\<close> (\<open>reference-peer/protocol.mjs\<close>, the message handler of \<open>udp-peer.mjs\<close>): the server as its
    authors wrote it in JavaScript, every function and every thrown error. \<open>PeerAgree\<close> proves that its frames,
    tags and keys are those of the library and what its handlers do with each frame, new or repeated.
  \<^item> \<open>PeerLink\<close>, \<open>PeerRecords\<close>: the client against that peer over a line that loses requests and answers. As long as
    the retries outlast the losses the handshake succeeds and both ends hold the same keys, and a
    record sealed by the client is opened by the peer and answered, once, however often it arrives.
  \<^item> \<open>Dialogue\<close>, \<open>CppWrapper\<close> (\<open>C0PQLink.cpp\<close>, the template sketch), \<open>MicroPython\<close>
    (\<open>micropython/modc0pqlink.c\<close>): a program that begins, connects and exchanges records through either wrapper gets
    the answers of the peer's application in order; what a MicroPython callable raises never escapes \<open>connect\<close>; a
    refused \<open>begin\<close> of the C++ client replaces its sources all the same.
  \<^item> \<open>Migration\<close> (\<open>session/migration.c\<close>): the two-slot journal refines a stored policy that only moves
    along the allowed transitions and never back.

  \<^bold>\<open>NanoPQ.\<close>
  \<^item> \<open>NpqHash\<close>, \<open>NpqCommon\<close> (\<open>sha256.c\<close>, \<open>common.c\<close>, \<open>ascon_aead128.c\<close> of the firmware): shown equal to
    the standards and to the functions of the library. A message of the firmware's SHA-256 has fewer
    than \<open>2^32\<close> bytes.
  \<^item> \<open>NpqProtocol\<close>, \<open>NpqSession\<close>, \<open>NpqRecords\<close> (\<open>protocol.c\<close>): hello, challenge and finished frames,
    the session both ends derive, the ratcheted records; a network that drops, repeats and reorders
    frames cannot make a receiver accept anything but a prefix of what was sealed.
  \<^item> \<open>NpqLms\<close> (\<open>lms.c\<close>), \<open>NpqSlhdsa\<close>, \<open>NpqFips205\<close> (\<open>slhdsa.c\<close>): the one-pass verifiers accept exactly
    the signatures RFC 8554 and FIPS 205 accept, over any byte source.
  \<^item> \<open>NpqState\<close>, \<open>NpqFirmware\<close>, \<open>NpqDevice\<close> (\<open>main.c\<close>, \<open>provisioning.h\<close>): the EEPROM journal with
    writes that power loss tears at any byte; the serial line with its timeouts; authorisation, session and
    commands as exact conditions on what the line carries; and the device as a step relation, whose
    epochs increase over all runs.
  \<^item> \<open>NpqPeer\<close> (\<open>nanopq_peer.c\<close>): options, port, epoch file, enrolment, session, demonstration. An epoch file that
    is there may fail to open or to read (\<open>load_event\<close>), which the code takes for epoch 0. Over all runs in which the
    file can be read the epochs of the sessions increase; \<open>unreadable_epoch_replayed\<close> shows a run that
    accepts an old hello because it cannot.
  \<^item> This theory: the device and its peer against each other, from enrolment to the LED.

  \<^bold>\<open>Bounds and fuel.\<close> No definition has fuel that could run out: every loop of the code but one is bounded by
  an array, a counter or the script of its environment. \<open>client_config\<close>'s retry count bounds the frame
  exchange, eight attempts bound \<open>read_protocol_frame\<close>, and the remaining signature bounds the enrolment
  loop (a measure). The one is the rejection sampling of ML-KEM, which the code lets run as long as it takes: it is
  a \<open>partial_function\<close> whose \<open>None\<close> is a loop that does not end, and the theorems on encapsulating and connecting say
  that these return exactly when the sampling of the two matrix rows ends. The endless loops of the
  firmware's \<open>main\<close> are steps of the relation. Hypotheses of
  the form \<open>length message < 2^32 - k\<close> keep the 32-bit length counter of the firmware's hash from wrapping;
  the epochs are unique as long as the generation counter has not wrapped, and the theorem on its
  wrap-around says what happens then.

  \<^bold>\<open>Assumed.\<close> Of the ML-KEM package of the reference peer only that its decapsulation returns the secret of the
  encapsulation at hand (\<open>kem_agrees\<close>); of the journal's storage, that it
  reads back what a slot holds and that a write touches its slot only (\<open>journal_reads\<close>, \<open>journal_writes\<close>); of the line, that no more attempts in a row are lost than the client
  retries; of the MicroPython interpreter, that bytes and small integers convert back (\<open>python_objects\<close>); of the
  Python callable that hands out the key in a dialogue, that it returns the peer's key and leaves the line alone
  (\<open>python_key\<close>). Each has
  an instance in the witnesses.

  \<^bold>\<open>Not modelled.\<close> Register set-up, terminal settings and messages; the socket and configuration of the
  reference peer and its key generation; the tables by which MicroPython finds the module, and its Python facade,
  which forwards; tests, tools and the Python demos; timing
  and the contents of freed or stale stack memory, so the absence of side channels is not stated. The code under
  compile switches that the builds do not set (the smaller hash and verifier variants) is left out; the
  three builds of the firmware that choose the signature scheme are all modelled.
\<close>

section \<open>A NanoPQ device and its peer\<close>

lemma same_provisioning: "demo_root_key = NPQ_DEVICE_ROOT" "demo_device_id = NPQ_DEVICE_ID"
  by (simp_all add: demo_root_key_def NPQ_DEVICE_ROOT_def demo_device_id_def NPQ_DEVICE_ID_def)

subsection \<open>Enrolment\<close>

lemma enrollment_signature_length:
  "enrollment_signature opts (NPQ_AUTH_ALGORITHM_ID build) = Some (path, n) \<Longrightarrow> n = NPQ_AUTH_SIGNATURE_BYTES build"
  by (cases build) (auto simp: enrollment_signature_def Let_def)

text \<open>The whole stream of an enrolment is an authorisation when its parts are acceptable.\<close>

lemma authorization_on_stream:
  assumes "length m = 48" and "length sig = NPQ_AUTH_SIGNATURE_BYTES build"
  shows "authorization_on_line build stored ([52, 0x4e, 0x51, 1, 7] @ m @ sig @ rest) \<longleftrightarrow>
    policy_manifest m \<and> be_word (slice m 40 4) > stored \<and> policy_signed build m sig"
  using assms by (simp add: authorization_on_line_iff slice_def)

text \<open>C22: Enrolment end to end. When the peer's run of the enrolment ends with success, it has sent the
  manifest file in a policy frame and then the whole signature file, 48 bytes and as many as the
  algorithm of the build has. A device that gets these bytes in time authorises the policy exactly when
  the manifest is one for this device, newer than the stored policy, and the signature is valid.\<close>

theorem enrollment_authorizes:
  assumes "run_enrollment opts (NPQ_AUTH_ALGORITHM_ID build) h = (True, h')" and "h_sent h' = h_sent h @ sent"
    and "length (f_frame fw) = 64" and "line_bytes (f_uart fw) = sent @ rest"
  shows "\<exists>m sig. h_files h (o_manifest opts) = Some m \<and> length m = 48 \<and> length sig = NPQ_AUTH_SIGNATURE_BYTES build \<and>
    sent = [52, 0x4e, 0x51, 1, 7] @ m @ sig \<and>
    (\<exists>ok fw'. authorize_post_quantum build fw = Some (ok, fw') \<and>
      (ok \<longleftrightarrow> policy_manifest m \<and> be_word (slice m 40 4) > r_policy_sequence (f_state fw) \<and> policy_signed build m sig))"
proof -
  from enrollment_sent [OF assms(1)] obtain m path n sig where e: "enrollment_signature opts (NPQ_AUTH_ALGORITHM_ID build) = Some (path, n)"
    "h_files h (o_manifest opts) = Some m" "length m = 48" "length sig = n" "h_sent h' = h_sent h @ [52, 0x4e, 0x51, 1, 7] @ m @ sig" by metis
  have n: "length sig = NPQ_AUTH_SIGNATURE_BYTES build" using enrollment_signature_length [OF e(1)] e(4) by simp
  have s: "sent = [52, 0x4e, 0x51, 1, 7] @ m @ sig" using assms(2) e(5) by simp
  have l: "line_bytes (f_uart fw) = [52, 0x4e, 0x51, 1, 7] @ m @ sig @ rest" using assms(4) s by simp
  from authorize_outcome [OF assms(3), of build] obtain ok fw' where a: "authorize_post_quantum build fw = Some (ok, fw')"
    "ok \<longleftrightarrow> authorization_on_line build (r_policy_sequence (f_state fw)) (line_bytes (f_uart fw))" by blast
  have "ok \<longleftrightarrow> policy_manifest m \<and> be_word (slice m 40 4) > r_policy_sequence (f_state fw) \<and> policy_signed build m sig"
    using a(2) unfolding l authorization_on_stream [OF e(3) n] .
  with a(1) e(2,3) n s show ?thesis by blast
qed

text \<open>The device of the LMS W8 build asks for its signature in one piece.\<close>

definition enrolling_host :: host where
  "enrolling_host = sample_host\<lparr>h_reads := [Received (of_nat (length [0x4e, 0x51, 1, 9, 5, 12 :: u8]) # [0x4e, 0x51, 1, 9, 5, 12]),
     Received (of_nat (length [0x4e, 0x51, 1, 8, 1 :: u8]) # [0x4e, 0x51, 1, 8, 1])],
     h_files := [''m'' \<mapsto> replicate 48 7, ''tests/vectors/lms_w8_signature.bin'' \<mapsto> replicate 1292 9]\<rparr>"

lemma enrolling_host_succeeds: "\<exists>h'. run_enrollment sample_options 3 enrolling_host = (True, h')"
proof -
  let ?m = "replicate 48 7 :: bytes" and ?s = "replicate 1292 9 :: bytes"
  have f: "read_file_exact (o_manifest sample_options) 48 enrolling_host = Some ?m"
    "read_file_exact ''tests/vectors/lms_w8_signature.bin'' 1292 enrolling_host = Some ?s"
    "enrollment_signature sample_options 3 = Some (''tests/vectors/lms_w8_signature.bin'', 1292)"
    by (simp_all add: read_file_exact_def enrolling_host_def sample_options_def sample_host_def Let_def enrollment_signature_def)
  have w: "h_writes enrolling_host = []" by (simp add: enrolling_host_def sample_host_def Let_def)
  define h1 where "h1 = enrolling_host\<lparr>h_sent := h_sent enrolling_host @ 52 # take (unat (52 :: u8)) ([0x4e, 0x51, 1, 7] @ ?m)\<rparr>"
  have w1: "write_frame ([0x4e, 0x51, 1, 7] @ ?m) 52 enrolling_host = (True, h1)" unfolding h1_def by (rule write_frame_free [OF w])
  define es where "es = [Received (of_nat (length [0x4e, 0x51, 1, 8, 1 :: u8]) # [0x4e, 0x51, 1, 8, 1 :: u8])]"
  have r1: "h_reads h1 = Received (of_nat (length [0x4e, 0x51, 1, 9, 5, 12 :: u8]) # [0x4e, 0x51, 1, 9, 5, 12]) # es" "h_writes h1 = []"
    by (simp_all add: h1_def enrolling_host_def es_def sample_host_def Let_def)
  have p1: "read_protocol_frame h1 = (Some [0x4e, 0x51, 1, 9, 5, 12], h1\<lparr>h_reads := es\<rparr>)"
    by (rule read_protocol_received [OF r1(1)]) simp_all
  have n: "push_bit 8 (unat (5 :: u8)) OR unat (12 :: u8) = 1292" by simp
  obtain h2 where h2: "write_exact (slice ?s 0 1292) (h1\<lparr>h_reads := es\<rparr>) = (True, h2)" "h_reads h2 = es"
    using r1(2) by (simp add: write_exact_def slice_def) (cases "replicate 1292 (9 :: u8)"; simp)
  have p2: "read_protocol_frame h2 = (Some [0x4e, 0x51, 1, 8, 1], h2\<lparr>h_reads := []\<rparr>)"
    by (rule read_protocol_received) (simp_all add: h2(2) es_def)
  have "enrollment_loop ?s 1292 h2 = (True, h2\<lparr>h_reads := []\<rparr>)"
    by (simp add: enrollment_loop.simps [of ?s 1292 h2] p2)
  then have "enrollment_loop ?s 0 h1 = (True, h2\<lparr>h_reads := []\<rparr>)"
    using h2(1) n by (simp add: enrollment_loop.simps [of ?s 0 h1] p1)
  then show ?thesis using f w1 by (simp add: run_enrollment_def Let_def)
qed

theorem enrollment_authorizes_witness:
  "\<exists>sent fw'. length sent = 1345 \<and>
     authorize_post_quantum AUTH_LMS_W8 (hear (map Arrived sent) (main_start (\<lambda>_. 0) (replicate 36 0xff))) = Some (False, fw')"
proof -
  obtain h' where h': "run_enrollment sample_options (NPQ_AUTH_ALGORITHM_ID AUTH_LMS_W8) enrolling_host = (True, h')"
    using enrolling_host_succeeds by auto
  from enrollment_sent [OF h'] obtain sent where s: "h_sent h' = h_sent enrolling_host @ sent" by metis
  let ?fw = "hear (map Arrived sent) (main_start (\<lambda>_. 0) (replicate 36 0xff))"
  have "length (f_frame ?fw) = 64" "line_bytes (f_uart ?fw) = sent @ []" by (simp add: main_start_def, simp add: line_hear)
  from enrollment_authorizes [OF h' s this] obtain m sig ok fw' where e: "h_files enrolling_host (o_manifest sample_options) = Some m" "length m = 48"
    "length sig = 1292" "sent = [52, 0x4e, 0x51, 1, 7] @ m @ sig" "authorize_post_quantum AUTH_LMS_W8 ?fw = Some (ok, fw')" "ok \<longrightarrow> policy_manifest m" by auto
  have "m = replicate 48 7" using e(1) by (simp add: enrolling_host_def sample_options_def)
  then have m7: "take 8 m ! 0 = 7" by simp
  have "\<not> policy_manifest m"
  proof
    assume "policy_manifest m"
    then have "take 8 m ! 0 = 0x51" by (simp add: policy_manifest_def)
    with m7 show False by simp
  qed
  then have "\<not> ok" using e(6) by simp
  with e(5) have "authorize_post_quantum AUTH_LMS_W8 ?fw = Some (False, fw')" by simp
  moreover have "length sent = 1345" using e(2-4) by simp
  ultimately show ?thesis by blast
qed

subsection \<open>Opening a session\<close>

text \<open>C21: A device and a peer that run against each other. The device is at an epoch above the one the
  peer loads from its file, the peer draws the nonce \<open>sn\<close>, and each end receives what the other sends: the device the challenge and
  the server proof, the peer the client proof. Then both succeed, each has sent what the other received,
  the two sessions mirror each other, and the peer has stored the epoch of the device.\<close>

theorem honest_link:
  fixes fw :: firmware and h :: host and sn :: bytes
  assumes dev: "length (f_hello fw) = 48" "length (f_challenge fw) = 60" "length (f_frame fw) = 64" "r_boot_epoch (f_state fw) \<noteq> 0"
    and fresh: "load_latest_epoch (o_state opts) h < r_boot_epoch (f_state fw)"
    and env: "h_random h = [Randomness sn]" "length sn = 16" "h_writes h = []" "h_store h = Stored" "length (o_state opts) < 4092"
  defines "hello \<equiv> device_hello fw"
  defines "c \<equiv> npq_challenge_frame NPQ_DEVICE_ROOT hello sn (challenge_session_id NPQ_DEVICE_ROOT hello sn)"
  defines "client \<equiv> npq_finished_frame NPQ_DEVICE_ROOT hello c NPQ_FRAME_CLIENT_FINISHED"
    and "server \<equiv> npq_finished_frame NPQ_DEVICE_ROOT hello c NPQ_FRAME_SERVER_FINISHED"
  assumes line: "line_bytes (f_uart fw) = 60 # c @ 24 # server @ rest" and port: "h_reads h = Received (24 # client) # es"
  shows "\<exists>fw' h'. establish_session fw = Some (True, fw') \<and>
    peer_establish_session opts hello s h = (True, mirror (f_session fw'), h') \<and>
    u_tx (f_uart fw') = u_tx (f_uart fw) @ 48 # hello @ 24 # client \<and> h_sent h' = h_sent h @ 60 # c @ 24 # server \<and>
    stored_epoch (o_state opts) (h_files h') = r_boot_epoch (f_state fw)"
proof -
  let ?ep = "r_boot_epoch (f_state fw)" and ?sid = "challenge_session_id NPQ_DEVICE_ROOT hello sn"
  have lh: "length hello = 48" by (simp add: hello_def device_hello_def)
  have lc: "length c = 60" using lh env(2) by (simp add: c_def)
  have kn: "known_hello hello"
    unfolding known_hello_def hello_def device_hello_def same_provisioning using dev(4)
    by (intro exI [of _ ?ep] exI [of _ "client_nonce NPQ_DEVICE_ROOT NPQ_DEVICE_ID ?ep"]) simp
  have ep: "be_word (slice hello 12 4) = ?ep" by (simp add: hello_def device_hello_def hello_frame_epoch be_word_be_bytes)
  have on: "server_on_line hello (line_bytes (f_uart fw))"
    unfolding server_on_line_def Let_def line c_def [symmetric] server_def
    using env(2) by (intro exI [of _ sn] exI [of _ ?sid] exI [of _ rest]) (simp add: c_def [symmetric])
  have sl: "slice (line_bytes (f_uart fw)) 1 60 = c" unfolding line using lc by (simp add: slice_def)
  have "\<not> (\<exists>b l. line_bytes (f_uart fw) = b # l \<and> 60 < b \<and> b \<le> 64 \<and> 60 < length l)" unfolding line by auto
  with establish_session_cases [OF dev] on obtain fw' where f: "establish_session fw = Some (True, fw')"
      "f_session fw' = device_session NPQ_DEVICE_ROOT hello c" "u_tx (f_uart fw') = u_tx (f_uart fw) @ [48] @ hello @ [24] @ client"
    unfolding hello_def [symmetric] sl client_def by auto
  have "\<exists>h'. peer_establish_session opts hello s h = (True, mirror (device_session NPQ_DEVICE_ROOT hello c), h') \<and> h_sent h' = h_sent h @ 60 # c @ 24 # server"
    using peer_accepts [OF kn _ env, of es s] fresh ep port by (simp add: client_def server_def c_def same_provisioning)
  then obtain h' where p: "peer_establish_session opts hello s h = (True, mirror (device_session NPQ_DEVICE_ROOT hello c), h')"
      "h_sent h' = h_sent h @ 60 # c @ 24 # server" by blast
  have "stored_epoch (o_state opts) (h_files h') = ?ep" using peer_stores [OF p(1) lh] ep by simp
  with f p show ?thesis by auto
qed

theorem honest_link_witness:
  "\<exists>fw fw' h h'. r_boot_epoch (f_state fw) = 1 \<and> establish_session fw = Some (True, fw') \<and>
     peer_establish_session sample_options (device_hello fw) session_zero h = (True, mirror (f_session fw'), h')"
proof -
  define fw0 where "fw0 = next_epoch (main_start (\<lambda>_. 0) (replicate 36 0xff))"
  let ?hello = "device_hello fw0" and ?sn = "replicate 16 6 :: bytes"
  let ?c = "npq_challenge_frame NPQ_DEVICE_ROOT ?hello ?sn (challenge_session_id NPQ_DEVICE_ROOT ?hello ?sn)"
  define fw where "fw = hear (map Arrived (60 # ?c @ 24 # npq_finished_frame NPQ_DEVICE_ROOT ?hello ?c NPQ_FRAME_SERVER_FINISHED @ [])) fw0"
  define h where "h = sample_host\<lparr>h_reads := [Received (24 # npq_finished_frame NPQ_DEVICE_ROOT ?hello ?c NPQ_FRAME_CLIENT_FINISHED)]\<rparr>"
  have ep: "r_boot_epoch (f_state fw) = 1" "f_state fw = f_state fw0"
    by (simp_all add: fw_def fw0_def main_start_def state_load_current blank_journal)
  then have dh: "device_hello fw = ?hello" by (simp add: device_hello_def)
  have l: "line_bytes (f_uart fw) = 60 # ?c @ 24 # npq_finished_frame NPQ_DEVICE_ROOT ?hello ?c NPQ_FRAME_SERVER_FINISHED @ []"
    unfolding fw_def by (rule line_hear)
  have d: "length (f_hello fw) = 48" "length (f_challenge fw) = 60" "length (f_frame fw) = 64" "r_boot_epoch (f_state fw) \<noteq> 0"
    using ep by (simp_all add: fw_def fw0_def hear_def next_epoch_def main_start_def)
  have e: "load_latest_epoch (o_state sample_options) h < r_boot_epoch (f_state fw)" "h_random h = [Randomness ?sn]" "length ?sn = 16"
    "h_writes h = []" "h_store h = Stored" "length (o_state sample_options) < 4092"
    "h_reads h = Received (24 # npq_finished_frame NPQ_DEVICE_ROOT ?hello ?c NPQ_FRAME_CLIENT_FINISHED) # []"
    using ep by (simp_all add: h_def sample_host_def sample_options_def load_latest_epoch_def Let_def)
  from honest_link [OF d e(1-6), of "[]" "[]" session_zero, unfolded dh, OF l e(7)] ep(1) show ?thesis unfolding dh [symmetric] by blast
qed

subsection \<open>Commands\<close>

text \<open>The direction from the peer to the device: the peer seals what the device awaits.\<close>

definition paired :: "npq_session \<Rightarrow> npq_session \<Rightarrow> bool" where
  "paired s d \<longleftrightarrow>
     s_session_id s = s_session_id d \<and> s_send_chain s = s_receive_chain d \<and> s_send_nonce_base s = s_receive_nonce_base d \<and>
     s_send_sequence s = s_receive_sequence d"

lemma paired_mirror: "paired (mirror d) d"
  by (simp add: paired_def mirror_def)

lemma paired_sealed: "paired s d \<Longrightarrow> sealed_frame s p = awaited_frame d p"
  by (simp add: paired_def sealed_frame_def awaited_frame_def)

lemma receive_sensor_session: "receive_sensor s h = (ok, s', h') \<Longrightarrow> s' = s \<or> s' = after_receive s"
  by (auto simp: receive_sensor_def receive_plaintext_def Let_def split: option.split_asm prod.split_asm if_split_asm dest!: open_imp)

lemma receive_sensor_keeps: "receive_sensor s h = (ok, s', h') \<Longrightarrow> h_sent h' = h_sent h"
  by (auto simp: receive_sensor_def receive_plaintext_def Let_def split: option.split_asm prod.split_asm dest!: read_protocol_keeps)

lemma require_status_keeps: "require_status s a h = (ok, s', h') \<Longrightarrow> h_sent h' = h_sent h"
  by (auto simp: require_status_def receive_plaintext_def Let_def split: option.split_asm prod.split_asm dest!: read_protocol_keeps)

lemma live_demo_sent:
  assumes run: "run_live_demo s opts h = (True, s', h')" and t: "o_tamper_demo opts = 0"
  shows "h_sent h' = h_sent h @ 31 # sealed_frame s [0x10, o_led opts]"
proof -
  obtain ok s1 h1 where r1: "receive_sensor s h = (ok, s1, h1)" by (metis prod_cases3)
  have ok: "ok" by (rule ccontr) (use run in \<open>simp add: run_live_demo_def r1\<close>)
  let ?p = "[0x10, o_led opts]"
  obtain st s2 f n where q: "npq_seal (Some s1) (Some ?p) 2 (Some (replicate 64 0)) (Some 0) = (st, s2, f, n)" by (metis prod_cases4)
  have st: "st = NPQ_OK" by (rule ccontr) (use run ok in \<open>simp add: run_live_demo_def r1 q Let_def\<close>)
  have est: "s_established s1 \<noteq> 0" "s_send_sequence s1 \<noteq> -1" using seal_imp(2) [OF q st] by simp_all
  have n2: "(of_nat (length ?p) :: u8) = 2" "(of_nat (29 + length ?p) :: u8) = 31" by simp_all
  have "npq_seal (Some s1) (Some ?p) (of_nat (length ?p)) (Some (replicate 64 0)) (Some 0) =
      (NPQ_OK, Some (after_send s1), Some (sealed_frame s1 ?p @ drop (29 + length ?p) (replicate 64 0)), Some (of_nat (29 + length ?p)))"
    by (rule seal_ok [OF est]) simp_all
  then have fn: "s2 = Some (after_send s1)" "f = Some (sealed_frame s1 ?p @ drop 31 (replicate 64 0))" "n = Some 31" using q unfolding n2 by simp_all
  obtain ok2 h2 where w: "write_frame (the f) 31 h1 = (ok2, h2)" by fastforce
  have ok2: "ok2" by (rule ccontr) (use run ok st t in \<open>simp add: run_live_demo_def r1 q Let_def fn w [unfolded fn, simplified]\<close>)
  obtain ok3 s3 h3 where r3: "require_status (after_send s1) 1 h2 = (ok3, s3, h3)" by (metis prod_cases3)
  have h3: "h' = h3" using run ok st t ok2 by (simp add: run_live_demo_def r1 q Let_def fn w [unfolded fn, simplified] r3 split: if_split_asm)
  have "sealed_frame s1 ?p = sealed_frame s ?p" using receive_sensor_session [OF r1] by (auto simp: after_receive_def sealed_frame_def)
  moreover have "take (unat (31 :: u8)) (the f) = sealed_frame s1 ?p" unfolding fn by simp
  moreover have "h_sent h2 = h_sent h1 @ 31 # take (unat (31 :: u8)) (the f)" using write_frame_sent [OF w] ok2 by metis
  ultimately show ?thesis using h3 require_status_keeps [OF r3] receive_sensor_keeps [OF r1] by simp
qed

text \<open>C26: The demonstration switches the LED. When the peer's run without tampering ends with success, it has
  sent exactly one frame, the record that the next send key of its session seals over the command and the option;
  a device whose session is paired with the peer's, and which gets that record in time, sets its LED as
  the option says.\<close>

theorem demo_switches_led:
  assumes "run_live_demo s opts h = (True, s', h')" and "o_tamper_demo opts = 0" and "o_led opts \<le> 1" and "paired s (f_session fw)"
    and "length (f_frame fw) = 64" and "length (f_plaintext fw) = 24" and "s_established (f_session fw) \<noteq> 0"
    and "h_sent h' = h_sent h @ sent" and "line_bytes (f_uart fw) = sent @ rest"
  shows "sent = 31 # sealed_frame s [0x10, o_led opts] \<and>
    (\<exists>fw'. receive_command fw = Some fw' \<and> f_led fw' = (o_led opts \<noteq> 0))"
proof -
  have sent: "sent = 31 # sealed_frame s [0x10, o_led opts]" using live_demo_sent [OF assms(1,2)] assms(8) by simp
  then have "sent = 31 # awaited_frame (f_session fw) [0x10, o_led opts]"
    using paired_sealed [OF assms(4)] by simp
  then have "command_on_line (f_session fw) (o_led opts) (line_bytes (f_uart fw))"
    using assms(3,9) unfolding command_on_line_def by (intro conjI exI [of _ rest]) simp_all
  with sent show ?thesis using receive_command_cases [OF assms(5-7)] by blast
qed

lemma awaited_frame_start: "awaited_frame s p ! 0 = 0x4e" "awaited_frame s p ! 1 = 0x51" "awaited_frame s p ! 2 = 1"
proof -
  obtain ct tag where "npq_ascon_aead128_encrypt (fst (ratchet_material (s_receive_chain s) (s_receive_sequence s)))
      (make_nonce (s_receive_nonce_base s) (s_receive_sequence s)) (data_header (s_session_id s) (s_receive_sequence s) (length p)) p = (ct, tag)"
    by fastforce
  then have "awaited_frame s p = data_header (s_session_id s) (s_receive_sequence s) (length p) @ ct @ tag"
    by (simp add: awaited_frame_def data_frame_def)
  from data_header_fields(1) [OF this] show "awaited_frame s p ! 0 = 0x4e" "awaited_frame s p ! 1 = 0x51" "awaited_frame s p ! 2 = 1"
    by (simp_all add: valid_header_def)
qed

lemma receive_awaited:
  assumes "h_reads h = Received (of_nat (29 + length p) # awaited_frame s p) # es" and "s_established s \<noteq> 0" and "length p \<le> 24"
  shows "receive_plaintext s h = (Some p, after_receive s, h\<lparr>h_reads := es\<rparr>)"
proof -
  have r: "read_protocol_frame h = (Some (awaited_frame s p), h\<lparr>h_reads := es\<rparr>)"
    by (rule read_protocol_received) (use assms in \<open>simp_all add: awaited_frame_start [simplified]\<close>)
  have "unat (of_nat (length p) :: u8) = length p" using assms(3) by (intro unat_of_nat_u8) simp
  then show ?thesis
    using open_awaited [OF assms(2,3), of "replicate 24 0" 0] assms(3)
    by (simp add: receive_plaintext_def r memcpy_front del: of_nat_add)
qed

text \<open>Both ends of a fresh session; the device answers the command with its status.\<close>

definition fresh_session :: npq_session where
  "fresh_session = session_zero\<lparr>s_established := 1\<rparr>"

definition answering_host :: host where
  "answering_host = sample_host\<lparr>h_reads :=
     [Received (of_nat (29 + length [1, 0, 0, 0, 0, 0, 0 :: u8]) # awaited_frame fresh_session [1, 0, 0, 0, 0, 0, 0]),
      Received (of_nat (29 + length [2, 1, 1 :: u8]) # awaited_frame (after_send (after_receive fresh_session)) [2, 1, 1])]\<rparr>"

lemma answering_host_succeeds: "\<exists>s' h'. run_live_demo fresh_session sample_options answering_host = (True, s', h')"
proof -
  let ?q = fresh_session and ?q1 = "after_receive fresh_session"
  have e: "s_established ?q \<noteq> 0" "s_established ?q1 \<noteq> 0" "s_send_sequence ?q1 \<noteq> -1" "s_established (after_send ?q1) \<noteq> 0"
    by (simp_all add: fresh_session_def session_zero_def after_receive_def after_send_def)
  obtain es where es: "h_reads answering_host = Received (of_nat (29 + length [1, 0, 0, 0, 0, 0, 0 :: u8]) # awaited_frame ?q [1, 0, 0, 0, 0, 0, 0]) # es"
    "es = [Received (of_nat (29 + length [2, 1, 1 :: u8]) # awaited_frame (after_send ?q1) [2, 1, 1])]"
    by (simp add: answering_host_def)
  define h1 where "h1 = answering_host\<lparr>h_reads := es\<rparr>"
  have "receive_plaintext ?q answering_host = (Some [1, 0, 0, 0, 0, 0, 0], ?q1, h1)"
    unfolding h1_def by (rule receive_awaited [OF es(1) e(1)]) simp
  then have r1: "receive_sensor ?q answering_host = (True, ?q1, h1)" by (simp add: receive_sensor_def)
  let ?p = "[0x10, o_led sample_options]"
  have n2: "(of_nat (length ?p) :: u8) = 2" "(of_nat (29 + length ?p) :: u8) = 31" by simp_all
  have q: "npq_seal (Some ?q1) (Some ?p) 2 (Some (replicate 64 0)) (Some 0) =
      (NPQ_OK, Some (after_send ?q1), Some (sealed_frame ?q1 ?p @ drop (29 + length ?p) (replicate 64 0)), Some 31)"
    using seal_ok [OF e(2,3), of ?p "replicate 64 0" 0] unfolding n2 by simp
  define F where "F = sealed_frame ?q1 ?p @ drop (29 + length ?p) (replicate 64 0)"
  have hw: "h_writes h1 = []" by (simp add: h1_def answering_host_def sample_host_def Let_def)
  define h2 where "h2 = h1\<lparr>h_sent := h_sent h1 @ 31 # take (unat (31 :: u8)) F\<rparr>"
  have w: "write_frame F 31 h1 = (True, h2)" unfolding h2_def by (rule write_frame_free [OF hw])
  have "h_reads h2 = Received (of_nat (29 + length [2, 1, 1 :: u8]) # awaited_frame (after_send ?q1) [2, 1, 1]) # []"
    by (simp add: h2_def h1_def es(2))
  from receive_awaited [OF this e(4)] have "receive_plaintext (after_send ?q1) h2 = (Some [2, 1, 1], after_receive (after_send ?q1), h2\<lparr>h_reads := []\<rparr>)" by simp
  then have r3: "require_status (after_send ?q1) 1 h2 = (True, after_receive (after_send ?q1), h2\<lparr>h_reads := []\<rparr>)" by (simp add: require_status_def)
  have t: "o_tamper_demo sample_options = 0" by (simp add: sample_options_def)
  show ?thesis
    unfolding run_live_demo_def Let_def r1 prod.case q F_def [symmetric] option.sel
    using t w r3 by simp
qed

theorem demo_switches_led_witness:
  "\<exists>sent fw fw'. length sent = 32 \<and> line_bytes (f_uart fw) = sent \<and> \<not> f_led fw \<and> receive_command fw = Some fw' \<and> f_led fw'"
proof -
  obtain s' h' where run: "run_live_demo fresh_session sample_options answering_host = (True, s', h')" using answering_host_succeeds by blast
  have o: "o_tamper_demo sample_options = 0" "o_led sample_options \<le> 1" "o_led sample_options \<noteq> 0" by (simp_all add: sample_options_def)
  from live_demo_sent [OF run o(1)] obtain sent where s: "h_sent h' = h_sent answering_host @ sent" by blast
  define fw where "fw = hear (map Arrived sent) ((main_start (\<lambda>_. 0) (replicate 36 0xff))\<lparr>f_session := fresh_session\<rparr>)"
  have f: "paired fresh_session (f_session fw)" "length (f_frame fw) = 64" "length (f_plaintext fw) = 24" "s_established (f_session fw) \<noteq> 0" "\<not> f_led fw"
    by (simp_all add: fw_def hear_def main_start_def paired_def fresh_session_def session_zero_def)
  have l: "line_bytes (f_uart fw) = sent @ []" unfolding fw_def by (simp add: line_hear)
  from demo_switches_led [OF run o(1,2) f(1-4) s l] obtain fw' where
    d: "sent = 31 # sealed_frame fresh_session [0x10, o_led sample_options]" "receive_command fw = Some fw'" "f_led fw' = (o_led sample_options \<noteq> 0)"
    by blast
  have "length sent = 32" by (simp add: d(1))
  with l d(2,3) o(3) f(5) show ?thesis by auto
qed

end
